(* ===== verification/Hackt_Prelude.thy ===== *)
theory Hackt_Prelude
  imports Complex_Main "HOL-Library.Word" "HOL-Library.Monad_Syntax" "HOL-Library.Multiset"
begin

text \<open>
  Shared vocabulary of the development: index types, the failure monad, checked array access, and
  the list, option and word lemmas that the component theories use.

  The simulator guards its state with the macros \<^verbatim>\<open>INVARIANT\<close>, \<^verbatim>\<open>ISE_INVARIANT\<close> and
  \<^verbatim>\<open>NEVER_NULL\<close>, which abort the process. An operation that contains such a check, or an array access
  whose bound it does not test, returns an option: \<^term>\<open>None\<close> means that the check failed, or that the
  access was out of range (undefined behaviour in C++). Everything the program itself treats as an
  error (return codes, recorded exceptions, break policies) is a value of the model instead.
\<close>

section \<open>Index types (sim/common.hh)\<close>

type_synonym node_index_type = nat
type_synonym expr_index_type = nat
type_synonym event_index_type = nat
type_synonym process_index_type = nat
type_synonym rule_index_type = nat
type_synonym lock_index_type = nat

text \<open>All four invalid indices are 0 in the source; they share one constant per kind here.\<close>

abbreviation (input) INVALID_NODE_INDEX :: node_index_type where "INVALID_NODE_INDEX \<equiv> 0"
abbreviation (input) INVALID_EXPR_INDEX :: expr_index_type where "INVALID_EXPR_INDEX \<equiv> 0"
abbreviation (input) INVALID_EVENT_INDEX :: event_index_type where "INVALID_EVENT_INDEX \<equiv> 0"
abbreviation (input) INVALID_RULE_INDEX :: rule_index_type where "INVALID_RULE_INDEX \<equiv> 0"
abbreviation (input) INVALID_LOCK_INDEX :: lock_index_type where "INVALID_LOCK_INDEX \<equiv> 0"

section \<open>Collections of rewrite rules\<close>

named_theorems pull_simps \<open>definitions of the pull-state predicates\<close>
named_theorems flag_simps \<open>bit-field accessors of nodes, events, rules and expressions\<close>
named_theorems queue_simps \<open>event queue and event pool bookkeeping\<close>
named_theorems state_simps \<open>projections of simulator states after an operation\<close>

section \<open>Checks that abort\<close>

definition INVARIANT :: "bool \<Rightarrow> unit option" where
  "INVARIANT b = (if b then Some () else None)"

definition nth_opt :: "'a list \<Rightarrow> nat \<Rightarrow> 'a option" where
  "nth_opt xs i = (if i < length xs then Some (xs ! i) else None)"

definition upd_opt :: "'a list \<Rightarrow> nat \<Rightarrow> 'a \<Rightarrow> 'a list option" where
  "upd_opt xs i v = (if i < length xs then Some (xs[i := v]) else None)"

lemma INVARIANT_eq_Some [simp]: "INVARIANT b = Some u \<longleftrightarrow> b"
  by (simp add: INVARIANT_def)

lemma INVARIANT_True [simp]: "INVARIANT True = Some ()"
  by (simp add: INVARIANT_def)

lemma INVARIANT_False [simp]: "INVARIANT False = None"
  by (simp add: INVARIANT_def)

lemma INVARIANT_bind [simp]: "(INVARIANT b \<bind> f) = (if b then f () else None)"
  by (simp add: INVARIANT_def)

lemma nth_opt_eq_Some [simp]: "nth_opt xs i = Some x \<longleftrightarrow> i < length xs \<and> x = xs ! i"
  by (auto simp: nth_opt_def)

lemma nth_opt_in: "i < length xs \<Longrightarrow> nth_opt xs i = Some (xs ! i)"
  by (simp add: nth_opt_def)

lemma nth_opt_eq_None: "nth_opt xs i = None \<longleftrightarrow> length xs \<le> i"
  by (auto simp: nth_opt_def)

lemma upd_opt_eq_Some [simp]: "upd_opt xs i v = Some ys \<longleftrightarrow> i < length xs \<and> ys = xs[i := v]"
  by (auto simp: upd_opt_def)

lemma upd_opt_in: "i < length xs \<Longrightarrow> upd_opt xs i v = Some (xs[i := v])"
  by (simp add: upd_opt_def)

lemmas opt_access = nth_opt_in upd_opt_in

section \<open>Lists\<close>

lemma count_list_le: "count_list xs a \<le> length xs"
  by (rule count_le_length)

lemma count_list_update:
  assumes "i < length xs"
  shows "count_list (xs[i := v]) a + (if xs ! i = a then 1 else 0)
       = count_list xs a + (if v = a then 1 else 0)"
  using assms
proof (induction xs arbitrary: i)
  case Nil
  then show ?case by simp
next
  case (Cons x xs)
  show ?case
  proof (cases i)
    case 0
    then show ?thesis by simp
  next
    case (Suc j)
    with Cons show ?thesis by fastforce
  qed
qed

lemma count_list_pos: "0 < count_list xs a \<longleftrightarrow> a \<in> set xs"
  by (metis count_list_0_iff neq0_conv)

lemma filter_list_update_length:
  assumes "i < length xs"
  shows "length (filter P (xs[i := v])) + (if P (xs ! i) then 1 else 0)
       = length (filter P xs) + (if P v then 1 else 0)"
  using assms
proof (induction xs arbitrary: i)
  case Nil
  then show ?case by simp
next
  case (Cons x xs)
  then show ?case by (cases i) auto
qed

lemma map_projection:
  assumes "\<And>x. f (g x) = f x" and "map g xs = map g ys"
  shows "map f xs = map f ys"
proof -
  have "map f zs = map f (map g zs)" for zs by (simp add: assms(1))
  with assms(2) show ?thesis by metis
qed

section \<open>Words\<close>

lemma of_nat_word_eq_0_small:
  assumes "n < 2 ^ LENGTH('a::len)"
  shows "(of_nat n :: 'a word) = 0 \<longleftrightarrow> n = 0"
  using assms by (auto simp: word_of_nat_eq_0_iff dest: nat_dvd_not_less)

end
