(* ===== verification/Logic_Values.thy ===== *)
theory Logic_Values
  imports Hackt_Prelude
begin

text \<open>
  Node values, pull states and error policies: src/sim/prsim/enums.hh, the lexing and inversion
  tables of src/sim/prsim/Node.cc, src/sim/command_error_codes.hh, and the value table of
  \<^verbatim>\<open>State\<close> (src/sim/prsim/State-prsim.cc).

  The enumerators \<^verbatim>\<open>LOGIC_INVALID\<close> and \<^verbatim>\<open>PULL_INVALID\<close> exist in the source only as error results of the
  lexing functions; those return an option here.
\<close>

section \<open>Enumerations\<close>

datatype pull_enum = PULL_OFF | PULL_ON | PULL_WEAK

datatype value_enum = LOGIC_LOW | LOGIC_HIGH | LOGIC_OTHER

text \<open>
  The simulator relies on the numeric coupling of the two enumerations: \<^verbatim>\<open>pull_enum(val)\<close> and
  \<^verbatim>\<open>value_enum(pull)\<close> are casts, and counts are updated from single bits of the code.
\<close>

fun pull_code :: "pull_enum \<Rightarrow> nat" where
  "pull_code PULL_OFF = 0"
| "pull_code PULL_ON = 1"
| "pull_code PULL_WEAK = 2"

fun value_code :: "value_enum \<Rightarrow> nat" where
  "value_code LOGIC_LOW = 0"
| "value_code LOGIC_HIGH = 1"
| "value_code LOGIC_OTHER = 2"

fun pull_of_value :: "value_enum \<Rightarrow> pull_enum" where
  "pull_of_value LOGIC_LOW = PULL_OFF"
| "pull_of_value LOGIC_HIGH = PULL_ON"
| "pull_of_value LOGIC_OTHER = PULL_WEAK"

fun value_of_pull :: "pull_enum \<Rightarrow> value_enum" where
  "value_of_pull PULL_OFF = LOGIC_LOW"
| "value_of_pull PULL_ON = LOGIC_HIGH"
| "value_of_pull PULL_WEAK = LOGIC_OTHER"

text \<open>The three bit tests on codes: \<^verbatim>\<open>next >> 1\<close>, \<^verbatim>\<open>next & LOGIC_VALUE\<close> and \<^verbatim>\<open>!next\<close>.\<close>

definition x_bit :: "pull_enum \<Rightarrow> nat" where
  "x_bit p = drop_bit 1 (pull_code p)"

definition one_bit :: "pull_enum \<Rightarrow> nat" where
  "one_bit p = and (pull_code p) 1"

definition zero_bit :: "pull_enum \<Rightarrow> nat" where
  "zero_bit p = (if pull_code p = 0 then 1 else 0)"

lemma x_bit_eq: "x_bit p = (if p = PULL_WEAK then 1 else 0)"
  by (cases p) (simp_all add: x_bit_def)

lemma one_bit_eq: "one_bit p = (if p = PULL_ON then 1 else 0)"
  by (cases p) (simp_all add: one_bit_def)

lemma zero_bit_eq: "zero_bit p = (if p = PULL_OFF then 1 else 0)"
  by (cases p) (simp_all add: zero_bit_def)

lemmas bit_eqs = x_bit_eq one_bit_eq zero_bit_eq

lemma value_of_pull_inverse [simp]: "value_of_pull (pull_of_value v) = v"
  by (cases v) simp_all

lemma pull_of_value_inverse [simp]: "pull_of_value (value_of_pull p) = p"
  by (cases p) simp_all

lemma code_coupling: "value_code v = pull_code (pull_of_value v)"
  by (cases v) simp_all

section \<open>Error policies\<close>

datatype error_policy_enum = ERROR_NONE | ERROR_WARN | ERROR_BREAK | ERROR_INTERACTIVE | ERROR_FATAL

text \<open>\<^verbatim>\<open>ERROR_IGNORE\<close> and \<^verbatim>\<open>ERROR_NONE\<close> are the same enumerator; severity is its numeric value.\<close>

abbreviation ERROR_IGNORE :: error_policy_enum where "ERROR_IGNORE \<equiv> ERROR_NONE"

fun policy_code :: "error_policy_enum \<Rightarrow> nat" where
  "policy_code ERROR_NONE = 0"
| "policy_code ERROR_WARN = 1"
| "policy_code ERROR_BREAK = 2"
| "policy_code ERROR_INTERACTIVE = 3"
| "policy_code ERROR_FATAL = 4"

instantiation error_policy_enum :: linorder
begin

definition less_eq_error_policy_enum :: "error_policy_enum \<Rightarrow> error_policy_enum \<Rightarrow> bool" where
  "a \<le> b \<longleftrightarrow> policy_code a \<le> policy_code b"

definition less_error_policy_enum :: "error_policy_enum \<Rightarrow> error_policy_enum \<Rightarrow> bool" where
  "a < b \<longleftrightarrow> policy_code a < policy_code b"

instance
proof
  fix a b c :: error_policy_enum
  show "a < b \<longleftrightarrow> a \<le> b \<and> \<not> b \<le> a"
    by (auto simp: less_eq_error_policy_enum_def less_error_policy_enum_def)
  show "a \<le> a" by (simp add: less_eq_error_policy_enum_def)
  show "a \<le> b \<Longrightarrow> b \<le> c \<Longrightarrow> a \<le> c"
    by (simp add: less_eq_error_policy_enum_def)
  show "a \<le> b \<Longrightarrow> b \<le> a \<Longrightarrow> a = b"
    by (cases a; cases b) (simp_all add: less_eq_error_policy_enum_def)
  show "a \<le> b \<or> b \<le> a"
    by (auto simp: less_eq_error_policy_enum_def)
qed

end

lemmas policy_order = less_eq_error_policy_enum_def less_error_policy_enum_def

text \<open>The accumulation \<^verbatim>\<open>if (E > err) err = E;\<close> keeps the most severe policy.\<close>

definition worse_policy :: "error_policy_enum \<Rightarrow> error_policy_enum \<Rightarrow> error_policy_enum" where
  "worse_policy err E = (if E > err then E else err)"

lemma worse_policy_max: "worse_policy err E = max err E"
  by (auto simp: worse_policy_def max_def)

section \<open>Tables (Node.cc, State-prsim.cc)\<close>

definition value_to_char :: "value_enum \<Rightarrow> char" where
  "value_to_char v = ''01X'' ! value_code v"

definition invert_value :: "value_enum \<Rightarrow> value_enum" where
  "invert_value v = [LOGIC_HIGH, LOGIC_LOW, LOGIC_OTHER] ! value_code v"

definition pull_to_value :: "pull_enum \<Rightarrow> pull_enum \<Rightarrow> value_enum" where
  "pull_to_value up dn =
     [[LOGIC_OTHER, LOGIC_LOW, LOGIC_OTHER],
      [LOGIC_HIGH, LOGIC_OTHER, LOGIC_OTHER],
      [LOGIC_OTHER, LOGIC_OTHER, LOGIC_OTHER]] ! pull_code up ! pull_code dn"

text \<open>
  \<^verbatim>\<open>NodeState::char_to_value\<close>. The letter \<^verbatim>\<open>?\<close> draws a random bit (\<^verbatim>\<open>rand48<bool>\<close>, libc), which is the
  first argument.
\<close>

definition char_to_value :: "bool \<Rightarrow> char \<Rightarrow> value_enum option" where
  "char_to_value r v =
     (if v \<in> {CHR ''f'', CHR ''F'', CHR ''0''} then Some LOGIC_LOW
      else if v \<in> {CHR ''t'', CHR ''T'', CHR ''1''} then Some LOGIC_HIGH
      else if v \<in> {CHR ''X'', CHR ''x'', CHR ''U'', CHR ''u''} then Some LOGIC_OTHER
      else if v = CHR ''?'' then Some (if r then LOGIC_HIGH else LOGIC_LOW)
      else None)"

definition char_to_pull :: "char \<Rightarrow> pull_enum option" where
  "char_to_pull v =
     (if v = CHR ''0'' then Some PULL_OFF
      else if v = CHR ''1'' then Some PULL_ON
      else if v \<in> {CHR ''X'', CHR ''x'', CHR ''U'', CHR ''u''} then Some PULL_WEAK
      else None)"

definition string_to_value :: "bool \<Rightarrow> string \<Rightarrow> value_enum option" where
  "string_to_value r v = (if length v \<noteq> 1 then None else char_to_value r (v ! 0))"

definition string_to_pull :: "string \<Rightarrow> pull_enum option" where
  "string_to_pull v = (if length v \<noteq> 1 then None else char_to_pull (v ! 0))"

lemma invert_value_simps [simp]:
  "invert_value LOGIC_LOW = LOGIC_HIGH"
  "invert_value LOGIC_HIGH = LOGIC_LOW"
  "invert_value LOGIC_OTHER = LOGIC_OTHER"
  by (simp_all add: invert_value_def)

lemma invert_value_involution [simp]: "invert_value (invert_value v) = v"
  by (cases v) simp_all

text \<open>Reading back what is printed, whatever the random bit; only the documented letters are accepted.\<close>

lemma value_char_roundtrip:
  "string_to_value r [value_to_char v] = Some v"
  "char_to_value r c \<noteq> None \<longleftrightarrow> c \<in> set ''fF0tT1XxUu?''"
  by (cases v) (auto simp: string_to_value_def value_to_char_def char_to_value_def)

end
