(* ===== verification/Prs_Expr.thy ===== *)
theory Prs_Expr
  imports Logic_Values
begin

text \<open>
  Production-rule expressions: src/sim/prsim/Expr.hh and src/sim/prsim/Expr.cc.

  \<^verbatim>\<open>Expr\<close> is the structure of one subexpression (uplink, type bits, number of children), \<^verbatim>\<open>ExprState\<close> its
  two counters, \<^verbatim>\<open>ExprGraphNode\<close> the downward graph. The counters are 16-bit (\<^verbatim>\<open>expr_count_type\<close> is
  \<^verbatim>\<open>ushort\<close>, src/Object/lang/PRS_fwd.hh) and the updates wrap. The lemmas relate them to a three-valued
  (strong Kleene) evaluation of the children.
\<close>

unbundle bit_operations_syntax

type_synonym count_type = "16 word"
type_synonym uchar = "8 word"

section \<open>struct Expr\<close>

abbreviation EXPR_NODE :: uchar where "EXPR_NODE \<equiv> 0x00"
abbreviation EXPR_OR :: uchar where "EXPR_OR \<equiv> 0x00"
abbreviation EXPR_AND :: uchar where "EXPR_AND \<equiv> 0x01"
abbreviation EXPR_NOT :: uchar where "EXPR_NOT \<equiv> 0x02"
abbreviation EXPR_NOR :: uchar where "EXPR_NOR \<equiv> 0x02"
abbreviation EXPR_NAND :: uchar where "EXPR_NAND \<equiv> 0x03"
abbreviation EXPR_MASK :: uchar where "EXPR_MASK \<equiv> 0x03"
abbreviation EXPR_ROOT :: uchar where "EXPR_ROOT \<equiv> 0x04"

record expr =
  expr_parent :: expr_index_type
  expr_type :: uchar
  expr_size :: count_type

definition Expr_default :: expr where
  "Expr_default = \<lparr>expr_parent = INVALID_EXPR_INDEX, expr_type = 0, expr_size = 0\<rparr>"

text \<open>The two other constructors check their arguments with \<^verbatim>\<open>INVARIANT\<close>.\<close>

definition Expr_type_size :: "uchar \<Rightarrow> count_type \<Rightarrow> expr option" where
  "Expr_type_size t s = do {
     INVARIANT (s \<noteq> 0);
     Some \<lparr>expr_parent = INVALID_EXPR_INDEX, expr_type = t, expr_size = s\<rparr> }"

definition Expr_parent_type_size :: "expr_index_type \<Rightarrow> uchar \<Rightarrow> count_type \<Rightarrow> expr option" where
  "Expr_parent_type_size p t s = do {
     INVARIANT (p \<noteq> 0);
     INVARIANT (s \<noteq> 0);
     Some \<lparr>expr_parent = p, expr_type = t, expr_size = s\<rparr> }"

definition set_root :: "expr \<Rightarrow> expr" where
  "set_root e = e\<lparr>expr_type := expr_type e OR EXPR_ROOT\<rparr>"

definition unset_root :: "expr \<Rightarrow> expr" where
  "unset_root e = e\<lparr>expr_type := expr_type e AND NOT EXPR_ROOT\<rparr>"

definition is_root :: "expr \<Rightarrow> bool" where
  "is_root e \<longleftrightarrow> expr_type e AND EXPR_ROOT \<noteq> 0"

definition is_not :: "expr \<Rightarrow> bool" where
  "is_not e \<longleftrightarrow> expr_type e AND EXPR_NOT \<noteq> 0"

definition toggle_not :: "expr \<Rightarrow> expr" where
  "toggle_not e = e\<lparr>expr_type := expr_type e XOR EXPR_NOT\<rparr>"

definition toggle_demorgan :: "expr \<Rightarrow> expr" where
  "toggle_demorgan e = e\<lparr>expr_type := expr_type e XOR (EXPR_NOT OR EXPR_AND)\<rparr>"

definition expr_wipe :: "expr \<Rightarrow> expr" where
  "expr_wipe e = e\<lparr>expr_size := 0\<rparr>"

definition expr_wiped :: "expr \<Rightarrow> bool" where
  "expr_wiped e \<longleftrightarrow> expr_size e = 0"

definition is_trivial :: "expr \<Rightarrow> bool" where
  "is_trivial e \<longleftrightarrow> expr_size e = 1 \<and> \<not> is_not e"

definition set_parent_expr :: "expr_index_type \<Rightarrow> expr \<Rightarrow> expr" where
  "set_parent_expr p e = (unset_root e)\<lparr>expr_parent := p\<rparr>"

definition set_parent_node :: "node_index_type \<Rightarrow> expr \<Rightarrow> expr" where
  "set_parent_node n e = (set_root e)\<lparr>expr_parent := n\<rparr>"

definition expr_pull :: "node_index_type \<Rightarrow> expr \<Rightarrow> expr" where
  "expr_pull ni e = (set_root e)\<lparr>expr_parent := ni\<rparr>"

definition invariant_root :: "expr \<Rightarrow> expr" where
  "invariant_root e = set_root e"

definition is_or :: "expr \<Rightarrow> bool" where
  "is_or e \<longleftrightarrow> \<not> (expr_type e AND EXPR_AND \<noteq> 0) \<and> \<not> (expr_type e AND EXPR_NOT \<noteq> 0)"

definition is_conjunctive :: "expr \<Rightarrow> bool" where
  "is_conjunctive e \<longleftrightarrow> expr_type e AND EXPR_AND \<noteq> 0"

definition is_disjunctive :: "expr \<Rightarrow> bool" where
  "is_disjunctive e \<longleftrightarrow> \<not> (expr_type e AND EXPR_AND \<noteq> 0)"

definition is_nand :: "expr \<Rightarrow> bool" where
  "is_nand e \<longleftrightarrow> expr_type e AND EXPR_AND \<noteq> 0 \<and> expr_type e AND EXPR_NOT \<noteq> 0"

definition parenthesize :: "uchar \<Rightarrow> bool \<Rightarrow> expr \<Rightarrow> bool" where
  "parenthesize ptype proot e =
     (let neg = (expr_type e AND EXPR_NOT \<noteq> 0);
          mismatch = ((expr_type e XOR ptype) AND EXPR_MASK \<noteq> 0)
      in expr_size e > 1 \<and> (neg \<or> (mismatch \<and> \<not> proot)))"

text \<open>Enumerators of src/Object/lang/PRS_enum.hh that \<^verbatim>\<open>to_prs_enum\<close> returns.\<close>

abbreviation PRS_NOT_EXPR_TYPE_ENUM :: uchar where "PRS_NOT_EXPR_TYPE_ENUM \<equiv> 1"
abbreviation PRS_AND_EXPR_TYPE_ENUM :: uchar where "PRS_AND_EXPR_TYPE_ENUM \<equiv> 2"
abbreviation PRS_OR_EXPR_TYPE_ENUM :: uchar where "PRS_OR_EXPR_TYPE_ENUM \<equiv> 3"

definition to_prs_enum :: "expr \<Rightarrow> uchar" where
  "to_prs_enum e =
     (if is_not e then PRS_NOT_EXPR_TYPE_ENUM
      else if is_or e then PRS_OR_EXPR_TYPE_ENUM
      else PRS_AND_EXPR_TYPE_ENUM)"

text \<open>
  The switch over \<^verbatim>\<open>type & EXPR_MASK\<close> of \<^verbatim>\<open>dump_type_dot_shape\<close>; its default branch is \<^verbatim>\<open>THROW_EXIT\<close>.
\<close>

definition dump_type_dot_shape :: "expr \<Rightarrow> string option" where
  "dump_type_dot_shape e =
     (let t = expr_type e AND EXPR_MASK in
      if t = EXPR_OR then Some ''triangle''
      else if t = EXPR_AND then Some ''trapezium''
      else if t = EXPR_NAND then Some ''invtrapezium''
      else if t = EXPR_NOR then Some ''invtriangle''
      else None)"

subsection \<open>Type bits\<close>

lemma and1_bit: "(w :: 'a::len word) AND 1 \<noteq> 0 \<longleftrightarrow> bit w 0"
  using and_exp_eq_0_iff_not_bit [of w 0] by simp

lemma and2_bit: "(w :: 'a::len word) AND 2 \<noteq> 0 \<longleftrightarrow> bit w 1"
  using and_exp_eq_0_iff_not_bit [of w 1] by simp

lemma and4_bit: "(w :: 'a::len word) AND 4 \<noteq> 0 \<longleftrightarrow> bit w 2"
  using and_exp_eq_0_iff_not_bit [of w 2] by simp

lemmas expr_bits [flag_simps] = is_root_def is_not_def is_or_def is_conjunctive_def
  is_disjunctive_def is_nand_def and1_bit and2_bit and4_bit

lemma is_root_update [simp]:
  "is_root (set_root e)" "\<not> is_root (unset_root e)"
  "is_root (toggle_not e) = is_root e" "is_root (toggle_demorgan e) = is_root e"
  by (simp_all add: set_root_def unset_root_def toggle_not_def toggle_demorgan_def
      is_root_def and4_bit bit_simps)

lemma logic_function_root [simp]:
  "is_not (set_root e) = is_not e" "is_not (unset_root e) = is_not e"
  "is_disjunctive (set_root e) = is_disjunctive e" "is_disjunctive (unset_root e) = is_disjunctive e"
  by (simp_all add: set_root_def unset_root_def is_not_def is_disjunctive_def and1_bit and2_bit bit_simps)

lemma toggle_not_flips [simp]:
  "is_not (toggle_not e) \<longleftrightarrow> \<not> is_not e"
  "is_disjunctive (toggle_not e) \<longleftrightarrow> is_disjunctive e"
  by (simp_all add: toggle_not_def is_not_def is_disjunctive_def and1_bit and2_bit bit_simps)

lemma toggle_demorgan_flips [simp]:
  "is_not (toggle_demorgan e) \<longleftrightarrow> \<not> is_not e"
  "is_disjunctive (toggle_demorgan e) \<longleftrightarrow> \<not> is_disjunctive e"
  by (simp_all add: toggle_demorgan_def is_not_def is_disjunctive_def and1_bit and2_bit bit_simps)

lemma is_conjunctive_iff: "is_conjunctive e \<longleftrightarrow> \<not> is_disjunctive e"
  by (simp add: is_conjunctive_def is_disjunctive_def)

lemma expr_fields [simp]:
  "expr_parent (set_root e) = expr_parent e" "expr_size (set_root e) = expr_size e"
  "expr_parent (unset_root e) = expr_parent e" "expr_size (unset_root e) = expr_size e"
  "expr_size (toggle_not e) = expr_size e" "expr_size (toggle_demorgan e) = expr_size e"
  by (simp_all add: set_root_def unset_root_def toggle_not_def toggle_demorgan_def)

section \<open>struct ExprState\<close>

record expr_state =
  countdown :: count_type
  unknowns :: count_type

definition expr_state_initialize :: "expr \<Rightarrow> expr_state" where
  "expr_state_initialize e = \<lparr>countdown = 0, unknowns = expr_size e\<rparr>"

definition negate_pull :: "pull_enum \<Rightarrow> pull_enum" where
  "negate_pull p = (if p = PULL_WEAK then PULL_WEAK else if p = PULL_OFF then PULL_ON else PULL_OFF)"

definition or_pull_state :: "expr_state \<Rightarrow> expr \<Rightarrow> pull_enum" where
  "or_pull_state st e =
     (let ret = (if countdown st \<noteq> 0 then PULL_ON
                 else if unknowns st \<noteq> 0 then PULL_WEAK else PULL_OFF)
      in if is_not e then negate_pull ret else ret)"

definition and_pull_state :: "expr_state \<Rightarrow> expr \<Rightarrow> pull_enum" where
  "and_pull_state st e =
     (let ret = (if countdown st \<noteq> 0 then PULL_OFF
                 else if unknowns st \<noteq> 0 then PULL_WEAK else PULL_ON)
      in if is_not e then negate_pull ret else ret)"

definition pull_state :: "expr_state \<Rightarrow> expr \<Rightarrow> pull_enum" where
  "pull_state st e = (if is_disjunctive e then or_pull_state st e else and_pull_state st e)"

text \<open>
  The counter update of one iteration of \<^verbatim>\<open>State::evaluate_kernel\<close> (State-prsim.cc): one child changes
  its pull from \<^verbatim>\<open>prev\<close> to \<^verbatim>\<open>next\<close>. The right-hand sides are computed in \<^verbatim>\<open>int\<close> and reduced to 16 bits.
\<close>

definition expr_count_update :: "expr \<Rightarrow> pull_enum \<Rightarrow> pull_enum \<Rightarrow> expr_state \<Rightarrow> expr_state" where
  "expr_count_update e prev next u =
     (if is_disjunctive e then
        u\<lparr>unknowns := unknowns u + (of_nat (x_bit next) - of_nat (x_bit prev)),
          countdown := countdown u + (of_nat (one_bit next) - of_nat (one_bit prev))\<rparr>
      else
        u\<lparr>unknowns := unknowns u + (of_nat (x_bit next) - of_nat (x_bit prev)),
          countdown := countdown u + (of_nat (zero_bit next) - of_nat (zero_bit prev))\<rparr>)"

section \<open>Reference semantics of one expression\<close>

definition kleene_or :: "pull_enum list \<Rightarrow> pull_enum" where
  "kleene_or ps = (if PULL_ON \<in> set ps then PULL_ON
                   else if PULL_WEAK \<in> set ps then PULL_WEAK else PULL_OFF)"

definition kleene_and :: "pull_enum list \<Rightarrow> pull_enum" where
  "kleene_and ps = (if PULL_OFF \<in> set ps then PULL_OFF
                    else if PULL_WEAK \<in> set ps then PULL_WEAK else PULL_ON)"

definition kleene_expr :: "expr \<Rightarrow> pull_enum list \<Rightarrow> pull_enum" where
  "kleene_expr e ps =
     (let r = (if is_disjunctive e then kleene_or ps else kleene_and ps)
      in if is_not e then negate_pull r else r)"

text \<open>The counters of an expression agree with the pulls of its children.\<close>

definition counts_ok :: "expr \<Rightarrow> expr_state \<Rightarrow> pull_enum list \<Rightarrow> bool" where
  "counts_ok e u ps \<longleftrightarrow>
     length ps = unat (expr_size e) \<and>
     unknowns u = of_nat (count_list ps PULL_WEAK) \<and>
     countdown u = of_nat (count_list ps (if is_disjunctive e then PULL_ON else PULL_OFF))"

lemma negate_pull_simps [simp]:
  "negate_pull PULL_OFF = PULL_ON" "negate_pull PULL_ON = PULL_OFF"
  "negate_pull PULL_WEAK = PULL_WEAK"
  by (simp_all add: negate_pull_def)

lemma negate_pull_involution [simp]: "negate_pull (negate_pull p) = p"
  by (cases p) simp_all

lemma negate_pull_inject: "negate_pull p = negate_pull q \<longleftrightarrow> p = q"
  by (cases p; cases q) simp_all

lemma negate_pull_eq: "q = negate_pull p \<longleftrightarrow> p = negate_pull q"
  by (cases p; cases q) simp_all

lemma kleene_demorgan: "kleene_and (map negate_pull ps) = negate_pull (kleene_or ps)"
  by (simp add: kleene_and_def kleene_or_def image_iff negate_pull_eq)

lemma kleene_demorgan': "kleene_or (map negate_pull ps) = negate_pull (kleene_and ps)"
  by (simp add: kleene_and_def kleene_or_def image_iff negate_pull_eq)

lemma small_count:
  assumes "length ps = unat (n :: count_type)"
  shows "(of_nat (count_list ps a) :: count_type) = 0 \<longleftrightarrow> a \<notin> set ps"
proof -
  have "count_list ps a < 2 ^ LENGTH(16)"
    using count_list_le [of ps a] unsigned_less [of n, where 'a = nat] assms by simp
  then show ?thesis
    by (simp add: of_nat_word_eq_0_small count_list_0_iff)
qed

lemma pull_state_kleene:
  assumes "counts_ok e u ps"
  shows "pull_state u e = kleene_expr e ps"
proof -
  from assms have n: "length ps = unat (expr_size e)"
    and x: "unknowns u = of_nat (count_list ps PULL_WEAK)"
    and c: "countdown u = of_nat (count_list ps (if is_disjunctive e then PULL_ON else PULL_OFF))"
    by (simp_all add: counts_ok_def)
  show ?thesis
    by (simp add: pull_state_def or_pull_state_def and_pull_state_def kleene_expr_def Let_def
        kleene_or_def kleene_and_def x c small_count [OF n])
qed

lemma of_nat_count_update:
  assumes "i < length ps"
  shows "(of_nat (count_list (ps[i := v]) a) :: 'a::len word)
       = of_nat (count_list ps a) + ((if v = a then 1 else 0) - (if ps ! i = a then 1 else 0))"
proof -
  let ?old = "if ps ! i = a then 1 else (0 :: nat)" and ?new = "if v = a then 1 else (0 :: nat)"
  have "(of_nat (count_list (ps[i := v]) a) :: 'a word) + of_nat ?old
      = of_nat (count_list ps a) + of_nat ?new"
    using count_list_update [OF assms, of v a] by (simp only: flip: of_nat_add)
  then show ?thesis by (simp add: algebra_simps split: if_splits)
qed

lemma counts_ok_update:
  assumes "counts_ok e u ps" and "i < length ps" and "ps ! i = prev"
  shows "counts_ok e (expr_count_update e prev next u) (ps[i := next])"
  using assms
  by (auto simp: counts_ok_def expr_count_update_def bit_eqs of_nat_count_update)

lemma counts_ok_initialize:
  "counts_ok e (expr_state_initialize e) (replicate (unat (expr_size e)) PULL_WEAK)"
proof -
  have "count_list (replicate n PULL_WEAK) a = (if a = PULL_WEAK then n else 0)" for n a
    by (induction n) auto
  then show ?thesis by (simp add: counts_ok_def expr_state_initialize_def)
qed

section \<open>Counting children incrementally\<close>

text \<open>
  What \<^verbatim>\<open>State::evaluate\<close> relies on, for expressions and for the fanin of nodes alike: counters that are updated by
  the change of one child agree with a function of all children.
\<close>

locale pull_counter =
  fixes ok :: "'c \<Rightarrow> pull_enum list \<Rightarrow> bool"
    and upd :: "pull_enum \<Rightarrow> pull_enum \<Rightarrow> 'c \<Rightarrow> 'c"
    and value_of :: "'c \<Rightarrow> pull_enum"
    and ref :: "pull_enum list \<Rightarrow> pull_enum"
  assumes value_ref: "ok c ps \<Longrightarrow> value_of c = ref ps"
    and ok_upd: "ok c ps \<Longrightarrow> i < length ps \<Longrightarrow> ok (upd (ps ! i) v c) (ps[i := v])"
begin

lemma changes_ok:
  assumes "ok c ps" and "\<forall>(i, v) \<in> set chs. i < length ps"
  shows "ok (fst (fold (\<lambda>(i, v) (c, ps). (upd (ps ! i) v c, ps[i := v])) chs (c, ps)))
            (fold (\<lambda>(i, v) ps. ps[i := v]) chs ps)"
  using assms by (induction chs arbitrary: c ps) (auto simp: ok_upd)

lemma changes_value:
  assumes "ok c ps" and "\<forall>(i, v) \<in> set chs. i < length ps"
  shows "value_of (fst (fold (\<lambda>(i, v) (c, ps). (upd (ps ! i) v c, ps[i := v])) chs (c, ps))) =
         ref (fold (\<lambda>(i, v) ps. ps[i := v]) chs ps)"
  by (rule value_ref [OF changes_ok [OF assms]])

end

interpretation exc: pull_counter "counts_ok e" "expr_count_update e" "\<lambda>u. pull_state u e" "kleene_expr e" for e
  by unfold_locales (simp_all add: pull_state_kleene counts_ok_update)

section \<open>struct ExprGraphNode\<close>

abbreviation INVALID_OFFSET :: count_type where "INVALID_OFFSET \<equiv> 0xFF"

record expr_graph_node =
  offset :: count_type
  children :: "(bool \<times> expr_index_type) list"

definition ExprGraphNode_default :: expr_graph_node where
  "ExprGraphNode_default = \<lparr>offset = INVALID_OFFSET, children = []\<rparr>"

definition push_back_expr :: "expr_index_type \<Rightarrow> expr_graph_node \<Rightarrow> expr_graph_node" where
  "push_back_expr i g = g\<lparr>children := children g @ [(False, i)]\<rparr>"

definition push_back_node :: "node_index_type \<Rightarrow> expr_graph_node \<Rightarrow> expr_graph_node" where
  "push_back_node i g = g\<lparr>children := children g @ [(True, i)]\<rparr>"

definition node_membership_checker :: "node_index_type \<Rightarrow> bool \<times> expr_index_type \<Rightarrow> bool" where
  "node_membership_checker node_index c = (if fst c then snd c = node_index else False)"

definition contains_node_fanin :: "node_index_type \<Rightarrow> expr_graph_node \<Rightarrow> bool" where
  "contains_node_fanin i g \<longleftrightarrow> find (node_membership_checker i) (children g) \<noteq> None"

definition graph_wipe :: "expr_graph_node \<Rightarrow> expr_graph_node" where
  "graph_wipe g = g\<lparr>children := []\<rparr>"

definition graph_wiped :: "expr_graph_node \<Rightarrow> bool" where
  "graph_wiped g \<longleftrightarrow> children g = []"

definition add_children_size :: "nat \<Rightarrow> expr_graph_node \<Rightarrow> nat" where
  "add_children_size s g = s + length (children g)"

text \<open>The part of \<^verbatim>\<open>dump_struct\<close> that prints the offset: a dash stands for an unset offset.\<close>

definition offset_printed_as_unset :: "expr_graph_node \<Rightarrow> bool" where
  "offset_printed_as_unset g \<longleftrightarrow> offset g = INVALID_OFFSET"

lemma contains_node_fanin_iff: "contains_node_fanin i g \<longleftrightarrow> (True, i) \<in> set (children g)"
  by (auto simp: contains_node_fanin_def find_None_iff node_membership_checker_def split: if_splits)

lemma contains_node_fanin_push:
  "contains_node_fanin i (push_back_node j g) \<longleftrightarrow> i = j \<or> contains_node_fanin i g"
  "contains_node_fanin i (push_back_expr j g) \<longleftrightarrow> contains_node_fanin i g"
  by (auto simp: contains_node_fanin_iff push_back_node_def push_back_expr_def)

end
