(* ===== verification/Event_Queue.thy ===== *)
theory Event_Queue
  imports Hackt_Prelude
begin

text \<open>
  The event queue of src/sim/event.hh and src/sim/event.tcc, and the time policy of src/sim/time.hh.

  \<^verbatim>\<open>EventQueue\<close> wraps a \<^verbatim>\<open>std::multiset\<close> of placeholders ordered by time only (\<^verbatim>\<open>MULTIMAP_EVENT_QUEUE\<close> is 1). A
  multiset keeps its elements in order and inserts a new element behind the elements that are
  equivalent to it, so the queue is modelled as a list in iteration order. The locale
  \<open>event_scheduler\<close> states what the simulator relies on; the queue interprets it.
\<close>

section \<open>Placeholders\<close>

record 't event_placeholder =
  ep_time :: 't
  ep_index :: event_index_type

definition placeholder_less :: "('t::linorder) event_placeholder \<Rightarrow> 't event_placeholder \<Rightarrow> bool" where
  "placeholder_less l r \<longleftrightarrow> ep_time l < ep_time r"

definition index_finder :: "event_index_type \<Rightarrow> 't event_placeholder \<Rightarrow> bool" where
  "index_finder i t \<longleftrightarrow> ep_index t = i"

section \<open>class EventQueue\<close>

type_synonym 't event_queue = "'t event_placeholder list"

definition eq_new :: "'t event_queue" where
  "eq_new = []"

definition eq_empty :: "'t event_queue \<Rightarrow> bool" where
  "eq_empty q \<longleftrightarrow> q = []"

fun eq_push :: "('t::linorder) event_placeholder \<Rightarrow> 't event_queue \<Rightarrow> 't event_queue" where
  "eq_push p [] = [p]"
| "eq_push p (q # qs) = (if placeholder_less p q then p # q # qs else q # eq_push p qs)"

definition eq_size :: "'t event_queue \<Rightarrow> nat" where
  "eq_size q = length q"

text \<open>\<^verbatim>\<open>pop\<close> dereferences \<^verbatim>\<open>begin()\<close> without a test: undefined on an empty queue.\<close>

definition eq_pop :: "'t event_queue \<Rightarrow> ('t event_placeholder \<times> 't event_queue) option" where
  "eq_pop q = (case q of [] \<Rightarrow> None | p # ps \<Rightarrow> Some (p, ps))"

definition eq_top :: "'t event_queue \<Rightarrow> 't event_placeholder option" where
  "eq_top q = do { INVARIANT (\<not> eq_empty q); Some (hd q) }"

definition eq_clear :: "'t event_queue \<Rightarrow> 't event_queue" where
  "eq_clear q = []"

definition eq_copy_to :: "'t event_queue \<Rightarrow> 't event_placeholder list \<Rightarrow> 't event_placeholder list" where
  "eq_copy_to q s = s @ q"

definition eq_sorted :: "('t::linorder) event_queue \<Rightarrow> bool" where
  "eq_sorted q \<longleftrightarrow> sorted (map ep_time q)"

lemma mset_eq_push [simp]: "mset (eq_push p q) = add_mset p (mset q)"
  by (induction q) auto

lemma set_eq_push [simp]: "set (eq_push p q) = insert p (set q)"
  by (induction q) auto

lemma length_eq_push [simp]: "length (eq_push p q) = Suc (length q)"
  by (induction q) auto

lemma eq_push_not_Nil [simp]: "eq_push p q \<noteq> []"
  by (cases q) auto

lemma eq_sorted_push [simp, intro]: "eq_sorted q \<Longrightarrow> eq_sorted (eq_push p q)"
  by (induction q) (auto simp: eq_sorted_def placeholder_less_def)

lemma eq_sorted_Nil [simp]: "eq_sorted []"
  by (simp add: eq_sorted_def)

lemma eq_sorted_Cons: "eq_sorted (p # q) \<longleftrightarrow> (\<forall>x \<in> set q. ep_time p \<le> ep_time x) \<and> eq_sorted q"
  by (simp add: eq_sorted_def)

lemma eq_sorted_filter: "eq_sorted q \<Longrightarrow> eq_sorted (filter P q)"
  by (simp add: eq_sorted_def sorted_filter)

text \<open>First come, first served among placeholders of the same time.\<close>

lemma eq_push_fifo:
  assumes "eq_sorted q"
  shows "filter (\<lambda>x. ep_time x = t) (eq_push p q)
       = filter (\<lambda>x. ep_time x = t) q @ (if ep_time p = t then [p] else [])"
  using assms
proof (induction q)
  case Nil
  then show ?case by simp
next
  case (Cons x q)
  show ?case
  proof (cases "ep_time p < ep_time x")
    case True
    with Cons.prems have "filter (\<lambda>y. ep_time y = ep_time p) (x # q) = []"
      by (auto simp: eq_sorted_Cons filter_empty_conv)
    with True show ?thesis by (auto simp: placeholder_less_def)
  next
    case False
    with Cons show ?thesis by (simp add: placeholder_less_def eq_sorted_Cons)
  qed
qed

section \<open>The scheduler interface\<close>

fun drain :: "('q \<Rightarrow> ('e \<times> 'q) option) \<Rightarrow> nat \<Rightarrow> 'q \<Rightarrow> 'e list" where
  "drain pop 0 q = []"
| "drain pop (Suc n) q = (case pop q of None \<Rightarrow> [] | Some (e, q') \<Rightarrow> e # drain pop n q')"

fun push_all :: "('e \<Rightarrow> 'q \<Rightarrow> 'q) \<Rightarrow> 'e list \<Rightarrow> 'q \<Rightarrow> 'q" where
  "push_all push [] q = q"
| "push_all push (e # es) q = push_all push es (push e q)"

locale event_scheduler =
  fixes empty :: 'q
    and push :: "'e \<Rightarrow> 'q \<Rightarrow> 'q"
    and pop :: "'q \<Rightarrow> ('e \<times> 'q) option"
    and elems :: "'q \<Rightarrow> 'e multiset"
    and key :: "'e \<Rightarrow> 't::linorder"
    and invar :: "'q \<Rightarrow> bool"
  assumes elems_empty: "elems empty = {#}"
    and elems_push: "invar q \<Longrightarrow> elems (push e q) = add_mset e (elems q)"
    and pop_None: "invar q \<Longrightarrow> pop q = None \<longleftrightarrow> elems q = {#}"
    and pop_elems: "invar q \<Longrightarrow> pop q = Some (e, q') \<Longrightarrow> elems q = add_mset e (elems q')"
    and pop_min: "invar q \<Longrightarrow> pop q = Some (e, q') \<Longrightarrow> x \<in># elems q' \<Longrightarrow> key e \<le> key x"
    and invar_empty: "invar empty"
    and invar_push: "invar q \<Longrightarrow> invar (push e q)"
    and invar_pop: "invar q \<Longrightarrow> pop q = Some (e, q') \<Longrightarrow> invar q'"
begin

lemma push_all_elems: "invar q \<Longrightarrow> elems (push_all push es q) = elems q + mset es"
  by (induction es arbitrary: q) (auto simp: elems_push invar_push)

lemma push_all_invar: "invar q \<Longrightarrow> invar (push_all push es q)"
  by (induction es arbitrary: q) (auto simp: invar_push)

lemma drain_subset: "invar q \<Longrightarrow> mset (drain pop n q) \<subseteq># elems q"
proof (induction n arbitrary: q)
  case 0
  then show ?case by simp
next
  case (Suc n)
  then show ?case
    by (auto split: option.splits simp: pop_elems intro: invar_pop)
qed

lemma drain_sorted: "invar q \<Longrightarrow> sorted (map key (drain pop n q))"
proof (induction n arbitrary: q)
  case 0
  then show ?case by simp
next
  case (Suc n)
  show ?case
  proof (cases "pop q")
    case None
    then show ?thesis by simp
  next
    case (Some r)
    then obtain e q' where r: "pop q = Some (e, q')" by (cases r) auto
    have "key e \<le> key x" if "x \<in> set (drain pop n q')" for x
      using that drain_subset [OF invar_pop [OF Suc.prems r], of n] pop_min [OF Suc.prems r]
      by (metis in_multiset_in_set mset_subset_eqD)
    moreover have "sorted (map key (drain pop n q'))"
      by (rule Suc.IH [OF invar_pop [OF Suc.prems r]])
    ultimately show ?thesis using r by auto
  qed
qed

lemma drain_complete: "invar q \<Longrightarrow> size (elems q) \<le> n \<Longrightarrow> mset (drain pop n q) = elems q"
proof (induction n arbitrary: q)
  case 0
  then show ?case by simp
next
  case (Suc n)
  show ?case
  proof (cases "pop q")
    case None
    moreover from None have "elems q = {#}" using pop_None [OF Suc.prems(1)] by simp
    ultimately show ?thesis by simp
  next
    case (Some r)
    then obtain e q' where r: "pop q = Some (e, q')" by (cases r) auto
    note e = pop_elems [OF Suc.prems(1) r]
    with Suc.prems(2) have "size (elems q') \<le> n" by simp
    with Suc.IH [OF invar_pop [OF Suc.prems(1) r]] e r show ?thesis by simp
  qed
qed

lemma run_order:
  assumes "length es \<le> n"
  shows "mset (drain pop n (push_all push es empty)) = mset es
       \<and> sorted (map key (drain pop n (push_all push es empty)))"
  using drain_complete [of "push_all push es empty" n] drain_sorted [of "push_all push es empty" n]
    push_all_invar [of empty es] push_all_elems [of empty es] invar_empty elems_empty assms
  by simp

end

interpretation evq: event_scheduler eq_new eq_push eq_pop mset ep_time eq_sorted
  by unfold_locales (auto simp: eq_new_def eq_pop_def eq_sorted_Cons split: list.splits)

text \<open>Inserting events one by one into the queue is a stable sort by time.\<close>

lemma drain_eq_pop: "length q \<le> n \<Longrightarrow> drain eq_pop n q = q"
proof (induction n arbitrary: q)
  case (Suc n)
  then show ?case by (cases q) (simp_all add: eq_pop_def)
qed simp

lemma push_all_fifo:
  assumes "eq_sorted q"
  shows "filter (\<lambda>x. ep_time x = t) (push_all eq_push es q) = filter (\<lambda>x. ep_time x = t) q @ filter (\<lambda>x. ep_time x = t) es"
  using assms
proof (induction es arbitrary: q)
  case (Cons e es)
  then show ?case using eq_push_fifo [OF Cons.prems, of t e] by auto
qed simp

lemma push_all_stable_sort: "push_all eq_push es eq_new = sort_key ep_time es"
proof (rule properties_for_sort_key [symmetric])
  show "mset (push_all eq_push es eq_new) = mset es"
    using evq.push_all_elems [OF evq.invar_empty, of es] by (simp add: eq_new_def)
  show "filter (\<lambda>x. ep_time k = ep_time x) (push_all eq_push es eq_new) = filter (\<lambda>x. ep_time k = ep_time x) es"
    if "k \<in> set (push_all eq_push es eq_new)" for k
    using push_all_fifo [of eq_new "ep_time k" es] by (simp add: eq_new_def eq_commute)
  show "sorted (map ep_time (push_all eq_push es eq_new))"
    using evq.push_all_invar [OF evq.invar_empty, of es] by (simp add: eq_sorted_def)
qed
section \<open>Time (sim/time.hh)\<close>

text \<open>
  Simulated time is \<^verbatim>\<open>real_time\<close>, a double. The model uses rationals: order and arithmetic are those of the
  source as long as no operation rounds or overflows. \<^verbatim>\<open>is_zero\<close> compares with the machine epsilon.
\<close>

type_synonym time_type = rat

definition time_epsilon :: time_type where
  "time_epsilon = 1 / 2 ^ 52"

definition is_zero :: "time_type \<Rightarrow> bool" where
  "is_zero t \<longleftrightarrow> t < time_epsilon"

definition is_zero_discrete :: "int \<Rightarrow> bool" where
  "is_zero_discrete t \<longleftrightarrow> t \<noteq> 0"

definition default_delay :: time_type where
  "default_delay = 10"

definition invalid_time :: time_type where
  "invalid_time = -1"

end
