(* ===== verification/Prs_Event.thy ===== *)
theory Prs_Event
  imports Logic_Values Event_Queue
begin

text \<open>
  Rules, causes and events: src/sim/prsim/Rule.hh and Rule.tcc, src/sim/prsim/Cause.hh,
  src/sim/prsim/Event-prsim.hh and Event-prsim.cc. Bit fields keep their width.
\<close>

unbundle bit_operations_syntax

section \<open>class Rule\<close>

abbreviation RULE_DIR :: "16 word" where "RULE_DIR \<equiv> 0x01"
abbreviation RULE_WEAK :: "16 word" where "RULE_WEAK \<equiv> 0x02"
abbreviation RULE_ALWAYS_RANDOM :: "16 word" where "RULE_ALWAYS_RANDOM \<equiv> 0x04"
abbreviation RULE_INVARIANT :: "16 word" where "RULE_INVARIANT \<equiv> 0x08"
abbreviation RULE_UNSTAB :: "16 word" where "RULE_UNSTAB \<equiv> 0x10"

record rule =
  after :: time_type
  after_min :: time_type
  after_max :: time_type
  rule_flags :: "16 word"

definition Rule_new :: "time_type \<Rightarrow> rule" where
  "Rule_new default_unspecified_delay =
     \<lparr>after = default_unspecified_delay, after_min = 0, after_max = 0, rule_flags = 0\<rparr>"

definition set_direction :: "bool \<Rightarrow> rule \<Rightarrow> rule" where
  "set_direction d r = r\<lparr>rule_flags := (if d then rule_flags r OR RULE_DIR else rule_flags r AND NOT RULE_DIR)\<rparr>"

definition direction :: "rule \<Rightarrow> bool" where
  "direction r \<longleftrightarrow> rule_flags r AND RULE_DIR \<noteq> 0"

definition is_always_random :: "rule \<Rightarrow> bool" where
  "is_always_random r \<longleftrightarrow> rule_flags r AND RULE_ALWAYS_RANDOM \<noteq> 0"

definition set_always_random :: "rule \<Rightarrow> rule" where
  "set_always_random r = r\<lparr>rule_flags := rule_flags r OR RULE_ALWAYS_RANDOM\<rparr>"

definition clear_always_random :: "rule \<Rightarrow> rule" where
  "clear_always_random r = r\<lparr>rule_flags := rule_flags r AND NOT RULE_ALWAYS_RANDOM\<rparr>"

definition rule_is_weak :: "rule \<Rightarrow> bool" where
  "rule_is_weak r \<longleftrightarrow> rule_flags r AND RULE_WEAK \<noteq> 0"

definition rule_set_weak :: "rule \<Rightarrow> rule" where
  "rule_set_weak r = r\<lparr>rule_flags := rule_flags r OR RULE_WEAK\<rparr>"

definition is_invariant :: "rule \<Rightarrow> bool" where
  "is_invariant r \<longleftrightarrow> rule_flags r AND RULE_INVARIANT \<noteq> 0"

definition set_invariant :: "rule \<Rightarrow> rule" where
  "set_invariant r = r\<lparr>rule_flags := rule_flags r OR RULE_INVARIANT\<rparr>"

definition rule_clear_weak :: "rule \<Rightarrow> rule" where
  "rule_clear_weak r = r\<lparr>rule_flags := rule_flags r AND NOT RULE_WEAK\<rparr>"

definition is_unstable :: "rule \<Rightarrow> bool" where
  "is_unstable r \<longleftrightarrow> rule_flags r AND RULE_UNSTAB \<noteq> 0"

definition set_unstable :: "rule \<Rightarrow> rule" where
  "set_unstable r = r\<lparr>rule_flags := rule_flags r OR RULE_UNSTAB\<rparr>"

definition clear_unstable :: "rule \<Rightarrow> rule" where
  "clear_unstable r = r\<lparr>rule_flags := rule_flags r AND NOT RULE_UNSTAB\<rparr>"

definition set_delay :: "time_type \<Rightarrow> rule \<Rightarrow> rule" where
  "set_delay t r = r\<lparr>after := t\<rparr>"

text \<open>
  \<^verbatim>\<open>edit_property\<close>: the value string has been read as a number of the time type and as an integer (each
  may fail); the boolean result is the error flag. An unknown property is silently accepted.
\<close>

definition edit_property :: "string \<Rightarrow> time_type option \<Rightarrow> int option \<Rightarrow> rule \<Rightarrow> bool \<times> rule" where
  "edit_property prop t i r =
     (if prop = ''unstab'' then
        (case i of None \<Rightarrow> (True, r)
         | Some k \<Rightarrow> (False, if k \<noteq> 0 then set_unstable r else clear_unstable r))
      else if prop = ''after'' then
        (case t of None \<Rightarrow> (True, r) | Some d \<Rightarrow> (False, r\<lparr>after := d\<rparr>))
      else if prop = ''after_min'' then
        (case t of None \<Rightarrow> (True, r) | Some d \<Rightarrow> (False, r\<lparr>after_min := d\<rparr>))
      else if prop = ''after_max'' then
        (case t of None \<Rightarrow> (True, r) | Some d \<Rightarrow> (False, r\<lparr>after_max := d\<rparr>))
      else (False, r))"

section \<open>Causes\<close>

abbreviation (input) INVALID_TRACE_INDEX :: nat where "INVALID_TRACE_INDEX \<equiv> 0"

record event_cause =
  cause_node :: node_index_type
  cause_val :: value_enum
  critical_trace_event :: nat

definition EventCause_default :: event_cause where
  "EventCause_default = \<lparr>cause_node = INVALID_NODE_INDEX, cause_val = LOGIC_LOW,
                         critical_trace_event = INVALID_TRACE_INDEX\<rparr>"

definition EventCause_new :: "node_index_type \<Rightarrow> value_enum \<Rightarrow> nat \<Rightarrow> event_cause" where
  "EventCause_new n v t = \<lparr>cause_node = n, cause_val = v, critical_trace_event = t\<rparr>"

definition EventCause_less :: "event_cause \<Rightarrow> event_cause \<Rightarrow> bool" where
  "EventCause_less a b \<longleftrightarrow> cause_node a < cause_node b \<or>
     (cause_node a = cause_node b \<and> value_code (cause_val a) < value_code (cause_val b))"

record last_cause =
  caused_by_node :: "value_enum \<Rightarrow> node_index_type"
  caused_by_value :: "value_enum \<Rightarrow> value_enum"

definition LastCause_initialize :: last_cause where
  "LastCause_initialize = \<lparr>caused_by_node = (\<lambda>_. INVALID_NODE_INDEX), caused_by_value = (\<lambda>_. LOGIC_LOW)\<rparr>"

definition get_cause_node :: "last_cause \<Rightarrow> value_enum \<Rightarrow> node_index_type" where
  "get_cause_node c v = caused_by_node c v"

definition get_cause :: "last_cause \<Rightarrow> value_enum \<Rightarrow> event_cause" where
  "get_cause c v = EventCause_new (caused_by_node c v) (caused_by_value c v) INVALID_TRACE_INDEX"

definition set_cause :: "value_enum \<Rightarrow> event_cause \<Rightarrow> last_cause \<Rightarrow> last_cause" where
  "set_cause v e c = c\<lparr>caused_by_node := (caused_by_node c)(v := cause_node e),
                       caused_by_value := (caused_by_value c)(v := cause_val e)\<rparr>"

lemma get_set_cause:
  "get_cause (set_cause v e c) w = (if w = v then EventCause_new (cause_node e) (cause_val e) 0 else get_cause c w)"
  by (simp add: get_cause_def set_cause_def)

section \<open>struct Event\<close>

abbreviation EVENT_VACUOUS :: "8 word" where "EVENT_VACUOUS \<equiv> 0x01"
abbreviation EVENT_UNSTABLE :: "8 word" where "EVENT_UNSTABLE \<equiv> 0x02"
abbreviation EVENT_INTERFERENCE :: "8 word" where "EVENT_INTERFERENCE \<equiv> 0x04"
abbreviation EVENT_WEAK :: "8 word" where "EVENT_WEAK \<equiv> 0x08"
abbreviation EVENT_WEAK_UNSTABLE :: "8 word" where "EVENT_WEAK_UNSTABLE \<equiv> EVENT_UNSTABLE OR EVENT_WEAK"
abbreviation EVENT_WEAK_INTERFERENCE :: "8 word" where "EVENT_WEAK_INTERFERENCE \<equiv> EVENT_INTERFERENCE OR EVENT_WEAK"

definition upguard :: "pull_enum \<Rightarrow> value_enum \<Rightarrow> 8 word" where
  "upguard g v =
     [[EVENT_VACUOUS, EVENT_UNSTABLE, EVENT_VACUOUS],
      [EVENT_INTERFERENCE, EVENT_VACUOUS, EVENT_VACUOUS],
      [EVENT_WEAK_INTERFERENCE, EVENT_WEAK_UNSTABLE, EVENT_VACUOUS]] ! pull_code g ! value_code v"

definition dnguard :: "pull_enum \<Rightarrow> value_enum \<Rightarrow> 8 word" where
  "dnguard g v =
     [[EVENT_UNSTABLE, EVENT_VACUOUS, EVENT_VACUOUS],
      [EVENT_VACUOUS, EVENT_INTERFERENCE, EVENT_VACUOUS],
      [EVENT_WEAK_UNSTABLE, EVENT_WEAK_INTERFERENCE, EVENT_VACUOUS]] ! pull_code g ! value_code v"

abbreviation EVENT_FLAG_PENDING_INTERFERENCE :: "8 word" where "EVENT_FLAG_PENDING_INTERFERENCE \<equiv> 0x01"
abbreviation EVENT_FLAG_KILLED :: "8 word" where "EVENT_FLAG_KILLED \<equiv> 0x02"
abbreviation EVENT_FLAG_FORCED :: "8 word" where "EVENT_FLAG_FORCED \<equiv> 0x04"
abbreviation EVENT_WEAK_RULE :: "8 word" where "EVENT_WEAK_RULE \<equiv> 0x08"
abbreviation EVENT_FLAGS_DEFAULT_VALUE :: "8 word" where "EVENT_FLAGS_DEFAULT_VALUE \<equiv> 0x00"

text \<open>\<^verbatim>\<open>cause_rule_ptr\<close> points to a rule of the immutable rule pool; the model stores the rule itself.\<close>

record event =
  ev_node :: node_index_type
  ev_cause :: event_cause
  ev_cause_rule :: rule_index_type
  ev_cause_rule_ptr :: "rule option"
  ev_val :: value_enum
  ev_flags :: "8 word"

definition Event_default :: event where
  "Event_default = \<lparr>ev_node = INVALID_NODE_INDEX, ev_cause = EventCause_default,
     ev_cause_rule = INVALID_RULE_INDEX, ev_cause_rule_ptr = None, ev_val = LOGIC_LOW,
     ev_flags = EVENT_FLAGS_DEFAULT_VALUE\<rparr>"

definition Event_new ::
  "node_index_type \<Rightarrow> event_cause \<Rightarrow> rule_index_type \<Rightarrow> rule option \<Rightarrow> value_enum \<Rightarrow> bool \<Rightarrow> event" where
  "Event_new n c r rp v w = \<lparr>ev_node = n, ev_cause = c, ev_cause_rule = r, ev_cause_rule_ptr = rp,
     ev_val = v, ev_flags = (if w then EVENT_WEAK_RULE else EVENT_FLAGS_DEFAULT_VALUE)\<rparr>"

definition ev_kill :: "event \<Rightarrow> event" where
  "ev_kill e = e\<lparr>ev_flags := ev_flags e OR EVENT_FLAG_KILLED\<rparr>"

definition killed :: "event \<Rightarrow> bool" where
  "killed e \<longleftrightarrow> ev_flags e AND EVENT_FLAG_KILLED \<noteq> 0"

definition force :: "event \<Rightarrow> event" where
  "force e = e\<lparr>ev_flags := ev_flags e OR EVENT_FLAG_FORCED\<rparr>"

definition unforce :: "event \<Rightarrow> event" where
  "unforce e = e\<lparr>ev_flags := ev_flags e AND NOT EVENT_FLAG_FORCED\<rparr>"

definition forced :: "event \<Rightarrow> bool" where
  "forced e \<longleftrightarrow> ev_flags e AND EVENT_FLAG_FORCED \<noteq> 0"

definition ev_is_weak :: "event \<Rightarrow> bool" where
  "ev_is_weak e \<longleftrightarrow> ev_flags e AND EVENT_WEAK_RULE \<noteq> 0"

definition ev_set_weak :: "bool \<Rightarrow> event \<Rightarrow> event" where
  "ev_set_weak w e = e\<lparr>ev_flags := (if w then ev_flags e OR EVENT_WEAK_RULE
                                    else ev_flags e AND NOT EVENT_WEAK_RULE)\<rparr>"

definition set_cause_node :: "node_index_type \<Rightarrow> event \<Rightarrow> event" where
  "set_cause_node ni e = e\<lparr>ev_cause := (ev_cause e)\<lparr>cause_node := ni\<rparr>\<rparr>"

definition pending_interference :: "event \<Rightarrow> bool" where
  "pending_interference e \<longleftrightarrow> ev_flags e AND EVENT_FLAG_PENDING_INTERFERENCE \<noteq> 0"

definition set_pending_interference :: "bool \<Rightarrow> event \<Rightarrow> event" where
  "set_pending_interference i e =
     e\<lparr>ev_flags := (if i then ev_flags e OR EVENT_FLAG_PENDING_INTERFERENCE
                    else ev_flags e AND NOT EVENT_FLAG_PENDING_INTERFERENCE)\<rparr>"

subsection \<open>Flags are independent\<close>

lemma and_flag_bits:
  "(w :: 'a::len word) AND 1 \<noteq> 0 \<longleftrightarrow> bit w 0" "(w :: 'a::len word) AND 2 \<noteq> 0 \<longleftrightarrow> bit w 1"
  "(w :: 'a::len word) AND 4 \<noteq> 0 \<longleftrightarrow> bit w 2" "(w :: 'a::len word) AND 8 \<noteq> 0 \<longleftrightarrow> bit w 3"
  "(w :: 'a::len word) AND 16 \<noteq> 0 \<longleftrightarrow> bit w 4" "(w :: 'a::len word) AND 32 \<noteq> 0 \<longleftrightarrow> bit w 5"
  "(w :: 'a::len word) AND 64 \<noteq> 0 \<longleftrightarrow> bit w 6" "(w :: 'a::len word) AND 128 \<noteq> 0 \<longleftrightarrow> bit w 7"
  using and_exp_eq_0_iff_not_bit [of w 0] and_exp_eq_0_iff_not_bit [of w 1]
    and_exp_eq_0_iff_not_bit [of w 2] and_exp_eq_0_iff_not_bit [of w 3]
    and_exp_eq_0_iff_not_bit [of w 4] and_exp_eq_0_iff_not_bit [of w 5]
    and_exp_eq_0_iff_not_bit [of w 6] and_exp_eq_0_iff_not_bit [of w 7] by simp_all

lemmas event_flag_defs = killed_def forced_def ev_is_weak_def pending_interference_def
  ev_kill_def force_def unforce_def ev_set_weak_def set_pending_interference_def set_cause_node_def
  and_flag_bits

lemma ev_kill_flags [simp]:
  "killed (ev_kill e)" "forced (ev_kill e) = forced e" "ev_is_weak (ev_kill e) = ev_is_weak e"
  "ev_node (ev_kill e) = ev_node e" "ev_val (ev_kill e) = ev_val e" "ev_cause (ev_kill e) = ev_cause e"
  by (simp_all add: event_flag_defs bit_simps)

lemma force_flags [simp]:
  "forced (force e)" "\<not> forced (unforce e)" "killed (force e) = killed e" "killed (unforce e) = killed e"
  "ev_is_weak (force e) = ev_is_weak e" "ev_is_weak (unforce e) = ev_is_weak e"
  "ev_node (force e) = ev_node e" "ev_node (unforce e) = ev_node e"
  "ev_val (force e) = ev_val e" "ev_val (unforce e) = ev_val e"
  by (simp_all add: event_flag_defs bit_simps)

lemma ev_set_weak_flags [simp]:
  "ev_is_weak (ev_set_weak w e) = w" "killed (ev_set_weak w e) = killed e"
  "forced (ev_set_weak w e) = forced e"
  "ev_node (ev_set_weak w e) = ev_node e" "ev_val (ev_set_weak w e) = ev_val e"
  by (cases w; simp add: event_flag_defs bit_simps)+

lemma set_cause_node_flags [simp]:
  "killed (set_cause_node ni e) = killed e" "forced (set_cause_node ni e) = forced e"
  "ev_node (set_cause_node ni e) = ev_node e" "ev_val (set_cause_node ni e) = ev_val e"
  by (simp_all add: event_flag_defs)

lemma event_update_flags [simp]:
  "killed (e\<lparr>ev_val := v\<rparr>) = killed e" "killed (e\<lparr>ev_cause := c\<rparr>) = killed e"
  "killed (e\<lparr>ev_node := n\<rparr>) = killed e" "killed (e\<lparr>ev_cause_rule := r\<rparr>) = killed e"
  "killed (e\<lparr>ev_cause_rule_ptr := rp\<rparr>) = killed e"
  "forced (e\<lparr>ev_val := v\<rparr>) = forced e" "forced (e\<lparr>ev_cause := c\<rparr>) = forced e"
  "forced (e\<lparr>ev_node := n\<rparr>) = forced e" "forced (e\<lparr>ev_cause_rule := r\<rparr>) = forced e"
  "forced (e\<lparr>ev_cause_rule_ptr := rp\<rparr>) = forced e"
  by (simp_all add: killed_def forced_def)

lemma Event_new_flags [simp]:
  "\<not> killed (Event_new n c r rp v w)" "\<not> forced (Event_new n c r rp v w)"
  "ev_is_weak (Event_new n c r rp v w) = w" "ev_node (Event_new n c r rp v w) = n"
  "ev_val (Event_new n c r rp v w) = v" "ev_cause (Event_new n c r rp v w) = c"
  "ev_cause_rule_ptr (Event_new n c r rp v w) = rp"
  by (simp_all add: event_flag_defs Event_new_def)

lemma Event_default_flags [simp]:
  "\<not> killed Event_default" "\<not> forced Event_default" "ev_node Event_default = 0"
  "ev_cause_rule_ptr Event_default = None"
  by (simp_all add: event_flag_defs Event_default_def)

lemma rule_flag_updates:
  "direction (set_direction d r) = d" "rule_is_weak (set_direction d r) = rule_is_weak r"
  "is_invariant (set_direction d r) = is_invariant r" "is_unstable (set_direction d r) = is_unstable r"
  "is_unstable (set_unstable r)" "\<not> is_unstable (clear_unstable r)"
  "direction (set_unstable r) = direction r" "direction (clear_unstable r) = direction r"
  "rule_is_weak (rule_set_weak r)" "\<not> rule_is_weak (rule_clear_weak r)"
  "is_invariant (set_invariant r)" "is_always_random (set_always_random r)"
  "\<not> is_always_random (clear_always_random r)"
  by (simp_all add: direction_def set_direction_def rule_is_weak_def is_invariant_def is_unstable_def
      set_unstable_def clear_unstable_def rule_set_weak_def rule_clear_weak_def set_invariant_def
      is_always_random_def set_always_random_def clear_always_random_def and_flag_bits bit_simps)

end
