(* ===== verification/Prs_Node.thy ===== *)
theory Prs_Node
  imports Prs_Event
begin

text \<open>
  Nodes and their pull states: src/sim/prsim/Node.hh and src/sim/prsim/Node.cc, with
  \<^verbatim>\<open>PRSIM_WEAK_RULES\<close>, \<^verbatim>\<open>PRSIM_UPSET_NODES\<close>, \<^verbatim>\<open>PRSIM_TRACK_LAST_EDGE_TIME\<close>, \<^verbatim>\<open>PRSIM_SETUP_HOLD\<close> and
  \<^verbatim>\<open>PRSIM_MK_EXCL_BLOCKING_SET\<close> enabled, as in devel_switches.hh. \<^verbatim>\<open>Node\<close> and \<^verbatim>\<open>NodeState\<close> are one record.
\<close>

unbundle bit_operations_syntax

section \<open>struct fanin_state_type\<close>

type_synonym fanin_count = "64 word"

record fanin_state =
  fs_size :: fanin_count
  fs_countdown :: fanin_count
  fs_unknowns :: fanin_count

definition fanin_state_new :: fanin_state where
  "fanin_state_new = \<lparr>fs_size = 0, fs_countdown = 0, fs_unknowns = 0\<rparr>"

definition fanin_initialize :: "fanin_state \<Rightarrow> fanin_state" where
  "fanin_initialize s = s\<lparr>fs_unknowns := fs_size s, fs_countdown := 0\<rparr>"

definition fanin_any :: "fanin_state \<Rightarrow> bool" where
  "fanin_any s \<longleftrightarrow> fs_size s \<noteq> 0"

definition fanin_pull :: "fanin_state \<Rightarrow> pull_enum" where
  "fanin_pull s = (if fs_countdown s \<noteq> 0 then PULL_ON
                   else if fs_unknowns s \<noteq> 0 then PULL_WEAK else PULL_OFF)"

text \<open>The counter update of \<^verbatim>\<open>State::evaluate\<close> (State-prsim.cc): one rule changes its pull.\<close>

definition fanin_count_update :: "pull_enum \<Rightarrow> pull_enum \<Rightarrow> fanin_state \<Rightarrow> fanin_state" where
  "fanin_count_update prev next fs =
     fs\<lparr>fs_unknowns := fs_unknowns fs + (of_nat (x_bit next) - of_nat (x_bit prev)),
        fs_countdown := fs_countdown fs + (of_nat (one_bit next) - of_nat (one_bit prev))\<rparr>"

section \<open>struct Node, class NodeState\<close>

abbreviation NODE_MK_EXCLHI :: "16 word" where "NODE_MK_EXCLHI \<equiv> 0x0002"
abbreviation NODE_MK_EXCLLO :: "16 word" where "NODE_MK_EXCLLO \<equiv> 0x0004"
abbreviation NODE_CHECK_EXCLHI :: "16 word" where "NODE_CHECK_EXCLHI \<equiv> 0x0008"
abbreviation NODE_CHECK_EXCLLO :: "16 word" where "NODE_CHECK_EXCLLO \<equiv> 0x0010"
abbreviation NODE_MAY_INTERFERE :: "16 word" where "NODE_MAY_INTERFERE \<equiv> 0x0020"
abbreviation NODE_MAY_WEAK_INTERFERE :: "16 word" where "NODE_MAY_WEAK_INTERFERE \<equiv> 0x0040"
abbreviation NODE_IS_ATOMIC :: "16 word" where "NODE_IS_ATOMIC \<equiv> 0x0080"
abbreviation NODE_CHECK_SETUP :: "16 word" where "NODE_CHECK_SETUP \<equiv> 0x0100"
abbreviation NODE_CHECK_HOLD :: "16 word" where "NODE_CHECK_HOLD \<equiv> 0x0200"
abbreviation NODE_MIN_DELAY_TARGET :: "16 word" where "NODE_MIN_DELAY_TARGET \<equiv> 0x0400"

abbreviation NODE_INITIAL_STATE_FLAGS :: "8 word" where "NODE_INITIAL_STATE_FLAGS \<equiv> 0x00"
abbreviation NODE_BREAKPOINT :: "8 word" where "NODE_BREAKPOINT \<equiv> 0x01"
abbreviation NODE_WATCHPOINT :: "8 word" where "NODE_WATCHPOINT \<equiv> 0x02"
abbreviation NODE_IN_CHANNEL :: "8 word" where "NODE_IN_CHANNEL \<equiv> 0x08"
abbreviation NODE_FROZEN :: "8 word" where "NODE_FROZEN \<equiv> 0x10"
abbreviation NODE_FLAG :: "8 word" where "NODE_FLAG \<equiv> 0x80"
abbreviation NODE_INITIALIZE_CLEAR_MASK :: "8 word" where "NODE_INITIALIZE_CLEAR_MASK \<equiv> NODE_FLAG OR NODE_FROZEN"

record node_state =
  fanin :: "process_index_type list"
  fanout :: "expr_index_type list"
  struct_flags :: "16 word"
  node_value :: value_enum
  state_flags :: "8 word"
  event_index :: event_index_type
  causes :: last_cause
  last_edge_time :: "value_enum \<Rightarrow> time_type"
  tcount :: nat
  pull_up_normal :: fanin_state
  pull_up_weak :: fanin_state
  pull_dn_normal :: fanin_state
  pull_dn_weak :: fanin_state

definition NodeState_new :: node_state where
  "NodeState_new = \<lparr>fanin = [], fanout = [], struct_flags = 0, node_value = LOGIC_OTHER,
     state_flags = NODE_INITIAL_STATE_FLAGS, event_index = INVALID_EVENT_INDEX,
     causes = LastCause_initialize, last_edge_time = (\<lambda>_. -1), tcount = 0,
     pull_up_normal = fanin_state_new, pull_up_weak = fanin_state_new,
     pull_dn_normal = fanin_state_new, pull_dn_weak = fanin_state_new\<rparr>"

subsection \<open>Structural flags\<close>

definition has_fanin :: "node_state \<Rightarrow> bool" where "has_fanin n \<longleftrightarrow> fanin n \<noteq> []"
definition has_fanout :: "node_state \<Rightarrow> bool" where "has_fanout n \<longleftrightarrow> fanout n \<noteq> []"
definition allow_interference :: "node_state \<Rightarrow> node_state" where
  "allow_interference n = n\<lparr>struct_flags := struct_flags n OR NODE_MAY_INTERFERE\<rparr>"
definition allow_weak_interference :: "node_state \<Rightarrow> node_state" where
  "allow_weak_interference n = n\<lparr>struct_flags := struct_flags n OR NODE_MAY_WEAK_INTERFERE\<rparr>"
definition mark_atomic :: "node_state \<Rightarrow> node_state" where
  "mark_atomic n = n\<lparr>struct_flags := struct_flags n OR NODE_IS_ATOMIC\<rparr>"
definition may_interfere :: "node_state \<Rightarrow> bool" where
  "may_interfere n \<longleftrightarrow> struct_flags n AND NODE_MAY_INTERFERE \<noteq> 0"
definition may_weak_interfere :: "node_state \<Rightarrow> bool" where
  "may_weak_interfere n \<longleftrightarrow> struct_flags n AND NODE_MAY_WEAK_INTERFERE \<noteq> 0"
definition is_atomic :: "node_state \<Rightarrow> bool" where
  "is_atomic n \<longleftrightarrow> struct_flags n AND NODE_IS_ATOMIC \<noteq> 0"
definition has_mk_exclhi :: "node_state \<Rightarrow> bool" where
  "has_mk_exclhi n \<longleftrightarrow> struct_flags n AND NODE_MK_EXCLHI \<noteq> 0"
definition has_mk_excllo :: "node_state \<Rightarrow> bool" where
  "has_mk_excllo n \<longleftrightarrow> struct_flags n AND NODE_MK_EXCLLO \<noteq> 0"
definition make_exclhi :: "node_state \<Rightarrow> node_state" where
  "make_exclhi n = n\<lparr>struct_flags := struct_flags n OR NODE_MK_EXCLHI\<rparr>"
definition make_excllo :: "node_state \<Rightarrow> node_state" where
  "make_excllo n = n\<lparr>struct_flags := struct_flags n OR NODE_MK_EXCLLO\<rparr>"
definition has_check_exclhi :: "node_state \<Rightarrow> bool" where
  "has_check_exclhi n \<longleftrightarrow> struct_flags n AND NODE_CHECK_EXCLHI \<noteq> 0"
definition has_check_excllo :: "node_state \<Rightarrow> bool" where
  "has_check_excllo n \<longleftrightarrow> struct_flags n AND NODE_CHECK_EXCLLO \<noteq> 0"
definition check_exclhi :: "node_state \<Rightarrow> node_state" where
  "check_exclhi n = n\<lparr>struct_flags := struct_flags n OR NODE_CHECK_EXCLHI\<rparr>"
definition check_excllo :: "node_state \<Rightarrow> node_state" where
  "check_excllo n = n\<lparr>struct_flags := struct_flags n OR NODE_CHECK_EXCLLO\<rparr>"
definition has_setup_check :: "node_state \<Rightarrow> bool" where
  "has_setup_check n \<longleftrightarrow> struct_flags n AND NODE_CHECK_SETUP \<noteq> 0"
definition has_hold_check :: "node_state \<Rightarrow> bool" where
  "has_hold_check n \<longleftrightarrow> struct_flags n AND NODE_CHECK_HOLD \<noteq> 0"
definition is_min_delay_target :: "node_state \<Rightarrow> bool" where
  "is_min_delay_target n \<longleftrightarrow> struct_flags n AND NODE_MIN_DELAY_TARGET \<noteq> 0"

text \<open>
  \<^verbatim>\<open>import_attributes\<close> reads three attributes of the \<^verbatim>\<open>bool_connect_policy\<close>; the result is the error flag and
  the node.
\<close>

definition import_attributes :: "bool \<Rightarrow> bool \<Rightarrow> bool \<Rightarrow> node_state \<Rightarrow> bool \<times> node_state" where
  "import_attributes b_atomic b_may_weak_interfere b_may_interfere n =
     (if b_atomic then
        (if has_mk_exclhi n \<or> has_mk_excllo n then (True, n) else (False, mark_atomic n))
      else
        (let n1 = (if b_may_weak_interfere then allow_weak_interference n else n);
             n2 = (if b_may_interfere then allow_interference n1 else n1)
         in (False, n2)))"

subsection \<open>Pending event, state flags, value\<close>

definition pending_event :: "node_state \<Rightarrow> bool" where
  "pending_event n \<longleftrightarrow> event_index n \<noteq> INVALID_EVENT_INDEX"

definition set_event :: "event_index_type \<Rightarrow> node_state \<Rightarrow> node_state option" where
  "set_event i n = do {
     INVARIANT (event_index n = INVALID_EVENT_INDEX);
     INVARIANT (i \<noteq> INVALID_EVENT_INDEX);
     Some (n\<lparr>event_index := i\<rparr>) }"

definition set_event_consistent :: "event_index_type \<Rightarrow> node_state \<Rightarrow> node_state option" where
  "set_event_consistent i n =
     (if \<not> pending_event n then set_event i n
      else do { INVARIANT (event_index n = i); Some n })"

definition load_event :: "event_index_type \<Rightarrow> node_state \<Rightarrow> node_state option" where
  "load_event i n = do { INVARIANT (i \<noteq> INVALID_EVENT_INDEX); Some (n\<lparr>event_index := i\<rparr>) }"

definition clear_event :: "node_state \<Rightarrow> node_state" where
  "clear_event n = n\<lparr>event_index := INVALID_EVENT_INDEX\<rparr>"

definition is_watchpoint :: "node_state \<Rightarrow> bool" where
  "is_watchpoint n \<longleftrightarrow> state_flags n AND NODE_WATCHPOINT \<noteq> 0"
definition set_watchpoint :: "node_state \<Rightarrow> node_state" where
  "set_watchpoint n = n\<lparr>state_flags := state_flags n OR NODE_WATCHPOINT\<rparr>"
definition clear_watchpoint :: "node_state \<Rightarrow> node_state" where
  "clear_watchpoint n = n\<lparr>state_flags := state_flags n AND NOT NODE_WATCHPOINT\<rparr>"
definition is_breakpoint :: "node_state \<Rightarrow> bool" where
  "is_breakpoint n \<longleftrightarrow> state_flags n AND NODE_BREAKPOINT \<noteq> 0"
definition set_breakpoint :: "node_state \<Rightarrow> node_state" where
  "set_breakpoint n = n\<lparr>state_flags := state_flags n OR NODE_BREAKPOINT\<rparr>"
definition clear_breakpoint :: "node_state \<Rightarrow> node_state" where
  "clear_breakpoint n = n\<lparr>state_flags := state_flags n AND NOT NODE_BREAKPOINT\<rparr>"
definition set_in_channel :: "node_state \<Rightarrow> node_state" where
  "set_in_channel n = n\<lparr>state_flags := state_flags n OR NODE_IN_CHANNEL\<rparr>"
definition in_channel :: "node_state \<Rightarrow> bool" where
  "in_channel n \<longleftrightarrow> state_flags n AND NODE_IN_CHANNEL \<noteq> 0"
definition freeze :: "node_state \<Rightarrow> node_state" where
  "freeze n = n\<lparr>state_flags := state_flags n OR NODE_FROZEN\<rparr>"
definition restore :: "node_state \<Rightarrow> node_state" where
  "restore n = n\<lparr>state_flags := state_flags n AND NOT NODE_FROZEN\<rparr>"
definition is_frozen :: "node_state \<Rightarrow> bool" where
  "is_frozen n \<longleftrightarrow> state_flags n AND NODE_FROZEN \<noteq> 0"

definition set_value_and_cause ::
  "value_enum \<Rightarrow> event_cause \<Rightarrow> time_type \<Rightarrow> node_state \<Rightarrow> node_state" where
  "set_value_and_cause c e t n =
     n\<lparr>node_value := c, causes := set_cause c e (causes n),
       last_edge_time := (last_edge_time n)(c := t)\<rparr>"

definition get_last_transition_time :: "node_state \<Rightarrow> time_type" where
  "get_last_transition_time n = last_edge_time n (node_value n)"

definition x_value_and_cause :: "node_state \<Rightarrow> node_state" where
  "x_value_and_cause n =
     n\<lparr>event_index := INVALID_EVENT_INDEX, causes := LastCause_initialize, node_value := LOGIC_OTHER,
       state_flags := state_flags n AND NOT NODE_INITIALIZE_CLEAR_MASK,
       pull_up_normal := fanin_initialize (pull_up_normal n),
       pull_dn_normal := fanin_initialize (pull_dn_normal n),
       pull_up_weak := fanin_initialize (pull_up_weak n),
       pull_dn_weak := fanin_initialize (pull_dn_weak n)\<rparr>"

definition node_initialize :: "node_state \<Rightarrow> node_state" where
  "node_initialize n = (x_value_and_cause n)\<lparr>tcount := 0, last_edge_time := (\<lambda>_. -1)\<rparr>"

definition node_reset :: "node_state \<Rightarrow> node_state" where
  "node_reset n = (node_initialize n)\<lparr>state_flags := NODE_INITIAL_STATE_FLAGS\<rparr>"

definition reset_tcount :: "node_state \<Rightarrow> node_state" where
  "reset_tcount n = n\<lparr>tcount := 0\<rparr>"

text \<open>\<^verbatim>\<open>count_fanins\<close>: the sizes of the local fanin lists, by direction and strength, are added up.\<close>

definition count_fanins :: "nat \<Rightarrow> nat \<Rightarrow> nat \<Rightarrow> nat \<Rightarrow> node_state \<Rightarrow> node_state" where
  "count_fanins up dn wup wdn n =
     n\<lparr>pull_up_normal := (pull_up_normal n)\<lparr>fs_size := fs_size (pull_up_normal n) + of_nat up\<rparr>,
       pull_dn_normal := (pull_dn_normal n)\<lparr>fs_size := fs_size (pull_dn_normal n) + of_nat dn\<rparr>,
       pull_up_weak := (pull_up_weak n)\<lparr>fs_size := fs_size (pull_up_weak n) + of_nat wup\<rparr>,
       pull_dn_weak := (pull_dn_weak n)\<lparr>fs_size := fs_size (pull_dn_weak n) + of_nat wdn\<rparr>\<rparr>"

definition get_pull_struct :: "bool \<Rightarrow> bool \<Rightarrow> node_state \<Rightarrow> fanin_state" where
  "get_pull_struct dir w n =
     (if dir then (if w then pull_up_weak n else pull_up_normal n)
      else (if w then pull_dn_weak n else pull_dn_normal n))"

text \<open>Writing through the reference that \<^verbatim>\<open>get_pull_struct\<close> returns.\<close>

definition set_pull_struct :: "bool \<Rightarrow> bool \<Rightarrow> fanin_state \<Rightarrow> node_state \<Rightarrow> node_state" where
  "set_pull_struct dir w fs n =
     (if dir then (if w then n\<lparr>pull_up_weak := fs\<rparr> else n\<lparr>pull_up_normal := fs\<rparr>)
      else (if w then n\<lparr>pull_dn_weak := fs\<rparr> else n\<lparr>pull_dn_normal := fs\<rparr>))"

definition interfering :: "node_state \<Rightarrow> bool" where
  "interfering n =
     (let u = fanin_pull (get_pull_struct True False n); d = fanin_pull (get_pull_struct False False n) in
      if u = PULL_ON \<and> d = PULL_ON then True
      else (let wu = fanin_pull (get_pull_struct True True n);
                wd = fanin_pull (get_pull_struct False True n)
            in wu = PULL_ON \<and> wd = PULL_ON))"

definition weak_interfering :: "node_state \<Rightarrow> bool" where
  "weak_interfering n =
     (let u = fanin_pull (get_pull_struct True False n); d = fanin_pull (get_pull_struct False False n) in
      if u \<noteq> PULL_OFF \<and> d \<noteq> PULL_OFF \<and> (u = PULL_WEAK \<or> d = PULL_WEAK) then True
      else (let wu = fanin_pull (get_pull_struct True True n);
                wd = fanin_pull (get_pull_struct False True n)
            in wu \<noteq> PULL_OFF \<and> wd \<noteq> PULL_OFF \<and> (wu = PULL_WEAK \<or> wd = PULL_WEAK)))"

definition drive_state :: "node_state \<Rightarrow> pull_enum" where
  "drive_state n =
     (let u = fanin_pull (get_pull_struct True False n); d = fanin_pull (get_pull_struct False False n);
          wu = fanin_pull (get_pull_struct True True n); wd = fanin_pull (get_pull_struct False True n) in
      if u = PULL_ON \<or> d = PULL_ON then PULL_ON
      else if wu = PULL_ON \<or> wd = PULL_ON then PULL_ON
      else if u = PULL_WEAK \<or> d = PULL_WEAK then PULL_WEAK
      else if wu = PULL_WEAK \<or> wd = PULL_WEAK then PULL_WEAK
      else PULL_OFF)"

definition driven :: "node_state \<Rightarrow> bool" where "driven n \<longleftrightarrow> drive_state n = PULL_ON"
definition x_driven :: "node_state \<Rightarrow> bool" where "x_driven n \<longleftrightarrow> drive_state n = PULL_WEAK"
definition undriven :: "node_state \<Rightarrow> bool" where "undriven n \<longleftrightarrow> drive_state n = PULL_OFF"

section \<open>struct pull_set\<close>

record pull_set =
  ps_up :: pull_enum
  ps_dn :: pull_enum
  ps_wup :: pull_enum
  ps_wdn :: pull_enum

definition pull_set_default :: pull_set where
  "pull_set_default = \<lparr>ps_up = PULL_OFF, ps_dn = PULL_OFF, ps_wup = PULL_OFF, ps_wdn = PULL_OFF\<rparr>"

text \<open>The constructor from a node; \<open>w\<close> tells whether weak rules are enabled.\<close>

definition pull_set_of :: "node_state \<Rightarrow> bool \<Rightarrow> pull_set" where
  "pull_set_of n w =
     (let u = fanin_pull (pull_up_normal n) in
      \<lparr>ps_up = u,
       ps_dn = (if is_atomic n then pull_of_value (invert_value (value_of_pull u))
                else fanin_pull (pull_dn_normal n)),
       ps_wup = (if w then fanin_pull (pull_up_weak n) else PULL_OFF),
       ps_wdn = (if w then fanin_pull (pull_dn_weak n) else PULL_OFF)\<rparr>)"

definition normal_rules_off :: "pull_set \<Rightarrow> bool" where
  "normal_rules_off p \<longleftrightarrow> ps_up p = PULL_OFF \<and> ps_dn p = PULL_OFF"
definition weak_rules_off :: "pull_set \<Rightarrow> bool" where
  "weak_rules_off p \<longleftrightarrow> ps_wup p = PULL_OFF \<and> ps_wdn p = PULL_OFF"
definition state_holding :: "pull_set \<Rightarrow> bool" where
  "state_holding p \<longleftrightarrow> normal_rules_off p \<and> weak_rules_off p"
definition pulling_up :: "pull_set \<Rightarrow> bool" where
  "pulling_up p \<longleftrightarrow> ps_up p = PULL_ON \<or> ps_wup p = PULL_ON"
definition pulling_dn :: "pull_set \<Rightarrow> bool" where
  "pulling_dn p \<longleftrightarrow> ps_dn p = PULL_ON \<or> ps_wdn p = PULL_ON"
definition pulling_up_x_any :: "pull_set \<Rightarrow> bool" where
  "pulling_up_x_any p \<longleftrightarrow> ps_up p = PULL_WEAK \<or> ps_wup p = PULL_WEAK"
definition pulling_dn_x_any :: "pull_set \<Rightarrow> bool" where
  "pulling_dn_x_any p \<longleftrightarrow> ps_dn p = PULL_WEAK \<or> ps_wdn p = PULL_WEAK"
definition cutoff_up :: "pull_set \<Rightarrow> bool" where
  "cutoff_up p \<longleftrightarrow> ps_up p = PULL_OFF \<and> ps_wup p = PULL_OFF"
definition cutoff_dn :: "pull_set \<Rightarrow> bool" where
  "cutoff_dn p \<longleftrightarrow> ps_dn p = PULL_OFF \<and> ps_wdn p = PULL_OFF"
definition cut_off_pull_up :: "pull_set \<Rightarrow> pull_set" where
  "cut_off_pull_up p = p\<lparr>ps_up := PULL_OFF, ps_wup := PULL_OFF\<rparr>"
definition cut_off_pull_dn :: "pull_set \<Rightarrow> pull_set" where
  "cut_off_pull_dn p = p\<lparr>ps_dn := PULL_OFF, ps_wdn := PULL_OFF\<rparr>"
definition normal_pulling_x :: "pull_set \<Rightarrow> bool" where
  "normal_pulling_x p \<longleftrightarrow> ps_dn p = PULL_WEAK \<or> ps_up p = PULL_WEAK"
definition weak_pulling_x :: "pull_set \<Rightarrow> bool" where
  "weak_pulling_x p \<longleftrightarrow> ps_wdn p = PULL_WEAK \<or> ps_wup p = PULL_WEAK"
definition normal_pulling_up_x :: "pull_set \<Rightarrow> bool" where
  "normal_pulling_up_x p \<longleftrightarrow> ps_up p = PULL_WEAK \<and> ps_wup p \<noteq> PULL_ON"
definition weak_pulling_up_x :: "pull_set \<Rightarrow> bool" where
  "weak_pulling_up_x p \<longleftrightarrow> ps_up p = PULL_OFF \<and> ps_wup p = PULL_WEAK"
definition pulling_up_x :: "pull_set \<Rightarrow> bool" where
  "pulling_up_x p \<longleftrightarrow> normal_pulling_up_x p \<or> weak_pulling_up_x p"
definition normal_pulling_dn_x :: "pull_set \<Rightarrow> bool" where
  "normal_pulling_dn_x p \<longleftrightarrow> ps_dn p = PULL_WEAK \<and> ps_wdn p \<noteq> PULL_ON"
definition weak_pulling_dn_x :: "pull_set \<Rightarrow> bool" where
  "weak_pulling_dn_x p \<longleftrightarrow> ps_dn p = PULL_OFF \<and> ps_wdn p = PULL_WEAK"
definition pulling_dn_x :: "pull_set \<Rightarrow> bool" where
  "pulling_dn_x p \<longleftrightarrow> normal_pulling_dn_x p \<or> weak_pulling_dn_x p"
definition weak_pull_up_fires :: "pull_set \<Rightarrow> bool" where
  "weak_pull_up_fires p \<longleftrightarrow> ps_up p \<noteq> PULL_ON \<and> ps_wup p = PULL_ON"
definition weak_pull_up_fires_x :: "pull_set \<Rightarrow> bool" where
  "weak_pull_up_fires_x p \<longleftrightarrow> ps_up p = PULL_OFF \<and> ps_wup p = PULL_WEAK"
definition weak_pull_dn_fires :: "pull_set \<Rightarrow> bool" where
  "weak_pull_dn_fires p \<longleftrightarrow> ps_dn p \<noteq> PULL_ON \<and> ps_wdn p = PULL_ON"
definition weak_pull_dn_fires_x :: "pull_set \<Rightarrow> bool" where
  "weak_pull_dn_fires_x p \<longleftrightarrow> ps_dn p = PULL_OFF \<and> ps_wdn p = PULL_WEAK"
definition weak_pull_up_wins :: "pull_set \<Rightarrow> bool" where
  "weak_pull_up_wins p \<longleftrightarrow> ps_dn p = PULL_OFF \<and> (weak_pull_up_fires_x p \<or> weak_pull_up_fires p)"
definition weak_pull_dn_wins :: "pull_set \<Rightarrow> bool" where
  "weak_pull_dn_wins p \<longleftrightarrow> ps_up p = PULL_OFF \<and> (weak_pull_dn_fires_x p \<or> weak_pull_dn_fires p)"
definition pull_up_wins_any :: "pull_set \<Rightarrow> bool" where
  "pull_up_wins_any p \<longleftrightarrow> ps_dn p = PULL_OFF \<and>
     (ps_up p = PULL_ON \<or> (ps_wup p = PULL_ON \<and> ps_wdn p = PULL_OFF))"
definition pull_dn_wins_any :: "pull_set \<Rightarrow> bool" where
  "pull_dn_wins_any p \<longleftrightarrow> ps_up p = PULL_OFF \<and>
     (ps_dn p = PULL_ON \<or> (ps_wdn p = PULL_ON \<and> ps_wup p = PULL_OFF))"
definition pull_up_x_wins_any :: "pull_set \<Rightarrow> bool" where
  "pull_up_x_wins_any p \<longleftrightarrow> cutoff_dn p \<and> pulling_up_x p"
definition pull_dn_x_wins_any :: "pull_set \<Rightarrow> bool" where
  "pull_dn_x_wins_any p \<longleftrightarrow> cutoff_up p \<and> pulling_dn_x p"
definition x_wins_any :: "pull_set \<Rightarrow> bool" where
  "x_wins_any p \<longleftrightarrow> pull_up_x_wins_any p \<or> pull_dn_x_wins_any p"
definition weak_wins_any :: "pull_set \<Rightarrow> bool" where
  "weak_wins_any p \<longleftrightarrow> weak_pull_up_wins p \<or> weak_pull_dn_wins p"
definition definite_interference_strong :: "pull_set \<Rightarrow> bool" where
  "definite_interference_strong p \<longleftrightarrow> ps_up p = PULL_ON \<and> ps_dn p = PULL_ON"
definition possible_interference_strong :: "pull_set \<Rightarrow> bool" where
  "possible_interference_strong p \<longleftrightarrow> ps_dn p \<noteq> PULL_OFF \<and> ps_up p \<noteq> PULL_OFF"
definition possible_interference_strong_x_up_vs_weak_dn :: "pull_set \<Rightarrow> bool" where
  "possible_interference_strong_x_up_vs_weak_dn p \<longleftrightarrow>
     (ps_up p = PULL_WEAK \<and> ps_wup p \<noteq> PULL_ON) \<and> (ps_dn p = PULL_OFF \<and> ps_wdn p \<noteq> PULL_OFF)"
definition possible_interference_strong_x_dn_vs_weak_up :: "pull_set \<Rightarrow> bool" where
  "possible_interference_strong_x_dn_vs_weak_up p \<longleftrightarrow>
     (ps_dn p = PULL_WEAK \<and> ps_wdn p \<noteq> PULL_ON) \<and> (ps_up p = PULL_OFF \<and> ps_wup p \<noteq> PULL_OFF)"
definition possible_interference_strong_vs_weak :: "pull_set \<Rightarrow> bool" where
  "possible_interference_strong_vs_weak p \<longleftrightarrow>
     possible_interference_strong_x_up_vs_weak_dn p \<or> possible_interference_strong_x_dn_vs_weak_up p"
definition definite_interference_weak :: "pull_set \<Rightarrow> bool" where
  "definite_interference_weak p \<longleftrightarrow> normal_rules_off p \<and> ps_wup p = PULL_ON \<and> ps_wdn p = PULL_ON"
definition possible_interference_weak_raw :: "pull_set \<Rightarrow> bool" where
  "possible_interference_weak_raw p \<longleftrightarrow> ps_wdn p \<noteq> PULL_OFF \<and> ps_wup p \<noteq> PULL_OFF"
definition possible_interference_weak :: "pull_set \<Rightarrow> bool" where
  "possible_interference_weak p \<longleftrightarrow> normal_rules_off p \<and> possible_interference_weak_raw p"
definition possible_interference_any :: "pull_set \<Rightarrow> bool" where
  "possible_interference_any p \<longleftrightarrow> possible_interference_strong p \<or>
     possible_interference_strong_vs_weak p \<or> possible_interference_weak p"

lemmas pull_set_defs [pull_simps] = normal_rules_off_def weak_rules_off_def state_holding_def
  pulling_up_def pulling_dn_def pulling_up_x_any_def pulling_dn_x_any_def cutoff_up_def cutoff_dn_def
  cut_off_pull_up_def cut_off_pull_dn_def normal_pulling_x_def weak_pulling_x_def
  normal_pulling_up_x_def weak_pulling_up_x_def pulling_up_x_def normal_pulling_dn_x_def
  weak_pulling_dn_x_def pulling_dn_x_def weak_pull_up_fires_def weak_pull_up_fires_x_def
  weak_pull_dn_fires_def weak_pull_dn_fires_x_def weak_pull_up_wins_def weak_pull_dn_wins_def
  pull_up_wins_any_def pull_dn_wins_any_def pull_up_x_wins_any_def pull_dn_x_wins_any_def
  x_wins_any_def weak_wins_any_def definite_interference_strong_def possible_interference_strong_def
  possible_interference_strong_x_up_vs_weak_dn_def possible_interference_strong_x_dn_vs_weak_up_def
  possible_interference_strong_vs_weak_def definite_interference_weak_def
  possible_interference_weak_raw_def possible_interference_weak_def possible_interference_any_def

subsection \<open>struct interference_info\<close>

datatype interference_value_type = INTERFERENCE_VALUE_NONE | INTERFERENCE_1_vs_1 | INTERFERENCE_1_vs_X | INTERFERENCE_X_vs_X
datatype interference_rule_type = INTERFERENCE_RULE_NONE | INTERFERENCE_STRONG_vs_STRONG | INTERFERENCE_STRONG_vs_WEAK | INTERFERENCE_WEAK_vs_WEAK

record interference_info =
  have_interference :: bool
  possible_interference :: bool
  weak_rule_involved :: bool
  val_type :: interference_value_type
  rule_type :: interference_rule_type

definition interference_info_of :: "pull_set \<Rightarrow> interference_info" where
  "interference_info_of p =
     (if possible_interference_strong p then
        \<lparr>have_interference = True, possible_interference = normal_pulling_x p, weak_rule_involved = False,
         val_type = (if ps_up p = PULL_ON \<and> ps_dn p = PULL_ON then INTERFERENCE_1_vs_1
                     else if ps_up p = PULL_WEAK \<and> ps_dn p = PULL_WEAK then INTERFERENCE_X_vs_X
                     else INTERFERENCE_1_vs_X),
         rule_type = INTERFERENCE_STRONG_vs_STRONG\<rparr>
      else if possible_interference_strong_x_up_vs_weak_dn p then
        \<lparr>have_interference = True, possible_interference = True, weak_rule_involved = True,
         val_type = (if ps_wdn p = PULL_WEAK then INTERFERENCE_X_vs_X else INTERFERENCE_1_vs_X),
         rule_type = INTERFERENCE_STRONG_vs_WEAK\<rparr>
      else if possible_interference_strong_x_dn_vs_weak_up p then
        \<lparr>have_interference = True, possible_interference = True, weak_rule_involved = True,
         val_type = (if ps_wup p = PULL_WEAK then INTERFERENCE_X_vs_X else INTERFERENCE_1_vs_X),
         rule_type = INTERFERENCE_STRONG_vs_WEAK\<rparr>
      else if possible_interference_weak p then
        \<lparr>have_interference = True, possible_interference = weak_pulling_x p, weak_rule_involved = True,
         val_type = (if ps_wup p = PULL_ON \<and> ps_wdn p = PULL_ON then INTERFERENCE_1_vs_1
                     else if ps_wup p = PULL_WEAK \<and> ps_wdn p = PULL_WEAK then INTERFERENCE_X_vs_X
                     else INTERFERENCE_1_vs_X),
         rule_type = INTERFERENCE_WEAK_vs_WEAK\<rparr>
      else
        \<lparr>have_interference = False, possible_interference = False, weak_rule_involved = False,
         val_type = INTERFERENCE_VALUE_NONE, rule_type = INTERFERENCE_RULE_NONE\<rparr>)"

section \<open>Lemmas\<close>

lemma have_interference_iff: "have_interference (interference_info_of p) \<longleftrightarrow> possible_interference_any p"
  by (simp add: interference_info_of_def possible_interference_any_def
      possible_interference_strong_vs_weak_def)

lemma interference_definite_iff:
  "have_interference (interference_info_of p) \<and> \<not> possible_interference (interference_info_of p)
   \<longleftrightarrow> definite_interference_strong p \<or> definite_interference_weak p"
  by (cases "ps_up p"; cases "ps_dn p"; cases "ps_wup p"; cases "ps_wdn p")
    (simp_all add: interference_info_of_def pull_set_defs)

lemma winner_no_interference:
  "pull_up_wins_any p \<Longrightarrow> \<not> have_interference (interference_info_of p)"
  "pull_dn_wins_any p \<Longrightarrow> \<not> have_interference (interference_info_of p)"
  by (auto simp: have_interference_iff pull_set_defs)

lemma winner_exclusive: "\<not> (pull_up_wins_any p \<and> pull_dn_wins_any p)"
  by (auto simp: pull_set_defs)

lemma cut_off_fields [simp]:
  "ps_up (cut_off_pull_up p) = PULL_OFF" "ps_wup (cut_off_pull_up p) = PULL_OFF"
  "ps_dn (cut_off_pull_up p) = ps_dn p" "ps_wdn (cut_off_pull_up p) = ps_wdn p"
  "ps_dn (cut_off_pull_dn p) = PULL_OFF" "ps_wdn (cut_off_pull_dn p) = PULL_OFF"
  "ps_up (cut_off_pull_dn p) = ps_up p" "ps_wup (cut_off_pull_dn p) = ps_wup p"
  by (simp_all add: cut_off_pull_up_def cut_off_pull_dn_def)

lemmas event_link_defs = pending_event_def set_event_def clear_event_def

lemma node_update_event_index [simp]:
  "event_index (set_value_and_cause c e t n) = event_index n"
  "event_index (set_pull_struct dir w fs n) = event_index n"
  "event_index (restore n) = event_index n" "event_index (freeze n) = event_index n"
  "event_index (clear_event n) = 0"
  by (simp_all add: set_value_and_cause_def set_pull_struct_def restore_def freeze_def clear_event_def)

lemma node_update_struct_flags [simp]:
  "struct_flags (set_value_and_cause c e t n) = struct_flags n"
  "struct_flags (set_pull_struct dir w fs n) = struct_flags n"
  "struct_flags (restore n) = struct_flags n" "struct_flags (freeze n) = struct_flags n"
  "struct_flags (clear_event n) = struct_flags n" "struct_flags (n\<lparr>event_index := i\<rparr>) = struct_flags n"
  by (simp_all add: set_value_and_cause_def set_pull_struct_def restore_def freeze_def clear_event_def)

lemma is_atomic_cong: "struct_flags m = struct_flags n \<Longrightarrow> is_atomic m = is_atomic n"
  by (simp add: is_atomic_def)

lemma frozen_flags [simp]:
  "is_frozen (freeze n)" "\<not> is_frozen (restore n)"
  by (simp_all add: is_frozen_def freeze_def restore_def and_flag_bits bit_simps)

lemma get_set_pull_struct [simp]:
  "get_pull_struct dir w (set_pull_struct dir' w' fs n)
   = (if dir = dir' \<and> w = w' then fs else get_pull_struct dir w n)"
  by (auto simp: get_pull_struct_def set_pull_struct_def)

lemma set_value_and_cause_value [simp]: "node_value (set_value_and_cause c e t n) = c"
  by (simp add: set_value_and_cause_def)

subsection \<open>Fanin counters count rules\<close>

definition fanin_ok :: "fanin_state \<Rightarrow> pull_enum list \<Rightarrow> bool" where
  "fanin_ok fs ps \<longleftrightarrow> length ps = unat (fs_size fs) \<and>
     fs_unknowns fs = of_nat (count_list ps PULL_WEAK) \<and>
     fs_countdown fs = of_nat (count_list ps PULL_ON)"

end
