(* ===== verification/Event_Pool.thy ===== *)
theory Event_Pool
  imports Hackt_Prelude
begin

text \<open>
  The index allocator behind the event pool: \<^verbatim>\<open>array_pool\<close> (src/util/memory/array_pool.hh and .tcc) over a
  \<^verbatim>\<open>std::vector\<close>, with a \<^verbatim>\<open>std::set\<close> of free indices (\<^verbatim>\<open>PARANOID_EVENT_FREE_LIST\<close> is 1) whose
  \<^verbatim>\<open>acquire\<close> and \<^verbatim>\<open>release\<close> are the set specialization of src/util/memory/free_list.hh. The set is modelled
  by its ascending list of elements.
\<close>

section \<open>free_list<set>\<close>

definition free_list_acquire :: "nat list \<Rightarrow> (nat \<times> nat list) option" where
  "free_list_acquire c = do { INVARIANT (c \<noteq> []); Some (hd c, tl c) }"

definition free_list_release :: "nat list \<Rightarrow> nat \<Rightarrow> nat list option" where
  "free_list_release c v = do { INVARIANT (v \<notin> set c); Some (insort v c) }"

section \<open>class array_pool\<close>

record 'a array_pool =
  index_pool :: "'a list"
  free_indices :: "nat list"

definition array_pool_new :: "'a \<Rightarrow> 'a array_pool" where
  "array_pool_new dflt = \<lparr>index_pool = [dflt], free_indices = []\<rparr>"

definition pool_get :: "'a array_pool \<Rightarrow> nat \<Rightarrow> 'a option" where
  "pool_get p i = do { INVARIANT (i \<noteq> 0); nth_opt (index_pool p) i }"

definition pool_set :: "'a array_pool \<Rightarrow> nat \<Rightarrow> 'a \<Rightarrow> 'a array_pool option" where
  "pool_set p i v = do {
     INVARIANT (i \<noteq> 0);
     xs \<leftarrow> upd_opt (index_pool p) i v;
     Some (p\<lparr>index_pool := xs\<rparr>) }"

definition pool_size :: "'a array_pool \<Rightarrow> nat" where
  "pool_size p = length (index_pool p)"

definition pool_allocate :: "'a array_pool \<Rightarrow> 'a \<Rightarrow> (nat \<times> 'a array_pool) option" where
  "pool_allocate p e =
     (if free_indices p = [] then do {
        INVARIANT (pool_size p \<noteq> 0);
        Some (pool_size p, p\<lparr>index_pool := index_pool p @ [e]\<rparr>) }
      else do {
        (ret, fl) \<leftarrow> free_list_acquire (free_indices p);
        xs \<leftarrow> upd_opt (index_pool p) ret e;
        INVARIANT (ret \<noteq> 0);
        Some (ret, p\<lparr>index_pool := xs, free_indices := fl\<rparr>) })"

definition pool_deallocate :: "'a array_pool \<Rightarrow> nat \<Rightarrow> 'a array_pool option" where
  "pool_deallocate p i = do {
     INVARIANT (i \<noteq> 0);
     fl \<leftarrow> free_list_release (free_indices p) i;
     Some (p\<lparr>free_indices := fl\<rparr>) }"

definition pool_clear :: "'a \<Rightarrow> 'a array_pool \<Rightarrow> 'a array_pool" where
  "pool_clear dflt p = \<lparr>index_pool = [dflt], free_indices = []\<rparr>"

text \<open>
  \<^verbatim>\<open>check_valid_empty\<close> compares the number of free indices with the pool size and their sum, modulo
  \<open>2^64\<close>, with the triangular number, computed by halving the even factor.
\<close>

type_synonym size_word = "64 word"

definition expect_sum :: "nat \<Rightarrow> size_word" where
  "expect_sum m = (if odd m then of_nat m * of_nat ((m + 1) div 2) else of_nat (m div 2) * of_nat (m + 1))"

definition check_valid_empty :: "'a array_pool \<Rightarrow> bool" where
  "check_valid_empty p =
     (let pn = pool_size p - 1; m = length (free_indices p) in
      if pn \<noteq> m then False
      else fold (\<lambda>i s. s + of_nat i) (free_indices p) (0 :: size_word) = expect_sum m)"

section \<open>The allocator interface\<close>

definition pool_ok :: "'a array_pool \<Rightarrow> bool" where
  "pool_ok p \<longleftrightarrow> index_pool p \<noteq> [] \<and> sorted (free_indices p) \<and> distinct (free_indices p) \<and>
     (\<forall>i \<in> set (free_indices p). 0 < i \<and> i < pool_size p)"

definition pool_live :: "'a array_pool \<Rightarrow> nat set" where
  "pool_live p = {i. 0 < i \<and> i < pool_size p \<and> i \<notin> set (free_indices p)}"

locale index_allocator =
  fixes invar :: "'p \<Rightarrow> bool"
    and live :: "'p \<Rightarrow> nat set"
    and get :: "'p \<Rightarrow> nat \<Rightarrow> 'a option"
    and put :: "'p \<Rightarrow> nat \<Rightarrow> 'a \<Rightarrow> 'p option"
    and allocate :: "'p \<Rightarrow> 'a \<Rightarrow> (nat \<times> 'p) option"
    and deallocate :: "'p \<Rightarrow> nat \<Rightarrow> 'p option"
  assumes zero_not_live: "invar p \<Longrightarrow> 0 \<notin> live p"
    and finite_live: "invar p \<Longrightarrow> finite (live p)"
    and get_live: "invar p \<Longrightarrow> i \<in> live p \<Longrightarrow> \<exists>v. get p i = Some v"
    and allocate_total: "invar p \<Longrightarrow> \<exists>i p'. allocate p v = Some (i, p')"
    and allocate_fresh: "invar p \<Longrightarrow> allocate p v = Some (i, p') \<Longrightarrow>
           i \<notin> live p \<and> live p' = insert i (live p) \<and> get p' i = Some v \<and> invar p'"
    and allocate_frame: "invar p \<Longrightarrow> allocate p v = Some (i, p') \<Longrightarrow> j \<in> live p \<Longrightarrow> get p' j = get p j"
    and deallocate_live: "invar p \<Longrightarrow> i \<in> live p \<Longrightarrow>
           \<exists>p'. deallocate p i = Some p' \<and> live p' = live p - {i} \<and> invar p' \<and> get p' = get p"
    and put_live: "invar p \<Longrightarrow> i \<in> live p \<Longrightarrow>
           \<exists>p'. put p i v = Some p' \<and> live p' = live p \<and> invar p' \<and>
                get p' i = Some v \<and> (\<forall>j. j \<noteq> i \<longrightarrow> get p' j = get p j)"
begin

lemma allocate_nonzero: "invar p \<Longrightarrow> allocate p v = Some (i, p') \<Longrightarrow> i \<noteq> 0"
  using allocate_fresh zero_not_live by (metis insertI1)

lemma allocate_get:
  "invar p \<Longrightarrow> allocate p v = Some (i, p') \<Longrightarrow> j \<in> live p' \<Longrightarrow>
   get p' j = (if j = i then Some v else get p j)"
  using allocate_fresh allocate_frame by (metis insertE)

lemma allocate_deallocate:
  assumes "invar p" and "allocate p v = Some (i, p')"
  shows "\<exists>p''. deallocate p' i = Some p'' \<and> invar p'' \<and> live p'' = live p
              \<and> (\<forall>j \<in> live p. get p'' j = get p j)"
  using deallocate_live [of p' i] allocate_fresh [OF assms] allocate_frame [OF assms] by auto

end

subsection \<open>The pool is an allocator\<close>

lemma pool_ok_free:
  assumes "pool_ok p" and "free_indices p = i # fl"
  shows "0 < i" "i < pool_size p" "i \<notin> set fl" "sorted fl" "distinct fl"
  using assms by (auto simp: pool_ok_def)

lemma pool_allocate_cases:
  assumes "pool_ok p"
  shows "pool_allocate p e =
    (case free_indices p of
       [] \<Rightarrow> Some (pool_size p, p\<lparr>index_pool := index_pool p @ [e]\<rparr>)
     | i # fl \<Rightarrow> Some (i, p\<lparr>index_pool := (index_pool p)[i := e], free_indices := fl\<rparr>))"
proof (cases "free_indices p")
  case Nil
  with assms show ?thesis by (simp add: pool_allocate_def pool_ok_def pool_size_def)
next
  case (Cons i fl)
  from pool_ok_free [OF assms Cons] Cons show ?thesis
    by (simp add: pool_allocate_def free_list_acquire_def pool_size_def upd_opt_def)
qed

lemma pool_allocate_fresh:
  assumes "pool_ok p" and "pool_allocate p v = Some (i, p')"
  shows "i \<notin> pool_live p" "pool_live p' = insert i (pool_live p)" "pool_get p' i = Some v" "pool_ok p'"
    "j \<in> pool_live p \<Longrightarrow> pool_get p' j = pool_get p j"
proof -
  have "i \<notin> pool_live p \<and> pool_live p' = insert i (pool_live p) \<and> pool_get p' i = Some v \<and> pool_ok p'
      \<and> (j \<in> pool_live p \<longrightarrow> pool_get p' j = pool_get p j)"
  proof (cases "free_indices p")
    case Nil
    with assms show ?thesis
      by (auto simp: pool_allocate_cases pool_live_def pool_size_def pool_get_def pool_ok_def
          nth_opt_def nth_append)
  next
    case (Cons k fl)
    from pool_ok_free [OF assms(1) Cons] assms Cons show ?thesis
      by (auto simp: pool_allocate_cases pool_live_def pool_size_def pool_get_def pool_ok_def nth_opt_def)
  qed
  then show "i \<notin> pool_live p" "pool_live p' = insert i (pool_live p)" "pool_get p' i = Some v"
    "pool_ok p'" "j \<in> pool_live p \<Longrightarrow> pool_get p' j = pool_get p j" by blast+
qed

lemma pool_deallocate_live:
  assumes "pool_ok p" and "i \<in> pool_live p"
  shows "pool_deallocate p i = Some (p\<lparr>free_indices := insort i (free_indices p)\<rparr>)"
    "pool_ok (p\<lparr>free_indices := insort i (free_indices p)\<rparr>)"
    "pool_live (p\<lparr>free_indices := insort i (free_indices p)\<rparr>) = pool_live p - {i}"
    "pool_get (p\<lparr>free_indices := insort i (free_indices p)\<rparr>) = pool_get p"
  using assms
  by (auto simp: pool_deallocate_def free_list_release_def pool_live_def pool_ok_def pool_size_def
      pool_get_def fun_eq_iff distinct_insort set_insort_key sorted_insort)

lemma pool_set_live:
  assumes "pool_ok p" and "i \<in> pool_live p"
  shows "pool_set p i v = Some (p\<lparr>index_pool := (index_pool p)[i := v]\<rparr>)"
    "pool_live (p\<lparr>index_pool := (index_pool p)[i := v]\<rparr>) = pool_live p"
    "pool_ok (p\<lparr>index_pool := (index_pool p)[i := v]\<rparr>)"
    "pool_get (p\<lparr>index_pool := (index_pool p)[i := v]\<rparr>) i = Some v"
    "j \<noteq> i \<Longrightarrow> pool_get (p\<lparr>index_pool := (index_pool p)[i := v]\<rparr>) j = pool_get p j"
  using assms
  by (auto simp: pool_set_def pool_live_def pool_ok_def pool_size_def pool_get_def nth_opt_def upd_opt_def)

interpretation evp: index_allocator pool_ok pool_live pool_get pool_set pool_allocate pool_deallocate
proof (unfold_locales, goal_cases)
  case (3 p i)
  then show ?case by (auto simp: pool_live_def pool_get_def pool_size_def nth_opt_def)
next
  case (4 p v)
  then show ?case by (simp add: pool_allocate_cases split: list.split)
next
  case (5 p v i p')
  then show ?case by (simp add: pool_allocate_fresh)
next
  case (6 p v i p' j)
  then show ?case by (rule pool_allocate_fresh(5))
next
  case (7 p i)
  then show ?case using pool_deallocate_live [of p i] by simp
next
  case (8 p i v)
  then show ?case using pool_set_live [where p = p and i = i and v = v] by simp
qed (simp_all add: pool_live_def)

subsection \<open>The emptiness check\<close>

lemma expect_sum_triangular: "expect_sum m = of_nat (\<Sum>i = 1..m. i)"
proof -
  have "(\<Sum>i = 1..m. i) = m * (m + 1) div 2"
    using gauss_sum_from_Suc_0 [of m, where 'a = nat] by (simp add: algebra_simps)
  moreover have "m * (m + 1) div 2 = (if odd m then m * ((m + 1) div 2) else (m div 2) * (m + 1))"
    by (auto elim!: oddE evenE)
  ultimately show ?thesis by (simp only: expect_sum_def of_nat_mult split: if_split) simp
qed

lemma fold_add_of_nat: "fold (\<lambda>i s. s + of_nat i) xs (a :: size_word) = a + of_nat (sum_list xs)"
  by (induction xs arbitrary: a) (simp_all add: algebra_simps)

lemma pool_all_free:
  assumes "pool_ok p" and "length (free_indices p) = pool_size p - 1"
  shows "set (free_indices p) = {1..<pool_size p}"
proof (rule card_subset_eq)
  from assms(1) show "set (free_indices p) \<subseteq> {1..<pool_size p}" by (auto simp: pool_ok_def)
  from assms show "card (set (free_indices p)) = card {1..<pool_size p}"
    by (simp add: pool_ok_def distinct_card)
qed simp

end
