(* ===== verification/Prs_State.thy ===== *)
theory Prs_State
  imports Prs_Expr Prs_Node Event_Pool
begin

text \<open>
  The simulator state: \<^verbatim>\<open>class State\<close> of src/sim/prsim/State-prsim.hh, the process graphs of
  src/sim/prsim/process_graph.hh and the per-process state of src/sim/prsim/process_state.hh.

  Components that the state only calls are parameters, collected in the record \<open>sim_env\<close>: the C
  library's random numbers, the footprint frames of the module, the channel manager, the trace and
  timing-check managers. Their answers are indexed by a counter in the state, so that the model
  stays a function while the answers may depend on everything that happened before.
\<close>

unbundle bit_operations_syntax

section \<open>Process graphs and process states\<close>

record min_delay_entry =
  md_time :: "bool \<Rightarrow> bool \<Rightarrow> time_type"
  md_predicate :: "bool \<Rightarrow> bool \<Rightarrow> node_index_type"

text \<open>
  \<^verbatim>\<open>unique_process_subgraph\<close>, the part that simulation reads. \<^verbatim>\<open>std::map\<close> members are maps; the inner map of
  \<^verbatim>\<open>min_delays\<close> is traversed, so it is an association list in key order.
\<close>

record process_graph =
  expr_pool :: "expr list"
  expr_graph_node_pool :: "expr_graph_node list"
  rule_pool :: "rule list"
  rule_map :: "expr_index_type \<rightharpoonup> rule_index_type"
  min_delays :: "node_index_type \<rightharpoonup> (node_index_type \<times> min_delay_entry) list"

record process_sim_state =
  ps_type :: process_index_type
  global_expr_offset :: expr_index_type
  expr_states :: "expr_state list"

definition local_expr_index :: "process_sim_state \<Rightarrow> expr_index_type \<Rightarrow> expr_index_type" where
  "local_expr_index ps gei = gei - global_expr_offset ps"

definition global_expr_index :: "process_sim_state \<Rightarrow> expr_index_type \<Rightarrow> expr_index_type" where
  "global_expr_index ps lei = lei + global_expr_offset ps"

text \<open>\<^verbatim>\<open>unique_process_subgraph::lookup_rule\<close>: a null pointer when the expression is not a rule.\<close>

definition graph_lookup_rule :: "process_graph \<Rightarrow> expr_index_type \<Rightarrow> rule option option" where
  "graph_lookup_rule g ei =
     (case rule_map g ei of
        Some ri \<Rightarrow> map_option Some (nth_opt (rule_pool g) ri)
      | None \<Rightarrow> Some None)"

definition is_rule_expr_local :: "process_graph \<Rightarrow> expr_index_type \<Rightarrow> bool" where
  "is_rule_expr_local g ei \<longleftrightarrow> rule_map g ei \<noteq> None"

section \<open>Rings, updates, exceptions\<close>

text \<open>\<^verbatim>\<open>ring_counter_state\<close>: the counter is a \<^verbatim>\<open>char\<close>, kept at 8 bits; the ring is a \<^verbatim>\<open>std::set\<close>.\<close>

record ring_counter_state =
  ring_elems :: "node_index_type list"
  ring_count :: "8 word"

record node_update_info =
  nui_rule_index :: rule_index_type
  nui_rule_ptr :: "rule option"
  old_pull_set :: pull_set
  excl_blocked :: bool

definition node_update_info_new :: node_update_info where
  "node_update_info_new = \<lparr>nui_rule_index = INVALID_RULE_INDEX, nui_rule_ptr = None,
     old_pull_set = pull_set_default, excl_blocked = False\<rparr>"

datatype step_exception =
    excl_exception bool lock_index_type node_index_type
  | invariant_exception node_index_type error_policy_enum
  | generic_exception node_index_type error_policy_enum

datatype timing_enum = TIMING_AFTER | TIMING_UNIFORM | TIMING_RANDOM | TIMING_BINARY | TIMING_BOUNDED

abbreviation TIMING_DEFAULT :: timing_enum where "TIMING_DEFAULT \<equiv> TIMING_UNIFORM"

datatype enqueue_status = ENQUEUE_ACCEPT | ENQUEUE_WARNING | ENQUEUE_REJECT | ENQUEUE_FATAL

record error_policies =
  invariant_fail_policy :: error_policy_enum
  invariant_unknown_policy :: error_policy_enum
  unstable_policy :: error_policy_enum
  weak_unstable_policy :: error_policy_enum
  excl_unstable_policy :: error_policy_enum
  interference_policy :: error_policy_enum
  weak_interference_policy :: error_policy_enum
  assert_fail_policy :: error_policy_enum
  channel_expect_fail_policy :: error_policy_enum
  excl_check_fail_policy :: error_policy_enum
  keeper_check_fail_policy :: error_policy_enum

definition error_policies_default :: error_policies where
  "error_policies_default = \<lparr>
     invariant_fail_policy = ERROR_BREAK, invariant_unknown_policy = ERROR_WARN,
     unstable_policy = ERROR_BREAK, weak_unstable_policy = ERROR_WARN,
     excl_unstable_policy = ERROR_BREAK, interference_policy = ERROR_BREAK,
     weak_interference_policy = ERROR_WARN, assert_fail_policy = ERROR_FATAL,
     channel_expect_fail_policy = ERROR_FATAL, excl_check_fail_policy = ERROR_FATAL,
     keeper_check_fail_policy = ERROR_IGNORE\<rparr>"

definition set_mode_reset :: "error_policies \<Rightarrow> error_policies" where
  "set_mode_reset p = p\<lparr>unstable_policy := ERROR_BREAK, weak_unstable_policy := ERROR_WARN,
     interference_policy := ERROR_BREAK, weak_interference_policy := ERROR_IGNORE\<rparr>"

definition set_mode_run :: "error_policies \<Rightarrow> error_policies" where
  "set_mode_run p = p\<lparr>unstable_policy := ERROR_BREAK, weak_unstable_policy := ERROR_WARN,
     interference_policy := ERROR_BREAK, weak_interference_policy := ERROR_WARN\<rparr>"

definition set_mode_breakall :: "error_policies \<Rightarrow> error_policies" where
  "set_mode_breakall p = p\<lparr>unstable_policy := ERROR_BREAK, weak_unstable_policy := ERROR_BREAK,
     interference_policy := ERROR_BREAK, weak_interference_policy := ERROR_BREAK\<rparr>"

text \<open>The first two conditions of \<^verbatim>\<open>set_mode_fatal\<close>: fast weak keepers at start-up, weak rules enabled.\<close>

definition set_mode_fatal :: "bool \<Rightarrow> bool \<Rightarrow> error_policies \<Rightarrow> error_policies" where
  "set_mode_fatal fast_weak_keepers weak_rules p =
     (let q = p\<lparr>unstable_policy := ERROR_FATAL, weak_unstable_policy := ERROR_FATAL,
        excl_unstable_policy := ERROR_FATAL, interference_policy := ERROR_FATAL,
        weak_interference_policy := ERROR_FATAL, invariant_fail_policy := ERROR_FATAL,
        invariant_unknown_policy := ERROR_FATAL, assert_fail_policy := ERROR_FATAL,
        channel_expect_fail_policy := ERROR_FATAL, excl_check_fail_policy := ERROR_FATAL\<rparr>
      in if fast_weak_keepers \<and> weak_rules then q\<lparr>keeper_check_fail_policy := ERROR_FATAL\<rparr> else q)"

record timing_parameters =
  uniform_delay :: time_type
  default_after_min :: time_type
  default_after_max :: time_type
  timing_probability :: rat
  timing_mode :: timing_enum

section \<open>class State\<close>

abbreviation FLAG_UNSTABLE_DEQUEUE :: "64 word" where "FLAG_UNSTABLE_DEQUEUE \<equiv> 0x01"
abbreviation FLAG_STOP_SIMULATION :: "64 word" where "FLAG_STOP_SIMULATION \<equiv> 0x02"
abbreviation FLAG_SHOW_CAUSE :: "64 word" where "FLAG_SHOW_CAUSE \<equiv> 0x08"
abbreviation FLAG_CHECK_EXCL :: "64 word" where "FLAG_CHECK_EXCL \<equiv> 0x40"
abbreviation FLAG_RANDOM_FANOUT_EVALUATION_ORDERING :: "64 word" where "FLAG_RANDOM_FANOUT_EVALUATION_ORDERING \<equiv> 0x80"
abbreviation FLAG_WEAK_RULES :: "64 word" where "FLAG_WEAK_RULES \<equiv> 0x400"
abbreviation FLAG_TRACE_ON :: "64 word" where "FLAG_TRACE_ON \<equiv> 0x8000"
abbreviation FLAG_VCD_ON :: "64 word" where "FLAG_VCD_ON \<equiv> 0x10000"
abbreviation FLAG_EXCL_UNSTABLE_DEQUEUE :: "64 word" where "FLAG_EXCL_UNSTABLE_DEQUEUE \<equiv> 0x20000"
abbreviation FLAG_STOP_ON_VACUOUS :: "64 word" where "FLAG_STOP_ON_VACUOUS \<equiv> 0x40000"
abbreviation FLAGS_DEFAULT :: "64 word" where "FLAGS_DEFAULT \<equiv> FLAG_CHECK_EXCL OR FLAG_SHOW_CAUSE"

text \<open>
  \<^verbatim>\<open>global_expr_process_id_map\<close> and \<^verbatim>\<open>__invariant_update_map\<close> are traversed in key order and are association
  lists; \<^verbatim>\<open>updated_nodes\<close> is measured, so it is an association list too (without an order);
  \<^verbatim>\<open>std::set\<close> members are ascending lists. \<open>oracle_pos\<close> counts the answers taken from the environment.
\<close>

record prsim_state =
  node_pool :: "node_state list"
  unique_process_pool :: "process_graph list"
  global_expr_process_id_map :: "(expr_index_type \<times> process_index_type) list"
  process_state_array :: "process_sim_state list"
  event_pool :: "event array_pool"
  event_queue :: "time_type event_queue"
  mk_exhi :: "ring_counter_state list"
  mk_exlo :: "ring_counter_state list"
  mk_exhi_counter_map :: "node_index_type \<rightharpoonup> lock_index_type list"
  mk_exlo_counter_map :: "node_index_type \<rightharpoonup> lock_index_type list"
  mk_excl_blocking_set :: "node_index_type list"
  updated_nodes :: "(node_index_type \<times> node_update_info) list"
  updated_nodes_queue :: "node_index_type list"
  check_exhi_ring_pool :: "bool list"
  check_exlo_ring_pool :: "bool list"
  check_exhi :: "node_index_type \<rightharpoonup> lock_index_type list"
  check_exlo :: "node_index_type \<rightharpoonup> lock_index_type list"
  timing_fanin :: "node_index_type \<rightharpoonup> process_index_type list"
  current_time :: time_type
  timing_params :: timing_parameters
  sim_flags :: "64 word"
  interrupted :: bool
  policies :: error_policies
  atomic_updated_nodes :: "node_index_type \<rightharpoonup> value_enum"
  recent_exceptions :: "step_exception list"
  keeper_check_candidates :: "node_index_type list"
  invariant_update_map :: "((process_index_type \<times> expr_index_type) \<times> pull_enum) list"
  oracle_pos :: nat

text \<open>An event that a channel asks for (\<^verbatim>\<open>env_event_type\<close> of src/sim/prsim/Channel-prsim.hh).\<close>

record env_event =
  ee_node :: node_index_type
  ee_value :: value_enum
  ee_delay :: time_type
  ee_use_global :: bool

record sim_env =
  uniform_rand :: "nat \<Rightarrow> time_type"
  exponential_rand :: "nat \<Rightarrow> time_type"
  footprint_frame_map :: "process_index_type \<Rightarrow> node_index_type list"
  shuffle_fanout :: "nat \<Rightarrow> expr_index_type list \<Rightarrow> expr_index_type list"
  channel_process_node :: "nat \<Rightarrow> node_index_type \<Rightarrow> value_enum \<Rightarrow> value_enum \<Rightarrow> env_event list"
  timing_check :: "nat \<Rightarrow> bool \<Rightarrow> node_index_type \<Rightarrow> value_enum \<Rightarrow> error_policy_enum list"
  trace_event_index :: "nat \<Rightarrow> nat"
  feedback_feedthrough :: "node_index_type \<Rightarrow> node_index_type \<Rightarrow> node_index_type list"

text \<open>What the C library guarantees of its random numbers: uniform ones lie in \<open>[0, 1)\<close>.\<close>

definition random_ok :: "sim_env \<Rightarrow> bool" where
  "random_ok env \<longleftrightarrow> (\<forall>k. 0 \<le> uniform_rand env k \<and> uniform_rand env k < 1 \<and> 0 \<le> exponential_rand env k)"

section \<open>Flags and nodes\<close>

definition dequeue_unstable_events :: "prsim_state \<Rightarrow> bool" where
  "dequeue_unstable_events s \<longleftrightarrow> sim_flags s AND FLAG_UNSTABLE_DEQUEUE \<noteq> 0"
definition stopped :: "prsim_state \<Rightarrow> bool" where
  "stopped s \<longleftrightarrow> sim_flags s AND FLAG_STOP_SIMULATION \<noteq> 0"
definition stop :: "prsim_state \<Rightarrow> prsim_state" where
  "stop s = s\<lparr>sim_flags := sim_flags s OR FLAG_STOP_SIMULATION, interrupted := True\<rparr>"
definition resume :: "prsim_state \<Rightarrow> prsim_state" where
  "resume s = s\<lparr>sim_flags := sim_flags s AND NOT FLAG_STOP_SIMULATION, interrupted := False,
                recent_exceptions := []\<rparr>"
definition is_fatal :: "prsim_state \<Rightarrow> bool" where
  "is_fatal s \<longleftrightarrow> recent_exceptions s \<noteq> []"
definition stopped_or_fatal :: "prsim_state \<Rightarrow> bool" where
  "stopped_or_fatal s \<longleftrightarrow> stopped s \<or> is_fatal s"
definition checking_excl :: "prsim_state \<Rightarrow> bool" where
  "checking_excl s \<longleftrightarrow> sim_flags s AND FLAG_CHECK_EXCL \<noteq> 0"
definition nocheck_excl :: "prsim_state \<Rightarrow> prsim_state" where
  "nocheck_excl s = s\<lparr>sim_flags := sim_flags s AND NOT FLAG_CHECK_EXCL\<rparr>"
definition eval_ordering_is_random :: "prsim_state \<Rightarrow> bool" where
  "eval_ordering_is_random s \<longleftrightarrow> sim_flags s AND FLAG_RANDOM_FANOUT_EVALUATION_ORDERING \<noteq> 0"
definition weak_rules_enabled :: "prsim_state \<Rightarrow> bool" where
  "weak_rules_enabled s \<longleftrightarrow> sim_flags s AND FLAG_WEAK_RULES \<noteq> 0"
definition is_tracing :: "prsim_state \<Rightarrow> bool" where
  "is_tracing s \<longleftrightarrow> sim_flags s AND FLAG_TRACE_ON \<noteq> 0"
definition is_tracing_vcd :: "prsim_state \<Rightarrow> bool" where
  "is_tracing_vcd s \<longleftrightarrow> sim_flags s AND FLAG_VCD_ON \<noteq> 0"
definition dequeue_excl_unstable_events :: "prsim_state \<Rightarrow> bool" where
  "dequeue_excl_unstable_events s \<longleftrightarrow> sim_flags s AND FLAG_EXCL_UNSTABLE_DEQUEUE \<noteq> 0"
definition stopping_on_vacuous_events :: "prsim_state \<Rightarrow> bool" where
  "stopping_on_vacuous_events s \<longleftrightarrow> sim_flags s AND FLAG_STOP_ON_VACUOUS \<noteq> 0"

definition record_exception :: "step_exception \<Rightarrow> prsim_state \<Rightarrow> prsim_state" where
  "record_exception x s = s\<lparr>recent_exceptions := recent_exceptions s @ [x]\<rparr>"

definition get_node :: "prsim_state \<Rightarrow> node_index_type \<Rightarrow> node_state option" where
  "get_node s i = nth_opt (node_pool s) i"

text \<open>Writing through the reference that \<^verbatim>\<open>__get_node\<close> returns.\<close>

definition put_node :: "prsim_state \<Rightarrow> node_index_type \<Rightarrow> node_state \<Rightarrow> prsim_state" where
  "put_node s i n = s\<lparr>node_pool := (node_pool s)[i := n]\<rparr>"

definition mod_node :: "prsim_state \<Rightarrow> node_index_type \<Rightarrow> (node_state \<Rightarrow> node_state) \<Rightarrow> prsim_state option" where
  "mod_node s i f = do { n \<leftarrow> get_node s i; Some (put_node s i (f n)) }"

definition get_event :: "prsim_state \<Rightarrow> event_index_type \<Rightarrow> event option" where
  "get_event s i = pool_get (event_pool s) i"

definition put_event :: "prsim_state \<Rightarrow> event_index_type \<Rightarrow> event \<Rightarrow> prsim_state option" where
  "put_event s i e = do { p \<leftarrow> pool_set (event_pool s) i e; Some (s\<lparr>event_pool := p\<rparr>) }"

end
