(* ===== verification/Prs_Sched.thy ===== *)
theory Prs_Sched
  imports Prs_State
begin

text \<open>
  Event bookkeeping of src/sim/prsim/State-prsim.cc: allocation, killing, enqueueing, rescheduling and
  dequeueing of events, user actions on nodes (set, unset, freeze, breakpoints), delays, back-annotated
  minimum delays. The invariant \<open>sched_inv\<close> relates event queue, event pool and nodes; every operation
  keeps it and none aborts in a state that has it.
\<close>

section \<open>Allocation\<close>

definition copy_event :: "event \<Rightarrow> prsim_state \<Rightarrow> (event_index_type \<times> prsim_state) option" where
  "copy_event e s = do {
     (i, p) \<leftarrow> pool_allocate (event_pool s) e;
     Some (i, s\<lparr>event_pool := p\<rparr>) }"

text \<open>The overload that copies a constructed event, and the one that builds it from its parts.\<close>

definition allocate_event ::
  "node_index_type \<Rightarrow> event \<Rightarrow> prsim_state \<Rightarrow> (event_index_type \<times> prsim_state) option" where
  "allocate_event ni e s = do {
     n \<leftarrow> get_node s ni;
     INVARIANT (\<not> pending_event n);
     INVARIANT (\<not> is_frozen n \<or> forced e);
     (i, s1) \<leftarrow> copy_event e s;
     n' \<leftarrow> set_event i n;
     Some (i, put_node s1 ni n') }"

definition allocate_event_args ::
  "node_index_type \<Rightarrow> event_cause \<Rightarrow> rule_index_type \<Rightarrow> rule option \<Rightarrow> value_enum \<Rightarrow> bool \<Rightarrow> bool
    \<Rightarrow> prsim_state \<Rightarrow> (event_index_type \<times> prsim_state) option" where
  "allocate_event_args ni c ri r val weak frc s = do {
     n \<leftarrow> get_node s ni;
     INVARIANT (\<not> pending_event n);
     let e = Event_new ni c ri r val weak;
     let e = (if frc then force e else e);
     allocate_event ni e s }"

definition allocate_pending_interference_event ::
  "node_index_type \<Rightarrow> event_cause \<Rightarrow> value_enum \<Rightarrow> bool \<Rightarrow> prsim_state
    \<Rightarrow> (event_index_type \<times> prsim_state) option" where
  "allocate_pending_interference_event ni c next weak s = do {
     (ne, s1) \<leftarrow> copy_event (Event_new ni c INVALID_RULE_INDEX None next weak) s;
     e \<leftarrow> get_event s1 ne;
     s2 \<leftarrow> put_event s1 ne (set_pending_interference True e);
     Some (ne, s2) }"

definition load_allocate_event :: "event \<Rightarrow> prsim_state \<Rightarrow> (event_index_type \<times> prsim_state) option" where
  "load_allocate_event ev s = do {
     n \<leftarrow> get_node s (ev_node ev);
     (ne, s1) \<leftarrow> copy_event ev s;
     if killed ev then Some (ne, s1)
     else do { n' \<leftarrow> load_event ne n; Some (ne, put_node s1 (ev_node ev) n') } }"

definition deallocate_killed_event :: "event_index_type \<Rightarrow> prsim_state \<Rightarrow> prsim_state option" where
  "deallocate_killed_event i s = do {
     p \<leftarrow> pool_deallocate (event_pool s) i;
     Some (s\<lparr>event_pool := p\<rparr>) }"

definition deallocate_pending_interference_event ::
  "event_index_type \<Rightarrow> prsim_state \<Rightarrow> prsim_state option" where
  "deallocate_pending_interference_event i s = do {
     p \<leftarrow> pool_deallocate (event_pool s) i;
     Some (s\<lparr>event_pool := p\<rparr>) }"

definition deallocate_event ::
  "node_index_type \<Rightarrow> event_index_type \<Rightarrow> prsim_state \<Rightarrow> prsim_state option" where
  "deallocate_event ni i s = do {
     s1 \<leftarrow> mod_node s ni clear_event;
     p \<leftarrow> pool_deallocate (event_pool s1) i;
     Some (s1\<lparr>event_pool := p\<rparr>) }"

section \<open>Enqueueing and rescheduling\<close>

definition pending_events :: "prsim_state \<Rightarrow> bool" where
  "pending_events s \<longleftrightarrow> \<not> eq_empty (event_queue s)"

definition peek_next_event :: "prsim_state \<Rightarrow> time_type event_placeholder option" where
  "peek_next_event s = eq_top (event_queue s)"

definition update_time :: "time_type \<Rightarrow> prsim_state \<Rightarrow> prsim_state" where
  "update_time t s = s\<lparr>current_time := t\<rparr>"

text \<open>The two scans of the queue for a live event. The maximal time value is a parameter: it is the largest double.\<close>

fun scan_live :: "prsim_state \<Rightarrow> time_type event_queue \<Rightarrow> time_type option option" where
  "scan_live s [] = Some None"
| "scan_live s (p # ps) = do {
     e \<leftarrow> get_event s (ep_index p);
     if killed e then scan_live s ps else Some (Some (ep_time p)) }"

definition pending_live_events :: "prsim_state \<Rightarrow> bool option" where
  "pending_live_events s =
     (if eq_empty (event_queue s) then Some False
      else map_option (\<lambda>r. r \<noteq> None) (scan_live s (event_queue s)))"

definition next_event_time :: "time_type \<Rightarrow> prsim_state \<Rightarrow> time_type option" where
  "next_event_time max_time s =
     map_option (\<lambda>r. case r of Some t \<Rightarrow> t | None \<Rightarrow> max_time) (scan_live s (event_queue s))"

definition kill_event :: "event_index_type \<Rightarrow> node_index_type \<Rightarrow> prsim_state \<Rightarrow> prsim_state option" where
  "kill_event ei ni s = do {
     e \<leftarrow> get_event s ei;
     s1 \<leftarrow> put_event s ei (ev_kill e);
     mod_node s1 ni clear_event }"

definition load_enqueue_event ::
  "time_type \<Rightarrow> event_index_type \<Rightarrow> prsim_state \<Rightarrow> (node_index_type \<times> prsim_state) option" where
  "load_enqueue_event t ei s = do {
     INVARIANT (ei \<noteq> INVALID_EVENT_INDEX);
     e \<leftarrow> get_event s ei;
     INVARIANT (t \<ge> current_time s);
     Some (ev_node e, s\<lparr>event_queue := eq_push \<lparr>ep_time = t, ep_index = ei\<rparr> (event_queue s)\<rparr>) }"

definition enqueue_event :: "time_type \<Rightarrow> event_index_type \<Rightarrow> prsim_state \<Rightarrow> prsim_state option" where
  "enqueue_event t ei s = do {
     (ni, s1) \<leftarrow> load_enqueue_event t ei s;
     n \<leftarrow> get_node s1 ni;
     INVARIANT (pending_event n);
     INVARIANT (event_index n = ei);
     INVARIANT (\<not> is_atomic n);
     Some s1 }"

text \<open>User actions return an error flag with the new state.\<close>

definition deschedule_event :: "node_index_type \<Rightarrow> prsim_state \<Rightarrow> (bool \<times> prsim_state) option" where
  "deschedule_event ni s = do {
     n \<leftarrow> get_node s ni;
     if event_index n \<noteq> INVALID_EVENT_INDEX then do {
       s1 \<leftarrow> kill_event (event_index n) ni s;
       Some (False, s1) }
     else Some (True, s) }"

text \<open>The common prefix of the rescheduling operations: copy the event, kill the original, link the copy.\<close>

definition replace_event ::
  "node_index_type \<Rightarrow> event_index_type \<Rightarrow> prsim_state \<Rightarrow> (event_index_type \<times> prsim_state) option" where
  "replace_event ni ei s = do {
     e \<leftarrow> get_event s ei;
     (ne, s1) \<leftarrow> copy_event e s;
     s2 \<leftarrow> kill_event ei ni s1;
     n \<leftarrow> get_node s2 ni;
     n' \<leftarrow> set_event ne n;
     Some (ne, put_node s2 ni n') }"

definition reschedule_event_now :: "node_index_type \<Rightarrow> prsim_state \<Rightarrow> (bool \<times> prsim_state) option" where
  "reschedule_event_now ni s = do {
     n \<leftarrow> get_node s ni;
     let ei = event_index n;
     if ei \<noteq> INVALID_EVENT_INDEX then do {
       (ne, s1) \<leftarrow> replace_event ni ei s;
       let tmp = takeWhile (\<lambda>p. ep_time p = current_time s1) (event_queue s1);
       let rest = dropWhile (\<lambda>p. ep_time p = current_time s1) (event_queue s1);
       s2 \<leftarrow> enqueue_event (current_time s1) ne (s1\<lparr>event_queue := rest\<rparr>);
       Some (False, s2\<lparr>event_queue := push_all eq_push tmp (event_queue s2)\<rparr>) }
     else Some (True, s) }"

definition reschedule_event ::
  "node_index_type \<Rightarrow> time_type \<Rightarrow> prsim_state \<Rightarrow> (bool \<times> prsim_state) option" where
  "reschedule_event ni t s =
     (if t < current_time s then Some (True, s)
      else do {
        n \<leftarrow> get_node s ni;
        let ei = event_index n;
        if ei \<noteq> INVALID_EVENT_INDEX then do {
          (ne, s1) \<leftarrow> replace_event ni ei s;
          s2 \<leftarrow> enqueue_event t ne s1;
          Some (False, s2) }
        else Some (True, s) })"

definition find_event_time :: "event_index_type \<Rightarrow> time_type event_queue \<Rightarrow> time_type" where
  "find_event_time ei q = (case find (index_finder ei) q of Some p \<Rightarrow> ep_time p | None \<Rightarrow> invalid_time)"

definition reschedule_event_relative ::
  "node_index_type \<Rightarrow> time_type \<Rightarrow> prsim_state \<Rightarrow> (bool \<times> prsim_state) option" where
  "reschedule_event_relative ni dt s = do {
     n \<leftarrow> get_node s ni;
     let ei = event_index n;
     if ei \<noteq> INVALID_EVENT_INDEX then do {
       let t = find_event_time ei (eq_copy_to (event_queue s) []);
       INVARIANT (t \<noteq> invalid_time);
       reschedule_event ni (t + dt) s }
     else Some (True, s) }"

definition reschedule_event_future ::
  "node_index_type \<Rightarrow> time_type \<Rightarrow> prsim_state \<Rightarrow> (bool \<times> prsim_state) option" where
  "reschedule_event_future ni dt s = reschedule_event ni (current_time s + dt) s"

section \<open>Delays\<close>

definition rule_delay :: "rule option \<Rightarrow> (rule \<Rightarrow> time_type) \<Rightarrow> time_type \<Rightarrow> time_type" where
  "rule_delay r m def = (case r of Some r \<Rightarrow> if \<not> is_zero (m r) then m r else def | None \<Rightarrow> def)"

definition uniform_random_delay :: "sim_env \<Rightarrow> nat \<Rightarrow> time_type \<times> nat" where
  "uniform_random_delay env k = (uniform_rand env k, k + 1)"

definition exponential_random_delay :: "sim_env \<Rightarrow> nat \<Rightarrow> time_type \<times> nat" where
  "exponential_random_delay env k = (exponential_rand env k, k + 1)"

text \<open>The delay itself, with the position among the random numbers before and after.\<close>

definition delay_delta ::
  "sim_env \<Rightarrow> timing_parameters \<Rightarrow> rule option \<Rightarrow> nat \<Rightarrow> (time_type \<times> nat) option" where
  "delay_delta env tp r k = do {
     let min_val = rule_delay r after_min (default_after_min tp);
     let max_val = rule_delay r after_max (default_after_max tp);
     let have_min = (r \<noteq> None \<and> \<not> is_zero min_val);
     let have_max = (r \<noteq> None \<and> \<not> is_zero max_val);
     if timing_mode tp = TIMING_UNIFORM then Some (uniform_delay tp, k)
     else if timing_mode tp = TIMING_RANDOM \<or> (case r of Some r \<Rightarrow> is_always_random r | None \<Rightarrow> False) then
       (if (case r of Some r \<Rightarrow> is_zero (after r) | None \<Rightarrow> False) then Some (0, k)
        else if have_max then
          (let (u, k1) = uniform_random_delay env k in
           if have_min then Some (min_val + (max_val - min_val) * u, k1)
           else Some (max_val * u, k1))
        else
          (let (x, k1) = exponential_random_delay env k in
           Some (2 ^ 11 * x + (if have_min then min_val else 0), k1)))
     else if timing_mode tp = TIMING_BINARY then
       (let (u, k1) = uniform_random_delay env k in
        Some (if u < timing_probability tp then default_after_min tp else default_after_max tp, k1))
     else if timing_mode tp = TIMING_BOUNDED then do {
       INVARIANT (have_min \<and> have_max);
       INVARIANT (max_val \<ge> min_val);
       (let (u, k1) = uniform_random_delay env k in
        Some (if u < timing_probability tp then min_val else max_val, k1)) }
     else Some (case r of Some r \<Rightarrow> after r | None \<Rightarrow> 0, k) }"

definition get_delay_up :: "sim_env \<Rightarrow> event \<Rightarrow> prsim_state \<Rightarrow> (time_type \<times> prsim_state) option" where
  "get_delay_up env e s = do {
     (delta, k) \<leftarrow> delay_delta env (timing_params s) (ev_cause_rule_ptr e) (oracle_pos s);
     Some (current_time s + delta, s\<lparr>oracle_pos := k\<rparr>) }"

definition get_delay_dn :: "sim_env \<Rightarrow> event \<Rightarrow> prsim_state \<Rightarrow> (time_type \<times> prsim_state) option" where
  "get_delay_dn env e s = get_delay_up env e s"

definition enqueue_new_event :: "sim_env \<Rightarrow> event \<Rightarrow> prsim_state \<Rightarrow> prsim_state option" where
  "enqueue_new_event env newevent s = do {
     (ei, s1) \<leftarrow> allocate_event (ev_node newevent) newevent s;
     (t, s2) \<leftarrow> (if ev_val newevent = LOGIC_LOW then get_delay_dn env newevent s1 else get_delay_up env newevent s1);
     enqueue_event t ei s2 }"

section \<open>Back-annotated minimum delays\<close>

record applied_min_delay_constraint =
  amd_delayed :: bool
  amd_ref :: node_index_type
  amd_time :: time_type

definition amd_new :: "time_type \<Rightarrow> applied_min_delay_constraint" where
  "amd_new t = \<lparr>amd_delayed = False, amd_ref = INVALID_NODE_INDEX, amd_time = t\<rparr>"

definition amd_set :: "node_index_type \<Rightarrow> time_type \<Rightarrow> applied_min_delay_constraint" where
  "amd_set r t = \<lparr>amd_delayed = True, amd_ref = r, amd_time = t\<rparr>"

text \<open>\<^verbatim>\<open>bfm[j - 1]\<close>: process-local node indices count from 1.\<close>

definition frame_node :: "node_index_type list \<Rightarrow> node_index_type \<Rightarrow> node_index_type option" where
  "frame_node bfm j = (if j = 0 then None else nth_opt bfm (j - 1))"

text \<open>A constraint is suppressed when its predicate node is low.\<close>

definition min_delay_applies :: "prsim_state \<Rightarrow> node_index_type list \<Rightarrow> node_index_type \<Rightarrow> bool option" where
  "min_delay_applies s bfm pni =
     (if pni \<noteq> INVALID_NODE_INDEX then do {
        gpr \<leftarrow> frame_node bfm pni;
        p \<leftarrow> get_node s gpr;
        Some (node_value p \<noteq> LOGIC_LOW) }
      else Some True)"

text \<open>The innermost loop: one entry for each reference node of a target.\<close>

fun min_delay_entries ::
  "prsim_state \<Rightarrow> node_index_type list \<Rightarrow> bool \<Rightarrow> (node_index_type \<times> min_delay_entry) list
    \<Rightarrow> applied_min_delay_constraint \<Rightarrow> applied_min_delay_constraint option" where
  "min_delay_entries s bfm tgt_dir [] ret = Some ret"
| "min_delay_entries s bfm tgt_dir ((ref_node, md) # es) ret = do {
     grr \<leftarrow> frame_node bfm ref_node;
     r \<leftarrow> get_node s grr;
     let rv = node_value r;
     if rv = LOGIC_OTHER then min_delay_entries s bfm tgt_dir es ret
     else do {
       let ref_dir = (rv = LOGIC_HIGH);
       let pni = md_predicate md ref_dir tgt_dir;
       applies \<leftarrow> min_delay_applies s bfm pni;
       let past = last_edge_time r rv;
       let min_time = past + md_time md ref_dir tgt_dir;
       min_delay_entries s bfm tgt_dir es
         (if applies \<and> past \<ge> 0 \<and> min_time > amd_time ret then amd_set grr min_time else ret) } }"

text \<open>The scan of a process's frame for local aliases of the target; \<open>j\<close> is the local index.\<close>

fun min_delay_aliases ::
  "prsim_state \<Rightarrow> process_graph \<Rightarrow> node_index_type list \<Rightarrow> node_index_type \<Rightarrow> bool \<Rightarrow> nat list
    \<Rightarrow> applied_min_delay_constraint \<Rightarrow> applied_min_delay_constraint option" where
  "min_delay_aliases s g bfm ni tgt_dir [] ret = Some ret"
| "min_delay_aliases s g bfm ni tgt_dir (j # js) ret = do {
     b \<leftarrow> nth_opt bfm j;
     if b = ni then do {
       f \<leftarrow> min_delays g (j + 1);
       ret' \<leftarrow> min_delay_entries s bfm tgt_dir f ret;
       min_delay_aliases s g bfm ni tgt_dir js ret' }
     else min_delay_aliases s g bfm ni tgt_dir js ret }"

fun min_delay_processes ::
  "sim_env \<Rightarrow> prsim_state \<Rightarrow> node_index_type \<Rightarrow> bool \<Rightarrow> process_index_type list
    \<Rightarrow> applied_min_delay_constraint \<Rightarrow> applied_min_delay_constraint option" where
  "min_delay_processes env s ni tgt_dir [] ret = Some ret"
| "min_delay_processes env s ni tgt_dir (pid # pids) ret = do {
     ps \<leftarrow> nth_opt (process_state_array s) pid;
     g \<leftarrow> nth_opt (unique_process_pool s) (ps_type ps);
     let bfm = footprint_frame_map env pid;
     ret' \<leftarrow> min_delay_aliases s g bfm ni tgt_dir [0..<length bfm] ret;
     min_delay_processes env s ni tgt_dir pids ret' }"

definition node_event_min_delay ::
  "sim_env \<Rightarrow> node_index_type \<Rightarrow> value_enum \<Rightarrow> prsim_state \<Rightarrow> applied_min_delay_constraint option" where
  "node_event_min_delay env ni nval s = do {
     let ret = amd_new (current_time s);
     n \<leftarrow> get_node s ni;
     if is_min_delay_target n \<and> nval \<noteq> LOGIC_OTHER then do {
       ptf \<leftarrow> timing_fanin s ni;
       min_delay_processes env s ni (nval = LOGIC_HIGH) ptf ret }
     else Some ret }"

section \<open>Dequeueing\<close>

fun flush_killed_loop :: "time_type event_queue \<Rightarrow> prsim_state \<Rightarrow> prsim_state option" where
  "flush_killed_loop [] s = Some s"
| "flush_killed_loop (p # ps) s = do {
     e \<leftarrow> get_event s (ep_index p);
     if killed e then do {
       s1 \<leftarrow> deallocate_killed_event (ep_index p) (s\<lparr>event_queue := ps\<rparr>);
       flush_killed_loop ps s1 }
     else Some s }"

definition flush_killed_events :: "prsim_state \<Rightarrow> prsim_state option" where
  "flush_killed_events s = flush_killed_loop (event_queue s) s"

definition pop_event :: "prsim_state \<Rightarrow> (time_type event_placeholder \<times> prsim_state) option" where
  "pop_event s = do { (p, q) \<leftarrow> eq_pop (event_queue s); Some (p, s\<lparr>event_queue := q\<rparr>) }"

text \<open>The tail recursion of \<^verbatim>\<open>dequeue_event\<close> has fuel; \<open>dequeue_event_total\<close> shows how much is enough.\<close>

fun dequeue_event_fuel ::
  "nat \<Rightarrow> sim_env \<Rightarrow> prsim_state \<Rightarrow> (time_type event_placeholder \<times> prsim_state) option" where
  "dequeue_event_fuel 0 env s = None"
| "dequeue_event_fuel (Suc k) env s = do {
     s1 \<leftarrow> flush_killed_events s;
     if eq_empty (event_queue s1) then
       Some (\<lparr>ep_time = current_time s1, ep_index = INVALID_EVENT_INDEX\<rparr>, s1)
     else do {
       ep \<leftarrow> peek_next_event s1;
       ne \<leftarrow> get_event s1 (ep_index ep);
       if ev_val ne \<noteq> LOGIC_OTHER then do {
         c \<leftarrow> node_event_min_delay env (ev_node ne) (ev_val ne) s1;
         if amd_delayed c \<and> amd_time c > ep_time ep then do {
           INVARIANT (amd_time c > current_time s1);
           (err, s2) \<leftarrow> reschedule_event (ev_node ne) (amd_time c) s1;
           INVARIANT (\<not> err);
           dequeue_event_fuel k env (s2\<lparr>current_time := ep_time ep\<rparr>) }
         else pop_event s1 }
       else pop_event s1 } }"

definition dequeue_event ::
  "sim_env \<Rightarrow> prsim_state \<Rightarrow> (time_type event_placeholder \<times> prsim_state) option" where
  "dequeue_event env s = dequeue_event_fuel (Suc (length (event_queue s))) env s"

definition safe_fast_forward :: "time_type \<Rightarrow> time_type \<Rightarrow> prsim_state \<Rightarrow> prsim_state option" where
  "safe_fast_forward max_time t s = do {
     INVARIANT (t \<ge> current_time s);
     if t > current_time s then do {
       _ \<leftarrow> (if pending_events s then do {
              next \<leftarrow> next_event_time max_time s;
              INVARIANT (t \<le> next) }
            else Some ());
       Some (update_time t s) }
     else Some s }"

section \<open>User actions on nodes\<close>

text \<open>\<open>rnd\<close> is the coin that \<^verbatim>\<open>string_to_value\<close> tosses for '?'.\<close>

definition node_to_value ::
  "bool \<Rightarrow> string \<Rightarrow> node_index_type \<Rightarrow> prsim_state \<Rightarrow> value_enum option option" where
  "node_to_value rnd v ni s =
     (if v = ''~'' then do { n \<leftarrow> get_node s ni; Some (Some (invert_value (node_value n))) }
      else Some (string_to_value rnd v))"

definition EMPTY_CAUSE :: event_cause where
  "EMPTY_CAUSE = EventCause_default"

definition set_node_time ::
  "node_index_type \<Rightarrow> value_enum \<Rightarrow> time_type \<Rightarrow> bool \<Rightarrow> prsim_state
    \<Rightarrow> (enqueue_status \<times> prsim_state) option" where
  "set_node_time ni val t f s = do {
     n \<leftarrow> get_node s ni;
     if is_atomic n then Some (ENQUEUE_REJECT, s)
     else do {
       let pending = event_index n;
       let unchanged = (val = node_value n);
       let enqueue = (\<lambda>s1. do {
         n1 \<leftarrow> get_node s1 ni;
         if \<not> is_frozen n1 \<or> f then do {
           (ei, s2) \<leftarrow> allocate_event_args ni EMPTY_CAUSE INVALID_RULE_INDEX None val False f s1;
           s3 \<leftarrow> enqueue_event t ei s2;
           Some (ENQUEUE_ACCEPT, s3) }
         else Some (ENQUEUE_WARNING, s1) });
       if pending \<noteq> INVALID_EVENT_INDEX then do {
         pe \<leftarrow> get_event s pending;
         if f then do { s1 \<leftarrow> kill_event pending ni s; enqueue s1 }
         else if \<not> unchanged then Some (ENQUEUE_WARNING, s)
         else Some (ENQUEUE_ACCEPT, s) }
       else if unchanged then Some (ENQUEUE_ACCEPT, s)
       else enqueue s } }"

text \<open>\<^verbatim>\<open>set_node_after\<close> and \<^verbatim>\<open>set_node\<close> of the header.\<close>

definition set_node_after ::
  "node_index_type \<Rightarrow> value_enum \<Rightarrow> time_type \<Rightarrow> bool \<Rightarrow> prsim_state
    \<Rightarrow> (enqueue_status \<times> prsim_state) option" where
  "set_node_after ni val delay f s = set_node_time ni val (current_time s + delay) f s"

definition set_node ::
  "node_index_type \<Rightarrow> value_enum \<Rightarrow> bool \<Rightarrow> prsim_state \<Rightarrow> (enqueue_status \<times> prsim_state) option" where
  "set_node ni val f s = set_node_time ni val (current_time s) f s"

definition freeze_node :: "node_index_type \<Rightarrow> prsim_state \<Rightarrow> prsim_state option" where
  "freeze_node ni s = do {
     n \<leftarrow> get_node s ni;
     if \<not> is_atomic n then Some (put_node s ni (freeze n)) else Some s }"

definition unset_value :: "pull_set \<Rightarrow> value_enum" where
  "unset_value p = (if pull_up_wins_any p then LOGIC_HIGH
                    else if pull_dn_wins_any p then LOGIC_LOW else LOGIC_OTHER)"

definition unset_node :: "sim_env \<Rightarrow> node_index_type \<Rightarrow> prsim_state \<Rightarrow> prsim_state option" where
  "unset_node env ni s0 = do {
     n0 \<leftarrow> get_node s0 ni;
     let n = restore n0;
     let s = put_node s0 ni n;
     INVARIANT (\<not> is_frozen n);
     let pending = event_index n;
     let p = pull_set_of n (weak_rules_enabled s);
     if state_holding p then Some s
     else do {
       let weak_wins = weak_wins_any p;
       let new_val = unset_value p;
       if pending \<noteq> INVALID_EVENT_INDEX then do {
         e \<leftarrow> get_event s pending;
         put_event s pending (unforce (ev_set_weak weak_wins (e\<lparr>ev_val := new_val\<rparr>))) }
       else do {
         let current = node_value n;
         if current = LOGIC_LOW \<and> ps_up p = PULL_OFF then Some s
         else if current = LOGIC_HIGH \<and> ps_dn p = PULL_OFF then Some s
         else if current \<noteq> new_val then do {
           (ei, s1) \<leftarrow> allocate_event_args ni EMPTY_CAUSE INVALID_RULE_INDEX None new_val weak_wins False s;
           e \<leftarrow> get_event s1 ei;
           (t, s2) \<leftarrow> (case new_val of
               LOGIC_HIGH \<Rightarrow> get_delay_up env e s1
             | LOGIC_LOW \<Rightarrow> get_delay_dn env e s1
             | LOGIC_OTHER \<Rightarrow> Some (current_time s1, s1));
           enqueue_event t ei s2 }
         else Some s } } }"

fun unset_nodes :: "sim_env \<Rightarrow> node_index_type list \<Rightarrow> prsim_state \<Rightarrow> prsim_state option" where
  "unset_nodes env [] s = Some s"
| "unset_nodes env (ni # nis) s = do { s1 \<leftarrow> unset_node env ni s; unset_nodes env nis s1 }"

definition unset_all_nodes :: "sim_env \<Rightarrow> prsim_state \<Rightarrow> prsim_state option" where
  "unset_all_nodes env s = unset_nodes env [1..<length (node_pool s)] s"

definition set_node_breakpoint :: "node_index_type \<Rightarrow> prsim_state \<Rightarrow> prsim_state option" where
  "set_node_breakpoint ni s = mod_node s ni set_breakpoint"

definition clear_node_breakpoint :: "node_index_type \<Rightarrow> prsim_state \<Rightarrow> prsim_state option" where
  "clear_node_breakpoint ni s = mod_node s ni clear_breakpoint"

definition clear_all_breakpoints :: "prsim_state \<Rightarrow> prsim_state" where
  "clear_all_breakpoints s = s\<lparr>node_pool := map clear_breakpoint (node_pool s)\<rparr>"

section \<open>The consistency check\<close>

fun check_event_loop ::
  "prsim_state \<Rightarrow> time_type event_queue \<Rightarrow> (node_index_type \<rightharpoonup> event_index_type) \<Rightarrow> unit option" where
  "check_event_loop s [] unique_nodes = Some ()"
| "check_event_loop s (q # qs) unique_nodes = do {
     e \<leftarrow> get_event s (ep_index q);
     n \<leftarrow> get_node s (ev_node e);
     let ne = event_index n;
     if killed e then do {
       INVARIANT (ne = INVALID_EVENT_INDEX \<or> ne \<noteq> ep_index q);
       check_event_loop s qs unique_nodes }
     else do {
       INVARIANT (ne \<noteq> INVALID_EVENT_INDEX \<and> ne = ep_index q \<and> unique_nodes (ev_node e) = None);
       check_event_loop s qs (unique_nodes(ev_node e \<mapsto> ep_index q)) } }"

definition check_event_queue :: "prsim_state \<Rightarrow> unit option" where
  "check_event_queue s = check_event_loop s (eq_copy_to (event_queue s) []) Map.empty"

end
