(* ===== verification/Sched_Inv.thy ===== *)
theory Sched_Inv
  imports Prs_Sched
begin

text \<open>
  The invariant of the event bookkeeping and its preservation. \<open>sched_inv X s\<close> says that the live slots of
  the event pool are exactly the events in the queue and the events \<open>X\<close> in flight (popped, or allocated and
  not yet queued), that queue order and times are consistent, and that nodes and events point at each other.
\<close>

section \<open>Definitions\<close>

definition links_ok :: "event array_pool \<Rightarrow> node_state list \<Rightarrow> bool" where
  "links_ok p ns \<longleftrightarrow> pool_ok p \<and>
     (\<forall>i \<in> pool_live p. \<exists>e. pool_get p i = Some e \<and> ev_node e < length ns \<and>
        (\<not> killed e \<longrightarrow> event_index (ns ! ev_node e) = i)) \<and>
     (\<forall>ni < length ns. event_index (ns ! ni) \<noteq> 0 \<longrightarrow>
        event_index (ns ! ni) \<in> pool_live p \<and> \<not> is_atomic (ns ! ni) \<and>
        (\<exists>e. pool_get p (event_index (ns ! ni)) = Some e \<and> ev_node e = ni \<and> \<not> killed e))"

definition queue_ok :: "nat set \<Rightarrow> event array_pool \<Rightarrow> time_type \<Rightarrow> time_type event_queue \<Rightarrow> bool" where
  "queue_ok X p t q \<longleftrightarrow> eq_sorted q \<and> (\<forall>x \<in> set q. t \<le> ep_time x) \<and> distinct (map ep_index q) \<and>
     X \<inter> ep_index ` set q = {} \<and> pool_live p = X \<union> ep_index ` set q"

definition sched_inv :: "nat set \<Rightarrow> prsim_state \<Rightarrow> bool" where
  "sched_inv X s \<longleftrightarrow> links_ok (event_pool s) (node_pool s) \<and>
     queue_ok X (event_pool s) (current_time s) (event_queue s)"

section \<open>Links\<close>

lemma zero_not_live [simp]: "0 \<notin> pool_live p"
  by (simp add: pool_live_def)

lemma links_okD_event:
  assumes "links_ok p ns" and "i \<in> pool_live p"
  obtains e where "pool_get p i = Some e" "ev_node e < length ns"
    "\<not> killed e \<Longrightarrow> event_index (ns ! ev_node e) = i"
  using assms by (auto simp: links_ok_def)

lemma links_okD_node:
  assumes "links_ok p ns" and "ni < length ns" and "event_index (ns ! ni) \<noteq> 0"
  obtains e where "pool_get p (event_index (ns ! ni)) = Some e" "ev_node e = ni" "\<not> killed e"
    "event_index (ns ! ni) \<in> pool_live p" "\<not> is_atomic (ns ! ni)"
  using assms by (auto simp: links_ok_def)

lemma links_put_node:
  assumes "links_ok p ns" and "ni < length ns"
    and "event_index n' = event_index (ns ! ni)" and "is_atomic n' = is_atomic (ns ! ni)"
  shows "links_ok p (ns[ni := n'])"
  using assms by (auto simp: links_ok_def nth_list_update)

lemma links_map:
  assumes "links_ok p ns"
    and "\<And>n. event_index (f n) = event_index n" and "\<And>n. is_atomic (f n) = is_atomic n"
  shows "links_ok p (map f ns)"
  using assms by (auto simp: links_ok_def)

lemma links_put_event:
  assumes l: "links_ok p ns" and i: "i \<in> pool_live p" and e: "pool_get p i = Some e"
    and e': "ev_node e' = ev_node e" "killed e' = killed e"
  shows "links_ok (p\<lparr>index_pool := (index_pool p)[i := e']\<rparr>) ns"
proof -
  from l have p: "pool_ok p" by (simp add: links_ok_def)
  note set = pool_set_live [OF p i, where v = e']
  have "pool_get (p\<lparr>index_pool := (index_pool p)[i := e']\<rparr>) j = (if j = i then Some e' else pool_get p j)" for j
    using set(4) set(5) [of j] by auto
  with l e e' set(2,3) show ?thesis unfolding links_ok_def by (simp; metis option.inject)
qed

lemma links_kill:
  assumes l: "links_ok p ns" and ni: "ni < length ns" and ei: "event_index (ns ! ni) = ei" "ei \<noteq> 0"
    and e: "pool_get p ei = Some e"
  shows "links_ok (p\<lparr>index_pool := (index_pool p)[ei := ev_kill e]\<rparr>) (ns[ni := clear_event (ns ! ni)])"
proof -
  from l have p: "pool_ok p" by (simp add: links_ok_def)
  from links_okD_node [OF l ni] ei e have live: "ei \<in> pool_live p" and en: "ev_node e = ni" "\<not> killed e"
    by (auto simp: ei)
  note set = pool_set_live [OF p live, where v = "ev_kill e"]
  have get: "pool_get (p\<lparr>index_pool := (index_pool p)[ei := ev_kill e]\<rparr>) j
      = (if j = ei then Some (ev_kill e) else pool_get p j)" for j
    using set(4) set(5) [of j] by auto
  have uniq: "mi = ni" if "mi < length ns" "event_index (ns ! mi) = ei" for mi
    using links_okD_node [OF l that(1)] that(2) ei(2) e en by auto
  show ?thesis
    unfolding links_ok_def set(2) get
  proof (intro conjI ballI allI impI)
    fix i assume i: "i \<in> pool_live p"
    from links_okD_event [OF l i] obtain f where f: "pool_get p i = Some f" "ev_node f < length ns"
      "\<not> killed f \<Longrightarrow> event_index (ns ! ev_node f) = i" by blast
    show "\<exists>e'. (if i = ei then Some (ev_kill e) else pool_get p i) = Some e' \<and>
         ev_node e' < length (ns[ni := clear_event (ns ! ni)]) \<and>
         (\<not> killed e' \<longrightarrow> event_index (ns[ni := clear_event (ns ! ni)] ! ev_node e') = i)"
      using f en ni ei by (cases "i = ei") (auto simp: nth_list_update)
  next
    fix mi assume mi: "mi < length (ns[ni := clear_event (ns ! ni)])"
      "event_index (ns[ni := clear_event (ns ! ni)] ! mi) \<noteq> 0"
    then have "mi \<noteq> ni" by (auto simp: clear_event_def)
    with mi have m: "mi < length ns" "event_index (ns ! mi) \<noteq> 0" by auto
    from m \<open>mi \<noteq> ni\<close> uniq have "event_index (ns ! mi) \<noteq> ei" by blast
    with links_okD_node [OF l m] \<open>mi \<noteq> ni\<close>
    show "event_index (ns[ni := clear_event (ns ! ni)] ! mi) \<in> pool_live p"
      "\<not> is_atomic (ns[ni := clear_event (ns ! ni)] ! mi)"
      "\<exists>e'. (if event_index (ns[ni := clear_event (ns ! ni)] ! mi) = ei then Some (ev_kill e)
             else pool_get p (event_index (ns[ni := clear_event (ns ! ni)] ! mi))) = Some e' \<and>
           ev_node e' = mi \<and> \<not> killed e'" by auto
  qed (rule set(3))
qed

lemma links_alloc:
  assumes l: "links_ok p ns" and ni: "ni < length ns" "event_index (ns ! ni) = 0" "\<not> is_atomic (ns ! ni)"
    and e: "ev_node e = ni" "\<not> killed e" and a: "pool_allocate p e = Some (i, p')"
  shows "links_ok p' (ns[ni := (ns ! ni)\<lparr>event_index := i\<rparr>])"
proof -
  from l have p: "pool_ok p" by (simp add: links_ok_def)
  note new = pool_allocate_fresh [OF p a]
  have get: "pool_get p' j = pool_get p j" if "j \<in> pool_live p" for j by (rule new(5) [OF that])
  show ?thesis
    unfolding links_ok_def new(2)
  proof (intro conjI ballI allI impI)
    fix j assume "j \<in> insert i (pool_live p)"
    then show "\<exists>e'. pool_get p' j = Some e' \<and> ev_node e' < length (ns[ni := (ns ! ni)\<lparr>event_index := i\<rparr>]) \<and>
         (\<not> killed e' \<longrightarrow> event_index (ns[ni := (ns ! ni)\<lparr>event_index := i\<rparr>] ! ev_node e') = j)"
    proof
      assume "j = i" with new(3) e ni show ?thesis by auto
    next
      assume j: "j \<in> pool_live p"
      then have "j \<noteq> 0" by (auto simp: pool_live_def)
      from links_okD_event [OF l j] obtain f where "pool_get p j = Some f" "ev_node f < length ns"
        "\<not> killed f \<Longrightarrow> event_index (ns ! ev_node f) = j" by blast
      with get [OF j] ni \<open>j \<noteq> 0\<close> show ?thesis by (auto simp: nth_list_update)
    qed
  next
    fix mi assume mi: "mi < length (ns[ni := (ns ! ni)\<lparr>event_index := i\<rparr>])"
      "event_index (ns[ni := (ns ! ni)\<lparr>event_index := i\<rparr>] ! mi) \<noteq> 0"
    show "event_index (ns[ni := (ns ! ni)\<lparr>event_index := i\<rparr>] ! mi) \<in> insert i (pool_live p)"
      "\<not> is_atomic (ns[ni := (ns ! ni)\<lparr>event_index := i\<rparr>] ! mi)"
      "\<exists>e'. pool_get p' (event_index (ns[ni := (ns ! ni)\<lparr>event_index := i\<rparr>] ! mi)) = Some e' \<and>
           ev_node e' = mi \<and> \<not> killed e'"
      by (insert links_okD_node [OF l, of mi] mi ni e new(3) get, cases "mi = ni";
          force simp: nth_list_update is_atomic_def)+
  qed (rule new(4))
qed

lemma links_dealloc_killed:
  assumes l: "links_ok p ns" and i: "i \<in> pool_live p" and e: "pool_get p i = Some e" "killed e"
  shows "links_ok (p\<lparr>free_indices := insort i (free_indices p)\<rparr>) ns"
proof -
  from l have p: "pool_ok p" by (simp add: links_ok_def)
  note d = pool_deallocate_live [OF p i]
  from l e show ?thesis unfolding links_ok_def d(3) d(4) by (auto simp: d(2))
qed

lemma links_dealloc:
  assumes l: "links_ok p ns" and ni: "ni < length ns" and ei: "event_index (ns ! ni) = ei" "ei \<noteq> 0"
  shows "links_ok (p\<lparr>free_indices := insort ei (free_indices p)\<rparr>) (ns[ni := clear_event (ns ! ni)])"
proof -
  from l have p: "pool_ok p" by (simp add: links_ok_def)
  from links_okD_node [OF l ni] ei obtain e where live: "ei \<in> pool_live p" and e: "pool_get p ei = Some e"
    "ev_node e = ni" by metis
  note d = pool_deallocate_live [OF p live]
  have uniq: "mi = ni" if "mi < length ns" "event_index (ns ! mi) = ei" for mi
    using links_okD_node [OF l that(1)] that(2) ei(2) e by auto
  show ?thesis
    unfolding links_ok_def d(3) d(4)
  proof (intro conjI ballI allI impI)
    fix i assume i: "i \<in> pool_live p - {ei}"
    then obtain f where "pool_get p i = Some f" "ev_node f < length ns"
      "\<not> killed f \<Longrightarrow> event_index (ns ! ev_node f) = i" using links_okD_event [OF l, of i] by blast
    with i ei ni show "\<exists>e'. pool_get p i = Some e' \<and> ev_node e' < length (ns[ni := clear_event (ns ! ni)]) \<and>
         (\<not> killed e' \<longrightarrow> event_index (ns[ni := clear_event (ns ! ni)] ! ev_node e') = i)"
      by (auto simp: nth_list_update)
  next
    fix mi assume mi: "mi < length (ns[ni := clear_event (ns ! ni)])"
      "event_index (ns[ni := clear_event (ns ! ni)] ! mi) \<noteq> 0"
    then have "mi \<noteq> ni" by (auto simp: clear_event_def)
    with mi uniq links_okD_node [OF l, of mi]
    show "event_index (ns[ni := clear_event (ns ! ni)] ! mi) \<in> pool_live p - {ei}"
      "\<not> is_atomic (ns[ni := clear_event (ns ! ni)] ! mi)"
      "\<exists>e'. pool_get p (event_index (ns[ni := clear_event (ns ! ni)] ! mi)) = Some e' \<and>
           ev_node e' = mi \<and> \<not> killed e'" by (auto; metis)+
  qed (rule d(2))
qed

section \<open>Queue\<close>

lemma queue_ok_push:
  assumes "queue_ok (insert i X) p t q" and "i \<notin> X" and "t \<le> t'"
  shows "queue_ok X p t (eq_push \<lparr>ep_time = t', ep_index = i\<rparr> q)"
proof -
  have "distinct (map ep_index (eq_push \<lparr>ep_time = t', ep_index = i\<rparr> q))
      \<longleftrightarrow> distinct (map ep_index (\<lparr>ep_time = t', ep_index = i\<rparr> # q))"
    by (rule mset_eq_imp_distinct_iff) simp
  with assms show ?thesis by (auto simp: queue_ok_def)
qed

lemma queue_ok_pop:
  assumes "queue_ok X p t (x # q)"
  shows "queue_ok (insert (ep_index x) X) p (ep_time x) q" "ep_index x \<notin> X"
  using assms by (auto simp: queue_ok_def eq_sorted_Cons)

lemma queue_ok_mono: "queue_ok X p t q \<Longrightarrow> t' \<le> t \<Longrightarrow> queue_ok X p t' q"
  by (auto simp: queue_ok_def)

lemma queue_ok_live: "queue_ok X p t q \<Longrightarrow> pool_live p' = pool_live p \<Longrightarrow> queue_ok X p' t q"
  by (simp add: queue_ok_def)

lemma queue_ok_alloc:
  "queue_ok X p t q \<Longrightarrow> pool_live p' = insert i (pool_live p) \<Longrightarrow> i \<notin> pool_live p \<Longrightarrow> queue_ok (insert i X) p' t q"
  by (auto simp: queue_ok_def)

lemma queue_ok_dealloc:
  "queue_ok X p t q \<Longrightarrow> pool_live p' = pool_live p - {i} \<Longrightarrow> i \<in> X \<Longrightarrow> queue_ok (X - {i}) p' t q"
  by (auto simp: queue_ok_def)

section \<open>Frames\<close>

lemma clear_event_idem [simp]:
  "clear_event (clear_event n) = clear_event n" "clear_event (n\<lparr>event_index := i\<rparr>) = clear_event n"
  by (simp_all add: clear_event_def)

lemma clear_event_list_update [simp]:
  "clear_event n = clear_event (ns ! i) \<Longrightarrow> map clear_event (ns[i := n]) = map clear_event ns"
  by (cases "i < length ns") (simp_all add: map_update list_update_same_conv list_update_beyond)

text \<open>Bookkeeping changes the pool, the queue, the oracle position and the event links of nodes only.\<close>

definition ev_frame :: "prsim_state \<Rightarrow> prsim_state \<Rightarrow> bool" where
  "ev_frame s s' \<longleftrightarrow> (\<exists>p q k ns.
     s' = s\<lparr>event_pool := p, event_queue := q, oracle_pos := k, node_pool := ns\<rparr> \<and>
     map clear_event ns = map clear_event (node_pool s))"

lemma ev_frameI:
  "s' = s\<lparr>event_pool := p, event_queue := q, oracle_pos := k, node_pool := ns\<rparr> \<Longrightarrow>
   map clear_event ns = map clear_event (node_pool s) \<Longrightarrow> ev_frame s s'"
  unfolding ev_frame_def by blast

lemma ev_frame_refl [simp]: "ev_frame s s"
  by (rule ev_frameI [where p = "event_pool s" and q = "event_queue s" and k = "oracle_pos s"
        and ns = "node_pool s"]) simp_all

lemma ev_frame_updates [simp]:
  "ev_frame s (s\<lparr>event_pool := p\<rparr>)" "ev_frame s (s\<lparr>event_queue := q\<rparr>)" "ev_frame s (s\<lparr>oracle_pos := k\<rparr>)"
  "map clear_event ns = map clear_event (node_pool s) \<Longrightarrow> ev_frame s (s\<lparr>event_pool := p, node_pool := ns\<rparr>)"
  "map clear_event ns = map clear_event (node_pool s) \<Longrightarrow> ev_frame s (s\<lparr>node_pool := ns\<rparr>)"
  by (rule ev_frameI [where p = p and q = "event_queue s" and k = "oracle_pos s" and ns = "node_pool s"], simp_all)
    (rule ev_frameI [where p = "event_pool s" and q = q and k = "oracle_pos s" and ns = "node_pool s"], simp_all,
     rule ev_frameI [where p = "event_pool s" and q = "event_queue s" and k = k and ns = "node_pool s"], simp_all,
     rule ev_frameI [where p = p and q = "event_queue s" and k = "oracle_pos s" and ns = ns], simp_all,
     rule ev_frameI [where p = "event_pool s" and q = "event_queue s" and k = "oracle_pos s" and ns = ns], simp_all)

lemma ev_frame_trans [trans]: "ev_frame s s' \<Longrightarrow> ev_frame s' s'' \<Longrightarrow> ev_frame s s''"
proof -
  assume "ev_frame s s'" and "ev_frame s' s''"
  then obtain p q k ns p' q' k' ns' where
    "s' = s\<lparr>event_pool := p, event_queue := q, oracle_pos := k, node_pool := ns\<rparr>"
    "map clear_event ns = map clear_event (node_pool s)"
    "s'' = s'\<lparr>event_pool := p', event_queue := q', oracle_pos := k', node_pool := ns'\<rparr>"
    "map clear_event ns' = map clear_event (node_pool s')" unfolding ev_frame_def by blast
  then show "ev_frame s s''" by (intro ev_frameI [where p = p' and q = q' and k = k' and ns = ns']) simp_all
qed

lemma ev_frame_simps:
  assumes "ev_frame s s'"
  shows "current_time s' = current_time s" "timing_params s' = timing_params s" "sim_flags s' = sim_flags s"
    "policies s' = policies s" "length (node_pool s') = length (node_pool s)"
    "weak_rules_enabled s' = weak_rules_enabled s" "updated_nodes s' = updated_nodes s"
    "updated_nodes_queue s' = updated_nodes_queue s"
  using assms map_eq_imp_length_eq by (auto simp: ev_frame_def weak_rules_enabled_def)

lemma ev_frame_nodes:
  assumes "ev_frame s s'" and "ni < length (node_pool s)"
  shows "clear_event (node_pool s' ! ni) = clear_event (node_pool s ! ni)"
proof -
  from assms have m: "map clear_event (node_pool s') = map clear_event (node_pool s)" by (auto simp: ev_frame_def)
  with ev_frame_simps(5) [OF assms(1)] assms(2) show ?thesis by (metis nth_map)
qed

lemma clear_event_eqD:
  assumes "clear_event n = clear_event m"
  shows "node_value n = node_value m" "state_flags n = state_flags m" "struct_flags n = struct_flags m"
    "is_atomic n = is_atomic m" "is_frozen n = is_frozen m" "pull_set_of n w = pull_set_of m w"
proof -
  note f = arg_cong [OF assms]
  from f [of node_value] show "node_value n = node_value m" by (simp add: clear_event_def)
  from f [of state_flags] show "state_flags n = state_flags m" by (simp add: clear_event_def)
  from f [of struct_flags] show "struct_flags n = struct_flags m" by (simp add: clear_event_def)
  from f [of is_atomic] show "is_atomic n = is_atomic m" by (simp add: clear_event_def is_atomic_def)
  from f [of is_frozen] show "is_frozen n = is_frozen m" by (simp add: clear_event_def is_frozen_def)
  have "pull_set_of (clear_event n) w = pull_set_of n w" for n
    by (simp add: clear_event_def pull_set_of_def is_atomic_def Let_def)
  with assms show "pull_set_of n w = pull_set_of m w" by metis
qed

section \<open>Operations on states\<close>

lemma sched_inv_frame [simp]:
  "sched_inv X (s\<lparr>oracle_pos := k\<rparr>) = sched_inv X s"
  "sched_inv X (s\<lparr>sim_flags := f\<rparr>) = sched_inv X s"
  "sched_inv X (s\<lparr>interrupted := b\<rparr>) = sched_inv X s"
  "sched_inv X (s\<lparr>recent_exceptions := xs\<rparr>) = sched_inv X s"
  "sched_inv X (s\<lparr>updated_nodes := u\<rparr>) = sched_inv X s"
  "sched_inv X (s\<lparr>updated_nodes_queue := uq\<rparr>) = sched_inv X s"
  "sched_inv X (s\<lparr>mk_excl_blocking_set := bs\<rparr>) = sched_inv X s"
  "sched_inv X (s\<lparr>mk_exhi := rs\<rparr>) = sched_inv X s"
  "sched_inv X (s\<lparr>mk_exlo := rs\<rparr>) = sched_inv X s"
  "sched_inv X (s\<lparr>check_exhi_ring_pool := bl\<rparr>) = sched_inv X s"
  "sched_inv X (s\<lparr>check_exlo_ring_pool := bl\<rparr>) = sched_inv X s"
  "sched_inv X (s\<lparr>keeper_check_candidates := kc\<rparr>) = sched_inv X s"
  "sched_inv X (s\<lparr>invariant_update_map := im\<rparr>) = sched_inv X s"
  "sched_inv X (s\<lparr>atomic_updated_nodes := am\<rparr>) = sched_inv X s"
  "sched_inv X (s\<lparr>process_state_array := pa\<rparr>) = sched_inv X s"
  by (simp_all add: sched_inv_def)

lemma get_node_in [simp]: "get_node s ni = Some n \<longleftrightarrow> ni < length (node_pool s) \<and> n = node_pool s ! ni"
  by (simp add: get_node_def)

lemma get_node_nth [simp]: "ni < length (node_pool s) \<Longrightarrow> get_node s ni = Some (node_pool s ! ni)"
  by (simp add: get_node_def nth_opt_in)

lemma put_node_sel [simp]:
  "node_pool (put_node s i n) = (node_pool s)[i := n]" "event_pool (put_node s i n) = event_pool s"
  "event_queue (put_node s i n) = event_queue s" "current_time (put_node s i n) = current_time s"
  "get_event (put_node s i n) j = get_event s j"
  by (simp_all add: put_node_def get_event_def)

lemma sched_inv_pool_ok: "sched_inv X s \<Longrightarrow> pool_ok (event_pool s)"
  by (simp add: sched_inv_def links_ok_def)

lemma sched_inv_put_node:
  assumes "sched_inv X s" and "ni < length (node_pool s)"
    and "event_index n = event_index (node_pool s ! ni)" and "is_atomic n = is_atomic (node_pool s ! ni)"
  shows "sched_inv X (put_node s ni n)"
  using assms by (simp add: sched_inv_def links_put_node)

lemma sched_inv_event:
  assumes "sched_inv X s" and "i \<in> X \<or> i \<in> ep_index ` set (event_queue s)"
  obtains e where "get_event s i = Some e" "ev_node e < length (node_pool s)"
    "\<not> killed e \<Longrightarrow> event_index (node_pool s ! ev_node e) = i" "i \<in> pool_live (event_pool s)" "i \<noteq> 0"
proof -
  from assms have live: "i \<in> pool_live (event_pool s)" by (auto simp: sched_inv_def queue_ok_def)
  from assms have "links_ok (event_pool s) (node_pool s)" by (simp add: sched_inv_def)
  from links_okD_event [OF this live] live show ?thesis
    by (metis that get_event_def zero_not_live)
qed

lemma sched_inv_node:
  assumes "sched_inv X s" and "ni < length (node_pool s)" and "event_index (node_pool s ! ni) \<noteq> 0"
  obtains e where "get_event s (event_index (node_pool s ! ni)) = Some e" "ev_node e = ni" "\<not> killed e"
    "event_index (node_pool s ! ni) \<in> pool_live (event_pool s)" "\<not> is_atomic (node_pool s ! ni)"
    "event_index (node_pool s ! ni) \<in> X \<or> event_index (node_pool s ! ni) \<in> ep_index ` set (event_queue s)"
proof -
  from assms(1) have l: "links_ok (event_pool s) (node_pool s)" and
    q: "pool_live (event_pool s) = X \<union> ep_index ` set (event_queue s)"
    by (simp_all add: sched_inv_def queue_ok_def)
  show ?thesis by (rule links_okD_node [OF l assms(2,3)], rule that) (auto simp: get_event_def q)
qed

lemma put_event_ok:
  assumes s: "sched_inv X s" and e: "get_event s i = Some e" "i \<in> pool_live (event_pool s)"
    and e': "ev_node e' = ev_node e" "killed e' = killed e"
  shows "put_event s i e' = Some (s\<lparr>event_pool := (event_pool s)\<lparr>index_pool := (index_pool (event_pool s))[i := e']\<rparr>\<rparr>)"
    and "sched_inv X (s\<lparr>event_pool := (event_pool s)\<lparr>index_pool := (index_pool (event_pool s))[i := e']\<rparr>\<rparr>)"
  using pool_set_live [OF sched_inv_pool_ok [OF s] e(2), where v = e'] assms
    links_put_event [of "event_pool s" "node_pool s" i e e']
  by (auto simp: put_event_def sched_inv_def get_event_def intro: queue_ok_live)

lemma kill_event_ok:
  assumes s: "sched_inv X s" and ni: "ni < length (node_pool s)" and ei: "event_index (node_pool s ! ni) = ei" "ei \<noteq> 0"
  obtains s' e where "get_event s ei = Some e" "\<not> killed e" "ev_node e = ni"
    "s' = s\<lparr>event_pool := (event_pool s)\<lparr>index_pool := (index_pool (event_pool s))[ei := ev_kill e]\<rparr>,
           node_pool := (node_pool s)[ni := clear_event (node_pool s ! ni)]\<rparr>"
    "kill_event ei ni s = Some s'" "sched_inv X s'" "ev_frame s s'"
proof -
  obtain e where e: "get_event s ei = Some e" "ei \<in> pool_live (event_pool s)" "\<not> killed e" "ev_node e = ni"
    using sched_inv_node [OF s ni] ei by metis
  define s' where "s' = s\<lparr>event_pool := (event_pool s)\<lparr>index_pool := (index_pool (event_pool s))[ei := ev_kill e]\<rparr>,
           node_pool := (node_pool s)[ni := clear_event (node_pool s ! ni)]\<rparr>"
  note set = pool_set_live [OF sched_inv_pool_ok [OF s] e(2), where v = "ev_kill e"]
  have "kill_event ei ni s = Some s'"
    using e set(1) ni by (simp add: kill_event_def put_event_def mod_node_def put_node_def get_node_def nth_opt_in s'_def)
  moreover have "sched_inv X s'"
    using s links_kill [OF _ ni ei, of "event_pool s" e] e set(2)
    by (auto simp: sched_inv_def s'_def get_event_def intro: queue_ok_live)
  moreover have "ev_frame s s'"
    by (simp add: s'_def)
  ultimately show ?thesis using that e s'_def by blast
qed

lemma kill_event_spec:
  assumes "sched_inv X s" and "ni < length (node_pool s)" and "event_index (node_pool s ! ni) \<noteq> 0"
  shows "\<exists>s' e. get_event s (event_index (node_pool s ! ni)) = Some e \<and>
    kill_event (event_index (node_pool s ! ni)) ni s = Some s' \<and> sched_inv X s' \<and> ev_frame s s' \<and>
    event_queue s' = event_queue s \<and> node_pool s' = (node_pool s)[ni := clear_event (node_pool s ! ni)]"
  by (rule kill_event_ok [OF assms(1,2) refl assms(3)]) simp

lemma sched_inv_pending:
  assumes "sched_inv X s" and "ni < length (node_pool s)" and "event_index (node_pool s ! ni) \<noteq> 0"
  shows "\<exists>e. get_event s (event_index (node_pool s ! ni)) = Some e \<and> ev_node e = ni \<and> \<not> killed e"
  by (rule sched_inv_node [OF assms]) blast

lemma allocate_event_ok:
  assumes s: "sched_inv X s" and ni: "ni < length (node_pool s)" "event_index (node_pool s ! ni) = 0"
    "\<not> is_atomic (node_pool s ! ni)" "\<not> is_frozen (node_pool s ! ni) \<or> forced e"
    and e: "ev_node e = ni" "\<not> killed e"
  obtains i s' where "allocate_event ni e s = Some (i, s')" "i \<notin> X" "i \<noteq> 0" "sched_inv (insert i X) s'"
    "get_event s' i = Some e" "ev_frame s s'" "event_queue s' = event_queue s" "oracle_pos s' = oracle_pos s"
    "node_pool s' = (node_pool s)[ni := (node_pool s ! ni)\<lparr>event_index := i\<rparr>]"
proof -
  note pok = sched_inv_pool_ok [OF s]
  obtain i p where a: "pool_allocate (event_pool s) e = Some (i, p)" using evp.allocate_total [OF pok] by blast
  note new = pool_allocate_fresh [OF pok a]
  define s' where "s' = s\<lparr>event_pool := p, node_pool := (node_pool s)[ni := (node_pool s ! ni)\<lparr>event_index := i\<rparr>]\<rparr>"
  from new(2) have i: "i \<noteq> 0" using zero_not_live [of p] by auto
  have "i \<notin> X" using new(1) s by (auto simp: sched_inv_def queue_ok_def)
  moreover have "allocate_event ni e s = Some (i, s')"
    using ni a i by (simp add: allocate_event_def get_node_def nth_opt_in copy_event_def pending_event_def
        set_event_def put_node_def s'_def)
  moreover have "sched_inv (insert i X) s'"
    using s links_alloc [OF _ ni(1-3) e a] new(1,2) by (auto simp: sched_inv_def s'_def intro: queue_ok_alloc)
  moreover have "get_event s' i = Some e" "ev_frame s s'" "event_queue s' = event_queue s" "oracle_pos s' = oracle_pos s"
    "node_pool s' = (node_pool s)[ni := (node_pool s ! ni)\<lparr>event_index := i\<rparr>]"
    using new(3) by (simp_all add: s'_def get_event_def)
  ultimately show ?thesis using that i by blast
qed

lemma allocate_event_args_eq:
  assumes "ni < length (node_pool s)" and "event_index (node_pool s ! ni) = 0"
  shows "allocate_event_args ni c ri r v w f s =
    allocate_event ni (if f then force (Event_new ni c ri r v w) else Event_new ni c ri r v w) s"
  using assms by (simp add: allocate_event_args_def get_node_def nth_opt_in pending_event_def)

lemma enqueue_event_ok:
  assumes s: "sched_inv (insert i X) s" and i: "i \<notin> X" and t: "current_time s \<le> t"
    and e: "get_event s i = Some e" "\<not> killed e"
  shows "enqueue_event t i s = Some (s\<lparr>event_queue := eq_push \<lparr>ep_time = t, ep_index = i\<rparr> (event_queue s)\<rparr>)"
    and "sched_inv X (s\<lparr>event_queue := eq_push \<lparr>ep_time = t, ep_index = i\<rparr> (event_queue s)\<rparr>)"
proof -
  from sched_inv_event [OF s, of i] e have n: "ev_node e < length (node_pool s)"
    "event_index (node_pool s ! ev_node e) = i" "i \<noteq> 0" by auto
  with sched_inv_node [OF s n(1)] have a: "\<not> is_atomic (node_pool s ! ev_node e)" by auto
  from n a t e show "enqueue_event t i s = Some (s\<lparr>event_queue := eq_push \<lparr>ep_time = t, ep_index = i\<rparr> (event_queue s)\<rparr>)"
    by (simp add: enqueue_event_def load_enqueue_event_def get_node_def nth_opt_in pending_event_def)
  from s i t show "sched_inv X (s\<lparr>event_queue := eq_push \<lparr>ep_time = t, ep_index = i\<rparr> (event_queue s)\<rparr>)"
    by (simp add: sched_inv_def queue_ok_push)
qed

lemma pool_allocate_set_commute:
  assumes "pool_ok p" and "k \<in> pool_live p" and "pool_allocate p e = Some (i, p')"
  shows "pool_allocate (p\<lparr>index_pool := (index_pool p)[k := v]\<rparr>) e
       = Some (i, p'\<lparr>index_pool := (index_pool p')[k := v]\<rparr>)"
  using assms pool_set_live(3) [OF assms(1,2), where v = v]
  by (auto simp: pool_allocate_cases pool_live_def pool_size_def list_update_append
      list_update_swap split: list.splits)

text \<open>Copy, then kill, then link: the pool is the one that kill, then allocate would give.\<close>

lemma links_replace:
  assumes l: "links_ok p ns" and ni: "ni < length ns" and ei: "event_index (ns ! ni) = ei" "ei \<noteq> 0"
    and e: "pool_get p ei = Some e" and a: "pool_allocate p e = Some (i, p')"
  shows "links_ok (p'\<lparr>index_pool := (index_pool p')[ei := ev_kill e]\<rparr>) (ns[ni := (ns ! ni)\<lparr>event_index := i\<rparr>])"
proof -
  from l have pok: "pool_ok p" by (simp add: links_ok_def)
  obtain live: "ei \<in> pool_live p" and "ev_node e = ni" "\<not> killed e" "\<not> is_atomic (ns ! ni)"
    using links_okD_node [OF l ni] ei e by auto
  with links_alloc [OF links_kill [OF l ni ei e], of ni e, OF _ _ _ _ _ pool_allocate_set_commute [OF pok live a]] ni
  show ?thesis by (simp add: clear_event_def is_atomic_def)
qed

lemma replace_event_ok:
  assumes s: "sched_inv X s" and ni: "ni < length (node_pool s)" and ei: "event_index (node_pool s ! ni) = ei" "ei \<noteq> 0"
  obtains e i s' where "get_event s ei = Some e" "replace_event ni ei s = Some (i, s')" "i \<notin> X" "i \<noteq> 0"
    "sched_inv (insert i X) s'" "get_event s' i = Some e" "\<not> killed e" "ev_frame s s'"
    "event_queue s' = event_queue s" "i \<notin> ep_index ` set (event_queue s)" "ev_node e = ni"
    "\<And>j. j \<noteq> ei \<Longrightarrow> j \<in> pool_live (event_pool s) \<Longrightarrow> get_event s' j = get_event s j"
    "get_event s' ei = Some (ev_kill e)" "node_pool s' = (node_pool s)[ni := (node_pool s ! ni)\<lparr>event_index := i\<rparr>]"
proof -
  note pok = sched_inv_pool_ok [OF s]
  obtain e where e: "get_event s ei = Some e" "ei \<in> pool_live (event_pool s)" "\<not> killed e" "ev_node e = ni"
    using sched_inv_node [OF s ni] ei by metis
  obtain i p where a: "pool_allocate (event_pool s) e = Some (i, p)" using evp.allocate_total [OF pok] by blast
  note new = pool_allocate_fresh [OF pok a]
  from new(2) have i: "i \<noteq> 0" using zero_not_live [of p] by auto
  from new(1) e(2) have iei: "i \<noteq> ei" by blast
  have iX: "i \<notin> X" "i \<notin> ep_index ` set (event_queue s)" using new(1) s by (auto simp: sched_inv_def queue_ok_def)
  have "ei \<in> pool_live p" using new(2) e(2) by blast
  note set = pool_set_live [OF new(4) this, where v = "ev_kill e"]
  define s' where "s' = s\<lparr>event_pool := p\<lparr>index_pool := (index_pool p)[ei := ev_kill e]\<rparr>,
      node_pool := (node_pool s)[ni := (node_pool s ! ni)\<lparr>event_index := i\<rparr>]\<rparr>"
  have "replace_event ni ei s = Some (i, s')"
    using e a new(5) [OF e(2)] set(1) ni i
    by (simp add: replace_event_def copy_event_def kill_event_def get_event_def put_event_def mod_node_def
        get_node_def nth_opt_in put_node_def set_event_def clear_event_def s'_def)
  moreover have "sched_inv (insert i X) s'"
    using s links_replace [OF _ ni ei _ a] e(1) new(1,2) set(2)
    by (auto simp: sched_inv_def s'_def get_event_def intro: queue_ok_alloc)
  moreover have "get_event s' i = Some e" "ev_frame s s'" "event_queue s' = event_queue s"
    "get_event s' ei = Some (ev_kill e)" "node_pool s' = (node_pool s)[ni := (node_pool s ! ni)\<lparr>event_index := i\<rparr>]"
    using set(4) set(5) [OF iei] new(3) by (simp_all add: s'_def get_event_def)
  moreover have "get_event s' j = get_event s j" if "j \<noteq> ei" "j \<in> pool_live (event_pool s)" for j
    using set(5) [of j] new(5) that by (simp add: s'_def get_event_def)
  ultimately show ?thesis using that e i iX by blast
qed

text \<open>The pending events as a map: the event of a node, if it has one.\<close>

definition pend :: "prsim_state \<Rightarrow> node_index_type \<Rightarrow> event option" where
  "pend s ni = (if event_index (node_pool s ! ni) = 0 then None else get_event s (event_index (node_pool s ! ni)))"

lemma event_index_inj:
  assumes "sched_inv X s" and "ni < length (node_pool s)" and "nj < length (node_pool s)"
    and "event_index (node_pool s ! ni) = event_index (node_pool s ! nj)" and "event_index (node_pool s ! ni) \<noteq> 0"
  shows "ni = nj"
proof -
  obtain e where "get_event s (event_index (node_pool s ! ni)) = Some e" "ev_node e = ni"
    using sched_inv_pending [OF assms(1,2,5)] by blast
  moreover obtain e' where "get_event s (event_index (node_pool s ! nj)) = Some e'" "ev_node e' = nj"
    using sched_inv_pending [OF assms(1,3)] assms(4,5) by metis
  ultimately show ?thesis using assms(4) by simp
qed

section \<open>Delays\<close>

text \<open>
  The delays that the timing mode of the state gives to a rule are defined and not negative. Only
  bounded mode can fail: it insists on a rule with both bounds.
\<close>

definition delay_ok :: "timing_parameters \<Rightarrow> rule option \<Rightarrow> bool" where
  "delay_ok tp r \<longleftrightarrow>
     (if timing_mode tp = TIMING_UNIFORM then 0 \<le> uniform_delay tp
      else if timing_mode tp = TIMING_RANDOM \<or> (case r of Some r \<Rightarrow> is_always_random r | None \<Rightarrow> False) then True
      else if timing_mode tp = TIMING_BINARY then 0 \<le> default_after_min tp \<and> 0 \<le> default_after_max tp
      else if timing_mode tp = TIMING_BOUNDED then
        r \<noteq> None \<and> \<not> is_zero (rule_delay r after_min (default_after_min tp)) \<and>
        rule_delay r after_min (default_after_min tp) \<le> rule_delay r after_max (default_after_max tp)
      else (case r of Some r \<Rightarrow> 0 \<le> after r | None \<Rightarrow> True))"

lemma not_zero_pos: "\<not> is_zero t \<Longrightarrow> 0 < t"
  unfolding is_zero_def time_epsilon_def by (rule less_le_trans [of _ "1 / 2 ^ 52"]) auto

lemma convex_pos:
  fixes a b u :: rat
  assumes "0 < a" "0 < b" "0 \<le> u" "u < 1"
  shows "0 \<le> a + (b - a) * u"
proof -
  have "a + (b - a) * u = a * (1 - u) + b * u" by (simp add: algebra_simps)
  with assms show ?thesis by simp
qed

lemma delay_delta_ok:
  assumes "random_ok env" and "delay_ok tp r"
  shows "\<exists>d k'. delay_delta env tp r k = Some (d, k') \<and> 0 \<le> d"
proof -
  have u: "0 \<le> uniform_rand env k" "uniform_rand env k < 1" "0 \<le> 2048 * exponential_rand env k"
    using assms(1) by (auto simp: random_ok_def)
  let ?a = "rule_delay r after_min (default_after_min tp)"
  let ?b = "rule_delay r after_max (default_after_max tp)"
  have a: "0 \<le> 2048 * exponential_rand env k + ?a" if "\<not> is_zero ?a"
    using not_zero_pos [OF that] u(3) by linarith
  have b: "0 \<le> ?b * uniform_rand env k" if "\<not> is_zero ?b"
    using not_zero_pos [OF that] u(1) by simp
  have c: "0 \<le> ?a + (?b - ?a) * uniform_rand env k" if "\<not> is_zero ?a" "\<not> is_zero ?b"
    by (rule convex_pos [OF that [THEN not_zero_pos] u(1,2)])
  have ab: "0 \<le> ?a" "0 \<le> ?b" "\<not> is_zero ?b" if "\<not> is_zero ?a" "?a \<le> ?b"
    using not_zero_pos [OF that(1)] that by (linarith, linarith, simp add: is_zero_def)
  show ?thesis
  proof (cases "timing_mode tp = TIMING_UNIFORM \<or> \<not> (timing_mode tp = TIMING_RANDOM \<or>
           (case r of Some r \<Rightarrow> is_always_random r | None \<Rightarrow> False))")
    case False
    then show ?thesis
      using a b c u(3)
      by (simp add: delay_delta_def Let_def uniform_random_delay_def exponential_random_delay_def)
  next
    case True
    with assms(2) ab show ?thesis
      by (cases "timing_mode tp"; simp add: delay_delta_def delay_ok_def Let_def uniform_random_delay_def split: option.splits)
  qed
qed

lemma get_delay_up_ok:
  assumes "random_ok env" and "delay_ok (timing_params s) (ev_cause_rule_ptr e)"
  obtains t k where "get_delay_up env e s = Some (t, s\<lparr>oracle_pos := k\<rparr>)" "current_time s \<le> t"
proof -
  obtain d k where "delay_delta env (timing_params s) (ev_cause_rule_ptr e) (oracle_pos s) = Some (d, k)" "0 \<le> d"
    using delay_delta_ok [OF assms] by blast
  then show ?thesis by (intro that [of "current_time s + d" k]) (simp_all add: get_delay_up_def)
qed

lemma get_delay_dn_eq: "get_delay_dn env e s = get_delay_up env e s"
  by (simp add: get_delay_dn_def)

end
