(* ===== verification/Prs_Eval.thy ===== *)
theory Prs_Eval
  imports Sched_Inv
begin

text \<open>
  Expression evaluation of src/sim/prsim/State-prsim.cc: the propagation of a changed leaf to the root of its
  expression tree (\<^verbatim>\<open>evaluate_kernel\<close>) and to the fanin counters of the driven node (\<^verbatim>\<open>evaluate\<close>). The
  incremental counters are related to a three-valued (Kleene) evaluation of the whole tree.
\<close>

section \<open>Lookup\<close>

text \<open>The last entry whose key is at most the index: \<^verbatim>\<open>upper_bound\<close>, then one step back.\<close>

definition lookup_global_expr_process_id :: "prsim_state \<Rightarrow> expr_index_type \<Rightarrow> process_index_type option" where
  "lookup_global_expr_process_id s gei = do {
     let before = takeWhile (\<lambda>p. fst p \<le> gei) (global_expr_process_id_map s);
     INVARIANT (before \<noteq> []);
     Some (snd (last before)) }"

definition lookup_global_expr_process ::
  "prsim_state \<Rightarrow> expr_index_type \<Rightarrow> (process_index_type \<times> process_sim_state) option" where
  "lookup_global_expr_process s gei = do {
     INVARIANT (gei \<noteq> INVALID_EXPR_INDEX);
     pid \<leftarrow> lookup_global_expr_process_id s gei;
     ps \<leftarrow> nth_opt (process_state_array s) pid;
     Some (pid, ps) }"

definition get_graph :: "prsim_state \<Rightarrow> process_sim_state \<Rightarrow> process_graph option" where
  "get_graph s ps = nth_opt (unique_process_pool s) (ps_type ps)"

text \<open>Local nodes are translated with \<^verbatim>\<open>bfm[lni]\<close>, without the subtraction that other accesses have.\<close>

definition translate_to_global_node ::
  "sim_env \<Rightarrow> prsim_state \<Rightarrow> process_index_type \<Rightarrow> node_index_type \<Rightarrow> node_index_type option" where
  "translate_to_global_node env s pid lni = do {
     INVARIANT (pid < length (process_state_array s));
     nth_opt (footprint_frame_map env pid) lni }"

definition lookup_rule :: "prsim_state \<Rightarrow> expr_index_type \<Rightarrow> rule option option" where
  "lookup_rule s ei =
     (if ei \<noteq> INVALID_EXPR_INDEX then do {
        (pid, ps) \<leftarrow> lookup_global_expr_process s ei;
        g \<leftarrow> get_graph s ps;
        graph_lookup_rule g (local_expr_index ps ei) }
      else Some None)"

definition is_rule_expr :: "prsim_state \<Rightarrow> expr_index_type \<Rightarrow> bool option" where
  "is_rule_expr s ei = map_option (\<lambda>r. r \<noteq> None) (lookup_rule s ei)"

text \<open>\<^verbatim>\<open>unique_process_subgraph::local_root_expr\<close>: follow parents up to the root.\<close>

fun local_root_expr :: "nat \<Rightarrow> process_graph \<Rightarrow> expr_index_type \<Rightarrow> expr_index_type option" where
  "local_root_expr 0 g ei = None"
| "local_root_expr (Suc k) g ei = do {
     e \<leftarrow> nth_opt (expr_pool g) ei;
     if is_root e then Some ei else local_root_expr k g (expr_parent e) }"

section \<open>evaluate\_kernel\<close>

record eval_info =
  root_node :: node_index_type
  root_expr :: expr_index_type
  root_struct :: expr
  terminate_propagation :: bool
  prev_out :: pull_enum
  next_out :: pull_enum

text \<open>
  The loop over parents; \<open>us\<close> are the expression states of the process. The fields \<open>prev_out\<close> and
  \<open>next_out\<close> are the final values of the reference parameters. The loop has fuel, see \<open>expr_depth\<close>.
\<close>

fun evaluate_loop ::
  "nat \<Rightarrow> expr list \<Rightarrow> expr_state list \<Rightarrow> expr_index_type \<Rightarrow> expr_index_type \<Rightarrow> pull_enum \<Rightarrow> pull_enum
    \<Rightarrow> (expr_state list \<times> eval_info) option" where
  "evaluate_loop 0 pool us ui ri prev next = None"
| "evaluate_loop (Suc k) pool us ui ri prev next = do {
     s \<leftarrow> nth_opt pool ui;
     u \<leftarrow> nth_opt us ui;
     let old_pull = pull_state u s;
     let u' = expr_count_update s prev next u;
     let new_pull = pull_state u' s;
     let us' = us[ui := u'];
     if old_pull = new_pull then
       Some (us', \<lparr>root_node = ui, root_expr = ri, root_struct = s, terminate_propagation = True,
                   prev_out = prev, next_out = next\<rparr>)
     else if is_root s then
       Some (us', \<lparr>root_node = expr_parent s, root_expr = ui, root_struct = s, terminate_propagation = False,
                   prev_out = old_pull, next_out = new_pull\<rparr>)
     else evaluate_loop k pool us' (expr_parent s) ui old_pull new_pull }"

definition put_expr_states :: "process_index_type \<Rightarrow> expr_state list \<Rightarrow> prsim_state \<Rightarrow> prsim_state" where
  "put_expr_states pid us s =
     s\<lparr>process_state_array := (process_state_array s)[pid := (process_state_array s ! pid)\<lparr>expr_states := us\<rparr>]\<rparr>"

definition evaluate_kernel ::
  "prsim_state \<Rightarrow> expr_index_type \<Rightarrow> pull_enum \<Rightarrow> pull_enum
    \<Rightarrow> (process_index_type \<times> eval_info \<times> prsim_state) option" where
  "evaluate_kernel s gui prev next = do {
     (pid, ps) \<leftarrow> lookup_global_expr_process s gui;
     pg \<leftarrow> get_graph s ps;
     (us, ei) \<leftarrow> evaluate_loop (length (expr_pool pg)) (expr_pool pg) (expr_states ps)
                  (local_expr_index ps gui) INVALID_EXPR_INDEX prev next;
     Some (pid, ei, put_expr_states pid us s) }"

section \<open>evaluate\<close>

record evaluate_return =
  er_node_index :: node_index_type
  er_root_pull :: pull_enum
  er_prev_pull :: pull_set
  er_root_rule :: rule
  er_root_rule_index :: rule_index_type

text \<open>\<^verbatim>\<open>__invariant_update_map[rr] = next\<close>, for a map that is an association list in key order.\<close>

fun rule_ref_assign ::
  "process_index_type \<times> expr_index_type \<Rightarrow> 'v \<Rightarrow> ((process_index_type \<times> expr_index_type) \<times> 'v) list
    \<Rightarrow> ((process_index_type \<times> expr_index_type) \<times> 'v) list" where
  "rule_ref_assign k v [] = [(k, v)]"
| "rule_ref_assign k v ((k', v') # kvs) =
     (if fst k < fst k' \<or> fst k = fst k' \<and> snd k < snd k' then (k, v) # (k', v') # kvs
      else if k = k' then (k, v) # kvs
      else (k', v') # rule_ref_assign k v kvs)"

text \<open>
  The part of \<^verbatim>\<open>evaluate\<close> after the propagation reached a root. The result is None when nothing
  is to be done (\<^verbatim>\<open>node_index\<close> stays invalid).
\<close>

definition evaluate_root ::
  "sim_env \<Rightarrow> process_index_type \<Rightarrow> eval_info \<Rightarrow> prsim_state \<Rightarrow> (evaluate_return option \<times> prsim_state) option" where
  "evaluate_root env pid ei s = do {
     ps \<leftarrow> nth_opt (process_state_array s) pid;
     pg \<leftarrow> get_graph s ps;
     let ri = root_expr ei;
     lri \<leftarrow> rule_map pg ri;
     r \<leftarrow> nth_opt (rule_pool pg) lri;
     if \<not> is_invariant r then do {
       oni \<leftarrow> translate_to_global_node env s pid (root_node ei);
       n \<leftarrow> get_node s oni;
       let ops = pull_set_of n (weak_rules_enabled s);
       let dir = direction r;
       let is_weak = rule_is_weak r;
       _ \<leftarrow> (if is_atomic n then INVARIANT (dir \<and> \<not> is_weak) else Some ());
       let s1 = (if is_atomic n \<and> atomic_updated_nodes s oni = None
                 then s\<lparr>atomic_updated_nodes := (atomic_updated_nodes s)(oni \<mapsto> node_value n)\<rparr> else s);
       let fs = get_pull_struct dir is_weak n;
       let fs' = fanin_count_update (prev_out ei) (next_out ei) fs;
       let s2 = put_node s1 oni (set_pull_struct dir is_weak fs' n);
       if fanin_pull fs = fanin_pull fs' then Some (None, s2)
       else Some (Some \<lparr>er_node_index = oni, er_root_pull = fanin_pull fs', er_prev_pull = ops,
                       er_root_rule = r, er_root_rule_index = global_expr_index ps ri\<rparr>, s2) }
     else Some (None, s\<lparr>invariant_update_map := rule_ref_assign (pid, ri) (next_out ei) (invariant_update_map s)\<rparr>) }"

definition evaluate ::
  "sim_env \<Rightarrow> expr_index_type \<Rightarrow> pull_enum \<Rightarrow> pull_enum \<Rightarrow> prsim_state
    \<Rightarrow> (evaluate_return option \<times> prsim_state) option" where
  "evaluate env gui prev next s = do {
     (pid, ei, s1) \<leftarrow> evaluate_kernel s gui prev next;
     if terminate_propagation ei then Some (None, s1)
     else evaluate_root env pid ei s1 }"

end
