(* ===== verification/Prs_Excl.thy ===== *)
theory Prs_Excl
  imports Sched_Inv
begin

text \<open>
  Exclusive rings of src/sim/prsim/State-prsim.cc: forced rings (\<^verbatim>\<open>mk_exclhi\<close>, \<^verbatim>\<open>mk_excllo\<close>), which block or
  release their members through a counter, and checked rings, which have one lock each.
\<close>

section \<open>Small containers\<close>

text \<open>\<^verbatim>\<open>std::set::insert\<close> on an ascending list; \<^verbatim>\<open>std::map::insert\<close>, which keeps an existing entry.\<close>

fun set_insert :: "nat \<Rightarrow> nat list \<Rightarrow> nat list" where
  "set_insert x [] = [x]"
| "set_insert x (y # ys) = (if x < y then x # y # ys else if x = y then y # ys else y # set_insert x ys)"

definition map_insert :: "'k \<Rightarrow> 'v \<Rightarrow> ('k \<times> 'v) list \<Rightarrow> bool \<times> ('k \<times> 'v) list" where
  "map_insert k v m = (case map_of m k of None \<Rightarrow> (True, (k, v) # m) | Some _ \<Rightarrow> (False, m))"

definition map_put :: "'k \<Rightarrow> 'v \<Rightarrow> ('k \<times> 'v) list \<Rightarrow> ('k \<times> 'v) list" where
  "map_put k v m = map (\<lambda>(k', v'). if k' = k then (k', v) else (k', v')) m"

definition map_erase :: "'k \<Rightarrow> ('k \<times> 'v) list \<Rightarrow> ('k \<times> 'v) list" where
  "map_erase k m = filter (\<lambda>p. fst p \<noteq> k) m"

lemma set_set_insert [simp]: "set (set_insert x ys) = insert x (set ys)"
  by (induction ys) auto

lemma map_insert_keys:
  "map_insert k v m = (b, m') \<Longrightarrow> distinct (map fst m) \<Longrightarrow> distinct (map fst m') \<and> set (map fst m') = insert k (set (map fst m))"
  by (auto simp: map_insert_def map_of_eq_None_iff split: option.splits dest: map_of_SomeD)
    (metis fst_conv image_eqI map_of_SomeD)+

section \<open>Rings\<close>

text \<open>\<^verbatim>\<open>append_mk_exclhi_ring\<close> and its low twin. An atomic member is a fatal error (\<^verbatim>\<open>THROW_EXIT\<close>).\<close>

definition push_lock :: "node_index_type \<Rightarrow> lock_index_type \<Rightarrow> (node_index_type \<rightharpoonup> lock_index_type list)
    \<Rightarrow> node_index_type \<rightharpoonup> lock_index_type list" where
  "push_lock ni j m = m(ni \<mapsto> (case m ni of None \<Rightarrow> [] | Some l \<Rightarrow> l) @ [j])"

fun mk_exclhi_members :: "lock_index_type \<Rightarrow> node_index_type list \<Rightarrow> prsim_state \<Rightarrow> prsim_state option" where
  "mk_exclhi_members j [] s = Some s"
| "mk_exclhi_members j (ni # nis) s = do {
     n \<leftarrow> get_node s ni;
     INVARIANT (\<not> is_atomic n);
     let s1 = put_node s ni (make_exclhi n);
     mk_exclhi_members j nis (s1\<lparr>mk_exhi_counter_map := push_lock ni j (mk_exhi_counter_map s1)\<rparr>) }"

definition append_mk_exclhi_ring :: "node_index_type list \<Rightarrow> prsim_state \<Rightarrow> prsim_state option" where
  "append_mk_exclhi_ring r s = do {
     s1 \<leftarrow> mk_exclhi_members (length (mk_exhi s)) r s;
     Some (s1\<lparr>mk_exhi := mk_exhi s1 @ [\<lparr>ring_elems = r, ring_count = 0\<rparr>]\<rparr>) }"

fun mk_excllo_members :: "lock_index_type \<Rightarrow> node_index_type list \<Rightarrow> prsim_state \<Rightarrow> prsim_state option" where
  "mk_excllo_members j [] s = Some s"
| "mk_excllo_members j (ni # nis) s = do {
     n \<leftarrow> get_node s ni;
     INVARIANT (\<not> is_atomic n);
     let s1 = put_node s ni (make_excllo n);
     mk_excllo_members j nis (s1\<lparr>mk_exlo_counter_map := push_lock ni j (mk_exlo_counter_map s1)\<rparr>) }"

definition append_mk_excllo_ring :: "node_index_type list \<Rightarrow> prsim_state \<Rightarrow> prsim_state option" where
  "append_mk_excllo_ring r s = do {
     s1 \<leftarrow> mk_excllo_members (length (mk_exlo s)) r s;
     Some (s1\<lparr>mk_exlo := mk_exlo s1 @ [\<lparr>ring_elems = r, ring_count = 0\<rparr>]\<rparr>) }"

fun check_exclhi_members :: "lock_index_type \<Rightarrow> node_index_type list \<Rightarrow> prsim_state \<Rightarrow> prsim_state option" where
  "check_exclhi_members j [] s = Some s"
| "check_exclhi_members j (ni # nis) s = do {
     s1 \<leftarrow> mod_node s ni check_exclhi;
     check_exclhi_members j nis (s1\<lparr>check_exhi := push_lock ni j (check_exhi s1)\<rparr>) }"

definition append_check_exclhi_ring :: "node_index_type list \<Rightarrow> prsim_state \<Rightarrow> prsim_state option" where
  "append_check_exclhi_ring r s =
     check_exclhi_members (length (check_exhi_ring_pool s)) r
       (s\<lparr>check_exhi_ring_pool := check_exhi_ring_pool s @ [False]\<rparr>)"

fun check_excllo_members :: "lock_index_type \<Rightarrow> node_index_type list \<Rightarrow> prsim_state \<Rightarrow> prsim_state option" where
  "check_excllo_members j [] s = Some s"
| "check_excllo_members j (ni # nis) s = do {
     s1 \<leftarrow> mod_node s ni check_excllo;
     check_excllo_members j nis (s1\<lparr>check_exlo := push_lock ni j (check_exlo s1)\<rparr>) }"

definition append_check_excllo_ring :: "node_index_type list \<Rightarrow> prsim_state \<Rightarrow> prsim_state option" where
  "append_check_excllo_ring r s =
     check_excllo_members (length (check_exlo_ring_pool s)) r
       (s\<lparr>check_exlo_ring_pool := check_exlo_ring_pool s @ [False]\<rparr>)"

section \<open>Forced exclusion\<close>

text \<open>Blocking the other members of a ring, and putting them up for re-evaluation on release.\<close>

definition block_members :: "node_index_type \<Rightarrow> node_index_type list \<Rightarrow> prsim_state \<Rightarrow> prsim_state" where
  "block_members ni elems s =
     s\<lparr>mk_excl_blocking_set := fold (\<lambda>r b. if r \<noteq> ni then set_insert r b else b) elems (mk_excl_blocking_set s)\<rparr>"

definition release_member :: "node_index_type \<Rightarrow> node_index_type \<Rightarrow> prsim_state \<Rightarrow> prsim_state" where
  "release_member ni r s =
     (if r \<noteq> ni then
        (let (fresh, m) = map_insert r node_update_info_new (updated_nodes s) in
         s\<lparr>updated_nodes := m,
           updated_nodes_queue := (if fresh then updated_nodes_queue s @ [r] else updated_nodes_queue s)\<rparr>)
      else s)"

fun enforce_exclhi_rings ::
  "node_index_type \<Rightarrow> value_enum \<Rightarrow> value_enum \<Rightarrow> lock_index_type list \<Rightarrow> prsim_state \<Rightarrow> prsim_state option" where
  "enforce_exclhi_rings ni v prev [] s = Some s"
| "enforce_exclhi_rings ni v prev (l # ls) s = do {
     r \<leftarrow> nth_opt (mk_exhi s) l;
     s1 \<leftarrow>
       (if v = LOGIC_HIGH \<and> prev \<noteq> LOGIC_HIGH then do {
          rs \<leftarrow> upd_opt (mk_exhi s) l (r\<lparr>ring_count := ring_count r + 1\<rparr>);
          Some (block_members ni (ring_elems r) (s\<lparr>mk_exhi := rs\<rparr>)) }
        else if v \<noteq> LOGIC_HIGH \<and> prev = LOGIC_HIGH then do {
          rs \<leftarrow> upd_opt (mk_exhi s) l (r\<lparr>ring_count := ring_count r - 1\<rparr>);
          Some (if ring_count r - 1 = 0 then fold (release_member ni) (ring_elems r) (s\<lparr>mk_exhi := rs\<rparr>)
                else s\<lparr>mk_exhi := rs\<rparr>) }
        else Some s);
     enforce_exclhi_rings ni v prev ls s1 }"

definition enforce_exclhi :: "event_cause \<Rightarrow> value_enum \<Rightarrow> prsim_state \<Rightarrow> prsim_state option" where
  "enforce_exclhi c prev s = do {
     l \<leftarrow> mk_exhi_counter_map s (cause_node c);
     enforce_exclhi_rings (cause_node c) (cause_val c) prev l s }"

fun enforce_excllo_rings ::
  "node_index_type \<Rightarrow> value_enum \<Rightarrow> value_enum \<Rightarrow> lock_index_type list \<Rightarrow> prsim_state \<Rightarrow> prsim_state option" where
  "enforce_excllo_rings ni v prev [] s = Some s"
| "enforce_excllo_rings ni v prev (l # ls) s = do {
     r \<leftarrow> nth_opt (mk_exlo s) l;
     s1 \<leftarrow>
       (if v = LOGIC_LOW \<and> prev \<noteq> LOGIC_LOW then do {
          rs \<leftarrow> upd_opt (mk_exlo s) l (r\<lparr>ring_count := ring_count r + 1\<rparr>);
          Some (block_members ni (ring_elems r) (s\<lparr>mk_exlo := rs\<rparr>)) }
        else if v \<noteq> LOGIC_LOW \<and> prev = LOGIC_LOW then do {
          rs \<leftarrow> upd_opt (mk_exlo s) l (r\<lparr>ring_count := ring_count r - 1\<rparr>);
          Some (if ring_count r - 1 = 0 then fold (release_member ni) (ring_elems r) (s\<lparr>mk_exlo := rs\<rparr>)
                else s\<lparr>mk_exlo := rs\<rparr>) }
        else Some s);
     enforce_excllo_rings ni v prev ls s1 }"

definition enforce_excllo :: "event_cause \<Rightarrow> value_enum \<Rightarrow> prsim_state \<Rightarrow> prsim_state option" where
  "enforce_excllo c prev s = do {
     l \<leftarrow> mk_exlo_counter_map s (cause_node c);
     enforce_excllo_rings (cause_node c) (cause_val c) prev l s }"

section \<open>Checked exclusion\<close>

text \<open>
  Taking the locks of a node's rings in order; the first component is a ring that was locked already. The locks
  taken before it stay taken.
\<close>

fun take_locks :: "lock_index_type list \<Rightarrow> bool list \<Rightarrow> (lock_index_type option \<times> bool list) option" where
  "take_locks [] pool = Some (None, pool)"
| "take_locks (li # ls) pool = do {
     INVARIANT (li \<noteq> INVALID_LOCK_INDEX);
     l \<leftarrow> nth_opt pool li;
     if l then Some (Some li, pool) else take_locks ls (pool[li := True]) }"

fun drop_locks :: "lock_index_type list \<Rightarrow> bool list \<Rightarrow> bool list option" where
  "drop_locks [] pool = Some pool"
| "drop_locks (li # ls) pool = do {
     INVARIANT (li \<noteq> INVALID_LOCK_INDEX);
     INVARIANT (li < length pool);
     drop_locks ls (pool[li := False]) }"

text \<open>One polarity: \<open>active\<close> is the value that holds the locks.\<close>

definition check_ring_polarity ::
  "value_enum \<Rightarrow> lock_index_type list option \<Rightarrow> value_enum \<Rightarrow> value_enum \<Rightarrow> bool list
    \<Rightarrow> (lock_index_type option \<times> bool list) option" where
  "check_ring_polarity active locks prev next pool =
     (if next = active then do { l \<leftarrow> locks; take_locks l pool }
      else if prev = active \<and> next \<noteq> prev then do { l \<leftarrow> locks; p \<leftarrow> drop_locks l pool; Some (None, p) }
      else Some (None, pool))"

text \<open>The result: type (high or low), lock and node of a violation, \<^term>\<open>None\<close> when all is well.\<close>

definition check_excl_rings ::
  "node_index_type \<Rightarrow> node_state \<Rightarrow> value_enum \<Rightarrow> value_enum \<Rightarrow> prsim_state
    \<Rightarrow> ((bool \<times> lock_index_type \<times> node_index_type) option \<times> prsim_state) option" where
  "check_excl_rings ni n prev next s = do {
     (x, s1) \<leftarrow>
       (if has_check_exclhi n then do {
          (x, p) \<leftarrow> check_ring_polarity LOGIC_HIGH (check_exhi s ni) prev next (check_exhi_ring_pool s);
          Some (x, s\<lparr>check_exhi_ring_pool := p\<rparr>) }
        else Some (None, s));
     case x of
       Some li \<Rightarrow> Some (Some (True, li, ni), s1)
     | None \<Rightarrow> do {
         (y, s2) \<leftarrow>
           (if has_check_excllo n then do {
              (y, p) \<leftarrow> check_ring_polarity LOGIC_LOW (check_exlo s1 ni) prev next (check_exlo_ring_pool s1);
              Some (y, s1\<lparr>check_exlo_ring_pool := p\<rparr>) }
            else Some (None, s1));
         Some (map_option (\<lambda>li. (False, li, ni)) y, s2) } }"

end
