(* ===== verification/Prs_Flush.thy ===== *)
theory Prs_Flush
  imports Prs_Eval Prs_Excl
begin

text \<open>
  Scheduling decisions of src/sim/prsim/State-prsim.cc: the nodes whose pull changed during a step are turned
  into new, cancelled or overwritten events (\<^verbatim>\<open>flush_updated_nodes\<close>), with the diagnostics of
  interference and instability; the same for events that channels ask for.
\<close>

section \<open>Diagnostics\<close>

definition report_interference :: "bool \<Rightarrow> node_state \<Rightarrow> prsim_state \<Rightarrow> error_policy_enum" where
  "report_interference weak n s =
     (if weak then
        (if weak_interference_policy (policies s) \<noteq> ERROR_IGNORE \<and> \<not> may_weak_interfere n
         then weak_interference_policy (policies s) else ERROR_NONE)
      else
        (if interference_policy (policies s) \<noteq> ERROR_IGNORE \<and> \<not> may_interfere n
         then interference_policy (policies s) else ERROR_NONE))"

definition report_instability :: "bool \<Rightarrow> bool \<Rightarrow> event \<Rightarrow> prsim_state \<Rightarrow> error_policy_enum" where
  "report_instability weak excl ev s =
     (if (case ev_cause_rule_ptr ev of None \<Rightarrow> True | Some r \<Rightarrow> \<not> is_unstable r) then
        (if excl then
           (if excl_unstable_policy (policies s) \<noteq> ERROR_IGNORE then excl_unstable_policy (policies s) else ERROR_NONE)
         else if weak then
           (if weak_unstable_policy (policies s) \<noteq> ERROR_IGNORE then weak_unstable_policy (policies s) else ERROR_NONE)
         else
           (if unstable_policy (policies s) \<noteq> ERROR_IGNORE then unstable_policy (policies s) else ERROR_NONE))
      else ERROR_NONE)"

section \<open>flush\_blocked\_excl\_nodes\<close>

definition flush_blocked_node :: "value_enum \<Rightarrow> node_index_type \<Rightarrow> prsim_state \<Rightarrow> prsim_state option" where
  "flush_blocked_node val ni s =
     (case map_of (updated_nodes s) ni of
        Some nui \<Rightarrow> Some (s\<lparr>updated_nodes := map_put ni (nui\<lparr>excl_blocked := True\<rparr>) (updated_nodes s)\<rparr>)
      | None \<Rightarrow> do {
          n \<leftarrow> get_node s ni;
          if event_index n \<noteq> INVALID_EVENT_INDEX then do {
            e \<leftarrow> get_event s (event_index n);
            Some (if ev_val e = val then
                    s\<lparr>updated_nodes := (ni, node_update_info_new\<lparr>excl_blocked := True\<rparr>) # updated_nodes s,
                      updated_nodes_queue := updated_nodes_queue s @ [ni]\<rparr>
                  else s) }
          else Some s })"

fun flush_blocked_nodes :: "value_enum \<Rightarrow> node_index_type list \<Rightarrow> prsim_state \<Rightarrow> prsim_state option" where
  "flush_blocked_nodes val [] s = Some s"
| "flush_blocked_nodes val (ni # nis) s = do { s1 \<leftarrow> flush_blocked_node val ni s; flush_blocked_nodes val nis s1 }"

definition flush_blocked_excl_nodes :: "value_enum \<Rightarrow> prsim_state \<Rightarrow> prsim_state option" where
  "flush_blocked_excl_nodes val s = do {
     s1 \<leftarrow> flush_blocked_nodes val (mk_excl_blocking_set s) s;
     Some (s1\<lparr>mk_excl_blocking_set := []\<rparr>) }"

section \<open>flush\_updated\_nodes\<close>

text \<open>The pull state that counts: a forced exclusion cuts off the direction of the cause's value.\<close>

definition effective_pull_set :: "node_state \<Rightarrow> bool \<Rightarrow> bool \<Rightarrow> value_enum \<Rightarrow> pull_set" where
  "effective_pull_set n weak_rules blocked cval =
     (let p = pull_set_of n weak_rules in
      if blocked then
        (case cval of LOGIC_HIGH \<Rightarrow> cut_off_pull_up p | LOGIC_LOW \<Rightarrow> cut_off_pull_dn p | LOGIC_OTHER \<Rightarrow> p)
      else p)"

text \<open>The future value without interference; the last case is the check \<^verbatim>\<open>ISE_INVARIANT(p.state_holding())\<close>.\<close>

definition fired_value :: "pull_set \<Rightarrow> value_enum \<Rightarrow> value_enum option" where
  "fired_value p old_val =
     (if pull_up_wins_any p then Some LOGIC_HIGH
      else if pull_dn_wins_any p then Some LOGIC_LOW
      else if pull_up_x_wins_any p then Some (if old_val = LOGIC_LOW then LOGIC_OTHER else old_val)
      else if pull_dn_x_wins_any p then Some (if old_val = LOGIC_HIGH then LOGIC_OTHER else old_val)
      else do { INVARIANT (state_holding p); Some old_val })"

definition have_instability :: "pull_set \<Rightarrow> value_enum \<Rightarrow> bool" where
  "have_instability p pval =
     (case pval of LOGIC_LOW \<Rightarrow> \<not> pulling_dn p | LOGIC_HIGH \<Rightarrow> \<not> pulling_up p | LOGIC_OTHER \<Rightarrow> False)"

text \<open>
  Interference with a pending event: user-set events are kept, an event on an X node is cancelled, any
  other event becomes X.
\<close>

definition clobber_pending ::
  "event_cause \<Rightarrow> time_type \<Rightarrow> node_index_type \<Rightarrow> event_index_type \<Rightarrow> value_enum \<Rightarrow> prsim_state \<Rightarrow> prsim_state option" where
  "clobber_pending c et ni prevevent old_val s = do {
     pe \<leftarrow> get_event s prevevent;
     if forced pe then Some s
     else if old_val = LOGIC_OTHER then do {
       s1 \<leftarrow> kill_event prevevent ni s;
       mod_node s1 ni (set_value_and_cause LOGIC_OTHER c et) }
     else put_event s prevevent (pe\<lparr>ev_val := LOGIC_OTHER, ev_cause := c\<rparr>) }"

definition resolve_instability ::
  "sim_env \<Rightarrow> event_cause \<Rightarrow> time_type \<Rightarrow> node_index_type \<Rightarrow> event_index_type \<Rightarrow> bool \<Rightarrow> bool \<Rightarrow> event
    \<Rightarrow> value_enum \<Rightarrow> prsim_state \<Rightarrow> prsim_state option" where
  "resolve_instability env c et ni prevevent excl weak_wins newevent old_val s = do {
     pe \<leftarrow> get_event s prevevent;
     r \<leftarrow> lookup_rule s (ev_cause_rule pe);
     let r_unstable = (case r of None \<Rightarrow> False | Some r \<Rightarrow> is_unstable r);
     if dequeue_unstable_events s \<or> r_unstable \<or> (excl \<and> dequeue_excl_unstable_events s) then do {
       s1 \<leftarrow> kill_event prevevent ni s;
       if ev_val newevent \<noteq> old_val then enqueue_new_event env newevent s1 else Some s1 }
     else if old_val = LOGIC_OTHER then do {
       s1 \<leftarrow> kill_event prevevent ni s;
       mod_node s1 ni (set_value_and_cause LOGIC_OTHER c et) }
     else put_event s prevevent (ev_set_weak weak_wins (set_cause_node (cause_node c) (pe\<lparr>ev_val := LOGIC_OTHER\<rparr>))) }"

text \<open>A node with a pending event. The second component is the worst diagnostic of the node.\<close>

definition flush_pending ::
  "sim_env \<Rightarrow> event_cause \<Rightarrow> time_type \<Rightarrow> node_index_type \<Rightarrow> event_index_type \<Rightarrow> pull_set \<Rightarrow> bool \<Rightarrow> bool \<Rightarrow> event
    \<Rightarrow> value_enum \<Rightarrow> error_policy_enum \<Rightarrow> prsim_state \<Rightarrow> (error_policy_enum \<times> prsim_state) option" where
  "flush_pending env c et ni prevevent p interf excl newevent old_val err s = do {
     pe0 \<leftarrow> get_event s prevevent;
     let pval = ev_val pe0;
     s1 \<leftarrow> (if interf then clobber_pending c et ni prevevent old_val s else Some s);
     (err1, s2) \<leftarrow>
       (if have_instability p pval then do {
          pe \<leftarrow> get_event s1 prevevent;
          let pe' = pe\<lparr>ev_cause := (ev_cause pe)\<lparr>cause_node := cause_node c, cause_val := cause_val c\<rparr>\<rparr>;
          s2 \<leftarrow> put_event s1 prevevent pe';
          Some (worse_policy err (report_instability (cause_val c = LOGIC_OTHER) excl pe' s2), s2) }
        else Some (err, s1));
     s3 \<leftarrow>
       (if interf then Some s2
        else if have_instability p pval then do {
          INVARIANT (ev_val newevent \<noteq> pval);
          resolve_instability env c et ni prevevent excl (weak_wins_any p) newevent old_val s2 }
        else do {
          pe \<leftarrow> get_event s2 prevevent;
          if (pulling_dn p \<or> pulling_up p) \<and> ev_val newevent \<noteq> pval \<and> ev_val pe = LOGIC_OTHER then do {
            INVARIANT (ev_val newevent \<noteq> LOGIC_OTHER);
            s3 \<leftarrow> kill_event prevevent ni s2;
            if ev_val newevent \<noteq> old_val then enqueue_new_event env newevent s3 else Some s3 }
          else Some s2 });
     Some (err1, s3) }"

definition flush_node ::
  "sim_env \<Rightarrow> event_cause \<Rightarrow> time_type \<Rightarrow> node_index_type \<Rightarrow> error_policy_enum \<Rightarrow> prsim_state
    \<Rightarrow> (error_policy_enum \<times> prsim_state) option" where
  "flush_node env c et ni err s = do {
     n \<leftarrow> get_node s ni;
     let prevevent = event_index n;
     nui \<leftarrow> map_of (updated_nodes s) ni;
     let old_val = node_value n;
     let excl = excl_blocked nui;
     let p = effective_pull_set n (weak_rules_enabled s) excl (cause_val c);
     let newevent = Event_default\<lparr>ev_node := ni, ev_cause := c, ev_cause_rule := nui_rule_index nui,
                                  ev_cause_rule_ptr := nui_rule_ptr nui\<rparr>;
     let int_info = interference_info_of p;
     let interf = have_interference int_info;
     (err1, ne) \<leftarrow>
       (if interf then do {
          let ne = (if weak_rule_involved int_info then ev_set_weak True newevent else newevent)\<lparr>ev_val := LOGIC_OTHER\<rparr>;
          let old_interf = interference_info_of (old_pull_set nui);
          Some (if \<not> have_interference old_interf \<or> val_type old_interf \<noteq> val_type int_info
                then worse_policy err (report_interference (possible_interference int_info) n s) else err, ne) }
        else do {
          v \<leftarrow> fired_value p old_val;
          Some (err, (ev_set_weak (weak_wins_any p) newevent)\<lparr>ev_val := v\<rparr>) });
     (err2, s1) \<leftarrow>
       (if prevevent \<noteq> INVALID_EVENT_INDEX then
          flush_pending env c et ni prevevent p interf excl ne old_val err1 s
        else if ev_val ne \<noteq> old_val then do { s1 \<leftarrow> enqueue_new_event env ne s; Some (err1, s1) }
        else Some (err1, s));
     Some (err2, s1\<lparr>updated_nodes := map_erase ni (updated_nodes s1)\<rparr>) }"

fun flush_nodes ::
  "sim_env \<Rightarrow> event_cause \<Rightarrow> time_type \<Rightarrow> node_index_type list \<Rightarrow> error_policy_enum \<Rightarrow> prsim_state
    \<Rightarrow> (error_policy_enum \<times> prsim_state) option" where
  "flush_nodes env c et [] err s = Some (err, s)"
| "flush_nodes env c et (ni # nis) err s = do {
     (err1, s1) \<leftarrow> flush_node env c et ni err s;
     flush_nodes env c et nis err1 s1 }"

definition flush_updated_nodes ::
  "sim_env \<Rightarrow> event_cause \<Rightarrow> time_type \<Rightarrow> prsim_state \<Rightarrow> (error_policy_enum \<times> prsim_state) option" where
  "flush_updated_nodes env c et s = do {
     s0 \<leftarrow> (if cause_val c \<noteq> LOGIC_OTHER then flush_blocked_excl_nodes (cause_val c) s else Some s);
     INVARIANT (length (updated_nodes s0) = length (updated_nodes_queue s0));
     (err, s1) \<leftarrow> flush_nodes env c et (updated_nodes_queue s0) ERROR_NONE s0;
     INVARIANT (updated_nodes s1 = []);
     Some (err, s1\<lparr>updated_nodes_queue := []\<rparr>) }"

section \<open>flush\_channel\_events\<close>

definition channel_delay :: "sim_env \<Rightarrow> env_event \<Rightarrow> event \<Rightarrow> prsim_state \<Rightarrow> (time_type \<times> prsim_state) option" where
  "channel_delay env x ev s =
     (if \<not> ee_use_global x then Some (current_time s + ee_delay x, s)
      else case ee_value x of
        LOGIC_LOW \<Rightarrow> get_delay_dn env ev s
      | LOGIC_HIGH \<Rightarrow> get_delay_up env ev s
      | LOGIC_OTHER \<Rightarrow> Some (current_time s, s))"

definition enqueue_channel_event ::
  "sim_env \<Rightarrow> event_cause \<Rightarrow> env_event \<Rightarrow> prsim_state \<Rightarrow> prsim_state option" where
  "enqueue_channel_event env c x s = do {
     n \<leftarrow> get_node s (ee_node x);
     if node_value n \<noteq> ee_value x then do {
       (pn, s1) \<leftarrow> allocate_event_args (ee_node x) c INVALID_RULE_INDEX None (ee_value x) False False s;
       ev \<leftarrow> get_event s1 pn;
       (t, s2) \<leftarrow> channel_delay env x ev s1;
       enqueue_event t pn s2 }
     else Some s }"

definition flush_channel_event ::
  "sim_env \<Rightarrow> event_cause \<Rightarrow> env_event \<Rightarrow> error_policy_enum \<Rightarrow> prsim_state
    \<Rightarrow> (error_policy_enum \<times> prsim_state) option" where
  "flush_channel_event env c x err s = do {
     n \<leftarrow> get_node s (ee_node x);
     INVARIANT (\<not> is_frozen n);
     let pe = event_index n;
     if pe \<noteq> INVALID_EVENT_INDEX then do {
       ev \<leftarrow> get_event s pe;
       let err1 = worse_policy err (report_instability (ee_value x = LOGIC_OTHER) False ev s);
       if dequeue_unstable_events s then do {
         s1 \<leftarrow> kill_event pe (ev_node ev) s;
         s2 \<leftarrow> enqueue_channel_event env c x s1;
         Some (err1, s2) }
       else do {
         s1 \<leftarrow> put_event s pe (ev\<lparr>ev_val := LOGIC_OTHER\<rparr>);
         Some (err1, s1) } }
     else do {
       s1 \<leftarrow> enqueue_channel_event env c x s;
       Some (err, s1) } }"

fun flush_channel_events ::
  "sim_env \<Rightarrow> event_cause \<Rightarrow> env_event list \<Rightarrow> error_policy_enum \<Rightarrow> prsim_state
    \<Rightarrow> (error_policy_enum \<times> prsim_state) option" where
  "flush_channel_events env c [] err s = Some (err, s)"
| "flush_channel_events env c (x # xs) err s = do {
     (err1, s1) \<leftarrow> flush_channel_event env c x err s;
     flush_channel_events env c xs err1 s1 }"

end
