(* ===== verification/Prs_Step.thy ===== *)
theory Prs_Step
  imports Prs_Flush
begin

text \<open>
  One simulation step of src/sim/prsim/State-prsim.cc: executing an event, propagating the new value to all
  fanout expressions, enforcing exclusive rings, scheduling the consequences; the step and cycle loops; and
  initialization. Atomic nodes make execution recursive, and so do vacuous events; the recursion has fuel.
\<close>

unbundle bit_operations_syntax

type_synonym step_return = "node_index_type \<times> node_index_type"

section \<open>propagate\_evaluation\<close>

text \<open>The two guards that drop or preserve the firing of a weak rule without a pending event.\<close>

definition weak_firing_preserved :: "bool \<Rightarrow> pull_set \<Rightarrow> bool" where
  "weak_firing_preserved dir p \<longleftrightarrow>
     dir \<and> ((cutoff_up p \<and> \<not> cutoff_dn p) \<or> (weak_pulling_up_x p \<and> ps_dn p = PULL_WEAK)) \<or>
     \<not> dir \<and> ((cutoff_dn p \<and> \<not> cutoff_up p) \<or> (weak_pulling_dn_x p \<and> ps_up p = PULL_WEAK))"

text \<open>Entering a node into \<^verbatim>\<open>updated_nodes\<close>, or replacing the rule that is held responsible.\<close>

definition rule_takes_over :: "bool \<Rightarrow> bool \<Rightarrow> pull_set \<Rightarrow> pull_set \<Rightarrow> bool" where
  "rule_takes_over dir is_weak p ops \<longleftrightarrow>
     (if dir then
        (\<not> is_weak \<and> ps_up p \<noteq> PULL_OFF \<and> ps_up ops \<noteq> PULL_ON) \<or>
        (is_weak \<and> ps_wup p \<noteq> PULL_OFF \<and> ps_wup ops \<noteq> PULL_ON)
      else
        (\<not> is_weak \<and> ps_dn p \<noteq> PULL_OFF \<and> ps_dn ops \<noteq> PULL_ON) \<or>
        (is_weak \<and> ps_wdn p \<noteq> PULL_OFF \<and> ps_wdn ops \<noteq> PULL_ON))"

definition enter_updated :: "evaluate_return \<Rightarrow> pull_set \<Rightarrow> prsim_state \<Rightarrow> prsim_state" where
  "enter_updated r p s =
     (let ui = er_node_index r; rr = er_root_rule r in
      case map_of (updated_nodes s) ui of
        None \<Rightarrow>
          s\<lparr>updated_nodes := (ui, node_update_info_new\<lparr>nui_rule_index := er_root_rule_index r,
               nui_rule_ptr := Some rr, old_pull_set := er_prev_pull r\<rparr>) # updated_nodes s,
            updated_nodes_queue := updated_nodes_queue s @ [ui]\<rparr>
      | Some nui \<Rightarrow>
          if rule_takes_over (direction rr) (rule_is_weak rr) p (er_prev_pull r) then
            s\<lparr>updated_nodes := map_put ui (nui\<lparr>nui_rule_index := er_root_rule_index r, nui_rule_ptr := Some rr\<rparr>)
                (updated_nodes s)\<rparr>
          else s)"

text \<open>
  Weak-rule filtering: the diagnostic, the new state, and whether the firing goes on.
\<close>

definition weak_filter ::
  "evaluate_return \<Rightarrow> node_state \<Rightarrow> pull_set \<Rightarrow> prsim_state \<Rightarrow> (error_policy_enum \<times> bool \<times> prsim_state) option" where
  "weak_filter r n p s =
     (let is_weak = rule_is_weak (er_root_rule r); dir = direction (er_root_rule r); ei = event_index n in
      if weak_rules_enabled s then
        (if pending_event n then do {
           e \<leftarrow> get_event s ei;
           if ev_is_weak e \<and> \<not> is_weak \<and> er_root_pull r \<noteq> PULL_OFF then do {
             s1 \<leftarrow> kill_event ei (er_node_index r) s;
             Some (if ev_val e \<noteq> LOGIC_OTHER
                   then worse_policy ERROR_NONE (report_instability (er_root_pull r = PULL_WEAK) False e s)
                   else ERROR_NONE, True, s1) }
           else Some (ERROR_NONE, \<not> (\<not> ev_is_weak e \<and> is_weak), s) }
         else if is_weak \<and> \<not> normal_rules_off p then Some (ERROR_NONE, weak_firing_preserved dir p, s)
         else Some (ERROR_NONE, True, s))
      else Some (ERROR_NONE, \<not> is_weak, s))"

definition propagate_evaluation ::
  "(node_index_type \<Rightarrow> value_enum \<Rightarrow> prsim_state \<Rightarrow> prsim_state option) \<Rightarrow> sim_env \<Rightarrow> event_cause
    \<Rightarrow> expr_index_type \<Rightarrow> pull_enum \<Rightarrow> prsim_state \<Rightarrow> (error_policy_enum \<times> prsim_state) option" where
  "propagate_evaluation set_now env c exi prev s = do {
     (ev_result, s1) \<leftarrow> evaluate env exi prev (pull_of_value (cause_val c)) s;
     case ev_result of
       None \<Rightarrow> Some (ERROR_NONE, s1)
     | Some r \<Rightarrow> do {
         INVARIANT (er_root_rule_index r \<noteq> INVALID_RULE_INDEX);
         let ui = er_node_index r;
         n \<leftarrow> get_node s1 ui;
         if is_atomic n then do {
           s2 \<leftarrow> set_now ui (value_of_pull (er_root_pull r)) (s1\<lparr>updated_nodes := [], updated_nodes_queue := []\<rparr>);
           Some (ERROR_NONE, s2\<lparr>updated_nodes := updated_nodes s1, updated_nodes_queue := updated_nodes_queue s1\<rparr>) }
         else if is_frozen n then Some (ERROR_NONE, s1)
         else do {
           let p = pull_set_of n (weak_rules_enabled s1);
           let s2 = (if keeper_check_fail_policy (policies s1) > ERROR_IGNORE \<and> state_holding p
                     then s1\<lparr>keeper_check_candidates := set_insert ui (keeper_check_candidates s1)\<rparr> else s1);
           (err, proceed, s3) \<leftarrow> weak_filter r n p s2;
           Some (err, if proceed then enter_updated r p s3 else s3) } } }"

text \<open>The loop over the fanout of a node.\<close>

fun propagate_fanout ::
  "(node_index_type \<Rightarrow> value_enum \<Rightarrow> prsim_state \<Rightarrow> prsim_state option) \<Rightarrow> sim_env \<Rightarrow> event_cause
    \<Rightarrow> expr_index_type list \<Rightarrow> pull_enum \<Rightarrow> prsim_state \<Rightarrow> prsim_state option" where
  "propagate_fanout set_now env c [] prev s = Some s"
| "propagate_fanout set_now env c (exi # exis) prev s = do {
     (E, s1) \<leftarrow> propagate_evaluation set_now env c exi prev s;
     propagate_fanout set_now env c exis prev (if E \<ge> ERROR_BREAK then stop s1 else s1) }"

section \<open>Invariants, keeper checks\<close>

text \<open>A policy decides whether to stop, and whether to record an exception as well.\<close>

definition handle_policy :: "error_policy_enum \<Rightarrow> step_exception \<Rightarrow> prsim_state \<Rightarrow> prsim_state" where
  "handle_policy E x s =
     (if E \<ge> ERROR_BREAK then
        (if E \<ge> ERROR_INTERACTIVE then record_exception x (stop s) else stop s)
      else s)"

definition diagnose_invariant :: "pull_enum \<Rightarrow> prsim_state \<Rightarrow> error_policy_enum" where
  "diagnose_invariant next s =
     (if next = PULL_OFF then invariant_fail_policy (policies s)
      else if next = PULL_WEAK then invariant_unknown_policy (policies s) else ERROR_NONE)"

definition handle_invariants :: "event_cause \<Rightarrow> prsim_state \<Rightarrow> prsim_state" where
  "handle_invariants c s =
     fold (\<lambda>(rr, next) t. handle_policy (diagnose_invariant next t)
             (invariant_exception (cause_node c) (diagnose_invariant next t)) t)
       (invariant_update_map s) s"

fun any_pending :: "prsim_state \<Rightarrow> node_index_type list \<Rightarrow> bool option" where
  "any_pending s [] = Some False"
| "any_pending s (i # is) = do { n \<leftarrow> get_node s i; if pending_event n then Some True else any_pending s is }"

definition check_floating_node ::
  "sim_env \<Rightarrow> node_index_type \<Rightarrow> node_index_type \<Rightarrow> prsim_state \<Rightarrow> bool option" where
  "check_floating_node env ni inn s = do {
     n \<leftarrow> get_node s ni;
     let p = pull_set_of n (weak_rules_enabled s);
     if state_holding p then do {
       have_pending \<leftarrow> any_pending s (feedback_feedthrough env inn ni);
       Some (\<not> have_pending) }
     else Some False }"

fun floating_candidates ::
  "sim_env \<Rightarrow> node_index_type \<Rightarrow> node_index_type list \<Rightarrow> prsim_state \<Rightarrow> node_index_type list option" where
  "floating_candidates env ni [] s = Some []"
| "floating_candidates env ni (k # ks) s = do {
     n \<leftarrow> get_node s k;
     bad \<leftarrow> (if has_fanin n then check_floating_node env k ni s else Some False);
     rest \<leftarrow> floating_candidates env ni ks s;
     Some (if bad then k # rest else rest) }"

definition handle_keeper_checks :: "sim_env \<Rightarrow> node_index_type \<Rightarrow> prsim_state \<Rightarrow> prsim_state option" where
  "handle_keeper_checks env ni s = do {
     bad \<leftarrow> floating_candidates env ni (keeper_check_candidates s) s;
     let E = keeper_check_fail_policy (policies s);
     Some (if bad \<noteq> [] then handle_policy E (generic_exception ni E) s else s) }"

section \<open>execute\_immediately\<close>

text \<open>The trace and VCD managers number the events they record; the last number is the critical index.\<close>

definition trace_event :: "sim_env \<Rightarrow> prsim_state \<Rightarrow> nat \<times> prsim_state" where
  "trace_event env s =
     (let (critical, s1) = (if is_tracing s then (trace_event_index env (oracle_pos s), s\<lparr>oracle_pos := oracle_pos s + 1\<rparr>)
                            else (0, s))
      in if is_tracing_vcd s1 then (trace_event_index env (oracle_pos s1), s1\<lparr>oracle_pos := oracle_pos s1 + 1\<rparr>)
         else (critical, s1))"

text \<open>The destructor of \<^verbatim>\<open>event_deallocator\<close>; an event that bypassed the queue has no index.\<close>

definition drop_event :: "node_index_type \<Rightarrow> event_index_type \<Rightarrow> prsim_state \<Rightarrow> prsim_state option" where
  "drop_event ni pei s = (if pei = INVALID_EVENT_INDEX then Some s else deallocate_event ni pei s)"

text \<open>
  The exclusion check: \<^term>\<open>Inl\<close> when the event is not executed (it went back to the queue),
  \<^term>\<open>Inr\<close> when execution goes on.
\<close>

definition execute_excl_check ::
  "node_index_type \<Rightarrow> node_state \<Rightarrow> value_enum \<Rightarrow> value_enum \<Rightarrow> time_type \<Rightarrow> prsim_state
    \<Rightarrow> (prsim_state + prsim_state) option" where
  "execute_excl_check ni n prev val ept s =
     (if checking_excl s then do {
        (exex, s1) \<leftarrow> check_excl_rings ni n prev val s;
        case exex of
          None \<Rightarrow> Some (Inr s1)
        | Some (ty, li, nd) \<Rightarrow>
            (let E = excl_check_fail_policy (policies s1) in
             if E = ERROR_BREAK then Some (Inr (nocheck_excl (stop s1)))
             else if E = ERROR_WARN \<or> E = ERROR_IGNORE then Some (Inr (nocheck_excl s1))
             else do {
               s2 \<leftarrow> (if event_index n \<noteq> INVALID_EVENT_INDEX then enqueue_event ept (event_index n) s1 else Some s1);
               Some (Inl (record_exception (excl_exception ty li nd) s2)) }) }
      else Some (Inr s))"

definition execute_timing_checks ::
  "sim_env \<Rightarrow> node_index_type \<Rightarrow> node_state \<Rightarrow> value_enum \<Rightarrow> prsim_state \<Rightarrow> prsim_state" where
  "execute_timing_checks env ni n val s =
     (let setup = (if has_setup_check n then timing_check env (oracle_pos s) True ni val else []);
          hold = (if has_hold_check n then timing_check env (oracle_pos s) False ni val else [])
      in fold (\<lambda>E t. handle_policy E (generic_exception ni E) t) (setup @ hold)
           (s\<lparr>oracle_pos := oracle_pos s + 1\<rparr>))"

text \<open>Everything after the value of the node has changed, up to the automatic flush and the keeper check.\<close>

definition execute_fanout ::
  "(node_index_type \<Rightarrow> value_enum \<Rightarrow> prsim_state \<Rightarrow> prsim_state option) \<Rightarrow> sim_env \<Rightarrow> node_index_type
    \<Rightarrow> value_enum \<Rightarrow> event_cause \<Rightarrow> time_type \<Rightarrow> prsim_state \<Rightarrow> prsim_state option" where
  "execute_fanout set_now env ni prev new_cause ept s = do {
     n \<leftarrow> get_node s ni;
     let (order, s1) = (if eval_ordering_is_random s
                        then (shuffle_fanout env (oracle_pos s) (fanout n), s\<lparr>oracle_pos := oracle_pos s + 1\<rparr>)
                        else (fanout n, s));
     let saved = invariant_update_map s1;
     s2 \<leftarrow> propagate_fanout set_now env new_cause order (pull_of_value prev)
            (s1\<lparr>keeper_check_candidates := [], invariant_update_map := []\<rparr>);
     let s3 = (handle_invariants new_cause s2)\<lparr>invariant_update_map := saved\<rparr>;
     n3 \<leftarrow> get_node s3 ni;
     s4 \<leftarrow> (if in_channel n3 then do {
              let evs = channel_process_node env (oracle_pos s3) ni prev (cause_val new_cause);
              (E, t) \<leftarrow> flush_channel_events env new_cause evs ERROR_NONE (s3\<lparr>oracle_pos := oracle_pos s3 + 1\<rparr>);
              Some (handle_policy E (generic_exception ni E) t) }
            else Some s3);
     s5 \<leftarrow> (if has_mk_exclhi n3 then enforce_exclhi new_cause prev s4 else Some s4);
     s6 \<leftarrow> (if has_mk_excllo n3 then enforce_excllo new_cause prev s5 else Some s5);
     (E, s7) \<leftarrow> flush_updated_nodes env new_cause ept s6;
     let s8 = handle_policy E (generic_exception ni E) s7;
     if keeper_check_fail_policy (policies s8) > ERROR_IGNORE then handle_keeper_checks env ni s8 else Some s8 }"

text \<open>
  \<^verbatim>\<open>step\<close>, over a function that executes an event; the index overload of \<^verbatim>\<open>execute_immediately\<close> is
  \<open>execute_index\<close>.
\<close>

type_synonym executor = "event \<Rightarrow> time_type \<Rightarrow> prsim_state \<Rightarrow> (step_return \<times> prsim_state) option"

definition execute_index :: "executor \<Rightarrow> event_index_type \<Rightarrow> time_type \<Rightarrow> prsim_state \<Rightarrow> (step_return \<times> prsim_state) option" where
  "execute_index ex ei ept s =
     (if ei = INVALID_EVENT_INDEX then Some ((INVALID_NODE_INDEX, INVALID_NODE_INDEX), s)
      else do {
        pe \<leftarrow> get_event s ei;
        n \<leftarrow> get_node s (ev_node pe);
        INVARIANT (pending_event n);
        INVARIANT (event_index n = ei);
        ex pe ept s })"

definition step_with :: "executor \<Rightarrow> sim_env \<Rightarrow> prsim_state \<Rightarrow> (step_return \<times> prsim_state) option" where
  "step_with ex env s =
     (let s0 = s\<lparr>atomic_updated_nodes := Map.empty\<rparr> in
      if eq_empty (event_queue s0) then Some ((INVALID_NODE_INDEX, INVALID_NODE_INDEX), s0)
      else do {
        (ep, s1) \<leftarrow> dequeue_event env s0;
        execute_index ex (ep_index ep) (ep_time ep) (s1\<lparr>current_time := ep_time ep\<rparr>) })"

definition set_node_immediately_with :: "executor \<Rightarrow> bool \<Rightarrow> node_index_type \<Rightarrow> value_enum \<Rightarrow> prsim_state \<Rightarrow> prsim_state option" where
  "set_node_immediately_with ex frc ni val s = do {
     let e = Event_default\<lparr>ev_node := ni, ev_val := val\<rparr>;
     let e = (if frc then force e else e);
     n \<leftarrow> get_node s ni;
     INVARIANT (event_index n = INVALID_EVENT_INDEX);
     (r, s1) \<leftarrow> ex e (current_time s) s;
     Some s1 }"

definition execute_body :: "executor \<Rightarrow> sim_env \<Rightarrow> event \<Rightarrow> time_type \<Rightarrow> prsim_state \<Rightarrow> (step_return \<times> prsim_state) option" where
  "execute_body ex env pe ept s = do {
     INVARIANT (updated_nodes s = []);
     INVARIANT (updated_nodes_queue s = []);
     INVARIANT (mk_excl_blocking_set s = []);
     let s0 = s\<lparr>recent_exceptions := []\<rparr>;
     let ni = ev_node pe;
     n \<leftarrow> get_node s0 ni;
     let prev = node_value n;
     let val = ev_val pe;
     let (critical, s1) = trace_event env s0;
     let ci = cause_node (ev_cause pe);
     let pei = event_index n;
     if val = LOGIC_OTHER \<and> prev = LOGIC_OTHER then do {
       s2 \<leftarrow> drop_event ni pei s1;
       Some ((ni, ci), s2) }
     else if dequeue_unstable_events s1 \<and> prev = val then
       (if stopping_on_vacuous_events s1 then do {
          s2 \<leftarrow> drop_event ni pei s1;
          Some ((INVALID_NODE_INDEX, INVALID_NODE_INDEX), s2) }
        else do {
          (r, s2) \<leftarrow> step_with ex env s1;
          s3 \<leftarrow> drop_event ni pei s2;
          Some (r, s3) })
     else do {
       INVARIANT (dequeue_unstable_events s1 \<or> prev \<noteq> val \<or> forced pe);
       chk \<leftarrow> execute_excl_check ni n prev val ept s1;
       case chk of
         Inl s2 \<Rightarrow> Some ((INVALID_NODE_INDEX, INVALID_NODE_INDEX), s2)
       | Inr s2 \<Rightarrow> do {
           let s3 = execute_timing_checks env ni n val s2;
           let n' = (set_value_and_cause val (ev_cause pe) ept n)
                      \<lparr>tcount := (if val \<noteq> LOGIC_OTHER then tcount n + 1 else tcount n)\<rparr>;
           s4 \<leftarrow> drop_event ni pei (put_node s3 ni n');
           let new_cause = EventCause_new ni val critical;
           s5 \<leftarrow> execute_fanout (set_node_immediately_with ex False) env ni prev new_cause ept s4;
           Some ((ni, ci), s5) } } }"

primrec execute_event :: "nat \<Rightarrow> sim_env \<Rightarrow> executor" where
  "execute_event 0 env = (\<lambda>pe ept s. None)"
| "execute_event (Suc k) env = execute_body (execute_event k env) env"

definition step :: "nat \<Rightarrow> sim_env \<Rightarrow> prsim_state \<Rightarrow> (step_return \<times> prsim_state) option" where
  "step fuel env s = step_with (execute_event fuel env) env s"

definition set_node_immediately ::
  "nat \<Rightarrow> sim_env \<Rightarrow> node_index_type \<Rightarrow> value_enum \<Rightarrow> bool \<Rightarrow> prsim_state \<Rightarrow> prsim_state option" where
  "set_node_immediately fuel env ni val frc s = set_node_immediately_with (execute_event fuel env) frc ni val s"

text \<open>\<^verbatim>\<open>cycle\<close> runs until the queue is empty, a breakpoint is hit or the simulation is stopped.\<close>

fun cycle :: "nat \<Rightarrow> nat \<Rightarrow> sim_env \<Rightarrow> prsim_state \<Rightarrow> (step_return \<times> prsim_state) option" where
  "cycle 0 fuel env s = None"
| "cycle (Suc m) fuel env s = do {
     (ret, s1) \<leftarrow> step fuel env s;
     if fst ret = INVALID_NODE_INDEX then Some (ret, s1)
     else do {
       n \<leftarrow> get_node s1 (fst ret);
       if is_breakpoint n \<or> stopped s1 then Some (ret, s1) else cycle m fuel env s1 } }"

section \<open>Initialization\<close>

definition process_initialize :: "process_graph list \<Rightarrow> process_sim_state \<Rightarrow> process_sim_state option" where
  "process_initialize graphs ps = do {
     g \<leftarrow> nth_opt graphs (ps_type ps);
     Some (ps\<lparr>expr_states := map expr_state_initialize (expr_pool g)\<rparr>) }"

fun flush_event_queue :: "time_type event_queue \<Rightarrow> prsim_state \<Rightarrow> prsim_state option" where
  "flush_event_queue [] s = Some (s\<lparr>event_queue := []\<rparr>)"
| "flush_event_queue (p # ps) s = do {
     q \<leftarrow> pool_deallocate (event_pool s) (ep_index p);
     flush_event_queue ps (s\<lparr>event_pool := q, event_queue := ps\<rparr>) }"

text \<open>Nodes and expressions to X, event queue and pool to empty, check locks to free.\<close>

definition clear_state :: "bool \<Rightarrow> bool \<Rightarrow> prsim_state \<Rightarrow> prsim_state option" where
  "clear_state startup reset_count s = do {
     let f = (if startup then node_reset else if reset_count then node_initialize else x_value_and_cause);
     psa \<leftarrow> those (map (process_initialize (unique_process_pool s)) (process_state_array s));
     let s1 = s\<lparr>node_pool := map f (node_pool s), process_state_array := psa\<rparr>;
     s2 \<leftarrow> flush_event_queue (event_queue s1) s1;
     INVARIANT (check_valid_empty (event_pool s2));
     Some (s2\<lparr>check_exhi_ring_pool := map (\<lambda>_. False) (check_exhi_ring_pool s2),
              check_exlo_ring_pool := map (\<lambda>_. False) (check_exlo_ring_pool s2)\<rparr>) }"

text \<open>\<^verbatim>\<open>__initialize_state\<close>; \<open>gi\<close> and \<open>vi\<close> are the indices of the supply nodes, which the module gives.\<close>

definition initialize_state ::
  "nat \<Rightarrow> nat \<Rightarrow> sim_env \<Rightarrow> node_index_type \<Rightarrow> node_index_type \<Rightarrow> bool \<Rightarrow> bool \<Rightarrow> prsim_state \<Rightarrow> prsim_state option" where
  "initialize_state m fuel env gi vi startup reset_count s = do {
     s1 \<leftarrow> clear_state startup reset_count s;
     INVARIANT (gi \<noteq> INVALID_NODE_INDEX);
     INVARIANT (vi \<noteq> INVALID_NODE_INDEX);
     (st, s2) \<leftarrow> set_node gi LOGIC_LOW False s1;
     (st', s3) \<leftarrow> set_node vi LOGIC_HIGH False s2;
     (r, s4) \<leftarrow> cycle m fuel env s3;
     Some s4 }"

definition initialize_time :: "prsim_state \<Rightarrow> prsim_state" where
  "initialize_time s = s\<lparr>current_time := 0\<rparr>"

definition x_all :: "nat \<Rightarrow> nat \<Rightarrow> sim_env \<Rightarrow> node_index_type \<Rightarrow> node_index_type \<Rightarrow> prsim_state \<Rightarrow> prsim_state option" where
  "x_all m fuel env gi vi s = initialize_state m fuel env gi vi False False s"

definition initialize :: "nat \<Rightarrow> nat \<Rightarrow> sim_env \<Rightarrow> node_index_type \<Rightarrow> node_index_type \<Rightarrow> prsim_state \<Rightarrow> prsim_state option" where
  "initialize m fuel env gi vi s = do {
     s1 \<leftarrow> initialize_state m fuel env gi vi False True (initialize_time s);
     INVARIANT (is_zero (current_time s1));
     Some (s1\<lparr>sim_flags := sim_flags s1 AND NOT FLAG_STOP_SIMULATION\<rparr>) }"

text \<open>The loop of \<^verbatim>\<open>unwatch_all_nodes\<close> starts after the first slot of the pool.\<close>

definition unwatch_all_nodes :: "prsim_state \<Rightarrow> prsim_state" where
  "unwatch_all_nodes s =
     s\<lparr>node_pool := (case node_pool s of [] \<Rightarrow> [] | n0 # ns \<Rightarrow> n0 # map clear_watchpoint ns)\<rparr>"

definition reset :: "nat \<Rightarrow> nat \<Rightarrow> sim_env \<Rightarrow> node_index_type \<Rightarrow> node_index_type \<Rightarrow> prsim_state \<Rightarrow> prsim_state option" where
  "reset m fuel env gi vi s = do {
     s1 \<leftarrow> initialize_state m fuel env gi vi True True (initialize_time s);
     INVARIANT (is_zero (current_time s1));
     let s2 = s1\<lparr>sim_flags := FLAGS_DEFAULT, policies := error_policies_default,
                 timing_params := (timing_params s1)\<lparr>timing_mode := TIMING_DEFAULT, uniform_delay := default_delay\<rparr>\<rparr>;
     Some (clear_all_breakpoints (unwatch_all_nodes s2)) }"

end
