(* ===== verification/Eval_Ok.thy ===== *)
theory Eval_Ok
  imports Prs_Eval
begin

text \<open>
  The counters kept by \<^verbatim>\<open>evaluate_kernel\<close> are consistent with the pulls of all children, and the pull of
  every expression is the three-valued evaluation of its tree. A leaf occurrence is a child position of an
  expression; \<open>val\<close> gives the pull of each of them.
\<close>

section \<open>Expression graphs\<close>

type_synonym leaf_values = "expr_index_type \<Rightarrow> nat \<Rightarrow> pull_enum"

fun expr_depth :: "nat \<Rightarrow> expr list \<Rightarrow> expr_index_type \<Rightarrow> nat option" where
  "expr_depth 0 pool i = None"
| "expr_depth (Suc k) pool i = do {
     e \<leftarrow> nth_opt pool i;
     if is_root e then Some 0 else map_option Suc (expr_depth k pool (expr_parent e)) }"

text \<open>
  The graph is a forest: every parent chain ends in a root, and the child lists of
  \<^verbatim>\<open>expr_graph_node_pool\<close> agree with the parent links of \<^verbatim>\<open>expr_pool\<close>.
\<close>

definition graph_ok :: "process_graph \<Rightarrow> bool" where
  "graph_ok g \<longleftrightarrow> length (expr_graph_node_pool g) = length (expr_pool g) \<and>
     (\<forall>i < length (expr_pool g). 
        expr_depth (length (expr_pool g)) (expr_pool g) i \<noteq> None \<and>
        length (children (expr_graph_node_pool g ! i)) = unat (expr_size (expr_pool g ! i)) \<and>
        (\<not> is_root (expr_pool g ! i) \<longrightarrow>
           expr_parent (expr_pool g ! i) < length (expr_pool g) \<and>
           unat (offset (expr_graph_node_pool g ! i))
             < length (children (expr_graph_node_pool g ! expr_parent (expr_pool g ! i))) \<and>
           children (expr_graph_node_pool g ! expr_parent (expr_pool g ! i))
             ! unat (offset (expr_graph_node_pool g ! i)) = (False, i)) \<and>
        (\<forall>k < length (children (expr_graph_node_pool g ! i)). \<forall>j.
           children (expr_graph_node_pool g ! i) ! k = (False, j) \<longrightarrow>
             j < length (expr_pool g) \<and> \<not> is_root (expr_pool g ! j) \<and>
             expr_parent (expr_pool g ! j) = i \<and> unat (offset (expr_graph_node_pool g ! j)) = k))"

definition expr_pull_of :: "process_graph \<Rightarrow> expr_state list \<Rightarrow> expr_index_type \<Rightarrow> pull_enum" where
  "expr_pull_of g us i = pull_state (us ! i) (expr_pool g ! i)"

definition child_pull :: "process_graph \<Rightarrow> leaf_values \<Rightarrow> expr_state list \<Rightarrow> expr_index_type \<Rightarrow> nat \<Rightarrow> pull_enum" where
  "child_pull g val us i k =
     (let c = children (expr_graph_node_pool g ! i) ! k in
      if fst c then val i k else expr_pull_of g us (snd c))"

definition child_pulls :: "process_graph \<Rightarrow> leaf_values \<Rightarrow> expr_state list \<Rightarrow> expr_index_type \<Rightarrow> pull_enum list" where
  "child_pulls g val us i = map (child_pull g val us i) [0..<length (children (expr_graph_node_pool g ! i))]"

definition states_ok :: "process_graph \<Rightarrow> leaf_values \<Rightarrow> expr_state list \<Rightarrow> bool" where
  "states_ok g val us \<longleftrightarrow> length us = length (expr_pool g) \<and>
     (\<forall>i < length us. counts_ok (expr_pool g ! i) (us ! i) (child_pulls g val us i))"

text \<open>
  In the middle of the propagation the child \<open>k\<close> of \<open>ui\<close> already has its new pull, and the counters of
  \<open>ui\<close> still account for the pull \<open>prev\<close>.
\<close>

definition states_pending :: "process_graph \<Rightarrow> leaf_values \<Rightarrow> expr_index_type \<Rightarrow> nat \<Rightarrow> pull_enum \<Rightarrow> expr_state list \<Rightarrow> bool" where
  "states_pending g val ui k prev us \<longleftrightarrow> length us = length (expr_pool g) \<and>
     (\<forall>i < length us. counts_ok (expr_pool g ! i) (us ! i)
        (if i = ui then (child_pulls g val us i)[k := prev] else child_pulls g val us i))"

lemma length_child_pulls [simp]: "length (child_pulls g val us i) = length (children (expr_graph_node_pool g ! i))"
  by (simp add: child_pulls_def)

lemma nth_child_pulls:
  "k < length (children (expr_graph_node_pool g ! i)) \<Longrightarrow> child_pulls g val us i ! k = child_pull g val us i k"
  by (simp add: child_pulls_def)

lemma graph_okD:
  assumes "graph_ok g" and "i < length (expr_pool g)"
  shows "expr_depth (length (expr_pool g)) (expr_pool g) i \<noteq> None"
    and "length (expr_graph_node_pool g) = length (expr_pool g)"
    and "\<not> is_root (expr_pool g ! i) \<Longrightarrow> 
      expr_parent (expr_pool g ! i) < length (expr_pool g) \<and>
      unat (offset (expr_graph_node_pool g ! i)) < length (children (expr_graph_node_pool g ! expr_parent (expr_pool g ! i))) \<and>
      children (expr_graph_node_pool g ! expr_parent (expr_pool g ! i)) ! unat (offset (expr_graph_node_pool g ! i)) = (False, i)"
    and "k < length (children (expr_graph_node_pool g ! i)) \<Longrightarrow> children (expr_graph_node_pool g ! i) ! k = (False, j) \<Longrightarrow>
      j < length (expr_pool g) \<and> \<not> is_root (expr_pool g ! j) \<and>
      expr_parent (expr_pool g ! j) = i \<and> unat (offset (expr_graph_node_pool g ! j)) = k"
  using assms unfolding graph_ok_def by blast+

lemma expr_depth_step:
  assumes "expr_depth k pool i = Some d" and "i < length pool" and "\<not> is_root (pool ! i)"
  shows "\<exists>k'. k = Suc k' \<and> expr_depth k' pool (expr_parent (pool ! i)) = Some (d - 1) \<and> 0 < d"
  using assms by (cases k) (auto simp: nth_opt_in)

lemma expr_depth_unique: "expr_depth k pool i = Some d \<Longrightarrow> expr_depth k' pool i = Some d' \<Longrightarrow> d = d'"
proof (induction k arbitrary: i d k' d')
  case (Suc k)
  show ?case
  proof (cases k')
    case 0
    with Suc.prems show ?thesis by simp
  next
    case (Suc m)
    with Suc.prems Suc.IH show ?thesis by (fastforce split: bind_splits if_splits)
  qed
qed simp

lemma parent_not_self:
  assumes "graph_ok g" and "i < length (expr_pool g)" and "\<not> is_root (expr_pool g ! i)"
  shows "expr_parent (expr_pool g ! i) \<noteq> i"
proof
  assume self: "expr_parent (expr_pool g ! i) = i"
  obtain d where d: "expr_depth (length (expr_pool g)) (expr_pool g) i = Some d"
    using graph_okD(1) [OF assms(1-2)] by blast
  from expr_depth_step [OF this assms(2,3)] self obtain k where "expr_depth k (expr_pool g) i = Some (d - 1)" "0 < d"
    by auto
  with expr_depth_unique [OF d, of k "d - 1"] show False by simp
qed

text \<open>Changing the state of \<open>ui\<close> changes the pulls of one child only: its own position below its parent.\<close>

lemma child_pulls_update:
  assumes g: "graph_ok g" and i: "i < length (expr_pool g)" and ui: "ui < length (expr_pool g)"
    and len: "length us = length (expr_pool g)"
  shows "child_pulls g val us i =
    (if \<not> is_root (expr_pool g ! ui) \<and> i = expr_parent (expr_pool g ! ui)
     then (child_pulls g val (us[ui := u]) i)[unat (offset (expr_graph_node_pool g ! ui)) := expr_pull_of g us ui]
     else child_pulls g val (us[ui := u]) i)"
proof (intro nth_equalityI)
  fix k assume k: "k < length (child_pulls g val us i)"
  then have k': "k < length (children (expr_graph_node_pool g ! i))" by simp
  obtain b j where c: "children (expr_graph_node_pool g ! i) ! k = (b, j)" by (cases "children (expr_graph_node_pool g ! i) ! k")
  show "child_pulls g val us i ! k = (if \<not> is_root (expr_pool g ! ui) \<and> i = expr_parent (expr_pool g ! ui)
     then (child_pulls g val (us[ui := u]) i)[unat (offset (expr_graph_node_pool g ! ui)) := expr_pull_of g us ui]
     else child_pulls g val (us[ui := u]) i) ! k"
  proof (cases "b \<or> j \<noteq> ui")
    case True
    have "child_pull g val (us[ui := u]) i k = child_pull g val us i k"
      using True c by (auto simp: child_pull_def expr_pull_of_def Let_def)
    moreover have "k \<noteq> unat (offset (expr_graph_node_pool g ! ui))"
      if "\<not> is_root (expr_pool g ! ui)" "i = expr_parent (expr_pool g ! ui)"
      using graph_okD(3) [OF g ui that(1)] that(2) True c by auto
    ultimately show ?thesis using k' by (auto simp: nth_child_pulls)
  next
    case False
    then have c: "children (expr_graph_node_pool g ! i) ! k = (False, ui)" using c by simp
    from graph_okD(4) [OF g i k' c] have "\<not> is_root (expr_pool g ! ui)" "expr_parent (expr_pool g ! ui) = i"
      "unat (offset (expr_graph_node_pool g ! ui)) = k" by auto
    with k' c show ?thesis by (simp add: nth_child_pulls child_pull_def)
  qed
qed simp

section \<open>Propagation\<close>

lemma states_pending_update:
  assumes g: "graph_ok g" and p: "states_pending g val ui k prev us" and ui: "ui < length (expr_pool g)"
    and k: "k < length (children (expr_graph_node_pool g ! ui))" "child_pull g val us ui k = next"
    and us': "us' = us[ui := expr_count_update (expr_pool g ! ui) prev next (us ! ui)]"
  shows "if is_root (expr_pool g ! ui) \<or> expr_pull_of g us' ui = expr_pull_of g us ui then states_ok g val us'
     else states_pending g val (expr_parent (expr_pool g ! ui)) (unat (offset (expr_graph_node_pool g ! ui)))
            (expr_pull_of g us ui) us'"
proof -
  let ?pa = "expr_parent (expr_pool g ! ui)" and ?o = "unat (offset (expr_graph_node_pool g ! ui))"
  from p have len: "length us = length (expr_pool g)" "length us' = length (expr_pool g)"
    by (simp_all add: states_pending_def us')
  note upd = child_pulls_update [OF g _ ui len(1), of _ val "expr_count_update (expr_pool g ! ui) prev next (us ! ui)", folded us']
  have self: "\<not> is_root (expr_pool g ! ui) \<Longrightarrow> ?pa \<noteq> ui" using parent_not_self [OF g ui] by blast
  have at_ui: "counts_ok (expr_pool g ! ui) (us' ! ui) (child_pulls g val us' ui)"
  proof -
    from p ui len have "counts_ok (expr_pool g ! ui) (us ! ui) ((child_pulls g val us ui)[k := prev])"
      unfolding states_pending_def by metis
    from counts_ok_update [OF this, of k prev "next"] k
    have "counts_ok (expr_pool g ! ui) (us' ! ui) ((child_pulls g val us ui)[k := next])"
      using ui len by (simp add: us')
    moreover have "(child_pulls g val us ui)[k := next] = child_pulls g val us ui"
      using k by (simp add: list_update_same_conv nth_child_pulls)
    moreover have "child_pulls g val us ui = child_pulls g val us' ui" using upd [OF ui] self by auto
    ultimately show ?thesis by simp
  qed
  have other: "counts_ok (expr_pool g ! i) (us' ! i) (child_pulls g val us i)"
    if "i < length us" "i \<noteq> ui" for i
  proof -
    from p that have "counts_ok (expr_pool g ! i) (us ! i) (child_pulls g val us i)"
      unfolding states_pending_def by metis
    with that(2) show ?thesis by (simp add: us')
  qed
  show ?thesis
  proof (cases "is_root (expr_pool g ! ui) \<or> expr_pull_of g us' ui = expr_pull_of g us ui")
    case True
    have "child_pulls g val us i = child_pulls g val us' i" if "i < length us" for i
    proof (cases "\<not> is_root (expr_pool g ! ui) \<and> i = ?pa")
      case pa: True
      with True have eq: "expr_pull_of g us' ui = expr_pull_of g us ui" by blast
      from graph_okD(3) [OF g ui] pa have "?o < length (children (expr_graph_node_pool g ! i))"
        "children (expr_graph_node_pool g ! i) ! ?o = (False, ui)" by auto
      then have "child_pulls g val us' i ! ?o = expr_pull_of g us ui"
        by (simp add: nth_child_pulls child_pull_def eq)
      with upd [of i] that pa len show ?thesis by (metis list_update_id)
    qed (use upd [of i] that len in auto)
    with at_ui other len True show ?thesis by (auto simp: states_ok_def)
  next
    case False
    have "counts_ok (expr_pool g ! i) (us' ! i)
        (if i = ?pa then (child_pulls g val us' i)[?o := expr_pull_of g us ui] else child_pulls g val us' i)"
      if "i < length us'" for i
    proof (cases "i = ui")
      case True
      with at_ui self False show ?thesis by simp
    next
      case ne: False
      from other [OF _ ne] upd [of i] that len False show ?thesis by (simp split: if_splits)
    qed
    with False len show ?thesis by (simp add: states_pending_def)
  qed
qed

text \<open>
  The loop, started at an expression with a pending child, ends with consistent counters. When it
  reports a root, the reported pulls are the pulls of that root before and after; otherwise no root changed.
\<close>

definition roots_same :: "process_graph \<Rightarrow> expr_state list \<Rightarrow> expr_state list \<Rightarrow> expr_index_type set \<Rightarrow> bool" where
  "roots_same g us us' R \<longleftrightarrow> (\<forall>i < length (expr_pool g). is_root (expr_pool g ! i) \<longrightarrow> i \<notin> R \<longrightarrow> us' ! i = us ! i)"

definition propagated :: "process_graph \<Rightarrow> leaf_values \<Rightarrow> expr_state list \<Rightarrow> expr_state list \<Rightarrow> eval_info \<Rightarrow> bool" where
  "propagated g val us us' ei \<longleftrightarrow> states_ok g val us' \<and>
     (if terminate_propagation ei
      then \<forall>i < length (expr_pool g). is_root (expr_pool g ! i) \<longrightarrow> expr_pull_of g us' i = expr_pull_of g us i
      else root_expr ei < length (expr_pool g) \<and> is_root (expr_pool g ! root_expr ei) \<and>
           root_node ei = expr_parent (expr_pool g ! root_expr ei) \<and>
           prev_out ei = expr_pull_of g us (root_expr ei) \<and> next_out ei = expr_pull_of g us' (root_expr ei) \<and>
           prev_out ei \<noteq> next_out ei \<and> roots_same g us us' {root_expr ei})"

lemma evaluate_loop_ok:
  assumes g: "graph_ok g" and p: "states_pending g val ui k prev us" and ui: "ui < length (expr_pool g)"
    and k: "k < length (children (expr_graph_node_pool g ! ui))" "child_pull g val us ui k = next"
    and fuel: "expr_depth n (expr_pool g) ui \<noteq> None"
  shows "\<exists>us' ei. evaluate_loop n (expr_pool g) us ui ri prev next = Some (us', ei) \<and> propagated g val us us' ei"
  using p ui k fuel
proof (induction n arbitrary: us ui k ri prev "next")
  case 0
  then show ?case by simp
next
  case (Suc n)
  let ?e = "expr_pool g ! ui"
  define us1 where "us1 = us[ui := expr_count_update ?e prev next (us ! ui)]"
  have len: "length us = length (expr_pool g)" using Suc.prems(1) by (simp add: states_pending_def)
  note upd = states_pending_update [OF g Suc.prems(1-4) us1_def]
  have loop: "evaluate_loop (Suc n) (expr_pool g) us ui ri prev next =
    (if expr_pull_of g us ui = expr_pull_of g us1 ui then
       Some (us1, \<lparr>root_node = ui, root_expr = ri, root_struct = ?e, terminate_propagation = True,
                   prev_out = prev, next_out = next\<rparr>)
     else if is_root ?e then
       Some (us1, \<lparr>root_node = expr_parent ?e, root_expr = ui, root_struct = ?e, terminate_propagation = False,
                   prev_out = expr_pull_of g us ui, next_out = expr_pull_of g us1 ui\<rparr>)
     else evaluate_loop n (expr_pool g) us1 (expr_parent ?e) ui (expr_pull_of g us ui) (expr_pull_of g us1 ui))"
    using Suc.prems(2) len by (simp add: nth_opt_in Let_def us1_def expr_pull_of_def)
  have roots: "us1 ! i = us ! i" if "i \<noteq> ui" for i using that by (simp add: us1_def)
  consider (same) "expr_pull_of g us ui = expr_pull_of g us1 ui"
    | (root) "expr_pull_of g us ui \<noteq> expr_pull_of g us1 ui" "is_root ?e"
    | (up) "expr_pull_of g us ui \<noteq> expr_pull_of g us1 ui" "\<not> is_root ?e" by blast
  then show ?case
  proof cases
    case same
    then have "expr_pull_of g us1 i = expr_pull_of g us i" for i using roots by (cases "i = ui") (simp_all add: expr_pull_of_def)
    with same upd loop show ?thesis by (simp add: propagated_def)
  next
    case root
    with upd loop roots Suc.prems(2) show ?thesis by (simp add: propagated_def roots_same_def)
  next
    case up
    note pa = graph_okD(3) [OF g Suc.prems(2) up(2)]
    have "child_pull g val us1 (expr_parent ?e) (unat (offset (expr_graph_node_pool g ! ui))) = expr_pull_of g us1 ui"
      using pa by (simp add: child_pull_def)
    moreover have "expr_depth n (expr_pool g) (expr_parent ?e) \<noteq> None"
      using Suc.prems(2,5) up(2) by (simp add: nth_opt_in)
    ultimately obtain us' ei where
      r: "evaluate_loop n (expr_pool g) us1 (expr_parent ?e) ui (expr_pull_of g us ui) (expr_pull_of g us1 ui) = Some (us', ei)"
      "propagated g val us1 us' ei"
      using Suc.IH [of "expr_parent ?e" "unat (offset (expr_graph_node_pool g ! ui))" "expr_pull_of g us ui" us1] upd up pa
      by (metis (no_types, lifting))
    have "expr_pull_of g us1 i = expr_pull_of g us i" "us1 ! i = us ! i" if "is_root (expr_pool g ! i)" for i
      using that up(2) roots [of i] by (cases "i = ui"; auto simp: expr_pull_of_def)+
    with r(2) have "propagated g val us us' ei" by (auto simp: propagated_def roots_same_def split: if_splits)
    with loop up r(1) show ?thesis by simp
  qed
qed

definition set_leaf :: "expr_index_type \<Rightarrow> nat \<Rightarrow> pull_enum \<Rightarrow> leaf_values \<Rightarrow> leaf_values" where
  "set_leaf i k v val = val(i := (val i)(k := v))"

text \<open>Changing a leaf occurrence makes its expression pending.\<close>

lemma set_leaf_pending:
  assumes "states_ok g val us" and k: "k < length (children (expr_graph_node_pool g ! ui))"
    and leaf: "fst (children (expr_graph_node_pool g ! ui) ! k)" and prev: "val ui k = prev"
  shows "states_pending g (set_leaf ui k next val) ui k prev us" "child_pull g (set_leaf ui k next val) us ui k = next"
proof -
  show "child_pull g (set_leaf ui k next val) us ui k = next" using leaf by (simp add: child_pull_def set_leaf_def)
  have "child_pulls g (set_leaf ui k next val) us i = child_pulls g val us i" if "i \<noteq> ui" for i
    using that by (simp add: child_pulls_def child_pull_def set_leaf_def Let_def)
  moreover have "(child_pulls g (set_leaf ui k next val) us ui)[k := prev] = child_pulls g val us ui"
    using k leaf prev
    by (auto intro!: nth_equalityI simp: nth_list_update nth_child_pulls child_pull_def set_leaf_def Let_def)
  ultimately show "states_pending g (set_leaf ui k next val) ui k prev us"
    using assms(1) by (auto simp: states_pending_def states_ok_def)
qed

section \<open>Trees\<close>

fun tree_value :: "nat \<Rightarrow> process_graph \<Rightarrow> leaf_values \<Rightarrow> expr_index_type \<Rightarrow> pull_enum option" where
  "tree_value 0 g val i = None"
| "tree_value (Suc n) g val i = do {
     e \<leftarrow> nth_opt (expr_pool g) i;
     c \<leftarrow> nth_opt (expr_graph_node_pool g) i;
     ps \<leftarrow> those (map (\<lambda>k. if fst (children c ! k) then Some (val i k)
                           else tree_value n g val (snd (children c ! k))) [0..<length (children c)]);
     Some (kleene_expr e ps) }"

lemma those_map_Some: "(\<And>x. x \<in> set xs \<Longrightarrow> f x = Some (h x)) \<Longrightarrow> those (map f xs) = Some (map h xs)"
  by (induction xs) auto

lemma expr_depth_bound: "expr_depth k pool i = Some d \<Longrightarrow> d < k"
proof (induction k arbitrary: i d)
  case (Suc k)
  then show ?case by (auto split: bind_splits if_splits)
qed simp

lemma child_depth:
  assumes g: "graph_ok g" and i: "i < length (expr_pool g)"
    and k: "k < length (children (expr_graph_node_pool g ! i))" "\<not> fst (children (expr_graph_node_pool g ! i) ! k)"
    and d: "expr_depth (length (expr_pool g)) (expr_pool g) i = Some d"
  shows "snd (children (expr_graph_node_pool g ! i) ! k) < length (expr_pool g)"
    "expr_depth (length (expr_pool g)) (expr_pool g) (snd (children (expr_graph_node_pool g ! i) ! k)) = Some (Suc d)"
proof -
  define j where "j = snd (children (expr_graph_node_pool g ! i) ! k)"
  have "children (expr_graph_node_pool g ! i) ! k = (False, j)" using k(2) by (simp add: j_def prod_eq_iff)
  note j = graph_okD(4) [OF g i k(1) this]
  obtain d' where d': "expr_depth (length (expr_pool g)) (expr_pool g) j = Some d'" using graph_okD(1) [OF g] j by blast
  from expr_depth_step [OF this] j obtain n where "expr_depth n (expr_pool g) i = Some (d' - 1)" "0 < d'" by auto
  with expr_depth_unique [OF d] have "d' = Suc d" by fastforce
  with j d' show "snd (children (expr_graph_node_pool g ! i) ! k) < length (expr_pool g)"
    "expr_depth (length (expr_pool g)) (expr_pool g) (snd (children (expr_graph_node_pool g ! i) ! k)) = Some (Suc d)"
    by (simp_all add: j_def)
qed

text \<open>The incremental pull of an expression is the evaluation of its tree, and the fuel is enough.\<close>

lemma tree_value_pull:
  assumes g: "graph_ok g" and ok: "states_ok g val us"
  shows "i < length (expr_pool g) \<Longrightarrow> expr_depth (length (expr_pool g)) (expr_pool g) i = Some d \<Longrightarrow>
    length (expr_pool g) \<le> n + d \<Longrightarrow> tree_value n g val i = Some (expr_pull_of g us i)"
proof (induction n arbitrary: i d)
  case 0
  with expr_depth_bound [OF 0(2)] show ?case by simp
next
  case (Suc n)
  have "(if fst (children (expr_graph_node_pool g ! i) ! k) then Some (val i k)
      else tree_value n g val (snd (children (expr_graph_node_pool g ! i) ! k))) = Some (child_pull g val us i k)"
    if "k < length (children (expr_graph_node_pool g ! i))" for k
    using child_depth [OF g Suc.prems(1) that _ Suc.prems(2)] Suc.IH Suc.prems(3) by (simp add: child_pull_def Let_def)
  then have "those (map (\<lambda>k. if fst (children (expr_graph_node_pool g ! i) ! k) then Some (val i k)
      else tree_value n g val (snd (children (expr_graph_node_pool g ! i) ! k)))
      [0..<length (children (expr_graph_node_pool g ! i))]) = Some (child_pulls g val us i)"
    unfolding child_pulls_def by (intro those_map_Some) simp
  moreover have "kleene_expr (expr_pool g ! i) (child_pulls g val us i) = expr_pull_of g us i"
    using ok Suc.prems(1) pull_state_kleene [of "expr_pool g ! i" "us ! i" "child_pulls g val us i"]
    by (simp add: states_ok_def expr_pull_of_def)
  ultimately show ?case
    using Suc.prems(1) graph_okD(2) [OF g Suc.prems(1)] by (simp add: nth_opt_in)
qed

section \<open>Nodes\<close>

lemma small_fanin_count:
  assumes "length ps = unat (n :: fanin_count)"
  shows "(of_nat (count_list ps a) :: fanin_count) = 0 \<longleftrightarrow> a \<notin> set ps"
proof -
  have "count_list ps a < 2 ^ LENGTH(64)"
    using count_list_le [of ps a] unsigned_less [of n, where 'a = nat] assms by simp
  then show ?thesis by (simp add: of_nat_word_eq_0_small count_list_0_iff)
qed

lemma fanin_pull_kleene: "fanin_ok fs ps \<Longrightarrow> fanin_pull fs = kleene_or ps"
  by (simp add: fanin_ok_def fanin_pull_def kleene_or_def small_fanin_count [of ps "fs_size fs"])

lemma fanin_ok_update:
  assumes "fanin_ok fs ps" and "i < length ps" and "ps ! i = prev"
  shows "fanin_ok (fanin_count_update prev next fs) (ps[i := next])"
  using assms by (auto simp: fanin_ok_def fanin_count_update_def bit_eqs of_nat_count_update)

interpretation fnc: pull_counter fanin_ok fanin_count_update fanin_pull kleene_or
  by unfold_locales (simp_all add: fanin_pull_kleene fanin_ok_update)

text \<open>The graph of a process, and the rules that drive a node in one direction and strength.\<close>

definition process_graph_of :: "prsim_state \<Rightarrow> process_index_type \<Rightarrow> process_graph" where
  "process_graph_of s pid = unique_process_pool s ! ps_type (process_state_array s ! pid)"

definition root_rule :: "process_graph \<Rightarrow> expr_index_type \<Rightarrow> rule option" where
  "root_rule g ri = do { lri \<leftarrow> rule_map g ri; nth_opt (rule_pool g) lri }"

definition drives :: "sim_env \<Rightarrow> prsim_state \<Rightarrow> node_index_type \<Rightarrow> bool \<Rightarrow> bool \<Rightarrow> process_index_type \<times> expr_index_type \<Rightarrow> bool" where
  "drives env s oni dir w x \<longleftrightarrow>
     (let g = process_graph_of s (fst x); e = expr_pool g ! snd x in
      is_root e \<and> nth_opt (footprint_frame_map env (fst x)) (expr_parent e) = Some oni \<and>
      (case root_rule g (snd x) of None \<Rightarrow> False
       | Some r \<Rightarrow> \<not> is_invariant r \<and> direction r = dir \<and> rule_is_weak r = w))"

definition all_exprs :: "prsim_state \<Rightarrow> (process_index_type \<times> expr_index_type) list" where
  "all_exprs s = concat (map (\<lambda>pid. map (Pair pid) [0..<length (expr_pool (process_graph_of s pid))])
     [0..<length (process_state_array s)])"

definition drivers :: "sim_env \<Rightarrow> prsim_state \<Rightarrow> node_index_type \<Rightarrow> bool \<Rightarrow> bool \<Rightarrow> (process_index_type \<times> expr_index_type) list" where
  "drivers env s oni dir w = filter (drives env s oni dir w) (all_exprs s)"

definition driver_pull :: "prsim_state \<Rightarrow> process_index_type \<times> expr_index_type \<Rightarrow> pull_enum" where
  "driver_pull s x = expr_pull_of (process_graph_of s (fst x)) (expr_states (process_state_array s ! fst x)) (snd x)"

text \<open>
  \<open>eval_struct\<close>: what the construction of the process graphs guarantees. \<open>eval_inv\<close>: all counters are
  consistent with the leaf values \<open>vals\<close>.
\<close>

definition eval_struct :: "sim_env \<Rightarrow> prsim_state \<Rightarrow> bool" where
  "eval_struct env s \<longleftrightarrow> (\<forall>pid < length (process_state_array s).
     ps_type (process_state_array s ! pid) < length (unique_process_pool s) \<and> graph_ok (process_graph_of s pid) \<and>
     (\<forall>ri < length (expr_pool (process_graph_of s pid)). is_root (expr_pool (process_graph_of s pid) ! ri) \<longrightarrow>
        (case root_rule (process_graph_of s pid) ri of None \<Rightarrow> False
         | Some r \<Rightarrow> is_invariant r \<or>
            (case nth_opt (footprint_frame_map env pid) (expr_parent (expr_pool (process_graph_of s pid) ! ri)) of None \<Rightarrow> False
             | Some oni \<Rightarrow> oni < length (node_pool s) \<and>
                 (is_atomic (node_pool s ! oni) \<longrightarrow> direction r \<and> \<not> rule_is_weak r)))))"

definition eval_inv :: "sim_env \<Rightarrow> (process_index_type \<Rightarrow> leaf_values) \<Rightarrow> prsim_state \<Rightarrow> bool" where
  "eval_inv env vals s \<longleftrightarrow> eval_struct env s \<and>
     (\<forall>pid < length (process_state_array s).
        states_ok (process_graph_of s pid) (vals pid) (expr_states (process_state_array s ! pid))) \<and>
     (\<forall>oni < length (node_pool s). \<forall>dir w.
        fanin_ok (get_pull_struct dir w (node_pool s ! oni)) (map (driver_pull s) (drivers env s oni dir w)))"

lemma distinct_concat_Pair:
  "distinct xs \<Longrightarrow> (\<And>x. distinct (f x)) \<Longrightarrow> distinct (concat (map (\<lambda>x. map (Pair x) (f x)) xs))"
  by (induction xs) (auto simp: distinct_map inj_on_def)

lemma distinct_all_exprs: "distinct (all_exprs s)"
  unfolding all_exprs_def by (rule distinct_concat_Pair) simp_all

lemma set_all_exprs:
  "(pid, ri) \<in> set (all_exprs s) \<longleftrightarrow>
   pid < length (process_state_array s) \<and> ri < length (expr_pool (process_graph_of s pid))"
  by (force simp: all_exprs_def)

lemma put_expr_states_graph [simp]:
  "process_graph_of (put_expr_states pid us s) = process_graph_of s"
  "length (process_state_array (put_expr_states pid us s)) = length (process_state_array s)"
  "node_pool (put_expr_states pid us s) = node_pool s"
  "unique_process_pool (put_expr_states pid us s) = unique_process_pool s"
proof -
  show "process_graph_of (put_expr_states pid us s) = process_graph_of s"
    by (cases "pid < length (process_state_array s)")
      (auto simp: fun_eq_iff process_graph_of_def put_expr_states_def nth_list_update list_update_beyond)
qed (simp_all add: put_expr_states_def)

lemma drivers_put_expr_states [simp]:
  "drivers env (put_expr_states pid us s) = drivers env s"
proof -
  have "drives env (put_expr_states pid us s) = drives env s" by (simp add: fun_eq_iff drives_def)
  then show ?thesis by (intro ext) (simp add: drivers_def all_exprs_def)
qed

lemma expr_states_put_expr_states:
  "pid < length (process_state_array s) \<Longrightarrow> expr_states (process_state_array (put_expr_states pid us s) ! a) =
   (if a = pid then us else expr_states (process_state_array s ! a))"
  by (simp add: put_expr_states_def nth_list_update)

lemma driver_pull_put_expr_states:
  "pid < length (process_state_array s) \<Longrightarrow> driver_pull (put_expr_states pid us s) x =
   (if fst x = pid then expr_pull_of (process_graph_of s pid) us (snd x) else driver_pull s x)"
  by (simp add: driver_pull_def expr_states_put_expr_states)

section \<open>evaluate keeps the counters consistent\<close>

lemma evaluate_kernel_ok:
  assumes inv: "eval_inv env vals s" and l: "lookup_global_expr_process s gui = Some (pid, ps)"
    and g: "g = process_graph_of s pid" and ui: "ui = local_expr_index ps gui" "ui < length (expr_pool g)"
    and k: "k < length (children (expr_graph_node_pool g ! ui))" "fst (children (expr_graph_node_pool g ! ui) ! k)"
    and prev: "vals pid ui k = prev"
  shows "pid < length (process_state_array s) \<and> ps = process_state_array s ! pid \<and>
    (\<exists>us ei. evaluate_kernel s gui prev next = Some (pid, ei, put_expr_states pid us s) \<and>
      propagated g (set_leaf ui k next (vals pid)) (expr_states ps) us ei)"
proof -
  from l have pid: "pid < length (process_state_array s)" "ps = process_state_array s ! pid"
    by (auto simp: lookup_global_expr_process_def split: bind_splits if_splits)
  from inv pid g have ok: "graph_ok g" "states_ok g (vals pid) (expr_states ps)" "get_graph s ps = Some g"
    by (auto simp: eval_inv_def eval_struct_def get_graph_def process_graph_of_def nth_opt_in)
  note pend = set_leaf_pending [OF ok(2) k prev, of "next"]
  from evaluate_loop_ok [OF ok(1) pend(1) ui(2) k(1) pend(2) graph_okD(1) [OF ok(1) ui(2)]] obtain us ei where
    "evaluate_loop (length (expr_pool g)) (expr_pool g) (expr_states ps) ui 0 prev next = Some (us, ei)"
    "propagated g (set_leaf ui k next (vals pid)) (expr_states ps) us ei" by blast
  with pid l ok(3) ui(1) show ?thesis by (auto simp: evaluate_kernel_def)
qed

lemma map_distinct_update:
  assumes "distinct xs" and "i < length xs" and "\<And>y. y \<in> set xs \<Longrightarrow> y \<noteq> xs ! i \<Longrightarrow> f' y = f y"
  shows "map f' xs = (map f xs)[i := f' (xs ! i)]"
  using assms by (intro nth_equalityI) (auto simp: nth_list_update nth_eq_iff_index_eq)

definition nodes_fanin_ok :: "sim_env \<Rightarrow> prsim_state \<Rightarrow> node_state list \<Rightarrow> bool" where
  "nodes_fanin_ok env s ns \<longleftrightarrow> (\<forall>oni < length ns. \<forall>dir w.
     fanin_ok (get_pull_struct dir w (ns ! oni)) (map (driver_pull s) (drivers env s oni dir w)))"

lemma drivers_root: "x \<in> set (drivers env s oni dir w) \<Longrightarrow> is_root (expr_pool (process_graph_of s (fst x)) ! snd x) \<and>
   fst x < length (process_state_array s) \<and> snd x < length (expr_pool (process_graph_of s (fst x)))"
  using set_all_exprs [of "fst x" "snd x" s] by (auto simp: drivers_def drives_def Let_def)

text \<open>The pulls of the drivers of a node after a propagation in process \<open>pid\<close>.\<close>

lemma driver_pulls_same:
  assumes n: "nodes_fanin_ok env s ns" and pid: "pid < length (process_state_array s)"
    and same: "\<And>i. i < length (expr_pool (process_graph_of s pid)) \<Longrightarrow> 
      is_root (expr_pool (process_graph_of s pid) ! i) \<Longrightarrow> (pid, i) \<in> set (drivers env s oni dir w) \<Longrightarrow>
      expr_pull_of (process_graph_of s pid) us i = expr_pull_of (process_graph_of s pid) (expr_states (process_state_array s ! pid)) i"
  shows "map (driver_pull (put_expr_states pid us s)) (drivers env s oni dir w) = map (driver_pull s) (drivers env s oni dir w)"
proof (rule map_cong [OF refl])
  fix x assume x: "x \<in> set (drivers env s oni dir w)"
  from drivers_root [OF x] x same [of "snd x"] pid
  show "driver_pull (put_expr_states pid us s) x = driver_pull s x"
    by (cases x) (auto simp: expr_states_put_expr_states driver_pull_def)
qed

lemma nodes_fanin_ok_terminate:
  assumes n: "nodes_fanin_ok env s ns" and pid: "pid < length (process_state_array s)"
    and p: "propagated (process_graph_of s pid) v (expr_states (process_state_array s ! pid)) us ei" "terminate_propagation ei"
  shows "nodes_fanin_ok env (put_expr_states pid us s) ns"
proof -
  have eq: "map (driver_pull (put_expr_states pid us s)) (drivers env s oni dir w)
      = map (driver_pull s) (drivers env s oni dir w)" for oni dir w
    using p by (intro driver_pulls_same [OF n pid]) (auto simp: propagated_def)
  show ?thesis
    using n unfolding nodes_fanin_ok_def drivers_put_expr_states eq .
qed

lemma nodes_fanin_ok_invariant:
  assumes n: "nodes_fanin_ok env s ns" and pid: "pid < length (process_state_array s)"
    and p: "propagated (process_graph_of s pid) v (expr_states (process_state_array s ! pid)) us ei" "\<not> terminate_propagation ei"
    and r: "root_rule (process_graph_of s pid) (root_expr ei) = Some r" "is_invariant r"
  shows "nodes_fanin_ok env (put_expr_states pid us s) ns"
proof -
  have "(pid, root_expr ei) \<notin> set (drivers env s oni dir w)" for oni dir w
    using r by (simp add: drivers_def drives_def Let_def)
  then have eq: "map (driver_pull (put_expr_states pid us s)) (drivers env s oni dir w)
      = map (driver_pull s) (drivers env s oni dir w)" for oni dir w
    using p by (intro driver_pulls_same [OF n pid]) (auto simp: propagated_def roots_same_def expr_pull_of_def)
  show ?thesis
    using n unfolding nodes_fanin_ok_def drivers_put_expr_states eq .
qed

lemma nodes_fanin_ok_root:
  assumes n: "nodes_fanin_ok env s ns" and pid: "pid < length (process_state_array s)"
    and p: "propagated (process_graph_of s pid) v (expr_states (process_state_array s ! pid)) us ei" "\<not> terminate_propagation ei"
    and r: "root_rule (process_graph_of s pid) (root_expr ei) = Some r" "\<not> is_invariant r"
    and oni: "nth_opt (footprint_frame_map env pid) (root_node ei) = Some oni" "oni < length ns"
    and fs: "fs = get_pull_struct (direction r) (rule_is_weak r) (ns ! oni)"
  shows "nodes_fanin_ok env (put_expr_states pid us s)
    (ns[oni := set_pull_struct (direction r) (rule_is_weak r) (fanin_count_update (prev_out ei) (next_out ei) fs) (ns ! oni)])"
    (is "nodes_fanin_ok env ?s ?ns")
  unfolding nodes_fanin_ok_def
proof (intro allI impI)
  fix m dir w assume m: "m < length ?ns"
  let ?x = "(pid, root_expr ei)" and ?d = "drivers env s m dir w"
  from p have root: "root_expr ei < length (expr_pool (process_graph_of s pid))"
    "is_root (expr_pool (process_graph_of s pid) ! root_expr ei)"
    "root_node ei = expr_parent (expr_pool (process_graph_of s pid) ! root_expr ei)"
    "prev_out ei = driver_pull s ?x" "next_out ei = driver_pull ?s ?x"
    using pid by (auto simp: propagated_def expr_states_put_expr_states driver_pull_def)
  have mem: "?x \<in> set ?d \<longleftrightarrow> m = oni \<and> dir = direction r \<and> w = rule_is_weak r"
    using root pid r oni by (auto simp: drivers_def set_all_exprs drives_def Let_def)
  have other: "driver_pull ?s y = driver_pull s y" if "y \<in> set ?d" "y \<noteq> ?x" for y
    using drivers_root [OF that(1)] that(2) p pid
    by (cases y) (auto simp: expr_states_put_expr_states driver_pull_def propagated_def roots_same_def expr_pull_of_def)
  from n m have old: "fanin_ok (get_pull_struct dir w (ns ! m)) (map (driver_pull s) ?d)" by (simp add: nodes_fanin_ok_def)
  show "fanin_ok (get_pull_struct dir w (?ns ! m)) (map (driver_pull ?s) (drivers env ?s m dir w))"
  proof (cases "?x \<in> set ?d")
    case False
    with other have eq: "map (driver_pull ?s) ?d = map (driver_pull s) ?d" by (intro map_cong) auto
    have st: "get_pull_struct dir w (?ns ! m) = get_pull_struct dir w (ns ! m)"
      using False mem oni(2) by (cases "m = oni") auto
    show ?thesis unfolding drivers_put_expr_states eq st by (rule old)
  next
    case True
    then obtain i where i: "i < length ?d" "?d ! i = ?x" by (meson in_set_conv_nth)
    have "distinct ?d" by (simp add: drivers_def distinct_all_exprs)
    from map_distinct_update [OF this i(1), of "driver_pull ?s" "driver_pull s"] other i
    have "map (driver_pull ?s) ?d = (map (driver_pull s) ?d)[i := next_out ei]" by (simp add: root(5))
    moreover from fanin_ok_update [OF old, of i "prev_out ei" "next_out ei"] i
    have "fanin_ok (fanin_count_update (prev_out ei) (next_out ei) (get_pull_struct dir w (ns ! m)))
        ((map (driver_pull s) ?d)[i := next_out ei])" by (simp add: root(4))
    ultimately show ?thesis using True mem m fs by simp
  qed
qed

definition set_leaf_of ::
  "process_index_type \<Rightarrow> expr_index_type \<Rightarrow> nat \<Rightarrow> pull_enum \<Rightarrow> (process_index_type \<Rightarrow> leaf_values) \<Rightarrow> process_index_type \<Rightarrow> leaf_values" where
  "set_leaf_of pid ui k v vals = vals(pid := set_leaf ui k v (vals pid))"

lemma eval_inv_alt: "eval_inv env vals s \<longleftrightarrow> eval_struct env s \<and> nodes_fanin_ok env s (node_pool s) \<and>
     (\<forall>pid < length (process_state_array s).
        states_ok (process_graph_of s pid) (vals pid) (expr_states (process_state_array s ! pid)))"
  by (auto simp: eval_inv_def nodes_fanin_ok_def)

text \<open>Structure and node counters do not depend on the fields that bookkeeping changes.\<close>

lemma eval_struct_cong:
  assumes "unique_process_pool s' = unique_process_pool s"
    and "map ps_type (process_state_array s') = map ps_type (process_state_array s)"
    and "map is_atomic (node_pool s') = map is_atomic (node_pool s)"
  shows "eval_struct env s' = eval_struct env s"
proof -
  have len: "length (process_state_array s') = length (process_state_array s)" "length (node_pool s') = length (node_pool s)"
    using assms map_eq_imp_length_eq by blast+
  have ty: "ps_type (process_state_array s' ! i) = ps_type (process_state_array s ! i)" if "i < length (process_state_array s)" for i
    using assms(2) that len by (metis nth_map)
  have at: "is_atomic (node_pool s' ! i) = is_atomic (node_pool s ! i)" if "i < length (node_pool s)" for i
    using assms(3) that len by (metis nth_map)
  have g: "process_graph_of s' i = process_graph_of s i" if "i < length (process_state_array s)" for i
    using ty [OF that] assms(1) by (simp add: process_graph_of_def)
  show ?thesis
    unfolding eval_struct_def len assms(1)
    by (intro iff_allI imp_cong refl) (simp add: ty g at cong: conj_cong option.case_cong)
qed

lemma put_expr_states_types [simp]:
  "map ps_type (process_state_array (put_expr_states pid us s)) = map ps_type (process_state_array s)"
  by (cases "pid < length (process_state_array s)")
    (simp_all add: put_expr_states_def map_update list_update_same_conv list_update_beyond)

lemma set_pull_struct_atomic [simp]: "is_atomic (set_pull_struct d w fs n) = is_atomic n"
  by (simp add: is_atomic_def)

lemma set_pull_struct_value: "node_value (set_pull_struct d w fs n) = node_value n"
  by (simp add: set_pull_struct_def)

text \<open>What the caller learns: a node's pull in some direction and strength changed exactly if it is reported.\<close>

definition reported :: "prsim_state \<Rightarrow> evaluate_return option \<Rightarrow> prsim_state \<Rightarrow> bool" where
  "reported s ret s' \<longleftrightarrow> (\<forall>oni < length (node_pool s). \<forall>dir w.
     (case ret of
        Some r \<Rightarrow> er_node_index r = oni \<and> direction (er_root_rule r) = dir \<and> rule_is_weak (er_root_rule r) = w
      | None \<Rightarrow> False)
     \<longleftrightarrow> fanin_pull (get_pull_struct dir w (node_pool s' ! oni)) \<noteq> fanin_pull (get_pull_struct dir w (node_pool s ! oni)))"

text \<open>Evaluation changes counters only.\<close>

definition node_shape :: "node_state \<Rightarrow> node_state" where
  "node_shape n = n\<lparr>pull_up_normal := fanin_state_new, pull_up_weak := fanin_state_new,
     pull_dn_normal := fanin_state_new, pull_dn_weak := fanin_state_new\<rparr>"

definition ps_shape :: "process_sim_state \<Rightarrow> process_sim_state" where
  "ps_shape ps = ps\<lparr>expr_states := []\<rparr>"

definition eval_frame :: "prsim_state \<Rightarrow> prsim_state \<Rightarrow> bool" where
  "eval_frame s s' \<longleftrightarrow> (\<exists>psa am im ns.
     s' = s\<lparr>process_state_array := psa, atomic_updated_nodes := am, invariant_update_map := im, node_pool := ns\<rparr> \<and>
     map node_shape ns = map node_shape (node_pool s) \<and>
     map ps_shape psa = map ps_shape (process_state_array s))"

text \<open>A reported rule is a driver of the reported node, and the pulls before the change are reported with it.\<close>

definition fired_by :: "sim_env \<Rightarrow> prsim_state \<Rightarrow> evaluate_return \<Rightarrow> bool" where
  "fired_by env s r \<longleftrightarrow> er_node_index r < length (node_pool s) \<and>
     er_prev_pull r = pull_set_of (node_pool s ! er_node_index r) (weak_rules_enabled s) \<and>
     (\<exists>pid ri. pid < length (process_state_array s) \<and> ri < length (expr_pool (process_graph_of s pid)) \<and>
        is_root (expr_pool (process_graph_of s pid) ! ri) \<and>
        nth_opt (footprint_frame_map env pid) (expr_parent (expr_pool (process_graph_of s pid) ! ri)) = Some (er_node_index r) \<and>
        root_rule (process_graph_of s pid) ri = Some (er_root_rule r) \<and> \<not> is_invariant (er_root_rule r) \<and>
        er_root_rule_index r = global_expr_index (process_state_array s ! pid) ri)"

lemma eval_inv_put:
  assumes inv: "eval_inv env vals s" and pid: "pid < length (process_state_array s)"
    and ok: "states_ok (process_graph_of s pid) v us"
    and n: "nodes_fanin_ok env (put_expr_states pid us s) ns" and at: "map is_atomic ns = map is_atomic (node_pool s)"
  shows "eval_inv env (vals(pid := v)) ((put_expr_states pid us s)\<lparr>node_pool := ns\<rparr>)"
proof -
  let ?t = "(put_expr_states pid us s)\<lparr>node_pool := ns\<rparr>"
  have "process_graph_of ?t = process_graph_of (put_expr_states pid us s)"
    by (simp only: process_graph_of_def fun_eq_iff prsim_state.simps) simp
  then have t [simp]: "process_graph_of ?t = process_graph_of s" by simp
  have dp: "driver_pull ?t = driver_pull (put_expr_states pid us s)" by (simp add: fun_eq_iff driver_pull_def)
  have ds: "drivers env ?t = drivers env (put_expr_states pid us s)"
    by (intro ext) (simp add: drivers_def all_exprs_def drives_def [abs_def] del: drivers_put_expr_states)
  have "nodes_fanin_ok env ?t ns" using n unfolding nodes_fanin_ok_def dp ds .
  moreover have "eval_struct env ?t"
    using inv at by (subst eval_struct_cong [of _ s]) (simp_all add: eval_inv_def)
  ultimately show ?thesis
    using inv ok pid by (simp add: eval_inv_alt expr_states_put_expr_states)
qed

lemma eval_inv_cong:
  assumes "unique_process_pool s' = unique_process_pool s" and "process_state_array s' = process_state_array s"
    and "node_pool s' = node_pool s"
  shows "eval_inv env vals s' = eval_inv env vals s"
proof -
  have g: "process_graph_of s' = process_graph_of s" by (simp add: fun_eq_iff process_graph_of_def assms)
  have d: "drivers env s' = drivers env s"
    by (intro ext) (simp add: drivers_def all_exprs_def drives_def [abs_def] g assms)
  have p: "driver_pull s' = driver_pull s" by (simp add: fun_eq_iff driver_pull_def g assms)
  have e: "eval_struct env s' = eval_struct env s" by (rule eval_struct_cong) (simp_all add: assms)
  show ?thesis unfolding eval_inv_def e d p g assms ..
qed

lemma eval_frame_put:
  assumes "map node_shape ns = map node_shape (node_pool s)"
  shows "eval_frame s ((put_expr_states pid us s)\<lparr>node_pool := ns, atomic_updated_nodes := am, invariant_update_map := im\<rparr>)"
proof -
  let ?psa = "(process_state_array s)[pid := (process_state_array s ! pid)\<lparr>expr_states := us\<rparr>]"
  have "map ps_shape ?psa = map ps_shape (process_state_array s)"
    by (cases "pid < length (process_state_array s)")
      (simp_all add: map_update list_update_same_conv list_update_beyond ps_shape_def)
  then show ?thesis
    unfolding eval_frame_def put_expr_states_def
    by (intro exI [of _ ?psa] exI [of _ am] exI [of _ im] exI [of _ ns]) (use assms in simp)
qed

lemma node_shape_set_pull_struct [simp]: "node_shape (set_pull_struct d w fs n) = node_shape n"
  by (simp add: node_shape_def set_pull_struct_def)

lemma put_node_eval: "put_node s i n = s\<lparr>node_pool := (node_pool s)[i := n]\<rparr>"
  by (simp add: put_node_def)

text \<open>The root step, with the node, the rule and the counters it changes.\<close>

lemma evaluate_root_eq:
  assumes s: "eval_struct env s" and pid: "pid < length (process_state_array s)"
    and root: "root_expr ei < length (expr_pool (process_graph_of s pid))"
      "is_root (expr_pool (process_graph_of s pid) ! root_expr ei)"
      "root_node ei = expr_parent (expr_pool (process_graph_of s pid) ! root_expr ei)"
  obtains r where "root_rule (process_graph_of s pid) (root_expr ei) = Some r" "is_invariant r"
      "evaluate_root env pid ei s = Some (None,
         s\<lparr>invariant_update_map := rule_ref_assign (pid, root_expr ei) (next_out ei) (invariant_update_map s)\<rparr>)"
  | r oni fs fs' am where "root_rule (process_graph_of s pid) (root_expr ei) = Some r" "\<not> is_invariant r"
      "nth_opt (footprint_frame_map env pid) (root_node ei) = Some oni" "oni < length (node_pool s)"
      "fs = get_pull_struct (direction r) (rule_is_weak r) (node_pool s ! oni)"
      "fs' = fanin_count_update (prev_out ei) (next_out ei) fs"
      "evaluate_root env pid ei s = Some (if fanin_pull fs = fanin_pull fs' then None
         else Some \<lparr>er_node_index = oni, er_root_pull = fanin_pull fs',
            er_prev_pull = pull_set_of (node_pool s ! oni) (weak_rules_enabled s), er_root_rule = r,
            er_root_rule_index = global_expr_index (process_state_array s ! pid) (root_expr ei)\<rparr>,
         s\<lparr>node_pool := (node_pool s)[oni := set_pull_struct (direction r) (rule_is_weak r) fs' (node_pool s ! oni)],
           atomic_updated_nodes := am\<rparr>)"
proof -
  from s pid have g: "get_graph s (process_state_array s ! pid) = Some (process_graph_of s pid)"
    by (simp add: eval_struct_def get_graph_def process_graph_of_def nth_opt_in)
  from s pid root obtain r where r: "root_rule (process_graph_of s pid) (root_expr ei) = Some r" and
    c: "is_invariant r \<or> (\<exists>oni. nth_opt (footprint_frame_map env pid) (root_node ei) = Some oni \<and>
      oni < length (node_pool s) \<and> (is_atomic (node_pool s ! oni) \<longrightarrow> direction r \<and> \<not> rule_is_weak r))"
    by (fastforce simp: eval_struct_def split: option.splits)
  from r obtain lri where lri: "rule_map (process_graph_of s pid) (root_expr ei) = Some lri"
    "nth_opt (rule_pool (process_graph_of s pid)) lri = Some r" by (auto simp: root_rule_def split: bind_splits)
  show thesis
  proof (cases "is_invariant r")
    case True
    then show ?thesis using that(1) [OF r] g lri pid by (simp add: evaluate_root_def nth_opt_in)
  next
    case False
    with c obtain oni where oni: "nth_opt (footprint_frame_map env pid) (root_node ei) = Some oni"
      "oni < length (node_pool s)" "is_atomic (node_pool s ! oni) \<longrightarrow> direction r \<and> \<not> rule_is_weak r" by blast
    let ?n = "node_pool s ! oni"
    define am where "am = (if is_atomic ?n \<and> atomic_updated_nodes s oni = None
        then (atomic_updated_nodes s)(oni \<mapsto> node_value ?n) else atomic_updated_nodes s)"
    have "s\<lparr>atomic_updated_nodes := atomic_updated_nodes s\<rparr> = s" by simp
    then show ?thesis
      using False g lri pid oni
      by (intro that(2) [OF r False oni(1,2) refl refl, of am])
        (simp add: evaluate_root_def nth_opt_in translate_to_global_node_def Let_def put_node_def am_def
          del: nth_opt_eq_Some)
  qed
qed

lemma evaluate_spec:
  assumes inv: "eval_inv env vals s" and l: "lookup_global_expr_process s gui = Some (pid, ps)"
    and ui: "local_expr_index ps gui < length (expr_pool (process_graph_of s pid))"
    and k: "k < length (children (expr_graph_node_pool (process_graph_of s pid) ! local_expr_index ps gui))"
      "fst (children (expr_graph_node_pool (process_graph_of s pid) ! local_expr_index ps gui) ! k)"
    and prev: "vals pid (local_expr_index ps gui) k = prev"
  shows "\<exists>ret s'. evaluate env gui prev next s = Some (ret, s') \<and>
    eval_inv env (set_leaf_of pid (local_expr_index ps gui) k next vals) s' \<and> reported s ret s' \<and> eval_frame s s' \<and>
    (\<forall>r. ret = Some r \<longrightarrow> fired_by env s r)"
proof -
  let ?g = "process_graph_of s pid"
  from evaluate_kernel_ok [OF inv l refl refl ui k prev] obtain us ei where
    pid: "pid < length (process_state_array s)" "ps = process_state_array s ! pid" and
    e: "evaluate_kernel s gui prev next = Some (pid, ei, put_expr_states pid us s)" and
    p: "propagated ?g (set_leaf (local_expr_index ps gui) k next (vals pid)) (expr_states ps) us ei" by blast
  note ok = p [unfolded propagated_def, THEN conjunct1]
  from inv have n: "nodes_fanin_ok env s (node_pool s)" by (simp add: eval_inv_alt)
  note put = eval_inv_put [OF inv pid(1) ok, folded set_leaf_of_def]
  let ?t = "put_expr_states pid us s"
  have nodes: "?t\<lparr>node_pool := node_pool s\<rparr> = ?t"
    by (simp add: put_expr_states_def)
  show ?thesis
  proof (cases "terminate_propagation ei")
    case True
    have "eval_inv env (set_leaf_of pid (local_expr_index ps gui) k next vals) ?t"
      using put [OF nodes_fanin_ok_terminate [OF n pid(1) p [unfolded pid(2)] True] refl] nodes by simp
    moreover have "eval_frame s ?t"
      using eval_frame_put [where ns = "node_pool s" and s = s and pid = pid and us = us and am = "atomic_updated_nodes s" and im = "invariant_update_map s"]
      by (simp add: put_expr_states_def)
    ultimately show ?thesis using e True by (simp add: evaluate_def reported_def)
  next
    case False
    with p have root: "root_expr ei < length (expr_pool ?g)" "is_root (expr_pool ?g ! root_expr ei)"
      "root_node ei = expr_parent (expr_pool ?g ! root_expr ei)" by (simp_all add: propagated_def)
    have st: "eval_struct env ?t" using inv by (subst eval_struct_cong [of _ s]) (simp_all add: eval_inv_def)
    have tpid: "pid < length (process_state_array ?t)" using pid by simp
    show ?thesis
    proof (rule evaluate_root_eq [OF st tpid, of ei])
      show "root_expr ei < length (expr_pool (process_graph_of ?t pid))"
        "is_root (expr_pool (process_graph_of ?t pid) ! root_expr ei)"
        "root_node ei = expr_parent (expr_pool (process_graph_of ?t pid) ! root_expr ei)" using root by simp_all
    next
      fix r assume r: "root_rule (process_graph_of ?t pid) (root_expr ei) = Some r" "is_invariant r"
        and ev: "evaluate_root env pid ei ?t = Some (None,
         ?t\<lparr>invariant_update_map := rule_ref_assign (pid, root_expr ei) (next_out ei) (invariant_update_map ?t)\<rparr>)"
      let ?im = "rule_ref_assign (pid, root_expr ei) (next_out ei) (invariant_update_map ?t)"
      have "eval_inv env (set_leaf_of pid (local_expr_index ps gui) k next vals) ?t"
        using put [OF nodes_fanin_ok_invariant [OF n pid(1) p [unfolded pid(2)] False _ r(2)] refl] nodes r(1) by simp
      then have "eval_inv env (set_leaf_of pid (local_expr_index ps gui) k next vals) (?t\<lparr>invariant_update_map := ?im\<rparr>)"
        by (subst eval_inv_cong [of _ ?t]) simp_all
      moreover have "eval_frame s (?t\<lparr>invariant_update_map := ?im\<rparr>)"
        using eval_frame_put [where ns = "node_pool s" and s = s and pid = pid and us = us and am = "atomic_updated_nodes s" and im = ?im] by (simp add: put_expr_states_def)
      ultimately show ?thesis using e ev False by (simp add: evaluate_def reported_def)
    next
      fix r oni fs fs' am
      assume r: "root_rule (process_graph_of ?t pid) (root_expr ei) = Some r" "\<not> is_invariant r"
        and oni: "nth_opt (footprint_frame_map env pid) (root_node ei) = Some oni" "oni < length (node_pool ?t)"
        and fs: "fs = get_pull_struct (direction r) (rule_is_weak r) (node_pool ?t ! oni)"
          "fs' = fanin_count_update (prev_out ei) (next_out ei) fs"
        and ev: "evaluate_root env pid ei ?t = Some (if fanin_pull fs = fanin_pull fs' then None
         else Some \<lparr>er_node_index = oni, er_root_pull = fanin_pull fs',
            er_prev_pull = pull_set_of (node_pool ?t ! oni) (weak_rules_enabled ?t), er_root_rule = r,
            er_root_rule_index = global_expr_index (process_state_array ?t ! pid) (root_expr ei)\<rparr>,
         ?t\<lparr>node_pool := (node_pool ?t)[oni := set_pull_struct (direction r) (rule_is_weak r) fs' (node_pool ?t ! oni)],
           atomic_updated_nodes := am\<rparr>)"
      let ?ns = "(node_pool s)[oni := set_pull_struct (direction r) (rule_is_weak r) fs' (node_pool s ! oni)]"
      have at: "map is_atomic ?ns = map is_atomic (node_pool s)" using oni by (simp add: map_update list_update_same_conv)
      have "nodes_fanin_ok env ?t ?ns"
        using nodes_fanin_ok_root [OF n pid(1) p [unfolded pid(2)] False _ r(2) oni(1), of fs] r(1) oni(2) fs by simp
      from put [OF this at]
      have "eval_inv env (set_leaf_of pid (local_expr_index ps gui) k next vals) (?t\<lparr>node_pool := ?ns\<rparr>)" .
      then have "eval_inv env (set_leaf_of pid (local_expr_index ps gui) k next vals)
          (?t\<lparr>node_pool := ?ns, atomic_updated_nodes := am\<rparr>)"
        by (subst eval_inv_cong [of _ "?t\<lparr>node_pool := ?ns\<rparr>"]) simp_all
      moreover have "eval_frame s (?t\<lparr>node_pool := ?ns, atomic_updated_nodes := am\<rparr>)"
        using eval_frame_put [where ns = ?ns and s = s and pid = pid and us = us and am = am and im = "invariant_update_map s"] oni(2)
        by (simp add: put_expr_states_def map_update list_update_same_conv)
      moreover have "fired_by env s rt" if rt: "rt = \<lparr>er_node_index = oni, er_root_pull = fanin_pull fs',
            er_prev_pull = pull_set_of (node_pool ?t ! oni) (weak_rules_enabled ?t), er_root_rule = r,
            er_root_rule_index = global_expr_index (process_state_array ?t ! pid) (root_expr ei)\<rparr>" for rt
      proof -
        have "er_prev_pull rt = pull_set_of (node_pool s ! er_node_index rt) (weak_rules_enabled s)"
          by (simp add: rt put_expr_states_def weak_rules_enabled_def)
        moreover have "er_root_rule_index rt = global_expr_index (process_state_array s ! pid) (root_expr ei)"
          using pid(1) by (simp add: rt put_expr_states_def global_expr_index_def)
        ultimately show ?thesis
          using rt r oni root pid(1) unfolding fired_by_def by (auto simp del: nth_opt_eq_Some)
      qed
      ultimately show ?thesis
        using e ev False fs oni(2) by (auto simp: evaluate_def reported_def nth_list_update)
    qed
  qed
qed

end
