(* ===== verification/Sched_Dequeue.thy ===== *)
theory Sched_Dequeue
  imports Sched_Ops
begin

text \<open>
  \<^verbatim>\<open>dequeue_event\<close> returns: every rescheduling for a minimum delay moves an event behind all its constraints,
  so the fuel of the model is enough. The event it returns is live, earliest, and violates no minimum delay.
\<close>

section \<open>Well-formed annotations\<close>

definition frame_ok :: "prsim_state \<Rightarrow> node_index_type list \<Rightarrow> node_index_type \<Rightarrow> bool" where
  "frame_ok s bfm j \<longleftrightarrow> 0 < j \<and> j \<le> length bfm \<and> bfm ! (j - 1) < length (node_pool s)"

definition entry_ok :: "prsim_state \<Rightarrow> node_index_type list \<Rightarrow> node_index_type \<times> min_delay_entry \<Rightarrow> bool" where
  "entry_ok s bfm x \<longleftrightarrow> frame_ok s bfm (fst x) \<and>
     (\<forall>a b. md_predicate (snd x) a b \<noteq> 0 \<longrightarrow> frame_ok s bfm (md_predicate (snd x) a b))"

definition process_ok :: "sim_env \<Rightarrow> prsim_state \<Rightarrow> node_index_type \<Rightarrow> process_index_type \<Rightarrow> bool" where
  "process_ok env s ni pid \<longleftrightarrow> pid < length (process_state_array s) \<and>
     ps_type (process_state_array s ! pid) < length (unique_process_pool s) \<and>
     (\<forall>j < length (footprint_frame_map env pid). footprint_frame_map env pid ! j = ni \<longrightarrow>
        (case min_delays (unique_process_pool s ! ps_type (process_state_array s ! pid)) (j + 1) of
           None \<Rightarrow> False
         | Some f \<Rightarrow> \<forall>x \<in> set f. entry_ok s (footprint_frame_map env pid) x))"

definition annotation_ok :: "sim_env \<Rightarrow> prsim_state \<Rightarrow> bool" where
  "annotation_ok env s \<longleftrightarrow> (\<forall>ni < length (node_pool s). is_min_delay_target (node_pool s ! ni) \<longrightarrow>
     (case timing_fanin s ni of None \<Rightarrow> False | Some ptf \<Rightarrow> \<forall>pid \<in> set ptf. process_ok env s ni pid))"

section \<open>A scan is a maximum\<close>

definition max_form :: "(applied_min_delay_constraint \<Rightarrow> applied_min_delay_constraint option) \<Rightarrow> bool" where
  "max_form f \<longleftrightarrow> (\<exists>L. \<forall>ret. \<exists>r. f ret = Some r \<and> amd_time r = fold max L (amd_time ret) \<and>
     (amd_delayed r \<longleftrightarrow> amd_delayed ret \<or> amd_time ret < amd_time r))"

lemma fold_max_ge: "(t :: rat) \<le> fold max L t"
  by (induction L arbitrary: t) (auto intro: order_trans [OF max.cobounded2])

lemma fold_max_eq: "fold max L (t :: rat) = (if L = [] then t else max t (Max (set L)))"
proof (induction L arbitrary: t)
  case (Cons a L)
  then show ?case by (cases "L = []") (simp_all add: max.assoc max.commute max.left_commute)
qed simp

lemma max_form_Some: "max_form Some"
  unfolding max_form_def by (rule exI [of _ "[]"]) simp

lemma max_form_bind:
  assumes "max_form f" and "max_form g"
  shows "max_form (\<lambda>ret. f ret \<bind> g)"
proof -
  from assms obtain L M where
    L: "\<And>ret. \<exists>r. f ret = Some r \<and> amd_time r = fold max L (amd_time ret) \<and>
          (amd_delayed r \<longleftrightarrow> amd_delayed ret \<or> amd_time ret < amd_time r)" and
    M: "\<And>ret. \<exists>r. g ret = Some r \<and> amd_time r = fold max M (amd_time ret) \<and>
          (amd_delayed r \<longleftrightarrow> amd_delayed ret \<or> amd_time ret < amd_time r)"
    unfolding max_form_def by metis
  have "\<exists>r. (f ret \<bind> g) = Some r \<and> amd_time r = fold max (L @ M) (amd_time ret) \<and>
          (amd_delayed r \<longleftrightarrow> amd_delayed ret \<or> amd_time ret < amd_time r)" for ret
  proof -
    obtain r where r: "f ret = Some r" "amd_time r = fold max L (amd_time ret)"
      "amd_delayed r \<longleftrightarrow> amd_delayed ret \<or> amd_time ret < amd_time r" using L by blast
    obtain r' where "g r = Some r'" "amd_time r' = fold max M (amd_time r)"
      "amd_delayed r' \<longleftrightarrow> amd_delayed r \<or> amd_time r < amd_time r'" using M by blast
    with r fold_max_ge [of "amd_time ret" L] fold_max_ge [of "amd_time r" M] show ?thesis by force
  qed
  then show ?thesis unfolding max_form_def by blast
qed

lemma max_form_step: "max_form (\<lambda>ret. Some (if b \<and> t > amd_time ret then amd_set r t else ret))"
  unfolding max_form_def by (rule exI [of _ "if b then [t] else []"]) (auto simp: amd_set_def)

lemma get_node_frame: "frame_ok s bfm j \<Longrightarrow> \<exists>g n. frame_node bfm j = Some g \<and> get_node s g = Some n"
  by (auto simp: frame_ok_def frame_node_def get_node_def nth_opt_def)

lemma min_delay_applies_ok:
  assumes "entry_ok s bfm (ref, md)"
  shows "\<exists>b. min_delay_applies s bfm (md_predicate md a d) = Some b"
proof (cases "md_predicate md a d = 0")
  case False
  with assms have "frame_ok s bfm (md_predicate md a d)" by (simp add: entry_ok_def)
  from get_node_frame [OF this] False show ?thesis by (auto simp: min_delay_applies_def)
qed (auto simp: min_delay_applies_def)

lemma max_form_entries: "\<forall>x \<in> set es. entry_ok s bfm x \<Longrightarrow> max_form (min_delay_entries s bfm d es)"
proof (induction es)
  case Nil
  have "min_delay_entries s bfm d [] = Some" by (simp add: fun_eq_iff)
  with max_form_Some show ?case by simp
next
  case (Cons x es)
  obtain ref md where x: "x = (ref, md)" by (cases x)
  from Cons.prems x have ok: "entry_ok s bfm (ref, md)" by simp
  from ok get_node_frame [of s bfm ref] obtain grr r where
    r: "frame_node bfm ref = Some grr" "get_node s grr = Some r" by (auto simp: entry_ok_def)
  show ?case
  proof (cases "node_value r = LOGIC_OTHER")
    case True
    with x r have "min_delay_entries s bfm d (x # es) = min_delay_entries s bfm d es" by (simp add: fun_eq_iff)
    with Cons show ?thesis by simp
  next
    case False
    obtain b where b: "min_delay_applies s bfm (md_predicate md (node_value r = LOGIC_HIGH) d) = Some b"
      using min_delay_applies_ok [OF ok] by blast
    define t where "t = last_edge_time r (node_value r) + md_time md (node_value r = LOGIC_HIGH) d"
    have eq: "min_delay_entries s bfm d (x # es) =
      (\<lambda>ret. Some (if (b \<and> 0 \<le> last_edge_time r (node_value r)) \<and> t > amd_time ret then amd_set grr t else ret)
      \<bind> min_delay_entries s bfm d es)"
      using x r False b by (simp add: fun_eq_iff Let_def conj_assoc t_def)
    show ?thesis unfolding eq by (rule max_form_bind [OF max_form_step Cons.IH]) (use Cons.prems in simp)
  qed
qed

lemma max_form_aliases:
  assumes "\<forall>j \<in> set js. j < length bfm \<and> (bfm ! j = ni \<longrightarrow>
     (case min_delays g (j + 1) of None \<Rightarrow> False | Some f \<Rightarrow> \<forall>x \<in> set f. entry_ok s bfm x))"
  shows "max_form (min_delay_aliases s g bfm ni d js)"
  using assms
proof (induction js)
  case Nil
  have "min_delay_aliases s g bfm ni d [] = Some" by (simp add: fun_eq_iff)
  with max_form_Some show ?case by simp
next
  case (Cons j js)
  show ?case
  proof (cases "bfm ! j = ni")
    case False
    with Cons.prems have "min_delay_aliases s g bfm ni d (j # js) = min_delay_aliases s g bfm ni d js"
      by (simp add: fun_eq_iff nth_opt_in)
    with Cons show ?thesis by simp
  next
    case True
    with Cons.prems obtain f where f: "min_delays g (j + 1) = Some f" "\<forall>x \<in> set f. entry_ok s bfm x"
      by (auto split: option.splits)
    with True Cons.prems have "min_delay_aliases s g bfm ni d (j # js) =
        (\<lambda>ret. min_delay_entries s bfm d f ret \<bind> min_delay_aliases s g bfm ni d js)"
      by (simp add: fun_eq_iff nth_opt_in)
    with max_form_bind [OF max_form_entries [OF f(2)] Cons.IH] Cons.prems show ?thesis by simp
  qed
qed

lemma max_form_processes:
  "\<forall>pid \<in> set pids. process_ok env s ni pid \<Longrightarrow> max_form (min_delay_processes env s ni d pids)"
proof (induction pids)
  case Nil
  have "min_delay_processes env s ni d [] = Some" by (simp add: fun_eq_iff)
  with max_form_Some show ?case by simp
next
  case (Cons pid pids)
  let ?bfm = "footprint_frame_map env pid"
  let ?g = "unique_process_pool s ! ps_type (process_state_array s ! pid)"
  from Cons.prems have ok: "process_ok env s ni pid" by simp
  then have "min_delay_processes env s ni d (pid # pids) =
      (\<lambda>ret. min_delay_aliases s ?g ?bfm ni d [0..<length ?bfm] ret \<bind> min_delay_processes env s ni d pids)"
    by (simp add: fun_eq_iff process_ok_def nth_opt_in Let_def)
  moreover from ok have "max_form (min_delay_aliases s ?g ?bfm ni d [0..<length ?bfm])"
    by (intro max_form_aliases) (simp add: process_ok_def)
  ultimately show ?case using max_form_bind Cons by simp
qed

section \<open>Late events\<close>

text \<open>An event scheduled at \<open>t\<close> is late when a minimum delay asks for a later time.\<close>

definition late :: "sim_env \<Rightarrow> prsim_state \<Rightarrow> node_index_type \<Rightarrow> value_enum \<Rightarrow> time_type \<Rightarrow> bool" where
  "late env s ni v t = (case node_event_min_delay env ni v (s\<lparr>current_time := t\<rparr>) of
     Some c \<Rightarrow> amd_delayed c | None \<Rightarrow> False)"

text \<open>What the constraints read: node values and edge times, not events.\<close>

definition same_timing :: "prsim_state \<Rightarrow> prsim_state \<Rightarrow> bool" where
  "same_timing s s' \<longleftrightarrow> map clear_event (node_pool s') = map clear_event (node_pool s) \<and>
     process_state_array s' = process_state_array s \<and> unique_process_pool s' = unique_process_pool s \<and>
     timing_fanin s' = timing_fanin s"

lemma same_timing_frame: "ev_frame s s' \<Longrightarrow> same_timing s (s'\<lparr>current_time := t\<rparr>)"
  by (auto simp: ev_frame_def same_timing_def)

lemma same_timing_time [simp]: "same_timing s (s\<lparr>current_time := t\<rparr>)"
  by (simp add: same_timing_def)

lemma same_timing_node:
  assumes "same_timing s s'"
  shows "map_option clear_event (get_node s' i) = map_option clear_event (get_node s i)"
proof -
  from assms have m: "map clear_event (node_pool s') = map clear_event (node_pool s)" by (simp add: same_timing_def)
  then have "length (node_pool s') = length (node_pool s)" by (rule map_eq_imp_length_eq)
  with m show ?thesis by (simp add: get_node_def nth_opt_def) (metis nth_map)
qed

lemma clear_event_timing:
  assumes "clear_event n' = clear_event n"
  shows "node_value n' = node_value n" "last_edge_time n' = last_edge_time n"
    "is_min_delay_target n' = is_min_delay_target n"
  using arg_cong [OF assms, of last_edge_time] arg_cong [OF assms, of struct_flags] clear_event_eqD(1) [OF assms]
  by (simp_all add: clear_event_def is_min_delay_target_def)

lemma bind_same_node:
  assumes "same_timing s s'"
    and "\<And>n n'. node_value n' = node_value n \<Longrightarrow> last_edge_time n' = last_edge_time n \<Longrightarrow>
           is_min_delay_target n' = is_min_delay_target n \<Longrightarrow> f' n' = f n"
  shows "(get_node s' i \<bind> f') = (get_node s i \<bind> f)"
proof (cases "get_node s i")
  case None
  with same_timing_node [OF assms(1), of i] show ?thesis by simp
next
  case (Some n)
  with same_timing_node [OF assms(1), of i] obtain n' where
    n': "get_node s' i = Some n'" "clear_event n' = clear_event n" by (cases "get_node s' i") auto
  with assms(2) [OF clear_event_timing [OF n'(2)]] Some show ?thesis by simp
qed

lemma min_delay_applies_same:
  assumes "same_timing s s'"
  shows "min_delay_applies s' bfm i = min_delay_applies s bfm i"
proof -
  have "(get_node s' g \<bind> (\<lambda>p. Some (node_value p \<noteq> LOGIC_LOW)))
      = (get_node s g \<bind> (\<lambda>p. Some (node_value p \<noteq> LOGIC_LOW)))" for g
    by (rule bind_same_node [OF assms]) simp
  then show ?thesis by (simp add: min_delay_applies_def)
qed

lemma min_delay_entries_same:
  assumes "same_timing s s'"
  shows "min_delay_entries s' bfm d es = min_delay_entries s bfm d es"
proof (induction es)
  case Nil
  show ?case by (simp add: fun_eq_iff)
next
  case (Cons x es)
  obtain ref md where x: "x = (ref, md)" by (cases x)
  show ?case
    unfolding x min_delay_entries.simps fun_eq_iff
    by (rule allI, rule Option.bind_cong, rule refl, rule bind_same_node [OF assms])
      (simp add: Let_def min_delay_applies_same [OF assms] Cons.IH cong: if_cong)
qed

lemma min_delay_aliases_same:
  assumes "same_timing s s'"
  shows "min_delay_aliases s' g bfm ni d js = min_delay_aliases s g bfm ni d js"
proof (induction js)
  case (Cons j js)
  show ?case unfolding fun_eq_iff min_delay_aliases.simps Cons.IH min_delay_entries_same [OF assms] by simp
qed (simp add: fun_eq_iff)

lemma same_timing_fields:
  assumes "same_timing s s'"
  shows "process_state_array s' = process_state_array s" "unique_process_pool s' = unique_process_pool s"
    "timing_fanin s' = timing_fanin s"
  using assms by (simp_all add: same_timing_def)

lemma min_delay_processes_same:
  assumes "same_timing s s'"
  shows "min_delay_processes env s' ni d pids = min_delay_processes env s ni d pids"
proof (induction pids)
  case (Cons pid pids)
  show ?case
    unfolding fun_eq_iff min_delay_processes.simps Cons.IH min_delay_aliases_same [OF assms]
      same_timing_fields [OF assms] by simp
qed (simp add: fun_eq_iff)

lemma node_event_min_delay_same:
  assumes "same_timing s s'" and "current_time s' = current_time s"
  shows "node_event_min_delay env ni v s' = node_event_min_delay env ni v s"
  unfolding node_event_min_delay_def assms(2) Let_def same_timing_fields [OF assms(1)]
    min_delay_processes_same [OF assms(1)]
  by (rule bind_same_node [OF assms(1)]) simp

lemma late_same: "same_timing s s' \<Longrightarrow> late env s' ni v t = late env s ni v t"
  unfolding late_def
  by (subst node_event_min_delay_same [of "s\<lparr>current_time := t\<rparr>"]) (simp_all add: same_timing_def)

text \<open>The answer at the current time, for an event scheduled at \<open>t\<close>.\<close>

lemma node_event_min_delay_spec:
  assumes a: "annotation_ok env s" and ni: "ni < length (node_pool s)" and t: "current_time s \<le> t"
  shows "\<exists>c. node_event_min_delay env ni v s = Some c \<and> (amd_delayed c \<and> t < amd_time c \<longleftrightarrow> late env s ni v t) \<and>
    \<not> late env s ni v (amd_time c)"
proof (cases "is_min_delay_target (node_pool s ! ni) \<and> v \<noteq> LOGIC_OTHER")
  case False
  with ni show ?thesis by (auto simp: node_event_min_delay_def late_def amd_new_def)
next
  case True
  with a ni obtain ptf where p: "timing_fanin s ni = Some ptf" "\<forall>pid \<in> set ptf. process_ok env s ni pid"
    by (auto simp: annotation_ok_def split: option.splits)
  obtain L where L: "\<And>ret. \<exists>r. min_delay_processes env s ni (v = LOGIC_HIGH) ptf ret = Some r \<and>
      amd_time r = fold max L (amd_time ret) \<and> (amd_delayed r \<longleftrightarrow> amd_delayed ret \<or> amd_time ret < amd_time r)"
    using max_form_processes [OF p(2)] unfolding max_form_def by blast
  have e: "node_event_min_delay env ni v (s\<lparr>current_time := u\<rparr>) = min_delay_processes env s ni (v = LOGIC_HIGH) ptf (amd_new u)" for u
    using True ni p(1) by (simp add: node_event_min_delay_def min_delay_processes_same [OF same_timing_time])
  have late: "late env s ni v u \<longleftrightarrow> u < fold max L u" for u
    using L [of "amd_new u"] e [of u] by (auto simp: late_def amd_new_def)
  obtain c where "node_event_min_delay env ni v s = Some c" "amd_time c = fold max L (current_time s)"
    "amd_delayed c \<longleftrightarrow> current_time s < amd_time c"
    using L [of "amd_new (current_time s)"] e [of "current_time s"] by (auto simp: amd_new_def)
  moreover from t have "current_time s < fold max L (current_time s) \<and> t < fold max L (current_time s) \<longleftrightarrow> t < fold max L t"
    by (auto simp: fold_max_eq less_max_iff_disj)
  ultimately show ?thesis by (auto simp: late fold_max_eq)
qed

section \<open>Dequeueing\<close>

definition late_entry :: "sim_env \<Rightarrow> prsim_state \<Rightarrow> time_type event_placeholder \<Rightarrow> bool" where
  "late_entry env s p = (case get_event s (ep_index p) of
     Some e \<Rightarrow> \<not> killed e \<and> ev_val e \<noteq> LOGIC_OTHER \<and> late env s (ev_node e) (ev_val e) (ep_time p)
   | None \<Rightarrow> False)"

definition late_count :: "sim_env \<Rightarrow> prsim_state \<Rightarrow> nat" where
  "late_count env s = length (filter (late_entry env s) (event_queue s))"

lemma late_count_le: "late_count env s \<le> length (event_queue s)"
  by (simp add: late_count_def)

lemma annotation_ok_same:
  assumes "same_timing s s'" and "annotation_ok env s"
  shows "annotation_ok env s'"
proof -
  have len: "length (node_pool s') = length (node_pool s)"
    using assms(1) map_eq_imp_length_eq by (auto simp: same_timing_def)
  have "is_min_delay_target (node_pool s' ! ni) = is_min_delay_target (node_pool s ! ni)" if "ni < length (node_pool s)" for ni
    using same_timing_node [OF assms(1), of ni] that len
      clear_event_timing(3) [of "node_pool s' ! ni" "node_pool s ! ni"] by simp
  moreover have po: "process_ok env s' ni pid = process_ok env s ni pid" for ni pid
    unfolding process_ok_def entry_ok_def frame_ok_def len same_timing_fields [OF assms(1)] by simp
  ultimately show ?thesis
    using assms(2) unfolding annotation_ok_def po len same_timing_fields [OF assms(1)] by simp
qed

lemma late_entry_same:
  assumes "same_timing s s'" and "get_event s' (ep_index p) = get_event s (ep_index p)"
  shows "late_entry env s' p = late_entry env s p"
  unfolding late_entry_def assms(2) late_same [OF assms(1)] by simp

lemma length_filter_push: "length (filter P (eq_push p q)) = length (filter P q) + (if P p then 1 else 0)"
  by (induction q) auto

lemma length_filter_dropWhile: "(\<And>x. Q x \<Longrightarrow> \<not> P x) \<Longrightarrow> length (filter P (dropWhile Q q)) = length (filter P q)"
  by (induction q) auto

lemma flush_killed_events_spec:
  assumes "sched_inv X s"
  shows "\<exists>s'. flush_killed_events s = Some s' \<and> sched_inv X s' \<and> ev_frame s s' \<and> node_pool s' = node_pool s \<and>
    get_event s' = get_event s \<and> event_queue s' = dropWhile (\<lambda>p. killed_index s (ep_index p)) (event_queue s)"
  using flush_killed_loop_spec [OF assms refl] by (simp add: flush_killed_events_def)

text \<open>Dequeueing changes the queue and the clock; every node keeps its pending event, under a new index perhaps.\<close>

definition kept :: "prsim_state \<Rightarrow> prsim_state \<Rightarrow> bool" where
  "kept s s' \<longleftrightarrow> (\<exists>p q k ns t.
     s' = s\<lparr>event_pool := p, event_queue := q, oracle_pos := k, node_pool := ns, current_time := t\<rparr> \<and>
     map clear_event ns = map clear_event (node_pool s)) \<and> (\<forall>ni < length (node_pool s). pend s' ni = pend s ni)"

lemma pend_simps [simp]:
  "pend (s\<lparr>current_time := t\<rparr>) = pend s" "pend (s\<lparr>event_queue := q\<rparr>) = pend s"
  by (simp_all add: fun_eq_iff pend_def get_event_def)

lemma kept_timing: "kept s s' \<Longrightarrow> same_timing s s'"
  by (auto simp: kept_def same_timing_def)

lemma kept_ev_frame:
  assumes "ev_frame s s'" and "\<And>ni. ni < length (node_pool s) \<Longrightarrow> pend s' ni = pend s ni"
  shows "kept s (s'\<lparr>current_time := t\<rparr>)"
proof -
  from assms(1) obtain p q k ns where "s' = s\<lparr>event_pool := p, event_queue := q, oracle_pos := k, node_pool := ns\<rparr>"
    "map clear_event ns = map clear_event (node_pool s)" unfolding ev_frame_def by blast
  then have "s'\<lparr>current_time := t\<rparr> = s\<lparr>event_pool := p, event_queue := q, oracle_pos := k, node_pool := ns, current_time := t\<rparr> \<and>
    map clear_event ns = map clear_event (node_pool s)" by simp
  moreover have "\<forall>ni < length (node_pool s). pend (s'\<lparr>current_time := t\<rparr>) ni = pend s ni" using assms(2) by simp
  ultimately show ?thesis unfolding kept_def by blast
qed

lemma kept_trans:
  assumes "kept s s1" and "kept s1 s2"
  shows "kept s s2"
proof -
  from assms obtain p q k ns t p' q' k' ns' t' where
    1: "s1 = s\<lparr>event_pool := p, event_queue := q, oracle_pos := k, node_pool := ns, current_time := t\<rparr>"
      "map clear_event ns = map clear_event (node_pool s)" and
    2: "s2 = s1\<lparr>event_pool := p', event_queue := q', oracle_pos := k', node_pool := ns', current_time := t'\<rparr>"
      "map clear_event ns' = map clear_event (node_pool s1)" unfolding kept_def by blast
  from map_eq_imp_length_eq [OF 1(2)] 1(1) assms have "\<forall>ni < length (node_pool s). pend s2 ni = pend s ni"
    by (simp add: kept_def)
  moreover from 1 2 have "s2 = s\<lparr>event_pool := p', event_queue := q', oracle_pos := k', node_pool := ns', current_time := t'\<rparr> \<and>
    map clear_event ns' = map clear_event (node_pool s)" by simp
  ultimately show ?thesis unfolding kept_def by blast
qed

text \<open>What the caller gets: nothing when no live event is left, otherwise the event to execute.\<close>

definition dequeued :: "sim_env \<Rightarrow> nat set \<Rightarrow> prsim_state \<Rightarrow> time_type event_placeholder \<Rightarrow> prsim_state \<Rightarrow> bool" where
  "dequeued env X s p s' \<longleftrightarrow> kept s s' \<and>
     (if \<forall>x \<in> set (event_queue s). killed_index s (ep_index x)
      then ep_index p = INVALID_EVENT_INDEX \<and> event_queue s' = [] \<and> sched_inv X s'
      else ep_index p \<notin> X \<and> sched_inv (insert (ep_index p) X) s' \<and> current_time s \<le> current_time s' \<and>
        current_time s' \<le> ep_time p \<and> (\<forall>x \<in> set (event_queue s'). ep_time p \<le> ep_time x) \<and>
        (\<exists>e. get_event s' (ep_index p) = Some e \<and> \<not> killed e \<and>
           (ev_val e \<noteq> LOGIC_OTHER \<longrightarrow> \<not> late env s' (ev_node e) (ev_val e) (ep_time p))))"

lemma pop_dequeued:
  assumes s: "sched_inv X s" and q: "event_queue s = p # q" and e: "get_event s (ep_index p) = Some e" "\<not> killed e"
    and l: "ev_val e \<noteq> LOGIC_OTHER \<longrightarrow> \<not> late env s (ev_node e) (ev_val e) (ep_time p)"
  shows "dequeued env X s p (s\<lparr>event_queue := q\<rparr>)"
proof -
  from s q have qk: "queue_ok X (event_pool s) (current_time s) (p # q)" by (simp add: sched_inv_def)
  then have t: "current_time s \<le> ep_time p" by (simp add: queue_ok_def)
  from queue_ok_pop [OF qk] queue_ok_mono [OF _ t] s
  have "sched_inv (insert (ep_index p) X) (s\<lparr>event_queue := q\<rparr>)" "ep_index p \<notin> X" by (auto simp: sched_inv_def)
  moreover from queue_ok_pop(1) [OF qk] have "\<forall>x \<in> set q. ep_time p \<le> ep_time x" by (simp add: queue_ok_def)
  moreover have "same_timing s (s\<lparr>event_queue := q\<rparr>)" by (simp add: same_timing_def)
  moreover have "kept s (s\<lparr>event_queue := q\<rparr>)"
    using kept_ev_frame [of s "s\<lparr>event_queue := q\<rparr>" "current_time s"] by simp
  ultimately show ?thesis
    using q e l t late_same [OF \<open>same_timing s (s\<lparr>event_queue := q\<rparr>)\<close>]
    by (auto simp: dequeued_def killed_index_def get_event_def)
qed

lemma reschedule_pend:
  assumes s: "sched_inv X s" and ni: "ni < length (node_pool s)" and ei: "event_index (node_pool s ! ni) \<noteq> 0"
    and t: "current_time s \<le> t" and r: "reschedule_event ni t s = Some (b, s')" and nj: "nj < length (node_pool s)"
  shows "pend s' nj = pend s nj"
proof -
  from reschedule_event_ok [OF s ni ei t] r obtain e i where
    1: "get_event s (event_index (node_pool s ! ni)) = Some e" "get_event s' i = Some e"
    "\<forall>j. j \<noteq> event_index (node_pool s ! ni) \<longrightarrow> j \<in> pool_live (event_pool s) \<longrightarrow> get_event s' j = get_event s j"
    "node_pool s' = (node_pool s)[ni := (node_pool s ! ni)\<lparr>event_index := i\<rparr>]" by auto
  show ?thesis
  proof (cases "nj = ni")
    case True
    have "i \<noteq> 0" using 1(2) by (auto simp: get_event_def pool_get_def split: if_splits)
    with 1 ei ni True show ?thesis by (simp add: pend_def)
  next
    case False
    then have "event_index (node_pool s ! nj) \<noteq> event_index (node_pool s ! ni)"
      using event_index_inj [OF s nj ni] ei by auto
    with 1(3,4) False nj sched_inv_node [OF s nj] show ?thesis by (auto simp: pend_def)
  qed
qed

text \<open>One round that delays the first event: it moves behind its constraints, and time advances.\<close>

lemma dequeue_delay:
  assumes s: "sched_inv X s" and q: "event_queue s = ep # q" and e: "get_event s (ep_index ep) = Some e" "\<not> killed e"
    and l: "ev_val e \<noteq> LOGIC_OTHER" "late env s (ev_node e) (ev_val e) (ep_time ep)"
    and c: "ep_time ep < t" "\<not> late env s (ev_node e) (ev_val e) t"
  shows "\<exists>s2. reschedule_event (ev_node e) t s = Some (False, s2) \<and> sched_inv X (s2\<lparr>current_time := ep_time ep\<rparr>) \<and>
    kept s (s2\<lparr>current_time := ep_time ep\<rparr>) \<and>
    late_count env s = Suc (late_count env (s2\<lparr>current_time := ep_time ep\<rparr>)) \<and>
    \<not> (\<forall>x \<in> set (event_queue s2). killed_index (s2\<lparr>current_time := ep_time ep\<rparr>) (ep_index x))"
proof -
  from sched_inv_event [OF s, of "ep_index ep"] q e have n: "ev_node e < length (node_pool s)"
    "event_index (node_pool s ! ev_node e) = ep_index ep" "ep_index ep \<noteq> 0" by auto
  have qk: "queue_ok X (event_pool s) (current_time s) (ep # q)" using s q by (simp add: sched_inv_def)
  then have t: "current_time s \<le> ep_time ep" "current_time s \<le> t" using c(1) by (auto simp: queue_ok_def)
  obtain s2 i where 2: "reschedule_event (ev_node e) t s = Some (False, s2)" "sched_inv X s2" "ev_frame s s2"
    "get_event s2 (ep_index ep) = Some (ev_kill e)" "get_event s2 i = Some e"
    "event_queue s2 = eq_push \<lparr>ep_time = t, ep_index = i\<rparr> (event_queue s)"
    "\<And>j. j \<noteq> ep_index ep \<Longrightarrow> j \<in> pool_live (event_pool s) \<Longrightarrow> get_event s2 j = get_event s j"
    using reschedule_event_ok [OF s n(1) _ t(2)] n e by auto
  define s3 where "s3 = s2\<lparr>current_time := ep_time ep\<rparr>"
  have kp: "kept s s3"
    unfolding s3_def using reschedule_pend [OF s n(1) _ t(2) 2(1)] n by (intro kept_ev_frame [OF 2(3)]) simp
  note st = kept_timing [OF kp]
  have g: "get_event s3 = get_event s2" by (simp add: fun_eq_iff s3_def get_event_def)
  have "\<forall>x \<in> set (event_queue s2). ep_time ep \<le> ep_time x"
    using qk c(1) 2(6) q by (auto simp: queue_ok_def eq_sorted_Cons)
  with 2(2) have "sched_inv X s3" by (auto simp: sched_inv_def queue_ok_def s3_def)
  moreover have "late_count env s = Suc (late_count env s3)"
  proof -
    have "late_entry env s3 x = late_entry env s x" if "x \<in> set q" for x
    proof -
      from that qk have "ep_index x \<noteq> ep_index ep" "ep_index x \<in> pool_live (event_pool s)"
        by (auto simp: queue_ok_def image_iff)
      with 2(7) g show ?thesis by (intro late_entry_same [OF st]) simp
    qed
    then have "filter (late_entry env s3) q = filter (late_entry env s) q" by (intro filter_cong) auto
    moreover have "\<not> late_entry env s3 ep" "\<not> late_entry env s3 \<lparr>ep_time = t, ep_index = i\<rparr>" "late_entry env s ep"
      using 2(4,5) e l c(2) g late_same [OF st] by (simp_all add: late_entry_def)
    moreover have "event_queue s3 = eq_push \<lparr>ep_time = t, ep_index = i\<rparr> (ep # q)" using 2(6) q by (simp add: s3_def)
    ultimately show ?thesis using q by (simp add: late_count_def length_filter_push del: eq_push.simps)
  qed
  moreover have "\<not> (\<forall>x \<in> set (event_queue s2). killed_index s3 (ep_index x))"
    using 2(5,6) e(2) g by (simp add: killed_index_def)
  ultimately show ?thesis using 2(1) kp by (simp add: s3_def)
qed

lemma dequeued_trans:
  assumes "kept s s1" and "current_time s \<le> current_time s1" and "dequeued env X s1 p s'"
    and "(\<forall>x \<in> set (event_queue s). killed_index s (ep_index x)) \<longleftrightarrow> (\<forall>x \<in> set (event_queue s1). killed_index s1 (ep_index x))"
  shows "dequeued env X s p s'"
proof -
  from assms(1,3) have "kept s s'" by (auto simp: dequeued_def intro: kept_trans)
  with assms(2,3) show ?thesis unfolding dequeued_def assms(4) by (auto split: if_splits)
qed

lemma dequeue_event_fuel_total:
  assumes "sched_inv X s" and "annotation_ok env s" and "late_count env s < k"
  shows "\<exists>p s'. dequeue_event_fuel k env s = Some (p, s') \<and> dequeued env X s p s'"
  using assms
proof (induction k arbitrary: s)
  case 0
  then show ?case by simp
next
  case (Suc k)
  obtain s1 where 1: "flush_killed_events s = Some s1" "sched_inv X s1" "ev_frame s s1" "get_event s1 = get_event s"
    "event_queue s1 = dropWhile (\<lambda>p. killed_index s (ep_index p)) (event_queue s)" "node_pool s1 = node_pool s"
    using flush_killed_events_spec [OF Suc.prems(1)] by blast
  have kp: "kept s s1" using kept_ev_frame [OF 1(3), of "current_time s1"] 1(4,6) by (simp add: pend_def)
  note st = kept_timing [OF kp]
  have ct: "current_time s \<le> current_time s1" using ev_frame_simps(1) [OF 1(3)] by simp
  have ki: "killed_index s1 = killed_index s" by (simp add: fun_eq_iff killed_index_def 1(4))
  note an = annotation_ok_same [OF st Suc.prems(2)]
  have "late_entry env s1 = late_entry env s" using late_entry_same [OF st] 1(4) by (simp add: fun_eq_iff)
  then have lc: "late_count env s1 = late_count env s"
    unfolding late_count_def 1(5)
    by (simp add: length_filter_dropWhile killed_index_def late_entry_def split: option.splits)
  show ?case
  proof (cases "event_queue s1")
    case Nil
    then have "\<forall>x \<in> set (event_queue s). killed_index s (ep_index x)" using 1(5) by (simp add: dropWhile_eq_Nil_conv)
    with Nil 1 kp show ?thesis by (simp add: eq_empty_def dequeued_def)
  next
    case (Cons ep q)
    have all: "(\<forall>x \<in> set (event_queue s). killed_index s (ep_index x)) \<longleftrightarrow>
        (\<forall>x \<in> set (event_queue s1). killed_index s1 (ep_index x))"
      using Cons 1(5) dropWhile_eq_Nil_conv [of "\<lambda>p. killed_index s (ep_index p)" "event_queue s"]
        hd_dropWhile [of "\<lambda>p. killed_index s (ep_index p)" "event_queue s"] by (auto simp: ki)
    obtain e where e: "get_event s1 (ep_index ep) = Some e" "ev_node e < length (node_pool s1)"
      using sched_inv_event [OF 1(2), of "ep_index ep"] Cons by auto
    have nk: "\<not> killed e"
      using 1(5) [symmetric] Cons e by (simp add: dropWhile_eq_Cons_conv killed_index_def 1(4))
    have t: "current_time s1 \<le> ep_time ep" using 1(2) Cons by (simp add: sched_inv_def queue_ok_def)
    obtain c where c: "node_event_min_delay env (ev_node e) (ev_val e) s1 = Some c"
      "amd_delayed c \<and> ep_time ep < amd_time c \<longleftrightarrow> late env s1 (ev_node e) (ev_val e) (ep_time ep)"
      "\<not> late env s1 (ev_node e) (ev_val e) (amd_time c)"
      using node_event_min_delay_spec [OF an e(2) t] by blast
    show ?thesis
    proof (cases "ev_val e \<noteq> LOGIC_OTHER \<and> late env s1 (ev_node e) (ev_val e) (ep_time ep)")
      case False
      then have "dequeued env X s1 ep (s1\<lparr>event_queue := q\<rparr>)" using pop_dequeued [OF 1(2) Cons e(1) nk] by blast
      from dequeued_trans [OF kp ct this all] show ?thesis
        using False 1(1) Cons e c by (auto simp: eq_empty_def peek_next_event_def eq_top_def pop_event_def eq_pop_def)
    next
      case True
      with c have d: "ep_time ep < amd_time c" "amd_delayed c" by auto
      obtain s2 where 2: "reschedule_event (ev_node e) (amd_time c) s1 = Some (False, s2)"
        "sched_inv X (s2\<lparr>current_time := ep_time ep\<rparr>)" "kept s1 (s2\<lparr>current_time := ep_time ep\<rparr>)"
        "late_count env s1 = Suc (late_count env (s2\<lparr>current_time := ep_time ep\<rparr>))"
        "\<not> (\<forall>x \<in> set (event_queue s2). killed_index (s2\<lparr>current_time := ep_time ep\<rparr>) (ep_index x))"
        using dequeue_delay [OF 1(2) Cons e(1) nk _ _ d(1) c(3)] True by blast
      from Suc.IH [OF 2(2) annotation_ok_same [OF kept_timing [OF 2(3)] an]] 2(4) lc Suc.prems(3) obtain p s' where
        r: "dequeue_event_fuel k env (s2\<lparr>current_time := ep_time ep\<rparr>) = Some (p, s')"
        "dequeued env X (s2\<lparr>current_time := ep_time ep\<rparr>) p s'" by auto
      have "\<not> (\<forall>x \<in> set (event_queue s1). killed_index s1 (ep_index x))" using Cons e nk by (simp add: killed_index_def)
      then have "dequeued env X s1 p s'" by (intro dequeued_trans [OF 2(3) _ r(2)]) (use t 2(5) in auto)
      from dequeued_trans [OF kp ct this all] show ?thesis
        using True 1(1) Cons e c(1) d t 2(1) r(1) by (simp add: eq_empty_def peek_next_event_def eq_top_def)
    qed
  qed
qed

lemma dequeue_event_total:
  assumes "sched_inv X s" and "annotation_ok env s"
  shows "\<exists>p s'. dequeue_event env s = Some (p, s') \<and> dequeued env X s p s'"
  unfolding dequeue_event_def
  by (rule dequeue_event_fuel_total [OF assms]) (simp add: late_count_le less_Suc_eq_le)

end
