(* ===== verification/Sched_User.thy ===== *)
theory Sched_User
  imports Sched_Dequeue
begin

text \<open>
  The remaining user actions (unset, freeze, breakpoints, fast-forward) and the consistency check of
  the event queue.
\<close>

section \<open>Unset\<close>

lemma restore_sel [simp]:
  "event_index (restore n) = event_index n" "is_atomic (restore n) = is_atomic n" "\<not> is_frozen (restore n)"
  "node_value (restore n) = node_value n" "pull_set_of (restore n) w = pull_set_of n w"
  by (simp_all add: restore_def is_atomic_def is_frozen_def pull_set_of_def Let_def and_flag_bits bit_simps)

lemma unset_event_sel [simp]:
  "ev_node (unforce (ev_set_weak w e)) = ev_node e" "killed (unforce (ev_set_weak w e)) = killed e"
  "ev_val (unforce (ev_set_weak w e)) = ev_val e" "killed (e\<lparr>ev_val := v\<rparr>) = killed e"
  "\<not> forced (unforce e)"
  by (simp_all add: event_flag_defs bit_simps)

lemma put_node_weak [simp]: "weak_rules_enabled (put_node s i n) = weak_rules_enabled s"
  "timing_params (put_node s i n) = timing_params s" "oracle_pos (put_node s i n) = oracle_pos s"
  by (simp_all add: put_node_def weak_rules_enabled_def)

lemma restore_clear_event: "restore (clear_event (restore n)) = restore (clear_event n)"
  by (simp add: restore_def clear_event_def and.assoc)

lemma ev_frame_restore:
  assumes "ev_frame s s'"
  shows "map (restore \<circ> clear_event) (node_pool s') = map (restore \<circ> clear_event) (node_pool s)"
  using assms by (auto simp: ev_frame_def simp flip: map_map)

definition unset_fires :: "value_enum \<Rightarrow> pull_set \<Rightarrow> bool" where
  "unset_fires v p \<longleftrightarrow> v \<noteq> unset_value p \<and> \<not> (v = LOGIC_LOW \<and> ps_up p = PULL_OFF) \<and>
     \<not> (v = LOGIC_HIGH \<and> ps_dn p = PULL_OFF)"

lemma unset_node_cases:
  assumes "ni < length (node_pool s)" and "s0 = put_node s ni (restore (node_pool s ! ni))"
    and "p = pull_set_of (node_pool s ! ni) (weak_rules_enabled s)"
  shows "unset_node env ni s =
    (if state_holding p then Some s0
     else if event_index (node_pool s ! ni) \<noteq> 0 then do {
       e \<leftarrow> get_event s0 (event_index (node_pool s ! ni));
       put_event s0 (event_index (node_pool s ! ni))
         (unforce (ev_set_weak (weak_wins_any p) (e\<lparr>ev_val := unset_value p\<rparr>))) }
     else if unset_fires (node_value (node_pool s ! ni)) p then do {
       (ei, s1) \<leftarrow> allocate_event_args ni EMPTY_CAUSE 0 None (unset_value p) (weak_wins_any p) False s0;
       e \<leftarrow> get_event s1 ei;
       (t, s2) \<leftarrow> (if unset_value p = LOGIC_OTHER then Some (current_time s1, s1) else get_delay_up env e s1);
       enqueue_event t ei s2 }
     else Some s0)"
proof -
  have c: "(case v of LOGIC_LOW \<Rightarrow> get_delay_dn env e s1 | LOGIC_HIGH \<Rightarrow> get_delay_up env e s1 | LOGIC_OTHER \<Rightarrow> d)
      = (if v = LOGIC_OTHER then d else get_delay_up env e s1)" for v e s1 d
    by (cases v) (simp_all add: get_delay_dn_eq)
  show ?thesis using assms(1) unfolding unset_node_def Let_def c
    by (simp add: assms(2,3) unset_fires_def)
qed

text \<open>The event that \<^verbatim>\<open>unset_node\<close> has pending afterwards carries the value of the pull state.\<close>

lemma unset_node_spec:
  assumes s: "sched_inv X s" and ni: "ni < length (node_pool s)" and r: "random_ok env"
    and d: "delay_ok (timing_params s) None" and a: "\<not> is_atomic (node_pool s ! ni)"
  shows "\<exists>s'. unset_node env ni s = Some s' \<and> sched_inv X s' \<and> length (node_pool s') = length (node_pool s) \<and>
    current_time s' = current_time s \<and> timing_params s' = timing_params s \<and>
    map (restore \<circ> clear_event) (node_pool s') = map (restore \<circ> clear_event) (node_pool s) \<and>
    \<not> is_frozen (node_pool s' ! ni) \<and>
    (pending_event (node_pool s ! ni) \<and> \<not> state_holding (pull_set_of (node_pool s ! ni) (weak_rules_enabled s)) \<longrightarrow>
       (\<exists>e. get_event s' (event_index (node_pool s ! ni)) = Some e \<and>
          ev_val e = unset_value (pull_set_of (node_pool s ! ni) (weak_rules_enabled s)) \<and> \<not> forced e))"
proof -
  let ?n = "restore (node_pool s ! ni)"
  let ?p = "pull_set_of (node_pool s ! ni) (weak_rules_enabled s)"
  define s0 where "s0 = put_node s ni ?n"
  have s0: "sched_inv X s0" unfolding s0_def by (rule sched_inv_put_node [OF s ni]) simp_all
  have n0: "ni < length (node_pool s0)" "node_pool s0 ! ni = ?n" using ni by (simp_all add: s0_def)
  have m0: "map (restore \<circ> clear_event) (node_pool s0) = map (restore \<circ> clear_event) (node_pool s)"
    using ni by (simp add: s0_def map_update list_update_same_conv restore_clear_event)
  have frame: "length (node_pool s') = length (node_pool s) \<and> current_time s' = current_time s \<and>
      timing_params s' = timing_params s \<and>
      map (restore \<circ> clear_event) (node_pool s') = map (restore \<circ> clear_event) (node_pool s) \<and>
      \<not> is_frozen (node_pool s' ! ni)" if "ev_frame s0 s'" for s'
    using ev_frame_simps [OF that] ev_frame_restore [OF that] clear_event_eqD(5) [OF ev_frame_nodes [OF that n0(1)]] m0 n0
    by (simp add: s0_def)
  note un = unset_node_cases [OF ni s0_def refl, of env]
  consider (same) "unset_node env ni s = Some s0" "\<not> pending_event (node_pool s ! ni) \<or> state_holding ?p"
    | (pending) "event_index (node_pool s ! ni) \<noteq> 0" "\<not> state_holding ?p"
    | (fresh) "event_index (node_pool s ! ni) = 0" "\<not> state_holding ?p" "unset_fires (node_value (node_pool s ! ni)) ?p"
    unfolding un pending_event_def by argo
  then show ?thesis
  proof cases
    case same
    with s0 frame [of s0] show ?thesis by auto
  next
    case pending
    from sched_inv_node [OF s0 n0(1)] pending n0 obtain e where
      e: "get_event s0 (event_index (node_pool s ! ni)) = Some e" "ev_node e = ni" "\<not> killed e"
      "event_index (node_pool s ! ni) \<in> pool_live (event_pool s0)" by (metis restore_sel(1))
    define e' where "e' = unforce (ev_set_weak (weak_wins_any ?p) (e\<lparr>ev_val := unset_value ?p\<rparr>))"
    have e': "ev_node e' = ev_node e" "killed e' = killed e" by (simp_all add: e'_def)
    note put = put_event_ok [OF s0 e(1,4) e']
    have "unset_node env ni s = put_event s0 (event_index (node_pool s ! ni)) e'"
      using pending e(1) by (simp add: un e'_def)
    with put frame [OF ev_frame_updates(1)] pool_set_live(4) [OF sched_inv_pool_ok [OF s0] e(4), of e'] show ?thesis
      by (simp add: get_event_def e'_def)
  next
    case fresh
    obtain i s1 e where 1: "allocate_event_args ni EMPTY_CAUSE 0 None (unset_value ?p) (weak_wins_any ?p) False s0 = Some (i, s1)"
      "ev_frame s0 s1" "get_event s1 i = Some e" "ev_cause_rule_ptr e = None"
      "\<And>k t. current_time s0 \<le> t \<Longrightarrow> enqueue_event t i (s1\<lparr>oracle_pos := k\<rparr>) =
         Some (s1\<lparr>oracle_pos := k, event_queue := eq_push \<lparr>ep_time = t, ep_index = i\<rparr> (event_queue s0)\<rparr>)"
      "\<And>k t. current_time s0 \<le> t \<Longrightarrow>
         sched_inv X (s1\<lparr>oracle_pos := k, event_queue := eq_push \<lparr>ep_time = t, ep_index = i\<rparr> (event_queue s0)\<rparr>)"
      by (rule alloc_args_enqueue [OF s0 n0(1), of False EMPTY_CAUSE 0 None "unset_value ?p" "weak_wins_any ?p"])
        (use fresh a n0 that in \<open>simp_all\<close>)
    note f1 = ev_frame_simps [OF 1(2)]
    obtain t k where t: "(if unset_value ?p = LOGIC_OTHER then Some (current_time s1, s1) else get_delay_up env e s1)
        = Some (t, s1\<lparr>oracle_pos := k\<rparr>)" "current_time s0 \<le> t"
    proof (cases "unset_value ?p = LOGIC_OTHER")
      case True
      with that [of "current_time s1" "oracle_pos s1"] f1 show ?thesis by simp
    next
      case False
      have "delay_ok (timing_params s1) (ev_cause_rule_ptr e)" using d f1 1(4) by (simp add: s0_def)
      from get_delay_up_ok [OF r this] that False f1 show ?thesis by metis
    qed
    let ?s = "s1\<lparr>oracle_pos := k, event_queue := eq_push \<lparr>ep_time = t, ep_index = i\<rparr> (event_queue s0)\<rparr>"
    have "unset_node env ni s = Some ?s" unfolding un using fresh 1(1,3) t(1) 1(5) [OF t(2)] by simp
    moreover have "ev_frame s0 ?s"
      by (rule ev_frame_trans [OF 1(2)], rule ev_frame_trans [of _ "s1\<lparr>oracle_pos := k\<rparr>"]) simp_all
    ultimately show ?thesis using frame [of ?s] 1(6) [OF t(2)] fresh by (simp add: pending_event_def)
  qed
qed

section \<open>Freezing, breakpoints, time\<close>

lemma flag_node_sel [simp]:
  "event_index (freeze n) = event_index n" "is_atomic (freeze n) = is_atomic n"
  "event_index (set_breakpoint n) = event_index n" "is_atomic (set_breakpoint n) = is_atomic n"
  "event_index (clear_breakpoint n) = event_index n" "is_atomic (clear_breakpoint n) = is_atomic n"
  by (simp_all add: freeze_def set_breakpoint_def clear_breakpoint_def is_atomic_def)

lemma flag_ops_keep_sched_inv:
  assumes "sched_inv X s" and "ni < length (node_pool s)"
  shows "\<exists>s'. freeze_node ni s = Some s' \<and> sched_inv X s'"
    "\<exists>s'. set_node_breakpoint ni s = Some s' \<and> sched_inv X s'"
    "\<exists>s'. clear_node_breakpoint ni s = Some s' \<and> sched_inv X s'"
    "sched_inv X (clear_all_breakpoints s)"
  using assms
  by (simp_all add: freeze_node_def set_node_breakpoint_def clear_node_breakpoint_def mod_node_def
      sched_inv_put_node clear_all_breakpoints_def)
    (simp add: sched_inv_def links_map)

text \<open>Fast-forwarding aborts exactly when it would jump over the next live event.\<close>

lemma scan_live_spec:
  assumes "sched_inv X s" and "set q \<subseteq> set (event_queue s)"
  shows "scan_live s q = Some (map_option ep_time (find (\<lambda>p. \<not> killed_index s (ep_index p)) q))"
  using assms(2)
proof (induction q)
  case (Cons x q)
  then obtain e where "get_event s (ep_index x) = Some e"
    using sched_inv_event [OF assms(1), of "ep_index x"] by auto
  with Cons show ?case by (simp add: killed_index_def)
qed simp

definition next_live_time :: "time_type \<Rightarrow> prsim_state \<Rightarrow> time_type" where
  "next_live_time max_time s = (case find (\<lambda>p. \<not> killed_index s (ep_index p)) (event_queue s) of
     Some p \<Rightarrow> ep_time p | None \<Rightarrow> max_time)"

lemma next_event_time_spec:
  assumes "sched_inv X s"
  shows "next_event_time max_time s = Some (next_live_time max_time s)"
  by (simp add: next_event_time_def next_live_time_def scan_live_spec [OF assms order_refl] split: option.split)

lemma safe_fast_forward_spec:
  assumes "sched_inv X s" and "current_time s \<le> t"
  shows "safe_fast_forward max_time t s =
    (if t = current_time s \<or> event_queue s = [] \<or> t \<le> next_live_time max_time s then Some (s\<lparr>current_time := t\<rparr>) else None)"
  using assms by (auto simp: safe_fast_forward_def pending_events_def eq_empty_def next_event_time_spec update_time_def)

section \<open>The consistency check\<close>

lemma check_event_loop_ok:
  assumes s: "sched_inv X s"
  shows "set qs \<subseteq> set (event_queue s) \<Longrightarrow> distinct (map ep_index qs) \<Longrightarrow>
    (\<And>n. n \<in> dom u \<Longrightarrow> event_index (node_pool s ! n) \<notin> ep_index ` set qs) \<Longrightarrow> check_event_loop s qs u = Some ()"
proof (induction qs arbitrary: u)
  case (Cons q qs)
  obtain e where e: "get_event s (ep_index q) = Some e" "ev_node e < length (node_pool s)"
    "\<not> killed e \<Longrightarrow> event_index (node_pool s ! ev_node e) = ep_index q" "ep_index q \<noteq> 0"
    using sched_inv_event [OF s, of "ep_index q"] Cons.prems(1) by auto
  show ?case
  proof (cases "killed e")
    case True
    have "event_index (node_pool s ! ev_node e) \<noteq> ep_index q"
      using sched_inv_pending [OF s e(2)] e True by auto
    with True e Cons show ?thesis by auto
  next
    case False
    with e(3) Cons.prems(3) have "ev_node e \<notin> dom u" by auto
    moreover have "check_event_loop s qs (u(ev_node e \<mapsto> ep_index q)) = Some ()"
    proof (rule Cons.IH)
      fix n assume "n \<in> dom (u(ev_node e \<mapsto> ep_index q))"
      then consider "n = ev_node e" | "n \<in> dom u" by auto
      then show "event_index (node_pool s ! n) \<notin> ep_index ` set qs"
        using Cons.prems(2) Cons.prems(3) [of n] e(3) [OF False] by cases auto
    qed (use Cons.prems in simp_all)
    ultimately show ?thesis using False e by (simp add: domIff)
  qed
qed simp

lemma check_event_queue_ok: "sched_inv X s \<Longrightarrow> check_event_queue s = Some ()"
  unfolding check_event_queue_def
  by (rule check_event_loop_ok, assumption) (auto simp: eq_copy_to_def sched_inv_def queue_ok_def)

end
