(* ===== verification/Flush_Ok.thy ===== *)
theory Flush_Ok
  imports Prs_Flush Sched_User
begin

text \<open>
  \<^verbatim>\<open>flush_updated_nodes\<close> implements an abstract decision: from the pull state of a node, its value and the
  value of its pending event, \<open>flush_outcome\<close> gives the value that is pending afterwards. The
  lemmas show that the bookkeeping on pool, queue and links implements it, and what the decision guarantees.
\<close>

section \<open>Pending events as a map\<close>

text \<open>What scheduling does not change of a node, and of the state.\<close>

definition node_core :: "node_state \<Rightarrow> node_state" where
  "node_core n = n\<lparr>event_index := 0, causes := LastCause_initialize, last_edge_time := (\<lambda>_. 0)\<rparr>"

definition flush_frame :: "prsim_state \<Rightarrow> prsim_state \<Rightarrow> bool" where
  "flush_frame s s' \<longleftrightarrow> (\<exists>p q k ns.
     s' = s\<lparr>event_pool := p, event_queue := q, oracle_pos := k, node_pool := ns\<rparr> \<and>
     map node_core ns = map node_core (node_pool s))"

definition pend_step :: "nat set \<Rightarrow> prsim_state \<Rightarrow> node_index_type \<Rightarrow> event option \<Rightarrow> prsim_state \<Rightarrow> bool" where
  "pend_step X s ni eo s' \<longleftrightarrow> sched_inv X s' \<and> flush_frame s s' \<and>
     (\<forall>nj < length (node_pool s). pend s' nj = (if nj = ni then eo else pend s nj))"

lemma node_core_clear: "node_core n = node_core (clear_event n)"
  by (simp add: node_core_def clear_event_def)

lemma ev_frame_flush:
  assumes "ev_frame s s'"
  shows "flush_frame s s'"
proof -
  from assms obtain p q k ns where "s' = s\<lparr>event_pool := p, event_queue := q, oracle_pos := k, node_pool := ns\<rparr>"
    "map clear_event ns = map clear_event (node_pool s)" unfolding ev_frame_def by blast
  moreover from this(2) have "map node_core ns = map node_core (node_pool s)"
    by (rule map_projection [where f = node_core and g = clear_event, OF node_core_clear [symmetric]])
  ultimately show ?thesis unfolding flush_frame_def by blast
qed

lemma flush_frame_refl [simp]: "flush_frame s s"
  by (simp add: ev_frame_flush)

lemma flush_frame_trans: "flush_frame s s' \<Longrightarrow> flush_frame s' s'' \<Longrightarrow> flush_frame s s''"
  unfolding flush_frame_def
proof (elim exE conjE)
  fix p q k ns p' q' k' ns'
  assume "s' = s\<lparr>event_pool := p, event_queue := q, oracle_pos := k, node_pool := ns\<rparr>"
    "map node_core ns = map node_core (node_pool s)"
    "s'' = s'\<lparr>event_pool := p', event_queue := q', oracle_pos := k', node_pool := ns'\<rparr>"
    "map node_core ns' = map node_core (node_pool s')"
  then have "s'' = s\<lparr>event_pool := p', event_queue := q', oracle_pos := k', node_pool := ns'\<rparr> \<and>
    map node_core ns' = map node_core (node_pool s)" by simp
  then show "\<exists>p q k ns. s'' = s\<lparr>event_pool := p, event_queue := q, oracle_pos := k, node_pool := ns\<rparr> \<and>
    map node_core ns = map node_core (node_pool s)" by blast
qed

lemma flush_frame_simps:
  assumes "flush_frame s s'"
  shows "current_time s' = current_time s" "timing_params s' = timing_params s" "sim_flags s' = sim_flags s"
    "policies s' = policies s" "length (node_pool s') = length (node_pool s)"
    "weak_rules_enabled s' = weak_rules_enabled s" "updated_nodes s' = updated_nodes s"
    "updated_nodes_queue s' = updated_nodes_queue s" "process_state_array s' = process_state_array s"
    "unique_process_pool s' = unique_process_pool s"
    "global_expr_process_id_map s' = global_expr_process_id_map s" "lookup_rule s' = lookup_rule s"
    "dequeue_unstable_events s' = dequeue_unstable_events s"
    "dequeue_excl_unstable_events s' = dequeue_excl_unstable_events s"
    "mk_excl_blocking_set s' = mk_excl_blocking_set s"
proof -
  from assms obtain p q k ns where s': "s' = s\<lparr>event_pool := p, event_queue := q, oracle_pos := k, node_pool := ns\<rparr>"
    and ns: "map node_core ns = map node_core (node_pool s)" unfolding flush_frame_def by blast
  from s' show "current_time s' = current_time s" "timing_params s' = timing_params s" "sim_flags s' = sim_flags s"
    "policies s' = policies s" "weak_rules_enabled s' = weak_rules_enabled s" "updated_nodes s' = updated_nodes s"
    "updated_nodes_queue s' = updated_nodes_queue s" "process_state_array s' = process_state_array s"
    "unique_process_pool s' = unique_process_pool s"
    "global_expr_process_id_map s' = global_expr_process_id_map s"
    "dequeue_unstable_events s' = dequeue_unstable_events s"
    "dequeue_excl_unstable_events s' = dequeue_excl_unstable_events s"
    "mk_excl_blocking_set s' = mk_excl_blocking_set s"
    by (simp_all add: weak_rules_enabled_def dequeue_unstable_events_def dequeue_excl_unstable_events_def)
  from s' show "lookup_rule s' = lookup_rule s"
    by (simp add: fun_eq_iff lookup_rule_def lookup_global_expr_process_def lookup_global_expr_process_id_def get_graph_def)
  from s' map_eq_imp_length_eq [OF ns] show "length (node_pool s') = length (node_pool s)" by simp
qed

lemma flush_frame_core:
  assumes "flush_frame s s'" and "ni < length (node_pool s)"
  shows "node_core (node_pool s' ! ni) = node_core (node_pool s ! ni)"
proof -
  from assms(1) have "map node_core (node_pool s') = map node_core (node_pool s)" unfolding flush_frame_def by auto
  with flush_frame_simps(5) [OF assms(1)] assms(2) show ?thesis by (metis nth_map)
qed

lemma node_core_eqD:
  assumes "node_core n = node_core m"
  shows "node_value n = node_value m" "state_flags n = state_flags m" "struct_flags n = struct_flags m"
    "is_atomic n = is_atomic m" "is_frozen n = is_frozen m" "pull_set_of n w = pull_set_of m w"
    "get_pull_struct d w' n = get_pull_struct d w' m" "fanout n = fanout m" "fanin n = fanin m"
proof -
  note f = arg_cong [OF assms]
  show "node_value n = node_value m" using f [of node_value] by (simp add: node_core_def)
  show sf: "state_flags n = state_flags m" using f [of state_flags] by (simp add: node_core_def)
  show tf: "struct_flags n = struct_flags m" using f [of struct_flags] by (simp add: node_core_def)
  show at: "is_atomic n = is_atomic m" by (rule is_atomic_cong [OF tf])
  show "is_frozen n = is_frozen m" using sf by (simp add: is_frozen_def)
  have "pull_up_normal n = pull_up_normal m" "pull_up_weak n = pull_up_weak m"
    "pull_dn_normal n = pull_dn_normal m" "pull_dn_weak n = pull_dn_weak m"
    using f [of pull_up_normal] f [of pull_up_weak] f [of pull_dn_normal] f [of pull_dn_weak] by (simp_all add: node_core_def)
  with at show "pull_set_of n w = pull_set_of m w" "get_pull_struct d w' n = get_pull_struct d w' m"
    by (simp_all add: pull_set_of_def get_pull_struct_def Let_def)
  show "fanout n = fanout m" using f [of fanout] by (simp add: node_core_def)
  show "fanin n = fanin m" using f [of fanin] by (simp add: node_core_def)
qed

section \<open>Bookkeeping operations on the map\<close>

lemma pend_event_index:
  assumes "sched_inv X s" and "ni < length (node_pool s)"
  shows "pend s ni = None \<longleftrightarrow> event_index (node_pool s ! ni) = 0"
    "pend s ni = Some e \<Longrightarrow> get_event s (event_index (node_pool s ! ni)) = Some e \<and> ev_node e = ni \<and> \<not> killed e \<and>
       event_index (node_pool s ! ni) \<in> pool_live (event_pool s) \<and> \<not> is_atomic (node_pool s ! ni)"
proof -
  show "pend s ni = None \<longleftrightarrow> event_index (node_pool s ! ni) = 0"
    using sched_inv_pending [OF assms] by (auto simp: pend_def)
  assume e: "pend s ni = Some e"
  then have "event_index (node_pool s ! ni) \<noteq> 0" by (auto simp: pend_def split: if_splits)
  from sched_inv_node [OF assms this] e this
  show "get_event s (event_index (node_pool s ! ni)) = Some e \<and> ev_node e = ni \<and> \<not> killed e \<and>
       event_index (node_pool s ! ni) \<in> pool_live (event_pool s) \<and> \<not> is_atomic (node_pool s ! ni)"
    by (auto simp: pend_def)
qed

lemma get_event_set:
  assumes "i \<in> pool_live (event_pool s)" and "pool_ok (event_pool s)"
  shows "get_event (s\<lparr>event_pool := (event_pool s)\<lparr>index_pool := (index_pool (event_pool s))[i := e]\<rparr>\<rparr>) j =
    (if j = i then Some e else get_event s j)"
  using pool_set_live(4,5) [OF assms(2,1), where v = e] by (simp add: get_event_def)

text \<open>Writing an event, live or killed, in the pool.\<close>

lemma pend_put_event:
  assumes s: "sched_inv X s" and e: "get_event s i = Some e" "i \<in> pool_live (event_pool s)"
    and e': "ev_node e' = ev_node e" "killed e' = killed e"
    and ni: "killed e \<or> (ni < length (node_pool s) \<and> event_index (node_pool s ! ni) = i)"
  obtains s' where "put_event s i e' = Some s'" "pend_step X s ni (if killed e then pend s ni else Some e') s'"
    "get_event s' i = Some e'" "node_pool s' = node_pool s" "event_queue s' = event_queue s"
proof
  let ?s = "s\<lparr>event_pool := (event_pool s)\<lparr>index_pool := (index_pool (event_pool s))[i := e']\<rparr>\<rparr>"
  note put = put_event_ok [OF s e e'] and get = get_event_set [OF e(2) sched_inv_pool_ok [OF s], of e']
  show "put_event s i e' = Some ?s" by (rule put(1))
  show "get_event ?s i = Some e'" "node_pool ?s = node_pool s" "event_queue ?s = event_queue s" using get [of i] by simp_all
  have "pend ?s nj = (if nj = ni then (if killed e then pend s ni else Some e') else pend s nj)" if "nj < length (node_pool s)" for nj
  proof (cases "event_index (node_pool s ! nj) = i")
    case True
    from e(2) have "i \<noteq> 0" by (metis zero_not_live)
    with True sched_inv_pending [OF s that] e(1) have "\<not> killed e" by auto
    with ni event_index_inj [OF s that, of ni] True \<open>i \<noteq> 0\<close> have "nj = ni" by auto
    with True get [of i] \<open>i \<noteq> 0\<close> \<open>\<not> killed e\<close> show ?thesis by (simp add: pend_def)
  next
    case False
    with ni have "killed e \<or> nj \<noteq> ni" by auto
    with False get show ?thesis by (auto simp: pend_def)
  qed
  then show "pend_step X s ni (if killed e then pend s ni else Some e') ?s"
    using put(2) by (simp add: pend_step_def ev_frame_flush)
qed

lemma pend_kill_event:
  assumes s: "sched_inv X s" and ni: "ni < length (node_pool s)" and ei: "event_index (node_pool s ! ni) = ei" "ei \<noteq> 0"
  obtains s' e where "kill_event ei ni s = Some s'" "pend s ni = Some e" "pend_step X s ni None s'"
    "get_event s' ei = Some (ev_kill e)" "ei \<in> pool_live (event_pool s')"
    "event_index (node_pool s' ! ni) = 0"
proof -
  obtain s' e where k: "get_event s ei = Some e" "\<not> killed e" "ev_node e = ni"
    "s' = s\<lparr>event_pool := (event_pool s)\<lparr>index_pool := (index_pool (event_pool s))[ei := ev_kill e]\<rparr>,
           node_pool := (node_pool s)[ni := clear_event (node_pool s ! ni)]\<rparr>"
    "kill_event ei ni s = Some s'" "sched_inv X s'" "ev_frame s s'"
    by (rule kill_event_ok [OF s ni ei]) (assumption | rule that)+
  have p: "pend s ni = Some e" using k(1) ei by (simp add: pend_def)
  note live = pend_event_index(2) [OF s ni p, unfolded ei(1)]
  note get = get_event_set [OF _ sched_inv_pool_ok [OF s], of ei "ev_kill e"]
  have get': "get_event s' j = (if j = ei then Some (ev_kill e) else get_event s j)" for j
    using get [of j] live by (simp add: k(4) get_event_def)
  have ev: "event_index (node_pool s' ! nj) = (if nj = ni then 0 else event_index (node_pool s ! nj))"
    if "nj < length (node_pool s)" for nj
    using that ni by (simp add: k(4) nth_list_update clear_event_def)
  have "pend s' nj = (if nj = ni then None else pend s nj)" if "nj < length (node_pool s)" for nj
  proof (cases "nj = ni")
    case False
    with event_index_inj [OF s that ni] ei have "event_index (node_pool s ! nj) \<noteq> ei" by metis
    with False show ?thesis by (simp add: pend_def ev [OF that] get')
  qed (simp add: pend_def ev [OF ni])
  then have "pend_step X s ni None s'" using k(6,7) by (simp add: pend_step_def ev_frame_flush)
  moreover have "ei \<in> pool_live (event_pool s')" using live by (simp add: k(4) pool_live_def pool_size_def)
  ultimately show ?thesis using that k(5) p get' [of ei] ev [OF ni] by simp
qed

lemma enqueue_new_event_frame:
  assumes "enqueue_new_event env e s = Some s'"
  shows "pool_ok (event_pool s) \<Longrightarrow> j \<in> pool_live (event_pool s) \<Longrightarrow> get_event s' j = get_event s j"
    "j \<noteq> ev_node e \<Longrightarrow> node_pool s' ! j = node_pool s ! j"
proof -
  from assms obtain i s1 t s2 where
    a: "allocate_event (ev_node e) e s = Some (i, s1)" and d: "get_delay_up env e s1 = Some (t, s2)"
    and q: "enqueue_event t i s2 = Some s'"
    by (auto simp: enqueue_new_event_def get_delay_dn_eq split: bind_splits if_splits)
  from a obtain p n where p: "pool_allocate (event_pool s) e = Some (i, p)" "s1 = put_node (s\<lparr>event_pool := p\<rparr>) (ev_node e) n"
    by (auto simp: allocate_event_def copy_event_def split: bind_splits prod.splits if_splits)
  from d have s2: "event_pool s2 = event_pool s1" "node_pool s2 = node_pool s1"
    by (auto simp: get_delay_up_def split: bind_splits prod.splits)
  from q have s': "event_pool s' = event_pool s2" "node_pool s' = node_pool s2"
    by (auto simp: enqueue_event_def load_enqueue_event_def split: bind_splits if_splits)
  show "get_event s' j = get_event s j" if "pool_ok (event_pool s)" "j \<in> pool_live (event_pool s)"
    using evp.allocate_frame [OF that(1) p(1) that(2)] p(2) s2 s' by (simp add: get_event_def)
  show "node_pool s' ! j = node_pool s ! j" if "j \<noteq> ev_node e" using that p(2) s2 s' by simp
qed

lemma pend_enqueue_new_event:
  assumes s: "sched_inv X s" and r: "random_ok env" and d: "delay_ok (timing_params s) (ev_cause_rule_ptr e)"
    and n: "ev_node e = ni" "ni < length (node_pool s)" "event_index (node_pool s ! ni) = 0"
    "\<not> is_atomic (node_pool s ! ni)" "\<not> is_frozen (node_pool s ! ni)" and e: "\<not> killed e"
  obtains s' where "enqueue_new_event env e s = Some s'" "pend_step X s ni (Some e) s'"
proof -
  from enqueue_new_event_ok [OF s r d] n e obtain s' i t where
    q: "enqueue_new_event env e s = Some s'" "sched_inv X s'" "ev_frame s s'"
    "get_event s' i = Some e" "event_index (node_pool s' ! ni) = i" by auto
  have "pend s' ni = Some e"
    using q(4,5) pend_event_index(1) [OF q(2), of ni] ev_frame_simps(5) [OF q(3)] n(2) by (auto simp: pend_def get_event_def pool_get_def)
  moreover have "pend s' nj = pend s nj" if "nj < length (node_pool s)" "nj \<noteq> ni" for nj
  proof -
    have "node_pool s' ! nj = node_pool s ! nj" using enqueue_new_event_frame(2) [OF q(1)] that(2) n(1) by simp
    moreover have "get_event s' (event_index (node_pool s ! nj)) = get_event s (event_index (node_pool s ! nj))"
      if "event_index (node_pool s ! nj) \<noteq> 0"
      using sched_inv_node [OF s \<open>nj < length (node_pool s)\<close> that]
        enqueue_new_event_frame(1) [OF q(1) sched_inv_pool_ok [OF s]] by blast
    ultimately show ?thesis by (simp add: pend_def)
  qed
  ultimately have "pend_step X s ni (Some e) s'" using q(2,3) by (simp add: pend_step_def ev_frame_flush)
  with q(1) that show ?thesis by blast
qed

text \<open>Recording a new cause for the value the node already has.\<close>

lemma pend_set_cause:
  assumes s: "sched_inv X s" and ni: "ni < length (node_pool s)" and v: "node_value (node_pool s ! ni) = v"
  obtains s' where "mod_node s ni (set_value_and_cause v c t) = Some s'" "pend_step X s ni (pend s ni) s'"
    "get_event s' = get_event s" "event_pool s' = event_pool s"
proof
  let ?n = "set_value_and_cause v c t (node_pool s ! ni)"
  let ?s = "put_node s ni ?n"
  show "mod_node s ni (set_value_and_cause v c t) = Some ?s" using ni by (simp add: mod_node_def)
  have n: "event_index ?n = event_index (node_pool s ! ni)" "is_atomic ?n = is_atomic (node_pool s ! ni)"
    "node_core ?n = node_core (node_pool s ! ni)"
    using v by (simp_all add: set_value_and_cause_def is_atomic_def node_core_def)
  have "map node_core (node_pool ?s) = map node_core (node_pool s)"
    using n(3) ni by (simp add: map_update list_update_same_conv)
  then have "flush_frame s ?s"
    unfolding flush_frame_def put_node_def
    by (intro exI [of _ "event_pool s"] exI [of _ "event_queue s"] exI [of _ "oracle_pos s"]
        exI [of _ "(node_pool s)[ni := ?n]"]) simp
  moreover have "pend ?s nj = pend s nj" if "nj < length (node_pool s)" for nj
    using n(1) that by (cases "nj = ni") (simp_all add: pend_def)
  ultimately show "pend_step X s ni (pend s ni) ?s"
    using sched_inv_put_node [OF s ni n(1,2)] by (simp add: pend_step_def)
  show "get_event ?s = get_event s" "event_pool ?s = event_pool s" by (simp_all add: fun_eq_iff)
qed

lemma pend_step_refl: "sched_inv X s \<Longrightarrow> pend s ni = eo \<Longrightarrow> pend_step X s ni eo s"
  by (simp add: pend_step_def)

lemma pend_step_trans:
  assumes "pend_step X s ni eo s'" and "pend_step X s' ni eo' s''"
  shows "pend_step X s ni eo' s''"
  using assms flush_frame_simps(5) [of s s'] flush_frame_trans [of s s' s'']
  by (auto simp: pend_step_def)

lemma pend_stepD:
  assumes "pend_step X s ni eo s'" and "ni < length (node_pool s)"
  shows "sched_inv X s'" "flush_frame s s'" "pend s' ni = eo" "ni < length (node_pool s')"
    "event_index (node_pool s' ! ni) = 0 \<longleftrightarrow> eo = None"
proof -
  show s': "sched_inv X s'" "flush_frame s s'" "pend s' ni = eo" using assms by (simp_all add: pend_step_def)
  then show ni: "ni < length (node_pool s')" using assms(2) by (simp add: flush_frame_simps)
  show "event_index (node_pool s' ! ni) = 0 \<longleftrightarrow> eo = None"
    using pend_event_index(1) [OF s'(1) ni] s'(3) by simp
qed

section \<open>The decision\<close>

text \<open>The value that the pulls of a node call for; None is the aborting check of the source.\<close>

definition pull_target :: "pull_set \<Rightarrow> value_enum \<Rightarrow> value_enum option" where
  "pull_target p old_val = (if possible_interference_any p then Some LOGIC_OTHER else fired_value p old_val)"

text \<open>
  The value pending after the flush: \<open>v\<close> is the target, \<open>pending\<close> the value pending before with the flag of
  user-forced events, \<open>discard\<close> tells whether unstable events are dropped rather than turned into X.
\<close>

definition flush_outcome ::
  "pull_set \<Rightarrow> value_enum \<Rightarrow> value_enum \<Rightarrow> (value_enum \<times> bool) option \<Rightarrow> bool \<Rightarrow> value_enum option" where
  "flush_outcome p old_val v pending discard =
     (let new = (if v \<noteq> old_val then Some v else None);
          unknown = (if old_val = LOGIC_OTHER then None else Some LOGIC_OTHER) in
      case pending of
        None \<Rightarrow> new
      | Some (pval, frc) \<Rightarrow>
          if possible_interference_any p then (if frc then Some pval else unknown)
          else if have_instability p pval then (if discard then new else unknown)
          else if (pulling_dn p \<or> pulling_up p) \<and> v \<noteq> pval \<and> pval = LOGIC_OTHER then new
          else Some pval)"

definition rule_allows_instability :: "prsim_state \<Rightarrow> event \<Rightarrow> bool" where
  "rule_allows_instability s e =
     (case lookup_rule s (ev_cause_rule e) of Some (Some r) \<Rightarrow> is_unstable r | _ \<Rightarrow> False)"

definition discards_unstable :: "prsim_state \<Rightarrow> bool \<Rightarrow> event \<Rightarrow> bool" where
  "discards_unstable s excl e \<longleftrightarrow> dequeue_unstable_events s \<or> rule_allows_instability s e \<or>
     (excl \<and> dequeue_excl_unstable_events s)"

lemma wins_pulling:
  "pull_up_wins_any p \<Longrightarrow> pulling_up p" "pull_dn_wins_any p \<Longrightarrow> pulling_dn p"
  by (auto simp: pull_set_defs)

lemma pulling_wins:
  "weak_rules_off p \<Longrightarrow> \<not> possible_interference_any p \<Longrightarrow> pulling_up p \<Longrightarrow> pull_up_wins_any p"
  "weak_rules_off p \<Longrightarrow> \<not> possible_interference_any p \<Longrightarrow> pulling_dn p \<Longrightarrow> pull_dn_wins_any p"
  by (auto simp: pull_set_defs)

lemma fired_value_total: "weak_rules_off p \<Longrightarrow> \<not> possible_interference_any p \<Longrightarrow> fired_value p v \<noteq> None"
  by (cases "ps_up p"; cases "ps_dn p") (simp_all add: fired_value_def pull_set_defs)

text \<open>An unstable pending event is not the target, unless it is vacuous.\<close>

lemma unstable_not_target:
  assumes "have_instability p pval" and "fired_value p old_val = Some v" and "pval \<noteq> old_val"
  shows "v \<noteq> pval"
proof
  assume v: "v = pval"
  show False
  proof (cases "pull_up_wins_any p \<or> pull_dn_wins_any p")
    case True
    with assms v wins_pulling [of p] winner_exclusive [of p] show False
      by (cases pval) (auto simp: fired_value_def have_instability_def)
  next
    case False
    with assms v have "v = old_val \<or> v = LOGIC_OTHER" by (auto simp: fired_value_def split: if_splits bind_splits)
    with assms v show False by (auto simp: have_instability_def)
  qed
qed

section \<open>The event slot of a node during the flush\<close>

text \<open>\<open>ei\<close> is the index of the event that was pending before; the event may have been killed since.\<close>

definition slot :: "nat set \<Rightarrow> prsim_state \<Rightarrow> event_index_type \<Rightarrow> node_index_type \<Rightarrow> event \<Rightarrow> bool" where
  "slot X s ei ni e \<longleftrightarrow> sched_inv X s \<and> ni < length (node_pool s) \<and> get_event s ei = Some e \<and>
     ei \<in> pool_live (event_pool s) \<and> ev_node e = ni \<and> pend s ni = (if killed e then None else Some e) \<and>
     (\<not> killed e \<longrightarrow> event_index (node_pool s ! ni) = ei)"

lemma slot_start:
  assumes "sched_inv X s" and "ni < length (node_pool s)" and "pend s ni = Some e"
  shows "slot X s (event_index (node_pool s ! ni)) ni e"
  using pend_event_index(2) [OF assms] assms by (simp add: slot_def)

lemma slot_put:
  assumes sl: "slot X s ei ni e" and e': "ev_node e' = ev_node e" "killed e' = killed e"
  obtains s' where "put_event s ei e' = Some s'" "pend_step X s ni (if killed e then None else Some e') s'" "slot X s' ei ni e'"
proof -
  from sl have l: "ei \<in> pool_live (event_pool s)" "ni < length (node_pool s)" by (simp_all add: slot_def)
  obtain s' where p: "put_event s ei e' = Some s'" "pend_step X s ni (if killed e then pend s ni else Some e') s'"
    "get_event s' ei = Some e'" "node_pool s' = node_pool s" "event_queue s' = event_queue s"
    by (rule pend_put_event [OF _ _ l(1) e', of X ni]) (use sl in \<open>auto simp: slot_def intro: that\<close>)
  from sl p(2) have st: "pend_step X s ni (if killed e then None else Some e') s'" by (auto simp: slot_def split: if_splits)
  from pend_stepD [OF st l(2)] have "sched_inv X s'" "pend s' ni = (if killed e then None else Some e')" by simp_all
  moreover have "ei \<in> pool_live (event_pool s')"
    using p(1) l(1) pool_set_live(1,2) [OF sched_inv_pool_ok l(1), of X] sl
    by (auto simp: put_event_def slot_def split: bind_splits)
  ultimately have "slot X s' ei ni e'" using sl p(3,4) e' by (auto simp: slot_def)
  with p(1) st that show ?thesis by blast
qed

lemma slot_kill:
  assumes sl: "slot X s ei ni e" and k: "\<not> killed e"
  obtains s' where "kill_event ei ni s = Some s'" "pend_step X s ni None s'" "slot X s' ei ni (ev_kill e)"
    "event_index (node_pool s' ! ni) = 0"
proof -
  from sl k have l: "sched_inv X s" "ni < length (node_pool s)" "event_index (node_pool s ! ni) = ei" "ei \<in> pool_live (event_pool s)"
    "pend s ni = Some e" "ev_node e = ni" by (simp_all add: slot_def)
  then have "ei \<noteq> 0" by (metis zero_not_live)
  obtain s' where p: "kill_event ei ni s = Some s'" "pend_step X s ni None s'"
    "get_event s' ei = Some (ev_kill e)" "ei \<in> pool_live (event_pool s')" "event_index (node_pool s' ! ni) = 0"
    by (rule pend_kill_event [OF l(1-3) \<open>ei \<noteq> 0\<close>]) (use l(5) that in simp)
  have "slot X s' ei ni (ev_kill e)" using pend_stepD [OF p(2) l(2)] p(3,4) l(6) by (simp add: slot_def)
  with p that show ?thesis by blast
qed

lemma slot_set_cause:
  assumes sl: "slot X s ei ni e" and k: "killed e" and v: "node_value (node_pool s ! ni) = v"
  obtains s' where "mod_node s ni (set_value_and_cause v c t) = Some s'" "pend_step X s ni None s'" "slot X s' ei ni e"
proof -
  from sl k have l: "sched_inv X s" "ni < length (node_pool s)" "pend s ni = None" by (simp_all add: slot_def)
  obtain s' where p: "mod_node s ni (set_value_and_cause v c t) = Some s'" "pend_step X s ni (pend s ni) s'"
    "get_event s' = get_event s" "event_pool s' = event_pool s"
    by (rule pend_set_cause [OF l(1,2) v]) (rule that)
  have "slot X s' ei ni e" using pend_stepD [OF p(2) l(2)] p(3,4) sl k by (auto simp: slot_def)
  with p l(3) that show ?thesis by simp
qed

section \<open>Refinement\<close>

lemma event_updates [simp]:
  "forced (ev_set_weak w e) = forced e" "forced (set_cause_node k e) = forced e" "forced (e\<lparr>ev_val := v\<rparr>) = forced e"
  "forced (e\<lparr>ev_cause := c\<rparr>) = forced e" "killed (e\<lparr>ev_cause := c\<rparr>) = killed e" "forced (ev_kill e) = forced e"
  "ev_cause_rule (ev_set_weak w e) = ev_cause_rule e" "ev_cause_rule (set_cause_node k e) = ev_cause_rule e"
  "ev_cause_rule (ev_kill e) = ev_cause_rule e" "killed (set_cause_node k e) = killed e" "ev_node (set_cause_node k e) = ev_node e"
  "ev_val (set_cause_node k e) = ev_val e" "ev_node (ev_kill e) = ev_node e" "ev_val (ev_kill e) = ev_val e"
  "ev_cause_rule_ptr (ev_set_weak w e) = ev_cause_rule_ptr e" "ev_val (ev_set_weak w e) = ev_val e" "ev_node (ev_set_weak w e) = ev_node e"
  "killed (ev_set_weak w e) = killed e"
  by (simp_all add: event_flag_defs set_cause_node_def bit_simps)

text \<open>The event that \<open>flush_node\<close> prepares.\<close>

definition new_event_ok :: "prsim_state \<Rightarrow> node_index_type \<Rightarrow> event \<Rightarrow> bool" where
  "new_event_ok s ni e \<longleftrightarrow> ev_node e = ni \<and> \<not> killed e \<and> \<not> forced e \<and>
     delay_ok (timing_params s) (ev_cause_rule_ptr e) \<and> \<not> is_atomic (node_pool s ! ni) \<and> \<not> is_frozen (node_pool s ! ni)"

lemma new_event_ok_frame:
  assumes "new_event_ok s ni e" and "flush_frame s s'" and "ni < length (node_pool s)"
  shows "new_event_ok s' ni e"
  using assms(1) flush_frame_simps(2) [OF assms(2)] node_core_eqD(4,5) [OF flush_frame_core [OF assms(2,3)]]
  by (simp add: new_event_ok_def)

text \<open>Kill the pending event and enqueue the new one unless it is vacuous.\<close>

lemma replace_pending:
  assumes sl: "slot X s ei ni pe" and k: "\<not> killed pe" and r: "random_ok env" and ne: "new_event_ok s ni ne"
  obtains s' where "(do { s1 \<leftarrow> kill_event ei ni s; if ev_val ne \<noteq> old_val then enqueue_new_event env ne s1 else Some s1 }) = Some s'"
    "pend_step X s ni (if ev_val ne \<noteq> old_val then Some ne else None) s'"
proof -
  from sl have ni: "ni < length (node_pool s)" by (simp add: slot_def)
  obtain s1 where 1: "kill_event ei ni s = Some s1" "pend_step X s ni None s1" "event_index (node_pool s1 ! ni) = 0"
    by (rule slot_kill [OF sl k]) (rule that)
  note d = pend_stepD [OF 1(2) ni]
  from new_event_ok_frame [OF ne d(2) ni] have ne1: "new_event_ok s1 ni ne" .
  show ?thesis
  proof (cases "ev_val ne = old_val")
    case True
    with 1 that [of s1] show ?thesis by simp
  next
    case False
    obtain s2 where 2: "enqueue_new_event env ne s1 = Some s2" "pend_step X s1 ni (Some ne) s2"
      by (rule pend_enqueue_new_event [OF d(1) r, of ne ni]) (use ne1 d(4) 1(3) that in \<open>simp_all add: new_event_ok_def\<close>)
    from 1 2 False that [of s2] pend_step_trans [OF 1(2) 2(2)] show ?thesis by simp
  qed
qed

text \<open>Kill the pending event of a node that is X already, or turn the event into X.\<close>

lemma cancel_pending:
  assumes sl: "slot X s ei ni pe" and k: "\<not> killed pe" and v: "node_value (node_pool s ! ni) = LOGIC_OTHER"
  obtains s' e where "(do { s1 \<leftarrow> kill_event ei ni s; mod_node s1 ni (set_value_and_cause LOGIC_OTHER c et) }) = Some s'"
    "pend_step X s ni None s'" "slot X s' ei ni (ev_kill pe)"
proof -
  from sl have ni: "ni < length (node_pool s)" by (simp add: slot_def)
  obtain s1 where 1: "kill_event ei ni s = Some s1" "pend_step X s ni None s1" "slot X s1 ei ni (ev_kill pe)"
    by (rule slot_kill [OF sl k]) (rule that)
  note d = pend_stepD [OF 1(2) ni]
  have "node_value (node_pool s1 ! ni) = LOGIC_OTHER"
    using node_core_eqD(1) [OF flush_frame_core [OF d(2) ni]] v by simp
  from slot_set_cause [OF 1(3) _ this] obtain s2 where
    "mod_node s1 ni (set_value_and_cause LOGIC_OTHER c et) = Some s2" "pend_step X s1 ni None s2" "slot X s2 ei ni (ev_kill pe)"
    by (metis ev_kill_flags(1))
  with 1 pend_step_trans [OF 1(2)] that show ?thesis by simp
qed

lemma clobber_pending_spec:
  assumes sl: "slot X s ei ni pe" and k: "\<not> killed pe" and v: "node_value (node_pool s ! ni) = old_val"
  obtains s' e where "clobber_pending c et ni ei old_val s = Some s'" "slot X s' ei ni e"
    "pend_step X s ni (if killed e then None else Some e) s'" "ev_cause_rule e = ev_cause_rule pe" "forced e = forced pe"
    "(if killed e then None else Some (ev_val e)) =
       (if forced pe then Some (ev_val pe) else if old_val = LOGIC_OTHER then None else Some LOGIC_OTHER)"
proof -
  from sl have g: "get_event s ei = Some pe" and ps: "pend_step X s ni (Some pe) s"
    using k by (auto simp: slot_def intro!: pend_step_refl)
  consider "forced pe" | "\<not> forced pe" "old_val = LOGIC_OTHER" | "\<not> forced pe" "old_val \<noteq> LOGIC_OTHER" by blast
  then show ?thesis
  proof cases
    case 1
    with sl k g ps show ?thesis by (intro that [of s pe]) (simp_all add: clobber_pending_def)
  next
    case 2
    obtain s' where "(do { s1 \<leftarrow> kill_event ei ni s; mod_node s1 ni (set_value_and_cause LOGIC_OTHER c et) }) = Some s'"
      "pend_step X s ni None s'" "slot X s' ei ni (ev_kill pe)"
      by (rule cancel_pending [OF sl k]) (use v 2 that in auto)
    with 2 g show ?thesis by (intro that [of s' "ev_kill pe"]) (simp_all add: clobber_pending_def)
  next
    case 3
    obtain s' where "put_event s ei (pe\<lparr>ev_val := LOGIC_OTHER, ev_cause := c\<rparr>) = Some s'"
      "pend_step X s ni (if killed pe then None else Some (pe\<lparr>ev_val := LOGIC_OTHER, ev_cause := c\<rparr>)) s'"
      "slot X s' ei ni (pe\<lparr>ev_val := LOGIC_OTHER, ev_cause := c\<rparr>)"
      by (rule slot_put [OF sl, of "pe\<lparr>ev_val := LOGIC_OTHER, ev_cause := c\<rparr>"]) (use that in simp_all)
    with 3 g k show ?thesis
      by (intro that [of s' "pe\<lparr>ev_val := LOGIC_OTHER, ev_cause := c\<rparr>"]) (simp_all add: clobber_pending_def)
  qed
qed

text \<open>What a flush leaves pending: the value of the decision, from the old or the new rule, forced only if it was.\<close>

definition pending_result :: "event \<Rightarrow> event \<Rightarrow> event option \<Rightarrow> bool" where
  "pending_result pe ne eo \<longleftrightarrow>
     (\<forall>e. eo = Some e \<longrightarrow> ev_cause_rule e \<in> {ev_cause_rule pe, ev_cause_rule ne} \<and> (forced e \<longrightarrow> forced pe))"

lemma resolve_instability_spec:
  assumes sl: "slot X s ei ni pe" and k: "\<not> killed pe" and r: "random_ok env" and ne: "new_event_ok s ni ne"
    and v: "node_value (node_pool s ! ni) = old_val" and l: "lookup_rule s (ev_cause_rule pe) \<noteq> None"
  obtains s' eo where "resolve_instability env c et ni ei excl ww ne old_val s = Some s'" "pend_step X s ni eo s'"
    "pending_result pe ne eo"
    "map_option ev_val eo = (if discards_unstable s excl pe then (if ev_val ne \<noteq> old_val then Some (ev_val ne) else None)
       else if old_val = LOGIC_OTHER then None else Some LOGIC_OTHER)"
proof -
  from sl have g: "get_event s ei = Some pe" by (simp add: slot_def)
  from l obtain ro where ro: "lookup_rule s (ev_cause_rule pe) = Some ro" by blast
  then have un: "rule_allows_instability s pe = (case ro of None \<Rightarrow> False | Some r \<Rightarrow> is_unstable r)"
    by (simp add: rule_allows_instability_def split: option.split)
  note res = resolve_instability_def [of env c et ni ei excl ww ne old_val s]
  consider "discards_unstable s excl pe" | "\<not> discards_unstable s excl pe" "old_val = LOGIC_OTHER"
    | "\<not> discards_unstable s excl pe" "old_val \<noteq> LOGIC_OTHER" by blast
  then show ?thesis
  proof cases
    case 1
    obtain s' where "(do { s1 \<leftarrow> kill_event ei ni s; if ev_val ne \<noteq> old_val then enqueue_new_event env ne s1 else Some s1 }) = Some s'"
      "pend_step X s ni (if ev_val ne \<noteq> old_val then Some ne else None) s'"
      by (rule replace_pending [OF sl k r ne, of old_val]) (rule that)
    with 1 g ro ne show ?thesis
      by (intro that [of s' "if ev_val ne \<noteq> old_val then Some ne else None"])
        (simp_all add: res un [symmetric] discards_unstable_def pending_result_def new_event_ok_def)
  next
    case 2
    obtain s' where "(do { s1 \<leftarrow> kill_event ei ni s; mod_node s1 ni (set_value_and_cause LOGIC_OTHER c et) }) = Some s'"
      "pend_step X s ni None s'"
      by (rule cancel_pending [OF sl k]) (use v 2 that in auto)
    with 2 g ro show ?thesis
      by (intro that [of s' None])
        (auto simp: resolve_instability_def un [symmetric] discards_unstable_def pending_result_def)
  next
    case 3
    let ?e = "ev_set_weak ww (set_cause_node (cause_node c) (pe\<lparr>ev_val := LOGIC_OTHER\<rparr>))"
    obtain s' where "put_event s ei ?e = Some s'" "pend_step X s ni (if killed pe then None else Some ?e) s'"
      by (rule slot_put [OF sl, of ?e]) (use that in simp_all)
    with 3 g ro k show ?thesis
      by (intro that [of s' "Some ?e"]) (auto simp: res un [symmetric] discards_unstable_def pending_result_def)
  qed
qed

text \<open>The update of the cause before the diagnostic.\<close>

lemma slot_blame:
  assumes "slot X s ei ni e"
  obtains s' e' where "put_event s ei (e\<lparr>ev_cause := (ev_cause e)\<lparr>cause_node := a, cause_val := b\<rparr>\<rparr>) = Some s'"
    "slot X s' ei ni e'" "pend_step X s ni (if killed e' then None else Some e') s'"
    "e' = e\<lparr>ev_cause := (ev_cause e)\<lparr>cause_node := a, cause_val := b\<rparr>\<rparr>"
  by (rule slot_put [OF assms, of "e\<lparr>ev_cause := (ev_cause e)\<lparr>cause_node := a, cause_val := b\<rparr>\<rparr>"])
    (simp_all add: that)

lemma flush_pending_spec:
  assumes sl: "slot X s ei ni pe" and k: "\<not> killed pe" and r: "random_ok env" and ne: "new_event_ok s ni ne"
    and v: "node_value (node_pool s ! ni) = old_val" and l: "lookup_rule s (ev_cause_rule pe) \<noteq> None"
    and t: "pull_target p old_val = Some (ev_val ne)" and nv: "ev_val pe \<noteq> old_val"
  shows "\<exists>err' s' eo. flush_pending env c et ni ei p (possible_interference_any p) excl ne old_val err s = Some (err', s') \<and>
    pend_step X s ni eo s' \<and> pending_result pe ne eo \<and>
    map_option ev_val eo = flush_outcome p old_val (ev_val ne) (Some (ev_val pe, forced pe)) (discards_unstable s excl pe)"
proof -
  from sl have ni: "ni < length (node_pool s)" and g: "get_event s ei = Some pe" by (simp_all add: slot_def)
  let ?i = "possible_interference_any p"
  obtain s1 e1 where 1: "(if ?i then clobber_pending c et ni ei old_val s else Some s) = Some s1" "slot X s1 ei ni e1"
    "pend_step X s ni (if killed e1 then None else Some e1) s1" "ev_cause_rule e1 = ev_cause_rule pe" "forced e1 = forced pe"
    "?i \<Longrightarrow> (if killed e1 then None else Some (ev_val e1)) =
       (if forced pe then Some (ev_val pe) else if old_val = LOGIC_OTHER then None else Some LOGIC_OTHER)"
    "\<not> ?i \<Longrightarrow> e1 = pe"
  proof (cases ?i)
    case True
    obtain s' e where "clobber_pending c et ni ei old_val s = Some s'" "slot X s' ei ni e"
      "pend_step X s ni (if killed e then None else Some e) s'" "ev_cause_rule e = ev_cause_rule pe" "forced e = forced pe"
      "(if killed e then None else Some (ev_val e)) =
         (if forced pe then Some (ev_val pe) else if old_val = LOGIC_OTHER then None else Some LOGIC_OTHER)"
      by (rule clobber_pending_spec [OF sl k v, of c et]) (rule that)
    with True that [of s' e] show ?thesis by simp
  next
    case False
    with sl k that [of s pe] show ?thesis by (auto simp: slot_def intro: pend_step_refl)
  qed
  note d1 = pend_stepD [OF 1(3) ni]
  let ?u = "have_instability p (ev_val pe)"
  obtain s2 e2 err2 where 2: "(if ?u then do {
          pe \<leftarrow> get_event s1 ei;
          let pe' = pe\<lparr>ev_cause := (ev_cause pe)\<lparr>cause_node := cause_node c, cause_val := cause_val c\<rparr>\<rparr>;
          s2 \<leftarrow> put_event s1 ei pe';
          Some (worse_policy err (report_instability (cause_val c = LOGIC_OTHER) excl pe' s2), s2) }
        else Some (err, s1)) = Some (err2, s2)" "slot X s2 ei ni e2" "pend_step X s1 ni (if killed e2 then None else Some e2) s2"
    "ev_cause_rule e2 = ev_cause_rule pe" "forced e2 = forced pe" "ev_val e2 = ev_val e1" "killed e2 = killed e1"
  proof (cases ?u)
    case True
    obtain s' e' where "put_event s1 ei (e1\<lparr>ev_cause := (ev_cause e1)\<lparr>cause_node := cause_node c, cause_val := cause_val c\<rparr>\<rparr>) = Some s'"
      "slot X s' ei ni e'" "pend_step X s1 ni (if killed e' then None else Some e') s'"
      "e' = e1\<lparr>ev_cause := (ev_cause e1)\<lparr>cause_node := cause_node c, cause_val := cause_val c\<rparr>\<rparr>"
      by (rule slot_blame [OF 1(2)]) (rule that)
    with True 1(2,4,5) that [of _ s' e'] show ?thesis by (simp add: slot_def)
  next
    case False
    have "pend_step X s1 ni (if killed e1 then None else Some e1) s1"
      using 1(2) by (auto simp: slot_def intro!: pend_step_refl)
    with False 1 that [of err s1 e1] show ?thesis by simp
  qed
  note d2 = pend_stepD [OF 2(3) d1(4)]
  have ps: "pend_step X s ni (if killed e2 then None else Some e2) s2" by (rule pend_step_trans [OF 1(3) 2(3)])
  note f2 = flush_frame_trans [OF d1(2) d2(2)]
  note sim = flush_frame_simps [OF f2]
  have ne2: "new_event_ok s2 ni ne" by (rule new_event_ok_frame [OF ne f2 ni])
  have v2: "node_value (node_pool s2 ! ni) = old_val" using node_core_eqD(1) [OF flush_frame_core [OF f2 ni]] v by simp
  have disc: "discards_unstable s2 excl e2 = discards_unstable s excl pe"
    by (simp add: discards_unstable_def rule_allows_instability_def sim 2(4))
  let ?out = "flush_outcome p old_val (ev_val ne) (Some (ev_val pe, forced pe)) (discards_unstable s excl pe)"
  have unf: "flush_pending env c et ni ei p ?i excl ne old_val err s =
      (do { s3 \<leftarrow> (if ?i then Some s2
          else if ?u then do {
            INVARIANT (ev_val ne \<noteq> ev_val pe);
            resolve_instability env c et ni ei excl (weak_wins_any p) ne old_val s2 }
          else do {
            pe' \<leftarrow> get_event s2 ei;
            if (pulling_dn p \<or> pulling_up p) \<and> ev_val ne \<noteq> ev_val pe \<and> ev_val pe' = LOGIC_OTHER then do {
              INVARIANT (ev_val ne \<noteq> LOGIC_OTHER);
              s3 \<leftarrow> kill_event ei ni s2;
              if ev_val ne \<noteq> old_val then enqueue_new_event env ne s3 else Some s3 }
            else Some s2 });
          Some (err2, s3) })"
    unfolding flush_pending_def g by (simp only: Let_def option.simps bind_simps bind.bind_lunit 1(1) 2(1) [unfolded Let_def] prod.case)
  consider (int) ?i | (unst) "\<not> ?i" ?u | (stable) "\<not> ?i" "\<not> ?u" by blast
  then show ?thesis
  proof cases
    case int
    let ?eo = "if killed e2 then None else Some e2"
    have "map_option ev_val ?eo = ?out" using int 1(6) 2(6,7)
      by (auto simp: flush_outcome_def Let_def split: if_splits)
    moreover have "pending_result pe ne ?eo" using 2(4,5) by (simp add: pending_result_def)
    moreover have "flush_pending env c et ni ei p ?i excl ne old_val err s = Some (err2, s2)" unfolding unf using int by simp
    ultimately show ?thesis using ps by blast
  next
    case unst
    have e1: "e1 = pe" using unst(1) by (rule 1(7))
    have tgt: "ev_val ne \<noteq> ev_val pe"
      by (rule unstable_not_target [OF unst(2) _ nv]) (use t unst in \<open>simp add: pull_target_def\<close>)
    have k2: "\<not> killed e2" and l2: "lookup_rule s2 (ev_cause_rule e2) \<noteq> None" using 2(4,7) e1 k l sim by simp_all
    obtain s3 eo where 3: "resolve_instability env c et ni ei excl (weak_wins_any p) ne old_val s2 = Some s3" "pend_step X s2 ni eo s3"
      "pending_result e2 ne eo"
      "map_option ev_val eo = (if discards_unstable s2 excl e2 then (if ev_val ne \<noteq> old_val then Some (ev_val ne) else None)
         else if old_val = LOGIC_OTHER then None else Some LOGIC_OTHER)"
      by (rule resolve_instability_spec [OF 2(2) k2 r ne2 v2 l2, of c et excl "weak_wins_any p"]) (rule that)
    have "pending_result pe ne eo" using 3(3) 2(4,5) by (simp add: pending_result_def)
    moreover have "map_option ev_val eo = ?out" using 3(4) unst disc by (simp add: flush_outcome_def Let_def)
    moreover have "flush_pending env c et ni ei p ?i excl ne old_val err s = Some (err2, s3)"
      unfolding unf using unst tgt 3(1) by simp
    ultimately show ?thesis using pend_step_trans [OF ps 3(2)] by blast
  next
    case stable
    have e1: "e1 = pe" using stable(1) by (rule 1(7))
    have k2: "\<not> killed e2" "get_event s2 ei = Some e2" "ev_val e2 = ev_val pe" using 2(2,6,7) e1 k by (simp_all add: slot_def)
    show ?thesis
    proof (cases "(pulling_dn p \<or> pulling_up p) \<and> ev_val ne \<noteq> ev_val pe \<and> ev_val pe = LOGIC_OTHER")
      case True
      let ?eo = "if ev_val ne \<noteq> old_val then Some ne else None"
      obtain s3 where 3: "(do { s1 \<leftarrow> kill_event ei ni s2; if ev_val ne \<noteq> old_val then enqueue_new_event env ne s1 else Some s1 }) = Some s3"
        "pend_step X s2 ni ?eo s3"
        by (rule replace_pending [OF 2(2) k2(1) r ne2, of old_val]) (rule that)
      have "map_option ev_val ?eo = ?out" using stable True by (auto simp: flush_outcome_def Let_def)
      moreover have "pending_result pe ne ?eo" using ne by (simp add: pending_result_def new_event_ok_def)
      moreover have "ev_val ne \<noteq> LOGIC_OTHER" using True by auto
      ultimately have "flush_pending env c et ni ei p ?i excl ne old_val err s = Some (err2, s3) \<and> pending_result pe ne ?eo \<and>
          map_option ev_val ?eo = ?out"
        unfolding unf using stable True k2 3(1) by simp
      then show ?thesis using pend_step_trans [OF ps 3(2)] by blast
    next
      case False
      have "map_option ev_val (Some e2) = ?out" using stable False k2 by (auto simp: flush_outcome_def Let_def)
      moreover have "pending_result pe ne (Some e2)" using 2(4,5) by (simp add: pending_result_def)
      moreover have "flush_pending env c et ni ei p ?i excl ne old_val err s = Some (err2, s2)"
        unfolding unf using stable False k2 by auto
      moreover have "pend_step X s ni (Some e2) s2" using ps k2 by simp
      ultimately show ?thesis by blast
    qed
  qed
qed

section \<open>One node\<close>

lemma Event_default_sel [simp]: "\<not> killed Event_default" "\<not> forced Event_default"
  by (simp_all add: Event_default_def event_flag_defs)

definition updated_ok :: "prsim_state \<Rightarrow> node_index_type \<Rightarrow> node_update_info \<Rightarrow> bool" where
  "updated_ok s ni nui \<longleftrightarrow> ni \<noteq> INVALID_NODE_INDEX \<and> ni < length (node_pool s) \<and> \<not> is_atomic (node_pool s ! ni) \<and> \<not> is_frozen (node_pool s ! ni) \<and>
     delay_ok (timing_params s) (nui_rule_ptr nui) \<and> lookup_rule s (nui_rule_index nui) \<noteq> None"

text \<open>What is known of a pending event: its rule can be looked up, and it changes the value of its node.\<close>

definition pending_ok :: "prsim_state \<Rightarrow> node_index_type \<Rightarrow> bool" where
  "pending_ok s ni \<longleftrightarrow> (\<forall>e. pend s ni = Some e \<longrightarrow>
     ev_val e \<noteq> node_value (node_pool s ! ni) \<and> lookup_rule s (ev_cause_rule e) \<noteq> None)"

definition flush_decision :: "prsim_state \<Rightarrow> event_cause \<Rightarrow> node_index_type \<Rightarrow> bool \<Rightarrow> value_enum \<Rightarrow> value_enum option" where
  "flush_decision s c ni excl v =
     flush_outcome (effective_pull_set (node_pool s ! ni) (weak_rules_enabled s) excl (cause_val c))
       (node_value (node_pool s ! ni)) v (map_option (\<lambda>e. (ev_val e, forced e)) (pend s ni))
       (case pend s ni of Some e \<Rightarrow> discards_unstable s excl e | None \<Rightarrow> False)"

lemma flush_node_spec:
  assumes s: "sched_inv X s" and r: "random_ok env" and u: "map_of (updated_nodes s) ni = Some nui" "updated_ok s ni nui"
    and pk: "pending_ok s ni"
    and t: "pull_target (effective_pull_set (node_pool s ! ni) (weak_rules_enabled s) (excl_blocked nui) (cause_val c))
      (node_value (node_pool s ! ni)) = Some v"
  shows "\<exists>err' s1 eo. flush_node env c et ni err s =
      Some (err', s1\<lparr>updated_nodes := map_erase ni (updated_nodes s)\<rparr>) \<and>
    pend_step X s ni eo s1 \<and> map_option ev_val eo = flush_decision s c ni (excl_blocked nui) v \<and>
    (\<forall>e. eo = Some e \<longrightarrow> lookup_rule s (ev_cause_rule e) \<noteq> None \<and>
       (forced e \<longrightarrow> (\<exists>pe. pend s ni = Some pe \<and> forced pe)))"
proof -
  from u(2) have ni: "ni < length (node_pool s)" and l: "lookup_rule s (nui_rule_index nui) \<noteq> None"
    by (simp_all add: updated_ok_def)
  let ?n = "node_pool s ! ni" and ?old = "node_value (node_pool s ! ni)"
  let ?p = "effective_pull_set ?n (weak_rules_enabled s) (excl_blocked nui) (cause_val c)"
  define new where "new = Event_default\<lparr>ev_node := ni, ev_cause := c, ev_cause_rule := nui_rule_index nui,
                                  ev_cause_rule_ptr := nui_rule_ptr nui\<rparr>"
  define ne where "ne = (ev_set_weak (if possible_interference_any ?p then weak_rule_involved (interference_info_of ?p)
      else weak_wins_any ?p) new)\<lparr>ev_val := v\<rparr>"
  have weak: "(if w then ev_set_weak True new else new) = ev_set_weak w new" for w
    by (simp add: new_def Event_default_def ev_set_weak_def)
  obtain err1 where 1: "(if have_interference (interference_info_of ?p) then do {
          let ne = (if weak_rule_involved (interference_info_of ?p) then ev_set_weak True new else new)\<lparr>ev_val := LOGIC_OTHER\<rparr>;
          let old_interf = interference_info_of (old_pull_set nui);
          Some (if \<not> have_interference old_interf \<or> val_type old_interf \<noteq> val_type (interference_info_of ?p)
                then worse_policy err (report_interference (possible_interference (interference_info_of ?p)) ?n s) else err, ne) }
        else do {
          v \<leftarrow> fired_value ?p ?old;
          Some (err, (ev_set_weak (weak_wins_any ?p) new)\<lparr>ev_val := v\<rparr>) }) = Some (err1, ne)"
    using t by (cases "possible_interference_any ?p")
      (simp_all add: have_interference_iff pull_target_def ne_def weak Let_def)
  have ne: "new_event_ok s ni ne" "ev_val ne = v" "ev_cause_rule ne = nui_rule_index nui"
    using u(2) by (simp_all add: new_event_ok_def updated_ok_def ne_def new_def event_flag_defs bit_simps Event_default_def)
  define pei where "pei = event_index ?n"
  have unf: "flush_node env c et ni err s = (do {
     (err2, s1) \<leftarrow>
       (if pei \<noteq> INVALID_EVENT_INDEX then
          flush_pending env c et ni pei ?p (possible_interference_any ?p) (excl_blocked nui) ne ?old err1 s
        else if ev_val ne \<noteq> ?old then do { s1 \<leftarrow> enqueue_new_event env ne s; Some (err1, s1) }
        else Some (err1, s));
     Some (err2, s1\<lparr>updated_nodes := map_erase ni (updated_nodes s1)\<rparr>) })"
    unfolding flush_node_def get_node_nth [OF ni] u(1) bind.bind_lunit Let_def
    unfolding new_def [symmetric] 1 [unfolded Let_def] pei_def [symmetric] by (simp add: have_interference_iff)
  show ?thesis
  proof (cases "pend s ni")
    case None
    then have p0: "event_index ?n = 0" using pend_event_index(1) [OF s ni] by simp
    show ?thesis
    proof (cases "v = ?old")
      case True
      have "map_option ev_val None = flush_decision s c ni (excl_blocked nui) v"
        using None True by (simp add: flush_decision_def flush_outcome_def)
      with True ne p0 pend_step_refl [OF s None] show ?thesis
        by (intro exI [of _ err1] exI [of _ s] exI [of _ None]) (simp add: unf pei_def)
    next
      case False
      obtain s1 where 2: "enqueue_new_event env ne s = Some s1" "pend_step X s ni (Some ne) s1"
        by (rule pend_enqueue_new_event [OF s r, of ne ni]) (use ne ni p0 that in \<open>simp_all add: new_event_ok_def\<close>)
      have "map_option ev_val (Some ne) = flush_decision s c ni (excl_blocked nui) v"
        using None False ne by (simp add: flush_decision_def flush_outcome_def)
      moreover have "updated_nodes s1 = updated_nodes s" using flush_frame_simps(7) [OF pend_stepD(2) [OF 2(2) ni]] .
      ultimately show ?thesis using False ne p0 l 2
        by (intro exI [of _ err1] exI [of _ s1] exI [of _ "Some ne"]) (simp add: unf pei_def new_event_ok_def)
    qed
  next
    case (Some pe)
    note sl = slot_start [OF s ni Some]
    have k: "\<not> killed pe" "pei \<noteq> 0" using pend_event_index(2) [OF s ni Some] Some by (auto simp: pei_def pend_def split: if_splits)
    from pk Some have l': "lookup_rule s (ev_cause_rule pe) \<noteq> None" and nv: "ev_val pe \<noteq> ?old" by (auto simp: pending_ok_def)
    from flush_pending_spec [OF sl k(1) r ne(1) refl l' _ nv, of ?p c et "excl_blocked nui" err1] t ne(2) obtain err' s1 eo where
      3: "flush_pending env c et ni pei ?p (possible_interference_any ?p) (excl_blocked nui) ne ?old err1 s = Some (err', s1)"
      "pend_step X s ni eo s1" "pending_result pe ne eo"
      "map_option ev_val eo = flush_outcome ?p ?old v (Some (ev_val pe, forced pe)) (discards_unstable s (excl_blocked nui) pe)"
      unfolding pei_def by metis
    have "updated_nodes s1 = updated_nodes s" using flush_frame_simps(7) [OF pend_stepD(2) [OF 3(2) ni]] .
    moreover have "map_option ev_val eo = flush_decision s c ni (excl_blocked nui) v"
      using 3(4) Some by (simp add: flush_decision_def)
    moreover have "lookup_rule s (ev_cause_rule e) \<noteq> None \<and> (forced e \<longrightarrow> forced pe)" if "eo = Some e" for e
      using 3(3) that l l' ne(3) by (auto simp: pending_result_def)
    ultimately show ?thesis using 3(1,2) k(2) Some
      by (intro exI [of _ err'] exI [of _ s1] exI [of _ eo]) (simp add: unf)
  qed
qed

section \<open>All updated nodes\<close>

text \<open>The value that is pending on an updated node after the flush, from the state before.\<close>

definition flush_target :: "prsim_state \<Rightarrow> event_cause \<Rightarrow> node_index_type \<Rightarrow> node_update_info \<Rightarrow> value_enum option" where
  "flush_target s c ni nui =
     pull_target (effective_pull_set (node_pool s ! ni) (weak_rules_enabled s) (excl_blocked nui) (cause_val c))
       (node_value (node_pool s ! ni))"

definition flush_value :: "prsim_state \<Rightarrow> event_cause \<Rightarrow> node_index_type \<Rightarrow> value_enum option" where
  "flush_value s c ni =
     (case map_of (updated_nodes s) ni of
        Some nui \<Rightarrow> flush_decision s c ni (excl_blocked nui) (the (flush_target s c ni nui))
      | None \<Rightarrow> map_option ev_val (pend s ni))"

definition flush_ready :: "prsim_state \<Rightarrow> event_cause \<Rightarrow> node_index_type \<Rightarrow> bool" where
  "flush_ready s c ni \<longleftrightarrow> (\<exists>nui. map_of (updated_nodes s) ni = Some nui \<and> updated_ok s ni nui \<and> pending_ok s ni \<and>
     flush_target s c ni nui \<noteq> None)"

text \<open>
  \<open>N\<close> are the nodes that have been flushed: they have left \<^verbatim>\<open>updated_nodes\<close>, and what is pending on them is the
  abstract value; every other node keeps its event, and nothing but events and their causes changed.
\<close>

definition flushed :: "nat set \<Rightarrow> prsim_state \<Rightarrow> event_cause \<Rightarrow> node_index_type set \<Rightarrow> prsim_state \<Rightarrow> bool" where
  "flushed X s c N s' \<longleftrightarrow> sched_inv X s' \<and> flush_frame s (s'\<lparr>updated_nodes := updated_nodes s\<rparr>) \<and>
     updated_nodes s' = filter (\<lambda>p. fst p \<notin> N) (updated_nodes s) \<and>
     (\<forall>nj < length (node_pool s).
        if nj \<in> N then map_option ev_val (pend s' nj) = flush_value s c nj \<and>
          (\<forall>e. pend s' nj = Some e \<longrightarrow> lookup_rule s (ev_cause_rule e) \<noteq> None \<and>
             (forced e \<longrightarrow> (\<exists>pe. pend s nj = Some pe \<and> forced pe)))
        else pend s' nj = pend s nj)"

lemma pend_updated_nodes [simp]: "pend (s\<lparr>updated_nodes := u\<rparr>) = pend s"
  by (simp add: fun_eq_iff pend_def get_event_def)

lemma map_of_filter_fst: "k \<notin> N \<Longrightarrow> map_of (filter (\<lambda>p. fst p \<notin> N) m) k = map_of m k"
  by (induction m) auto

lemma flushed_refl: "sched_inv X s \<Longrightarrow> flushed X s c {} s"
  by (simp add: flushed_def)

text \<open>The decision on a node does not depend on the nodes flushed before it.\<close>

lemma flushed_other:
  assumes f: "flushed X s c N s'" and ni: "ni < length (node_pool s)" "ni \<notin> N"
  shows "pend s' ni = pend s ni" "map_of (updated_nodes s') ni = map_of (updated_nodes s) ni"
    "flush_target s' c ni nui = flush_target s c ni nui" "flush_decision s' c ni = flush_decision s c ni"
    "updated_ok s' ni nui = updated_ok s ni nui" "pending_ok s' ni = pending_ok s ni"
    "lookup_rule s' = lookup_rule s"
proof -
  let ?t = "s'\<lparr>updated_nodes := updated_nodes s\<rparr>"
  from f have ff: "flush_frame s ?t" by (simp add: flushed_def)
  have len: "length (node_pool s') = length (node_pool s)" using flush_frame_simps(5) [OF ff] by simp
  have lr: "lookup_rule s' = lookup_rule ?t"
    by (simp add: fun_eq_iff lookup_rule_def lookup_global_expr_process_def lookup_global_expr_process_id_def get_graph_def)
  then show l: "lookup_rule s' = lookup_rule s" using flush_frame_simps(12) [OF ff] by simp
  have fl: "weak_rules_enabled s' = weak_rules_enabled s" "dequeue_unstable_events s' = dequeue_unstable_events s"
    "dequeue_excl_unstable_events s' = dequeue_excl_unstable_events s" "timing_params s' = timing_params s"
    using flush_frame_simps(2,3) [OF ff]
    by (simp_all add: weak_rules_enabled_def dequeue_unstable_events_def dequeue_excl_unstable_events_def)
  note core = node_core_eqD [OF flush_frame_core [OF ff ni(1)], simplified]
  show p: "pend s' ni = pend s ni" using f ni by (simp add: flushed_def)
  show "map_of (updated_nodes s') ni = map_of (updated_nodes s) ni"
    using f ni(2) map_of_filter_fst [of ni N "updated_nodes s"] by (simp add: flushed_def)
  have e: "effective_pull_set (node_pool s' ! ni) w b v = effective_pull_set (node_pool s ! ni) w b v" for w b v
    by (simp add: effective_pull_set_def core(6))
  show "flush_target s' c ni nui = flush_target s c ni nui" by (simp add: flush_target_def e fl core(1))
  show "flush_decision s' c ni = flush_decision s c ni"
    by (simp add: fun_eq_iff flush_decision_def e fl core(1) p discards_unstable_def rule_allows_instability_def l cong: option.case_cong)
  show "updated_ok s' ni nui = updated_ok s ni nui" by (simp add: updated_ok_def len fl core(4,5) l)
  show "pending_ok s' ni = pending_ok s ni" by (simp add: pending_ok_def core(1) l p)
qed

lemma flushed_flush_node:
  assumes f: "flushed X s c N s'" and r: "random_ok env" and ni: "ni \<notin> N" "flush_ready s c ni"
  shows "\<exists>err' s''. flush_node env c et ni err s' = Some (err', s'') \<and> flushed X s c (insert ni N) s''"
proof -
  from ni(2) obtain nui v where u: "map_of (updated_nodes s) ni = Some nui" "updated_ok s ni nui" "pending_ok s ni"
    and t: "flush_target s c ni nui = Some v" by (auto simp: flush_ready_def)
  from u(2) have l: "ni < length (node_pool s)" by (simp add: updated_ok_def)
  note o = flushed_other [OF f l ni(1)]
  from f have s': "sched_inv X s'" by (simp add: flushed_def)
  from flush_node_spec [OF s' r, of ni nui c v et err] u t o obtain err' s1 eo where
    1: "flush_node env c et ni err s' = Some (err', s1\<lparr>updated_nodes := map_erase ni (updated_nodes s')\<rparr>)"
    "pend_step X s' ni eo s1" "map_option ev_val eo = flush_decision s c ni (excl_blocked nui) v"
    "\<forall>e. eo = Some e \<longrightarrow> lookup_rule s (ev_cause_rule e) \<noteq> None \<and> (forced e \<longrightarrow> (\<exists>pe. pend s ni = Some pe \<and> forced pe))"
    by (simp add: flush_target_def) blast
  from f have ff: "flush_frame s (s'\<lparr>updated_nodes := updated_nodes s\<rparr>)" by (simp add: flushed_def)
  have len: "length (node_pool s') = length (node_pool s)" using flush_frame_simps(5) [OF ff] by simp
  from 1(2) have f1: "flush_frame s' s1" by (simp add: pend_step_def)
  then have "flush_frame (s'\<lparr>updated_nodes := updated_nodes s\<rparr>) (s1\<lparr>updated_nodes := updated_nodes s\<rparr>)"
    unfolding flush_frame_def
  proof (elim exE conjE)
    fix p q k ns
    assume "s1 = s'\<lparr>event_pool := p, event_queue := q, oracle_pos := k, node_pool := ns\<rparr>"
      "map node_core ns = map node_core (node_pool s')"
    then show "\<exists>p q k ns. s1\<lparr>updated_nodes := updated_nodes s\<rparr> =
        s'\<lparr>updated_nodes := updated_nodes s, event_pool := p, event_queue := q, oracle_pos := k, node_pool := ns\<rparr> \<and>
        map node_core ns = map node_core (node_pool (s'\<lparr>updated_nodes := updated_nodes s\<rparr>))"
      by (intro exI [of _ p] exI [of _ q] exI [of _ k] exI [of _ ns]) simp
  qed
  from flush_frame_trans [OF ff this] have "flush_frame s (s1\<lparr>updated_nodes := updated_nodes s\<rparr>)" .
  moreover have "map_erase ni (updated_nodes s') = filter (\<lambda>p. fst p \<notin> insert ni N) (updated_nodes s)"
    using f by (simp add: flushed_def map_erase_def conj_commute)
  moreover have "flush_value s c ni = flush_decision s c ni (excl_blocked nui) v" by (simp add: flush_value_def u t)
  ultimately have "flushed X s c (insert ni N) (s1\<lparr>updated_nodes := map_erase ni (updated_nodes s')\<rparr>)"
    using f 1(2-4) len by (simp add: flushed_def pend_step_def del: not_None_eq)
  with 1(1) show ?thesis by blast
qed

lemma flush_nodes_spec:
  assumes "flushed X s c N s'" and "random_ok env" and "distinct nis" and "set nis \<inter> N = {}"
    and "\<forall>ni \<in> set nis. flush_ready s c ni"
  shows "\<exists>err' s''. flush_nodes env c et nis err s' = Some (err', s'') \<and> flushed X s c (set nis \<union> N) s''"
  using assms
proof (induction nis arbitrary: N err s')
  case (Cons ni nis)
  from flushed_flush_node [OF Cons.prems(1,2), of ni et err] Cons.prems(4,5) obtain err1 s1 where
    1: "flush_node env c et ni err s' = Some (err1, s1)" "flushed X s c (insert ni N) s1" by auto
  from Cons.IH [OF 1(2) Cons.prems(2), of err1] Cons.prems(3-5) 1(1) show ?case by auto
qed simp

text \<open>
  \<^verbatim>\<open>updated_nodes\<close> and \<^verbatim>\<open>updated_nodes_queue\<close> hold the same nodes, each once.
\<close>

definition update_queue_ok :: "prsim_state \<Rightarrow> bool" where
  "update_queue_ok s \<longleftrightarrow> distinct (updated_nodes_queue s) \<and> distinct (map fst (updated_nodes s)) \<and>
     set (updated_nodes_queue s) = fst ` set (updated_nodes s)"

lemma flush_updated_nodes_spec:
  assumes s: "sched_inv X s" and r: "random_ok env" and q: "update_queue_ok s" and b: "mk_excl_blocking_set s = []"
    and rdy: "\<forall>ni \<in> set (updated_nodes_queue s). flush_ready s c ni"
  shows "\<exists>err s'. flush_updated_nodes env c et s = Some (err, s'\<lparr>updated_nodes_queue := []\<rparr>) \<and>
    flushed X s c (set (updated_nodes_queue s)) s' \<and> updated_nodes s' = []"
proof -
  have s0: "(if cause_val c \<noteq> LOGIC_OTHER then flush_blocked_excl_nodes (cause_val c) s else Some s) = Some s"
    using b by (simp add: flush_blocked_excl_nodes_def)
  have "length (updated_nodes s) = length (updated_nodes_queue s)"
    using q by (metis distinct_card length_map list.set_map update_queue_ok_def)
  moreover from flush_nodes_spec [OF flushed_refl [OF s] r, of "updated_nodes_queue s" c et ERROR_NONE] q rdy
  obtain err s' where f: "flush_nodes env c et (updated_nodes_queue s) ERROR_NONE s = Some (err, s')"
    "flushed X s c (set (updated_nodes_queue s)) s'" by (auto simp: update_queue_ok_def)
  moreover from f(2) q have "updated_nodes s' = []" by (auto simp: flushed_def update_queue_ok_def filter_empty_conv)
  ultimately have "flush_updated_nodes env c et s = Some (err, s'\<lparr>updated_nodes_queue := []\<rparr>)"
    using s0 by (simp add: flush_updated_nodes_def)
  with f(2) \<open>updated_nodes s' = []\<close> show ?thesis by blast
qed

text \<open>The same with the parts of \<open>flushed\<close> that concern the scheduler only.\<close>

lemma flush_updated_nodes_abstract:
  assumes "sched_inv X s" and "random_ok env" and "update_queue_ok s" and "mk_excl_blocking_set s = []"
    and "\<forall>ni \<in> set (updated_nodes_queue s). flush_ready s c ni"
  shows "\<exists>err s'. flush_updated_nodes env c et s = Some (err, s') \<and> updated_nodes s' = [] \<and> updated_nodes_queue s' = [] \<and>
    sched_inv X s' \<and> map node_core (node_pool s') = map node_core (node_pool s) \<and>
    (\<forall>nj < length (node_pool s).
       if nj \<in> set (updated_nodes_queue s) then map_option ev_val (pend s' nj) = flush_value s c nj
       else pend s' nj = pend s nj)"
proof -
  from flush_updated_nodes_spec [OF assms, of et] obtain err s' where
    1: "flush_updated_nodes env c et s = Some (err, s'\<lparr>updated_nodes_queue := []\<rparr>)" "updated_nodes s' = []" and
    f: "flushed X s c (set (updated_nodes_queue s)) s'" by blast
  have q: "pend (s'\<lparr>updated_nodes_queue := []\<rparr>) = pend s'" by (simp add: fun_eq_iff pend_def get_event_def)
  have "map node_core (node_pool s') = map node_core (node_pool s)"
    using f by (auto simp: flushed_def flush_frame_def dest: arg_cong [of _ _ node_pool])
  moreover have "sched_inv X (s'\<lparr>updated_nodes_queue := []\<rparr>)" using f by (simp add: flushed_def sched_inv_def)
  ultimately show ?thesis using 1 f q
    by (intro exI [of _ err] exI [of _ "s'\<lparr>updated_nodes_queue := []\<rparr>"]) (simp add: flushed_def)
qed

end
