(* ===== verification/Prop_Ok.thy ===== *)
theory Prop_Ok
  imports Prs_Step Eval_Ok Flush_Ok
begin

text \<open>
  Propagating a new node value: every fanout expression is evaluated once per occurrence of the node, after
  which all counters agree with the new value, and every node whose pulls changed is entered into
  \<^verbatim>\<open>updated_nodes\<close> together with a rule that drives it.
\<close>

section \<open>Leaf occurrences\<close>

definition leaf_node :: "sim_env \<Rightarrow> prsim_state \<Rightarrow> process_index_type \<Rightarrow> expr_index_type \<Rightarrow> nat \<Rightarrow> node_index_type option" where
  "leaf_node env s pid ui k =
     nth_opt (footprint_frame_map env pid) (snd (children (expr_graph_node_pool (process_graph_of s pid) ! ui) ! k))"

text \<open>The pull of every leaf, as the values of the nodes give it.\<close>

definition leaf_vals :: "sim_env \<Rightarrow> prsim_state \<Rightarrow> process_index_type \<Rightarrow> leaf_values" where
  "leaf_vals env s pid ui k =
     (case leaf_node env s pid ui k of Some ni \<Rightarrow> pull_of_value (node_value (node_pool s ! ni)) | None \<Rightarrow> PULL_OFF)"

type_synonym occurrence = "process_index_type \<times> expr_index_type \<times> nat"

definition leaves :: "prsim_state \<Rightarrow> occurrence list" where
  "leaves s = concat (map (\<lambda>x. map (\<lambda>k. (fst x, snd x, k))
     (filter (\<lambda>k. fst (children (expr_graph_node_pool (process_graph_of s (fst x)) ! snd x) ! k))
       [0..<length (children (expr_graph_node_pool (process_graph_of s (fst x)) ! snd x))])) (all_exprs s))"

definition occurrences :: "sim_env \<Rightarrow> prsim_state \<Rightarrow> node_index_type \<Rightarrow> occurrence list" where
  "occurrences env s ni = filter (\<lambda>x. leaf_node env s (fst x) (fst (snd x)) (snd (snd x)) = Some ni) (leaves s)"

definition occurrence_index :: "prsim_state \<Rightarrow> occurrence \<Rightarrow> expr_index_type" where
  "occurrence_index s x = global_expr_index (process_state_array s ! fst x) (fst (snd x))"

text \<open>
  The fanout of a node, as \<^verbatim>\<open>ExprAlloc\<close> fills it: one entry per occurrence, in some order.
\<close>

definition fanout_ok :: "sim_env \<Rightarrow> prsim_state \<Rightarrow> bool" where
  "fanout_ok env s \<longleftrightarrow> (\<forall>ni < length (node_pool s).
     mset (fanout (node_pool s ! ni)) = mset (map (occurrence_index s) (occurrences env s ni)))"

definition leaves_ok :: "sim_env \<Rightarrow> prsim_state \<Rightarrow> bool" where
  "leaves_ok env s \<longleftrightarrow> (\<forall>x \<in> set (leaves s).
     case leaf_node env s (fst x) (fst (snd x)) (snd (snd x)) of None \<Rightarrow> False | Some ni \<Rightarrow> ni < length (node_pool s))"

text \<open>Global expression indices lead back to their process.\<close>

definition index_ok :: "prsim_state \<Rightarrow> bool" where
  "index_ok s \<longleftrightarrow> (\<forall>x \<in> set (all_exprs s).
     map_option fst (lookup_global_expr_process s (global_expr_index (process_state_array s ! fst x) (snd x)))
       = Some (fst x))"

lemma local_global_index [simp]: "local_expr_index ps (global_expr_index ps i) = i"
  by (simp add: local_expr_index_def global_expr_index_def)

lemma index_okD:
  assumes "index_ok s" and "pid < length (process_state_array s)" and "ui < length (expr_pool (process_graph_of s pid))"
  shows "lookup_global_expr_process s (global_expr_index (process_state_array s ! pid) ui)
    = Some (pid, process_state_array s ! pid)"
proof -
  have "(pid, ui) \<in> set (all_exprs s)" using assms(2,3) by (simp add: set_all_exprs)
  with assms(1) have "map_option fst (lookup_global_expr_process s (global_expr_index (process_state_array s ! pid) ui)) = Some pid"
    unfolding index_ok_def by (metis fst_conv snd_conv)
  then show ?thesis by (auto simp: lookup_global_expr_process_def nth_opt_eq_None split: bind_splits if_splits)
qed

lemma set_leaves:
  "(pid, ui, k) \<in> set (leaves s) \<longleftrightarrow> pid < length (process_state_array s) \<and>
   ui < length (expr_pool (process_graph_of s pid)) \<and>
   k < length (children (expr_graph_node_pool (process_graph_of s pid) ! ui)) \<and>
   fst (children (expr_graph_node_pool (process_graph_of s pid) ! ui) ! k)"
  using set_all_exprs [of pid ui s] by (force simp: leaves_def)

lemma distinct_leaves: "distinct (leaves s)"
proof -
  have "distinct (concat (map (\<lambda>x. map (\<lambda>k. (fst x, snd x, k)) (f x)) xs))"
    if "distinct xs" "\<And>x. distinct (f x)" for xs :: "(nat \<times> nat) list" and f :: "nat \<times> nat \<Rightarrow> nat list"
    using that by (induction xs) (auto simp: distinct_map inj_on_def)
  from this [OF distinct_all_exprs] show ?thesis unfolding leaves_def by simp
qed

text \<open>The invariant depends on the values of leaves only.\<close>

lemma states_ok_cong:
  assumes "\<And>i k. i < length (expr_pool g) \<Longrightarrow> k < length (children (expr_graph_node_pool g ! i)) \<Longrightarrow>
    fst (children (expr_graph_node_pool g ! i) ! k) \<Longrightarrow> val i k = val' i k"
  shows "states_ok g val us = states_ok g val' us"
proof -
  have "child_pulls g val us i = child_pulls g val' us i" if "i < length (expr_pool g)" for i
    using assms [OF that] by (auto simp: child_pulls_def child_pull_def Let_def)
  then show ?thesis by (auto simp: states_ok_def)
qed

lemma eval_inv_vals_cong:
  assumes "\<And>pid ui k. (pid, ui, k) \<in> set (leaves s) \<Longrightarrow> vals pid ui k = vals' pid ui k"
  shows "eval_inv env vals s = eval_inv env vals' s"
proof -
  have "states_ok (process_graph_of s pid) (vals pid) us = states_ok (process_graph_of s pid) (vals' pid) us"
    if "pid < length (process_state_array s)" for pid us
    using that assms by (intro states_ok_cong) (auto simp: set_leaves)
  then show ?thesis by (simp add: eval_inv_def)
qed

section \<open>Frames\<close>

text \<open>What propagation may change.\<close>

definition prop_frame :: "prsim_state \<Rightarrow> prsim_state \<Rightarrow> bool" where
  "prop_frame s s' \<longleftrightarrow> (\<exists>psa am im ns un uq.
     s' = s\<lparr>process_state_array := psa, atomic_updated_nodes := am, invariant_update_map := im, node_pool := ns,
            updated_nodes := un, updated_nodes_queue := uq\<rparr> \<and>
     map node_shape ns = map node_shape (node_pool s) \<and>
     map ps_shape psa = map ps_shape (process_state_array s))"

lemma prop_frame_eval: 
  assumes "eval_frame s s'"
  shows "prop_frame s (s'\<lparr>updated_nodes := un, updated_nodes_queue := uq\<rparr>)"
proof -
  from assms obtain psa am im ns where
    1: "s' = s\<lparr>process_state_array := psa, atomic_updated_nodes := am, invariant_update_map := im, node_pool := ns\<rparr>"
    "map node_shape ns = map node_shape (node_pool s)" "map ps_shape psa = map ps_shape (process_state_array s)"
    unfolding eval_frame_def by blast
  then have "s'\<lparr>updated_nodes := un, updated_nodes_queue := uq\<rparr> =
      s\<lparr>process_state_array := psa, atomic_updated_nodes := am, invariant_update_map := im, node_pool := ns,
            updated_nodes := un, updated_nodes_queue := uq\<rparr>" by simp
  with 1(2,3) show ?thesis unfolding prop_frame_def by blast
qed

lemma prop_frame_refl: "prop_frame s s"
  unfolding prop_frame_def
  by (rule exI [of _ "process_state_array s"], rule exI [of _ "atomic_updated_nodes s"],
      rule exI [of _ "invariant_update_map s"], rule exI [of _ "node_pool s"], rule exI [of _ "updated_nodes s"],
      rule exI [of _ "updated_nodes_queue s"]) simp

lemma prop_frame_trans:
  assumes "prop_frame s s'" and "prop_frame s' s''"
  shows "prop_frame s s''"
proof -
  from assms obtain psa am im ns un uq psa' am' im' ns' un' uq' where
    1: "s' = s\<lparr>process_state_array := psa, atomic_updated_nodes := am, invariant_update_map := im, node_pool := ns,
            updated_nodes := un, updated_nodes_queue := uq\<rparr>"
    "map node_shape ns = map node_shape (node_pool s)" "map ps_shape psa = map ps_shape (process_state_array s)" and
    2: "s'' = s'\<lparr>process_state_array := psa', atomic_updated_nodes := am', invariant_update_map := im', node_pool := ns',
            updated_nodes := un', updated_nodes_queue := uq'\<rparr>"
    "map node_shape ns' = map node_shape (node_pool s')" "map ps_shape psa' = map ps_shape (process_state_array s')"
    unfolding prop_frame_def by blast
  then have "s'' = s\<lparr>process_state_array := psa', atomic_updated_nodes := am', invariant_update_map := im', node_pool := ns',
            updated_nodes := un', updated_nodes_queue := uq'\<rparr>"
    "map node_shape ns' = map node_shape (node_pool s)" "map ps_shape psa' = map ps_shape (process_state_array s)" by simp_all
  then show ?thesis unfolding prop_frame_def by blast
qed

lemma node_shape_eqD:
  assumes "node_shape n = node_shape m"
  shows "node_value n = node_value m" "event_index n = event_index m" "struct_flags n = struct_flags m"
    "state_flags n = state_flags m" "fanout n = fanout m"
  using arg_cong [OF assms, of node_value] arg_cong [OF assms, of event_index] arg_cong [OF assms, of struct_flags]
    arg_cong [OF assms, of state_flags] arg_cong [OF assms, of fanout]
  by (simp_all add: node_shape_def)

lemma ps_shape_eqD:
  assumes "ps_shape n = ps_shape m"
  shows "ps_type n = ps_type m" "global_expr_offset n = global_expr_offset m"
  using arg_cong [OF assms, of ps_type] arg_cong [OF assms, of global_expr_offset] by (simp_all add: ps_shape_def)

section \<open>The static part of a state\<close>

definition node_static :: "node_state \<Rightarrow> expr_index_type list \<times> 16 word \<times> 8 word" where
  "node_static n = (fanout n, struct_flags n, state_flags n)"

definition static_eq :: "prsim_state \<Rightarrow> prsim_state \<Rightarrow> bool" where
  "static_eq s s' \<longleftrightarrow> map node_static (node_pool s') = map node_static (node_pool s) \<and>
     map ps_shape (process_state_array s') = map ps_shape (process_state_array s) \<and>
     unique_process_pool s' = unique_process_pool s \<and> global_expr_process_id_map s' = global_expr_process_id_map s \<and>
     timing_params s' = timing_params s \<and> timing_fanin s' = timing_fanin s \<and>
     check_exhi s' = check_exhi s \<and> check_exlo s' = check_exlo s \<and>
     length (check_exhi_ring_pool s') = length (check_exhi_ring_pool s) \<and>
     length (check_exlo_ring_pool s') = length (check_exlo_ring_pool s) \<and>
     weak_rules_enabled s' = weak_rules_enabled s \<and> policies s' = policies s"

text \<open>
  A configuration that the step theorems are about: weak rules are disabled and keepers not checked (the
  defaults); no atomic nodes, no forced exclusion, no channels; the graph is connected as \<^verbatim>\<open>ExprAlloc\<close>
  connects it, and delays, minimum-delay annotations and check locks are well-formed.
\<close>

definition plain_node :: "node_state \<Rightarrow> bool" where
  "plain_node n \<longleftrightarrow> \<not> is_atomic n \<and> \<not> in_channel n \<and> \<not> has_mk_exclhi n \<and> \<not> has_mk_excllo n"

definition lock_list_ok :: "lock_index_type list option \<Rightarrow> nat \<Rightarrow> bool" where
  "lock_list_ok l m = (case l of None \<Rightarrow> False | Some ls \<Rightarrow> \<forall>li \<in> set ls. 0 < li \<and> li < m)"

definition locks_ok :: "prsim_state \<Rightarrow> bool" where
  "locks_ok s \<longleftrightarrow> (\<forall>ni < length (node_pool s).
     (has_check_exclhi (node_pool s ! ni) \<longrightarrow> lock_list_ok (check_exhi s ni) (length (check_exhi_ring_pool s))) \<and>
     (has_check_excllo (node_pool s ! ni) \<longrightarrow> lock_list_ok (check_exlo s ni) (length (check_exlo_ring_pool s))))"

definition rules_ok :: "prsim_state \<Rightarrow> bool" where
  "rules_ok s \<longleftrightarrow> (\<forall>x \<in> set (all_exprs s).
     case root_rule (process_graph_of s (fst x)) (snd x) of
       None \<Rightarrow> True | Some r \<Rightarrow> delay_ok (timing_params s) (Some r))"

definition frames_ok :: "sim_env \<Rightarrow> prsim_state \<Rightarrow> bool" where
  "frames_ok env s \<longleftrightarrow> (\<forall>pid < length (process_state_array s). INVALID_NODE_INDEX \<notin> set (footprint_frame_map env pid))"

definition config_ok :: "sim_env \<Rightarrow> prsim_state \<Rightarrow> bool" where
  "config_ok env s \<longleftrightarrow> \<not> weak_rules_enabled s \<and> keeper_check_fail_policy (policies s) \<le> ERROR_IGNORE \<and>
     list_all plain_node (node_pool s) \<and> frames_ok env s \<and> fanout_ok env s \<and> leaves_ok env s \<and> index_ok s \<and> rules_ok s \<and>
     annotation_ok env s \<and> locks_ok s"

lemma static_eqD:
  assumes "static_eq s s'"
  shows "length (node_pool s') = length (node_pool s)"
    "length (process_state_array s') = length (process_state_array s)"
    "process_graph_of s' pid = process_graph_of s pid \<or> \<not> pid < length (process_state_array s)"
    "ni < length (node_pool s) \<Longrightarrow> node_static (node_pool s' ! ni) = node_static (node_pool s ! ni)"
    "pid < length (process_state_array s) \<Longrightarrow> ps_shape (process_state_array s' ! pid) = ps_shape (process_state_array s ! pid)"
    "all_exprs s' = all_exprs s" "leaves s' = leaves s"
    "map_option fst (lookup_global_expr_process s' gei) = map_option fst (lookup_global_expr_process s gei)"
    "lookup_rule s' gei = lookup_rule s gei"
proof -
  from assms have n: "map node_static (node_pool s') = map node_static (node_pool s)"
    and p: "map ps_shape (process_state_array s') = map ps_shape (process_state_array s)" by (simp_all add: static_eq_def)
  show ln: "length (node_pool s') = length (node_pool s)" using n map_eq_imp_length_eq by blast
  show lp: "length (process_state_array s') = length (process_state_array s)" using p map_eq_imp_length_eq by blast
  show "node_static (node_pool s' ! ni) = node_static (node_pool s ! ni)" if "ni < length (node_pool s)"
    using n that ln by (metis nth_map)
  have ps: "ps_shape (process_state_array s' ! i) = ps_shape (process_state_array s ! i)"
    if "i < length (process_state_array s)" for i
    using p that lp by (metis nth_map)
  then show "ps_shape (process_state_array s' ! pid) = ps_shape (process_state_array s ! pid)"
    if "pid < length (process_state_array s)" using that by blast
  have g: "process_graph_of s' i = process_graph_of s i" if "i < length (process_state_array s)" for i
    using ps_shape_eqD(1) [OF ps [OF that]] assms by (simp add: process_graph_of_def static_eq_def)
  then show "process_graph_of s' pid = process_graph_of s pid \<or> \<not> pid < length (process_state_array s)" by blast
  show ae: "all_exprs s' = all_exprs s"
    unfolding all_exprs_def lp by (intro arg_cong [where f = concat] map_cong) (auto simp: g)
  have gx: "process_graph_of s' (fst x) = process_graph_of s (fst x)" if "x \<in> set (all_exprs s)" for x
    using that set_all_exprs [of "fst x" "snd x" s] g by simp
  show "leaves s' = leaves s"
    unfolding leaves_def ae by (intro arg_cong [where f = concat] map_cong refl) (simp add: gx)
  have li: "lookup_global_expr_process_id s' = lookup_global_expr_process_id s"
    using assms by (simp add: fun_eq_iff lookup_global_expr_process_id_def static_eq_def)
  show "map_option fst (lookup_global_expr_process s' gei) = map_option fst (lookup_global_expr_process s gei)"
    by (simp add: lookup_global_expr_process_def li nth_opt_def lp split: Option.bind_split)
  have gr: "get_graph s' (process_state_array s' ! i) = get_graph s (process_state_array s ! i)"
      "local_expr_index (process_state_array s' ! i) gei = local_expr_index (process_state_array s ! i) gei"
    if "i < length (process_state_array s)" for i
    using ps_shape_eqD [OF ps [OF that]] assms by (simp_all add: get_graph_def local_expr_index_def static_eq_def)
  show "lookup_rule s' gei = lookup_rule s gei"
    by (simp add: lookup_rule_def lookup_global_expr_process_def li nth_opt_def lp gr split: Option.bind_split)
qed

lemma static_eq_flags:
  assumes "static_eq s s'" and "ni < length (node_pool s)"
  shows "plain_node (node_pool s' ! ni) = plain_node (node_pool s ! ni)"
    "is_frozen (node_pool s' ! ni) = is_frozen (node_pool s ! ni)"
    "is_atomic (node_pool s' ! ni) = is_atomic (node_pool s ! ni)"
    "has_check_exclhi (node_pool s' ! ni) = has_check_exclhi (node_pool s ! ni)"
    "has_check_excllo (node_pool s' ! ni) = has_check_excllo (node_pool s ! ni)"
    "is_min_delay_target (node_pool s' ! ni) = is_min_delay_target (node_pool s ! ni)"
    "fanout (node_pool s' ! ni) = fanout (node_pool s ! ni)"
  using static_eqD(4) [OF assms]
  by (simp_all add: node_static_def plain_node_def is_frozen_def is_atomic_def has_check_exclhi_def has_check_excllo_def
      is_min_delay_target_def in_channel_def has_mk_exclhi_def has_mk_excllo_def)

lemma static_eq_leaf:
  assumes "static_eq s s'" and "x \<in> set (leaves s)"
  shows "leaf_node env s' (fst x) (fst (snd x)) (snd (snd x)) = leaf_node env s (fst x) (fst (snd x)) (snd (snd x))"
    "occurrence_index s' x = occurrence_index s x"
proof -
  have pid: "fst x < length (process_state_array s)" using assms(2) set_leaves [of "fst x" "fst (snd x)" "snd (snd x)"] by simp
  then show "leaf_node env s' (fst x) (fst (snd x)) (snd (snd x)) = leaf_node env s (fst x) (fst (snd x)) (snd (snd x))"
    using static_eqD(3) [OF assms(1), of "fst x"] by (simp add: leaf_node_def)
  show "occurrence_index s' x = occurrence_index s x"
    using ps_shape_eqD(2) [OF static_eqD(5) [OF assms(1) pid]] by (simp add: occurrence_index_def global_expr_index_def)
qed

lemma static_eq_occurrences:
  assumes "static_eq s s'"
  shows "occurrences env s' ni = occurrences env s ni"
    "map (occurrence_index s') (occurrences env s ni) = map (occurrence_index s) (occurrences env s ni)"
  using static_eq_leaf [OF assms]
  by (auto simp: occurrences_def static_eqD(7) [OF assms] cong: filter_cong map_cong)

lemma config_ok_static:
  assumes e: "static_eq s s'" and c: "config_ok env s"
  shows "config_ok env s'"
proof -
  note d = static_eqD [OF e] and f = static_eq_flags [OF e]
  have gx: "process_graph_of s' (fst x) = process_graph_of s (fst x)"
    and px: "ps_shape (process_state_array s' ! fst x) = ps_shape (process_state_array s ! fst x)" if "x \<in> set (all_exprs s)" for x
    using that set_all_exprs [of "fst x" "snd x" s] d(3) [of "fst x"] d(5) [of "fst x"] by auto
  have "fanout_ok env s'"
    using c by (simp add: config_ok_def fanout_ok_def d(1) f(7) static_eq_occurrences [OF e])
  moreover have "leaves_ok env s'"
    using c static_eq_leaf(1) [OF e] by (simp add: config_ok_def leaves_ok_def d(1,7) cong: option.case_cong)
  moreover have "index_ok s'"
    using c ps_shape_eqD(2) [OF px] by (simp add: config_ok_def index_ok_def d(6,8) global_expr_index_def)
  moreover have "rules_ok s'"
    using c e gx by (simp add: config_ok_def rules_ok_def d(6) static_eq_def cong: option.case_cong)
  moreover have "locks_ok s'"
    using c e f by (simp add: config_ok_def locks_ok_def d(1) static_eq_def)
  moreover have "list_all plain_node (node_pool s')"
    using c f(1) by (simp add: config_ok_def list_all_length d(1))
  moreover have "annotation_ok env s'"
  proof -
    have eo: "entry_ok s' = entry_ok s" by (simp add: fun_eq_iff entry_ok_def frame_ok_def d(1))
    have "process_ok env s' ni pid = process_ok env s ni pid" for ni pid
    proof (cases "pid < length (process_state_array s)")
      case True
      with ps_shape_eqD(1) [OF d(5) [OF True]] e show ?thesis
        by (simp add: process_ok_def d(2) eo static_eq_def cong: option.case_cong)
    qed (simp add: process_ok_def d(2))
    then show ?thesis using c e f(6) by (simp add: config_ok_def annotation_ok_def d(1) static_eq_def cong: option.case_cong)
  qed
  moreover have "frames_ok env s'" using c by (simp add: config_ok_def frames_ok_def d(2))
  ultimately show ?thesis using c e by (simp add: config_ok_def static_eq_def)
qed

lemma node_static_shape: "node_static (node_shape n) = node_static n"
  by (simp add: node_static_def node_shape_def)

lemma map_node_static: "map node_shape ns = map node_shape ms \<Longrightarrow> map node_static ns = map node_static ms"
  by (rule map_projection [where f = node_static and g = node_shape, OF node_static_shape])

lemma prop_frame_static:
  assumes "prop_frame s s'"
  shows "static_eq s s'"
proof -
  from assms obtain psa am im ns un uq where
    "s' = s\<lparr>process_state_array := psa, atomic_updated_nodes := am, invariant_update_map := im, node_pool := ns,
            updated_nodes := un, updated_nodes_queue := uq\<rparr>"
    "map node_shape ns = map node_shape (node_pool s)" "map ps_shape psa = map ps_shape (process_state_array s)"
    unfolding prop_frame_def by blast
  with map_node_static [of ns "node_pool s"] show ?thesis by (simp add: static_eq_def weak_rules_enabled_def)
qed

section \<open>One evaluation\<close>

text \<open>
  The nodes entered so far: each once, each with a rule that the flush can use, and every node whose strong pulls
  differ from those in \<open>s0\<close> is among them, unless it is frozen.
\<close>

definition upd_inv :: "prsim_state \<Rightarrow> prsim_state \<Rightarrow> bool" where
  "upd_inv s0 s \<longleftrightarrow> update_queue_ok s \<and>
     (\<forall>ni nui. map_of (updated_nodes s) ni = Some nui \<longrightarrow> updated_ok s ni nui \<and> \<not> excl_blocked nui) \<and>
     (\<forall>ni < length (node_pool s0). \<not> is_frozen (node_pool s0 ! ni) \<longrightarrow>
        pull_set_of (node_pool s ! ni) False \<noteq> pull_set_of (node_pool s0 ! ni) False \<longrightarrow>
        map_of (updated_nodes s) ni \<noteq> None)"

lemma updated_ok_static: "static_eq s s' \<Longrightarrow> updated_ok s' ni nui = updated_ok s ni nui"
  using static_eqD(1,9) [of s s'] static_eq_flags(2,3) [of s s' ni]
  by (auto simp: updated_ok_def static_eq_def)

lemma fired_rule:
  assumes c: "config_ok env s" and st: "eval_struct env s" and r: "fired_by env s r"
  shows "lookup_rule s (er_root_rule_index r) \<noteq> None" "er_root_rule_index r \<noteq> 0"
    "delay_ok (timing_params s) (Some (er_root_rule r))" "plain_node (node_pool s ! er_node_index r)"
    "er_node_index r \<noteq> INVALID_NODE_INDEX"
proof -
  from r obtain pid ri where x: "pid < length (process_state_array s)" "ri < length (expr_pool (process_graph_of s pid))"
    "root_rule (process_graph_of s pid) ri = Some (er_root_rule r)"
    "er_root_rule_index r = global_expr_index (process_state_array s ! pid) ri"
    "nth_opt (footprint_frame_map env pid) (expr_parent (expr_pool (process_graph_of s pid) ! ri)) = Some (er_node_index r)"
    and ni: "er_node_index r < length (node_pool s)" unfolding fired_by_def by blast
  from x(5) have "er_node_index r \<in> set (footprint_frame_map env pid)" by auto
  with x(1) c show "er_node_index r \<noteq> INVALID_NODE_INDEX" unfolding config_ok_def frames_ok_def by metis
  have mem: "(pid, ri) \<in> set (all_exprs s)" using x by (simp add: set_all_exprs)
  define ps where ps: "ps = process_state_array s ! pid"
  have l: "lookup_global_expr_process s (er_root_rule_index r) = Some (pid, ps)"
    using index_okD [OF _ x(1,2)] c by (simp add: config_ok_def x(4) ps)
  then have z: "er_root_rule_index r \<noteq> 0"
    by (auto simp: lookup_global_expr_process_def split: bind_splits if_splits)
  show "er_root_rule_index r \<noteq> 0" by (rule z)
  from st x(1) have g: "get_graph s ps = Some (process_graph_of s pid)"
    by (simp add: eval_struct_def get_graph_def process_graph_of_def nth_opt_in ps)
  from x(3) have "graph_lookup_rule (process_graph_of s pid) ri = Some (Some (er_root_rule r))"
    by (auto simp: root_rule_def graph_lookup_rule_def nth_opt_in split: bind_splits)
  then show "lookup_rule s (er_root_rule_index r) \<noteq> None"
    using l g z by (simp add: lookup_rule_def ps) (simp add: x(4))
  from c mem x(3) show "delay_ok (timing_params s) (Some (er_root_rule r))"
    by (fastforce simp: config_ok_def rules_ok_def)
  from c ni show "plain_node (node_pool s ! er_node_index r)" by (simp add: config_ok_def list_all_length)
qed

lemma pull_set_of_strong:
  assumes "\<And>dir. fanin_pull (get_pull_struct dir False n) = fanin_pull (get_pull_struct dir False m)"
    and "is_atomic n = is_atomic m"
  shows "pull_set_of n False = pull_set_of m False"
  using assms(1) [of True] assms(1) [of False] assms(2) by (simp add: pull_set_of_def get_pull_struct_def Let_def)

lemma map_of_map_put: "map_of (map_put k v m) k' = (if k' = k \<and> map_of m k \<noteq> None then Some v else map_of m k')"
  by (induction m) (auto simp: map_put_def)

lemma fst_map_put [simp]: "map fst (map_put k v m) = map fst m" "fst ` set (map_put k v m) = fst ` set m"
proof -
  show a: "map fst (map_put k v m) = map fst m" by (induction m) (auto simp: map_put_def)
  from arg_cong [OF a, of set] show "fst ` set (map_put k v m) = fst ` set m" by simp
qed

lemma enter_updated_spec:
  assumes u: "update_queue_ok s" "\<forall>ni nui. map_of (updated_nodes s) ni = Some nui \<longrightarrow> updated_ok s ni nui \<and> \<not> excl_blocked nui"
    and r: "lookup_rule s (er_root_rule_index r) \<noteq> None" "delay_ok (timing_params s) (Some (er_root_rule r))"
    and n: "er_node_index r \<noteq> INVALID_NODE_INDEX" "er_node_index r < length (node_pool s)"
      "\<not> is_atomic (node_pool s ! er_node_index r)" "\<not> is_frozen (node_pool s ! er_node_index r)"
  shows "\<exists>un uq. enter_updated r p s = s\<lparr>updated_nodes := un, updated_nodes_queue := uq\<rparr> \<and>
    update_queue_ok (enter_updated r p s) \<and>
    (\<forall>ni nui. map_of un ni = Some nui \<longrightarrow> updated_ok s ni nui \<and> \<not> excl_blocked nui) \<and>
    (\<forall>ni. map_of un ni = None \<longleftrightarrow> ni \<noteq> er_node_index r \<and> map_of (updated_nodes s) ni = None)"
proof (cases "map_of (updated_nodes s) (er_node_index r)")
  case None
  let ?nui = "node_update_info_new\<lparr>nui_rule_index := er_root_rule_index r, nui_rule_ptr := Some (er_root_rule r),
      old_pull_set := er_prev_pull r\<rparr>"
  from None have "er_node_index r \<notin> fst ` set (updated_nodes s)" by (simp add: map_of_eq_None_iff)
  with u(1) None have "update_queue_ok (enter_updated r p s)"
    by (auto simp: update_queue_ok_def enter_updated_def Let_def)
  moreover have "updated_ok s (er_node_index r) ?nui" "\<not> excl_blocked ?nui"
    using r n by (simp_all add: updated_ok_def node_update_info_new_def)
  ultimately show ?thesis using None u(2)
    by (intro exI [of _ "(er_node_index r, ?nui) # updated_nodes s"] exI [of _ "updated_nodes_queue s @ [er_node_index r]"])
      (auto simp: enter_updated_def Let_def)
next
  case (Some nui)
  let ?nui = "nui\<lparr>nui_rule_index := er_root_rule_index r, nui_rule_ptr := Some (er_root_rule r)\<rparr>"
  have "updated_ok s (er_node_index r) ?nui" "\<not> excl_blocked ?nui"
    using r n Some u(2) by (auto simp: updated_ok_def)
  then show ?thesis using Some u
    by (cases "rule_takes_over (direction (er_root_rule r)) (rule_is_weak (er_root_rule r)) p (er_prev_pull r)")
      (rule exI [of _ "map_put (er_node_index r) ?nui (updated_nodes s)"], rule exI [of _ "updated_nodes_queue s"],
       auto simp: enter_updated_def Let_def map_of_map_put update_queue_ok_def split: if_splits intro!: exI [of _ "updated_nodes s"]
         exI [of _ "updated_nodes_queue s"])
qed

lemma eval_frame_static:
  assumes "eval_frame s s'"
  shows "static_eq s s'" "prop_frame s s'" "updated_nodes s' = updated_nodes s" "updated_nodes_queue s' = updated_nodes_queue s"
proof -
  from assms show u: "updated_nodes s' = updated_nodes s" "updated_nodes_queue s' = updated_nodes_queue s"
    by (auto simp: eval_frame_def)
  show p: "prop_frame s s'" using prop_frame_eval [OF assms, where un = "updated_nodes s'" and uq = "updated_nodes_queue s'"] by simp
  show "static_eq s s'" by (rule prop_frame_static [OF p])
qed

lemma weak_filter_off:
  "\<not> weak_rules_enabled s \<Longrightarrow> weak_filter r n p s = Some (ERROR_NONE, \<not> rule_is_weak (er_root_rule r), s)"
  by (simp add: weak_filter_def)

lemma propagate_evaluation_spec:
  assumes c: "config_ok env s" and inv: "eval_inv env vals s" and x: "(pid, ui, k) \<in> set (leaves s)"
    and prev: "vals pid ui k = prev" and u: "upd_inv s0 s" and e0: "static_eq s0 s"
  shows "\<exists>s'. propagate_evaluation set_now env cs (occurrence_index s (pid, ui, k)) prev s = Some (ERROR_NONE, s') \<and>
    eval_inv env (set_leaf_of pid ui k (pull_of_value (cause_val cs)) vals) s' \<and> upd_inv s0 s' \<and> prop_frame s s'"
proof -
  from x have l: "pid < length (process_state_array s)" "ui < length (expr_pool (process_graph_of s pid))"
    "k < length (children (expr_graph_node_pool (process_graph_of s pid) ! ui))"
    "fst (children (expr_graph_node_pool (process_graph_of s pid) ! ui) ! k)" by (simp_all add: set_leaves)
  let ?g = "occurrence_index s (pid, ui, k)" and ?v = "pull_of_value (cause_val cs)"
  let ?ps = "process_state_array s ! pid"
  have lk: "lookup_global_expr_process s ?g = Some (pid, ?ps)"
    using index_okD [OF _ l(1,2)] c by (simp add: config_ok_def occurrence_index_def)
  have li: "local_expr_index ?ps ?g = ui" by (simp add: occurrence_index_def)
  from evaluate_spec [OF inv lk, of k prev ?v] l prev obtain ret s1 where
    e: "evaluate env ?g prev ?v s = Some (ret, s1)" "eval_inv env (set_leaf_of pid ui k ?v vals) s1" "reported s ret s1"
    "eval_frame s s1" "\<forall>r. ret = Some r \<longrightarrow> fired_by env s r" unfolding li by auto
  note f = eval_frame_static [OF e(4)] and d = static_eqD [OF f(1)] and fl = static_eq_flags [OF f(1)]
  note st = eval_inv_def [THEN iffD1, OF inv, THEN conjunct1]
  have l0: "length (node_pool s) = length (node_pool s0)" using static_eqD(1) [OF e0] by simp
  have uo: "\<forall>ni nui. map_of (updated_nodes s1) ni = Some nui \<longrightarrow> updated_ok s1 ni nui \<and> \<not> excl_blocked nui"
    "update_queue_ok s1"
    using u updated_ok_static [OF f(1)] f(3,4) by (simp_all add: upd_inv_def update_queue_ok_def)
  have stay: "upd_inv s0 s1"
    if same: "\<And>ni. ni < length (node_pool s) \<Longrightarrow> \<not> is_frozen (node_pool s ! ni) \<Longrightarrow>
      pull_set_of (node_pool s1 ! ni) False = pull_set_of (node_pool s ! ni) False"
    using u uo same f(3) l0 static_eq_flags(2) [OF e0] by (simp add: upd_inv_def)
  have strong: "pull_set_of (node_pool s1 ! ni) False = pull_set_of (node_pool s ! ni) False"
    if "ni < length (node_pool s)" and ur: "\<And>r. ret = Some r \<Longrightarrow> er_node_index r = ni \<Longrightarrow> rule_is_weak (er_root_rule r)" for ni
  proof (rule pull_set_of_strong [OF _ fl(3) [OF that(1)]])
    show "fanin_pull (get_pull_struct dir False (node_pool s1 ! ni)) = fanin_pull (get_pull_struct dir False (node_pool s ! ni))" for dir
      using e(3) [unfolded reported_def, THEN spec, THEN mp, OF that(1), THEN spec, of dir, THEN spec, of False] ur
      by (auto split: option.splits)
  qed
  show ?thesis
  proof (cases ret)
    case None
    have "upd_inv s0 s1" by (rule stay, rule strong) (simp_all add: None)
    with None e f(2) show ?thesis by (simp add: propagate_evaluation_def)
  next
    case (Some r)
    with e(5) have fr: "fired_by env s r" by simp
    then have ni: "er_node_index r < length (node_pool s)" by (simp add: fired_by_def)
    note rr = fired_rule [OF c st fr]
    have at: "\<not> is_atomic (node_pool s1 ! er_node_index r)" using rr(4) fl(3) [OF ni] by (simp add: plain_node_def)
    from config_ok_static [OF f(1) c] have c1: "\<not> weak_rules_enabled s1" "\<not> keeper_check_fail_policy (policies s1) > ERROR_IGNORE"
      by (simp_all add: config_ok_def not_less)
    have unf: "propagate_evaluation set_now env cs ?g prev s = Some (ERROR_NONE,
      if \<not> is_frozen (node_pool s1 ! er_node_index r) \<and> \<not> rule_is_weak (er_root_rule r)
      then enter_updated r (pull_set_of (node_pool s1 ! er_node_index r) (weak_rules_enabled s1)) s1 else s1)"
      using Some e(1) rr(2) ni d(1) at c1 by (simp add: propagate_evaluation_def Let_def weak_filter_off)
    show ?thesis
    proof (cases "is_frozen (node_pool s1 ! er_node_index r) \<or> rule_is_weak (er_root_rule r)")
      case True
      have "upd_inv s0 s1" by (rule stay, rule strong) (use True Some fl(2) [OF ni] in auto)
      moreover have "propagate_evaluation set_now env cs ?g prev s = Some (ERROR_NONE, s1)" using unf True by auto
      ultimately show ?thesis using e(2) f(2) by simp
    next
      case False
      let ?p = "pull_set_of (node_pool s1 ! er_node_index r) (weak_rules_enabled s1)"
      have "lookup_rule s1 (er_root_rule_index r) \<noteq> None" using rr(1) d(9) by simp
      moreover have "delay_ok (timing_params s1) (Some (er_root_rule r))" using rr(3) f(1) by (simp add: static_eq_def)
      ultimately obtain un uq where en: "enter_updated r ?p s1 = s1\<lparr>updated_nodes := un, updated_nodes_queue := uq\<rparr>"
        "update_queue_ok (enter_updated r ?p s1)"
        "\<forall>ni nui. map_of un ni = Some nui \<longrightarrow> updated_ok s1 ni nui \<and> \<not> excl_blocked nui"
        "\<forall>ni. map_of un ni = None \<longleftrightarrow> ni \<noteq> er_node_index r \<and> map_of (updated_nodes s1) ni = None"
        using enter_updated_spec [OF uo(2,1), of r ?p] rr(5) ni d(1) at False by auto
      let ?t = "s1\<lparr>updated_nodes := un, updated_nodes_queue := uq\<rparr>"
      have pf: "prop_frame s ?t" by (rule prop_frame_eval [OF e(4)])
      have ei: "eval_inv env (set_leaf_of pid ui k ?v vals) ?t" using e(2) by (subst eval_inv_cong [of _ s1]) simp_all
      have "static_eq s1 ?t" by (simp add: static_eq_def weak_rules_enabled_def)
      from updated_ok_static [OF this] en(3)
      have "\<forall>ni nui. map_of (updated_nodes ?t) ni = Some nui \<longrightarrow> updated_ok ?t ni nui \<and> \<not> excl_blocked nui" by simp
      moreover have "map_of un nj \<noteq> None" if nj: "nj < length (node_pool s0)" "\<not> is_frozen (node_pool s0 ! nj)"
        "pull_set_of (node_pool s1 ! nj) False \<noteq> pull_set_of (node_pool s0 ! nj) False" for nj
      proof (cases "nj = er_node_index r")
        case False
        with strong [of nj] Some nj(1) l0 have "pull_set_of (node_pool s1 ! nj) False = pull_set_of (node_pool s ! nj) False" by simp
        with u nj f(3) en(4) show ?thesis by (simp add: upd_inv_def)
      qed (use en(4) in simp)
      ultimately have "upd_inv s0 ?t" using en(1,2) by (simp add: upd_inv_def)
      with unf False en(1) ei pf show ?thesis by simp
    qed
  qed
qed

section \<open>The fanout loop\<close>

definition set_leaves_of :: "occurrence list \<Rightarrow> pull_enum \<Rightarrow> (process_index_type \<Rightarrow> leaf_values) \<Rightarrow> process_index_type \<Rightarrow> leaf_values" where
  "set_leaves_of xs v vals = fold (\<lambda>(pid, ui, k). set_leaf_of pid ui k v) xs vals"

lemma set_leaf_of_apply:
  "set_leaf_of pid ui k v vals pid' ui' k' = (if (pid', ui', k') = (pid, ui, k) then v else vals pid' ui' k')"
  by (simp add: set_leaf_of_def set_leaf_def)

lemma set_leaves_of_apply:
  "set_leaves_of xs v vals pid ui k = (if (pid, ui, k) \<in> set xs then v else vals pid ui k)"
  by (induction xs arbitrary: vals) (auto simp: set_leaves_of_def set_leaf_of_apply split: if_splits)

lemma propagate_fanout_spec:
  assumes "config_ok env s" and "eval_inv env vals s" and "upd_inv s0 s" and "static_eq s0 s"
    and "distinct xs" and "set xs \<subseteq> set (leaves s)" and "\<forall>(pid, ui, k) \<in> set xs. vals pid ui k = prev"
  shows "\<exists>s'. propagate_fanout set_now env cs (map (occurrence_index s) xs) prev s = Some s' \<and>
    eval_inv env (set_leaves_of xs (pull_of_value (cause_val cs)) vals) s' \<and> upd_inv s0 s' \<and> prop_frame s s'"
  using assms
proof (induction xs arbitrary: s vals)
  case Nil
  then show ?case by (simp add: set_leaves_of_def prop_frame_refl)
next
  case (Cons x xs)
  obtain pid ui k where x: "x = (pid, ui, k)" by (cases x)
  let ?v = "pull_of_value (cause_val cs)"
  from propagate_evaluation_spec [OF Cons.prems(1,2), of pid ui k prev s0 set_now cs] Cons.prems(3-7) x obtain s1 where
    1: "propagate_evaluation set_now env cs (occurrence_index s x) prev s = Some (ERROR_NONE, s1)"
    "eval_inv env (set_leaf_of pid ui k ?v vals) s1" "upd_inv s0 s1" "prop_frame s s1" by auto
  note e = prop_frame_static [OF 1(4)]
  have e0: "static_eq s0 s1" using e Cons.prems(4) by (simp add: static_eq_def)
  have oi: "map (occurrence_index s1) xs = map (occurrence_index s) xs"
    using static_eq_leaf(2) [OF e] Cons.prems(6) by auto
  have "\<forall>(pid', ui', k') \<in> set xs. set_leaf_of pid ui k ?v vals pid' ui' k' = prev"
    using Cons.prems(5,7) x by (auto simp: set_leaf_of_apply)
  from Cons.IH [OF config_ok_static [OF e Cons.prems(1)] 1(2,3) e0 _ _ this] Cons.prems(5,6) static_eqD(7) [OF e]
  obtain s' where "propagate_fanout set_now env cs (map (occurrence_index s) xs) prev s1 = Some s'"
    "eval_inv env (set_leaves_of xs ?v (set_leaf_of pid ui k ?v vals)) s'" "upd_inv s0 s'" "prop_frame s1 s'"
    unfolding oi by auto
  with 1(1) prop_frame_trans [OF 1(4)] show ?case
    by (auto simp: x set_leaves_of_def less_eq_error_policy_enum_def)
qed

text \<open>Any order of the fanout that is a permutation enumerates the occurrences.\<close>

lemma mset_map_enum:
  assumes "mset ys = mset (map f xs)"
  shows "\<exists>zs. mset zs = mset xs \<and> map f zs = ys"
  using assms
proof (induction ys arbitrary: xs)
  case (Cons y ys)
  then obtain x where x: "x \<in> set xs" "f x = y" by (metis image_iff list.set_intros(1) list.set_map mset_eq_setD)
  then have "mset xs = add_mset x (mset (remove1 x xs))" by simp
  then have "mset (map f xs) = add_mset y (mset (map f (remove1 x xs)))"
    using x(2) by (simp only: mset_map image_mset_add_mset)
  with Cons.prems have "mset ys = mset (map f (remove1 x xs))" by simp
  from Cons.IH [OF this] obtain zs where "mset zs = mset (remove1 x xs)" "map f zs = ys" by blast
  with x show ?case by (intro exI [of _ "x # zs"]) simp
qed simp

text \<open>
  The whole fanout of a node, after its value was changed: \<open>vals\<close> are the leaf values before the change.
\<close>

lemma propagate_node_spec:
  assumes c: "config_ok env s" and inv: "eval_inv env vals s"
    and u: "updated_nodes s = []" "updated_nodes_queue s = []" and ni: "ni < length (node_pool s)"
    and order: "mset order = mset (fanout (node_pool s ! ni))"
    and old: "\<forall>(pid, ui, k) \<in> set (leaves s). vals pid ui k =
      (if leaf_node env s pid ui k = Some ni then prev else leaf_vals env s pid ui k)"
    and new: "pull_of_value (node_value (node_pool s ! ni)) = pull_of_value (cause_val cs)"
  shows "\<exists>s'. propagate_fanout set_now env cs order prev s = Some s' \<and>
    eval_inv env (leaf_vals env s') s' \<and> upd_inv s s' \<and> prop_frame s s'"
proof -
  from c ni order have "mset order = mset (map (occurrence_index s) (occurrences env s ni))"
    by (simp add: config_ok_def fanout_ok_def)
  from mset_map_enum [OF this] obtain xs where xs: "mset xs = mset (occurrences env s ni)" "order = map (occurrence_index s) xs" by auto
  have occ: "distinct (occurrences env s ni)" "set (occurrences env s ni) \<subseteq> set (leaves s)"
    by (auto simp: occurrences_def distinct_leaves)
  have "upd_inv s s" using u by (simp add: upd_inv_def update_queue_ok_def)
  moreover have "static_eq s s" by (simp add: static_eq_def)
  moreover have "distinct xs" "set xs = set (occurrences env s ni)"
    using occ(1) xs(1) mset_eq_imp_distinct_iff mset_eq_setD by blast+
  moreover have "\<forall>(pid, ui, k) \<in> set (occurrences env s ni). vals pid ui k = prev"
    using old by (auto simp: occurrences_def)
  ultimately obtain s' where s': "propagate_fanout set_now env cs order prev s = Some s'"
    "eval_inv env (set_leaves_of xs (pull_of_value (cause_val cs)) vals) s'" "upd_inv s s'" "prop_frame s s'"
    using propagate_fanout_spec [OF c inv, of s xs prev set_now cs] occ(2) xs(2) by auto
  note e = prop_frame_static [OF s'(4)]
  have val: "node_value (node_pool s' ! nj) = node_value (node_pool s ! nj)" if "nj < length (node_pool s)" for nj
  proof -
    from s'(4) have "map node_shape (node_pool s') = map node_shape (node_pool s)" by (auto simp: prop_frame_def)
    with that static_eqD(1) [OF e] show ?thesis by (metis node_shape_eqD(1) nth_map)
  qed
  have "set_leaves_of xs (pull_of_value (cause_val cs)) vals pid ui k = leaf_vals env s' pid ui k"
    if x: "(pid, ui, k) \<in> set (leaves s')" for pid ui k
  proof -
    from x static_eqD(7) [OF e] have xs': "(pid, ui, k) \<in> set (leaves s)" by simp
    with c obtain nj where nj: "leaf_node env s pid ui k = Some nj" "nj < length (node_pool s)"
      by (fastforce simp: config_ok_def leaves_ok_def split: option.splits)
    have "leaf_vals env s' pid ui k = pull_of_value (node_value (node_pool s ! nj))"
      using static_eq_leaf(1) [OF e xs', of env] nj val by (simp add: leaf_vals_def)
    moreover have "(pid, ui, k) \<in> set xs \<longleftrightarrow> nj = ni"
      using \<open>set xs = _\<close> xs' nj by (auto simp: occurrences_def)
    ultimately show ?thesis using old xs' nj new by (auto simp: set_leaves_of_apply leaf_vals_def)
  qed
  then have "eval_inv env (leaf_vals env s') s'" using s'(2) eval_inv_vals_cong [of s'] by blast
  with s' show ?thesis by blast
qed

end
