(* ===== verification/Step_Ok.thy ===== *)
theory Step_Ok
  imports Prop_Ok
begin

unbundle bit_operations_syntax

text \<open>
  A simulation step keeps the simulator consistent: events and queue, counters and node values, and the
  property that every node is X or holds (or is about to take) a value that its production rules allow. When
  no event is pending, every node therefore agrees with its rules.
\<close>

section \<open>The invariant\<close>

text \<open>A value that the pulls allow: X, or a value that the pulls would not change.\<close>

definition just :: "pull_set \<Rightarrow> value_enum \<Rightarrow> bool" where
  "just p v \<longleftrightarrow> v = LOGIC_OTHER \<or> \<not> possible_interference_any p \<and> fired_value p v = Some v"

definition settled_value :: "prsim_state \<Rightarrow> node_index_type \<Rightarrow> value_enum" where
  "settled_value s ni = (case pend s ni of Some e \<Rightarrow> ev_val e | None \<Rightarrow> node_value (node_pool s ! ni))"

definition justified :: "prsim_state \<Rightarrow> node_index_type \<Rightarrow> bool" where
  "justified s ni \<longleftrightarrow> is_frozen (node_pool s ! ni) \<or> just (pull_set_of (node_pool s ! ni) False) (settled_value s ni)"

definition node_ok :: "prsim_state \<Rightarrow> node_index_type \<Rightarrow> bool" where
  "node_ok s ni \<longleftrightarrow> pending_ok s ni \<and> (\<forall>e. pend s ni = Some e \<longrightarrow> ni \<noteq> INVALID_NODE_INDEX \<and> \<not> forced e) \<and> justified s ni"

definition coherent :: "sim_env \<Rightarrow> prsim_state \<Rightarrow> bool" where
  "coherent env s \<longleftrightarrow> eval_inv env (leaf_vals env s) s"

text \<open>\<open>X\<close> holds the event that has been dequeued and not yet executed.\<close>

definition run_inv :: "nat set \<Rightarrow> sim_env \<Rightarrow> prsim_state \<Rightarrow> bool" where
  "run_inv X env s \<longleftrightarrow> config_ok env s \<and> sched_inv X s \<and> coherent env s \<and>
     updated_nodes s = [] \<and> updated_nodes_queue s = [] \<and> mk_excl_blocking_set s = [] \<and>
     (\<forall>ni < length (node_pool s). node_ok s ni)"

section \<open>Frames\<close>

text \<open>Fields that the invariant does not read.\<close>

definition aux_clear :: "prsim_state \<Rightarrow> prsim_state" where
  "aux_clear s = s\<lparr>check_exhi_ring_pool := [], check_exlo_ring_pool := [], sim_flags := 0, interrupted := False,
     atomic_updated_nodes := Map.empty, recent_exceptions := [], keeper_check_candidates := [],
     invariant_update_map := [], oracle_pos := 0\<rparr>"

definition aux_eq :: "prsim_state \<Rightarrow> prsim_state \<Rightarrow> bool" where
  "aux_eq s s' \<longleftrightarrow> aux_clear s' = aux_clear s \<and>
     length (check_exhi_ring_pool s') = length (check_exhi_ring_pool s) \<and>
     length (check_exlo_ring_pool s') = length (check_exlo_ring_pool s) \<and>
     weak_rules_enabled s' = weak_rules_enabled s"

lemma aux_eq_refl [simp]: "aux_eq s s"
  by (simp add: aux_eq_def)

lemma aux_eq_trans [trans]: "aux_eq s s' \<Longrightarrow> aux_eq s' s'' \<Longrightarrow> aux_eq s s''"
  by (simp add: aux_eq_def)

lemma aux_eqD:
  assumes "aux_eq s s'"
  shows "node_pool s' = node_pool s" "process_state_array s' = process_state_array s"
    "unique_process_pool s' = unique_process_pool s" "event_pool s' = event_pool s" "event_queue s' = event_queue s"
    "current_time s' = current_time s" "updated_nodes s' = updated_nodes s"
    "updated_nodes_queue s' = updated_nodes_queue s" "mk_excl_blocking_set s' = mk_excl_blocking_set s"
    "timing_params s' = timing_params s" "policies s' = policies s" "check_exhi s' = check_exhi s"
    "check_exlo s' = check_exlo s" "timing_fanin s' = timing_fanin s"
    "global_expr_process_id_map s' = global_expr_process_id_map s"
proof -
  from assms have e: "aux_clear s' = aux_clear s" by (simp add: aux_eq_def)
  note a = arg_cong [OF e]
  show "node_pool s' = node_pool s" "process_state_array s' = process_state_array s"
    "unique_process_pool s' = unique_process_pool s" "event_pool s' = event_pool s" "event_queue s' = event_queue s"
    using a [of node_pool] a [of process_state_array] a [of unique_process_pool] a [of event_pool] a [of event_queue]
    by (simp_all add: aux_clear_def)
  show "current_time s' = current_time s" "updated_nodes s' = updated_nodes s"
    "updated_nodes_queue s' = updated_nodes_queue s" "mk_excl_blocking_set s' = mk_excl_blocking_set s"
    "timing_params s' = timing_params s"
    using a [of current_time] a [of updated_nodes] a [of updated_nodes_queue] a [of mk_excl_blocking_set] a [of timing_params]
    by (simp_all add: aux_clear_def)
  show "policies s' = policies s" "check_exhi s' = check_exhi s"
    "check_exlo s' = check_exlo s" "timing_fanin s' = timing_fanin s"
    "global_expr_process_id_map s' = global_expr_process_id_map s"
    using a [of policies] a [of check_exhi] a [of check_exlo] a [of timing_fanin] a [of global_expr_process_id_map]
    by (simp_all add: aux_clear_def)
qed

lemma aux_eq_static: "aux_eq s s' \<Longrightarrow> static_eq s s'"
  using aux_eqD [of s s'] by (simp add: static_eq_def aux_eq_def)

text \<open>Nodes that agree in everything but events and causes.\<close>

definition core_eq :: "prsim_state \<Rightarrow> prsim_state \<Rightarrow> bool" where
  "core_eq s s' \<longleftrightarrow> map node_core (node_pool s') = map node_core (node_pool s) \<and>
     process_state_array s' = process_state_array s \<and> unique_process_pool s' = unique_process_pool s"

lemma core_eqD:
  assumes "core_eq s s'"
  shows "length (node_pool s') = length (node_pool s)"
    "ni < length (node_pool s) \<Longrightarrow> node_core (node_pool s' ! ni) = node_core (node_pool s ! ni)"
proof -
  from assms have m: "map node_core (node_pool s') = map node_core (node_pool s)" by (simp add: core_eq_def)
  show l: "length (node_pool s') = length (node_pool s)" by (rule map_eq_imp_length_eq [OF m])
  show "node_core (node_pool s' ! ni) = node_core (node_pool s ! ni)" if "ni < length (node_pool s)"
    using m that l by (metis nth_map)
qed

text \<open>The counters depend on the pull structures of the nodes only.\<close>

lemma eval_inv_nodes_cong:
  assumes "unique_process_pool s' = unique_process_pool s" and "process_state_array s' = process_state_array s"
    and len: "length (node_pool s') = length (node_pool s)"
    and n: "\<And>i d w. i < length (node_pool s) \<Longrightarrow> is_atomic (node_pool s' ! i) = is_atomic (node_pool s ! i) \<and>
      get_pull_struct d w (node_pool s' ! i) = get_pull_struct d w (node_pool s ! i)"
  shows "eval_inv env vals s' = eval_inv env vals s"
proof -
  have g: "process_graph_of s' = process_graph_of s" by (simp add: fun_eq_iff process_graph_of_def assms)
  have d: "drivers env s' = drivers env s"
    by (intro ext) (simp add: drivers_def all_exprs_def drives_def [abs_def] g assms)
  have p: "driver_pull s' = driver_pull s" by (simp add: fun_eq_iff driver_pull_def g assms)
  have "map is_atomic (node_pool s') = map is_atomic (node_pool s)" using len n by (auto intro: nth_equalityI)
  then have e: "eval_struct env s' = eval_struct env s" by (intro eval_struct_cong) (simp_all add: assms)
  show ?thesis unfolding eval_inv_def e d p g assms(2) len using n by auto
qed

lemma coherent_core:
  assumes c: "core_eq s s'" and l: "leaves_ok env s"
  shows "coherent env s' = coherent env s"
proof -
  note d = core_eqD [OF c]
  have g: "process_graph_of s' = process_graph_of s" using c by (simp add: fun_eq_iff process_graph_of_def core_eq_def)
  then have lv: "leaves s' = leaves s" using c by (simp add: leaves_def all_exprs_def core_eq_def)
  have ln: "leaf_node env s' = leaf_node env s" by (simp add: fun_eq_iff leaf_node_def g)
  have "eval_inv env (leaf_vals env s') s' = eval_inv env (leaf_vals env s) s'"
  proof (rule eval_inv_vals_cong)
    fix pid ui k assume "(pid, ui, k) \<in> set (leaves s')"
    with l lv obtain nj where "leaf_node env s pid ui k = Some nj" "nj < length (node_pool s)"
      by (fastforce simp: leaves_ok_def split: option.splits)
    with node_core_eqD(1) [OF d(2)] show "leaf_vals env s' pid ui k = leaf_vals env s pid ui k"
      by (simp add: leaf_vals_def ln)
  qed
  also have "\<dots> = eval_inv env (leaf_vals env s) s"
    using c node_core_eqD(4,7) [OF d(2)] d(1) by (intro eval_inv_nodes_cong) (simp_all add: core_eq_def)
  finally show ?thesis by (simp add: coherent_def)
qed

lemma node_ok_core:
  assumes c: "core_eq s s'" and e: "static_eq s s'" and ni: "ni < length (node_pool s)" and p: "pend s' ni = pend s ni"
  shows "node_ok s' ni = node_ok s ni"
proof -
  note n = node_core_eqD [OF core_eqD(2) [OF c ni]]
  show ?thesis
    by (simp add: node_ok_def pending_ok_def justified_def settled_value_def n(1,5,6) p static_eqD(9) [OF e] cong: option.case_cong)
qed

lemma run_inv_transfer:
  assumes r: "run_inv X env s" and c: "core_eq s s'" and e: "static_eq s s'" and s': "sched_inv X' s'"
    and p: "\<And>ni. ni < length (node_pool s) \<Longrightarrow> pend s' ni = pend s ni"
    and u: "updated_nodes s' = []" "updated_nodes_queue s' = []" "mk_excl_blocking_set s' = []"
  shows "run_inv X' env s'"
proof -
  from r have k: "config_ok env s" "leaves_ok env s" by (simp_all add: run_inv_def config_ok_def)
  show ?thesis
    using r s' u config_ok_static [OF e k(1)] coherent_core [OF c k(2)] node_ok_core [OF c e _ p] core_eqD(1) [OF c]
    by (simp add: run_inv_def)
qed

lemma run_inv_aux:
  assumes "run_inv X env s" and a: "aux_eq s s'"
  shows "run_inv X env s'"
proof (rule run_inv_transfer [OF assms(1) _ aux_eq_static [OF a]])
  show "core_eq s s'" using aux_eqD(1-3) [OF a] by (simp add: core_eq_def)
  show "sched_inv X s'" using assms(1) aux_eqD(1,4-6) [OF a] by (simp add: run_inv_def sched_inv_def)
  show "pend s' ni = pend s ni" for ni using aux_eqD(1,4) [OF a] by (simp add: pend_def get_event_def)
qed (use assms(1) aux_eqD(7-9) [OF a] in \<open>simp_all add: run_inv_def\<close>)

lemma aux_eq_updates [simp]:
  "aux_eq s (s\<lparr>recent_exceptions := rx\<rparr>)" "aux_eq s (s\<lparr>atomic_updated_nodes := am\<rparr>)" "aux_eq s (s\<lparr>oracle_pos := k\<rparr>)"
  "aux_eq s (s\<lparr>keeper_check_candidates := kc\<rparr>)" "aux_eq s (s\<lparr>invariant_update_map := im\<rparr>)" "aux_eq s (s\<lparr>interrupted := it\<rparr>)"
  "length hi = length (check_exhi_ring_pool s) \<Longrightarrow> aux_eq s (s\<lparr>check_exhi_ring_pool := hi\<rparr>)"
  "length lo = length (check_exlo_ring_pool s) \<Longrightarrow> aux_eq s (s\<lparr>check_exlo_ring_pool := lo\<rparr>)"
  by (simp_all add: aux_eq_def aux_clear_def weak_rules_enabled_def)

lemma aux_eq_flags [simp]: "aux_eq s (stop s)" "aux_eq s (nocheck_excl s)" "aux_eq s (record_exception x s)"
proof -
  have "(w OR FLAG_STOP_SIMULATION) AND FLAG_WEAK_RULES = w AND FLAG_WEAK_RULES"
    "(w AND NOT FLAG_CHECK_EXCL) AND FLAG_WEAK_RULES = w AND FLAG_WEAK_RULES" for w :: "64 word"
    by (simp_all add: bit.conj_disj_distrib2 and.assoc)
  then show "aux_eq s (stop s)" "aux_eq s (nocheck_excl s)" "aux_eq s (record_exception x s)"
    by (simp_all add: aux_eq_def aux_clear_def weak_rules_enabled_def stop_def nocheck_excl_def record_exception_def)
qed

lemma aux_eq_handle_policy [simp]: "aux_eq s (handle_policy E x s)"
  using aux_eq_trans [OF aux_eq_flags(1) [of s] aux_eq_flags(3) [of "stop s" x]] by (simp add: handle_policy_def)

lemma aux_eq_fold: "(\<And>y t. y \<in> set ys \<Longrightarrow> aux_eq t (f y t)) \<Longrightarrow> aux_eq s (fold f ys s)"
proof (induction ys arbitrary: s)
  case (Cons y ys)
  from Cons.prems [of y s] have "aux_eq s (f y s)" by simp
  also have "aux_eq (f y s) (fold f ys (f y s))" using Cons by simp
  finally show ?case by simp
qed simp

lemma aux_eq_handle_invariants: "aux_eq s (handle_invariants c s)"
  unfolding handle_invariants_def by (rule aux_eq_fold) (auto split: prod.splits)

lemma aux_eq_timing_checks: "aux_eq s (execute_timing_checks env ni n v s)"
proof -
  have "aux_eq s (s\<lparr>oracle_pos := oracle_pos s + 1\<rparr>)" by simp
  also have "aux_eq \<dots> (execute_timing_checks env ni n v s)"
    unfolding execute_timing_checks_def Let_def by (rule aux_eq_fold) simp
  finally show ?thesis .
qed

lemma aux_eq_trace: "aux_eq s (snd (trace_event env s))"
  by (auto simp: trace_event_def Let_def aux_eq_def aux_clear_def weak_rules_enabled_def)

section \<open>Dequeueing\<close>

lemma kept_static:
  assumes "kept s s'"
  shows "core_eq s s'" "static_eq s s'" "updated_nodes s' = updated_nodes s" "updated_nodes_queue s' = updated_nodes_queue s"
    "mk_excl_blocking_set s' = mk_excl_blocking_set s" "ni < length (node_pool s) \<Longrightarrow> pend s' ni = pend s ni"
proof -
  from assms obtain p q k ns t where
    s': "s' = s\<lparr>event_pool := p, event_queue := q, oracle_pos := k, node_pool := ns, current_time := t\<rparr>" and
    m: "map clear_event ns = map clear_event (node_pool s)" unfolding kept_def by blast
  have "map node_core ns = map node_core (node_pool s)" by (rule map_projection [where f = node_core and g = clear_event, OF node_core_clear [symmetric] m])
  moreover have "map node_static ns = map node_static (node_pool s)"
    by (rule map_projection [where g = clear_event, OF _ m]) (simp add: node_static_def clear_event_def)
  ultimately show "core_eq s s'" "static_eq s s'" using s' by (simp_all add: core_eq_def static_eq_def weak_rules_enabled_def)
qed (use assms in \<open>auto simp: kept_def\<close>)

lemma sched_inv_advance:
  assumes "sched_inv X s" and "\<forall>x \<in> set (event_queue s). t \<le> ep_time x"
  shows "sched_inv X (s\<lparr>current_time := t\<rparr>)"
  using assms by (simp add: sched_inv_def queue_ok_def)

lemma dequeued_run_inv:
  assumes r: "run_inv {} env s" and d: "dequeued env {} s p s'"
  shows "if \<forall>x \<in> set (event_queue s). killed_index s (ep_index x)
     then ep_index p = INVALID_EVENT_INDEX \<and> event_queue s' = [] \<and> run_inv {} env (s'\<lparr>current_time := ep_time p\<rparr>)
     else run_inv {ep_index p} env (s'\<lparr>current_time := ep_time p\<rparr>) \<and>
       (\<exists>e. get_event s' (ep_index p) = Some e \<and> \<not> killed e)"
proof -
  let ?t = "s'\<lparr>current_time := ep_time p\<rparr>"
  from d have k: "kept s s'" by (simp add: dequeued_def)
  note ks = kept_static [OF k]
  have c: "core_eq s ?t" "static_eq s ?t" using ks(1,2) by (simp_all add: core_eq_def static_eq_def weak_rules_enabled_def)
  have run: "run_inv X env ?t" if "sched_inv X ?t" for X
    by (rule run_inv_transfer [OF r c that]) (use ks(3-6) r in \<open>simp_all add: run_inv_def\<close>)
  show ?thesis
  proof (cases "\<forall>x \<in> set (event_queue s). killed_index s (ep_index x)")
    case True
    with d have "event_queue s' = []" "sched_inv {} s'" "ep_index p = INVALID_EVENT_INDEX" by (simp_all add: dequeued_def)
    with True run [OF sched_inv_advance, of "{}"] show ?thesis by simp
  next
    case False
    with d have "sched_inv {ep_index p} s'" "\<forall>x \<in> set (event_queue s'). ep_time p \<le> ep_time x"
      "\<exists>e. get_event s' (ep_index p) = Some e \<and> \<not> killed e" by (auto simp: dequeued_def split: if_splits)
    with False run [OF sched_inv_advance] show ?thesis by auto
  qed
qed

section \<open>The event leaves the queue\<close>

lemma deallocate_event_ok:
  assumes s: "sched_inv {ei} s" and ni: "ni < length (node_pool s)" and ei: "event_index (node_pool s ! ni) = ei" "ei \<noteq> 0"
  obtains s' where "deallocate_event ni ei s = Some s'" "sched_inv {} s'" "pend s' ni = None"
    "\<And>nj. nj < length (node_pool s) \<Longrightarrow> nj \<noteq> ni \<Longrightarrow> pend s' nj = pend s nj"
    "\<exists>p. s' = s\<lparr>event_pool := p, node_pool := (node_pool s)[ni := clear_event (node_pool s ! ni)]\<rparr>"
proof -
  obtain live: "ei \<in> pool_live (event_pool s)" using sched_inv_node [OF s ni] ei by metis
  note d = pool_deallocate_live [OF sched_inv_pool_ok [OF s] live]
  let ?p = "(event_pool s)\<lparr>free_indices := insort ei (free_indices (event_pool s))\<rparr>"
  let ?s = "s\<lparr>event_pool := ?p, node_pool := (node_pool s)[ni := clear_event (node_pool s ! ni)]\<rparr>"
  have "deallocate_event ni ei s = Some ?s"
    using ni d(1) by (simp add: deallocate_event_def mod_node_def put_node_def)
  moreover have "sched_inv {} ?s"
    using s links_dealloc [OF _ ni ei, of "event_pool s"] queue_ok_dealloc [OF _ d(3), of "{ei}"] by (simp add: sched_inv_def)
  moreover have "pend ?s ni = None" using ni by (simp add: pend_def clear_event_def)
  moreover have "pend ?s nj = pend s nj" if "nj \<noteq> ni" for nj
    using that d(4) by (simp add: pend_def get_event_def)
  ultimately show ?thesis using that by blast
qed

section \<open>The flush leaves justified values\<close>

lemma fired_value_stable: "fired_value p v = Some w \<Longrightarrow> fired_value p w = Some w"
  by (auto simp: fired_value_def split: if_splits bind_splits)

lemma weak_off_pull_set: "weak_rules_off (pull_set_of n False)"
  by (simp add: pull_set_of_def weak_rules_off_def Let_def)

lemma just_target: "pull_target p v = Some w \<Longrightarrow> just p w"
  using fired_value_stable by (auto simp: pull_target_def just_def split: if_splits)

lemma flush_outcome_just:
  assumes w: "weak_rules_off p" and t: "pull_target p old = Some v"
    and p: "\<And>pv frc. pending = Some (pv, frc) \<Longrightarrow> pv \<noteq> old \<and> \<not> frc"
  shows "case flush_outcome p old v pending discard of Some w \<Rightarrow> w \<noteq> old \<and> just p w | None \<Rightarrow> just p old"
proof -
  let ?new = "if v \<noteq> old then Some v else None" and ?x = "if old = LOGIC_OTHER then None else Some LOGIC_OTHER"
  have new: "case ?new of Some w \<Rightarrow> w \<noteq> old \<and> just p w | None \<Rightarrow> just p old" using just_target [OF t] by auto
  have x: "case ?x of Some w \<Rightarrow> w \<noteq> old \<and> just p w | None \<Rightarrow> just p old" by (simp add: just_def)
  show ?thesis
  proof (cases pending)
    case None
    with new show ?thesis by (simp add: flush_outcome_def Let_def)
  next
    case (Some q)
    obtain pv where q: "q = (pv, False)" "pv \<noteq> old" using p Some by (cases q) auto
    have keep: "just p pv" if "\<not> possible_interference_any p" "\<not> have_instability p pv"
    proof (cases pv)
      case LOGIC_LOW
      with that pulling_wins(2) [OF w that(1)] winner_exclusive [of p] show ?thesis
        by (auto simp: just_def have_instability_def fired_value_def)
    next
      case LOGIC_HIGH
      with that pulling_wins(1) [OF w that(1)] show ?thesis by (auto simp: just_def have_instability_def fired_value_def)
    qed (simp add: just_def)
    from new x keep q show ?thesis unfolding flush_outcome_def Some Let_def
      by (simp only: option.case prod.case if_False split: if_split) simp
  qed
qed

lemma flushed_frame:
  assumes "flushed X s c N s'"
  shows "core_eq s s'" "static_eq s s'" "mk_excl_blocking_set s' = mk_excl_blocking_set s" "current_time s' = current_time s"
proof -
  from assms have ff: "flush_frame s (s'\<lparr>updated_nodes := updated_nodes s\<rparr>)" by (simp add: flushed_def)
  then obtain p q k ns where
    t: "s'\<lparr>updated_nodes := updated_nodes s\<rparr> = s\<lparr>event_pool := p, event_queue := q, oracle_pos := k, node_pool := ns\<rparr>" and
    m: "map node_core ns = map node_core (node_pool s)" unfolding flush_frame_def by blast
  have st: "map node_static ns = map node_static (node_pool s)"
    by (rule map_projection [where g = node_core, OF _ m]) (simp add: node_static_def node_core_def)
  note a = arg_cong [OF t]
  show "core_eq s s'" using a [of node_pool] a [of process_state_array] a [of unique_process_pool] m by (simp add: core_eq_def)
  show "mk_excl_blocking_set s' = mk_excl_blocking_set s" "current_time s' = current_time s"
    using a [of mk_excl_blocking_set] a [of current_time] by simp_all
  show "static_eq s s'"
    using st a [of node_pool] a [of process_state_array] a [of unique_process_pool] a [of global_expr_process_id_map]
      a [of timing_params] a [of timing_fanin] a [of check_exhi] a [of check_exlo] a [of check_exhi_ring_pool]
      a [of check_exlo_ring_pool] a [of sim_flags] a [of policies]
    by (simp add: static_eq_def weak_rules_enabled_def)
qed

text \<open>A state in the middle of a step: the counters are consistent, the updated nodes are known, nothing is flushed.\<close>

lemma flush_run_inv:
  assumes c: "config_ok env s" and h: "coherent env s" and sc: "sched_inv {} s" and r: "random_ok env"
    and u: "upd_inv s0 s" and e0: "static_eq s0 s" and b: "mk_excl_blocking_set s = []"
    and pk: "\<And>ni. ni < length (node_pool s) \<Longrightarrow> pending_ok s ni \<and> (\<forall>e. pend s ni = Some e \<longrightarrow> ni \<noteq> INVALID_NODE_INDEX \<and> \<not> forced e)"
    and ok: "\<And>ni. ni < length (node_pool s) \<Longrightarrow> map_of (updated_nodes s) ni = None \<Longrightarrow> justified s ni"
  shows "\<exists>err s'. flush_updated_nodes env cs et s = Some (err, s') \<and> run_inv {} env s' \<and>
    map node_value (node_pool s') = map node_value (node_pool s) \<and> current_time s' = current_time s"
proof -
  from c have w: "\<not> weak_rules_enabled s" by (simp add: config_ok_def)
  have upd: "updated_ok s ni nui" "\<not> excl_blocked nui" if "map_of (updated_nodes s) ni = Some nui" for ni nui
    using u that by (auto simp: upd_inv_def)
  let ?N = "set (updated_nodes_queue s)"
  from u have uq: "update_queue_ok s" by (simp add: upd_inv_def)
  have dom: "ni \<in> ?N \<longleftrightarrow> map_of (updated_nodes s) ni \<noteq> None" for ni
    using uq by (simp add: update_queue_ok_def map_of_eq_None_iff)
  have eff: "effective_pull_set n w' False v = pull_set_of n w'" for n w' v by (simp add: effective_pull_set_def Let_def)
  have tgt: "\<exists>v. pull_target (pull_set_of n False) old = Some v" for n old
    using fired_value_total [OF weak_off_pull_set [of n]] by (auto simp: pull_target_def)
  have "flush_ready s cs ni" if "ni \<in> ?N" for ni
  proof -
    from that dom obtain nui where nui: "map_of (updated_nodes s) ni = Some nui" by auto
    note o = upd [OF nui]
    from o(1) have "ni < length (node_pool s)" by (simp add: updated_ok_def)
    moreover obtain v where "pull_target (pull_set_of (node_pool s ! ni) False) (node_value (node_pool s ! ni)) = Some v"
      using tgt by blast
    ultimately show ?thesis using nui o pk w by (simp add: flush_ready_def flush_target_def eff)
  qed
  with flush_updated_nodes_spec [OF sc r uq b] obtain err s1 where
    f: "flush_updated_nodes env cs et s = Some (err, s1\<lparr>updated_nodes_queue := []\<rparr>)" "flushed {} s cs ?N s1" "updated_nodes s1 = []"
    by blast
  let ?t = "s1\<lparr>updated_nodes_queue := []\<rparr>"
  note ff = flushed_frame [OF f(2)]
  have ce: "core_eq s ?t" and se: "static_eq s ?t" using ff by (simp_all add: core_eq_def static_eq_def weak_rules_enabled_def)
  note cd = core_eqD [OF ce]
  have pt: "pend ?t = pend s1" by (simp add: fun_eq_iff pend_def get_event_def)
  have "node_ok ?t ni" if ni: "ni < length (node_pool s)" for ni
  proof (cases "ni \<in> ?N")
    case False
    with ni f(2) have "pend s1 ni = pend s ni" by (simp add: flushed_def)
    then have "node_ok ?t ni = node_ok s ni" by (intro node_ok_core [OF ce se ni]) (simp add: pt)
    with False dom pk [OF ni] ok [OF ni] show ?thesis by (simp add: node_ok_def)
  next
    case True
    then obtain nui where nui: "map_of (updated_nodes s) ni = Some nui" using dom by auto
    let ?p = "pull_set_of (node_pool s ! ni) False" and ?old = "node_value (node_pool s ! ni)"
    obtain v where v: "pull_target ?p ?old = Some v" using tgt by blast
    let ?pending = "map_option (\<lambda>e. (ev_val e, forced e)) (pend s ni)"
    from True f(2) ni have fv: "map_option ev_val (pend s1 ni) = flush_value s cs ni" and
      ev0: "\<forall>e. pend s1 ni = Some e \<longrightarrow> lookup_rule s (ev_cause_rule e) \<noteq> None \<and>
        (forced e \<longrightarrow> (\<exists>pe. pend s ni = Some pe \<and> forced pe))"
      by (simp_all add: flushed_def del: not_None_eq)
    have "ni \<noteq> INVALID_NODE_INDEX" using upd(1) [OF nui] by (simp add: updated_ok_def)
    then have ev: "ni \<noteq> INVALID_NODE_INDEX \<and> lookup_rule s (ev_cause_rule e) \<noteq> None \<and> \<not> forced e" if "pend s1 ni = Some e" for e
      using ev0 that pk [OF ni] by blast
    from fv nui upd(2) [OF nui] v w obtain disc where
      fo: "map_option ev_val (pend s1 ni) = flush_outcome ?p ?old v ?pending disc"
      by (auto simp: flush_value_def flush_decision_def flush_target_def eff)
    have just: "case map_option ev_val (pend s1 ni) of Some w \<Rightarrow> w \<noteq> ?old \<and> just ?p w | None \<Rightarrow> just ?p ?old"
      unfolding fo by (rule flush_outcome_just [OF weak_off_pull_set v]) (use pk [OF ni] in \<open>auto simp: pending_ok_def\<close>)
    note n = node_core_eqD [OF cd(2) [OF ni]]
    show ?thesis
    proof (cases "pend s1 ni")
      case None
      with just n show ?thesis by (simp add: node_ok_def pending_ok_def justified_def settled_value_def pt del: prsim_state.simps)
    next
      case (Some e)
      with just n ev [OF Some] show ?thesis
        by (simp add: node_ok_def pending_ok_def justified_def settled_value_def pt static_eqD(9) [OF se] del: prsim_state.simps)
    qed
  qed
  moreover have "coherent env ?t" using coherent_core [OF ce] c h by (simp add: config_ok_def)
  moreover have "sched_inv {} ?t" using f(2) by (simp add: flushed_def)
  ultimately have "run_inv {} env ?t"
    using config_ok_static [OF se c] f(3) b ff(3) cd(1) by (simp add: run_inv_def)
  moreover have "map node_value (node_pool ?t) = map node_value (node_pool s)"
    using ce map_projection [where f = node_value and g = node_core and xs = "node_pool ?t" and ys = "node_pool s"]
    by (simp add: core_eq_def node_core_def)
  ultimately show ?thesis using f(1) ff(4) by auto
qed

section \<open>Executing an event\<close>

definition shuffle_ok :: "sim_env \<Rightarrow> bool" where
  "shuffle_ok env \<longleftrightarrow> (\<forall>k xs. mset (shuffle_fanout env k xs) = mset xs)"

lemma aux_eq_leaves:
  assumes "aux_eq s s'"
  shows "leaves s' = leaves s" "leaf_node env s' = leaf_node env s" "leaf_vals env s' = leaf_vals env s"
proof -
  note a = aux_eqD [OF assms]
  have g: "process_graph_of s' = process_graph_of s" by (simp add: fun_eq_iff process_graph_of_def a)
  show "leaves s' = leaves s" by (simp add: leaves_def all_exprs_def g a)
  show n: "leaf_node env s' = leaf_node env s" by (simp add: fun_eq_iff leaf_node_def g)
  show "leaf_vals env s' = leaf_vals env s" by (simp add: fun_eq_iff leaf_vals_def n a cong: option.case_cong)
qed

lemma aux_eq_upd_inv:
  assumes "aux_eq s s'"
  shows "upd_inv s0 s' = upd_inv s0 s"
  using aux_eqD [OF assms] updated_ok_static [OF aux_eq_static [OF assms]] by (simp add: upd_inv_def update_queue_ok_def)

lemma aux_eq_coherent:
  assumes "aux_eq s s'"
  shows "coherent env s' = coherent env s"
  unfolding coherent_def aux_eq_leaves(3) [OF assms] using aux_eqD [OF assms] by (intro eval_inv_cong) simp_all

lemma aux_eq_pend:
  assumes "aux_eq s s'"
  shows "pend s' = pend s" "sched_inv X s' = sched_inv X s" "node_ok s' = node_ok s"
proof -
  note a = aux_eqD [OF assms]
  show p: "pend s' = pend s" by (simp add: fun_eq_iff pend_def get_event_def a)
  show "sched_inv X s' = sched_inv X s" by (simp add: sched_inv_def a)
  show "node_ok s' = node_ok s"
    using static_eqD(9) [OF aux_eq_static [OF assms]]
    by (simp add: fun_eq_iff node_ok_def pending_ok_def justified_def settled_value_def p a cong: option.case_cong)
qed

lemma prop_frame_pend:
  assumes "prop_frame s s'"
  shows "ni < length (node_pool s) \<Longrightarrow> pend s' ni = pend s ni" "sched_inv X s' = sched_inv X s"
    "map node_value (node_pool s') = map node_value (node_pool s)" "mk_excl_blocking_set s' = mk_excl_blocking_set s"
    "current_time s' = current_time s"
    "ni < length (node_pool s) \<Longrightarrow> pull_set_of (node_pool s' ! ni) False = pull_set_of (node_pool s ! ni) False
       \<Longrightarrow> node_ok s' ni = node_ok s ni"
    "ni < length (node_pool s) \<Longrightarrow> pending_ok s' ni = pending_ok s ni"
proof -
  from assms obtain psa am im ns un uq where
    s': "s' = s\<lparr>process_state_array := psa, atomic_updated_nodes := am, invariant_update_map := im, node_pool := ns,
            updated_nodes := un, updated_nodes_queue := uq\<rparr>" and m: "map node_shape ns = map node_shape (node_pool s)"
    unfolding prop_frame_def by blast
  have len: "length ns = length (node_pool s)" by (rule map_eq_imp_length_eq [OF m])
  have sh: "node_shape (ns ! i) = node_shape (node_pool s ! i)" if "i < length (node_pool s)" for i
    using m that len by (metis nth_map)
  show p: "pend s' i = pend s i" if "i < length (node_pool s)" for i
    using node_shape_eqD(2) [OF sh [OF that]] by (simp add: pend_def get_event_def s')
  have "links_ok (event_pool s) ns = links_ok (event_pool s) (node_pool s)"
  proof -
    have "event_index (ns ! i) = event_index (node_pool s ! i)" "is_atomic (ns ! i) = is_atomic (node_pool s ! i)"
      if "i < length (node_pool s)" for i
      using node_shape_eqD(2) [OF sh [OF that]] is_atomic_cong [OF node_shape_eqD(3) [OF sh [OF that]]] by simp_all
    then show ?thesis unfolding links_ok_def len by (intro conj_cong refl ball_cong ex_cong1) auto
  qed
  then show "sched_inv X s' = sched_inv X s" by (simp add: s' sched_inv_def)
  show "map node_value (node_pool s') = map node_value (node_pool s)"
    using map_projection [where f = node_value and g = node_shape, OF _ m] by (simp add: s' node_shape_def)
  show "mk_excl_blocking_set s' = mk_excl_blocking_set s" "current_time s' = current_time s" by (simp_all add: s')
  note e = static_eqD(9) [OF prop_frame_static [OF assms]]
  show pk: "pending_ok s' i = pending_ok s i" if "i < length (node_pool s)" for i
    using node_shape_eqD(1) [OF sh [OF that]] p [OF that] e by (simp add: pending_ok_def s')
  show "node_ok s' ni = node_ok s ni" if "ni < length (node_pool s)"
      "pull_set_of (node_pool s' ! ni) False = pull_set_of (node_pool s ! ni) False"
    using pk [OF that(1)] p [OF that(1)] that(2) node_shape_eqD(1) [OF sh [OF that(1)]]
      static_eq_flags(2) [OF prop_frame_static [OF assms] that(1)]
    by (simp add: node_ok_def justified_def settled_value_def s' cong: option.case_cong)
qed

lemma execute_fanout_spec:
  assumes c: "config_ok env s" and sc: "sched_inv {} s" and r: "random_ok env" "shuffle_ok env"
    and ni: "ni < length (node_pool s)" and inv: "eval_inv env vals s"
    and old: "\<forall>(pid, ui, k) \<in> set (leaves s). vals pid ui k =
      (if leaf_node env s pid ui k = Some ni then pull_of_value prev else leaf_vals env s pid ui k)"
    and new: "cause_val cs = node_value (node_pool s ! ni)"
    and u: "updated_nodes s = []" "updated_nodes_queue s = []" "mk_excl_blocking_set s = []"
    and ok: "\<And>nj. nj < length (node_pool s) \<Longrightarrow> node_ok s nj"
  shows "\<exists>s'. execute_fanout set_now env ni prev cs ept s = Some s' \<and> run_inv {} env s' \<and>
    map node_value (node_pool s') = map node_value (node_pool s) \<and> current_time s' = current_time s"
proof -
  define order where "order = (if eval_ordering_is_random s then shuffle_fanout env (oracle_pos s) (fanout (node_pool s ! ni))
      else fanout (node_pool s ! ni))"
  define s0 where "s0 = (if eval_ordering_is_random s then s\<lparr>oracle_pos := oracle_pos s + 1\<rparr> else s)"
  define s1 where "s1 = s0\<lparr>keeper_check_candidates := [], invariant_update_map := []\<rparr>"
  have a1: "aux_eq s s1" by (simp add: s1_def s0_def aux_eq_def aux_clear_def weak_rules_enabled_def)
  note d1 = aux_eqD [OF a1] and e1 = aux_eq_static [OF a1] and l1 = aux_eq_leaves [OF a1] and p1 = aux_eq_pend [OF a1]
  have "mset order = mset (fanout (node_pool s1 ! ni))" using r(2) d1(1) by (simp add: order_def shuffle_ok_def)
  moreover have "eval_inv env vals s1" using inv d1 by (subst eval_inv_cong [of _ s]) simp_all
  moreover have "\<forall>(pid, ui, k) \<in> set (leaves s1). vals pid ui k =
      (if leaf_node env s1 pid ui k = Some ni then pull_of_value prev else leaf_vals env s1 pid ui k)"
    using old unfolding l1 .
  ultimately obtain s2 where
    2: "propagate_fanout set_now env cs order (pull_of_value prev) s1 = Some s2" "coherent env s2" "upd_inv s1 s2" "prop_frame s1 s2"
    using propagate_node_spec [OF config_ok_static [OF e1 c], of vals ni order "pull_of_value prev" cs set_now] u(1,2) ni new d1(1,7,8)
    unfolding coherent_def by auto
  note f2 = prop_frame_static [OF 2(4)] and p2 = prop_frame_pend [OF 2(4)]
  define s3 where "s3 = (handle_invariants cs s2)\<lparr>invariant_update_map := invariant_update_map s0\<rparr>"
  have a3: "aux_eq s2 s3" unfolding s3_def by (rule aux_eq_trans [OF aux_eq_handle_invariants [of s2 cs]]) simp
  note d3 = aux_eqD [OF a3] and p3 = aux_eq_pend [OF a3]
  have e13: "static_eq s1 s3" using f2 aux_eq_static [OF a3] by (simp add: static_eq_def)
  have len: "length (node_pool s3) = length (node_pool s)" using static_eqD(1) [OF e13] d1(1) by simp
  have c3: "config_ok env s3" by (rule config_ok_static [OF e13 config_ok_static [OF e1 c]])
  have u3: "upd_inv s1 s3" using 2(3) aux_eq_upd_inv [OF a3] by simp
  have "\<exists>err t. flush_updated_nodes env cs ept s3 = Some (err, t) \<and> run_inv {} env t \<and>
    map node_value (node_pool t) = map node_value (node_pool s3) \<and> current_time t = current_time s3"
  proof (rule flush_run_inv [OF c3 _ _ r(1) u3 e13])
    show "coherent env s3" using 2(2) aux_eq_coherent [OF a3] by simp
    show "sched_inv {} s3" using sc p1(2) p2(2) p3(2) by simp
    show "mk_excl_blocking_set s3 = []" using u(3) d1(9) p2(4) d3(9) by simp
  next
    fix nj assume nj: "nj < length (node_pool s3)"
    then have nj1: "nj < length (node_pool s1)" "nj < length (node_pool s)" using len d1(1) by simp_all
    have "node_ok s1 nj" using ok [OF nj1(2)] p1(3) by simp
    then have "pending_ok s1 nj" "\<forall>e. pend s1 nj = Some e \<longrightarrow> nj \<noteq> INVALID_NODE_INDEX \<and> \<not> forced e"
      by (simp_all add: node_ok_def)
    with p2(1,7) [OF nj1(1)] have "pending_ok s2 nj" "\<forall>e. pend s2 nj = Some e \<longrightarrow> nj \<noteq> INVALID_NODE_INDEX \<and> \<not> forced e"
      by simp_all
    then show "pending_ok s3 nj \<and> (\<forall>e. pend s3 nj = Some e \<longrightarrow> nj \<noteq> INVALID_NODE_INDEX \<and> \<not> forced e)"
      using p3(1) static_eqD(9) [OF aux_eq_static [OF a3]] d3(1) by (simp add: pending_ok_def)
    assume no: "map_of (updated_nodes s3) nj = None"
    show "justified s3 nj"
    proof (cases "is_frozen (node_pool s3 ! nj)")
      case False
      then have "\<not> is_frozen (node_pool s1 ! nj)" using static_eq_flags(2) [OF e13 nj1(1)] by simp
      with no u3 nj1(1) have "pull_set_of (node_pool s2 ! nj) False = pull_set_of (node_pool s1 ! nj) False"
        using d3(1) by (auto simp: upd_inv_def)
      with \<open>node_ok s1 nj\<close> p2(6) [OF nj1(1)] p3(3) have "node_ok s3 nj" by simp
      then show ?thesis by (simp add: node_ok_def)
    qed (simp add: justified_def)
  qed
  then obtain err t where t: "flush_updated_nodes env cs ept s3 = Some (err, t)" "run_inv {} env t"
    "map node_value (node_pool t) = map node_value (node_pool s3)" "current_time t = current_time s3" by blast
  let ?t = "handle_policy err (generic_exception ni err) t"
  have "plain_node (node_pool s3 ! ni)" using c3 ni len by (simp add: config_ok_def list_all_length)
  then have n3: "\<not> in_channel (node_pool s3 ! ni)" "\<not> has_mk_exclhi (node_pool s3 ! ni)" "\<not> has_mk_excllo (node_pool s3 ! ni)"
    by (simp_all add: plain_node_def)
  have rt: "run_inv {} env ?t" by (rule run_inv_aux [OF t(2)]) simp
  then have "\<not> keeper_check_fail_policy (policies ?t) > ERROR_IGNORE" by (simp add: run_inv_def config_ok_def not_less)
  moreover have "(if eval_ordering_is_random s then (shuffle_fanout env (oracle_pos s) (fanout (node_pool s ! ni)), s\<lparr>oracle_pos := oracle_pos s + 1\<rparr>)
      else (fanout (node_pool s ! ni), s)) = (order, s0)" by (simp add: order_def s0_def)
  moreover have "get_node s3 ni = Some (node_pool s3 ! ni)" using ni len by simp
  ultimately have "execute_fanout set_now env ni prev cs ept s = Some ?t"
    unfolding execute_fanout_def Let_def get_node_nth [OF ni]
    by (simp only: bind_simps bind.bind_lunit prod.case s1_def [symmetric] 2(1) s3_def [symmetric] n3 if_False t(1))
  moreover have "map node_value (node_pool ?t) = map node_value (node_pool s)" "current_time ?t = current_time s"
    using t(3,4) d1(1,6) d3(1,6) p2(3,5) aux_eqD(1,6) [OF aux_eq_handle_policy [of t err "generic_exception ni err"]] by simp_all
  ultimately show ?thesis using rt by blast
qed

subsection \<open>Exclusion checks\<close>

lemma take_locks_total:
  "\<forall>li \<in> set ls. 0 < li \<and> li < length pool \<Longrightarrow> \<exists>x p. take_locks ls pool = Some (x, p) \<and> length p = length pool"
proof (induction ls arbitrary: pool)
  case (Cons l ls)
  from Cons.IH [of "pool[l := True]"] Cons.prems show ?case by (auto simp: nth_opt_in)
qed simp

lemma drop_locks_total:
  "\<forall>li \<in> set ls. 0 < li \<and> li < length pool \<Longrightarrow> \<exists>p. drop_locks ls pool = Some p \<and> length p = length pool"
proof (induction ls arbitrary: pool)
  case (Cons l ls)
  from Cons.IH [of "pool[l := False]"] Cons.prems show ?case by auto
qed simp

lemma check_ring_polarity_total:
  assumes "lock_list_ok locks (length pool)"
  shows "\<exists>x p. check_ring_polarity a locks prev nxt pool = Some (x, p) \<and> length p = length pool"
proof -
  from assms obtain ls where ls: "locks = Some ls" "\<forall>li \<in> set ls. 0 < li \<and> li < length pool"
    by (auto simp: lock_list_ok_def split: option.splits)
  from take_locks_total [OF ls(2)] drop_locks_total [OF ls(2)] ls(1) show ?thesis
    by (auto simp: check_ring_polarity_def)
qed

lemma check_excl_rings_total:
  assumes "locks_ok s" and "ni < length (node_pool s)"
  shows "\<exists>x s'. check_excl_rings ni (node_pool s ! ni) prev nxt s = Some (x, s') \<and> aux_eq s s'"
proof -
  let ?n = "node_pool s ! ni"
  obtain x hi where 1: "(if has_check_exclhi ?n then do {
          (x, p) \<leftarrow> check_ring_polarity LOGIC_HIGH (check_exhi s ni) prev nxt (check_exhi_ring_pool s);
          Some (x, s\<lparr>check_exhi_ring_pool := p\<rparr>) } else Some (None, s)) = Some (x, s\<lparr>check_exhi_ring_pool := hi\<rparr>)"
    "length hi = length (check_exhi_ring_pool s)"
  proof (cases "has_check_exclhi ?n")
    case True
    with assms check_ring_polarity_total [of "check_exhi s ni" "check_exhi_ring_pool s" LOGIC_HIGH prev nxt] that
    show ?thesis by (auto simp: locks_ok_def)
  qed (use that [of None "check_exhi_ring_pool s"] in simp)
  let ?s = "s\<lparr>check_exhi_ring_pool := hi\<rparr>"
  obtain y lo where 2: "(if has_check_excllo ?n then do {
          (y, p) \<leftarrow> check_ring_polarity LOGIC_LOW (check_exlo ?s ni) prev nxt (check_exlo_ring_pool ?s);
          Some (y, ?s\<lparr>check_exlo_ring_pool := p\<rparr>) } else Some (None, ?s)) = Some (y, ?s\<lparr>check_exlo_ring_pool := lo\<rparr>)"
    "length lo = length (check_exlo_ring_pool s)"
  proof (cases "has_check_excllo ?n")
    case True
    with assms check_ring_polarity_total [of "check_exlo s ni" "check_exlo_ring_pool s" LOGIC_LOW prev nxt] that
    show ?thesis by (auto simp: locks_ok_def)
  qed (use that [of None "check_exlo_ring_pool s"] in simp)
  have a: "aux_eq s ?s" using 1(2) by simp
  have b: "aux_eq s (?s\<lparr>check_exlo_ring_pool := lo\<rparr>)" by (rule aux_eq_trans [OF a]) (use 2(2) in simp)
  show ?thesis unfolding check_excl_rings_def 1(1) using 2(1) a b by (cases x) auto
qed

text \<open>A violation of the default policy puts the event back into the queue; otherwise execution goes on.\<close>

lemma execute_excl_check_spec:
  assumes r: "run_inv {ei} env s" and ni: "ni < length (node_pool s)" and ei: "event_index (node_pool s ! ni) = ei" "ei \<noteq> 0"
    and t: "current_time s \<le> ept"
  shows "(\<exists>s' x. execute_excl_check ni (node_pool s ! ni) prev nxt ept s = Some (Inl s') \<and> run_inv {} env s' \<and>
      checking_excl s \<and> x \<in> set (recent_exceptions s') \<and> node_pool s' = node_pool s \<and> current_time s' = current_time s) \<or>
    (\<exists>s'. execute_excl_check ni (node_pool s ! ni) prev nxt ept s = Some (Inr s') \<and> aux_eq s s')"
proof (cases "checking_excl s")
  case False
  then show ?thesis by (simp add: execute_excl_check_def)
next
  case True
  from r have "locks_ok s" and sc: "sched_inv {ei} s" by (simp_all add: run_inv_def config_ok_def)
  with check_excl_rings_total [OF _ ni] obtain x s1 where
    c: "check_excl_rings ni (node_pool s ! ni) prev nxt s = Some (x, s1)" "aux_eq s s1" by blast
  let ?E = "excl_check_fail_policy (policies s1)"
  have go: "aux_eq s (nocheck_excl (stop s1))" "aux_eq s (nocheck_excl s1)"
    by (meson aux_eq_trans aux_eq_flags c(2))+
  consider "x = None" | ty li nd where "x = Some (ty, li, nd)" "?E \<in> {ERROR_BREAK, ERROR_WARN, ERROR_IGNORE}"
    | ty li nd where "x = Some (ty, li, nd)" "?E \<notin> {ERROR_BREAK, ERROR_WARN, ERROR_IGNORE}"
    by (metis option.exhaust prod.exhaust)
  then show ?thesis
  proof cases
    case 1
    with True c show ?thesis by (simp add: execute_excl_check_def)
  next
    case 2
    with True c go show ?thesis by (auto simp: execute_excl_check_def Let_def)
  next
    case 3
    note a = aux_eqD [OF c(2)]
    obtain e where e: "get_event s ei = Some e" "\<not> killed e" using sched_inv_node [OF sc ni] ei by metis
    have g: "get_event s1 ei = Some e" using e(1) a(4) by (simp add: get_event_def)
    have s1: "sched_inv (insert ei {}) s1" using aux_eq_pend(2) [OF c(2)] sc by simp
    let ?s = "s1\<lparr>event_queue := eq_push \<lparr>ep_time = ept, ep_index = ei\<rparr> (event_queue s1)\<rparr>"
    note enq = enqueue_event_ok [OF s1 _ _ g e(2), of ept]
    have "run_inv {} env ?s"
    proof (rule run_inv_transfer [OF run_inv_aux [OF r c(2)]])
      show "core_eq s1 ?s" "static_eq s1 ?s" by (simp_all add: core_eq_def static_eq_def weak_rules_enabled_def)
      show "sched_inv {} ?s" using enq(2) t a(6) by simp
      show "updated_nodes ?s = []" "updated_nodes_queue ?s = []" "mk_excl_blocking_set ?s = []"
        using r a(7-9) by (simp_all add: run_inv_def)
    qed simp
    then have "run_inv {} env (record_exception (excl_exception ty li nd) ?s)" by (rule run_inv_aux) simp
    moreover have "enqueue_event ept ei s1 = Some ?s" using enq(1) t a(6) by simp
    ultimately show ?thesis using True c(1) 3 ei a(1,6)
      by (intro disjI1 exI [of _ "record_exception (excl_exception ty li nd) ?s"] exI [of _ "excl_exception ty li nd"])
        (simp add: execute_excl_check_def Let_def record_exception_def)
  qed
qed

subsection \<open>The new value\<close>

text \<open>Writing the value of an event to its node and dropping the event: everything but the counters is in order.\<close>

definition updated_node :: "value_enum \<Rightarrow> event_cause \<Rightarrow> time_type \<Rightarrow> nat \<Rightarrow> node_state \<Rightarrow> node_state" where
  "updated_node v c t k n = (set_value_and_cause v c t n)\<lparr>tcount := k\<rparr>"

lemma updated_node_sel [simp]:
  "event_index (updated_node v c t k n) = event_index n" "node_value (updated_node v c t k n) = v"
  "is_atomic (updated_node v c t k n) = is_atomic n" "node_static (updated_node v c t k n) = node_static n"
  "get_pull_struct d w (updated_node v c t k n) = get_pull_struct d w n"
  "pull_set_of (updated_node v c t k n) b = pull_set_of n b" "is_frozen (updated_node v c t k n) = is_frozen n"
  by (simp_all add: updated_node_def set_value_and_cause_def is_atomic_def node_static_def get_pull_struct_def
      pull_set_of_def is_frozen_def Let_def)

lemma clear_event_sel [simp]:
  "node_value (clear_event n) = node_value n" "is_atomic (clear_event n) = is_atomic n" "node_static (clear_event n) = node_static n"
  "get_pull_struct d w (clear_event n) = get_pull_struct d w n" "pull_set_of (clear_event n) b = pull_set_of n b"
  "is_frozen (clear_event n) = is_frozen n"
  by (simp_all add: clear_event_def is_atomic_def node_static_def get_pull_struct_def pull_set_of_def is_frozen_def Let_def)

lemma drop_event_spec:
  assumes r: "run_inv {ei} env s" and pe: "get_event s ei = Some pe" "\<not> killed pe"
    and ni: "ni = ev_node pe" and n': "n' = updated_node (ev_val pe) c t k (node_pool s ! ni)"
  shows "\<exists>s'. drop_event ni ei (put_node s ni n') = Some s' \<and> static_eq s s' \<and> sched_inv {} s' \<and>
    node_pool s' = (node_pool s)[ni := clear_event n'] \<and> process_state_array s' = process_state_array s \<and>
    unique_process_pool s' = unique_process_pool s \<and> updated_nodes s' = [] \<and> updated_nodes_queue s' = [] \<and>
    mk_excl_blocking_set s' = [] \<and> current_time s' = current_time s \<and> (\<forall>nj < length (node_pool s). node_ok s' nj)"
proof -
  from r have sc: "sched_inv {ei} s" and ok: "\<And>nj. nj < length (node_pool s) \<Longrightarrow> node_ok s nj" by (simp_all add: run_inv_def)
  from sched_inv_event [OF sc, of ei] pe ni have n: "ni < length (node_pool s)" "event_index (node_pool s ! ni) = ei" "ei \<noteq> 0" by auto
  let ?s = "put_node s ni n'"
  have s1: "sched_inv {ei} ?s" by (rule sched_inv_put_node [OF sc n(1)]) (simp_all add: n')
  obtain s' where d: "deallocate_event ni ei ?s = Some s'" "sched_inv {} s'" "pend s' ni = None"
    "\<And>nj. nj < length (node_pool ?s) \<Longrightarrow> nj \<noteq> ni \<Longrightarrow> pend s' nj = pend ?s nj"
    "\<exists>p. s' = ?s\<lparr>event_pool := p, node_pool := (node_pool ?s)[ni := clear_event (node_pool ?s ! ni)]\<rparr>"
    by (rule deallocate_event_ok [OF s1, of ni]) (use n n' that in simp_all)
  then obtain p where s': "s' = s\<lparr>event_pool := p, node_pool := (node_pool s)[ni := clear_event n']\<rparr>"
    using n(1) by (auto simp: put_node_def)
  have se: "static_eq s s'"
    using n(1) by (simp add: s' static_eq_def weak_rules_enabled_def map_update list_update_same_conv n')
  have "node_ok s' nj" if nj: "nj < length (node_pool s)" for nj
  proof (cases "nj = ni")
    case True
    from ok [OF n(1)] have "justified s ni" by (simp add: node_ok_def)
    moreover have "pend s ni = Some pe" using pe n by (simp add: pend_def)
    ultimately show ?thesis using True d(3) n(1)
      by (simp add: node_ok_def pending_ok_def justified_def settled_value_def s' n')
  next
    case False
    have "pend ?s nj = pend s nj" using False by (simp add: pend_def)
    with d(4) [of nj] nj False have "pend s' nj = pend s nj" by simp
    with ok [OF nj] False nj show ?thesis
      by (simp add: node_ok_def pending_ok_def justified_def settled_value_def static_eqD(9) [OF se])
        (simp add: s' cong: option.case_cong)
  qed
  moreover have "drop_event ni ei ?s = Some s'" using d(1) n(3) by (simp add: drop_event_def)
  ultimately show ?thesis using se d(2) r by (intro exI [of _ s']) (simp add: s' run_inv_def)
qed

text \<open>
  Executing an event: either the node takes the value of the event, or an exclusion check rejects the event, which
  goes back to the queue.
\<close>

definition executed :: "prsim_state \<Rightarrow> event \<Rightarrow> step_return \<Rightarrow> prsim_state \<Rightarrow> bool" where
  "executed s e ret s' \<longleftrightarrow>
     ret = (ev_node e, cause_node (ev_cause e)) \<and>
       map node_value (node_pool s') = (map node_value (node_pool s))[ev_node e := ev_val e] \<or>
     ret = (INVALID_NODE_INDEX, INVALID_NODE_INDEX) \<and> recent_exceptions s' \<noteq> [] \<and> checking_excl s \<and>
       map node_value (node_pool s') = map node_value (node_pool s)"

lemma leaf_vals_updated:
  assumes l: "leaves_ok env s" and e: "static_eq s s'" and n: "node_pool s' = (node_pool s)[ni := n']"
    and x: "(pid, ui, k) \<in> set (leaves s')"
  shows "leaf_vals env s pid ui k =
    (if leaf_node env s' pid ui k = Some ni then pull_of_value (node_value (node_pool s ! ni)) else leaf_vals env s' pid ui k)"
proof -
  from x static_eqD(7) [OF e] have x': "(pid, ui, k) \<in> set (leaves s)" by simp
  with l obtain nj where "leaf_node env s pid ui k = Some nj"
    by (fastforce simp: leaves_ok_def split: option.splits)
  with static_eq_leaf(1) [OF e x', of env] n show ?thesis by (simp add: leaf_vals_def)
qed

lemma execute_body_spec:
  assumes r: "run_inv {ei} env s" and ro: "random_ok env" "shuffle_ok env"
    and pe: "get_event s ei = Some pe" "\<not> killed pe" and t: "current_time s \<le> ept"
  shows "\<exists>ret s'. execute_body ex env pe ept s = Some (ret, s') \<and> run_inv {} env s' \<and>
    current_time s' = current_time s \<and> executed s pe ret s'"
proof -
  let ?ni = "ev_node pe"
  from r have sc: "sched_inv {ei} s" by (simp add: run_inv_def)
  from sched_inv_event [OF sc, of ei] pe have n: "?ni < length (node_pool s)" "event_index (node_pool s ! ?ni) = ei" "ei \<noteq> 0" by auto
  let ?n = "node_pool s ! ?ni"
  have pend: "pend s ?ni = Some pe" using pe(1) n by (simp add: pend_def)
  with r n(1) have nv: "ev_val pe \<noteq> node_value ?n" by (auto simp: run_inv_def node_ok_def pending_ok_def)
  obtain critical s1 where tr: "trace_event env (s\<lparr>recent_exceptions := []\<rparr>) = (critical, s1)" by (cases "trace_event env (s\<lparr>recent_exceptions := []\<rparr>)")
  have a1: "aux_eq s s1"
    using aux_eq_trans [OF aux_eq_updates(1) [of s "[]"] aux_eq_trace [of _ env]] tr by simp
  note d1 = aux_eqD [OF a1]
  have fl: "checking_excl s1 = checking_excl s"
    using tr by (auto simp: trace_event_def Let_def checking_excl_def split: if_splits)
  have r1: "run_inv {ei} env s1" by (rule run_inv_aux [OF r a1])
  have g1: "get_event s1 ei = Some pe" using pe(1) d1(4) by (simp add: get_event_def)
  have unf: "execute_body ex env pe ept s = (do {
       chk \<leftarrow> execute_excl_check ?ni ?n (node_value ?n) (ev_val pe) ept s1;
       case chk of
         Inl s2 \<Rightarrow> Some ((INVALID_NODE_INDEX, INVALID_NODE_INDEX), s2)
       | Inr s2 \<Rightarrow> do {
           s4 \<leftarrow> drop_event ?ni ei (put_node (execute_timing_checks env ?ni ?n (ev_val pe) s2) ?ni
             (updated_node (ev_val pe) (ev_cause pe) ept (if ev_val pe \<noteq> LOGIC_OTHER then tcount ?n + 1 else tcount ?n) ?n));
           s5 \<leftarrow> execute_fanout (set_node_immediately_with ex False) env ?ni (node_value ?n) (EventCause_new ?ni (ev_val pe) critical) ept s4;
           Some ((?ni, cause_node (ev_cause pe)), s5) } })"
    using r n nv tr unfolding execute_body_def
    by (simp add: run_inv_def Let_def updated_node_def get_node_def nth_opt_in not_sym [OF nv] cong: sum.case_cong) auto
  from execute_excl_check_spec [OF r1, of ?ni ept "node_value ?n" "ev_val pe"] n t d1(1,6)
  consider (inl) s2 x where "execute_excl_check ?ni ?n (node_value ?n) (ev_val pe) ept s1 = Some (Inl s2)" "run_inv {} env s2"
      "checking_excl s1" "x \<in> set (recent_exceptions s2)" "node_pool s2 = node_pool s1" "current_time s2 = current_time s1"
    | (inr) s2 where "execute_excl_check ?ni ?n (node_value ?n) (ev_val pe) ept s1 = Some (Inr s2)" "aux_eq s1 s2" by auto
  then show ?thesis
  proof cases
    case inl
    then have "execute_body ex env pe ept s = Some ((0, 0), s2)" by (simp add: unf)
    with inl d1(1,6) fl show ?thesis by (auto simp: executed_def)
  next
    case inr
    define s3 where "s3 = execute_timing_checks env ?ni ?n (ev_val pe) s2"
    have a3: "aux_eq s s3"
      unfolding s3_def by (rule aux_eq_trans [OF aux_eq_trans [OF a1 inr(2)] aux_eq_timing_checks])
    note d3 = aux_eqD [OF a3]
    have r3: "run_inv {ei} env s3" by (rule run_inv_aux [OF r a3])
    have g3: "get_event s3 ei = Some pe" using pe(1) d3(4) by (simp add: get_event_def)
    define n' where "n' = updated_node (ev_val pe) (ev_cause pe) ept (if ev_val pe \<noteq> LOGIC_OTHER then tcount ?n + 1 else tcount ?n) ?n"
    from drop_event_spec [OF r3 g3 pe(2) refl n'_def [folded d3(1)]] d3(1) obtain s4 where
      4: "drop_event ?ni ei (put_node s3 ?ni n') = Some s4" "static_eq s3 s4" "sched_inv {} s4"
      "node_pool s4 = (node_pool s)[?ni := clear_event n']" "process_state_array s4 = process_state_array s3"
      "unique_process_pool s4 = unique_process_pool s3" "updated_nodes s4 = []" "updated_nodes_queue s4 = []"
      "mk_excl_blocking_set s4 = []" "current_time s4 = current_time s3" "\<forall>nj < length (node_pool s). node_ok s4 nj"
      by auto
    from r3 have c3: "config_ok env s3" "leaves_ok env s3" by (simp_all add: run_inv_def config_ok_def)
    have "eval_inv env (leaf_vals env s3) s4 = eval_inv env (leaf_vals env s3) s3"
      by (rule eval_inv_nodes_cong) (use 4(4-6) d3(1) n(1) in \<open>simp_all add: nth_list_update n'_def\<close>)
    then have inv: "eval_inv env (leaf_vals env s3) s4" using r3 by (simp add: run_inv_def coherent_def)
    have old: "\<forall>(pid, ui, k) \<in> set (leaves s4). leaf_vals env s3 pid ui k =
        (if leaf_node env s4 pid ui k = Some ?ni then pull_of_value (node_value ?n) else leaf_vals env s4 pid ui k)"
      using leaf_vals_updated [OF c3(2) 4(2), of ?ni "clear_event n'"] 4(4) d3(1) by auto
    let ?cs = "EventCause_new ?ni (ev_val pe) critical"
    from execute_fanout_spec [OF config_ok_static [OF 4(2) c3(1)] 4(3) ro _ inv old _ 4(7-9),
        of ?cs "set_node_immediately_with ex False" ept] 4(4,11) n(1)
    obtain s5 where 5: "execute_fanout (set_node_immediately_with ex False) env ?ni (node_value ?n) ?cs ept s4 = Some s5"
      "run_inv {} env s5" "map node_value (node_pool s5) = map node_value (node_pool s4)" "current_time s5 = current_time s4"
      by (auto simp: EventCause_new_def n'_def)
    have "execute_body ex env pe ept s = Some ((?ni, cause_node (ev_cause pe)), s5)"
      using inr(1) 4(1) 5(1) by (simp add: unf s3_def n'_def)
    moreover have "map node_value (node_pool s5) = (map node_value (node_pool s))[?ni := ev_val pe]"
      using 5(3) 4(4) by (simp add: map_update n'_def)
    ultimately show ?thesis using 5(2,4) 4(10) d3(6) by (auto simp: executed_def)
  qed
qed

section \<open>A step\<close>

lemma run_inv_pending:
  assumes "run_inv X env s" and "ni < length (node_pool s)" and "pend s ni = Some e"
  shows "event_index (node_pool s ! ni) \<in> X \<union> ep_index ` set (event_queue s)"
    "\<not> killed_index s (event_index (node_pool s ! ni))"
proof -
  from assms(1) have sc: "sched_inv X s" by (simp add: run_inv_def)
  from assms(3) have e: "event_index (node_pool s ! ni) \<noteq> 0" by (auto simp: pend_def split: if_splits)
  show "event_index (node_pool s ! ni) \<in> X \<union> ep_index ` set (event_queue s)"
    by (rule sched_inv_node [OF sc assms(2) e]) auto
  show "\<not> killed_index s (event_index (node_pool s ! ni))"
    by (rule sched_inv_node [OF sc assms(2) e]) (simp add: killed_index_def)
qed

definition no_live_event :: "prsim_state \<Rightarrow> bool" where
  "no_live_event s \<longleftrightarrow> (\<forall>x \<in> set (event_queue s). killed_index s (ep_index x))"

lemma no_live_event_pend:
  assumes "run_inv {} env s" and "no_live_event s" and "ni < length (node_pool s)"
  shows "pend s ni = None"
  using run_inv_pending [OF assms(1,3)] assms(2) by (cases "pend s ni") (auto simp: no_live_event_def)

lemma kept_values:
  assumes "kept s s'"
  shows "map node_value (node_pool s') = map node_value (node_pool s)" "checking_excl s' = checking_excl s"
  using assms map_projection [where f = node_value and g = clear_event and xs = "node_pool s'" and ys = "node_pool s"]
  by (auto simp: kept_def checking_excl_def)

lemma execute_index_spec:
  assumes r: "run_inv {ei} env s" and ro: "random_ok env" "shuffle_ok env"
    and pe: "get_event s ei = Some pe" "\<not> killed pe" and t: "current_time s \<le> ept"
  shows "\<exists>ret s'. execute_index (execute_event (Suc k) env) ei ept s = Some (ret, s') \<and> run_inv {} env s' \<and>
    current_time s' = current_time s \<and> executed s pe ret s' \<and> pend s (ev_node pe) = Some pe \<and> ev_node pe < length (node_pool s)"
proof -
  from r have sc: "sched_inv {ei} s" by (simp add: run_inv_def)
  from sched_inv_event [OF sc, of ei] pe have n: "ev_node pe < length (node_pool s)"
    "event_index (node_pool s ! ev_node pe) = ei" "ei \<noteq> 0" by auto
  with pe execute_body_spec [OF r ro pe t, of "execute_event k env"] show ?thesis
    by (simp add: execute_index_def pending_event_def pend_def)
qed

lemma step_spec:
  assumes r: "run_inv {} env s" and ro: "random_ok env" "shuffle_ok env"
  shows "\<exists>ret s'. step (Suc k) env s = Some (ret, s') \<and> run_inv {} env s' \<and>
    (if no_live_event s
     then ret = (INVALID_NODE_INDEX, INVALID_NODE_INDEX) \<and> no_live_event s' \<and>
       map node_value (node_pool s') = map node_value (node_pool s)
     else current_time s \<le> current_time s' \<and>
       (\<exists>e. ev_node e < length (node_pool s) \<and> pend s (ev_node e) = Some e \<and> executed s e ret s'))"
proof -
  let ?s0 = "s\<lparr>atomic_updated_nodes := Map.empty\<rparr>"
  have a: "aux_eq s ?s0" by simp
  have r0: "run_inv {} env ?s0" by (rule run_inv_aux [OF r a])
  have nl: "no_live_event ?s0 = no_live_event s" by (simp add: no_live_event_def killed_index_def get_event_def)
  show ?thesis
  proof (cases "event_queue s")
    case Nil
    then have "step (Suc k) env s = Some ((0, 0), ?s0)" by (simp add: step_def step_with_def eq_empty_def Let_def)
    with Nil r0 nl show ?thesis by (simp add: no_live_event_def)
  next
    case (Cons q qs)
    from r0 have "sched_inv {} ?s0" "annotation_ok env ?s0" by (simp_all add: run_inv_def config_ok_def)
    from dequeue_event_total [OF this] obtain p s1 where d: "dequeue_event env ?s0 = Some (p, s1)" "dequeued env {} ?s0 p s1" by blast
    let ?s1 = "s1\<lparr>current_time := ep_time p\<rparr>"
    have step: "step (Suc k) env s = execute_index (execute_event (Suc k) env) (ep_index p) (ep_time p) ?s1"
      using Cons d(1) by (simp add: step_def step_with_def eq_empty_def Let_def)
    from d(2) have k: "kept ?s0 s1" by (simp add: dequeued_def)
    have v: "map node_value (node_pool s1) = map node_value (node_pool s)" "checking_excl s1 = checking_excl s"
      using kept_values [OF k] by (simp_all add: checking_excl_def)
    note dr = dequeued_run_inv [OF r0 d(2), folded no_live_event_def, unfolded nl]
    show ?thesis
    proof (cases "no_live_event s")
      case True
      with dr have "ep_index p = 0" "event_queue s1 = []" "run_inv {} env ?s1" by simp_all
      then show ?thesis using True v step by (simp add: execute_index_def) (simp add: no_live_event_def)
    next
      case False
      with dr obtain e where e: "get_event ?s1 (ep_index p) = Some e" "\<not> killed e" and r1: "run_inv {ep_index p} env ?s1"
        by (auto simp: get_event_def)
      from execute_index_spec [OF r1 ro e, of "ep_time p" k] obtain ret s' where
        x: "step (Suc k) env s = Some (ret, s')" "run_inv {} env s'" "current_time s' = ep_time p" "executed ?s1 e ret s'"
        "pend ?s1 (ev_node e) = Some e" "ev_node e < length (node_pool ?s1)" by (auto simp: step)
      have len: "length (node_pool s1) = length (node_pool s)" using v(1) map_eq_imp_length_eq by blast
      have "executed s e ret s'"
        using x(4) v by (simp add: executed_def checking_excl_def)
      moreover have "pend s (ev_node e) = Some e"
        using x(5,6) len kept_static(6) [OF k, of "ev_node e"] aux_eq_pend(1) [OF a] by simp
      moreover have "current_time s \<le> ep_time p"
        using d(2) False nl by (auto simp: dequeued_def no_live_event_def split: if_splits)
      ultimately show ?thesis using x(1-3,6) False len by auto
    qed
  qed
qed

end
