(* ===== verification/Run_Ok.thy ===== *)
theory Run_Ok
  imports Step_Ok Sched_User
begin

text \<open>
  Runs of the simulator: initialization establishes the invariant, user commands on undriven nodes and steps keep
  it, and in a state without live events every node agrees with its production rules, evaluated in three-valued
  logic over the current node values.
\<close>

section \<open>Quiescent states\<close>

text \<open>The guard of a rule, by evaluation of its expression tree from the node values alone.\<close>

definition guard_value :: "sim_env \<Rightarrow> prsim_state \<Rightarrow> process_index_type \<times> expr_index_type \<Rightarrow> pull_enum" where
  "guard_value env s x =
     the (tree_value (length (expr_pool (process_graph_of s (fst x)))) (process_graph_of s (fst x))
            (leaf_vals env s (fst x)) (snd x))"

text \<open>What all rules of a node in one direction ask for: the disjunction of their guards.\<close>

definition rules_pull :: "sim_env \<Rightarrow> prsim_state \<Rightarrow> node_index_type \<Rightarrow> bool \<Rightarrow> pull_enum" where
  "rules_pull env s ni dir = kleene_or (map (guard_value env s) (drivers env s ni dir False))"

text \<open>A definite value that the rules of a node allow.\<close>

definition rules_allow :: "pull_enum \<Rightarrow> pull_enum \<Rightarrow> value_enum \<Rightarrow> bool" where
  "rules_allow up dn v \<longleftrightarrow> (up \<noteq> PULL_OFF \<longrightarrow> dn = PULL_OFF \<and> v = LOGIC_HIGH) \<and> (dn \<noteq> PULL_OFF \<longrightarrow> up = PULL_OFF \<and> v = LOGIC_LOW)"

lemma guard_value_driver:
  assumes "coherent env s" and "x \<in> set (drivers env s ni dir w)"
  shows "guard_value env s x = driver_pull s x"
proof -
  note x = drivers_root [OF assms(2)]
  let ?g = "process_graph_of s (fst x)"
  from assms(1) x have g: "graph_ok ?g" "states_ok ?g (leaf_vals env s (fst x)) (expr_states (process_state_array s ! fst x))"
    by (auto simp: coherent_def eval_inv_def eval_struct_def)
  from graph_okD(1) [OF g(1)] x obtain d where "expr_depth (length (expr_pool ?g)) (expr_pool ?g) (snd x) = Some d" by blast
  from tree_value_pull [OF g _ this] x show ?thesis by (simp add: guard_value_def driver_pull_def)
qed

lemma rules_pull_fanin:
  assumes "coherent env s" and "ni < length (node_pool s)"
  shows "fanin_pull (get_pull_struct dir False (node_pool s ! ni)) = rules_pull env s ni dir"
proof -
  from assms have "fanin_ok (get_pull_struct dir False (node_pool s ! ni)) (map (driver_pull s) (drivers env s ni dir False))"
    by (simp add: coherent_def eval_inv_def)
  moreover have "map (driver_pull s) (drivers env s ni dir False) = map (guard_value env s) (drivers env s ni dir False)"
    using guard_value_driver [OF assms(1)] by simp
  ultimately show ?thesis by (simp add: rules_pull_def fanin_pull_kleene)
qed

lemma pull_set_rules:
  assumes "coherent env s" and "ni < length (node_pool s)" and "\<not> is_atomic (node_pool s ! ni)"
  shows "pull_set_of (node_pool s ! ni) False =
    \<lparr>ps_up = rules_pull env s ni True, ps_dn = rules_pull env s ni False, ps_wup = PULL_OFF, ps_wdn = PULL_OFF\<rparr>"
  using rules_pull_fanin [OF assms(1,2), of True] rules_pull_fanin [OF assms(1,2), of False] assms(3)
  by (simp add: pull_set_of_def get_pull_struct_def Let_def)

lemma just_rules_allow:
  assumes "just \<lparr>ps_up = u, ps_dn = d, ps_wup = PULL_OFF, ps_wdn = PULL_OFF\<rparr> v" and "v \<noteq> LOGIC_OTHER"
  shows "rules_allow u d v"
  using assms by (cases u; cases d; cases v) (simp_all add: just_def fired_value_def pull_set_defs rules_allow_def)

lemma quiescent_rules:
  assumes r: "run_inv {} env s" and q: "no_live_event s" and ni: "ni < length (node_pool s)"
    and n: "\<not> is_frozen (node_pool s ! ni)" "node_value (node_pool s ! ni) \<noteq> LOGIC_OTHER"
  shows "rules_allow (rules_pull env s ni True) (rules_pull env s ni False) (node_value (node_pool s ! ni))"
proof -
  from r ni have h: "coherent env s" and p: "plain_node (node_pool s ! ni)" and ok: "node_ok s ni"
    by (simp_all add: run_inv_def config_ok_def list_all_length)
  from ok no_live_event_pend [OF r q ni] n(1)
  have "just (pull_set_of (node_pool s ! ni) False) (node_value (node_pool s ! ni))"
    by (simp add: node_ok_def justified_def settled_value_def)
  with pull_set_rules [OF h ni] p just_rules_allow [OF _ n(2)] show ?thesis by (simp add: plain_node_def)
qed

section \<open>Cycles\<close>

text \<open>A machine whose steps never fail and keep an invariant can be stepped any number of times.\<close>

primrec iterate_step :: "('s \<Rightarrow> ('r \<times> 's) option) \<Rightarrow> nat \<Rightarrow> 's \<Rightarrow> 's option" where
  "iterate_step stp 0 s = Some s"
| "iterate_step stp (Suc m) s = do { (r, s1) \<leftarrow> stp s; iterate_step stp m s1 }"

locale step_machine =
  fixes stp :: "'s \<Rightarrow> ('r \<times> 's) option" and inv :: "'s \<Rightarrow> bool"
  assumes progress: "inv s \<Longrightarrow> \<exists>r s'. stp s = Some (r, s') \<and> inv s'"
begin

lemma iterate_total: "inv s \<Longrightarrow> \<exists>s'. iterate_step stp m s = Some s' \<and> inv s'"
proof (induction m arbitrary: s)
  case (Suc m)
  from progress [OF Suc.prems] obtain r s1 where "stp s = Some (r, s1)" "inv s1" by blast
  with Suc.IH show ?case by auto
qed simp

end

text \<open>The simulator is such a machine, with any fuel but 0.\<close>

definition sim_inv :: "sim_env \<Rightarrow> prsim_state \<Rightarrow> bool" where
  "sim_inv env s \<longleftrightarrow> random_ok env \<and> shuffle_ok env \<and> run_inv {} env s"

interpretation sim: step_machine "step (Suc k) env" "sim_inv env" for k env
proof
  fix s assume "sim_inv env s"
  then show "\<exists>r s'. step (Suc k) env s = Some (r, s') \<and> sim_inv env s'"
    using step_spec [of env s k] by (auto simp: sim_inv_def)
qed

abbreviation run_steps :: "nat \<Rightarrow> nat \<Rightarrow> sim_env \<Rightarrow> prsim_state \<Rightarrow> prsim_state option" where
  "run_steps m fuel env \<equiv> iterate_step (step fuel env) m"

lemma run_steps_total:
  assumes "random_ok env" and "shuffle_ok env" and "run_inv {} env s"
  shows "\<exists>s'. run_steps m (Suc k) env s = Some s' \<and> run_inv {} env s'"
  using sim.iterate_total [of env s k m] assms by (auto simp: sim_inv_def)

text \<open>
  \<^verbatim>\<open>cycle\<close> can only fail to return by running on: every answer keeps the invariant, and an answer without a node means
  that nothing is left to do, or that an exception was recorded.
\<close>

lemma executed_node:
  assumes "executed s e ret s'" and "ev_node e < length (node_pool s)" and "fst ret \<noteq> INVALID_NODE_INDEX"
  shows "fst ret < length (node_pool s')"
proof -
  from assms(1,3) have "map node_value (node_pool s') = (map node_value (node_pool s))[ev_node e := ev_val e]"
    and f: "fst ret = ev_node e" by (auto simp: executed_def)
  from arg_cong [OF this(1), of length] f assms(2) show ?thesis by simp
qed

lemma cycle_spec:
  assumes e: "random_ok env" "shuffle_ok env" and "run_inv {} env s"
  shows "case cycle m (Suc k) env s of
      Some (ret, s') \<Rightarrow> run_inv {} env s' \<and> (\<exists>j \<le> m. run_steps j (Suc k) env s = Some s') \<and>
        (fst ret = INVALID_NODE_INDEX \<longrightarrow> no_live_event s' \<or> recent_exceptions s' \<noteq> [])
    | None \<Rightarrow> \<exists>s'. run_steps m (Suc k) env s = Some s' \<and> run_inv {} env s'"
  using assms(3)
proof (induction m arbitrary: s)
  case (Suc m)
  from step_spec [OF Suc.prems e, of k] obtain ret s1 where
    1: "step (Suc k) env s = Some (ret, s1)" "run_inv {} env s1" and
    2: "if no_live_event s
     then ret = (INVALID_NODE_INDEX, INVALID_NODE_INDEX) \<and> no_live_event s1 \<and>
       map node_value (node_pool s1) = map node_value (node_pool s)
     else current_time s \<le> current_time s1 \<and>
       (\<exists>e. ev_node e < length (node_pool s) \<and> pend s (ev_node e) = Some e \<and> executed s e ret s1)" by blast
  show ?case
  proof (cases "fst ret = INVALID_NODE_INDEX")
    case True
    have "pend s INVALID_NODE_INDEX = None" if "0 < length (node_pool s)"
      using Suc.prems that by (cases "pend s 0") (auto simp: run_inv_def node_ok_def)
    with 2 True have "no_live_event s1 \<or> recent_exceptions s1 \<noteq> []" by (auto simp: executed_def split: if_splits)
    with 1 True show ?thesis by (auto intro!: exI [of _ "Suc 0"])
  next
    case False
    with 2 obtain e where "ev_node e < length (node_pool s)" "executed s e ret s1" by (auto split: if_splits)
    then have n: "fst ret < length (node_pool s1)" using executed_node False by blast
    show ?thesis
    proof (cases "is_breakpoint (node_pool s1 ! fst ret) \<or> stopped s1")
      case True
      with 1 False n show ?thesis by (auto intro!: exI [of _ "Suc 0"])
    next
      case go: False
      from Suc.IH [OF 1(2)] go False n 1(1) show ?thesis
        by (auto split: option.splits prod.splits)
    qed
  qed
qed simp

section \<open>Setting an undriven node\<close>

lemma pend_set_node:
  assumes s: "sched_inv {} s" and n: "ni < length (node_pool s)" "event_index (node_pool s ! ni) = 0"
    "\<not> is_atomic (node_pool s ! ni)" "\<not> is_frozen (node_pool s ! ni)" and v: "val \<noteq> node_value (node_pool s ! ni)"
    and t: "current_time s \<le> t"
  shows "\<exists>s'. set_node_time ni val t False s = Some (ENQUEUE_ACCEPT, s') \<and> sched_inv {} s' \<and> ev_frame s s' \<and>
    pend s' ni = Some (Event_new ni EMPTY_CAUSE INVALID_RULE_INDEX None val False) \<and>
    (\<forall>nj < length (node_pool s). nj \<noteq> ni \<longrightarrow> pend s' nj = pend s nj)"
proof -
  let ?e = "Event_new ni EMPTY_CAUSE INVALID_RULE_INDEX None val False"
  obtain i s1 where 1: "allocate_event ni ?e s = Some (i, s1)" "i \<notin> {}" "i \<noteq> 0" "sched_inv (insert i {}) s1"
    "get_event s1 i = Some ?e" "ev_frame s s1" "event_queue s1 = event_queue s" "oracle_pos s1 = oracle_pos s"
    "node_pool s1 = (node_pool s)[ni := (node_pool s ! ni)\<lparr>event_index := i\<rparr>]"
    by (rule allocate_event_ok [OF s n(1-3), of ?e]) (use n(4) that in simp_all)
  from 1(1) obtain p n' where p: "pool_allocate (event_pool s) ?e = Some (i, p)" "s1 = put_node (s\<lparr>event_pool := p\<rparr>) ni n'"
    by (auto simp: allocate_event_def copy_event_def split: bind_splits prod.splits if_splits)
  let ?s = "s1\<lparr>event_queue := eq_push \<lparr>ep_time = t, ep_index = i\<rparr> (event_queue s1)\<rparr>"
  note enq = enqueue_event_ok [OF 1(4) 1(2) _ 1(5), of t]
  have ct: "current_time s1 \<le> t" using t ev_frame_simps(1) [OF 1(6)] by simp
  have "set_node_time ni val t False s = Some (ENQUEUE_ACCEPT, ?s)"
    using n v 1(1) enq(1) ct by (simp add: set_node_time_def allocate_event_args_eq)
  moreover have "sched_inv {} ?s" using enq(2) ct by simp
  moreover have "ev_frame s ?s" by (rule ev_frame_trans [OF 1(6)]) simp
  moreover have "pend ?s ni = Some ?e" using 1(3,5,9) n(1) by (simp add: pend_def)
  moreover have "pend ?s nj = pend s nj" if nj: "nj < length (node_pool s)" "nj \<noteq> ni" for nj
  proof (cases "event_index (node_pool s ! nj) = 0")
    case False
    have "event_index (node_pool s ! nj) \<in> pool_live (event_pool s)" by (rule sched_inv_node [OF s nj(1) False])
    from evp.allocate_frame [OF sched_inv_pool_ok [OF s] p(1) this] p(2) nj(2) show ?thesis
      by (simp add: pend_def get_event_def put_node_def)
  qed (use nj(2) 1(9) in \<open>simp add: pend_def\<close>)
  ultimately show ?thesis by (intro exI [of _ ?s]) simp
qed

lemma ev_frame_static:
  assumes "ev_frame s s'"
  shows "core_eq s s'" "static_eq s s'" "updated_nodes s' = updated_nodes s" "updated_nodes_queue s' = updated_nodes_queue s"
    "mk_excl_blocking_set s' = mk_excl_blocking_set s"
proof -
  from assms obtain p q k ns where s': "s' = s\<lparr>event_pool := p, event_queue := q, oracle_pos := k, node_pool := ns\<rparr>" and
    m: "map clear_event ns = map clear_event (node_pool s)" unfolding ev_frame_def by blast
  have "map node_core ns = map node_core (node_pool s)"
    by (rule map_projection [where f = node_core and g = clear_event, OF node_core_clear [symmetric] m])
  moreover have "map node_static ns = map node_static (node_pool s)"
    by (rule map_projection [where g = clear_event, OF _ m]) (simp add: node_static_def clear_event_def)
  ultimately show "core_eq s s'" "static_eq s s'" using s' by (simp_all add: core_eq_def static_eq_def weak_rules_enabled_def)
qed (use assms in \<open>auto simp: ev_frame_def\<close>)

text \<open>An input of the circuit: no strong rule drives the node.\<close>

definition undriven_input :: "sim_env \<Rightarrow> prsim_state \<Rightarrow> node_index_type \<Rightarrow> bool" where
  "undriven_input env s ni \<longleftrightarrow> ni \<noteq> INVALID_NODE_INDEX \<and> ni < length (node_pool s) \<and> \<not> is_frozen (node_pool s ! ni) \<and>
     drivers env s ni True False = [] \<and> drivers env s ni False False = []"

lemma undriven_just:
  assumes "coherent env s" and "undriven_input env s ni" and "\<not> is_atomic (node_pool s ! ni)"
  shows "just (pull_set_of (node_pool s ! ni) False) v"
  using pull_set_rules [OF assms(1) _ assms(3)] assms(2)
  by (simp add: undriven_input_def rules_pull_def kleene_or_def just_def fired_value_def pull_set_defs)

lemma set_node_run_inv:
  assumes r: "run_inv {} env s" and u: "undriven_input env s ni" and t: "current_time s \<le> t"
  shows "\<exists>st s'. set_node_time ni val t False s = Some (st, s') \<and> run_inv {} env s' \<and>
    static_eq s s' \<and> current_time s' = current_time s \<and> (st = ENQUEUE_ACCEPT \<longrightarrow> settled_value s' ni = val \<or> pend s ni \<noteq> None)"
proof -
  from u have ni: "ni < length (node_pool s)" "\<not> is_frozen (node_pool s ! ni)" "ni \<noteq> INVALID_NODE_INDEX" by (simp_all add: undriven_input_def)
  from r ni have sc: "sched_inv {} s" and at: "\<not> is_atomic (node_pool s ! ni)" and h: "coherent env s"
    by (simp_all add: run_inv_def config_ok_def list_all_length plain_node_def)
  consider (pending) e where "pend s ni = Some e" | (same) "pend s ni = None" "val = node_value (node_pool s ! ni)"
    | (new) "pend s ni = None" "val \<noteq> node_value (node_pool s ! ni)" by (cases "pend s ni") auto
  then show ?thesis
  proof cases
    case pending
    then have "event_index (node_pool s ! ni) \<noteq> 0" "get_event s (event_index (node_pool s ! ni)) = Some e"
      by (auto simp: pend_def split: if_splits)
    with ni at r pending show ?thesis by (auto simp: set_node_time_def Let_def static_eq_def)
  next
    case same
    then have "event_index (node_pool s ! ni) = 0" using pend_event_index(1) [OF sc ni(1)] by simp
    with same ni at r show ?thesis by (simp add: set_node_time_def Let_def settled_value_def static_eq_def)
  next
    case new
    then have e0: "event_index (node_pool s ! ni) = 0" using pend_event_index(1) [OF sc ni(1)] by simp
    let ?e = "Event_new ni EMPTY_CAUSE INVALID_RULE_INDEX None val False"
    from pend_set_node [OF sc ni(1) e0 at ni(2) new(2) t] obtain s' where
      s': "set_node_time ni val t False s = Some (ENQUEUE_ACCEPT, s')" "sched_inv {} s'" "ev_frame s s'" "pend s' ni = Some ?e"
      "\<forall>nj < length (node_pool s). nj \<noteq> ni \<longrightarrow> pend s' nj = pend s nj" by blast
    note f = ev_frame_static [OF s'(3)]
    have len: "length (node_pool s') = length (node_pool s)" by (rule core_eqD(1) [OF f(1)])
    note core = node_core_eqD [OF core_eqD(2) [OF f(1) ni(1)]]
    have "node_ok s' nj" if nj: "nj < length (node_pool s)" for nj
    proof (cases "nj = ni")
      case True
      have "just (pull_set_of (node_pool s' ! ni) False) val"
        using undriven_just [OF h u at, of val] core(6) by simp
      moreover have "\<not> forced ?e" "lookup_rule s' (ev_cause_rule ?e) = Some None"
        by (simp_all add: Event_new_def forced_def lookup_rule_def)
      ultimately show ?thesis using True s'(4) new(2) ni(3) core(1)
        by (simp add: node_ok_def pending_ok_def justified_def settled_value_def)
    next
      case False
      with s'(5) nj have "pend s' nj = pend s nj" by simp
      from node_ok_core [OF f(1,2) nj this] r nj show ?thesis by (simp add: run_inv_def)
    qed
    moreover have "coherent env s'" "config_ok env s'"
      using coherent_core [OF f(1), of env] config_ok_static [OF f(2), of env] r h
      by (simp_all add: run_inv_def) (simp add: config_ok_def)
    ultimately have "run_inv {} env s'" using s'(2) f(3-5) r len by (simp add: run_inv_def)
    with s'(1,4) f(2) ev_frame_simps(1) [OF s'(3)] show ?thesis by (simp add: settled_value_def)
  qed
qed

lemma drivers_static:
  assumes "static_eq s s'"
  shows "drivers env s' oni dir w = drivers env s oni dir w"
  unfolding drivers_def static_eqD(6) [OF assms]
proof (rule filter_cong [OF refl])
  fix x assume "x \<in> set (all_exprs s)"
  then show "drives env s' oni dir w x = drives env s oni dir w x"
    using set_all_exprs [of "fst x" "snd x" s] static_eqD(3) [OF assms, of "fst x"] by (simp add: drives_def)
qed

lemma undriven_static: "static_eq s s' \<Longrightarrow> undriven_input env s' ni = undriven_input env s ni"
  using static_eqD(1) [of s s'] static_eq_flags(2) [of s s' ni] drivers_static [of s s' env]
  by (auto simp: undriven_input_def)

lemma reschedule_run_inv:
  assumes r: "run_inv {} env s" and ni: "ni < length (node_pool s)"
  shows "\<exists>b s'. reschedule_event ni t s = Some (b, s') \<and> run_inv {} env s'"
proof -
  from r have sc: "sched_inv {} s" by (simp add: run_inv_def)
  from reschedule_event_spec [OF sc ni, of t] obtain s' where
    s': "reschedule_event ni t s = Some (t < current_time s \<or> \<not> pending_event (node_pool s ! ni), s')" "sched_inv {} s'" "ev_frame s s'"
    "t < current_time s \<or> \<not> pending_event (node_pool s ! ni) \<longrightarrow> s' = s" by metis
  show ?thesis
  proof (cases "t < current_time s \<or> \<not> pending_event (node_pool s ! ni)")
    case True
    with s' r show ?thesis by auto
  next
    case False
    note f = ev_frame_static [OF s'(3)]
    have "run_inv {} env s'"
    proof (rule run_inv_transfer [OF r f(1,2) s'(2)])
      show "pend s' nj = pend s nj" if "nj < length (node_pool s)" for nj
        by (rule reschedule_pend [OF sc ni _ _ s'(1) that]) (use False in \<open>auto simp: pending_event_def\<close>)
    qed (use f(3-5) r in \<open>simp_all add: run_inv_def\<close>)
    with s'(1) show ?thesis by blast
  qed
qed

end
