(* ===== verification/Init_Ok.thy ===== *)
theory Init_Ok
  imports Run_Ok
begin

text \<open>
  Clearing the state (\<^verbatim>\<open>__initialize_state\<close>): all nodes and expressions become X, the event queue is flushed and
  the emptiness check of the pool succeeds, and the invariant of the simulation holds.
\<close>

section \<open>The event pool\<close>

lemma check_valid_empty_iff:
  assumes "pool_ok p"
  shows "check_valid_empty p \<longleftrightarrow> pool_live p = {}"
proof
  assume "check_valid_empty p"
  then have "length (free_indices p) = pool_size p - 1" by (simp add: check_valid_empty_def Let_def split: if_splits)
  from pool_all_free [OF assms this] show "pool_live p = {}" by (auto simp: pool_live_def)
next
  assume "pool_live p = {}"
  then have "{1..<pool_size p} \<subseteq> set (free_indices p)" by (auto simp: pool_live_def Suc_le_eq)
  moreover have "set (free_indices p) \<subseteq> {1..<pool_size p}" using assms by (auto simp: pool_ok_def Suc_le_eq)
  ultimately have "set (free_indices p) = {1..<pool_size p}" by blast
  then have "free_indices p = [1..<pool_size p]" using assms
    by (intro sorted_distinct_set_unique) (simp_all add: pool_ok_def)
  moreover have "sum_list [1..<n] = (\<Sum>i = 1..n - 1. i)" for n :: nat
  proof -
    have "{1..<n} = {1..n - 1}" by auto
    then show ?thesis using sum_list_distinct_conv_sum_set [of "[1..<n]" "\<lambda>i. i"] by simp
  qed
  ultimately show "check_valid_empty p"
    by (simp add: check_valid_empty_def Let_def fold_add_of_nat expect_sum_triangular)
qed

lemma flush_event_queue_ok:
  assumes "pool_ok (event_pool s)" and "pool_live (event_pool s) = ep_index ` set q" and "distinct (map ep_index q)"
  shows "\<exists>p. flush_event_queue q s = Some (s\<lparr>event_pool := p, event_queue := []\<rparr>) \<and> pool_ok p \<and> pool_live p = {}"
  using assms
proof (induction q arbitrary: s)
  case Nil
  then show ?case by (intro exI [of _ "event_pool s"]) simp
next
  case (Cons x q)
  then have live: "ep_index x \<in> pool_live (event_pool s)" by simp
  note d = pool_deallocate_live [OF Cons.prems(1) live]
  let ?p = "(event_pool s)\<lparr>free_indices := insort (ep_index x) (free_indices (event_pool s))\<rparr>"
  have "pool_live ?p = ep_index ` set q" using d(3) Cons.prems(2,3) by auto
  with Cons.IH [of "s\<lparr>event_pool := ?p, event_queue := q\<rparr>"] Cons.prems(3) d(1,2) show ?case by auto
qed

section \<open>Everything X\<close>

text \<open>No expression is without children, and the counters have room for all rules that drive a node.\<close>

definition sizes_ok :: "sim_env \<Rightarrow> prsim_state \<Rightarrow> bool" where
  "sizes_ok env s \<longleftrightarrow> (\<forall>x \<in> set (all_exprs s). expr_size (expr_pool (process_graph_of s (fst x)) ! snd x) \<noteq> 0) \<and>
     (\<forall>ni < length (node_pool s). \<forall>dir w.
        length (drivers env s ni dir w) = unat (fs_size (get_pull_struct dir w (node_pool s ! ni))))"

definition initial_exprs :: "process_graph \<Rightarrow> expr_state list" where
  "initial_exprs g = map expr_state_initialize (expr_pool g)"

lemma initial_pull:
  assumes "i < length (expr_pool g)" and "expr_size (expr_pool g ! i) \<noteq> 0"
  shows "expr_pull_of g (initial_exprs g) i = PULL_WEAK"
  using assms by (simp add: expr_pull_of_def initial_exprs_def pull_state_def or_pull_state_def and_pull_state_def
      expr_state_initialize_def Let_def)

lemma initial_states_ok:
  assumes g: "graph_ok g" and z: "\<And>i. i < length (expr_pool g) \<Longrightarrow> expr_size (expr_pool g ! i) \<noteq> 0"
    and v: "\<And>i k. i < length (expr_pool g) \<Longrightarrow> k < length (children (expr_graph_node_pool g ! i)) \<Longrightarrow>
      fst (children (expr_graph_node_pool g ! i) ! k) \<Longrightarrow> val i k = PULL_WEAK"
  shows "states_ok g val (initial_exprs g)"
proof -
  have "child_pulls g val (initial_exprs g) i = replicate (unat (expr_size (expr_pool g ! i))) PULL_WEAK"
    if i: "i < length (expr_pool g)" for i
  proof (rule nth_equalityI)
    show len: "length (child_pulls g val (initial_exprs g) i) = length (replicate (unat (expr_size (expr_pool g ! i))) PULL_WEAK)"
      using g i by (simp add: graph_ok_def)
    fix k assume "k < length (child_pulls g val (initial_exprs g) i)"
    then have k: "k < length (children (expr_graph_node_pool g ! i))" by simp
    obtain b j where c: "children (expr_graph_node_pool g ! i) ! k = (b, j)" by (cases "children (expr_graph_node_pool g ! i) ! k")
    have "child_pull g val (initial_exprs g) i k = PULL_WEAK"
    proof (cases b)
      case True
      with c v [OF i k] show ?thesis by (simp add: child_pull_def)
    next
      case False
      with c graph_okD(4) [OF g i k, of j] initial_pull [of j g] z [of j] show ?thesis by (simp add: child_pull_def)
    qed
    then show "child_pulls g val (initial_exprs g) i ! k = replicate (unat (expr_size (expr_pool g ! i))) PULL_WEAK ! k"
      using k len by (simp add: nth_child_pulls)
  qed
  then show ?thesis using counts_ok_initialize by (simp add: states_ok_def initial_exprs_def)
qed

lemma fanin_initialize_ok: "n = unat (fs_size fs) \<Longrightarrow> fanin_ok (fanin_initialize fs) (replicate n PULL_WEAK)"
proof -
  have "count_list (replicate n PULL_WEAK) a = (if a = PULL_WEAK then n else 0)" for a by (induction n) auto
  then show "n = unat (fs_size fs) \<Longrightarrow> ?thesis" by (simp add: fanin_ok_def fanin_initialize_def)
qed

text \<open>The three ways to clear a node.\<close>

definition clear_node :: "bool \<Rightarrow> bool \<Rightarrow> node_state \<Rightarrow> node_state" where
  "clear_node startup reset_count = (if startup then node_reset else if reset_count then node_initialize else x_value_and_cause)"

lemma clear_node_sel [simp]:
  "node_value (clear_node a b n) = LOGIC_OTHER" "event_index (clear_node a b n) = 0"
  "struct_flags (clear_node a b n) = struct_flags n" "fanout (clear_node a b n) = fanout n"
  "get_pull_struct d w (clear_node a b n) = fanin_initialize (get_pull_struct d w n)"
  "is_atomic (clear_node a b n) = is_atomic n"
  by (simp_all add: clear_node_def node_reset_def node_initialize_def x_value_and_cause_def get_pull_struct_def is_atomic_def)

lemma clear_node_frozen [simp]: "\<not> is_frozen (clear_node a b n)" "in_channel (clear_node a b n) \<Longrightarrow> in_channel n"
proof -
  have "(f AND NOT NODE_INITIALIZE_CLEAR_MASK) AND NODE_FROZEN = 0"
    "(f AND NOT NODE_INITIALIZE_CLEAR_MASK) AND NODE_IN_CHANNEL = f AND NODE_IN_CHANNEL" for f :: "8 word"
    by (simp_all add: and.assoc)
  then show "\<not> is_frozen (clear_node a b n)" "in_channel (clear_node a b n) \<Longrightarrow> in_channel n"
    by (simp_all add: clear_node_def node_reset_def node_initialize_def x_value_and_cause_def is_frozen_def in_channel_def split: if_splits)
qed

section \<open>clear\_state\<close>

lemma config_ok_nodes:
  assumes c: "config_ok env s" and len: "length ns = length (node_pool s)"
    and n: "\<And>i. i < length ns \<Longrightarrow> fanout (ns ! i) = fanout (node_pool s ! i) \<and> struct_flags (ns ! i) = struct_flags (node_pool s ! i) \<and>
      (in_channel (ns ! i) \<longrightarrow> in_channel (node_pool s ! i))"
  shows "config_ok env (s\<lparr>node_pool := ns\<rparr>)"
proof -
  let ?s = "s\<lparr>node_pool := ns\<rparr>"
  have g: "process_graph_of ?s = process_graph_of s" by (simp add: fun_eq_iff process_graph_of_def)
  have ae: "all_exprs ?s = all_exprs s" by (simp add: all_exprs_def g)
  have lv: "leaves ?s = leaves s" by (simp add: leaves_def ae g)
  have ln: "leaf_node env ?s = leaf_node env s" by (simp add: fun_eq_iff leaf_node_def g)
  have oc: "occurrences env ?s = occurrences env s" by (simp add: fun_eq_iff occurrences_def lv ln)
  have oi: "occurrence_index ?s = occurrence_index s" by (simp add: fun_eq_iff occurrence_index_def)
  have lk: "lookup_global_expr_process ?s = lookup_global_expr_process s"
    by (simp add: fun_eq_iff lookup_global_expr_process_def lookup_global_expr_process_id_def)
  have eo: "entry_ok ?s = entry_ok s" by (simp add: fun_eq_iff entry_ok_def frame_ok_def len)
  have po: "process_ok env ?s = process_ok env s" by (simp add: fun_eq_iff process_ok_def eo cong: option.case_cong)
  have fl: "is_atomic (ns ! i) = is_atomic (node_pool s ! i)" "has_mk_exclhi (ns ! i) = has_mk_exclhi (node_pool s ! i)"
    "has_mk_excllo (ns ! i) = has_mk_excllo (node_pool s ! i)" "has_check_exclhi (ns ! i) = has_check_exclhi (node_pool s ! i)"
    "has_check_excllo (ns ! i) = has_check_excllo (node_pool s ! i)" "is_min_delay_target (ns ! i) = is_min_delay_target (node_pool s ! i)"
    if "i < length ns" for i
    using n [OF that] by (simp_all add: is_atomic_def has_mk_exclhi_def has_mk_excllo_def has_check_exclhi_def has_check_excllo_def
        is_min_delay_target_def)
  have "list_all plain_node ns" using c n fl len by (auto simp: config_ok_def list_all_length plain_node_def)
  moreover have "fanout_ok env ?s" using c n len by (simp add: config_ok_def fanout_ok_def oc oi)
  moreover have "leaves_ok env ?s" using c by (simp add: config_ok_def leaves_ok_def lv ln len cong: option.case_cong)
  moreover have "index_ok ?s" using c by (simp add: config_ok_def index_ok_def ae lk)
  moreover have "rules_ok ?s" using c by (simp add: config_ok_def rules_ok_def ae g cong: option.case_cong)
  moreover have "annotation_ok env ?s" using c fl len by (simp add: config_ok_def annotation_ok_def po cong: option.case_cong)
  moreover have "locks_ok ?s" using c fl len by (simp add: config_ok_def locks_ok_def)
  moreover have "weak_rules_enabled ?s = weak_rules_enabled s" by (simp add: weak_rules_enabled_def)
  moreover have "frames_ok env ?s" using c by (simp add: config_ok_def frames_ok_def)
  ultimately show ?thesis using c by (simp add: config_ok_def)
qed

definition cleared :: "bool \<Rightarrow> bool \<Rightarrow> event array_pool \<Rightarrow> prsim_state \<Rightarrow> prsim_state" where
  "cleared a b p s = s\<lparr>node_pool := map (clear_node a b) (node_pool s),
     process_state_array := map (\<lambda>ps. ps\<lparr>expr_states := initial_exprs (unique_process_pool s ! ps_type ps)\<rparr>) (process_state_array s),
     event_pool := p, event_queue := [],
     check_exhi_ring_pool := map (\<lambda>_. False) (check_exhi_ring_pool s),
     check_exlo_ring_pool := map (\<lambda>_. False) (check_exlo_ring_pool s)\<rparr>"

lemma clear_state_eq:
  assumes sc: "sched_inv {} s" and st: "\<forall>ps \<in> set (process_state_array s). ps_type ps < length (unique_process_pool s)"
  obtains p where "clear_state a b s = Some (cleared a b p s)" "pool_ok p" "pool_live p = {}"
proof -
  have ps: "those (map (process_initialize (unique_process_pool s)) (process_state_array s)) =
      Some (map (\<lambda>ps. ps\<lparr>expr_states := initial_exprs (unique_process_pool s ! ps_type ps)\<rparr>) (process_state_array s))"
    using st by (intro those_map_Some) (simp add: process_initialize_def nth_opt_in initial_exprs_def)
  let ?s1 = "s\<lparr>node_pool := map (clear_node a b) (node_pool s),
     process_state_array := map (\<lambda>ps. ps\<lparr>expr_states := initial_exprs (unique_process_pool s ! ps_type ps)\<rparr>) (process_state_array s)\<rparr>"
  from sc have "pool_ok (event_pool ?s1)" "pool_live (event_pool ?s1) = ep_index ` set (event_queue s)"
    "distinct (map ep_index (event_queue s))" by (simp_all add: sched_inv_def links_ok_def queue_ok_def)
  from flush_event_queue_ok [OF this] obtain p where
    p: "flush_event_queue (event_queue s) ?s1 = Some (?s1\<lparr>event_pool := p, event_queue := []\<rparr>)" "pool_ok p" "pool_live p = {}" by blast
  have "clear_state a b s = Some (cleared a b p s)"
    using ps p check_valid_empty_iff [OF p(2)]
    by (simp add: clear_state_def Let_def clear_node_def [symmetric] cleared_def)
  with p that show ?thesis by blast
qed

lemma cleared_graph:
  assumes st: "\<forall>ps \<in> set (process_state_array s). ps_type ps < length (unique_process_pool s)"
  shows "i < length (process_state_array s) \<Longrightarrow> process_graph_of (cleared a b p s) i = process_graph_of s i"
    "drivers env (cleared a b p s) = drivers env s" "leaves (cleared a b p s) = leaves s"
    "all_exprs (cleared a b p s) = all_exprs s"
proof -
  let ?t = "cleared a b p s"
  show g: "process_graph_of ?t i = process_graph_of s i" if "i < length (process_state_array s)" for i
    using that by (simp add: cleared_def process_graph_of_def)
  have len: "length (process_state_array ?t) = length (process_state_array s)" by (simp add: cleared_def)
  show ae: "all_exprs ?t = all_exprs s"
    unfolding all_exprs_def len by (intro arg_cong [where f = concat] map_cong) (auto simp: g)
  have gx: "process_graph_of ?t (fst x) = process_graph_of s (fst x)" if "x \<in> set (all_exprs s)" for x
    using that set_all_exprs [of "fst x" "snd x" s] g by simp
  show "leaves ?t = leaves s" unfolding leaves_def ae by (intro arg_cong [where f = concat] map_cong refl) (simp add: gx)
  show "drivers env ?t = drivers env s"
  proof (intro ext)
    fix oni dir w
    show "drivers env ?t oni dir w = drivers env s oni dir w"
      unfolding drivers_def ae by (rule filter_cong [OF refl]) (simp add: drives_def gx)
  qed
qed

lemma cleared_coherent:
  assumes l: "leaves_ok env s" and st: "eval_struct env s" and z: "sizes_ok env s"
  shows "coherent env (cleared a b p s)"
proof -
  let ?t = "cleared a b p s"
  from st have ty: "\<forall>ps \<in> set (process_state_array s). ps_type ps < length (unique_process_pool s)"
    by (auto simp: eval_struct_def in_set_conv_nth)
  note cg = cleared_graph [OF ty]
  have len: "length (process_state_array ?t) = length (process_state_array s)" "length (node_pool ?t) = length (node_pool s)"
    by (simp_all add: cleared_def)
  have "eval_struct env ?t"
    using st by (subst eval_struct_cong [of _ s]) (simp_all add: cleared_def o_def)
  moreover have "states_ok (process_graph_of ?t pid) (leaf_vals env ?t pid) (expr_states (process_state_array ?t ! pid))"
    if pid: "pid < length (process_state_array s)" for pid
  proof -
    let ?g = "process_graph_of s pid"
    have "graph_ok ?g" using st pid by (simp add: eval_struct_def)
    moreover have "expr_size (expr_pool ?g ! i) \<noteq> 0" if "i < length (expr_pool ?g)" for i
      using z pid that set_all_exprs [of pid i s] unfolding sizes_ok_def by fastforce
    moreover have "leaf_vals env ?t pid i k = PULL_WEAK"
      if "i < length (expr_pool ?g)" "k < length (children (expr_graph_node_pool ?g ! i))" "fst (children (expr_graph_node_pool ?g ! i) ! k)" for i k
    proof -
      from that pid have "(pid, i, k) \<in> set (leaves s)" by (simp add: set_leaves)
      with l obtain nj where nj: "leaf_node env s pid i k = Some nj" "nj < length (node_pool s)"
        by (fastforce simp: leaves_ok_def split: option.splits)
      from nj(1) have "leaf_node env ?t pid i k = Some nj" using cg(1) [OF pid] by (simp add: leaf_node_def)
      then show ?thesis using nj(2) by (simp add: leaf_vals_def cleared_def)
    qed
    ultimately have "states_ok ?g (leaf_vals env ?t pid) (initial_exprs ?g)" by (rule initial_states_ok)
    then show ?thesis using pid cg(1) [OF pid] by (simp add: cleared_def process_graph_of_def)
  qed
  moreover have "fanin_ok (get_pull_struct dir w (node_pool ?t ! oni)) (map (driver_pull ?t) (drivers env s oni dir w))"
    if oni: "oni < length (node_pool s)" for oni dir w
  proof -
    have "driver_pull ?t x = PULL_WEAK" if x: "x \<in> set (drivers env s oni dir w)" for x
    proof -
      from drivers_root [OF x] have fx: "fst x < length (process_state_array s)" "snd x < length (expr_pool (process_graph_of s (fst x)))"
        by auto
      then have "x \<in> set (all_exprs s)" using set_all_exprs [of "fst x" "snd x" s] by simp
      with z have "expr_size (expr_pool (process_graph_of s (fst x)) ! snd x) \<noteq> 0" by (simp add: sizes_ok_def)
      from initial_pull [OF fx(2) this] fx cg(1) [OF fx(1)] show ?thesis
        by (simp add: driver_pull_def cleared_def process_graph_of_def)
    qed
    then have "map (driver_pull ?t) (drivers env s oni dir w) = replicate (length (drivers env s oni dir w)) PULL_WEAK"
      by (intro nth_equalityI) simp_all
    moreover have "length (drivers env s oni dir w) = unat (fs_size (get_pull_struct dir w (node_pool s ! oni)))"
      using z oni by (simp add: sizes_ok_def)
    ultimately show ?thesis using oni fanin_initialize_ok by (simp add: cleared_def)
  qed
  ultimately show ?thesis by (simp add: coherent_def eval_inv_def len cg(2))
qed

lemma clear_state_run_inv:
  assumes c: "config_ok env s" and st: "eval_struct env s" and z: "sizes_ok env s" and sc: "sched_inv {} s"
    and u: "updated_nodes s = []" "updated_nodes_queue s = []" "mk_excl_blocking_set s = []"
  shows "\<exists>s'. clear_state a b s = Some s' \<and> run_inv {} env s' \<and> event_queue s' = [] \<and>
    (\<forall>n \<in> set (node_pool s'). node_value n = LOGIC_OTHER \<and> \<not> is_frozen n)"
proof -
  from st have "\<forall>ps \<in> set (process_state_array s). ps_type ps < length (unique_process_pool s)"
    by (auto simp: eval_struct_def in_set_conv_nth)
  from clear_state_eq [OF sc this] obtain p where p: "clear_state a b s = Some (cleared a b p s)" "pool_ok p" "pool_live p = {}" by blast
  let ?t = "cleared a b p s"
  have "config_ok env (s\<lparr>node_pool := map (clear_node a b) (node_pool s)\<rparr>)"
    by (rule config_ok_nodes [OF c]) (auto intro: clear_node_frozen(2))
  moreover have "static_eq (s\<lparr>node_pool := map (clear_node a b) (node_pool s)\<rparr>) ?t"
    by (simp add: static_eq_def cleared_def ps_shape_def weak_rules_enabled_def)
  ultimately have "config_ok env ?t" by (rule config_ok_static [rotated])
  moreover have "coherent env ?t" by (rule cleared_coherent) (use c st z in \<open>simp_all add: config_ok_def\<close>)
  moreover have "sched_inv {} ?t" using p(2,3) by (simp add: cleared_def sched_inv_def links_ok_def queue_ok_def)
  moreover have "node_ok ?t ni" if "ni < length (node_pool s)" for ni
    using that by (simp add: node_ok_def pending_ok_def justified_def settled_value_def just_def pend_def cleared_def)
  ultimately have "run_inv {} env ?t" using u by (simp add: run_inv_def cleared_def)
  with p(1) show ?thesis by (intro exI [of _ ?t]) (simp add: cleared_def)
qed

section \<open>Initialization\<close>

lemma cleared_undriven:
  assumes "eval_struct env s" and "undriven_input env s ni" and "clear_state a b s = Some s'" and "sched_inv {} s"
  shows "undriven_input env s' ni" "current_time s' = current_time s"
proof -
  from assms(1) have ty: "\<forall>ps \<in> set (process_state_array s). ps_type ps < length (unique_process_pool s)"
    by (auto simp: eval_struct_def in_set_conv_nth)
  from clear_state_eq [OF assms(4) ty, of a b] assms(3) obtain p where p: "s' = cleared a b p s" by auto
  show "undriven_input env s' ni" using assms(2) cleared_graph(2) [OF ty, of env a b p]
    by (simp add: undriven_input_def p) (simp add: cleared_def)
  show "current_time s' = current_time s" by (simp add: p cleared_def)
qed

text \<open>
  \<^verbatim>\<open>__initialize_state\<close> returns a consistent state unless the circuit never settles; \<open>gi\<close> and \<open>vi\<close> are the
  supplies, which no rule drives.
\<close>

lemma initialize_state_spec:
  assumes e: "random_ok env" "shuffle_ok env"
    and c: "config_ok env s" and st: "eval_struct env s" and z: "sizes_ok env s" and sc: "sched_inv {} s"
    and u: "updated_nodes s = []" "updated_nodes_queue s = []" "mk_excl_blocking_set s = []"
    and g: "undriven_input env s gi" "undriven_input env s vi"
  shows "\<exists>t. run_inv {} env t \<and>
    (case initialize_state m (Suc k) env gi vi a b s of
       Some s' \<Rightarrow> run_inv {} env s' \<and> (\<exists>ret. cycle m (Suc k) env t = Some (ret, s'))
     | None \<Rightarrow> cycle m (Suc k) env t = None)"
proof -
  from clear_state_run_inv [OF c st z sc u] obtain s1 where s1: "clear_state a b s = Some s1" "run_inv {} env s1" by blast
  note u1 = cleared_undriven [OF st g(1) s1(1) sc] cleared_undriven [OF st g(2) s1(1) sc]
  from set_node_run_inv [OF s1(2) u1(1), of "current_time s1" LOGIC_LOW] obtain st2 s2 where
    2: "set_node gi LOGIC_LOW False s1 = Some (st2, s2)" "run_inv {} env s2" "static_eq s1 s2" by (auto simp: set_node_def)
  from set_node_run_inv [OF 2(2), of vi "current_time s2" LOGIC_HIGH] u1(3) undriven_static [OF 2(3)] obtain st3 t where
    3: "set_node vi LOGIC_HIGH False s2 = Some (st3, t)" "run_inv {} env t" by (auto simp: set_node_def)
  have nz: "gi \<noteq> INVALID_NODE_INDEX" "vi \<noteq> INVALID_NODE_INDEX" using g by (simp_all add: undriven_input_def)
  have i: "initialize_state m (Suc k) env gi vi a b s = (do { (r, s4) \<leftarrow> cycle m (Suc k) env t; Some s4 })"
    using s1(1) 2(1) 3(1) nz by (simp add: initialize_state_def)
  show ?thesis
  proof (cases "cycle m (Suc k) env t")
    case None
    with i 3(2) show ?thesis by auto
  next
    case (Some rs)
    obtain r s' where "rs = (r, s')" by (cases rs)
    with cycle_spec [OF e 3(2), where m = m and k = k] Some i 3(2) show ?thesis by auto
  qed
qed

section \<open>Reachable states\<close>

text \<open>
  The simulator as a transition system: it starts with a cleared state, steps, and in between the user sets inputs
  and moves events in time.
\<close>

inductive reachable :: "sim_env \<Rightarrow> nat \<Rightarrow> prsim_state \<Rightarrow> prsim_state \<Rightarrow> bool" for env :: sim_env and k :: nat and s0 :: prsim_state where
  reach_clear: "clear_state a b s0 = Some s \<Longrightarrow> reachable env k s0 s"
| reach_set: "reachable env k s0 s \<Longrightarrow> undriven_input env s ni \<Longrightarrow> current_time s \<le> t \<Longrightarrow>
    set_node_time ni v t False s = Some (st, s') \<Longrightarrow> reachable env k s0 s'"
| reach_reschedule: "reachable env k s0 s \<Longrightarrow> ni < length (node_pool s) \<Longrightarrow>
    reschedule_event ni t s = Some (b, s') \<Longrightarrow> reachable env k s0 s'"
| reach_step: "reachable env k s0 s \<Longrightarrow> step (Suc k) env s = Some (ret, s') \<Longrightarrow> reachable env k s0 s'"

text \<open>What a freshly built state offers: its structure, and an empty update list.\<close>

definition start_ok :: "sim_env \<Rightarrow> prsim_state \<Rightarrow> bool" where
  "start_ok env s \<longleftrightarrow> random_ok env \<and> shuffle_ok env \<and> config_ok env s \<and> eval_struct env s \<and> sizes_ok env s \<and> sched_inv {} s \<and>
     updated_nodes s = [] \<and> updated_nodes_queue s = [] \<and> mk_excl_blocking_set s = []"

lemma reachable_run_inv:
  assumes "reachable env k s0 s" and "start_ok env s0"
  shows "run_inv {} env s"
  using assms
proof (induction rule: reachable.induct)
  case (reach_clear a b s)
  with clear_state_run_inv [of env s0 a b] show ?case by (auto simp: start_ok_def)
next
  case (reach_set s ni t v st s')
  with set_node_run_inv [of env s ni t v] show ?case by auto
next
  case (reach_reschedule s ni t b s')
  with reschedule_run_inv [of env s ni t] show ?case by auto
next
  case (reach_step s ret s')
  with step_spec [of env s k] show ?case by (auto simp: start_ok_def)
qed

end
