(* ===== verification/Excl_Ok.thy ===== *)
theory Excl_Ok
  imports Prs_Excl
begin

text \<open>
  Checked exclusion: as long as no violation is reported, the lock of every ring says whether a member is
  active, and at most one member is. A reported violation names a ring that has another active member.
\<close>

section \<open>Locks\<close>

definition lock_set_ok :: "lock_index_type list \<Rightarrow> nat \<Rightarrow> bool" where
  "lock_set_ok ls m \<longleftrightarrow> distinct ls \<and> (\<forall>li \<in> set ls. 0 < li \<and> li < m)"

lemma take_locks_spec:
  assumes "lock_set_ok ls (length pool)"
  shows "\<exists>x p. take_locks ls pool = Some (x, p) \<and> length p = length pool \<and>
    (case x of
       None \<Rightarrow> (\<forall>li \<in> set ls. \<not> pool ! li) \<and> (\<forall>j < length pool. p ! j \<longleftrightarrow> pool ! j \<or> j \<in> set ls)
     | Some li \<Rightarrow> li \<in> set ls \<and> pool ! li)"
  using assms
proof (induction ls arbitrary: pool)
  case Nil
  then show ?case by simp
next
  case (Cons l ls)
  from Cons.prems have l: "l \<notin> set ls" "0 < l" "l < length pool" "lock_set_ok ls (length (pool[l := True]))"
    by (auto simp: lock_set_ok_def)
  show ?case
  proof (cases "pool ! l")
    case True
    with l show ?thesis by (simp add: nth_opt_in)
  next
    case False
    from Cons.IH [OF l(4)] obtain x p where 1: "take_locks ls (pool[l := True]) = Some (x, p)" "length p = length pool"
      "case x of None \<Rightarrow> (\<forall>li \<in> set ls. \<not> pool[l := True] ! li) \<and> (\<forall>j < length pool. p ! j \<longleftrightarrow> pool[l := True] ! j \<or> j \<in> set ls)
        | Some li \<Rightarrow> li \<in> set ls \<and> pool[l := True] ! li"
      unfolding length_list_update by blast
    have other: "pool[l := True] ! j = pool ! j" if "j \<in> set ls" for j using l(1) that by (metis nth_list_update_neq)
    have "case x of None \<Rightarrow> (\<forall>li \<in> set (l # ls). \<not> pool ! li) \<and> (\<forall>j < length pool. p ! j \<longleftrightarrow> pool ! j \<or> j \<in> set (l # ls))
        | Some li \<Rightarrow> li \<in> set (l # ls) \<and> pool ! li"
      using 1(3) False other l(3) by (auto simp: nth_list_update split: option.splits)
    with 1(1,2) False l(2,3) show ?thesis by (simp add: nth_opt_in)
  qed
qed

lemma drop_locks_spec:
  assumes "lock_set_ok ls (length pool)"
  shows "\<exists>p. drop_locks ls pool = Some p \<and> length p = length pool \<and> (\<forall>j < length pool. p ! j \<longleftrightarrow> pool ! j \<and> j \<notin> set ls)"
  using assms
proof (induction ls arbitrary: pool)
  case (Cons l ls)
  then have l: "0 < l" "l < length pool" "lock_set_ok ls (length (pool[l := False]))" by (auto simp: lock_set_ok_def)
  from Cons.IH [OF l(3)] l(1,2) show ?case by (auto simp: nth_list_update)
qed simp

text \<open>Taking free locks and dropping them again restores the pool.\<close>

lemma take_drop_locks:
  assumes l: "lock_set_ok ls (length pool)" and t: "take_locks ls pool = Some (None, p)"
  shows "drop_locks ls p = Some pool"
proof -
  from take_locks_spec [OF l] t have p: "length p = length pool" "\<forall>li \<in> set ls. \<not> pool ! li"
    "\<forall>j < length pool. p ! j \<longleftrightarrow> pool ! j \<or> j \<in> set ls" by auto
  from drop_locks_spec [of ls p] l p(1) obtain q where q: "drop_locks ls p = Some q" "length q = length p"
    "\<forall>j < length p. q ! j \<longleftrightarrow> p ! j \<and> j \<notin> set ls" by auto
  have "q = pool" by (rule nth_equalityI) (use p q in auto)
  with q(1) show ?thesis by simp
qed

section \<open>Rings\<close>

definition in_ring :: "(node_index_type \<rightharpoonup> lock_index_type list) \<Rightarrow> lock_index_type \<Rightarrow> node_index_type \<Rightarrow> bool" where
  "in_ring locks li ni \<longleftrightarrow> (case locks ni of None \<Rightarrow> False | Some ls \<Rightarrow> li \<in> set ls)"

definition ring_inv ::
  "value_enum \<Rightarrow> (node_index_type \<rightharpoonup> lock_index_type list) \<Rightarrow> (node_index_type \<Rightarrow> value_enum) \<Rightarrow> bool list \<Rightarrow> bool" where
  "ring_inv active locks val pool \<longleftrightarrow> (\<forall>li < length pool.
     (pool ! li \<longleftrightarrow> (\<exists>ni. in_ring locks li ni \<and> val ni = active)) \<and>
     (\<forall>ni nj. in_ring locks li ni \<longrightarrow> in_ring locks li nj \<longrightarrow> val ni = active \<longrightarrow> val nj = active \<longrightarrow> ni = nj))"

lemma check_ring_polarity_spec:
  assumes inv: "ring_inv active locks val pool" and ls: "locks ni = Some ls" "lock_set_ok ls (length pool)"
    and v: "val ni = prev" "prev \<noteq> nxt"
  shows "\<exists>x p. check_ring_polarity active (locks ni) prev nxt pool = Some (x, p) \<and> length p = length pool \<and>
    (case x of
       None \<Rightarrow> ring_inv active locks (val(ni := nxt)) p
     | Some li \<Rightarrow> nxt = active \<and> in_ring locks li ni \<and> (\<exists>nj. nj \<noteq> ni \<and> in_ring locks li nj \<and> val nj = active))"
proof -
  have mem: "in_ring locks li ni \<longleftrightarrow> li \<in> set ls" for li using ls(1) by (simp add: in_ring_def)
  from ls(2) have lt: "\<And>li. li \<in> set ls \<Longrightarrow> li < length pool" by (simp add: lock_set_ok_def)
  note i = inv [unfolded ring_inv_def]
  consider (take) "nxt = active" | (drop) "prev = active" "nxt \<noteq> active" | (none) "prev \<noteq> active" "nxt \<noteq> active" by blast
  then show ?thesis
  proof cases
    case take
    from take_locks_spec [OF ls(2)] obtain x p where
      t: "take_locks ls pool = Some (x, p)" "length p = length pool" and
      c: "case x of None \<Rightarrow> (\<forall>li \<in> set ls. \<not> pool ! li) \<and> (\<forall>j < length pool. p ! j \<longleftrightarrow> pool ! j \<or> j \<in> set ls)
        | Some li \<Rightarrow> li \<in> set ls \<and> pool ! li" by blast
    have na: "val ni \<noteq> active" using v take by simp
    show ?thesis
    proof (cases x)
      case None
      with c have free: "\<And>li. li \<in> set ls \<Longrightarrow> \<not> pool ! li" "\<And>j. j < length pool \<Longrightarrow> p ! j \<longleftrightarrow> pool ! j \<or> j \<in> set ls" by auto
      have no: "\<not> (in_ring locks li nj \<and> val nj = active)" if "li \<in> set ls" for li nj
        using free(1) [OF that] i lt [OF that] by blast
      have "ring_inv active locks (val(ni := nxt)) p"
        unfolding ring_inv_def t(2)
      proof (intro allI impI conjI)
        fix li assume li: "li < length pool"
        show "p ! li \<longleftrightarrow> (\<exists>nj. in_ring locks li nj \<and> (val(ni := nxt)) nj = active)"
          using free(2) [OF li] i li mem [of li] take na by (auto split: if_splits)
        fix nj nk
        assume "in_ring locks li nj" "in_ring locks li nk" "(val(ni := nxt)) nj = active" "(val(ni := nxt)) nk = active"
        then show "nj = nk" using i li no [of li] mem [of li] by (auto split: if_splits)
      qed
      with None take ls(1) t show ?thesis by (simp add: check_ring_polarity_def)
    next
      case (Some li)
      with c have "li \<in> set ls" "pool ! li" by auto
      with i lt obtain nj where nj: "in_ring locks li nj" "val nj = active" by blast
      with na have "nj \<noteq> ni" by blast
      with nj have "\<exists>nj. nj \<noteq> ni \<and> in_ring locks li nj \<and> val nj = active" by blast
      with Some take ls(1) t \<open>li \<in> set ls\<close> mem show ?thesis by (simp add: check_ring_polarity_def)
    qed
  next
    case drop
    from drop_locks_spec [OF ls(2)] obtain p where
      p: "drop_locks ls pool = Some p" "length p = length pool" "\<And>j. j < length pool \<Longrightarrow> p ! j \<longleftrightarrow> pool ! j \<and> j \<notin> set ls" by blast
    have "ring_inv active locks (val(ni := nxt)) p"
      unfolding ring_inv_def p(2)
    proof (intro allI impI conjI)
      fix li assume li: "li < length pool"
      have only: "nj = ni" if "li \<in> set ls" "in_ring locks li nj" "val nj = active" for nj
        using i li mem that v(1) drop(1) by blast
      show "p ! li \<longleftrightarrow> (\<exists>nj. in_ring locks li nj \<and> (val(ni := nxt)) nj = active)"
        using p(3) [OF li] i li mem [of li] only drop by (auto split: if_splits)
      fix nj nk
      assume "in_ring locks li nj" "in_ring locks li nk" "(val(ni := nxt)) nj = active" "(val(ni := nxt)) nk = active"
      then show "nj = nk" using i li drop by (auto split: if_splits)
    qed
    with drop v(2) ls(1) p show ?thesis by (simp add: check_ring_polarity_def)
  next
    case none
    have "ring_inv active locks (val(ni := nxt)) pool"
      using inv none v(1) unfolding ring_inv_def by (auto split: if_splits)
    with none show ?thesis by (simp add: check_ring_polarity_def)
  qed
qed

section \<open>The rings of a state\<close>

text \<open>
  The nodes that are marked as checked are exactly the ones with locks, and a lock list has no duplicates, as
  long as no ring names a node twice.
\<close>

definition ring_table_ok :: "(node_index_type \<rightharpoonup> lock_index_type list) \<Rightarrow> bool list \<Rightarrow> (node_state \<Rightarrow> bool) \<Rightarrow> node_state list \<Rightarrow> bool" where
  "ring_table_ok locks pool marked ns \<longleftrightarrow> 0 < length pool \<and>
     (\<forall>ni. locks ni \<noteq> None \<longrightarrow> ni < length ns) \<and>
     (\<forall>ni < length ns. marked (ns ! ni) \<longleftrightarrow> locks ni \<noteq> None) \<and>
     (\<forall>ni ls. locks ni = Some ls \<longrightarrow> lock_set_ok ls (length pool))"

definition rings_ok :: "prsim_state \<Rightarrow> bool" where
  "rings_ok s \<longleftrightarrow>
     ring_table_ok (check_exhi s) (check_exhi_ring_pool s) has_check_exclhi (node_pool s) \<and>
     ring_table_ok (check_exlo s) (check_exlo_ring_pool s) has_check_excllo (node_pool s)"

definition value_at :: "prsim_state \<Rightarrow> node_index_type \<Rightarrow> value_enum" where
  "value_at s ni = node_value (node_pool s ! ni)"

definition excl_inv :: "(node_index_type \<Rightarrow> value_enum) \<Rightarrow> prsim_state \<Rightarrow> bool" where
  "excl_inv val s \<longleftrightarrow>
     ring_inv LOGIC_HIGH (check_exhi s) val (check_exhi_ring_pool s) \<and>
     ring_inv LOGIC_LOW (check_exlo s) val (check_exlo_ring_pool s)"

lemma ring_inv_exclusive:
  assumes "ring_inv active locks val pool" and "\<forall>ni ls. locks ni = Some ls \<longrightarrow> lock_set_ok ls (length pool)"
    and "in_ring locks li ni" "in_ring locks li nj" "val ni = active" "val nj = active"
  shows "ni = nj"
proof -
  have "li < length pool" using assms(2,3) by (auto simp: in_ring_def lock_set_ok_def split: option.splits)
  with assms show ?thesis by (auto simp: ring_inv_def)
qed

text \<open>One polarity of \<^verbatim>\<open>check_excl_rings\<close>, for marked and unmarked nodes.\<close>

definition ring_result ::
  "value_enum \<Rightarrow> (node_index_type \<rightharpoonup> lock_index_type list) \<Rightarrow> (node_index_type \<Rightarrow> value_enum) \<Rightarrow> node_index_type \<Rightarrow> value_enum
    \<Rightarrow> lock_index_type option \<Rightarrow> bool list \<Rightarrow> bool" where
  "ring_result active locks val ni nxt x p = (case x of
       None \<Rightarrow> ring_inv active locks (val(ni := nxt)) p
     | Some li \<Rightarrow> nxt = active \<and> in_ring locks li ni \<and> (\<exists>nj. nj \<noteq> ni \<and> in_ring locks li nj \<and> val nj = active))"

definition polarity_check ::
  "bool \<Rightarrow> value_enum \<Rightarrow> lock_index_type list option \<Rightarrow> value_enum \<Rightarrow> value_enum \<Rightarrow> bool list \<Rightarrow> (lock_index_type option \<times> bool list) option" where
  "polarity_check marked active ls prev nxt pool =
     (if marked then check_ring_polarity active ls prev nxt pool else Some (None, pool))"

lemma polarity_check_spec:
  assumes t: "ring_table_ok locks pool marked ns" and i: "ring_inv active locks val pool" and ni: "ni < length ns"
    and v: "val ni = prev" "prev \<noteq> nxt"
  shows "\<exists>x p. polarity_check (marked (ns ! ni)) active (locks ni) prev nxt pool = Some (x, p) \<and> ring_result active locks val ni nxt x p"
proof (cases "locks ni")
  case None
  then have no: "\<not> in_ring locks li ni" for li by (simp add: in_ring_def)
  then have "in_ring locks li nj \<and> (val(ni := nxt)) nj = active \<longleftrightarrow> in_ring locks li nj \<and> val nj = active" for li nj
    by auto
  then have "ring_inv active locks (val(ni := nxt)) pool"
    using i no unfolding ring_inv_def by (metis (mono_tags))
  with None t ni show ?thesis by (simp add: ring_table_ok_def polarity_check_def ring_result_def)
next
  case (Some ls)
  with t ni have "marked (ns ! ni)" "lock_set_ok ls (length pool)" by (auto simp: ring_table_ok_def)
  with check_ring_polarity_spec [OF i Some _ v] show ?thesis by (auto simp: polarity_check_def ring_result_def)
qed

lemma check_excl_rings_polarity:
  "check_excl_rings ni n prev nxt s = do {
     (x, p) \<leftarrow> polarity_check (has_check_exclhi n) LOGIC_HIGH (check_exhi s ni) prev nxt (check_exhi_ring_pool s);
     case x of
       Some li \<Rightarrow> Some (Some (True, li, ni), s\<lparr>check_exhi_ring_pool := p\<rparr>)
     | None \<Rightarrow> do {
         (y, q) \<leftarrow> polarity_check (has_check_excllo n) LOGIC_LOW (check_exlo s ni) prev nxt (check_exlo_ring_pool s);
         Some (map_option (\<lambda>li. (False, li, ni)) y, s\<lparr>check_exhi_ring_pool := p, check_exlo_ring_pool := q\<rparr>) } }"
  by (simp add: check_excl_rings_def polarity_check_def split: Option.bind_split option.split prod.split)

lemma check_excl_rings_spec:
  assumes r: "rings_ok s" and i: "excl_inv val s" and ni: "ni < length (node_pool s)" and v: "val ni = prev" "prev \<noteq> nxt"
  shows "\<exists>x s'. check_excl_rings ni (node_pool s ! ni) prev nxt s = Some (x, s') \<and>
    (case x of
       None \<Rightarrow> excl_inv (val(ni := nxt)) s'
     | Some (high, li, nk) \<Rightarrow> nk = ni \<and> nxt = (if high then LOGIC_HIGH else LOGIC_LOW) \<and>
         (\<exists>nj. nj \<noteq> ni \<and> val nj = nxt \<and>
            in_ring (if high then check_exhi s else check_exlo s) li ni \<and> in_ring (if high then check_exhi s else check_exlo s) li nj))"
proof -
  let ?n = "node_pool s ! ni"
  from r i have t: "ring_table_ok (check_exhi s) (check_exhi_ring_pool s) has_check_exclhi (node_pool s)"
    "ring_table_ok (check_exlo s) (check_exlo_ring_pool s) has_check_excllo (node_pool s)"
    and e: "ring_inv LOGIC_HIGH (check_exhi s) val (check_exhi_ring_pool s)" "ring_inv LOGIC_LOW (check_exlo s) val (check_exlo_ring_pool s)"
    by (simp_all add: rings_ok_def excl_inv_def)
  from polarity_check_spec [OF t(1) e(1) ni v] obtain x p where
    x: "polarity_check (has_check_exclhi ?n) LOGIC_HIGH (check_exhi s ni) prev nxt (check_exhi_ring_pool s) = Some (x, p)"
      "ring_result LOGIC_HIGH (check_exhi s) val ni nxt x p" by blast
  from polarity_check_spec [OF t(2) e(2) ni v] obtain y q where
    y: "polarity_check (has_check_excllo ?n) LOGIC_LOW (check_exlo s ni) prev nxt (check_exlo_ring_pool s) = Some (y, q)"
      "ring_result LOGIC_LOW (check_exlo s) val ni nxt y q" by blast
  show ?thesis
    using x y by (cases x; cases y) (auto simp: check_excl_rings_polarity ring_result_def excl_inv_def)
qed

text \<open>Without locks taken, as after \<^verbatim>\<open>__initialize_state\<close>, the invariant holds when no member is active.\<close>

lemma excl_inv_clear:
  assumes "\<forall>ni. val ni = LOGIC_OTHER" "\<forall>l \<in> set (check_exhi_ring_pool s). \<not> l" "\<forall>l \<in> set (check_exlo_ring_pool s). \<not> l"
  shows "excl_inv val s"
  using assms by (simp add: excl_inv_def ring_inv_def list_all_iff [symmetric] list_all_length)

section \<open>Adding a ring\<close>

lemma in_ring_push_lock:
  "in_ring (push_lock ni j locks) li nk \<longleftrightarrow> in_ring locks li nk \<or> li = j \<and> nk = ni"
  by (auto simp: in_ring_def push_lock_def split: option.splits)

lemma lock_set_ok_push:
  assumes "\<forall>ni ls. locks ni = Some ls \<longrightarrow> lock_set_ok ls m" "\<not> in_ring locks j ni" "0 < j" "j < m"
  shows "\<forall>nk ls. push_lock ni j locks nk = Some ls \<longrightarrow> lock_set_ok ls m"
  using assms by (auto simp: push_lock_def lock_set_ok_def in_ring_def split: option.splits)

lemma check_excl_flags [simp]:
  "has_check_exclhi (check_exclhi n)" "has_check_excllo (check_exclhi n) = has_check_excllo n"
  "has_check_excllo (check_excllo n)" "has_check_exclhi (check_excllo n) = has_check_exclhi n"
  "node_value (check_exclhi n) = node_value n" "node_value (check_excllo n) = node_value n"
  by (simp_all add: has_check_exclhi_def has_check_excllo_def check_exclhi_def check_excllo_def bit.conj_disj_distrib2)

lemma ring_table_push:
  assumes t: "ring_table_ok locks pool marked ns" and ni: "ni < length ns" and j: "0 < j" "j < length pool" "\<not> in_ring locks j ni"
    and m: "marked (f (ns ! ni))"
  shows "ring_table_ok (push_lock ni j locks) pool marked (ns[ni := f (ns ! ni)])"
  unfolding ring_table_ok_def
proof (intro conjI)
  show "\<forall>nk ls. push_lock ni j locks nk = Some ls \<longrightarrow> lock_set_ok ls (length pool)"
    using t j by (intro lock_set_ok_push) (auto simp: ring_table_ok_def)
qed (use t ni m in \<open>auto simp: ring_table_ok_def push_lock_def nth_list_update split: if_splits\<close>)

lemma ring_table_mark:
  assumes "ring_table_ok locks pool marked ns" "\<And>n. marked (f n) = marked n"
  shows "ring_table_ok locks pool marked (ns[ni := f (ns ! ni)])"
  using assms by (cases "ni < length ns") (auto simp: ring_table_ok_def nth_list_update)

lemma check_exclhi_members_spec:
  assumes "rings_ok s" and "0 < j" "j < length (check_exhi_ring_pool s)" and "distinct r" and "\<forall>ni \<in> set r. ni < length (node_pool s)"
    and "\<forall>ni \<in> set r. \<not> in_ring (check_exhi s) j ni"
  shows "\<exists>s'. check_exclhi_members j r s = Some s' \<and> rings_ok s' \<and>
    (\<forall>li ni. in_ring (check_exhi s') li ni \<longleftrightarrow> in_ring (check_exhi s) li ni \<or> li = j \<and> ni \<in> set r) \<and>
    check_exlo s' = check_exlo s \<and> check_exhi_ring_pool s' = check_exhi_ring_pool s \<and>
    check_exlo_ring_pool s' = check_exlo_ring_pool s \<and> map node_value (node_pool s') = map node_value (node_pool s)"
  using assms
proof (induction r arbitrary: s)
  case (Cons ni r)
  let ?s = "put_node s ni (check_exclhi (node_pool s ! ni))"
  let ?t = "?s\<lparr>check_exhi := push_lock ni j (check_exhi ?s)\<rparr>"
  from Cons.prems have ni: "ni < length (node_pool s)" and nr: "\<not> in_ring (check_exhi s) j ni" by simp_all
  from Cons.prems(1) have t: "ring_table_ok (check_exhi s) (check_exhi_ring_pool s) has_check_exclhi (node_pool s)"
    "ring_table_ok (check_exlo s) (check_exlo_ring_pool s) has_check_excllo (node_pool s)" by (simp_all add: rings_ok_def)
  have "rings_ok ?t"
    using ring_table_push [OF t(1) ni Cons.prems(2,3) nr, of check_exclhi] ring_table_mark [OF t(2), of check_exclhi ni]
    by (simp add: rings_ok_def put_node_def)
  moreover have "\<forall>nk \<in> set r. \<not> in_ring (check_exhi ?t) j nk"
    using Cons.prems(4,6) by (auto simp: in_ring_push_lock put_node_def)
  moreover have v: "map node_value (node_pool ?t) = map node_value (node_pool s)"
    using ni by (simp add: put_node_def map_update list_update_same_conv)
  ultimately obtain s' where s': "check_exclhi_members j r ?t = Some s'" "rings_ok s'"
    "\<forall>li nk. in_ring (check_exhi s') li nk \<longleftrightarrow> in_ring (check_exhi ?t) li nk \<or> li = j \<and> nk \<in> set r"
    "check_exlo s' = check_exlo ?t" "check_exhi_ring_pool s' = check_exhi_ring_pool ?t"
    "check_exlo_ring_pool s' = check_exlo_ring_pool ?t" "map node_value (node_pool s') = map node_value (node_pool ?t)"
    using Cons.IH [of ?t] Cons.prems(2-5) by (auto simp: put_node_def)
  have "check_exclhi_members j (ni # r) s = Some s'"
    using s'(1) ni by (simp add: mod_node_def get_node_def nth_opt_in)
  with s'(2-7) v show ?case by (auto simp: in_ring_push_lock put_node_def)
qed simp

text \<open>
  A new ring has a fresh lock, contains the nodes it was given and leaves all other rings alone; the exclusion
  invariant is kept when no two of its members are high and the free lock is right for them.
\<close>

lemma append_check_exclhi_ring_spec:
  assumes r: "rings_ok s" and d: "distinct ring" "\<forall>ni \<in> set ring. ni < length (node_pool s)"
  shows "\<exists>s'. append_check_exclhi_ring ring s = Some s' \<and> rings_ok s' \<and>
    (\<forall>li ni. in_ring (check_exhi s') li ni \<longleftrightarrow>
       in_ring (check_exhi s) li ni \<or> li = length (check_exhi_ring_pool s) \<and> ni \<in> set ring) \<and>
    (excl_inv val s \<longrightarrow> (\<forall>ni \<in> set ring. val ni \<noteq> LOGIC_HIGH) \<longrightarrow> excl_inv val s')"
proof -
  let ?j = "length (check_exhi_ring_pool s)"
  let ?s = "s\<lparr>check_exhi_ring_pool := check_exhi_ring_pool s @ [False]\<rparr>"
  from r have t: "ring_table_ok (check_exhi s) (check_exhi_ring_pool s) has_check_exclhi (node_pool s)"
    "ring_table_ok (check_exlo s) (check_exlo_ring_pool s) has_check_excllo (node_pool s)" by (simp_all add: rings_ok_def)
  from t(1) have j: "0 < ?j" by (simp add: ring_table_ok_def)
  have lt: "li < ?j" if "in_ring (check_exhi s) li ni" for li ni
    using t(1) that by (fastforce simp: ring_table_ok_def in_ring_def lock_set_ok_def split: option.splits)
  have grow: "lock_set_ok ls m \<Longrightarrow> lock_set_ok ls (Suc m)" for ls m by (auto simp: lock_set_ok_def)
  have "rings_ok ?s" using t grow by (auto simp: rings_ok_def ring_table_ok_def)
  moreover have "\<forall>ni \<in> set ring. \<not> in_ring (check_exhi ?s) ?j ni" using lt by auto
  ultimately obtain s' where s': "check_exclhi_members ?j ring ?s = Some s'" "rings_ok s'"
    "\<forall>li ni. in_ring (check_exhi s') li ni \<longleftrightarrow> in_ring (check_exhi s) li ni \<or> li = ?j \<and> ni \<in> set ring"
    "check_exlo s' = check_exlo s" "check_exhi_ring_pool s' = check_exhi_ring_pool s @ [False]"
    "check_exlo_ring_pool s' = check_exlo_ring_pool s"
    using check_exclhi_members_spec [of ?s ?j ring] j d by auto
  have "excl_inv val s'" if e: "excl_inv val s" and v: "\<forall>ni \<in> set ring. val ni \<noteq> LOGIC_HIGH"
  proof -
    from e have i: "ring_inv LOGIC_HIGH (check_exhi s) val (check_exhi_ring_pool s)" by (simp add: excl_inv_def)
    have "ring_inv LOGIC_HIGH (check_exhi s') val (check_exhi_ring_pool s')"
      unfolding ring_inv_def
    proof (intro allI impI)
      fix li assume "li < length (check_exhi_ring_pool s')"
      then consider "li < ?j" | "li = ?j" using s'(5) by fastforce
      then show "(check_exhi_ring_pool s' ! li \<longleftrightarrow> (\<exists>ni. in_ring (check_exhi s') li ni \<and> val ni = LOGIC_HIGH)) \<and>
        (\<forall>ni nj. in_ring (check_exhi s') li ni \<longrightarrow> in_ring (check_exhi s') li nj \<longrightarrow> val ni = LOGIC_HIGH \<longrightarrow> val nj = LOGIC_HIGH \<longrightarrow> ni = nj)"
      proof cases
        case 1
        with i show ?thesis using s'(3,5) by (auto simp: ring_inv_def nth_append)
      next
        case 2
        with lt v show ?thesis using s'(3,5) by (auto simp: nth_append)
      qed
    qed
    with e s'(4,6) show ?thesis by (simp add: excl_inv_def)
  qed
  with s'(1-3) show ?thesis by (auto simp: append_check_exclhi_ring_def)
qed

end
