(* ===== verification/Process_Graph.thy ===== *)
theory Process_Graph
  imports Prs_Excl Prs_Eval
begin

text \<open>
  The graph of one process type as the allocator builds it: \<^verbatim>\<open>faninout_struct_type\<close> and
  \<^verbatim>\<open>unique_process_subgraph\<close> of src/sim/prsim/process\_graph.hh and process\_graph.cc, with the structural self-check and
  the queries for rules. It extends the record \<^typ>\<open>process_graph\<close>, the part that simulation reads.
\<close>

section \<open>struct faninout\_struct\_type\<close>

text \<open>The arrays \<^verbatim>\<open>pull_up[2]\<close> and \<^verbatim>\<open>pull_dn[2]\<close>, indexed by \<^verbatim>\<open>NORMAL_RULE\<close> and \<^verbatim>\<open>WEAK_RULE\<close>.\<close>

record faninout_struct =
  fio_up_normal :: "expr_index_type list"
  fio_up_weak :: "expr_index_type list"
  fio_dn_normal :: "expr_index_type list"
  fio_dn_weak :: "expr_index_type list"
  fio_fanout :: "expr_index_type list"
  fio_is_atomic :: bool

definition faninout_new :: faninout_struct where
  "faninout_new = \<lparr>fio_up_normal = [], fio_up_weak = [], fio_dn_normal = [], fio_dn_weak = [], fio_fanout = [], fio_is_atomic = False\<rparr>"

definition get_pull_expr :: "bool \<Rightarrow> bool \<Rightarrow> faninout_struct \<Rightarrow> expr_index_type list" where
  "get_pull_expr dir w f =
     (if dir then (if w then fio_up_weak f else fio_up_normal f) else (if w then fio_dn_weak f else fio_dn_normal f))"

definition set_pull_expr :: "bool \<Rightarrow> bool \<Rightarrow> expr_index_type list \<Rightarrow> faninout_struct \<Rightarrow> faninout_struct" where
  "set_pull_expr dir w l f =
     (if dir then (if w then f\<lparr>fio_up_weak := l\<rparr> else f\<lparr>fio_up_normal := l\<rparr>)
      else (if w then f\<lparr>fio_dn_weak := l\<rparr> else f\<lparr>fio_dn_normal := l\<rparr>))"

definition has_fanin :: "faninout_struct \<Rightarrow> bool" where
  "has_fanin f \<longleftrightarrow> fio_up_normal f \<noteq> [] \<or> fio_dn_normal f \<noteq> [] \<or> fio_up_weak f \<noteq> [] \<or> fio_dn_weak f \<noteq> []"

definition contains_fanout :: "expr_index_type \<Rightarrow> faninout_struct \<Rightarrow> bool" where
  "contains_fanout ei f \<longleftrightarrow> ei \<in> set (fio_fanout f)"

definition fans :: "faninout_struct \<Rightarrow> nat" where
  "fans f = length (fio_fanout f) + length (fio_up_normal f) + length (fio_up_weak f) + length (fio_dn_normal f) + length (fio_dn_weak f)"

lemma get_set_pull_expr [simp]:
  "get_pull_expr d w (set_pull_expr d' w' l f) = (if d = d' \<and> w = w' then l else get_pull_expr d w f)"
  by (auto simp: get_pull_expr_def set_pull_expr_def)

lemma set_pull_expr_sel [simp]:
  "fio_fanout (set_pull_expr d w l f) = fio_fanout f" "fio_is_atomic (set_pull_expr d w l f) = fio_is_atomic f"
  by (simp_all add: set_pull_expr_def)

lemma get_pull_expr_fanout [simp]: "get_pull_expr d w (f\<lparr>fio_fanout := l\<rparr>) = get_pull_expr d w f"
  by (simp add: get_pull_expr_def)

section \<open>struct unique\_process\_subgraph\<close>

record unique_process_subgraph = process_graph +
  invariant_map :: "expr_index_type \<rightharpoonup> nat"
  local_faninout_map :: "faninout_struct list"

definition subgraph_new :: unique_process_subgraph where
  "subgraph_new = \<lparr>expr_pool = [], expr_graph_node_pool = [], rule_pool = [], rule_map = Map.empty, min_delays = Map.empty,
     invariant_map = Map.empty, local_faninout_map = []\<rparr>"

definition void_expr :: "expr_index_type \<Rightarrow> unique_process_subgraph \<Rightarrow> unique_process_subgraph option" where
  "void_expr ei g = do {
     e \<leftarrow> nth_opt (expr_pool g) ei;
     n \<leftarrow> nth_opt (expr_graph_node_pool g) ei;
     Some (g\<lparr>expr_pool := (expr_pool g)[ei := expr_wipe e], expr_graph_node_pool := (expr_graph_node_pool g)[ei := graph_wipe n]\<rparr>) }"

text \<open>\<^verbatim>\<open>lookup_rule\<close> on the extended record.\<close>

definition subgraph_rule :: "unique_process_subgraph \<Rightarrow> expr_index_type \<Rightarrow> rule option option" where
  "subgraph_rule g ei =
     (case rule_map g ei of Some ri \<Rightarrow> map_option Some (nth_opt (rule_pool g) ri) | None \<Rightarrow> Some None)"

text \<open>The map is searched in the order of its keys, which are expressions; not finding the rule is \<^verbatim>\<open>DIE\<close>.\<close>

definition lookup_expr :: "unique_process_subgraph \<Rightarrow> rule_index_type \<Rightarrow> expr_index_type option" where
  "lookup_expr g ri = find (\<lambda>ei. rule_map g ei = Some ri) [0..<length (expr_pool g)]"

fun follow_to_root :: "nat \<Rightarrow> unique_process_subgraph \<Rightarrow> expr_index_type \<Rightarrow> expr_index_type option" where
  "follow_to_root 0 g ei = None"
| "follow_to_root (Suc k) g ei = do {
     e \<leftarrow> nth_opt (expr_pool g) ei;
     if is_root e then Some ei else follow_to_root k g (expr_parent e) }"

definition follow_expr_to_root :: "unique_process_subgraph \<Rightarrow> expr_index_type \<Rightarrow> rule_index_type option" where
  "follow_expr_to_root g ei = do {
     r \<leftarrow> follow_to_root (length (expr_pool g)) g ei;
     rule_map g r }"

subsection \<open>Self-check\<close>

text \<open>Each \<^verbatim>\<open>assert\<close> is a check; expression 0 is an \<^verbatim>\<open>INVALID_EXPR_INDEX\<close> for \<^verbatim>\<open>check_node\<close> and is skipped.\<close>

definition check_pull_list :: "unique_process_subgraph \<Rightarrow> node_index_type \<Rightarrow> bool \<Rightarrow> expr_index_type list \<Rightarrow> bool" where
  "check_pull_list g i dir l \<longleftrightarrow> (\<forall>ei \<in> set l. ei \<noteq> INVALID_EXPR_INDEX \<longrightarrow>
     (case nth_opt (expr_pool g) ei of None \<Rightarrow> False
      | Some e \<Rightarrow> is_root e \<and> expr_parent e = i \<and>
          (case subgraph_rule g ei of Some (Some r) \<Rightarrow> direction r = dir | _ \<Rightarrow> False)))"

definition check_node :: "unique_process_subgraph \<Rightarrow> node_index_type \<Rightarrow> bool" where
  "check_node g i \<longleftrightarrow>
     (case nth_opt (local_faninout_map g) i of None \<Rightarrow> False
      | Some n \<Rightarrow>
          (\<forall>w. check_pull_list g i True (get_pull_expr True w n) \<and> check_pull_list g i False (get_pull_expr False w n)) \<and>
          (\<forall>ei \<in> set (fio_fanout n). case nth_opt (expr_graph_node_pool g) ei of None \<Rightarrow> False
             | Some gn \<Rightarrow> contains_node_fanin i gn))"

definition check_expr_parent :: "unique_process_subgraph \<Rightarrow> expr_index_type \<Rightarrow> expr \<Rightarrow> expr_graph_node \<Rightarrow> bool" where
  "check_expr_parent g i e gn \<longleftrightarrow>
     (if is_root e then
        (case subgraph_rule g i of
           Some (Some r) \<Rightarrow> is_invariant r \<or>
             (case nth_opt (local_faninout_map g) (expr_parent e) of None \<Rightarrow> False
              | Some n \<Rightarrow> count_list (get_pull_expr (direction r) False n) i = 1 \<or> count_list (get_pull_expr (direction r) True n) i = 1)
         | _ \<Rightarrow> False)
      else
        expr_parent e < length (expr_pool g) \<and>
        (case nth_opt (expr_graph_node_pool g) (expr_parent e) of None \<Rightarrow> False
         | Some pg \<Rightarrow> nth_opt (children pg) (unat (offset gn)) = Some (False, i)))"

definition check_expr :: "unique_process_subgraph \<Rightarrow> expr_index_type \<Rightarrow> bool" where
  "check_expr g i \<longleftrightarrow>
     (case (nth_opt (expr_pool g) i, nth_opt (expr_graph_node_pool g) i) of
        (Some e, Some gn) \<Rightarrow> expr_wiped e \<or>
          check_expr_parent g i e gn \<and> unat (expr_size e) = length (children gn) \<and>
          (\<forall>j < length (children gn). case children gn ! j of
             (True, ni) \<Rightarrow> (case nth_opt (local_faninout_map g) ni of None \<Rightarrow> False | Some f \<Rightarrow> contains_fanout i f)
           | (False, ci) \<Rightarrow>
               (case (nth_opt (expr_pool g) ci, nth_opt (expr_graph_node_pool g) ci) of
                  (Some c, Some cg) \<Rightarrow> expr_parent c = i \<and> unat (offset cg) = j
                | _ \<Rightarrow> False))
      | _ \<Rightarrow> False)"

definition check_structure :: "unique_process_subgraph \<Rightarrow> bool" where
  "check_structure g \<longleftrightarrow> length (expr_pool g) = length (expr_graph_node_pool g) \<and>
     (\<forall>i < length (expr_pool g). check_expr g i) \<and> (\<forall>i < length (local_faninout_map g). check_node g i)"

subsection \<open>Queries\<close>

text \<open>Local nodes are numbered from 1 in the arguments; results are ascending lists without duplicates.\<close>

definition collect_roots :: "unique_process_subgraph \<Rightarrow> expr_index_type list \<Rightarrow> rule_index_type list option" where
  "collect_roots g eis = do { rs \<leftarrow> those (map (follow_expr_to_root g) eis); Some (fold set_insert rs []) }"

definition rules_matching_fanin :: "unique_process_subgraph \<Rightarrow> node_index_type \<Rightarrow> bool \<Rightarrow> rule_index_type list option" where
  "rules_matching_fanin g lni dir = do {
     INVARIANT (0 < lni);
     fia \<leftarrow> nth_opt (local_faninout_map g) (lni - 1);
     collect_roots g (get_pull_expr dir False fia) }"

definition rules_matching_fanout :: "unique_process_subgraph \<Rightarrow> node_index_type \<Rightarrow> rule_index_type list option" where
  "rules_matching_fanout g lni = do {
     INVARIANT (0 < lni);
     fia \<leftarrow> nth_opt (local_faninout_map g) (lni - 1);
     collect_roots g (fio_fanout fia) }"

definition rules_matching_faninout ::
  "unique_process_subgraph \<Rightarrow> node_index_type \<Rightarrow> node_index_type \<Rightarrow> bool \<Rightarrow> rule_index_type list option" where
  "rules_matching_faninout g lns lnd ddir = do {
     tmp1 \<leftarrow> rules_matching_fanin g lnd ddir;
     tmp2 \<leftarrow> rules_matching_fanout g lns;
     Some (filter (\<lambda>r. r \<in> set tmp2) tmp1) }"

definition fan_count :: "unique_process_subgraph \<Rightarrow> nat" where
  "fan_count g = fold (\<lambda>f n. n + fans f) (local_faninout_map g) 0"

definition has_local_fanin_map :: "unique_process_subgraph \<Rightarrow> bool list" where
  "has_local_fanin_map g = map has_fanin (local_faninout_map g)"

definition has_not_local_fanin_map :: "unique_process_subgraph \<Rightarrow> bool list" where
  "has_not_local_fanin_map g = map (\<lambda>f. \<not> has_fanin f) (local_faninout_map g)"

subsection \<open>Minimum delays\<close>

definition min_delay_entry_new :: min_delay_entry where
  "min_delay_entry_new = \<lparr>md_time = (\<lambda>_ _. 0), md_predicate = (\<lambda>_ _. INVALID_NODE_INDEX)\<rparr>"

definition is_uniform :: "min_delay_entry \<Rightarrow> bool" where
  "is_uniform m \<longleftrightarrow> md_time m False False = md_time m False True \<and> md_time m False False = md_time m True False \<and>
     md_time m False False = md_time m True True \<and> md_predicate m False False = md_predicate m False True \<and>
     md_predicate m False False = md_predicate m True False \<and> md_predicate m False False = md_predicate m True True"

text \<open>\<^verbatim>\<open>operator[]\<close> of the inner map: an existing entry is updated in place, a new one is inserted in key order.\<close>

fun map_update_at :: "nat \<Rightarrow> 'v \<Rightarrow> ('v \<Rightarrow> 'v) \<Rightarrow> (nat \<times> 'v) list \<Rightarrow> (nat \<times> 'v) list" where
  "map_update_at k d f [] = [(k, f d)]"
| "map_update_at k d f ((k', v) # m) =
     (if k < k' then (k, f d) # (k', v) # m else if k = k' then (k', f v) # m else (k', v) # map_update_at k d f m)"

definition applies_to :: "char \<Rightarrow> bool \<Rightarrow> bool" where
  "applies_to c dir \<longleftrightarrow> c \<noteq> (if dir then CHR ''-'' else CHR ''+'')"

definition add_min_delay_constraint ::
  "node_index_type \<Rightarrow> char \<Rightarrow> node_index_type \<Rightarrow> char \<Rightarrow> time_type \<Rightarrow> node_index_type \<Rightarrow> unique_process_subgraph \<Rightarrow> unique_process_subgraph" where
  "add_min_delay_constraint ref refdir tgt tgtdir del pred g =
     (let upd = (\<lambda>m. m\<lparr>
            md_time := (\<lambda>rd td. if applies_to refdir rd \<and> applies_to tgtdir td then del else md_time m rd td),
            md_predicate := (\<lambda>rd td. if applies_to refdir rd \<and> applies_to tgtdir td then pred else md_predicate m rd td)\<rparr>);
          old = (case min_delays g tgt of None \<Rightarrow> [] | Some l \<Rightarrow> l) in
      g\<lparr>min_delays := (min_delays g)(tgt \<mapsto> map_update_at ref min_delay_entry_new upd old)\<rparr>)"

definition reset_delay_constraints :: "unique_process_subgraph \<Rightarrow> unique_process_subgraph" where
  "reset_delay_constraints g = g\<lparr>min_delays := Map.empty\<rparr>"

lemma map_of_update_at:
  "sorted_wrt (<) (map fst m) \<Longrightarrow>
   map_of (map_update_at k d f m) j = (if j = k then Some (f (case map_of m k of None \<Rightarrow> d | Some v \<Rightarrow> v)) else map_of m j)"
proof (induction k d f m rule: map_update_at.induct)
  case (2 k d f k' v m)
  have "map_of m k = None" if "k < k'" using 2(2) that by (auto simp: map_of_eq_None_iff)
  with 2 show ?case by auto
qed auto

text \<open>The entry of a constraint after adding it: exactly the selected edges get the delay and the predicate.\<close>

lemma add_min_delay_constraint_entry:
  assumes "case min_delays g tgt of None \<Rightarrow> True | Some l \<Rightarrow> sorted_wrt (<) (map fst l)"
    and "g' = add_min_delay_constraint ref refdir tgt tgtdir del pred g"
    and "old = (case min_delays g tgt of None \<Rightarrow> Map.empty | Some l \<Rightarrow> map_of l)"
  shows "\<exists>l. min_delays g' tgt = Some l \<and> (\<exists>m. map_of l ref = Some m \<and>
      (\<forall>rd td. applies_to refdir rd \<and> applies_to tgtdir td \<longrightarrow> md_time m rd td = del \<and> md_predicate m rd td = pred) \<and>
      (\<forall>rd td. \<not> (applies_to refdir rd \<and> applies_to tgtdir td) \<longrightarrow>
         md_time m rd td = md_time (case old ref of None \<Rightarrow> min_delay_entry_new | Some m0 \<Rightarrow> m0) rd td)) \<and>
      (\<forall>r. r \<noteq> ref \<longrightarrow> map_of l r = old r)"
    "t \<noteq> tgt \<Longrightarrow> min_delays g' t = min_delays g t"
  using assms by (auto simp: add_min_delay_constraint_def Let_def map_of_update_at split: option.splits)

end
