(* ===== verification/Expr_Alloc.thy ===== *)
theory Expr_Alloc
  imports Process_Graph
begin

text \<open>
  The allocator of src/sim/prsim/ExprAlloc.cc: it turns the rules of a process type, given as a pool of expressions
  in the footprint, into the process graph that simulation uses, with two optional optimizations (folding literals
  into their parents, and pulling negations up), and connects the nodes of each process instance to the graph.
\<close>

unbundle bit_operations_syntax

section \<open>struct ExprAllocFlags\<close>

abbreviation FOLD_LITERALS :: uchar where "FOLD_LITERALS \<equiv> 0x01"
abbreviation DENORMALIZE_NEGATIONS :: uchar where "DENORMALIZE_NEGATIONS \<equiv> 0x02"
abbreviation OPTIMIZE_FLAGS :: uchar where "OPTIMIZE_FLAGS \<equiv> 0x03"

record expr_alloc_flags =
  alloc_flags :: uchar
  fast_weak_keepers :: bool
  auto_precharge_invariants :: bool
  dynamic_ground_supply :: bool
  dynamic_power_supply :: bool

definition expr_alloc_flags_new :: expr_alloc_flags where
  "expr_alloc_flags_new = \<lparr>alloc_flags = 0, fast_weak_keepers = False, auto_precharge_invariants = False,
     dynamic_ground_supply = False, dynamic_power_supply = False\<rparr>"

definition is_fold_literals :: "expr_alloc_flags \<Rightarrow> bool" where
  "is_fold_literals f \<longleftrightarrow> alloc_flags f AND FOLD_LITERALS \<noteq> 0"

definition is_denormalize_negations :: "expr_alloc_flags \<Rightarrow> bool" where
  "is_denormalize_negations f \<longleftrightarrow> alloc_flags f AND DENORMALIZE_NEGATIONS \<noteq> 0"

definition fold_literals :: "expr_alloc_flags \<Rightarrow> expr_alloc_flags" where
  "fold_literals f = f\<lparr>alloc_flags := alloc_flags f OR FOLD_LITERALS\<rparr>"

definition no_fold_literals :: "expr_alloc_flags \<Rightarrow> expr_alloc_flags" where
  "no_fold_literals f = f\<lparr>alloc_flags := alloc_flags f AND NOT FOLD_LITERALS\<rparr>"

definition denormalize_negations :: "expr_alloc_flags \<Rightarrow> expr_alloc_flags" where
  "denormalize_negations f = f\<lparr>alloc_flags := alloc_flags f OR DENORMALIZE_NEGATIONS\<rparr>"

definition no_denormalize_negations :: "expr_alloc_flags \<Rightarrow> expr_alloc_flags" where
  "no_denormalize_negations f = f\<lparr>alloc_flags := alloc_flags f AND NOT DENORMALIZE_NEGATIONS\<rparr>"

definition alloc_optimize :: "int \<Rightarrow> expr_alloc_flags \<Rightarrow> expr_alloc_flags" where
  "alloc_optimize level f =
     (if level \<noteq> 0 then f\<lparr>alloc_flags := alloc_flags f OR OPTIMIZE_FLAGS\<rparr>
      else f\<lparr>alloc_flags := alloc_flags f AND NOT OPTIMIZE_FLAGS\<rparr>)"

definition any_optimize :: "expr_alloc_flags \<Rightarrow> bool" where
  "any_optimize f \<longleftrightarrow> alloc_flags f AND OPTIMIZE_FLAGS \<noteq> 0"

text \<open>Differences in optimization and in inferred invariants only give warnings.\<close>

definition flags_assert_equal :: "expr_alloc_flags \<Rightarrow> expr_alloc_flags \<Rightarrow> bool" where
  "flags_assert_equal a b \<longleftrightarrow> fast_weak_keepers a = fast_weak_keepers b"

text \<open>A checkpoint as the sequence of values written; reading past its end fails.\<close>

definition flags_write_object :: "expr_alloc_flags \<Rightarrow> bool list" where
  "flags_write_object f = [fast_weak_keepers f, auto_precharge_invariants f]"

definition flags_load_object :: "expr_alloc_flags \<Rightarrow> bool list \<Rightarrow> (expr_alloc_flags \<times> bool list) option" where
  "flags_load_object f i =
     (case i of a # b # i' \<Rightarrow> Some (f\<lparr>fast_weak_keepers := a, auto_precharge_invariants := b\<rparr>, i') | _ \<Rightarrow> None)"

section \<open>The footprint of a process type\<close>

text \<open>
  Expressions, rules and supplies as Object/lang/PRS\_footprint.hh has them. Indices into the expression pool, of
  nodes and of children start at 1. The type is a \<^verbatim>\<open>char\<close> with the enumerators of PRS\_enum.hh.
\<close>

abbreviation PRS_LITERAL_TYPE_ENUM :: uchar where "PRS_LITERAL_TYPE_ENUM \<equiv> 0"
abbreviation PRS_NODE_TYPE_ENUM :: uchar where "PRS_NODE_TYPE_ENUM \<equiv> 4"

record footprint_expr_node =
  fe_type :: uchar
  fe_nodes :: "nat list"

record supply_entry =
  sup_rules_first :: nat
  sup_int_nodes_first :: nat
  sup_Vdd :: node_index_type
  sup_GND :: node_index_type

record prs_footprint =
  pf_expr_pool :: "footprint_expr_node list"
  internal_node_pool :: "nat list"
  supply_map :: "supply_entry list"

definition pool_at :: "'a list \<Rightarrow> nat \<Rightarrow> 'a option" where
  "pool_at xs i = (if i = 0 then None else nth_opt xs (i - 1))"

definition fe_only :: "footprint_expr_node \<Rightarrow> nat option" where
  "fe_only e = nth_opt (fe_nodes e) 0"

definition find_internal_node :: "prs_footprint \<Rightarrow> nat \<Rightarrow> nat option" where
  "find_internal_node pf ei = find (\<lambda>i. internal_node_pool pf ! i = ei) [0..<length (internal_node_pool pf)]"

text \<open>\<^verbatim>\<open>upper_bound\<close>, then one step back, as \<^verbatim>\<open>lookup_rule_supply\<close> and \<^verbatim>\<open>lookup_internal_node_supply\<close> do.\<close>

definition lookup_supply :: "(supply_entry \<Rightarrow> nat) \<Rightarrow> prs_footprint \<Rightarrow> nat \<Rightarrow> supply_entry option" where
  "lookup_supply first pf i = do {
     let ms = takeWhile (\<lambda>m. \<not> i < first m) (supply_map pf);
     INVARIANT (ms \<noteq> []);
     Some (last ms) }"

section \<open>class ExprAlloc\<close>

record expr_alloc =
  ea_g :: unique_process_subgraph
  expr_free_list :: "expr_index_type list"
  ret_ex_index :: expr_index_type
  suppress_keeper_rule :: bool
  temp_rule :: "rule option"
  power_supply :: node_index_type
  at_source :: bool

definition expr_alloc_new :: expr_alloc where
  "expr_alloc_new = \<lparr>ea_g = subgraph_new, expr_free_list = [], ret_ex_index = INVALID_EXPR_INDEX, suppress_keeper_rule = False,
     temp_rule = None, power_supply = 0, at_source = False\<rparr>"

text \<open>From 1-based to 0-based, at the width of \<^verbatim>\<open>size_t\<close>.\<close>

definition lookup_local_bool_id :: "nat \<Rightarrow> node_index_type" where
  "lookup_local_bool_id ni = (if ni = 0 then 2 ^ 64 - 1 else ni - 1)"

subsection \<open>Single expressions\<close>

text \<open>Slot for a new expression: the free list is a queue.\<close>

definition acquire_expr :: "expr \<Rightarrow> expr_alloc \<Rightarrow> expr_index_type \<times> expr_alloc" where
  "acquire_expr e s =
     (case expr_free_list s of
        i # fl \<Rightarrow> (i, s\<lparr>expr_free_list := fl,
          ea_g := (ea_g s)\<lparr>expr_pool := (expr_pool (ea_g s))[i := e],
            expr_graph_node_pool := (expr_graph_node_pool (ea_g s))[i := ExprGraphNode_default]\<rparr>\<rparr>)
      | [] \<Rightarrow> (length (expr_pool (ea_g s)), s\<lparr>
          ea_g := (ea_g s)\<lparr>expr_pool := expr_pool (ea_g s) @ [e],
            expr_graph_node_pool := expr_graph_node_pool (ea_g s) @ [ExprGraphNode_default]\<rparr>\<rparr>))"

definition mod_graph_node :: "expr_index_type \<Rightarrow> (expr_graph_node \<Rightarrow> expr_graph_node) \<Rightarrow> unique_process_subgraph \<Rightarrow> unique_process_subgraph option" where
  "mod_graph_node i f g = do {
     n \<leftarrow> nth_opt (expr_graph_node_pool g) i;
     Some (g\<lparr>expr_graph_node_pool := (expr_graph_node_pool g)[i := f n]\<rparr>) }"

definition mod_expr :: "expr_index_type \<Rightarrow> (expr \<Rightarrow> expr) \<Rightarrow> unique_process_subgraph \<Rightarrow> unique_process_subgraph option" where
  "mod_expr i f g = do {
     e \<leftarrow> nth_opt (expr_pool g) i;
     Some (g\<lparr>expr_pool := (expr_pool g)[i := f e]\<rparr>) }"

definition mod_faninout :: "node_index_type \<Rightarrow> (faninout_struct \<Rightarrow> faninout_struct) \<Rightarrow> unique_process_subgraph \<Rightarrow> unique_process_subgraph option" where
  "mod_faninout ni f g = do {
     x \<leftarrow> nth_opt (local_faninout_map g) ni;
     Some (g\<lparr>local_faninout_map := (local_faninout_map g)[ni := f x]\<rparr>) }"

definition allocate_new_literal_expr :: "node_index_type \<Rightarrow> expr_alloc \<Rightarrow> (expr_index_type \<times> expr_alloc) option" where
  "allocate_new_literal_expr ni s = do {
     e \<leftarrow> Expr_type_size EXPR_NODE 1;
     let (ret, s1) = acquire_expr e s;
     g1 \<leftarrow> mod_faninout ni (\<lambda>f. f\<lparr>fio_fanout := fio_fanout f @ [ret]\<rparr>) (ea_g s1);
     g2 \<leftarrow> mod_graph_node ret (push_back_node ni) g1;
     Some (ret, s1\<lparr>ea_g := g2\<rparr>) }"

definition allocate_new_not_expr :: "expr_index_type \<Rightarrow> expr_alloc \<Rightarrow> (expr_index_type \<times> expr_alloc) option" where
  "allocate_new_not_expr ei s = do {
     g1 \<leftarrow> mod_expr ei toggle_not (ea_g s);
     Some (ei, s\<lparr>ea_g := g1\<rparr>) }"

definition allocate_new_supply_expr :: "expr_alloc \<Rightarrow> (expr_index_type \<times> expr_alloc) option" where
  "allocate_new_supply_expr s = do {
     (ps, s1) \<leftarrow> allocate_new_literal_expr (power_supply s) s;
     r \<leftarrow> temp_rule s1;
     if \<not> direction r then allocate_new_not_expr ps s1 else Some (ps, s1) }"

definition link_child_expr :: "expr_index_type \<Rightarrow> expr_index_type \<Rightarrow> nat \<Rightarrow> expr_alloc \<Rightarrow> expr_alloc option" where
  "link_child_expr parent child off s = do {
     g1 \<leftarrow> mod_expr child (set_parent_expr parent) (ea_g s);
     g2 \<leftarrow> mod_graph_node child (\<lambda>n. n\<lparr>offset := of_nat off\<rparr>) g1;
     g3 \<leftarrow> mod_graph_node parent (push_back_expr child) g2;
     Some (s\<lparr>ea_g := g3\<rparr>) }"

definition append_child_expr :: "expr_index_type \<Rightarrow> expr_index_type \<Rightarrow> expr_alloc \<Rightarrow> expr_alloc option" where
  "append_child_expr parent child s = do {
     pg \<leftarrow> nth_opt (expr_graph_node_pool (ea_g s)) parent;
     g1 \<leftarrow> mod_expr parent (\<lambda>e. e\<lparr>expr_size := expr_size e + 1\<rparr>) (ea_g s);
     g2 \<leftarrow> mod_expr child (set_parent_expr parent) g1;
     g3 \<leftarrow> mod_graph_node child (\<lambda>n. n\<lparr>offset := of_nat (length (children pg))\<rparr>) g2;
     g4 \<leftarrow> mod_graph_node parent (push_back_expr child) g3;
     Some (s\<lparr>ea_g := g4\<rparr>) }"

definition prepend_child_expr :: "expr_index_type \<Rightarrow> expr_index_type \<Rightarrow> expr_alloc \<Rightarrow> expr_alloc option" where
  "prepend_child_expr parent child s = do {
     g1 \<leftarrow> mod_expr parent (\<lambda>e. e\<lparr>expr_size := expr_size e + 1\<rparr>) (ea_g s);
     g2 \<leftarrow> mod_expr child (set_parent_expr parent) g1;
     g3 \<leftarrow> mod_graph_node child (\<lambda>n. n\<lparr>offset := 0\<rparr>) g2;
     g4 \<leftarrow> mod_graph_node parent (push_back_expr child) g3;
     Some (s\<lparr>ea_g := g4\<rparr>) }"

text \<open>A size beyond the range of \<^verbatim>\<open>expr_count_type\<close> is a fatal error.\<close>

definition allocate_new_Nary_expr :: "uchar \<Rightarrow> nat \<Rightarrow> expr_alloc \<Rightarrow> (expr_index_type \<times> expr_alloc) option" where
  "allocate_new_Nary_expr ty sz s = do {
     INVARIANT (sz \<noteq> 0);
     INVARIANT (sz \<le> 65535);
     e \<leftarrow> Expr_type_size (if ty = PRS_AND_EXPR_TYPE_ENUM then EXPR_AND else EXPR_OR) (of_nat sz);
     Some (acquire_expr e s) }"

definition and_expression_with_literal :: "expr_index_type \<Rightarrow> expr_index_type \<Rightarrow> expr_alloc \<Rightarrow> (expr_index_type \<times> expr_alloc) option" where
  "and_expression_with_literal lst nxt s = do {
     l \<leftarrow> nth_opt (expr_pool (ea_g s)) lst;
     if is_conjunctive l \<and> \<not> is_not l then do { s1 \<leftarrow> append_child_expr lst nxt s; Some (lst, s1) }
     else do {
       (ret, s1) \<leftarrow> allocate_new_Nary_expr PRS_AND_EXPR_TYPE_ENUM 2 s;
       s2 \<leftarrow> link_child_expr ret lst 0 s1;
       s3 \<leftarrow> link_child_expr ret nxt 1 s2;
       Some (ret, s3) } }"

subsection \<open>Graph surgery\<close>

text \<open>The excision of child \<open>ei\<close>, whose only child is node \<open>cn\<close>, from position \<open>j\<close> of expression \<open>e\<close>.\<close>

definition excise_child :: "expr_index_type \<Rightarrow> nat \<Rightarrow> expr_index_type \<Rightarrow> node_index_type \<Rightarrow> expr_alloc \<Rightarrow> expr_alloc option" where
  "excise_child e j ei cn s = do {
     g1 \<leftarrow> mod_graph_node e (\<lambda>n. n\<lparr>children := (children n)[j := (True, cn)]\<rparr>) (ea_g s);
     g2 \<leftarrow> mod_faninout cn (\<lambda>f. f\<lparr>fio_fanout := map (\<lambda>x. if x = ei then e else x) (fio_fanout f)\<rparr>) g1;
     g3 \<leftarrow> void_expr ei g2;
     Some (s\<lparr>ea_g := g3, expr_free_list := expr_free_list s @ [ei]\<rparr>) }"

definition fold_literal_at :: "expr_index_type \<Rightarrow> nat \<Rightarrow> expr_alloc \<Rightarrow> expr_alloc option" where
  "fold_literal_at e j s = do {
     gn \<leftarrow> nth_opt (expr_graph_node_pool (ea_g s)) e;
     (leaf, ei) \<leftarrow> nth_opt (children gn) j;
     if leaf then Some s
     else do {
       oe \<leftarrow> nth_opt (expr_pool (ea_g s)) ei;
       og \<leftarrow> nth_opt (expr_graph_node_pool (ea_g s)) ei;
       (oleaf, cn) \<leftarrow> nth_opt (children og) 0;
       if is_trivial oe \<and> oleaf then excise_child e j ei cn s else Some s } }"

fun fold_loop :: "('a \<Rightarrow> 's \<Rightarrow> 's option) \<Rightarrow> 'a list \<Rightarrow> 's \<Rightarrow> 's option" where
  "fold_loop f [] s = Some s"
| "fold_loop f (j # js) s = do { s1 \<leftarrow> f j s; fold_loop f js s1 }"

definition fold_literal :: "expr_index_type \<Rightarrow> expr_alloc \<Rightarrow> expr_alloc option" where
  "fold_literal e s = do {
     x \<leftarrow> nth_opt (expr_pool (ea_g s)) e;
     fold_loop (fold_literal_at e) [0..<unat (expr_size x)] s }"

definition negated_literal_at :: "unique_process_subgraph \<Rightarrow> expr_index_type \<Rightarrow> nat \<Rightarrow> bool option" where
  "negated_literal_at g e j = do {
     gn \<leftarrow> nth_opt (expr_graph_node_pool g) e;
     (leaf, ei) \<leftarrow> nth_opt (children gn) j;
     if leaf then Some False
     else do {
       oe \<leftarrow> nth_opt (expr_pool g) ei;
       Some (expr_size oe = 1 \<and> is_not oe) } }"

text \<open>The first pass stops at the first child that does not qualify.\<close>

fun all_negated :: "unique_process_subgraph \<Rightarrow> expr_index_type \<Rightarrow> nat list \<Rightarrow> bool option" where
  "all_negated g e [] = Some True"
| "all_negated g e (j # js) = do { b \<leftarrow> negated_literal_at g e j; if b then all_negated g e js else Some False }"

definition denormalize_at :: "expr_index_type \<Rightarrow> nat \<Rightarrow> expr_alloc \<Rightarrow> expr_alloc option" where
  "denormalize_at e j s = do {
     gn \<leftarrow> nth_opt (expr_graph_node_pool (ea_g s)) e;
     (leaf, ei) \<leftarrow> nth_opt (children gn) j;
     og \<leftarrow> nth_opt (expr_graph_node_pool (ea_g s)) ei;
     (oleaf, c) \<leftarrow> nth_opt (children og) 0;
     if oleaf then excise_child e j ei c s
     else do { g1 \<leftarrow> mod_expr c toggle_not (ea_g s); Some (s\<lparr>ea_g := g1\<rparr>) } }"

definition denormalize_negation :: "expr_index_type \<Rightarrow> expr_alloc \<Rightarrow> expr_alloc option" where
  "denormalize_negation e s = do {
     x \<leftarrow> nth_opt (expr_pool (ea_g s)) e;
     denorm \<leftarrow> all_negated (ea_g s) e [0..<unat (expr_size x)];
     if denorm then do {
       s1 \<leftarrow> fold_loop (denormalize_at e) [0..<unat (expr_size x)] s;
       g1 \<leftarrow> mod_expr e toggle_demorgan (ea_g s1);
       Some (s1\<lparr>ea_g := g1\<rparr>) }
     else Some s }"

definition graph_surgery :: "expr_alloc_flags \<Rightarrow> expr_index_type \<Rightarrow> expr_alloc \<Rightarrow> expr_alloc option" where
  "graph_surgery flags lst s = do {
     s1 \<leftarrow> (if is_fold_literals flags then fold_literal lst s else Some s);
     s2 \<leftarrow> (if is_denormalize_negations flags then denormalize_negation lst s1 else Some s1);
     Some (s2\<lparr>ret_ex_index := lst\<rparr>) }"

subsection \<open>Expressions of the footprint\<close>

type_synonym visitor = "nat \<Rightarrow> expr_alloc \<Rightarrow> expr_alloc option"

fun link_children :: "visitor \<Rightarrow> expr_index_type \<Rightarrow> nat \<Rightarrow> nat list \<Rightarrow> expr_alloc \<Rightarrow> expr_alloc option" where
  "link_children v lst off [] s = Some s"
| "link_children v lst off (x # xs) s = do {
     s1 \<leftarrow> v x s;
     s2 \<leftarrow> link_child_expr lst (ret_ex_index s1) off s1;
     link_children v lst (off + 1) xs s2 }"

definition visit_and_expr :: "visitor \<Rightarrow> expr_alloc_flags \<Rightarrow> footprint_expr_node \<Rightarrow> expr_alloc \<Rightarrow> expr_alloc option" where
  "visit_and_expr v flags e s = do {
     (lst, s1) \<leftarrow> allocate_new_Nary_expr (fe_type e) (length (fe_nodes e)) s;
     x \<leftarrow> nth_opt (fe_nodes e) 0;
     s2 \<leftarrow> v x s1;
     let first_ex_index = ret_ex_index s2;
     s3 \<leftarrow>
       (if at_source s2 then do {
          (ps, s3) \<leftarrow> allocate_new_supply_expr s2;
          s4 \<leftarrow> prepend_child_expr lst ps s3;
          s5 \<leftarrow> link_child_expr lst first_ex_index 1 s4;
          link_children v lst 2 (tl (fe_nodes e)) (s5\<lparr>at_source := False\<rparr>) }
        else do {
          s3 \<leftarrow> link_child_expr lst first_ex_index 0 s2;
          link_children v lst 1 (tl (fe_nodes e)) s3 });
     graph_surgery flags lst s3 }"

text \<open>The supply is added when a branch has not consumed it; \<^verbatim>\<open>value_saver\<close> restores the flag after each branch.\<close>

definition and_supply :: "expr_alloc \<Rightarrow> expr_alloc option" where
  "and_supply s =
     (if at_source s then do {
        (ps, s1) \<leftarrow> allocate_new_supply_expr s;
        (ret, s2) \<leftarrow> and_expression_with_literal (ret_ex_index s1) ps s1;
        Some (s2\<lparr>ret_ex_index := ret\<rparr>) }
      else Some s)"

definition or_branch :: "visitor \<Rightarrow> visitor" where
  "or_branch v x s = do {
     s1 \<leftarrow> v x s;
     s2 \<leftarrow> and_supply s1;
     Some (s2\<lparr>at_source := at_source s\<rparr>) }"

definition visit_or_expr :: "visitor \<Rightarrow> expr_alloc_flags \<Rightarrow> footprint_expr_node \<Rightarrow> expr_alloc \<Rightarrow> expr_alloc option" where
  "visit_or_expr v flags e s = do {
     (lst, s1) \<leftarrow> allocate_new_Nary_expr (fe_type e) (length (fe_nodes e)) s;
     s2 \<leftarrow> link_children (or_branch v) lst 0 (fe_nodes e) s1;
     graph_surgery flags lst (s2\<lparr>at_source := False\<rparr>) }"

definition visit_internal_node :: "visitor \<Rightarrow> prs_footprint \<Rightarrow> footprint_expr_node \<Rightarrow> expr_alloc \<Rightarrow> expr_alloc option" where
  "visit_internal_node v pf e s = do {
     eo \<leftarrow> fe_only e;
     ind \<leftarrow> find_internal_node pf eo;
     sup \<leftarrow> lookup_supply sup_int_nodes_first pf ind;
     r \<leftarrow> temp_rule s;
     s1 \<leftarrow> v eo (s\<lparr>power_supply := lookup_local_bool_id (if direction r then sup_Vdd sup else sup_GND sup)\<rparr>);
     s2 \<leftarrow> and_supply s1;
     Some (s2\<lparr>at_source := False, power_supply := power_supply s\<rparr>) }"

text \<open>
  \<^verbatim>\<open>visit(footprint_expr_node)\<close>. Fuel bounds the depth of the footprint expression, which follows indices of a pool.
\<close>

fun visit_expr :: "nat \<Rightarrow> prs_footprint \<Rightarrow> expr_alloc_flags \<Rightarrow> visitor" where
  "visit_expr 0 pf flags = (\<lambda>i s. None)"
| "visit_expr (Suc k) pf flags = (\<lambda>i s. do {
     e \<leftarrow> pool_at (pf_expr_pool pf) i;
     if fe_type e = PRS_LITERAL_TYPE_ENUM then do {
       INVARIANT (length (fe_nodes e) = 1);
       n \<leftarrow> fe_only e;
       (ret, s1) \<leftarrow> allocate_new_literal_expr (lookup_local_bool_id n) s;
       Some (s1\<lparr>ret_ex_index := ret\<rparr>) }
     else if fe_type e = PRS_NOT_EXPR_TYPE_ENUM then do {
       INVARIANT (length (fe_nodes e) = 1);
       c \<leftarrow> fe_only e;
       s1 \<leftarrow> visit_expr k pf flags c s;
       (ret, s2) \<leftarrow> allocate_new_not_expr (ret_ex_index s1) s1;
       Some (s2\<lparr>ret_ex_index := ret\<rparr>) }
     else if fe_type e = PRS_AND_EXPR_TYPE_ENUM then visit_and_expr (visit_expr k pf flags) flags e s
     else if fe_type e = PRS_OR_EXPR_TYPE_ENUM then visit_or_expr (visit_expr k pf flags) flags e s
     else if fe_type e = PRS_NODE_TYPE_ENUM then do {
       INVARIANT (length (fe_nodes e) = 1);
       visit_internal_node (visit_expr k pf flags) pf e s }
     else None })"

text \<open>
  \<^verbatim>\<open>visit(RTE::footprint_expr_node)\<close> and \<^verbatim>\<open>visit_atomic_expr\<close>: expressions of atomic assignments, which are neither
  folded nor supplied. An internal node is a fatal error.
\<close>

fun visit_rte_expr :: "nat \<Rightarrow> footprint_expr_node list \<Rightarrow> visitor" where
  "visit_rte_expr 0 pool = (\<lambda>i s. None)"
| "visit_rte_expr (Suc k) pool = (\<lambda>i s. do {
     e \<leftarrow> pool_at pool i;
     if fe_type e = PRS_LITERAL_TYPE_ENUM then do {
       INVARIANT (length (fe_nodes e) = 1);
       n \<leftarrow> fe_only e;
       (ret, s1) \<leftarrow> allocate_new_literal_expr (lookup_local_bool_id n) s;
       Some (s1\<lparr>ret_ex_index := ret\<rparr>) }
     else if fe_type e = PRS_NOT_EXPR_TYPE_ENUM then do {
       INVARIANT (length (fe_nodes e) = 1);
       c \<leftarrow> fe_only e;
       s1 \<leftarrow> visit_rte_expr k pool c s;
       (ret, s2) \<leftarrow> allocate_new_not_expr (ret_ex_index s1) s1;
       Some (s2\<lparr>ret_ex_index := ret\<rparr>) }
     else if fe_type e = PRS_AND_EXPR_TYPE_ENUM \<or> fe_type e = PRS_OR_EXPR_TYPE_ENUM then do {
       (lst, s1) \<leftarrow> allocate_new_Nary_expr (fe_type e) (length (fe_nodes e)) s;
       s2 \<leftarrow> link_children (visit_rte_expr k pool) lst 0 (fe_nodes e) s1;
       Some (s2\<lparr>ret_ex_index := lst\<rparr>) }
     else None })"

subsection \<open>Rules\<close>

definition link_node_to_root_expr :: "node_index_type \<Rightarrow> expr_index_type \<Rightarrow> bool \<Rightarrow> rule \<Rightarrow> bool \<Rightarrow> expr_alloc \<Rightarrow> expr_alloc option" where
  "link_node_to_root_expr ni tei dir dummy w s = do {
     let g = ea_g s;
     f \<leftarrow> nth_opt (local_faninout_map g) ni;
     let fin = get_pull_expr dir w f;
     g1 \<leftarrow> mod_graph_node tei (\<lambda>n. n\<lparr>offset := of_nat (length fin)\<rparr>) g;
     g2 \<leftarrow> mod_faninout ni (set_pull_expr dir w (fin @ [tei])) g1;
     g3 \<leftarrow> mod_expr tei (expr_pull ni) g2;
     Some (s\<lparr>ea_g := g3\<lparr>rule_map := (rule_map g3)(tei \<mapsto> length (rule_pool g3)),
                       rule_pool := rule_pool g3 @ [set_direction dir dummy]\<rparr>\<rparr>) }"

definition link_invariant_expr :: "time_type \<Rightarrow> expr_index_type \<Rightarrow> nat \<Rightarrow> expr_alloc \<Rightarrow> expr_alloc option" where
  "link_invariant_expr dflt tei src s = do {
     g1 \<leftarrow> mod_expr tei invariant_root (ea_g s);
     Some (s\<lparr>ea_g := g1\<lparr>rule_map := (rule_map g1)(tei \<mapsto> length (rule_pool g1)),
                       invariant_map := (invariant_map g1)(tei \<mapsto> src),
                       rule_pool := rule_pool g1 @ [set_invariant (Rule_new dflt)]\<rparr>\<rparr>) }"

text \<open>
  The rule attributes, by their registered name. A missing value stands for 1, except for delays, whose value is
  taken without a test.
\<close>

definition flag_value :: "int list \<Rightarrow> bool" where
  "flag_value a = (case a of [] \<Rightarrow> True | v # _ \<Rightarrow> v \<noteq> 0)"

definition check_after_min_max :: "rule \<Rightarrow> unit option" where
  "check_after_min_max r = INVARIANT (\<not> after_max r < after_min r)"

definition apply_attribute :: "expr_alloc_flags \<Rightarrow> string \<Rightarrow> int list \<Rightarrow> expr_alloc \<Rightarrow> expr_alloc option" where
  "apply_attribute flags key a s = do {
     r \<leftarrow> temp_rule s;
     if key = ''after'' then do { d \<leftarrow> nth_opt a 0; Some (s\<lparr>temp_rule := Some (set_delay (of_int d) r)\<rparr>) }
     else if key = ''after_min'' then do {
       d \<leftarrow> nth_opt a 0;
       let r1 = r\<lparr>after_min := of_int d\<rparr>;
       _ \<leftarrow> (if \<not> is_zero (after_max r1) then check_after_min_max r1 else Some ());
       Some (s\<lparr>temp_rule := Some r1\<rparr>) }
     else if key = ''after_max'' then do {
       d \<leftarrow> nth_opt a 0;
       let r1 = r\<lparr>after_max := of_int d\<rparr>;
       _ \<leftarrow> (if \<not> is_zero (after_min r1) then check_after_min_max r1 else Some ());
       Some (s\<lparr>temp_rule := Some r1\<rparr>) }
     else if key = ''always_random'' then
       Some (s\<lparr>temp_rule := Some (if flag_value a then set_always_random r else clear_always_random r)\<rparr>)
     else if key = ''weak'' then Some (s\<lparr>temp_rule := Some (if flag_value a then rule_set_weak r else rule_clear_weak r)\<rparr>)
     else if key = ''unstab'' then Some (s\<lparr>temp_rule := Some (if flag_value a then set_unstable r else clear_unstable r)\<rparr>)
     else if key = ''iskeeper'' then
       (if flag_value a \<and> fast_weak_keepers flags
        then Some (s\<lparr>temp_rule := Some (set_delay 0 (rule_set_weak r)), suppress_keeper_rule := False\<rparr>)
        else Some (s\<lparr>suppress_keeper_rule := flag_value a\<rparr>))
     else if key = ''diode'' then Some (s\<lparr>suppress_keeper_rule := flag_value a\<rparr>)
     else Some s }"

fun apply_attributes :: "expr_alloc_flags \<Rightarrow> (string \<times> int list) list \<Rightarrow> expr_alloc \<Rightarrow> expr_alloc option" where
  "apply_attributes flags [] s = Some s"
| "apply_attributes flags ((k, a) # as) s = do { s1 \<leftarrow> apply_attribute flags k a s; apply_attributes flags as s1 }"

record footprint_rule =
  fr_expr_index :: nat
  fr_output_index :: nat
  fr_dir :: bool
  fr_attributes :: "(string \<times> int list) list"

definition visit_rule :: "nat \<Rightarrow> prs_footprint \<Rightarrow> expr_alloc_flags \<Rightarrow> time_type \<Rightarrow> nat \<Rightarrow> footprint_rule \<Rightarrow> expr_alloc \<Rightarrow> expr_alloc option" where
  "visit_rule k pf flags dflt ri r s = do {
     s1 \<leftarrow> apply_attributes flags (fr_attributes r) (s\<lparr>temp_rule := Some (set_direction (fr_dir r) (Rule_new dflt))\<rparr>);
     if suppress_keeper_rule s1 then Some (s1\<lparr>suppress_keeper_rule := False, temp_rule := temp_rule s\<rparr>)
     else do {
       INVARIANT (fr_expr_index r \<le> length (pf_expr_pool pf));
       sup \<leftarrow> lookup_supply sup_rules_first pf ri;
       s2 \<leftarrow> visit_expr k pf flags (fr_expr_index r)
         (s1\<lparr>power_supply := lookup_local_bool_id (if fr_dir r then sup_Vdd sup else sup_GND sup),
             at_source := (if fr_dir r then dynamic_power_supply flags else dynamic_ground_supply flags)\<rparr>);
       s3 \<leftarrow> and_supply s2;
       rule \<leftarrow> temp_rule s3;
       s4 \<leftarrow> link_node_to_root_expr (lookup_local_bool_id (fr_output_index r)) (ret_ex_index s3) (fr_dir r) rule (rule_is_weak rule) s3;
       Some (s4\<lparr>temp_rule := temp_rule s, power_supply := power_supply s, at_source := at_source s\<rparr>) } }"

text \<open>The invariants of the footprint, numbered from 0, after the rules.\<close>

fun visit_invariants :: "nat \<Rightarrow> prs_footprint \<Rightarrow> expr_alloc_flags \<Rightarrow> time_type \<Rightarrow> nat \<Rightarrow> nat list \<Rightarrow> expr_alloc \<Rightarrow> expr_alloc option" where
  "visit_invariants k pf flags dflt j [] s = Some s"
| "visit_invariants k pf flags dflt j (i # is) s = do {
     s1 \<leftarrow> visit_expr k pf flags i s;
     s2 \<leftarrow> link_invariant_expr dflt (ret_ex_index s1) j s1;
     visit_invariants k pf flags dflt (j + 1) is s2 }"

text \<open>An atomic assignment is a pull-up rule.\<close>

definition visit_assignment :: "nat \<Rightarrow> footprint_expr_node list \<Rightarrow> time_type \<Rightarrow> nat \<times> nat \<Rightarrow> expr_alloc \<Rightarrow> expr_alloc option" where
  "visit_assignment k pool dflt r s = do {
     INVARIANT (\<not> suppress_keeper_rule s);
     INVARIANT (fst r \<le> length pool);
     s1 \<leftarrow> visit_rte_expr k pool (fst r) s;
     link_node_to_root_expr (lookup_local_bool_id (snd r)) (ret_ex_index s1) True (set_direction True (Rule_new dflt)) False s1 }"

text \<open>The macros \<^verbatim>\<open>passn\<close> and \<^verbatim>\<open>passp\<close>: a pass gate as a rule with delay 0.\<close>

definition pass_rule :: "bool \<Rightarrow> time_type \<Rightarrow> nat \<Rightarrow> nat \<Rightarrow> nat \<Rightarrow> expr_alloc \<Rightarrow> expr_alloc option" where
  "pass_rule dir dflt gate src drn s = do {
     (g, s1) \<leftarrow> allocate_new_literal_expr (lookup_local_bool_id gate) s;
     (sr, s2) \<leftarrow> allocate_new_literal_expr (lookup_local_bool_id src) s1;
     (n, s3) \<leftarrow> allocate_new_not_expr (if dir then g else sr) s2;
     (pe, s4) \<leftarrow> allocate_new_Nary_expr PRS_AND_EXPR_TYPE_ENUM 2 s3;
     s5 \<leftarrow> link_child_expr pe g 0 s4;
     s6 \<leftarrow> link_child_expr pe sr 1 s5;
     s7 \<leftarrow> link_node_to_root_expr (lookup_local_bool_id drn) pe dir (Rule_new dflt) False s6;
     ri \<leftarrow> rule_map (ea_g s7) pe;
     r \<leftarrow> nth_opt (rule_pool (ea_g s7)) ri;
     Some (s7\<lparr>ea_g := (ea_g s7)\<lparr>rule_pool := (rule_pool (ea_g s7))[ri := set_delay 0 r]\<rparr>\<rparr>) }"

definition PassN :: "time_type \<Rightarrow> nat \<Rightarrow> nat \<Rightarrow> nat \<Rightarrow> expr_alloc \<Rightarrow> expr_alloc option" where
  "PassN = pass_rule False"

definition PassP :: "time_type \<Rightarrow> nat \<Rightarrow> nat \<Rightarrow> nat \<Rightarrow> expr_alloc \<Rightarrow> expr_alloc option" where
  "PassP = pass_rule True"

subsection \<open>Compaction\<close>

text \<open>
  Expressions beyond the final size move into free slots below it, smallest slot first. \<^verbatim>\<open>invariant_map\<close> is not
  adjusted.
\<close>

definition relink_parent :: "expr_index_type \<Rightarrow> expr_index_type \<Rightarrow> expr \<Rightarrow> expr_graph_node \<Rightarrow> unique_process_subgraph \<Rightarrow> unique_process_subgraph option" where
  "relink_parent i n e gn g =
     (if is_root e then do {
        r \<leftarrow> subgraph_rule g n;
        r \<leftarrow> r;
        mod_faninout (expr_parent e) (\<lambda>f. set_pull_expr (direction r) (rule_is_weak r)
          (map (\<lambda>x. if x = i then n else x) (get_pull_expr (direction r) (rule_is_weak r) f)) f) g }
      else do {
        pg \<leftarrow> nth_opt (expr_graph_node_pool g) (expr_parent e);
        INVARIANT (unat (offset gn) < length (children pg));
        mod_graph_node (expr_parent e) (\<lambda>p. p\<lparr>children := (children p)[unat (offset gn) := (False, n)]\<rparr>) g })"

definition relink_child :: "expr_index_type \<Rightarrow> expr_index_type \<Rightarrow> nat \<Rightarrow> unique_process_subgraph \<Rightarrow> unique_process_subgraph option" where
  "relink_child i n j g = do {
     gn \<leftarrow> nth_opt (expr_graph_node_pool g) n;
     (leaf, c) \<leftarrow> nth_opt (children gn) j;
     if leaf then mod_faninout c (\<lambda>f. f\<lparr>fio_fanout := map (\<lambda>x. if x = i then n else x) (fio_fanout f)\<rparr>) g
     else mod_expr c (\<lambda>e. e\<lparr>expr_parent := n\<rparr>) g }"

definition move_expr :: "expr_index_type \<Rightarrow> expr_index_type \<Rightarrow> unique_process_subgraph \<Rightarrow> unique_process_subgraph option" where
  "move_expr i n g = do {
     let g1 = (case rule_map g i of
         Some ri \<Rightarrow> g\<lparr>rule_map := (rule_map g)(n \<mapsto> ri, i := None)\<rparr>
       | None \<Rightarrow> g);
     e0 \<leftarrow> nth_opt (expr_pool g1) n;
     gn0 \<leftarrow> nth_opt (expr_graph_node_pool g1) n;
     INVARIANT (expr_wiped e0);
     INVARIANT (graph_wiped gn0);
     e \<leftarrow> nth_opt (expr_pool g1) i;
     gn \<leftarrow> nth_opt (expr_graph_node_pool g1) i;
     let g2 = g1\<lparr>expr_pool := (expr_pool g1)[n := e], expr_graph_node_pool := (expr_graph_node_pool g1)[n := gn]\<rparr>;
     g3 \<leftarrow> relink_parent i n e gn g2;
     INVARIANT (unat (expr_size e) = length (children gn));
     fold_loop (relink_child i n) [0..<unat (expr_size e)] g3 }"

fun move_all :: "nat list \<Rightarrow> nat list \<Rightarrow> unique_process_subgraph \<Rightarrow> (nat list \<times> unique_process_subgraph) option" where
  "move_all [] free g = Some (free, g)"
| "move_all (i # is) free g =
     (case free of
        [] \<Rightarrow> None
      | n # free' \<Rightarrow> do { g1 \<leftarrow> move_expr i n g; move_all is free' g1 })"

definition compact_expr_pools :: "expr_alloc \<Rightarrow> expr_alloc option" where
  "compact_expr_pools s = do {
     let g = ea_g s;
     let eps = length (expr_pool g);
     let move_end = eps - length (expr_free_list s);
     let free_set = fold set_insert (filter (\<lambda>i. i < move_end) (expr_free_list s)) [];
     let discard_set = set (filter (\<lambda>i. \<not> i < move_end) (expr_free_list s));
     (free, g1) \<leftarrow> move_all (filter (\<lambda>i. i \<notin> discard_set) [move_end..<eps]) free_set g;
     INVARIANT (free = []);
     Some (s\<lparr>expr_free_list := [],
            ea_g := g1\<lparr>expr_pool := take move_end (expr_pool g1), expr_graph_node_pool := take move_end (expr_graph_node_pool g1)\<rparr>\<rparr>) }"

section \<open>A process type\<close>

text \<open>
  What \<^verbatim>\<open>auto_create_unique_process_graph\<close> does for a new type, up to directives: rules, macros and invariants of the
  footprint, then atomic assignments, then compaction.
\<close>

record process_type =
  pt_prs :: prs_footprint
  pt_rules :: "footprint_rule list"
  pt_passgates :: "(bool \<times> nat \<times> nat \<times> nat) list"
  pt_invariants :: "nat list"
  pt_rte_pool :: "footprint_expr_node list"
  pt_assignments :: "(nat \<times> nat) list"
  pt_atomic :: "bool list"

fun visit_rules :: "nat \<Rightarrow> prs_footprint \<Rightarrow> expr_alloc_flags \<Rightarrow> time_type \<Rightarrow> nat \<Rightarrow> footprint_rule list \<Rightarrow> expr_alloc \<Rightarrow> expr_alloc option" where
  "visit_rules k pf flags dflt ri [] s = Some s"
| "visit_rules k pf flags dflt ri (r # rs) s = do {
     s1 \<leftarrow> visit_rule k pf flags dflt ri r s;
     visit_rules k pf flags dflt (ri + 1) rs s1 }"

fun visit_passgates :: "time_type \<Rightarrow> (bool \<times> nat \<times> nat \<times> nat) list \<Rightarrow> expr_alloc \<Rightarrow> expr_alloc option" where
  "visit_passgates dflt [] s = Some s"
| "visit_passgates dflt ((dir, g, sr, d) # ms) s = do {
     s1 \<leftarrow> (if dir then PassP dflt g sr d s else PassN dflt g sr d s);
     visit_passgates dflt ms s1 }"

fun visit_assignments :: "nat \<Rightarrow> footprint_expr_node list \<Rightarrow> time_type \<Rightarrow> (nat \<times> nat) list \<Rightarrow> expr_alloc \<Rightarrow> expr_alloc option" where
  "visit_assignments k pool dflt [] s = Some s"
| "visit_assignments k pool dflt (r # rs) s = do {
     s1 \<leftarrow> visit_assignment k pool dflt r s;
     visit_assignments k pool dflt rs s1 }"

definition visit_rules_and_directives :: "nat \<Rightarrow> expr_alloc_flags \<Rightarrow> time_type \<Rightarrow> process_type \<Rightarrow> expr_alloc \<Rightarrow> expr_alloc option" where
  "visit_rules_and_directives k flags dflt t s = do {
     s1 \<leftarrow> visit_rules k (pt_prs t) flags dflt 0 (pt_rules t) s;
     s2 \<leftarrow> visit_passgates dflt (pt_passgates t) s1;
     s3 \<leftarrow> visit_invariants k (pt_prs t) flags dflt 0 (pt_invariants t) s2;
     visit_assignments k (pt_rte_pool t) dflt (pt_assignments t) s3 }"

definition create_unique_process_graph :: "nat \<Rightarrow> expr_alloc_flags \<Rightarrow> time_type \<Rightarrow> process_type \<Rightarrow> expr_alloc \<Rightarrow> expr_alloc option" where
  "create_unique_process_graph k flags dflt t s = do {
     let g = subgraph_new\<lparr>local_faninout_map := map (\<lambda>a. faninout_new\<lparr>fio_is_atomic := a\<rparr>) (pt_atomic t)\<rparr>;
     s1 \<leftarrow> visit_rules_and_directives k flags dflt t (s\<lparr>ea_g := g\<rparr>);
     if any_optimize flags \<and> expr_free_list s1 \<noteq> [] then compact_expr_pools s1 else Some s1 }"

section \<open>A process instance\<close>

definition allocate_from_type :: "unique_process_subgraph \<Rightarrow> nat \<Rightarrow> expr_index_type \<Rightarrow> process_sim_state" where
  "allocate_from_type t tid ex_off =
     \<lparr>ps_type = tid, global_expr_offset = ex_off, expr_states = replicate (length (expr_pool t)) \<lparr>countdown = 0, unknowns = 0\<rparr>\<rparr>"

definition connect_node :: "unique_process_subgraph \<Rightarrow> process_index_type \<Rightarrow> nat \<Rightarrow> node_index_type list \<Rightarrow> nat \<Rightarrow> prsim_state \<Rightarrow> prsim_state option" where
  "connect_node t pid pso bmap lni s = do {
     gni \<leftarrow> nth_opt bmap lni;
     ff \<leftarrow> nth_opt (local_faninout_map t) lni;
     n \<leftarrow> get_node s gni;
     let n1 = n\<lparr>fanout := fanout n @ map (\<lambda>x. x + pso) (fio_fanout ff)\<rparr>;
     let n2 = (if has_fanin ff then
         count_fanins (length (fio_up_normal ff)) (length (fio_dn_normal ff)) (length (fio_up_weak ff)) (length (fio_dn_weak ff))
           (n1\<lparr>fanin := fanin n1 @ [pid]\<rparr>)
       else n1);
     Some (put_node s gni n2) }"

text \<open>Every process appends the entry of the process that follows it, or takes over the last entry if it is empty.\<close>

definition update_expr_maps :: "unique_process_subgraph \<Rightarrow> nat \<Rightarrow> node_index_type list \<Rightarrow> nat \<Rightarrow> process_index_type \<Rightarrow> prsim_state \<Rightarrow> prsim_state option" where
  "update_expr_maps t node_pool_size bmap pso pid s = do {
     let m = global_expr_process_id_map s;
     INVARIANT (m \<noteq> []);
     if expr_pool t \<noteq> [] then
       fold_loop (connect_node t pid pso bmap) [0..<node_pool_size]
         (s\<lparr>global_expr_process_id_map := m @ [(fst (last m) + length (expr_pool t), pid + 1)]\<rparr>)
     else Some (s\<lparr>global_expr_process_id_map := butlast m @ [(fst (last m), pid + 1)]\<rparr>) }"

definition allocate_process :: "unique_process_subgraph list \<Rightarrow> nat \<times> node_index_type list \<Rightarrow> nat \<times> nat \<times> prsim_state \<Rightarrow> (nat \<times> nat \<times> prsim_state) option" where
  "allocate_process types x acc = (case (x, acc) of ((tid, bmap), (pid, total_exprs, s)) \<Rightarrow> do {
     t \<leftarrow> nth_opt types tid;
     let ps = allocate_from_type t tid total_exprs;
     psa \<leftarrow> upd_opt (process_state_array s) pid ps;
     s1 \<leftarrow> update_expr_maps t (length (local_faninout_map t)) bmap (global_expr_offset ps) pid (s\<lparr>process_state_array := psa\<rparr>);
     Some (pid + 1, total_exprs + length (expr_pool t), s1) })"

fun allocate_processes :: "unique_process_subgraph list \<Rightarrow> (nat \<times> node_index_type list) list \<Rightarrow> nat \<times> nat \<times> prsim_state \<Rightarrow> (nat \<times> nat \<times> prsim_state) option" where
  "allocate_processes types [] acc = Some acc"
| "allocate_processes types (x # xs) acc = do { a \<leftarrow> allocate_process types x acc; allocate_processes types xs a }"

end
