(* ===== verification/Timing_Check.thy ===== *)
theory Timing_Check
  imports Expr_Alloc Prs_Step
begin

text \<open>
  Setup and hold checks (src/sim/prsim/TimingChecker.hh and .cc, the directives \<^verbatim>\<open>setup_pos\<close>, \<^verbatim>\<open>setup_neg\<close>, \<^verbatim>\<open>hold_pos\<close>,
  \<^verbatim>\<open>hold_neg\<close> of ExprAlloc.cc, the constraint tables of process_graph.hh). The sources have two implementations, chosen by
  \<^verbatim>\<open>PRSIM_FWD_POST_TIMING_CHECKS\<close>: with 0, the value it has, a trigger looks back at the last edge of its reference
  nodes; with 1, each edge of a reference node posts checks that expire. Both are modelled, the second one with names
  that start with \<open>fwd\<close> where the types differ.
\<close>

section \<open>Constraints of a process type\<close>

record setup_constraint_entry =
  se_ref_node :: node_index_type
  se_time :: time_type

record hold_constraint_entry =
  he_ref_node :: node_index_type
  he_time :: time_type
  he_dir :: bool

record timing_constraints =
  setup_constraints :: "node_index_type \<times> bool \<rightharpoonup> setup_constraint_entry list"
  hold_constraints :: "node_index_type \<rightharpoonup> hold_constraint_entry list"

definition push_entry :: "'k \<Rightarrow> 'e \<Rightarrow> ('k \<rightharpoonup> 'e list) \<Rightarrow> 'k \<rightharpoonup> 'e list" where
  "push_entry k e m = m(k \<mapsto> (case m k of None \<Rightarrow> [e] | Some es \<Rightarrow> es @ [e]))"

section \<open>class TimingChecker\<close>

record timing_exception =
  tex_node_id :: node_index_type
  tex_policy :: error_policy_enum
  tvalue :: value_enum
  reference :: node_index_type
  tex_dir :: bool
  is_setup :: bool
  tex_pid :: process_index_type
  min_delay :: time_type

text \<open>The maps from nodes to processes to sets of local nodes, each with its keys in ascending order.\<close>

type_synonym check_map = "node_index_type \<rightharpoonup> (process_index_type \<times> node_index_type list) list"

record timing_checker =
  setup_violation_policy :: error_policy_enum
  hold_violation_policy :: error_policy_enum
  setup_check_map :: check_map
  hold_check_map :: check_map

abbreviation ERROR_DEFAULT_SETUP_VIOLATION :: error_policy_enum where "ERROR_DEFAULT_SETUP_VIOLATION \<equiv> ERROR_WARN"
abbreviation ERROR_DEFAULT_HOLD_VIOLATION :: error_policy_enum where "ERROR_DEFAULT_HOLD_VIOLATION \<equiv> ERROR_BREAK"

definition timing_checker_new :: timing_checker where
  "timing_checker_new = \<lparr>setup_violation_policy = ERROR_DEFAULT_SETUP_VIOLATION, hold_violation_policy = ERROR_DEFAULT_HOLD_VIOLATION,
     setup_check_map = Map.empty, hold_check_map = Map.empty\<rparr>"

definition timing_checker_reset :: "'a timing_checker_scheme \<Rightarrow> 'a timing_checker_scheme" where
  "timing_checker_reset tc = tc\<lparr>setup_violation_policy := ERROR_DEFAULT_SETUP_VIOLATION, hold_violation_policy := ERROR_DEFAULT_HOLD_VIOLATION\<rparr>"

definition timing_checker_set_mode_fatal :: "'a timing_checker_scheme \<Rightarrow> 'a timing_checker_scheme" where
  "timing_checker_set_mode_fatal tc = tc\<lparr>setup_violation_policy := ERROR_FATAL, hold_violation_policy := ERROR_FATAL\<rparr>"

definition timing_checker_save_checkpoint :: "'a timing_checker_scheme \<Rightarrow> error_policy_enum \<times> error_policy_enum" where
  "timing_checker_save_checkpoint tc = (setup_violation_policy tc, hold_violation_policy tc)"

definition timing_checker_load_checkpoint :: "error_policy_enum \<times> error_policy_enum \<Rightarrow> 'a timing_checker_scheme \<Rightarrow> 'a timing_checker_scheme" where
  "timing_checker_load_checkpoint c tc = tc\<lparr>setup_violation_policy := fst c, hold_violation_policy := snd c\<rparr>"

fun insert_local :: "process_index_type \<Rightarrow> node_index_type \<Rightarrow> (process_index_type \<times> node_index_type list) list
    \<Rightarrow> (process_index_type \<times> node_index_type list) list" where
  "insert_local p l [] = [(p, [l])]"
| "insert_local p l ((q, ls) # m) =
     (if p < q then (p, [l]) # (q, ls) # m else if p = q then (q, set_insert l ls) # m else (q, ls) # insert_local p l m)"

definition register_check :: "node_index_type \<Rightarrow> process_index_type \<Rightarrow> node_index_type \<Rightarrow> check_map \<Rightarrow> check_map" where
  "register_check g p l m = m(g \<mapsto> insert_local p l (case m g of None \<Rightarrow> [] | Some ps \<Rightarrow> ps))"

definition register_setup_check ::
  "node_index_type \<Rightarrow> process_index_type \<Rightarrow> node_index_type \<Rightarrow> 'a timing_checker_scheme \<Rightarrow> 'a timing_checker_scheme" where
  "register_setup_check g p l tc = tc\<lparr>setup_check_map := register_check g p l (setup_check_map tc)\<rparr>"

definition register_hold_check ::
  "node_index_type \<Rightarrow> process_index_type \<Rightarrow> node_index_type \<Rightarrow> 'a timing_checker_scheme \<Rightarrow> 'a timing_checker_scheme" where
  "register_hold_check g p l tc = tc\<lparr>hold_check_map := register_check g p l (hold_check_map tc)\<rparr>"

text \<open>\<^verbatim>\<open>State::handle_timing_exception\<close>; a warning is only printed.\<close>

definition handle_timing_exception :: "timing_exception \<Rightarrow> prsim_state \<Rightarrow> prsim_state" where
  "handle_timing_exception tex s = handle_policy (tex_policy tex) (generic_exception (tex_node_id tex) (tex_policy tex)) s"

subsection \<open>Looking back\<close>

definition collect :: "('a \<Rightarrow> 'b list option) \<Rightarrow> 'a list \<Rightarrow> 'b list option" where
  "collect f xs = map_option concat (those (map f xs))"

definition rise_fall :: "value_enum \<Rightarrow> bool \<Rightarrow> bool" where
  "rise_fall nv dir \<longleftrightarrow> (if dir then nv \<noteq> LOGIC_LOW else nv \<noteq> LOGIC_HIGH)"

abbreviation entries :: "('k \<rightharpoonup> 'e list) \<Rightarrow> 'k \<Rightarrow> 'e list" where
  "entries m k \<equiv> (case m k of None \<Rightarrow> [] | Some es \<Rightarrow> es)"

definition setup_violation :: "sim_env \<Rightarrow> 'a timing_checker_scheme \<Rightarrow> prsim_state \<Rightarrow> node_index_type \<Rightarrow> value_enum \<Rightarrow> process_index_type
    \<Rightarrow> bool \<Rightarrow> setup_constraint_entry \<Rightarrow> timing_exception list option" where
  "setup_violation env tc s ni nv pid dir si = do {
     gri \<leftarrow> translate_to_global_node env s pid (se_ref_node si);
     r \<leftarrow> get_node s gri;
     let rt = get_last_transition_time r;
     let d = current_time s - rt;
     Some (if rt \<ge> 0 \<and> d < se_time si \<and> setup_violation_policy tc > ERROR_IGNORE
       then [\<lparr>tex_node_id = ni, tex_policy = setup_violation_policy tc, tvalue = nv, reference = gri, tex_dir = dir, is_setup = True,
              tex_pid = pid, min_delay = se_time si\<rparr>]
       else []) }"

definition process_constraints :: "timing_constraints list \<Rightarrow> prsim_state \<Rightarrow> process_index_type \<Rightarrow> timing_constraints option" where
  "process_constraints tabs s pid = do { ps \<leftarrow> nth_opt (process_state_array s) pid; nth_opt tabs (ps_type ps) }"

definition setup_violations :: "sim_env \<Rightarrow> timing_constraints list \<Rightarrow> 'a timing_checker_scheme \<Rightarrow> prsim_state \<Rightarrow> node_index_type
    \<Rightarrow> value_enum \<Rightarrow> timing_exception list option" where
  "setup_violations env tabs tc s ni nv =
     collect (\<lambda>(pid, ls). do {
       pg \<leftarrow> process_constraints tabs s pid;
       collect (\<lambda>lni. collect (\<lambda>dir.
           collect (setup_violation env tc s ni nv pid dir) (entries (setup_constraints pg) (lni, dir)))
         (filter (rise_fall nv) [False, True])) ls })
     (entries (setup_check_map tc) ni)"

text \<open>Handling a violation changes nothing that the checks read.\<close>

definition do_setup_check :: "sim_env \<Rightarrow> timing_constraints list \<Rightarrow> 'a timing_checker_scheme \<Rightarrow> node_index_type \<Rightarrow> value_enum
    \<Rightarrow> prsim_state \<Rightarrow> prsim_state option" where
  "do_setup_check env tabs tc ni nv s = map_option (\<lambda>xs. fold handle_timing_exception xs s) (setup_violations env tabs tc s ni nv)"

definition hold_violation :: "sim_env \<Rightarrow> 'a timing_checker_scheme \<Rightarrow> prsim_state \<Rightarrow> node_index_type \<Rightarrow> value_enum \<Rightarrow> process_index_type
    \<Rightarrow> hold_constraint_entry \<Rightarrow> timing_exception list option" where
  "hold_violation env tc s ni nv pid si = do {
     gri \<leftarrow> translate_to_global_node env s pid (he_ref_node si);
     r \<leftarrow> get_node s gri;
     let rt = last_edge_time r (if he_dir si then LOGIC_HIGH else LOGIC_LOW);
     let d = current_time s - rt;
     Some (if rt \<ge> 0 \<and> d < he_time si \<and> hold_violation_policy tc > ERROR_IGNORE
       then [\<lparr>tex_node_id = ni, tex_policy = hold_violation_policy tc, tvalue = nv, reference = gri, tex_dir = he_dir si, is_setup = False,
              tex_pid = pid, min_delay = he_time si\<rparr>]
       else []) }"

definition hold_violations :: "sim_env \<Rightarrow> timing_constraints list \<Rightarrow> 'a timing_checker_scheme \<Rightarrow> prsim_state \<Rightarrow> node_index_type
    \<Rightarrow> value_enum \<Rightarrow> timing_exception list option" where
  "hold_violations env tabs tc s ni nv =
     collect (\<lambda>(pid, ls). do {
       pg \<leftarrow> process_constraints tabs s pid;
       collect (\<lambda>lni. collect (hold_violation env tc s ni nv pid) (entries (hold_constraints pg) lni)) ls })
     (entries (hold_check_map tc) ni)"

definition do_hold_check :: "sim_env \<Rightarrow> timing_constraints list \<Rightarrow> 'a timing_checker_scheme \<Rightarrow> node_index_type \<Rightarrow> value_enum
    \<Rightarrow> prsim_state \<Rightarrow> prsim_state option" where
  "do_hold_check env tabs tc ni nv s = map_option (\<lambda>xs. fold handle_timing_exception xs s) (hold_violations env tabs tc s ni nv)"

subsection \<open>Posting forward\<close>

record fwd_hold_entry =
  fh_trig_node :: node_index_type
  fh_time :: time_type

record fwd_setup_entry = fwd_hold_entry +
  fs_dir :: bool

record fwd_constraints =
  fwd_setup_constraints :: "node_index_type \<rightharpoonup> fwd_setup_entry list"
  fwd_hold_constraints :: "node_index_type \<times> bool \<rightharpoonup> fwd_hold_entry list"

text \<open>The pool of posted checks is an \<^verbatim>\<open>array_pool\<close> whose free list is a vector, used as a stack.\<close>

definition stack_allocate :: "'a array_pool \<Rightarrow> 'a \<Rightarrow> (nat \<times> 'a array_pool) option" where
  "stack_allocate p e =
     (if free_indices p = [] then do {
        INVARIANT (pool_size p \<noteq> 0);
        Some (pool_size p, p\<lparr>index_pool := index_pool p @ [e]\<rparr>) }
      else do {
        let ret = last (free_indices p);
        xs \<leftarrow> upd_opt (index_pool p) ret e;
        INVARIANT (ret \<noteq> 0);
        Some (ret, p\<lparr>index_pool := xs, free_indices := butlast (free_indices p)\<rparr>) })"

definition stack_deallocate :: "'a array_pool \<Rightarrow> nat \<Rightarrow> 'a array_pool option" where
  "stack_deallocate p i = do {
     INVARIANT (i \<noteq> 0);
     Some (p\<lparr>free_indices := free_indices p @ [i]\<rparr>) }"

record fwd_checker = timing_checker +
  timing_check_pool :: "timing_exception array_pool"
  timing_check_queue :: "(time_type \<times> nat \<times> node_index_type) list"
  active_timing_check_map :: "node_index_type \<rightharpoonup> nat list"

definition fwd_checker_new :: "timing_exception \<Rightarrow> fwd_checker" where
  "fwd_checker_new dflt = timing_checker.extend timing_checker_new
     \<lparr>timing_check_pool = array_pool_new dflt, timing_check_queue = [], active_timing_check_map = Map.empty\<rparr>"

text \<open>\<^verbatim>\<open>multimap::insert\<close> puts an entry behind those of an equal time.\<close>

fun queue_insert :: "time_type \<times> 'a \<Rightarrow> (time_type \<times> 'a) list \<Rightarrow> (time_type \<times> 'a) list" where
  "queue_insert x [] = [x]"
| "queue_insert x (y # ys) = (if fst x < fst y then x # y # ys else y # queue_insert x ys)"

definition register_timing_check :: "timing_exception \<Rightarrow> time_type \<Rightarrow> fwd_checker \<Rightarrow> fwd_checker option" where
  "register_timing_check tex ft fc = do {
     let gti = tex_node_id tex;
     (ti, p) \<leftarrow> stack_allocate (timing_check_pool fc) tex;
     Some (fc\<lparr>timing_check_pool := p,
             active_timing_check_map := (active_timing_check_map fc)(gti \<mapsto> set_insert ti (entries (active_timing_check_map fc) gti)),
             timing_check_queue := queue_insert (ft, ti, gti) (timing_check_queue fc)\<rparr>) }"

definition fwd_process_constraints :: "fwd_constraints list \<Rightarrow> prsim_state \<Rightarrow> process_index_type \<Rightarrow> fwd_constraints option" where
  "fwd_process_constraints tabs s pid = do { ps \<leftarrow> nth_opt (process_state_array s) pid; nth_opt tabs (ps_type ps) }"

definition post_setup_entry :: "sim_env \<Rightarrow> prsim_state \<Rightarrow> node_index_type \<Rightarrow> process_index_type \<Rightarrow> fwd_setup_entry
    \<Rightarrow> fwd_checker \<Rightarrow> fwd_checker option" where
  "post_setup_entry env s ni pid si fc = do {
     gti \<leftarrow> translate_to_global_node env s pid (fh_trig_node si);
     let ft = current_time s + fh_time si;
     register_timing_check \<lparr>tex_node_id = gti, tex_policy = setup_violation_policy fc, tvalue = LOGIC_OTHER, reference = ni,
       tex_dir = fs_dir si, is_setup = True, tex_pid = pid, min_delay = fh_time si\<rparr> ft fc }"

definition post_setup_check :: "sim_env \<Rightarrow> fwd_constraints list \<Rightarrow> prsim_state \<Rightarrow> node_index_type \<Rightarrow> value_enum
    \<Rightarrow> fwd_checker \<Rightarrow> fwd_checker option" where
  "post_setup_check env tabs s ni nv fc =
     fold_loop (\<lambda>(pid, ls) fc. do {
       pg \<leftarrow> fwd_process_constraints tabs s pid;
       fold_loop (\<lambda>lni. fold_loop (post_setup_entry env s ni pid) (entries (fwd_setup_constraints pg) lni)) ls fc })
     (entries (setup_check_map fc) ni) fc"

definition post_hold_entry :: "sim_env \<Rightarrow> prsim_state \<Rightarrow> node_index_type \<Rightarrow> process_index_type \<Rightarrow> bool \<Rightarrow> fwd_hold_entry
    \<Rightarrow> fwd_checker \<Rightarrow> fwd_checker option" where
  "post_hold_entry env s ni pid dir si fc = do {
     gti \<leftarrow> translate_to_global_node env s pid (fh_trig_node si);
     let ft = current_time s + fh_time si;
     register_timing_check \<lparr>tex_node_id = gti, tex_policy = hold_violation_policy fc, tvalue = LOGIC_OTHER, reference = ni,
       tex_dir = dir, is_setup = False, tex_pid = pid, min_delay = fh_time si\<rparr> ft fc }"

definition post_hold_check :: "sim_env \<Rightarrow> fwd_constraints list \<Rightarrow> prsim_state \<Rightarrow> node_index_type \<Rightarrow> value_enum
    \<Rightarrow> fwd_checker \<Rightarrow> fwd_checker option" where
  "post_hold_check env tabs s ni nv fc =
     fold_loop (\<lambda>(pid, ls) fc. do {
       pg \<leftarrow> fwd_process_constraints tabs s pid;
       fold_loop (\<lambda>lni. fold_loop (\<lambda>dir. fold_loop (post_hold_entry env s ni pid dir) (entries (fwd_hold_constraints pg) (lni, dir)))
         (filter (rise_fall nv) [False, True])) ls fc })
     (entries (hold_check_map fc) ni) fc"

definition expire_entry :: "time_type \<times> nat \<times> node_index_type \<Rightarrow> fwd_checker \<Rightarrow> fwd_checker option" where
  "expire_entry x fc = (case x of (ft, tci, tni) \<Rightarrow> do {
     p \<leftarrow> stack_deallocate (timing_check_pool fc) tci;
     Some (fc\<lparr>active_timing_check_map := (active_timing_check_map fc)(tni \<mapsto> filter (\<lambda>i. i \<noteq> tci) (entries (active_timing_check_map fc) tni)),
             timing_check_pool := p, timing_check_queue := tl (timing_check_queue fc)\<rparr>) })"

definition expire_timing_checks :: "time_type \<Rightarrow> fwd_checker \<Rightarrow> fwd_checker option" where
  "expire_timing_checks now fc = fold_loop expire_entry (takeWhile (\<lambda>x. fst x \<le> now) (timing_check_queue fc)) fc"

definition destroy_timing_checks :: "fwd_checker \<Rightarrow> fwd_checker option" where
  "destroy_timing_checks fc = fold_loop expire_entry (timing_check_queue fc) fc"

definition active_violations :: "fwd_checker \<Rightarrow> node_index_type \<Rightarrow> value_enum \<Rightarrow> timing_exception list option" where
  "active_violations fc tni nv =
     collect (\<lambda>ti. do {
       tex \<leftarrow> pool_get (timing_check_pool fc) ti;
       let x = tex\<lparr>tvalue := nv\<rparr>;
       Some (if is_setup x then (if (if tex_dir x then nv \<noteq> LOGIC_LOW else nv \<noteq> LOGIC_HIGH) then [x] else []) else [x]) })
     (entries (active_timing_check_map fc) tni)"

definition check_active_timing_constraints :: "fwd_checker \<Rightarrow> node_index_type \<Rightarrow> value_enum \<Rightarrow> prsim_state \<Rightarrow> prsim_state option" where
  "check_active_timing_constraints fc tni nv s = map_option (\<lambda>xs. fold handle_timing_exception xs s) (active_violations fc tni nv)"

text \<open>Checkpoints of the posted checks, with the stream as the list of records.\<close>

definition save_active_timing_checks :: "fwd_checker \<Rightarrow> (time_type \<times> timing_exception) list option" where
  "save_active_timing_checks fc = those (map (\<lambda>(ft, ti, _). map_option (Pair ft) (pool_get (timing_check_pool fc) ti)) (timing_check_queue fc))"

definition load_active_timing_checks :: "(time_type \<times> timing_exception) list \<Rightarrow> fwd_checker \<Rightarrow> fwd_checker option" where
  "load_active_timing_checks xs fc = fold_loop (\<lambda>(ft, tex). register_timing_check tex ft) xs fc"

section \<open>Directives\<close>

definition flag_setup_check :: "node_state \<Rightarrow> node_state" where
  "flag_setup_check n = n\<lparr>struct_flags := struct_flags n OR NODE_CHECK_SETUP\<rparr>"

definition flag_hold_check :: "node_state \<Rightarrow> node_state" where
  "flag_hold_check n = n\<lparr>struct_flags := struct_flags n OR NODE_CHECK_HOLD\<rparr>"

text \<open>What a directive may change, and the process instance it is visited for.\<close>

record timing_build =
  tb_tables :: "timing_constraints list"
  tb_checker :: timing_checker
  tb_nodes :: "node_state list"

record instance_context =
  ic_type :: nat
  ic_pid :: process_index_type
  ic_bmap :: "node_index_type list"

definition lookup_global_bool_id :: "instance_context \<Rightarrow> nat \<Rightarrow> node_index_type option" where
  "lookup_global_bool_id ic l1 = nth_opt (ic_bmap ic) (lookup_local_bool_id l1)"

definition add_global_setup_constraint :: "instance_context \<Rightarrow> nat \<Rightarrow> timing_build \<Rightarrow> timing_build option" where
  "add_global_setup_constraint ic l1 b = do {
     gt \<leftarrow> lookup_global_bool_id ic l1;
     n \<leftarrow> nth_opt (tb_nodes b) gt;
     Some (b\<lparr>tb_checker := register_setup_check gt (ic_pid ic) (lookup_local_bool_id l1) (tb_checker b),
             tb_nodes := (tb_nodes b)[gt := flag_setup_check n]\<rparr>) }"

definition add_global_hold_constraint :: "instance_context \<Rightarrow> nat \<Rightarrow> timing_build \<Rightarrow> timing_build option" where
  "add_global_hold_constraint ic l1 b = do {
     gt \<leftarrow> lookup_global_bool_id ic l1;
     n \<leftarrow> nth_opt (tb_nodes b) gt;
     Some (b\<lparr>tb_checker := register_hold_check gt (ic_pid ic) (lookup_local_bool_id l1) (tb_checker b),
             tb_nodes := (tb_nodes b)[gt := flag_hold_check n]\<rparr>) }"

datatype timing_directive = Setup bool nat nat int | Hold bool nat nat int

text \<open>\<^verbatim>\<open>__setup_main\<close> and \<^verbatim>\<open>__hold_main\<close>: direction, reference node, trigger node, time.\<close>

definition setup_main :: "bool \<Rightarrow> instance_context \<Rightarrow> bool \<Rightarrow> nat \<Rightarrow> nat \<Rightarrow> int \<Rightarrow> timing_build \<Rightarrow> timing_build option" where
  "setup_main unique_pass ic dir ref trig t b =
     (if \<not> unique_pass then do {
        tb \<leftarrow> nth_opt (tb_tables b) (ic_type ic);
        let c = \<lparr>se_ref_node = lookup_local_bool_id ref, se_time = of_int t\<rparr>;
        Some (b\<lparr>tb_tables := (tb_tables b)[ic_type ic := tb\<lparr>setup_constraints :=
          push_entry (lookup_local_bool_id trig, dir) c (setup_constraints tb)\<rparr>]\<rparr>) }
      else add_global_setup_constraint ic trig b)"

definition hold_main :: "bool \<Rightarrow> instance_context \<Rightarrow> bool \<Rightarrow> nat \<Rightarrow> nat \<Rightarrow> int \<Rightarrow> timing_build \<Rightarrow> timing_build option" where
  "hold_main unique_pass ic dir ref trig t b =
     (if \<not> unique_pass then do {
        tb \<leftarrow> nth_opt (tb_tables b) (ic_type ic);
        let c = \<lparr>he_ref_node = lookup_local_bool_id ref, he_time = of_int t, he_dir = dir\<rparr>;
        Some (b\<lparr>tb_tables := (tb_tables b)[ic_type ic := tb\<lparr>hold_constraints :=
          push_entry (lookup_local_bool_id trig) c (hold_constraints tb)\<rparr>]\<rparr>) }
      else add_global_hold_constraint ic trig b)"

fun directive_main :: "bool \<Rightarrow> instance_context \<Rightarrow> timing_directive \<Rightarrow> timing_build \<Rightarrow> timing_build option" where
  "directive_main unique_pass ic (Setup dir ref trig t) = setup_main unique_pass ic dir ref trig t"
| "directive_main unique_pass ic (Hold dir ref trig t) = hold_main unique_pass ic dir ref trig t"

text \<open>
  A process instance: its type is visited in the unique pass when it is new, then the directives are visited for the
  instance.
\<close>

definition visit_instance_directives :: "bool \<Rightarrow> instance_context \<Rightarrow> timing_directive list \<Rightarrow> timing_build \<Rightarrow> timing_build option" where
  "visit_instance_directives fresh ic ds b = do {
     b1 \<leftarrow> (if fresh then fold_loop (directive_main True ic) ds b else Some b);
     fold_loop (directive_main False ic) ds b1 }"

end
