(* ===== verification/Spec_Directives.thy ===== *)
theory Spec_Directives
  imports Timing_Check Excl_Ok
begin

text \<open>
  The specification directives of a process type that concern nodes (namespace \<^verbatim>\<open>prsim_spec_directives\<close> of
  ExprAlloc.cc, SPEC\_common.cc): rings of checked and forced exclusive nodes, and the check that nodes are not aliased.
  The directives for timing checks are in \<^verbatim>\<open>Timing_Check\<close>. A directive has groups of nodes as its arguments, in the
  numbering of the footprint, and acts when it is visited for an instance, not in the pass over the type.
\<close>

type_synonym node_groups = "nat list list"

datatype spec_directive = UnAliased node_groups | Assert | LVS_exclhi node_groups | LVS_excllo node_groups
  | SIM_force_exclhi node_groups | SIM_force_excllo node_groups | supply_x node_groups | RunModeStatic node_groups

text \<open>
  \<^verbatim>\<open>__resolve_unique_literal_group\<close>: the set of global nodes of a group; the loop of the ring directives does the same
  for the nodes of all groups, without the check that the index is valid.
\<close>

fun resolve_group :: "instance_context \<Rightarrow> nat list \<Rightarrow> node_index_type list \<Rightarrow> node_index_type list option" where
  "resolve_group ic [] d = Some d"
| "resolve_group ic (l # ls) d = do { ni \<leftarrow> lookup_global_bool_id ic l; INVARIANT (ni \<noteq> 0); resolve_group ic ls (set_insert ni d) }"

fun collect_ring :: "instance_context \<Rightarrow> nat list \<Rightarrow> node_index_type list \<Rightarrow> node_index_type list option" where
  "collect_ring ic [] d = Some d"
| "collect_ring ic (l # ls) d = do { ni \<leftarrow> lookup_global_bool_id ic l; collect_ring ic ls (set_insert ni d) }"

section \<open>unaliased\<close>

text \<open>
  The comment asks for nodes of different groups not to be the same. The code inserts the nodes of each later group
  into the set of the first group and gives up when an insertion \<^emph>\<open>succeeds\<close>.
\<close>

fun insert_all_known :: "node_index_type list \<Rightarrow> node_index_type list \<Rightarrow> bool" where
  "insert_all_known temp [] \<longleftrightarrow> True"
| "insert_all_known temp (ni # nis) \<longleftrightarrow> (if ni \<notin> set temp then False else insert_all_known temp nis)"

fun later_groups :: "node_index_type list \<Rightarrow> node_index_type list list \<Rightarrow> bool" where
  "later_groups temp [] \<longleftrightarrow> True"
| "later_groups temp (g # gs) \<longleftrightarrow> (if insert_all_known temp g then later_groups temp gs else False)"

definition unaliased_main :: "instance_context \<Rightarrow> node_groups \<Rightarrow> bool option" where
  "unaliased_main ic n = do {
     gs \<leftarrow> those (map (\<lambda>g. resolve_group ic g []) n);
     case gs of [] \<Rightarrow> None | g # gs \<Rightarrow> Some (later_groups g gs) }"

section \<open>Rings\<close>

text \<open>All nodes of all groups are one ring; rings of size one are ignored.\<close>

definition append_ring :: "(node_index_type list \<Rightarrow> prsim_state \<Rightarrow> prsim_state option) \<Rightarrow> instance_context \<Rightarrow> node_groups
    \<Rightarrow> prsim_state \<Rightarrow> prsim_state option" where
  "append_ring f ic n s = do {
     r \<leftarrow> collect_ring ic (concat n) [];
     if length r > 1 then f r s else Some s }"

definition spec_directive_main :: "bool \<Rightarrow> instance_context \<Rightarrow> spec_directive \<Rightarrow> prsim_state \<Rightarrow> prsim_state option" where
  "spec_directive_main unique_pass ic d s = (if unique_pass then Some s else (case d of
     UnAliased n \<Rightarrow> do { ok \<leftarrow> unaliased_main ic n; INVARIANT ok; Some s }
   | Assert \<Rightarrow> Some s
   | LVS_exclhi n \<Rightarrow> append_ring append_check_exclhi_ring ic n s
   | LVS_excllo n \<Rightarrow> append_ring append_check_excllo_ring ic n s
   | SIM_force_exclhi n \<Rightarrow> append_ring append_mk_exclhi_ring ic n s
   | SIM_force_excllo n \<Rightarrow> append_ring append_mk_excllo_ring ic n s
   | supply_x n \<Rightarrow> Some s
   | RunModeStatic n \<Rightarrow> Some s))"

section \<open>What the directives do\<close>

lemma collect_ring_spec:
  assumes "sorted_wrt (<) d" "\<forall>l \<in> set ls. lookup_global_bool_id ic l \<noteq> None"
  shows "\<exists>r. collect_ring ic ls d = Some r \<and> sorted_wrt (<) r \<and> set r = set d \<union> (\<lambda>l. the (lookup_global_bool_id ic l)) ` set ls"
  using assms
proof (induction ls arbitrary: d)
  case (Cons l ls)
  then obtain ni where ni: "lookup_global_bool_id ic l = Some ni" by auto
  have "sorted_wrt (<) (set_insert ni d)" using Cons.prems(1) by (induction d) auto
  from Cons.IH [OF this] Cons.prems(2) ni show ?case by (auto simp: set_set_insert)
qed simp

text \<open>With valid indices the checked loop is the same as the unchecked one.\<close>

definition resolves :: "instance_context \<Rightarrow> nat list \<Rightarrow> bool" where
  "resolves ic ls \<longleftrightarrow> (\<forall>l \<in> set ls. lookup_global_bool_id ic l \<notin> {None, Some 0})"

lemma resolve_group_collect: "resolves ic ls \<Longrightarrow> resolve_group ic ls d = collect_ring ic ls d"
  by (induction ls arbitrary: d) (auto simp: resolves_def)

lemma insert_all_known_iff: "insert_all_known temp g \<longleftrightarrow> set g \<subseteq> set temp"
  by (induction g) auto

lemma later_groups_iff: "later_groups temp gs \<longleftrightarrow> (\<forall>g \<in> set gs. set g \<subseteq> set temp)"
  by (induction gs) (auto simp: insert_all_known_iff)

text \<open>The global nodes that a group names.\<close>

definition named :: "instance_context \<Rightarrow> nat list \<Rightarrow> node_index_type set" where
  "named ic g = (\<lambda>l. the (lookup_global_bool_id ic l)) ` set g"

lemma collect_named:
  assumes "\<forall>l \<in> set g. lookup_global_bool_id ic l \<noteq> None"
  shows "\<exists>r. collect_ring ic g [] = Some r \<and> set r = named ic g \<and> distinct r"
  using collect_ring_spec [of "[]" g ic] assms by (auto simp: named_def strict_sorted_iff)

lemma resolve_named:
  assumes "resolves ic g"
  shows "\<exists>r. resolve_group ic g [] = Some r \<and> set r = named ic g"
  using collect_named [of g ic] resolve_group_collect [OF assms, of "[]"] assms by (auto simp: resolves_def)

lemma those_resolved:
  assumes "\<forall>g \<in> set n. resolves ic g"
  shows "\<exists>rs. those (map (\<lambda>g. resolve_group ic g []) n) = Some rs \<and> map set rs = map (named ic) n"
  using assms
proof (induction n)
  case (Cons g n)
  then obtain r rs where "resolve_group ic g [] = Some r" "set r = named ic g"
    "those (map (\<lambda>g. resolve_group ic g []) n) = Some rs" "map set rs = map (named ic) n"
    using resolve_named [of ic g] by auto
  then show ?case by simp
qed simp

lemma unaliased_directive_spec:
  assumes "\<forall>g' \<in> set (g # gs). resolves ic g'"
  shows "spec_directive_main False ic (UnAliased (g # gs)) s = (if \<forall>g' \<in> set gs. named ic g' \<subseteq> named ic g then Some s else None)"
proof -
  from those_resolved [OF assms] obtain r rs where
    r: "those (map (\<lambda>g. resolve_group ic g []) (g # gs)) = Some (r # rs)" "set r = named ic g" "map set rs = map (named ic) gs" by auto
  have "later_groups r rs \<longleftrightarrow> (\<forall>x \<in> set (map set rs). x \<subseteq> set r)" by (auto simp: later_groups_iff)
  then have "later_groups r rs \<longleftrightarrow> (\<forall>g' \<in> set gs. named ic g' \<subseteq> named ic g)" unfolding r(2,3) by auto
  with r(1) show ?thesis by (simp add: spec_directive_main_def unaliased_main_def del: list.map)
qed

lemma exclhi_directive_spec:
  assumes "rings_ok s" "\<forall>l \<in> set (concat n). lookup_global_bool_id ic l \<noteq> None" "named ic (concat n) \<subseteq> {..<length (node_pool s)}"
  shows "\<exists>s'. spec_directive_main False ic (LVS_exclhi n) s = Some s' \<and> rings_ok s' \<and>
    (\<forall>li ni. in_ring (check_exhi s') li ni \<longleftrightarrow> in_ring (check_exhi s) li ni \<or>
       1 < card (named ic (concat n)) \<and> li = length (check_exhi_ring_pool s) \<and> ni \<in> named ic (concat n))"
proof -
  from collect_named [OF assms(2)] obtain r where r: "collect_ring ic (concat n) [] = Some r" "set r = named ic (concat n)" "distinct r" by blast
  then have l: "length r = card (named ic (concat n))" by (metis distinct_card)
  show ?thesis
  proof (cases "length r > 1")
    case True
    from append_check_exclhi_ring_spec [OF assms(1) r(3), of "\<lambda>_. LOGIC_LOW"] assms(3) r(2) obtain s' where
      "append_check_exclhi_ring r s = Some s'" "rings_ok s'"
      "\<forall>li ni. in_ring (check_exhi s') li ni \<longleftrightarrow> in_ring (check_exhi s) li ni \<or> li = length (check_exhi_ring_pool s) \<and> ni \<in> set r" by auto
    with True r l show ?thesis by (simp add: spec_directive_main_def append_ring_def)
  next
    case False
    with r(1) l assms(1) show ?thesis by (auto simp: spec_directive_main_def append_ring_def)
  qed
qed

end
