(* ===== verification/Alloc_Tree.thy ===== *)
theory Alloc_Tree
  imports Expr_Alloc Eval_Ok
begin

text \<open>
  Process graphs as forests. An expression with everything below it represents a tree; while the allocator works, the
  graph is a list of disjoint trees and the free slots. The lemmas say which changes of the graph keep a tree and
  its value.
\<close>

section \<open>Trees\<close>

datatype etree = ETree (root_ix: nat) (kids: "ekid list")
  and ekid = Leaf nat | Sub etree

fun kid_entry :: "ekid \<Rightarrow> bool \<times> nat" where
  "kid_entry (Leaf n) = (True, n)"
| "kid_entry (Sub t) = (False, root_ix t)"

text \<open>All expressions of a tree, the root first; all occurrences of nodes, as pairs of node and expression.\<close>

fun ixs :: "etree \<Rightarrow> nat list" and kids_ixs :: "ekid list \<Rightarrow> nat list" where
  "ixs (ETree i ks) = i # kids_ixs ks"
| "kids_ixs [] = []"
| "kids_ixs (Leaf n # ks) = kids_ixs ks"
| "kids_ixs (Sub t # ks) = ixs t @ kids_ixs ks"

fun occs :: "etree \<Rightarrow> (nat \<times> nat) list" and kids_occs :: "nat \<Rightarrow> ekid list \<Rightarrow> (nat \<times> nat) list" where
  "occs (ETree i ks) = kids_occs i ks"
| "kids_occs i [] = []"
| "kids_occs i (Leaf n # ks) = (n, i) # kids_occs i ks"
| "kids_occs i (Sub t # ks) = occs t @ kids_occs i ks"

definition tree_closed :: "unique_process_subgraph \<Rightarrow> etree \<Rightarrow> bool" where
  "tree_closed g t \<longleftrightarrow> kids t \<noteq> [] \<and> unat (expr_size (expr_pool g ! root_ix t)) = length (kids t)"

definition linked :: "unique_process_subgraph \<Rightarrow> nat \<Rightarrow> nat \<Rightarrow> etree \<Rightarrow> bool" where
  "linked g i k t \<longleftrightarrow> expr_parent (expr_pool g ! root_ix t) = i \<and> \<not> is_root (expr_pool g ! root_ix t) \<and>
     offset (expr_graph_node_pool g ! root_ix t) = of_nat k"

text \<open>The number of children of the root is not compared with its size, which is set before the children are there.\<close>

fun rep :: "unique_process_subgraph \<Rightarrow> etree \<Rightarrow> bool" and rep_kids :: "unique_process_subgraph \<Rightarrow> nat \<Rightarrow> nat \<Rightarrow> ekid list \<Rightarrow> bool" where
  "rep g (ETree i ks) \<longleftrightarrow> i < length (expr_pool g) \<and> i < length (expr_graph_node_pool g) \<and>
     children (expr_graph_node_pool g ! i) = map kid_entry ks \<and> rep_kids g i 0 ks"
| "rep_kids g i k [] \<longleftrightarrow> True"
| "rep_kids g i k (Leaf n # ks) \<longleftrightarrow> rep_kids g i (Suc k) ks"
| "rep_kids g i k (Sub t # ks) \<longleftrightarrow> rep g t \<and> tree_closed g t \<and> linked g i k t \<and> rep_kids g i (Suc k) ks"

fun tree_val :: "unique_process_subgraph \<Rightarrow> (nat \<Rightarrow> pull_enum) \<Rightarrow> etree \<Rightarrow> pull_enum"
  and kids_val :: "unique_process_subgraph \<Rightarrow> (nat \<Rightarrow> pull_enum) \<Rightarrow> ekid list \<Rightarrow> pull_enum list" where
  "tree_val g val (ETree i ks) = kleene_expr (expr_pool g ! i) (kids_val g val ks)"
| "kids_val g val [] = []"
| "kids_val g val (Leaf n # ks) = val n # kids_val g val ks"
| "kids_val g val (Sub t # ks) = tree_val g val t # kids_val g val ks"

lemma ixs_Cons: "ixs t = root_ix t # kids_ixs (kids t)"
  by (cases t) simp

lemma root_in_ixs [simp]: "root_ix t \<in> set (ixs t)"
  by (simp add: ixs_Cons)

lemma kids_append [simp]:
  "kids_ixs (as @ bs) = kids_ixs as @ kids_ixs bs" "kids_occs i (as @ bs) = kids_occs i as @ kids_occs i bs"
  "kids_val g val (as @ bs) = kids_val g val as @ kids_val g val bs"
  "rep_kids g i k (as @ bs) \<longleftrightarrow> rep_kids g i k as \<and> rep_kids g i (k + length as) bs"
proof (induction as arbitrary: k)
  case (Cons x as)
  { case 1 from Cons show ?case by (cases x) simp_all }
  { case 2 from Cons show ?case by (cases x) simp_all }
  { case 3 from Cons show ?case by (cases x) simp_all }
  { case 4 from Cons show ?case by (cases x) simp_all }
qed simp_all

lemma length_kids_val [simp]: "length (kids_val g val ks) = length ks"
proof (induction ks)
  case (Cons x ks)
  then show ?case by (cases x) simp_all
qed simp

lemma rep_root: "rep g t \<Longrightarrow> root_ix t < length (expr_pool g) \<and> root_ix t < length (expr_graph_node_pool g) \<and>
    children (expr_graph_node_pool g ! root_ix t) = map kid_entry (kids t) \<and> rep_kids g (root_ix t) 0 (kids t)"
  by (cases t) simp

lemma rep_bounds:
  "rep g t \<Longrightarrow> \<forall>j \<in> set (ixs t). j < length (expr_pool g) \<and> j < length (expr_graph_node_pool g)"
  "rep_kids g i k ks \<Longrightarrow> \<forall>j \<in> set (kids_ixs ks). j < length (expr_pool g) \<and> j < length (expr_graph_node_pool g)"
  by (induction g t and g i k ks rule: rep_rep_kids.induct) auto

section \<open>Changes outside a tree\<close>

text \<open>Graphs that agree on a set of expressions.\<close>

definition eq_on :: "nat set \<Rightarrow> unique_process_subgraph \<Rightarrow> unique_process_subgraph \<Rightarrow> bool" where
  "eq_on S g g' \<longleftrightarrow> (\<forall>j \<in> S. j < length (expr_pool g') \<and> j < length (expr_graph_node_pool g') \<and>
     expr_pool g' ! j = expr_pool g ! j \<and> expr_graph_node_pool g' ! j = expr_graph_node_pool g ! j)"

lemma eq_on_mono: "eq_on S g g' \<Longrightarrow> T \<subseteq> S \<Longrightarrow> eq_on T g g'"
  by (auto simp: eq_on_def)

lemma eq_on_trans [trans]: "eq_on S g g' \<Longrightarrow> eq_on S g' g'' \<Longrightarrow> eq_on S g g''"
  by (simp add: eq_on_def)

lemma eq_on_Un: "eq_on (S \<union> T) g g' \<longleftrightarrow> eq_on S g g' \<and> eq_on T g g'"
  by (auto simp: eq_on_def)

lemma eq_on_props:
  assumes "eq_on S g g'" and "root_ix t \<in> S"
  shows "tree_closed g' t = tree_closed g t" "linked g' i k t = linked g i k t"
  using assms by (auto simp: eq_on_def tree_closed_def linked_def)

lemma rep_frame:
  "rep g t \<Longrightarrow> eq_on (set (ixs t)) g g' \<Longrightarrow> rep g' t \<and> tree_val g' val t = tree_val g val t"
  "rep_kids g i k ks \<Longrightarrow> eq_on (set (kids_ixs ks)) g g' \<Longrightarrow> rep_kids g' i k ks \<and> kids_val g' val ks = kids_val g val ks"
proof (induction g t and g i k ks rule: rep_rep_kids.induct)
  case (1 g i ks)
  then have "eq_on (set (kids_ixs ks)) g g'" by (auto elim: eq_on_mono)
  with 1 show ?case by (auto simp: eq_on_def)
next
  case (4 g i k t ks)
  then have "eq_on (set (ixs t)) g g'" "eq_on (set (kids_ixs ks)) g g'" by (auto elim: eq_on_mono)
  with 4 eq_on_props(1) [of "set (ixs t)" g g' t] eq_on_props(2) [of "set (ixs t)" g g' t i k] show ?case by auto
qed auto

text \<open>The root of a tree may change its place and its type.\<close>

lemma rep_change_root:
  assumes r: "rep g t" and e: "eq_on (set (kids_ixs (kids t))) g g'"
    and i: "root_ix t < length (expr_pool g')" "root_ix t < length (expr_graph_node_pool g')"
      "children (expr_graph_node_pool g' ! root_ix t) = children (expr_graph_node_pool g ! root_ix t)"
  shows "rep g' t" "kids_val g' val (kids t) = kids_val g val (kids t)"
    "tree_val g' val t = kleene_expr (expr_pool g' ! root_ix t) (kids_val g val (kids t))"
proof -
  obtain j ks where t: "t = ETree j ks" by (cases t)
  from r t have "rep_kids g j 0 ks" by simp
  from rep_frame(2) [OF this, of g' val] e t have k: "rep_kids g' j 0 ks" "kids_val g' val ks = kids_val g val ks" by auto
  with r i t show "rep g' t" "kids_val g' val (kids t) = kids_val g val (kids t)"
    "tree_val g' val t = kleene_expr (expr_pool g' ! root_ix t) (kids_val g val (kids t))" by simp_all
qed

section \<open>Forests\<close>

definition forest_ixs :: "etree list \<Rightarrow> nat list" where
  "forest_ixs F = concat (map ixs F)"

definition forest_occs :: "etree list \<Rightarrow> (nat \<times> nat) list" where
  "forest_occs F = concat (map occs F)"

definition fanouts_ok :: "unique_process_subgraph \<Rightarrow> etree list \<Rightarrow> bool" where
  "fanouts_ok g F \<longleftrightarrow> (\<forall>x \<in> set (forest_occs F). fst x < length (local_faninout_map g)) \<and>
     (\<forall>n < length (local_faninout_map g).
        mset (fio_fanout (local_faninout_map g ! n)) = image_mset snd (filter_mset (\<lambda>x. fst x = n) (mset (forest_occs F))))"

definition slots_ok :: "unique_process_subgraph \<Rightarrow> nat list \<Rightarrow> etree list \<Rightarrow> bool" where
  "slots_ok g fl F \<longleftrightarrow> length (expr_graph_node_pool g) = length (expr_pool g) \<and>
     distinct (forest_ixs F @ fl) \<and> set (forest_ixs F @ fl) = {..<length (expr_pool g)} \<and>
     (\<forall>i \<in> set fl. expr_wiped (expr_pool g ! i) \<and> graph_wiped (expr_graph_node_pool g ! i))"

definition forest :: "unique_process_subgraph \<Rightarrow> nat list \<Rightarrow> etree list \<Rightarrow> bool" where
  "forest g fl F \<longleftrightarrow> slots_ok g fl F \<and> fanouts_ok g F \<and> (\<forall>t \<in> set F. rep g t)"

lemma forest_ixs_simps [simp]:
  "forest_ixs [] = []" "forest_ixs (t # F) = ixs t @ forest_ixs F" "forest_ixs (F @ G) = forest_ixs F @ forest_ixs G"
  "forest_occs [] = []" "forest_occs (t # F) = occs t @ forest_occs F" "forest_occs (F @ G) = forest_occs F @ forest_occs G"
  by (simp_all add: forest_ixs_def forest_occs_def)

lemma mset_concat_map:
  assumes "mset xs = mset ys"
  shows "mset (concat (map f xs)) = mset (concat (map f ys))"
proof -
  have "mset (concat (map f zs)) = sum_mset (image_mset (\<lambda>x. mset (f x)) (mset zs))" for zs
    by (induction zs) simp_all
  then show ?thesis by (simp add: assms)
qed

lemma forest_perm:
  assumes "mset F = mset G"
  shows "forest g fl F = forest g fl G"
proof -
  have "mset (forest_ixs F) = mset (forest_ixs G)" "mset (forest_occs F) = mset (forest_occs G)"
    using mset_concat_map [OF assms] by (simp_all add: forest_ixs_def forest_occs_def)
  note m = this
  from m(1) have "distinct (forest_ixs F @ fl) = distinct (forest_ixs G @ fl)"
    by (intro mset_eq_imp_distinct_iff) simp
  moreover have "set (forest_ixs F) = set (forest_ixs G)" "set (forest_occs F) = set (forest_occs G)" "set F = set G"
    using m assms by (auto dest: mset_eq_setD)
  ultimately show ?thesis by (simp add: forest_def slots_ok_def fanouts_ok_def m(2))
qed

lemma forest_swap: "forest g fl (a # b # F) = forest g fl (b # a # F)"
  by (rule forest_perm) simp

lemma forest_in:
  assumes "forest g fl F" and "t \<in> set F"
  shows "rep g t" "distinct (ixs t)" "\<And>i. i \<in> set (ixs t) \<Longrightarrow> i < length (expr_pool g) \<and> i < length (expr_graph_node_pool g) \<and> i \<notin> set fl"
proof -
  from assms(2) obtain as bs where F: "F = as @ t # bs" by (auto dest: split_list)
  from assms(1) F show "rep g t" "distinct (ixs t)" by (auto simp: forest_def slots_ok_def)
  show "i < length (expr_pool g) \<and> i < length (expr_graph_node_pool g) \<and> i \<notin> set fl" if "i \<in> set (ixs t)" for i
    using assms(1) F that by (auto simp: forest_def slots_ok_def)
qed

lemma forest_rest:
  assumes "forest g fl (t # F)"
  shows "set (ixs t) \<inter> set (forest_ixs F) = {}" "set (kids_ixs (kids t)) \<inter> set (forest_ixs F) = {}"
    "root_ix t \<notin> set (kids_ixs (kids t))" "root_ix t \<notin> set (forest_ixs F)"
  using assms ixs_Cons [of t] by (auto simp: forest_def slots_ok_def)

text \<open>Trees of a part of the graph that did not change.\<close>

lemma reps_frame:
  assumes "\<forall>t \<in> set F. rep g t" and "eq_on (set (forest_ixs F)) g g'"
  shows "\<forall>t \<in> set F. rep g' t"
proof
  fix t assume t: "t \<in> set F"
  then have "set (ixs t) \<subseteq> set (forest_ixs F)" by (auto simp: forest_ixs_def)
  with rep_frame(1) [of g t g'] assms t show "rep g' t" by (auto intro: eq_on_mono)
qed

end
