(* ===== verification/Alloc_Ok.thy ===== *)
theory Alloc_Ok
  imports Alloc_Tree
begin

text \<open>
  Correctness of src/sim/prsim/ExprAlloc.cc: what is built for a footprint expression is a tree with the same
  three-valued meaning, whether or not literals are folded and negations pulled up, and nothing else changes.
\<close>

section \<open>Frames\<close>

text \<open>Building expressions changes the two pools and the fanouts of nodes only.\<close>

definition alloc_frame :: "expr_alloc \<Rightarrow> expr_alloc \<Rightarrow> bool" where
  "alloc_frame s s' \<longleftrightarrow> at_source s' = at_source s \<and> temp_rule s' = temp_rule s \<and> power_supply s' = power_supply s \<and>
     suppress_keeper_rule s' = suppress_keeper_rule s \<and>
     rule_pool (ea_g s') = rule_pool (ea_g s) \<and> rule_map (ea_g s') = rule_map (ea_g s) \<and>
     min_delays (ea_g s') = min_delays (ea_g s) \<and> invariant_map (ea_g s') = invariant_map (ea_g s) \<and>
     map (fio_fanout_update (\<lambda>_. [])) (local_faninout_map (ea_g s')) = map (fio_fanout_update (\<lambda>_. [])) (local_faninout_map (ea_g s))"

lemma alloc_frame_refl [simp]: "alloc_frame s s"
  by (simp add: alloc_frame_def)

lemma alloc_frame_trans [trans]: "alloc_frame s s' \<Longrightarrow> alloc_frame s' s'' \<Longrightarrow> alloc_frame s s''"
  by (simp add: alloc_frame_def)

lemma alloc_frame_nodes: "alloc_frame s s' \<Longrightarrow> length (local_faninout_map (ea_g s')) = length (local_faninout_map (ea_g s))"
  using map_eq_imp_length_eq unfolding alloc_frame_def by blast

lemma alloc_frame_ret [simp]: "alloc_frame s (s'\<lparr>ret_ex_index := x\<rparr>) = alloc_frame s s'"
  by (simp add: alloc_frame_def)

section \<open>Single expressions\<close>

abbreviation alloc_forest :: "expr_alloc \<Rightarrow> etree list \<Rightarrow> bool" where
  "alloc_forest s F \<equiv> forest (ea_g s) (expr_free_list s) F"

lemma acquire_expr_spec:
  assumes f: "alloc_forest s F" and a: "acquire_expr e s = (i, s')"
  shows "alloc_forest s' (ETree i [] # F)" "expr_pool (ea_g s') ! i = e" "eq_on (set (forest_ixs F)) (ea_g s) (ea_g s')"
    "alloc_frame s s'"
proof -
  let ?g = "ea_g s" and ?g' = "ea_g s'"
  from f have sl: "slots_ok ?g (expr_free_list s) F" and fa: "fanouts_ok ?g F" and r: "\<forall>t \<in> set F. rep ?g t"
    by (auto simp: forest_def)
  note d = a [unfolded acquire_expr_def]
  have *: "slots_ok ?g' (expr_free_list s') (ETree i [] # F) \<and> expr_pool ?g' ! i = e \<and>
      eq_on (set (forest_ixs F)) ?g ?g' \<and> children (expr_graph_node_pool ?g' ! i) = [] \<and> i < length (expr_pool ?g') \<and>
      length (expr_graph_node_pool ?g') = length (expr_pool ?g')"
  proof (cases "expr_free_list s")
    case Nil
    with d have s': "i = length (expr_pool ?g)" "expr_free_list s' = []" "expr_pool ?g' = expr_pool ?g @ [e]"
      "expr_graph_node_pool ?g' = expr_graph_node_pool ?g @ [ExprGraphNode_default]" by auto
    from sl Nil have o: "length (expr_graph_node_pool ?g) = length (expr_pool ?g)" "distinct (forest_ixs F)"
      "set (forest_ixs F) = {..<length (expr_pool ?g)}" by (auto simp: slots_ok_def)
    have "slots_ok ?g' (expr_free_list s') (ETree i [] # F)" using o by (simp add: slots_ok_def s' lessThan_Suc)
    moreover have "eq_on (set (forest_ixs F)) ?g ?g'" using o by (simp add: eq_on_def s' nth_append)
    ultimately show ?thesis using o by (simp add: s' ExprGraphNode_default_def nth_append)
  next
    case (Cons j fl)
    with d have s': "i = j" "expr_free_list s' = fl" "expr_pool ?g' = (expr_pool ?g)[j := e]"
      "expr_graph_node_pool ?g' = (expr_graph_node_pool ?g)[j := ExprGraphNode_default]" by auto
    from sl Cons have o: "length (expr_graph_node_pool ?g) = length (expr_pool ?g)" "distinct (forest_ixs F @ j # fl)"
      "set (forest_ixs F @ j # fl) = {..<length (expr_pool ?g)}"
      "\<forall>i \<in> set fl. expr_wiped (expr_pool ?g ! i) \<and> graph_wiped (expr_graph_node_pool ?g ! i)" by (simp_all add: slots_ok_def)
    then have j: "j < length (expr_pool ?g)" "j \<notin> set (forest_ixs F)" "j \<notin> set fl" by auto
    have "slots_ok ?g' (expr_free_list s') (ETree i [] # F)" using o j by (auto simp: slots_ok_def s' nth_list_update)
    moreover have "eq_on (set (forest_ixs F)) ?g ?g'"
      unfolding eq_on_def
    proof
      fix k assume "k \<in> set (forest_ixs F)"
      with o(3) j have "k < length (expr_pool ?g)" "k \<noteq> j" by auto
      with o(1) show "k < length (expr_pool ?g') \<and> k < length (expr_graph_node_pool ?g') \<and>
        expr_pool ?g' ! k = expr_pool ?g ! k \<and> expr_graph_node_pool ?g' ! k = expr_graph_node_pool ?g ! k" by (simp add: s')
    qed
    ultimately show ?thesis using o j by (simp add: s' ExprGraphNode_default_def)
  qed
  have l: "local_faninout_map ?g' = local_faninout_map ?g" using d by (auto split: list.splits)
  with fa have "fanouts_ok ?g' (ETree i [] # F)" by (simp add: fanouts_ok_def)
  moreover from reps_frame [OF r] * have "\<forall>t \<in> set F. rep ?g' t" by blast
  ultimately show "alloc_forest s' (ETree i [] # F)" using * by (simp add: forest_def)
  show "expr_pool (ea_g s') ! i = e" "eq_on (set (forest_ixs F)) (ea_g s) (ea_g s')" using * by auto
  show "alloc_frame s s'" using d l by (auto simp: alloc_frame_def split: list.splits)
qed

lemma nth_update_notin: "i \<notin> A \<Longrightarrow> j \<in> A \<Longrightarrow> xs[i := v] ! j = xs ! j"
  by (cases "i = j") simp_all

text \<open>Fanouts that change at one node.\<close>

abbreviation fan_of :: "etree list \<Rightarrow> nat \<Rightarrow> nat multiset" where
  "fan_of F n \<equiv> image_mset snd (filter_mset (\<lambda>x. fst x = n) (mset (forest_occs F)))"

lemma fanouts_ok_update:
  assumes "fanouts_ok g F" and "n < length (local_faninout_map g)"
    and "local_faninout_map g' = (local_faninout_map g)[n := f]" and "mset (fio_fanout f) = fan_of F' n"
    and "\<And>m. m \<noteq> n \<Longrightarrow> fan_of F' m = fan_of F m" and "fst ` set (forest_occs F') \<subseteq> insert n (fst ` set (forest_occs F))"
  shows "fanouts_ok g' F'"
proof -
  have "fst x < length (local_faninout_map g)" if "x \<in> set (forest_occs F')" for x
    using assms(1,2,6) that by (fastforce simp: fanouts_ok_def)
  with assms show ?thesis by (simp add: fanouts_ok_def nth_list_update)
qed

lemma fanout_frame:
  assumes "n < length xs"
  shows "map (fio_fanout_update (\<lambda>_. [])) (xs[n := (xs ! n)\<lparr>fio_fanout := l\<rparr>]) = map (fio_fanout_update (\<lambda>_. [])) xs"
proof -
  have "fio_fanout_update (\<lambda>_. []) ((xs ! n)\<lparr>fio_fanout := l\<rparr>) = map (fio_fanout_update (\<lambda>_. [])) xs ! n"
    using assms by simp
  then show ?thesis by (simp only: map_update list_update_id)
qed

lemma allocate_new_literal_expr_spec:
  assumes f: "alloc_forest s F" and n: "n < length (local_faninout_map (ea_g s))"
  shows "\<exists>i s'. allocate_new_literal_expr n s = Some (i, s') \<and> alloc_forest s' (ETree i [Leaf n] # F) \<and>
    expr_pool (ea_g s') ! i = \<lparr>expr_parent = INVALID_EXPR_INDEX, expr_type = EXPR_NODE, expr_size = 1\<rparr> \<and>
    eq_on (set (forest_ixs F)) (ea_g s) (ea_g s') \<and> alloc_frame s s'"
proof -
  let ?e = "\<lparr>expr_parent = INVALID_EXPR_INDEX, expr_type = EXPR_NODE, expr_size = 1\<rparr>"
  obtain i s1 where a: "acquire_expr ?e s = (i, s1)" by fastforce
  note sp = acquire_expr_spec [OF f a]
  let ?g = "ea_g s1"
  from forest_in(3) [OF sp(1), of "ETree i []" i] have i: "i < length (expr_pool ?g)" "i < length (expr_graph_node_pool ?g)" by auto
  have n1: "n < length (local_faninout_map ?g)" using n alloc_frame_nodes [OF sp(4)] by simp
  define lf where "lf = (local_faninout_map ?g)[n := (local_faninout_map ?g ! n)\<lparr>fio_fanout := fio_fanout (local_faninout_map ?g ! n) @ [i]\<rparr>]"
  define g' where "g' = ?g\<lparr>local_faninout_map := lf, expr_graph_node_pool :=
    (expr_graph_node_pool ?g)[i := push_back_node n (expr_graph_node_pool ?g ! i)]\<rparr>"
  have ev: "allocate_new_literal_expr n s = Some (i, s1\<lparr>ea_g := g'\<rparr>)"
    using a n1 i by (simp add: allocate_new_literal_expr_def Expr_type_size_def mod_faninout_def mod_graph_node_def nth_opt_in g'_def lf_def)
  from sp(1) have sl: "slots_ok ?g (expr_free_list s1) (ETree i [] # F)" and fa: "fanouts_ok ?g (ETree i [] # F)"
    and r: "rep ?g (ETree i [])" "\<forall>t \<in> set F. rep ?g t" by (auto simp: forest_def)
  have nf: "i \<notin> set (forest_ixs F)" "i \<notin> set (expr_free_list s1)" using sl by (auto simp: slots_ok_def)
  have eq: "eq_on (set (forest_ixs F)) ?g g'"
  proof -
    have "j < length (expr_pool ?g)" if "j \<in> set (forest_ixs F)" for j using sl that by (auto simp: slots_ok_def)
    with sl show ?thesis by (auto simp: eq_on_def g'_def slots_ok_def nth_update_notin [OF nf(1)])
  qed
  have "slots_ok g' (expr_free_list s1) (ETree i [Leaf n] # F)"
    using sl by (simp add: slots_ok_def g'_def nth_update_notin [OF nf(2)])
  moreover have "fanouts_ok g' (ETree i [Leaf n] # F)"
    using fa by (rule fanouts_ok_update [OF _ n1]) (use fa n1 in \<open>auto simp: g'_def lf_def fanouts_ok_def\<close>)
  moreover have "rep g' (ETree i [Leaf n])" using i r(1) by (simp add: g'_def push_back_node_def)
  moreover have "\<forall>t \<in> set F. rep g' t" by (rule reps_frame [OF r(2) eq])
  ultimately have "forest g' (expr_free_list s1) (ETree i [Leaf n] # F)" by (simp add: forest_def)
  moreover have "alloc_frame s (s1\<lparr>ea_g := g'\<rparr>)"
    using sp(4) fanout_frame [OF n1] by (simp add: alloc_frame_def g'_def lf_def)
  ultimately show ?thesis using ev sp(2) eq_on_trans [OF sp(3) eq] by (intro exI [of _ i] exI [of _ "s1\<lparr>ea_g := g'\<rparr>"]) (simp add: g'_def)
qed

text \<open>Changing the expression at the root of a tree.\<close>

lemma forest_root_change:
  assumes f: "forest g fl (t # F)" and e: "expr_pool g' = (expr_pool g)[root_ix t := e]"
    "expr_graph_node_pool g' = (expr_graph_node_pool g)[root_ix t := x]" "children x = children (expr_graph_node_pool g ! root_ix t)"
    "map fio_fanout (local_faninout_map g') = map fio_fanout (local_faninout_map g)"
  shows "forest g' fl (t # F)" "eq_on (set (forest_ixs F)) g g'" "expr_pool g' ! root_ix t = e"
    "tree_val g' val t = kleene_expr e (kids_val g val (kids t))" "kids_val g' val (kids t) = kids_val g val (kids t)"
proof -
  from f have sl: "slots_ok g fl (t # F)" and fa: "fanouts_ok g (t # F)" and r: "rep g t" "\<forall>t \<in> set F. rep g t" by (auto simp: forest_def)
  have b: "j < length (expr_pool g) \<and> j < length (expr_graph_node_pool g)" if "j \<in> set (ixs t @ forest_ixs F)" for j
    using sl that by (auto simp: slots_ok_def)
  note re = forest_rest [OF f]
  have "eq_on (set (kids_ixs (kids t)) \<union> set (forest_ixs F)) g g'"
    unfolding eq_on_def
  proof
    fix j assume "j \<in> set (kids_ixs (kids t)) \<union> set (forest_ixs F)"
    with b [of j] re have "j < length (expr_pool g)" "j < length (expr_graph_node_pool g)" "j \<noteq> root_ix t" by (auto simp: ixs_Cons)
    then show "j < length (expr_pool g') \<and> j < length (expr_graph_node_pool g') \<and> expr_pool g' ! j = expr_pool g ! j \<and>
        expr_graph_node_pool g' ! j = expr_graph_node_pool g ! j" by (simp add: e)
  qed
  then have eq: "eq_on (set (kids_ixs (kids t))) g g'" "eq_on (set (forest_ixs F)) g g'" by (auto simp: eq_on_Un)
  have i: "root_ix t < length (expr_pool g')" "root_ix t < length (expr_graph_node_pool g')" using b [of "root_ix t"] by (auto simp: e)
  then have c: "children (expr_graph_node_pool g' ! root_ix t) = children (expr_graph_node_pool g ! root_ix t)" by (simp add: e)
  note ch = rep_change_root [OF r(1) eq(1) i c]
  have "root_ix t \<notin> set fl" using sl ixs_Cons [of t] by (auto simp: slots_ok_def)
  then have "slots_ok g' fl (t # F)" using sl by (simp add: slots_ok_def e nth_update_notin)
  moreover have "length (local_faninout_map g') = length (local_faninout_map g)" using e(4) by (rule map_eq_imp_length_eq)
  moreover from e(4) have "fio_fanout (local_faninout_map g' ! n) = fio_fanout (local_faninout_map g ! n)" if "n < length (local_faninout_map g)" for n
    using that calculation(2) by (metis nth_map)
  ultimately have "slots_ok g' fl (t # F)" "fanouts_ok g' (t # F)" using fa by (simp_all add: fanouts_ok_def)
  then show "forest g' fl (t # F)" using ch(1) reps_frame [OF r(2) eq(2)] by (simp add: forest_def)
  show "eq_on (set (forest_ixs F)) g g'" by (rule eq(2))
  show y: "expr_pool g' ! root_ix t = e" using i by (simp add: e)
  show "tree_val g' val t = kleene_expr e (kids_val g val (kids t))" using ch(3) y by simp
  show "kids_val g' val (kids t) = kids_val g val (kids t)" by (rule ch(2))
qed

lemma forest_root_expr:
  assumes f: "forest g fl (t # F)" and e: "expr_pool g' = (expr_pool g)[root_ix t := e]"
    "expr_graph_node_pool g' = expr_graph_node_pool g" "local_faninout_map g' = local_faninout_map g"
  shows "forest g' fl (t # F)" "eq_on (set (forest_ixs F)) g g'" "expr_pool g' ! root_ix t = e"
    "tree_val g' val t = kleene_expr e (kids_val g val (kids t))"
  using forest_root_change [OF f e(1), of "expr_graph_node_pool g ! root_ix t"] e(2,3) by simp_all

lemma fanouts_ok_cong:
  "fanouts_ok g F \<Longrightarrow> local_faninout_map g' = local_faninout_map g \<Longrightarrow> mset (forest_occs F') = mset (forest_occs F) \<Longrightarrow> fanouts_ok g' F'"
  using mset_eq_setD [of "forest_occs F'" "forest_occs F"] by (simp add: fanouts_ok_def)

lemma kleene_set_parent [simp]: "kleene_expr (set_parent_expr p e) ps = kleene_expr e ps" "expr_size (set_parent_expr p e) = expr_size e"
  "\<not> is_root (set_parent_expr p e)" "expr_parent (set_parent_expr p e) = p"
  by (simp_all add: set_parent_expr_def kleene_expr_def is_not_def is_disjunctive_def unset_root_def is_root_def
      and1_bit and2_bit and4_bit bit_simps)

lemma link_child_expr_spec:
  assumes f: "alloc_forest s (t # ETree i ks # F)" and cl: "tree_closed (ea_g s) t" and k: "k = length ks"
  shows "\<exists>s'. link_child_expr i (root_ix t) k s = Some s' \<and> alloc_forest s' (ETree i (ks @ [Sub t]) # F) \<and>
    (\<forall>val. kids_val (ea_g s') val (ks @ [Sub t]) = kids_val (ea_g s) val ks @ [tree_val (ea_g s) val t]) \<and>
    expr_pool (ea_g s') ! i = expr_pool (ea_g s) ! i \<and> eq_on (set (forest_ixs F)) (ea_g s) (ea_g s') \<and> alloc_frame s s'"
proof -
  let ?g = "ea_g s" and ?c = "root_ix t"
  from f have sl: "slots_ok ?g (expr_free_list s) (t # ETree i ks # F)" and fa: "fanouts_ok ?g (t # ETree i ks # F)"
    and r: "rep ?g t" "rep ?g (ETree i ks)" "\<forall>t \<in> set F. rep ?g t" by (auto simp: forest_def)
  have d: "?c \<noteq> i" "?c \<notin> set (kids_ixs (kids t)) \<union> set (kids_ixs ks) \<union> set (forest_ixs F)"
    "i \<notin> set (kids_ixs (kids t)) \<union> set (kids_ixs ks) \<union> set (forest_ixs F)" "?c \<notin> set (expr_free_list s)" "i \<notin> set (expr_free_list s)"
    using sl ixs_Cons [of t] by (auto simp: slots_ok_def)
  have b: "j < length (expr_pool ?g) \<and> j < length (expr_graph_node_pool ?g)" if "j \<in> set (ixs t) \<or> j \<in> set (kids_ixs ks) \<or> j \<in> set (forest_ixs F)" for j
    using sl that by (auto simp: slots_ok_def)
  define g' where "g' = ?g\<lparr>expr_pool := (expr_pool ?g)[?c := set_parent_expr i (expr_pool ?g ! ?c)],
    expr_graph_node_pool := (expr_graph_node_pool ?g)[?c := (expr_graph_node_pool ?g ! ?c)\<lparr>offset := of_nat k\<rparr>,
      i := push_back_expr ?c (expr_graph_node_pool ?g ! i)]\<rparr>"
  have i: "i < length (expr_pool ?g)" "i < length (expr_graph_node_pool ?g)" using r(2) by auto
  have c: "?c < length (expr_pool ?g)" "?c < length (expr_graph_node_pool ?g)" using b [of ?c] by auto
  have ev: "link_child_expr i ?c k s = Some (s\<lparr>ea_g := g'\<rparr>)"
    using c i d(1) by (simp add: link_child_expr_def mod_expr_def mod_graph_node_def nth_opt_in g'_def)
  have "eq_on (set (kids_ixs (kids t)) \<union> set (kids_ixs ks) \<union> set (forest_ixs F)) ?g g'"
    unfolding eq_on_def
  proof
    fix j assume j: "j \<in> set (kids_ixs (kids t)) \<union> set (kids_ixs ks) \<union> set (forest_ixs F)"
    with b [of j] have "j < length (expr_pool ?g)" "j < length (expr_graph_node_pool ?g)" by (auto simp: ixs_Cons)
    with j show "j < length (expr_pool g') \<and> j < length (expr_graph_node_pool g') \<and> expr_pool g' ! j = expr_pool ?g ! j \<and>
        expr_graph_node_pool g' ! j = expr_graph_node_pool ?g ! j"
      by (simp add: g'_def nth_update_notin [OF d(2)] nth_update_notin [OF d(3)])
  qed
  then have eq: "eq_on (set (kids_ixs (kids t))) ?g g'" "eq_on (set (kids_ixs ks)) ?g g'" "eq_on (set (forest_ixs F)) ?g g'"
    by (auto simp: eq_on_Un)
  have cg: "expr_pool g' ! ?c = set_parent_expr i (expr_pool ?g ! ?c)" "children (expr_graph_node_pool g' ! ?c) = children (expr_graph_node_pool ?g ! ?c)"
    "offset (expr_graph_node_pool g' ! ?c) = of_nat k" "?c < length (expr_pool g')" "?c < length (expr_graph_node_pool g')"
    using c d(1) by (simp_all add: g'_def)
  note ch = rep_change_root [OF r(1) eq(1) cg(4,5,2)]
  from r(2) have rk: "rep_kids ?g i 0 ks" "children (expr_graph_node_pool ?g ! i) = map kid_entry ks" by auto
  note fr = rep_frame(2) [OF rk(1) eq(2)]
  have "tree_closed g' t" "linked g' i k t" using cl cg by (simp_all add: tree_closed_def linked_def)
  with ch(1) fr rk(2) i d(1) k have "rep g' (ETree i (ks @ [Sub t]))" by (simp add: g'_def push_back_expr_def)
  moreover have "slots_ok g' (expr_free_list s) (ETree i (ks @ [Sub t]) # F)"
    using sl by (simp add: slots_ok_def g'_def nth_update_notin [OF d(4)] nth_update_notin [OF d(5)]) blast
  moreover have "fanouts_ok g' (ETree i (ks @ [Sub t]) # F)"
    by (rule fanouts_ok_cong [OF fa]) (simp_all add: g'_def)
  ultimately have "forest g' (expr_free_list s) (ETree i (ks @ [Sub t]) # F)" using reps_frame [OF r(3) eq(3)] by (simp add: forest_def)
  moreover have "tree_val g' val t = tree_val ?g val t" for val using ch(3) [of val] cg(1) by (cases t) simp
  moreover have "alloc_frame s (s\<lparr>ea_g := g'\<rparr>)" by (simp add: alloc_frame_def g'_def)
  ultimately show ?thesis using ev fr eq(3) d(1) by (intro exI [of _ "s\<lparr>ea_g := g'\<rparr>"]) (simp add: g'_def)
qed

lemma parent_toggle_not [simp]: "expr_parent (toggle_not e) = expr_parent e"
  by (simp add: toggle_not_def)

lemma kleene_toggle_not [simp]: "kleene_expr (toggle_not e) ps = negate_pull (kleene_expr e ps)"
  by (simp add: kleene_expr_def Let_def)

lemma allocate_new_not_expr_spec:
  assumes f: "alloc_forest s (t # F)" and cl: "tree_closed (ea_g s) t"
  shows "\<exists>s'. allocate_new_not_expr (root_ix t) s = Some (root_ix t, s') \<and> alloc_forest s' (t # F) \<and> tree_closed (ea_g s') t \<and>
    (\<forall>val. tree_val (ea_g s') val t = negate_pull (tree_val (ea_g s) val t)) \<and>
    eq_on (set (forest_ixs F)) (ea_g s) (ea_g s') \<and> alloc_frame s s'"
proof -
  let ?g = "ea_g s"
  define g' where "g' = ?g\<lparr>expr_pool := (expr_pool ?g)[root_ix t := toggle_not (expr_pool ?g ! root_ix t)]\<rparr>"
  from forest_in(3) [OF f, of t "root_ix t"] have "allocate_new_not_expr (root_ix t) s = Some (root_ix t, s\<lparr>ea_g := g'\<rparr>)"
    by (simp add: allocate_new_not_expr_def mod_expr_def nth_opt_in g'_def)
  moreover note c = forest_root_expr [OF f, of g' "toggle_not (expr_pool ?g ! root_ix t)"]
  moreover have "tree_val ?g val t = kleene_expr (expr_pool ?g ! root_ix t) (kids_val ?g val (kids t))" for val by (cases t) simp
  ultimately show ?thesis using cl
    by (intro exI [of _ "s\<lparr>ea_g := g'\<rparr>"]) (simp add: g'_def alloc_frame_def tree_closed_def)
qed

lemma allocate_new_Nary_expr_spec:
  assumes f: "alloc_forest s F" and n: "n \<noteq> 0" "n \<le> 65535"
  shows "\<exists>i s'. allocate_new_Nary_expr ty n s = Some (i, s') \<and> alloc_forest s' (ETree i [] # F) \<and>
    expr_pool (ea_g s') ! i = \<lparr>expr_parent = INVALID_EXPR_INDEX,
      expr_type = (if ty = PRS_AND_EXPR_TYPE_ENUM then EXPR_AND else EXPR_OR), expr_size = of_nat n\<rparr> \<and>
    eq_on (set (forest_ixs F)) (ea_g s) (ea_g s') \<and> alloc_frame s s'"
proof -
  let ?e = "\<lparr>expr_parent = INVALID_EXPR_INDEX, expr_type = (if ty = PRS_AND_EXPR_TYPE_ENUM then EXPR_AND else EXPR_OR), expr_size = of_nat n\<rparr>"
  obtain i s1 where a: "acquire_expr ?e s = (i, s1)" by fastforce
  have "of_nat n \<noteq> (0 :: count_type)" using n by (simp add: of_nat_word_eq_0_small)
  with n a have "allocate_new_Nary_expr ty n s = Some (i, s1)" by (simp add: allocate_new_Nary_expr_def Expr_type_size_def)
  with acquire_expr_spec [OF f a] show ?thesis by auto
qed

section \<open>Graph surgery\<close>

lemma occs_ixs:
  "x \<in> set (occs t) \<Longrightarrow> snd x \<in> set (ixs t)"
  "x \<in> set (kids_occs i ks) \<Longrightarrow> snd x = i \<or> snd x \<in> set (kids_ixs ks)"
  by (induction t and i ks rule: occs_kids_occs.induct) auto

lemma forest_occs_ixs: "x \<in> set (forest_occs F) \<Longrightarrow> snd x \<in> set (forest_ixs F)"
  by (auto simp: forest_occs_def forest_ixs_def dest: occs_ixs(1))

lemma mset_replace:
  assumes "mset xs = add_mset a M" and "a \<notin># M"
  shows "mset (map (\<lambda>x. if x = a then b else x) xs) = add_mset b M"
proof -
  have "image_mset (\<lambda>x. if x = a then b else x) M = image_mset (\<lambda>x. x) M" using assms(2) by (intro image_mset_cong) auto
  then show ?thesis by (simp add: assms(1))
qed

lemma excise_child_spec:
  assumes f: "alloc_forest s (ETree i (as @ Sub (ETree ei [Leaf n]) # bs) # F)"
  shows "\<exists>s'. excise_child i (length as) ei n s = Some s' \<and> alloc_forest s' (ETree i (as @ Leaf n # bs) # F) \<and>
    (\<forall>val. kids_val (ea_g s') val as = kids_val (ea_g s) val as \<and> kids_val (ea_g s') val bs = kids_val (ea_g s) val bs) \<and>
    eq_on (set (kids_ixs bs)) (ea_g s) (ea_g s') \<and> expr_pool (ea_g s') ! i = expr_pool (ea_g s) ! i \<and>
    eq_on (set (forest_ixs F)) (ea_g s) (ea_g s') \<and> alloc_frame s s'"
proof -
  let ?g = "ea_g s" and ?fl = "expr_free_list s" and ?T = "ETree i (as @ Sub (ETree ei [Leaf n]) # bs)" and ?T' = "ETree i (as @ Leaf n # bs)"
  from f have sl: "slots_ok ?g ?fl (?T # F)" and fa: "fanouts_ok ?g (?T # F)" and r: "rep ?g ?T" "\<forall>t \<in> set F. rep ?g t"
    by (auto simp: forest_def)
  let ?rest = "set (kids_ixs as) \<union> set (kids_ixs bs) \<union> set (forest_ixs F)"
  have d: "ei \<noteq> i" "ei \<notin> ?rest" "i \<notin> ?rest" "ei \<notin> set ?fl" "i \<notin> set ?fl" using sl by (auto simp: slots_ok_def)
  have b: "j < length (expr_pool ?g) \<and> j < length (expr_graph_node_pool ?g)" if "j = i \<or> j = ei \<or> j \<in> ?rest" for j
    using sl that by (auto simp: slots_ok_def)
  have n: "n < length (local_faninout_map ?g)" using fa by (simp add: fanouts_ok_def)
  define f' where "f' = (local_faninout_map ?g ! n)\<lparr>fio_fanout := map (\<lambda>x. if x = ei then i else x) (fio_fanout (local_faninout_map ?g ! n))\<rparr>"
  define g' where "g' = ?g\<lparr>expr_pool := (expr_pool ?g)[ei := expr_wipe (expr_pool ?g ! ei)],
    expr_graph_node_pool := (expr_graph_node_pool ?g)[i := (expr_graph_node_pool ?g ! i)\<lparr>children := (children (expr_graph_node_pool ?g ! i))[length as := (True, n)]\<rparr>,
      ei := graph_wipe (expr_graph_node_pool ?g ! ei)], local_faninout_map := (local_faninout_map ?g)[n := f']\<rparr>"
  have ev: "excise_child i (length as) ei n s = Some (s\<lparr>ea_g := g', expr_free_list := ?fl @ [ei]\<rparr>)"
    using b n d(1) by (simp add: excise_child_def mod_graph_node_def mod_faninout_def void_expr_def nth_opt_in g'_def f'_def)
  have "eq_on ?rest ?g g'"
    unfolding eq_on_def
  proof
    fix j assume j: "j \<in> ?rest"
    with b [of j] show "j < length (expr_pool g') \<and> j < length (expr_graph_node_pool g') \<and> expr_pool g' ! j = expr_pool ?g ! j \<and>
        expr_graph_node_pool g' ! j = expr_graph_node_pool ?g ! j"
      by (simp add: g'_def nth_update_notin [OF d(2)] nth_update_notin [OF d(3)])
  qed
  then have eq: "eq_on (set (kids_ixs as)) ?g g'" "eq_on (set (kids_ixs bs)) ?g g'" "eq_on (set (forest_ixs F)) ?g g'"
    by (auto simp: eq_on_Un)
  from r(1) have rk: "rep_kids ?g i 0 as" "rep_kids ?g i (Suc (length as)) bs" by auto
  note fr = rep_frame(2) [OF rk(1) eq(1)] rep_frame(2) [OF rk(2) eq(2)]
  have "rep g' ?T'" using r(1) fr b [of i] d(1) by (simp add: g'_def list_update_append)
  moreover have "slots_ok g' (?fl @ [ei]) (?T' # F)"
  proof -
    have w: "\<forall>j \<in> set (?fl @ [ei]). expr_wiped (expr_pool g' ! j) \<and> graph_wiped (expr_graph_node_pool g' ! j)"
      using sl b [of ei] by (simp add: slots_ok_def g'_def nth_update_notin [OF d(4)] nth_update_notin [OF d(5)] expr_wiped_def expr_wipe_def
          graph_wiped_def graph_wipe_def)
    have "distinct (forest_ixs (?T' # F) @ ?fl @ [ei])" "set (forest_ixs (?T' # F) @ ?fl @ [ei]) = set (forest_ixs (?T # F) @ ?fl)"
      using sl by (auto simp: slots_ok_def)
    with w sl show ?thesis by (simp add: slots_ok_def g'_def)
  qed
  moreover have "fanouts_ok g' (?T' # F)"
  proof (rule fanouts_ok_update [OF fa n, of g' f'])
    define R where "R = kids_occs i as @ kids_occs i bs @ forest_occs F"
    have "ei \<notin> snd ` set R" using d by (auto simp: R_def dest!: occs_ixs(2) forest_occs_ixs)
    then have ni: "ei \<notin># image_mset snd (filter_mset (\<lambda>x. fst x = n) (mset R))" by auto
    have o: "mset (forest_occs (?T # F)) = add_mset (n, ei) (mset R)" "mset (forest_occs (?T' # F)) = add_mset (n, i) (mset R)"
      by (simp_all add: R_def)
    have "mset (fio_fanout (local_faninout_map ?g ! n)) = add_mset ei (image_mset snd (filter_mset (\<lambda>x. fst x = n) (mset R)))"
      using fa n o(1) by (simp add: fanouts_ok_def del: forest_ixs_simps)
    from mset_replace [OF this ni] show "mset (fio_fanout f') = fan_of (?T' # F) n" by (simp only: f'_def o) simp
    show "fan_of (?T' # F) m = fan_of (?T # F) m" if "m \<noteq> n" for m unfolding o using that by simp
  qed (auto simp: g'_def)
  ultimately have "forest g' (?fl @ [ei]) (?T' # F)" using reps_frame [OF r(2) eq(3)] by (simp add: forest_def)
  moreover have "alloc_frame s (s\<lparr>ea_g := g', expr_free_list := ?fl @ [ei]\<rparr>)"
    using fanout_frame [OF n] by (simp add: alloc_frame_def g'_def f'_def)
  ultimately show ?thesis using ev fr eq(2,3) d(1)
    by (intro exI [of _ "s\<lparr>ea_g := g', expr_free_list := ?fl @ [ei]\<rparr>"]) (simp add: g'_def)
qed

text \<open>A change of the children of one open expression.\<close>

definition reshaped :: "expr_alloc \<Rightarrow> nat \<Rightarrow> etree list \<Rightarrow> expr_alloc \<Rightarrow> ekid list \<Rightarrow> bool" where
  "reshaped s i F s' ks' \<longleftrightarrow> alloc_forest s' (ETree i ks' # F) \<and> expr_pool (ea_g s') ! i = expr_pool (ea_g s) ! i \<and>
     eq_on (set (forest_ixs F)) (ea_g s) (ea_g s') \<and> alloc_frame s s'"

lemma reshaped_trans: "reshaped s i F s1 ks1 \<Longrightarrow> reshaped s1 i F s2 ks2 \<Longrightarrow> reshaped s i F s2 ks2"
  by (auto simp: reshaped_def intro: eq_on_trans alloc_frame_trans)

lemma reshaped_refl: "alloc_forest s (ETree i ks # F) \<Longrightarrow> reshaped s i F s ks"
  by (auto simp: reshaped_def eq_on_def forest_def slots_ok_def)

fun kid_val :: "unique_process_subgraph \<Rightarrow> (nat \<Rightarrow> pull_enum) \<Rightarrow> ekid \<Rightarrow> pull_enum" where
  "kid_val g val (Leaf n) = val n"
| "kid_val g val (Sub t) = tree_val g val t"

lemma kids_val_Cons: "kids_val g val (x # ks) = kid_val g val x # kids_val g val ks"
  by (cases x) simp_all

definition step_keeps :: "(pull_enum \<Rightarrow> pull_enum) \<Rightarrow> expr_alloc \<Rightarrow> expr_alloc \<Rightarrow> ekid list \<Rightarrow> ekid \<Rightarrow> ekid \<Rightarrow> ekid list \<Rightarrow> bool" where
  "step_keeps h s s' as x x' bs \<longleftrightarrow> (\<forall>val. kids_val (ea_g s') val as = kids_val (ea_g s) val as \<and>
     kid_val (ea_g s') val x' = h (kid_val (ea_g s) val x) \<and> kids_val (ea_g s') val bs = kids_val (ea_g s) val bs) \<and>
     eq_on (set (kids_ixs bs)) (ea_g s) (ea_g s')"

lemma reshape_loop:
  assumes step: "\<And>s as x bs. alloc_forest s (ETree i (as @ x # bs) # F) \<Longrightarrow> Q (ea_g s) x \<Longrightarrow>
      \<exists>s' x'. f (length as) s = Some s' \<and> reshaped s i F s' (as @ x' # bs) \<and> step_keeps h s s' as x x' bs"
    and Q: "\<And>g g' x. Q g x \<Longrightarrow> eq_on (set (kids_ixs [x])) g g' \<Longrightarrow> Q g' x"
  shows "alloc_forest s (ETree i (as @ bs) # F) \<Longrightarrow> \<forall>x \<in> set bs. Q (ea_g s) x \<Longrightarrow>
    \<exists>s' bs'. fold_loop f [length as..<length as + length bs] s = Some s' \<and> reshaped s i F s' (as @ bs') \<and> length bs' = length bs \<and>
      (\<forall>val. kids_val (ea_g s') val (as @ bs') = kids_val (ea_g s) val as @ map h (kids_val (ea_g s) val bs))"
proof (induction bs arbitrary: s as)
  case Nil
  then show ?case by (auto intro: reshaped_refl)
next
  case (Cons x bs)
  from step [OF Cons.prems(1)] Cons.prems(2) obtain s1 x' where 1: "f (length as) s = Some s1" "reshaped s i F s1 (as @ x' # bs)"
    "step_keeps h s s1 as x x' bs" by auto
  have "Q (ea_g s1) y" if y: "y \<in> set bs" for y
  proof -
    from split_list [OF y] obtain us vs where "bs = us @ y # vs" by blast
    then have "set (kids_ixs [y]) \<subseteq> set (kids_ixs bs)" by (cases y) auto
    with 1(3) have "eq_on (set (kids_ixs [y])) (ea_g s) (ea_g s1)" by (auto simp: step_keeps_def intro: eq_on_mono)
    with Q Cons.prems(2) y show ?thesis by auto
  qed
  with Cons.IH [of s1 "as @ [x']"] 1(2) obtain s2 bs' where 2: "fold_loop f [Suc (length as)..<Suc (length as) + length bs] s1 = Some s2"
    "reshaped s1 i F s2 (as @ x' # bs')" "length bs' = length bs"
    "\<And>val. kids_val (ea_g s2) val (as @ x' # bs') = kids_val (ea_g s1) val (as @ [x']) @ map h (kids_val (ea_g s1) val bs)"
    by (auto simp: reshaped_def)
  have "[length as..<length as + length (x # bs)] = length as # [Suc (length as)..<Suc (length as) + length bs]"
    by (subst upt_conv_Cons) simp_all
  then have "fold_loop f [length as..<length as + length (x # bs)] s = Some s2" using 1(1) 2(1) by simp
  moreover have "kids_val (ea_g s2) val (as @ x' # bs') = kids_val (ea_g s) val as @ map h (kids_val (ea_g s) val (x # bs))" for val
    unfolding 2(4) using 1(3) by (simp add: step_keeps_def kids_val_Cons [of _ _ x] kids_val_Cons [of _ _ x'])
  ultimately show ?case using reshaped_trans [OF 1(2) 2(2)] 2(3) by (intro exI [of _ s2] exI [of _ "x' # bs'"]) simp
qed

text \<open>Folding keeps the values of the children.\<close>

lemma kleene_single: "kleene_expr e [p] = (if is_not e then negate_pull p else p)"
  by (cases p) (auto simp: kleene_expr_def kleene_or_def kleene_and_def)

lemma kid_facts:
  assumes f: "forest g fl (ETree i (as @ x # bs) # F)"
  shows "i < length (expr_graph_node_pool g)" "i < length (expr_pool g)" "children (expr_graph_node_pool g ! i) ! length as = kid_entry x"
    "length as < length (children (expr_graph_node_pool g ! i))"
    "x = Sub t \<Longrightarrow> rep g t \<and> tree_closed g t \<and> linked g i (length as) t"
proof -
  from forest_in(1) [OF f, of "ETree i (as @ x # bs)"] have r: "rep g (ETree i (as @ x # bs))" by simp
  then show "i < length (expr_graph_node_pool g)" "i < length (expr_pool g)" "children (expr_graph_node_pool g ! i) ! length as = kid_entry x"
    "length as < length (children (expr_graph_node_pool g ! i))" by (simp_all add: nth_append)
  show "x = Sub t \<Longrightarrow> rep g t \<and> tree_closed g t \<and> linked g i (length as) t" using r by auto
qed

lemma fold_literal_at_spec:
  assumes f: "alloc_forest s (ETree i (as @ x # bs) # F)"
  shows "\<exists>s' x'. fold_literal_at i (length as) s = Some s' \<and> reshaped s i F s' (as @ x' # bs) \<and> step_keeps (\<lambda>p. p) s s' as x x' bs"
proof -
  let ?g = "ea_g s"
  note k = kid_facts [OF f]
  from f have "rep_kids ?g i (Suc (length as)) bs" by (cases x) (auto simp: forest_def)
  from rep_bounds(2) [OF this] have same: "reshaped s i F s (as @ x # bs) \<and> step_keeps (\<lambda>p. p) s s as x x bs"
    using f by (auto simp: reshaped_refl step_keeps_def eq_on_def)
  show ?thesis
  proof (cases x)
    case (Leaf n)
    with k same show ?thesis by (auto simp: fold_literal_at_def nth_opt_in)
  next
    case (Sub t)
    with k(5) have t: "rep ?g t" "tree_closed ?g t" by auto
    obtain ei c cs where te: "t = ETree ei (c # cs)" using t(2) by (cases t) (auto simp: tree_closed_def neq_Nil_conv)
    with t(1) have b: "ei < length (expr_pool ?g)" "ei < length (expr_graph_node_pool ?g)"
      "nth_opt (children (expr_graph_node_pool ?g ! ei)) 0 = Some (kid_entry c)" by (auto simp: nth_opt_in)
    have ev: "fold_literal_at i (length as) s = (if is_trivial (expr_pool ?g ! ei) \<and> fst (kid_entry c)
        then excise_child i (length as) ei (snd (kid_entry c)) s else Some s)"
      using k b te Sub by (simp add: fold_literal_at_def nth_opt_in split: prod.splits)
    show ?thesis
    proof (cases "is_trivial (expr_pool ?g ! ei) \<and> fst (kid_entry c)")
      case True
      then obtain n where c: "c = Leaf n" by (cases c) auto
      from True t(2) te have "cs = []" by (auto simp: tree_closed_def is_trivial_def)
      with Sub te c have x: "x = Sub (ETree ei [Leaf n])" by simp
      from excise_child_spec [of s i as ei n bs F] f x obtain s' where
        s': "excise_child i (length as) ei n s = Some s'" "alloc_forest s' (ETree i (as @ Leaf n # bs) # F)"
        "\<forall>val. kids_val (ea_g s') val as = kids_val ?g val as \<and> kids_val (ea_g s') val bs = kids_val ?g val bs"
        "eq_on (set (kids_ixs bs)) ?g (ea_g s')" "expr_pool (ea_g s') ! i = expr_pool ?g ! i"
        "eq_on (set (forest_ixs F)) ?g (ea_g s')" "alloc_frame s s'" by auto
      moreover have "step_keeps (\<lambda>p. p) s s' as x (Leaf n) bs"
        using s' True by (simp add: step_keeps_def x kleene_single is_trivial_def)
      ultimately show ?thesis using ev True c by (auto simp: reshaped_def)
    next
      case False
      with ev same show ?thesis by auto
    qed
  qed
qed

lemma fold_literal_spec:
  assumes f: "alloc_forest s (ETree i ks # F)" and n: "unat (expr_size (expr_pool (ea_g s) ! i)) = length ks"
  shows "\<exists>s' ks'. fold_literal i s = Some s' \<and> reshaped s i F s' ks' \<and> length ks' = length ks \<and>
    (\<forall>val. kids_val (ea_g s') val ks' = kids_val (ea_g s) val ks)"
proof -
  from f have "i < length (expr_pool (ea_g s))" by (auto simp: forest_def)
  moreover from reshape_loop [where as = "[]" and Q = "\<lambda>_ _. True" and h = "\<lambda>p. p" and f = "fold_literal_at i", OF fold_literal_at_spec, of F s ks] f
  obtain s' ks' where "fold_loop (fold_literal_at i) [0..<length ks] s = Some s'" "reshaped s i F s' ks'" "length ks' = length ks"
    "\<And>val. kids_val (ea_g s') val ks' = kids_val (ea_g s) val ks" by auto
  ultimately show ?thesis using n by (auto simp: fold_literal_def nth_opt_in)
qed

text \<open>Children that qualify for pulling up the negation: a negated expression with one child.\<close>

definition negated_single :: "unique_process_subgraph \<Rightarrow> ekid \<Rightarrow> bool" where
  "negated_single g x \<longleftrightarrow> (\<exists>ei c. x = Sub (ETree ei [c]) \<and> is_not (expr_pool g ! ei))"

lemma negated_literal_at_iff:
  assumes f: "forest g fl (ETree i (as @ x # bs) # F)"
  shows "negated_literal_at g i (length as) = Some (negated_single g x)"
proof (cases x)
  case (Leaf n)
  with kid_facts [OF f] show ?thesis by (simp add: negated_literal_at_def nth_opt_in negated_single_def)
next
  case (Sub t)
  note k = kid_facts [OF f]
  with Sub have t: "rep g t" "tree_closed g t" by auto
  have "expr_size (expr_pool g ! root_ix t) = 1 \<longleftrightarrow> length (kids t) = 1"
    using t(2) by (simp add: tree_closed_def unsigned_word_eqI word_unat_eq_iff)
  then have "expr_size (expr_pool g ! root_ix t) = 1 \<and> is_not (expr_pool g ! root_ix t) \<longleftrightarrow> negated_single g x"
    using Sub by (cases t) (auto simp: negated_single_def length_Suc_conv)
  with Sub k rep_root [OF t(1)] show ?thesis by (simp add: negated_literal_at_def nth_opt_in)
qed

lemma all_negated_iff:
  "forest g fl (ETree i (as @ bs) # F) \<Longrightarrow>
   all_negated g i [length as..<length as + length bs] = Some (\<forall>x \<in> set bs. negated_single g x)"
proof (induction bs arbitrary: as)
  case (Cons x bs)
  have "[length as..<length as + length (x # bs)] = length as # [length (as @ [x])..<length (as @ [x]) + length bs]"
    by (subst upt_conv_Cons) simp_all
  with negated_literal_at_iff [OF Cons.prems] Cons.IH [of "as @ [x]"] Cons.prems show ?case by simp
qed simp

lemma toggle_grandchild_spec:
  assumes f: "alloc_forest s (ETree i (as @ Sub (ETree ei [Sub c]) # bs) # F)" and nt: "is_not (expr_pool (ea_g s) ! ei)"
    and g': "g' = (ea_g s)\<lparr>expr_pool := (expr_pool (ea_g s))[root_ix c := toggle_not (expr_pool (ea_g s) ! root_ix c)]\<rparr>"
  shows "reshaped s i F (s\<lparr>ea_g := g'\<rparr>) (as @ Sub (ETree ei [Sub c]) # bs)"
    "step_keeps negate_pull s (s\<lparr>ea_g := g'\<rparr>) as (Sub (ETree ei [Sub c])) (Sub (ETree ei [Sub c])) bs"
proof -
  let ?g = "ea_g s" and ?fl = "expr_free_list s" and ?x = "Sub (ETree ei [Sub c])" and ?j = "root_ix c"
  let ?T = "ETree i (as @ ?x # bs)"
  from f have sl: "slots_ok ?g ?fl (?T # F)" and fa: "fanouts_ok ?g (?T # F)" and r: "rep ?g ?T" "\<forall>t \<in> set F. rep ?g t"
    by (auto simp: forest_def)
  let ?rest = "set (kids_ixs as) \<union> set (kids_ixs bs) \<union> set (forest_ixs F) \<union> set (kids_ixs (kids c)) \<union> {i, ei}"
  from sl have sl': "length (expr_graph_node_pool ?g) = length (expr_pool ?g)" "distinct (forest_ixs (?T # F) @ ?fl)"
    "set (forest_ixs (?T # F) @ ?fl) = {..<length (expr_pool ?g)}" by (simp_all only: slots_ok_def)
  have cx: "ixs c = ?j # kids_ixs (kids c)" by (rule ixs_Cons)
  have d: "?j \<notin> ?rest" "?j \<notin> set ?fl" using sl'(2) by (auto simp: cx)
  have "insert ?j ?rest \<subseteq> set (forest_ixs (?T # F) @ ?fl)" by (auto simp: cx)
  then have b: "k < length (expr_pool ?g) \<and> k < length (expr_graph_node_pool ?g)" if "k = ?j \<or> k \<in> ?rest" for k
    using that sl'(1) unfolding sl'(3) by auto
  have "eq_on ?rest ?g g'"
    unfolding eq_on_def
  proof
    fix k assume k: "k \<in> ?rest"
    with b [of k] show "k < length (expr_pool g') \<and> k < length (expr_graph_node_pool g') \<and> expr_pool g' ! k = expr_pool ?g ! k \<and>
        expr_graph_node_pool g' ! k = expr_graph_node_pool ?g ! k" by (simp add: g' nth_update_notin [OF d(1)])
  qed
  then have eq: "eq_on (set (kids_ixs as)) ?g g'" "eq_on (set (kids_ixs bs)) ?g g'" "eq_on (set (forest_ixs F)) ?g g'"
    "eq_on (set (kids_ixs (kids c))) ?g g'" "eq_on {i, ei} ?g g'" by (simp_all only: eq_on_Un)
  then have ei: "expr_pool g' ! i = expr_pool ?g ! i" "expr_pool g' ! ei = expr_pool ?g ! ei" by (simp_all add: eq_on_def)
  from r(1) have rk: "rep_kids ?g i 0 as" "rep_kids ?g i (Suc (length as)) bs" "rep ?g c" by auto
  note fr = rep_frame(2) [OF rk(1) eq(1)] rep_frame(2) [OF rk(2) eq(2)]
  have j: "expr_pool g' ! ?j = toggle_not (expr_pool ?g ! ?j)" "expr_graph_node_pool g' = expr_graph_node_pool ?g" using b [of ?j] by (simp_all add: g')
  have jl: "?j < length (expr_pool g')" "?j < length (expr_graph_node_pool g')" using b [of ?j] by (simp_all add: g')
  from rep_change_root [OF rk(3) eq(4) jl] j(2) have ch: "rep g' c"
    "\<And>val. tree_val g' val c = kleene_expr (expr_pool g' ! ?j) (kids_val ?g val (kids c))" by simp_all
  have v: "tree_val g' val c = negate_pull (tree_val ?g val c)" for val unfolding ch(2) j(1) by (cases c) simp
  have lk: "linked g' ei 0 c" "tree_closed g' c" "linked g' i (length as) (ETree ei [Sub c])" "tree_closed g' (ETree ei [Sub c])"
    using r(1) j ei(2) by (simp_all add: linked_def tree_closed_def)
  have "length (expr_pool g') = length (expr_pool ?g)" by (simp add: g')
  with r(1) fr ch(1) j(2) lk have ri: "rep g' ?T" by simp
  have "slots_ok g' ?fl (?T # F)" using sl by (simp add: slots_ok_def g' nth_update_notin [OF d(2)])
  moreover have "fanouts_ok g' (?T # F)" by (rule fanouts_ok_cong [OF fa]) (simp_all add: g')
  ultimately have "forest g' ?fl (?T # F)" using ri reps_frame [OF r(2) eq(3)] by (simp add: forest_def)
  then show "reshaped s i F (s\<lparr>ea_g := g'\<rparr>) (as @ ?x # bs)" using eq(3) ei(1) by (simp add: reshaped_def alloc_frame_def) (simp add: g')
  show "step_keeps negate_pull s (s\<lparr>ea_g := g'\<rparr>) as ?x ?x bs"
    using fr eq(2) ei(2) nt v by (simp add: step_keeps_def kleene_single)
qed

lemma denormalize_at_spec:
  assumes f: "alloc_forest s (ETree i (as @ x # bs) # F)" and q: "negated_single (ea_g s) x"
  shows "\<exists>s' x'. denormalize_at i (length as) s = Some s' \<and> reshaped s i F s' (as @ x' # bs) \<and> step_keeps negate_pull s s' as x x' bs"
proof -
  let ?g = "ea_g s"
  from q obtain ei c where x: "x = Sub (ETree ei [c])" and nt: "is_not (expr_pool ?g ! ei)" by (auto simp: negated_single_def)
  note k = kid_facts [OF f]
  from k(5) [OF x] have r: "rep ?g (ETree ei [c])" by simp
  then have b: "ei < length (expr_graph_node_pool ?g)" "nth_opt (children (expr_graph_node_pool ?g ! ei)) 0 = Some (kid_entry c)"
    by (auto simp: nth_opt_in)
  show ?thesis
  proof (cases c)
    case (Leaf n)
    with k b x have ev: "denormalize_at i (length as) s = excise_child i (length as) ei n s" by (simp add: denormalize_at_def nth_opt_in)
    from excise_child_spec [of s i as ei n bs F] f x Leaf obtain s' where
      s': "excise_child i (length as) ei n s = Some s'" "alloc_forest s' (ETree i (as @ Leaf n # bs) # F)"
      "\<forall>val. kids_val (ea_g s') val as = kids_val ?g val as \<and> kids_val (ea_g s') val bs = kids_val ?g val bs"
      "eq_on (set (kids_ixs bs)) ?g (ea_g s')" "expr_pool (ea_g s') ! i = expr_pool ?g ! i"
      "eq_on (set (forest_ixs F)) ?g (ea_g s')" "alloc_frame s s'" by auto
    then have "reshaped s i F s' (as @ Leaf n # bs)" "step_keeps negate_pull s s' as x (Leaf n) bs"
      using nt by (simp_all add: reshaped_def step_keeps_def x Leaf kleene_single)
    with ev s'(1) show ?thesis by auto
  next
    case (Sub t)
    define g' where "g' = ?g\<lparr>expr_pool := (expr_pool ?g)[root_ix t := toggle_not (expr_pool ?g ! root_ix t)]\<rparr>"
    from r Sub have "root_ix t < length (expr_pool ?g)" using rep_root by auto
    with k b x Sub have "denormalize_at i (length as) s = Some (s\<lparr>ea_g := g'\<rparr>)"
      by (simp add: denormalize_at_def nth_opt_in mod_expr_def g'_def)
    moreover from f x Sub have "alloc_forest s (ETree i (as @ Sub (ETree ei [Sub t]) # bs) # F)" by simp
    note toggle_grandchild_spec [OF this nt g'_def]
    ultimately show ?thesis using x Sub by blast
  qed
qed

lemma kleene_toggle_demorgan: "kleene_expr (toggle_demorgan e) (map negate_pull ps) = kleene_expr e ps"
  by (simp add: kleene_expr_def Let_def kleene_demorgan kleene_demorgan')

lemma denormalize_negation_spec:
  assumes f: "alloc_forest s (ETree i ks # F)" and cl: "tree_closed (ea_g s) (ETree i ks)"
  shows "\<exists>s' ks'. denormalize_negation i s = Some s' \<and> alloc_forest s' (ETree i ks' # F) \<and> tree_closed (ea_g s') (ETree i ks') \<and>
    (\<forall>val. tree_val (ea_g s') val (ETree i ks') = tree_val (ea_g s) val (ETree i ks)) \<and>
    eq_on (set (forest_ixs F)) (ea_g s) (ea_g s') \<and> alloc_frame s s'"
proof -
  let ?g = "ea_g s"
  from f have i: "i < length (expr_pool ?g)" by (auto simp: forest_def)
  from cl have n: "unat (expr_size (expr_pool ?g ! i)) = length ks" "ks \<noteq> []" by (simp_all add: tree_closed_def)
  from all_negated_iff [where as = "[]"] f have an: "all_negated ?g i [0..<length ks] = Some (\<forall>x \<in> set ks. negated_single ?g x)" by force
  show ?thesis
  proof (cases "\<forall>x \<in> set ks. negated_single ?g x")
    case False
    with an n i have "denormalize_negation i s = Some s" by (simp add: denormalize_negation_def nth_opt_in)
    with f cl reshaped_refl [OF f] show ?thesis by (auto simp: reshaped_def)
  next
    case True
    have Q: "negated_single g x \<Longrightarrow> eq_on (set (kids_ixs [x])) g g' \<Longrightarrow> negated_single g' x" for g g' x
      by (auto simp: negated_single_def eq_on_def)
    have "\<exists>s1 ks'. fold_loop (denormalize_at i) [length ([] :: ekid list)..<length ([] :: ekid list) + length ks] s = Some s1 \<and>
        reshaped s i F s1 ([] @ ks') \<and> length ks' = length ks \<and>
        (\<forall>val. kids_val (ea_g s1) val ([] @ ks') = kids_val ?g val [] @ map negate_pull (kids_val ?g val ks))"
      by (rule reshape_loop [where Q = negated_single, OF denormalize_at_spec]) (use f True in \<open>auto intro: Q\<close>)
    then obtain s1 ks' where s1: "fold_loop (denormalize_at i) [0..<length ks] s = Some s1" "reshaped s i F s1 ks'" "length ks' = length ks"
      "\<And>val. kids_val (ea_g s1) val ks' = map negate_pull (kids_val ?g val ks)" by auto
    let ?g1 = "ea_g s1"
    define g' where "g' = ?g1\<lparr>expr_pool := (expr_pool ?g1)[i := toggle_demorgan (expr_pool ?g1 ! i)]\<rparr>"
    from s1(2) have f1: "alloc_forest s1 (ETree i ks' # F)" by (simp add: reshaped_def)
    then have "i < length (expr_pool ?g1)" by (auto simp: forest_def)
    with an n i s1(1) True have ev: "denormalize_negation i s = Some (s1\<lparr>ea_g := g'\<rparr>)"
      by (simp add: denormalize_negation_def nth_opt_in mod_expr_def g'_def)
    have c: "forest g' (expr_free_list s1) (ETree i ks' # F)" "eq_on (set (forest_ixs F)) ?g1 g'" "expr_pool g' ! i = toggle_demorgan (expr_pool ?g1 ! i)"
      "\<And>val. tree_val g' val (ETree i ks') = kleene_expr (toggle_demorgan (expr_pool ?g1 ! i)) (kids_val ?g1 val ks')"
      using forest_root_expr [OF f1, of g' "toggle_demorgan (expr_pool ?g1 ! i)"] by (simp_all add: g'_def)
    have e: "expr_pool ?g1 ! i = expr_pool ?g ! i" using s1(2) by (simp add: reshaped_def)
    have "tree_closed g' (ETree i ks')" using n s1(3) c(3) e by (auto simp: tree_closed_def)
    moreover have "tree_val g' val (ETree i ks') = tree_val ?g val (ETree i ks)" for val
      unfolding c(4) s1(4) e by (simp add: kleene_toggle_demorgan)
    moreover have "eq_on (set (forest_ixs F)) ?g g'" using s1(2) c(2) eq_on_trans unfolding reshaped_def by blast
    moreover have "alloc_frame s (s1\<lparr>ea_g := g'\<rparr>)" using s1(2) by (simp add: reshaped_def alloc_frame_def g'_def)
    ultimately show ?thesis using ev c(1) by (intro exI [of _ "s1\<lparr>ea_g := g'\<rparr>"] exI [of _ ks']) simp
  qed
qed

text \<open>Both optimizations keep the value of the expression they are applied to.\<close>

lemma graph_surgery_spec:
  assumes f: "alloc_forest s (ETree i ks # F)" and cl: "tree_closed (ea_g s) (ETree i ks)"
  shows "\<exists>s' ks'. graph_surgery flags i s = Some s' \<and> ret_ex_index s' = i \<and> alloc_forest s' (ETree i ks' # F) \<and>
    tree_closed (ea_g s') (ETree i ks') \<and> (\<forall>val. tree_val (ea_g s') val (ETree i ks') = tree_val (ea_g s) val (ETree i ks)) \<and>
    eq_on (set (forest_ixs F)) (ea_g s) (ea_g s') \<and> alloc_frame s s'"
proof -
  from cl have n: "unat (expr_size (expr_pool (ea_g s) ! i)) = length ks" "ks \<noteq> []" by (simp_all add: tree_closed_def)
  from fold_literal_spec [OF f n(1)] obtain s1' ks1' where fo: "fold_literal i s = Some s1'" "reshaped s i F s1' ks1'"
    "length ks1' = length ks" "\<And>val. kids_val (ea_g s1') val ks1' = kids_val (ea_g s) val ks" by auto
  define s1 where "s1 = (if is_fold_literals flags then s1' else s)"
  define ks1 where "ks1 = (if is_fold_literals flags then ks1' else ks)"
  have 1: "reshaped s i F s1 ks1" "length ks1 = length ks" "kids_val (ea_g s1) val ks1 = kids_val (ea_g s) val ks" for val
    using fo reshaped_refl [OF f] by (simp_all add: s1_def ks1_def)
  then have cl1: "tree_closed (ea_g s1) (ETree i ks1)" using n by (auto simp: tree_closed_def reshaped_def)
  from 1(1) have f1: "alloc_forest s1 (ETree i ks1 # F)" and e1: "expr_pool (ea_g s1) ! i = expr_pool (ea_g s) ! i"
    and q1: "eq_on (set (forest_ixs F)) (ea_g s) (ea_g s1)" "alloc_frame s s1" by (auto simp: reshaped_def)
  from denormalize_negation_spec [OF f1 cl1] obtain s2' ks2' where de: "denormalize_negation i s1 = Some s2'" "alloc_forest s2' (ETree i ks2' # F)"
    "tree_closed (ea_g s2') (ETree i ks2')" "\<And>val. tree_val (ea_g s2') val (ETree i ks2') = tree_val (ea_g s1) val (ETree i ks1)"
    "eq_on (set (forest_ixs F)) (ea_g s1) (ea_g s2')" "alloc_frame s1 s2'" by auto
  have v1: "tree_val (ea_g s1) val (ETree i ks1) = tree_val (ea_g s) val (ETree i ks)" for val using 1(3) e1 by simp
  show ?thesis
  proof (cases "is_denormalize_negations flags")
    case True
    have "graph_surgery flags i s = Some (s2'\<lparr>ret_ex_index := i\<rparr>)" using fo(1) de(1) True by (simp add: graph_surgery_def s1_def split: if_splits)
    with de v1 eq_on_trans [OF q1(1) de(5)] alloc_frame_trans [OF q1(2) de(6)] show ?thesis by auto
  next
    case False
    have "graph_surgery flags i s = Some (s1\<lparr>ret_ex_index := i\<rparr>)" using fo(1) False by (simp add: graph_surgery_def s1_def)
    with f1 cl1 v1 q1 show ?thesis by auto
  qed
qed

section \<open>Expressions of the footprint\<close>

text \<open>
  The meaning of a footprint expression: the syntax tree read off the pool, over local nodes counted from 0, and its
  three-valued value. Internal nodes stand for their expressions; they need a rule (\<open>ok\<close>).
\<close>

datatype fexpr = FLit nat | FNot fexpr | FAnd "fexpr list" | FOr "fexpr list"

fun fexpr_value :: "(nat \<Rightarrow> pull_enum) \<Rightarrow> fexpr \<Rightarrow> pull_enum" where
  "fexpr_value val (FLit n) = val n"
| "fexpr_value val (FNot e) = negate_pull (fexpr_value val e)"
| "fexpr_value val (FAnd es) = kleene_and (map (fexpr_value val) es)"
| "fexpr_value val (FOr es) = kleene_or (map (fexpr_value val) es)"

fun fe_tree :: "bool \<Rightarrow> nat \<Rightarrow> prs_footprint \<Rightarrow> nat \<Rightarrow> nat \<Rightarrow> fexpr option" where
  "fe_tree ok N pf 0 i = None"
| "fe_tree ok N pf (Suc k) i = do {
     e \<leftarrow> pool_at (pf_expr_pool pf) i;
     if fe_type e = PRS_LITERAL_TYPE_ENUM then
       (case fe_nodes e of [n] \<Rightarrow> if n \<noteq> 0 \<and> n \<le> N then Some (FLit (n - 1)) else None | _ \<Rightarrow> None)
     else if fe_type e = PRS_NOT_EXPR_TYPE_ENUM then
       (case fe_nodes e of [c] \<Rightarrow> map_option FNot (fe_tree ok N pf k c) | _ \<Rightarrow> None)
     else if fe_type e = PRS_AND_EXPR_TYPE_ENUM then do {
       INVARIANT (fe_nodes e \<noteq> [] \<and> length (fe_nodes e) \<le> 65535);
       map_option FAnd (those (map (fe_tree ok N pf k) (fe_nodes e))) }
     else if fe_type e = PRS_OR_EXPR_TYPE_ENUM then do {
       INVARIANT (fe_nodes e \<noteq> [] \<and> length (fe_nodes e) \<le> 65535);
       map_option FOr (those (map (fe_tree ok N pf k) (fe_nodes e))) }
     else if fe_type e = PRS_NODE_TYPE_ENUM then
       (case fe_nodes e of
          [c] \<Rightarrow> if ok then do {
              ind \<leftarrow> find_internal_node pf c;
              _ \<leftarrow> lookup_supply sup_int_nodes_first pf ind;
              fe_tree ok N pf k c }
            else None
        | _ \<Rightarrow> None)
     else None }"

definition ready :: "bool \<Rightarrow> nat \<Rightarrow> expr_alloc \<Rightarrow> bool" where
  "ready ok N s \<longleftrightarrow> length (local_faninout_map (ea_g s)) = N \<and> \<not> at_source s \<and> (ok \<longrightarrow> temp_rule s \<noteq> None)"

lemma ready_frame: "alloc_frame s s' \<Longrightarrow> ready ok N s' = ready ok N s"
  using alloc_frame_nodes [of s s'] by (auto simp: ready_def alloc_frame_def)

text \<open>What a visit of an expression must do: add one closed tree of the right value.\<close>

definition built :: "expr_alloc \<Rightarrow> etree list \<Rightarrow> expr_alloc \<Rightarrow> etree \<Rightarrow> fexpr \<Rightarrow> bool" where
  "built s F s' t e \<longleftrightarrow> ret_ex_index s' = root_ix t \<and> alloc_forest s' (t # F) \<and> tree_closed (ea_g s') t \<and>
     (\<forall>val. tree_val (ea_g s') val t = fexpr_value val e) \<and> eq_on (set (forest_ixs F)) (ea_g s) (ea_g s') \<and> alloc_frame s s'"

definition builds :: "bool \<Rightarrow> nat \<Rightarrow> visitor \<Rightarrow> (nat \<Rightarrow> fexpr option) \<Rightarrow> bool" where
  "builds ok N v tr \<longleftrightarrow> (\<forall>i e s F. tr i = Some e \<longrightarrow> alloc_forest s F \<longrightarrow> ready ok N s \<longrightarrow> (\<exists>s' t. v i s = Some s' \<and> built s F s' t e))"

lemma buildsD:
  assumes "builds ok N v tr" and "tr i = Some e" and "alloc_forest s F" and "ready ok N s"
  shows "\<exists>s' t. v i s = Some s' \<and> built s F s' t e"
  using assms unfolding builds_def by blast

lemma link_children_spec:
  assumes v: "builds ok N v tr"
  shows "alloc_forest s (ETree i ks # F) \<Longrightarrow> ready ok N s \<Longrightarrow> those (map tr xs) = Some es \<Longrightarrow> k = length ks \<Longrightarrow>
    \<exists>s' ks'. link_children v i k xs s = Some s' \<and> reshaped s i F s' (ks @ ks') \<and> length ks' = length xs \<and>
      (\<forall>val. kids_val (ea_g s') val (ks @ ks') = kids_val (ea_g s) val ks @ map (fexpr_value val) es)"
proof (induction xs arbitrary: s ks es k)
  case Nil
  then show ?case by (auto intro: reshaped_refl)
next
  case (Cons x xs)
  from Cons.prems(3) obtain e es' where e: "tr x = Some e" "those (map tr xs) = Some es'" "es = e # es'"
    by (auto split: option.splits)
  from buildsD [OF v e(1) Cons.prems(1,2)] obtain s1 t where 1: "v x s = Some s1" "ret_ex_index s1 = root_ix t"
    "alloc_forest s1 (t # ETree i ks # F)" "tree_closed (ea_g s1) t" "\<And>val. tree_val (ea_g s1) val t = fexpr_value val e"
    "eq_on (set (forest_ixs (ETree i ks # F))) (ea_g s) (ea_g s1)" "alloc_frame s s1" by (auto simp: built_def)
  from 1(6) have e1: "eq_on (set (ixs (ETree i ks))) (ea_g s) (ea_g s1)" "eq_on (set (forest_ixs F)) (ea_g s) (ea_g s1)"
    by (simp_all only: forest_ixs_simps set_append eq_on_Un)
  from Cons.prems(1) have r: "rep (ea_g s) (ETree i ks)" by (simp add: forest_def)
  then have "rep_kids (ea_g s) i 0 ks" by simp
  with rep_frame(2) [of "ea_g s" i 0 ks "ea_g s1"] e1(1) have k1: "kids_val (ea_g s1) val ks = kids_val (ea_g s) val ks" for val
    by (auto intro: eq_on_mono)
  from link_child_expr_spec [OF 1(3,4) Cons.prems(4)] obtain s2 where 2: "link_child_expr i (root_ix t) k s1 = Some s2"
    "alloc_forest s2 (ETree i (ks @ [Sub t]) # F)"
    "\<And>val. kids_val (ea_g s2) val (ks @ [Sub t]) = kids_val (ea_g s1) val ks @ [tree_val (ea_g s1) val t]"
    "expr_pool (ea_g s2) ! i = expr_pool (ea_g s1) ! i" "eq_on (set (forest_ixs F)) (ea_g s1) (ea_g s2)" "alloc_frame s1 s2" by auto
  have r2: "reshaped s i F s2 (ks @ [Sub t])"
    using 2 e1 1(7) by (auto simp: reshaped_def eq_on_def [of "insert i _"] intro: eq_on_trans alloc_frame_trans)
  from Cons.IH [OF 2(2) _ e(2), of "Suc k"] Cons.prems(2,4) ready_frame [OF 1(7)] ready_frame [OF 2(6)]
  obtain s3 ks' where 3: "link_children v i (Suc k) xs s2 = Some s3" "reshaped s2 i F s3 ((ks @ [Sub t]) @ ks')" "length ks' = length xs"
    "\<And>val. kids_val (ea_g s3) val ((ks @ [Sub t]) @ ks') = kids_val (ea_g s2) val (ks @ [Sub t]) @ map (fexpr_value val) es'" by auto
  have "kids_val (ea_g s3) val (ks @ Sub t # ks') = kids_val (ea_g s) val ks @ map (fexpr_value val) es" for val
    using 3(4) [of val] unfolding 2(3) 1(5) k1 e(3) by simp
  with 1(1,2) 2(1) 3(1,3) reshaped_trans [OF r2 3(2)] show ?case by (intro exI [of _ s3] exI [of _ "Sub t # ks'"]) simp
qed

lemma kleene_new_Nary:
  "kleene_expr \<lparr>expr_parent = p, expr_type = EXPR_AND, expr_size = n\<rparr> ps = kleene_and ps"
  "kleene_expr \<lparr>expr_parent = p, expr_type = EXPR_OR, expr_size = n\<rparr> ps = kleene_or ps"
  by (simp_all add: kleene_expr_def is_not_def is_disjunctive_def)

text \<open>An expression with all its children, before surgery.\<close>

lemma Nary_children_spec:
  assumes v: "builds ok N v tr" and f: "alloc_forest s F" and rd: "ready ok N s"
    and n: "xs \<noteq> []" "length xs \<le> 65535" and es: "those (map tr xs) = Some es"
  shows "\<exists>i s1 s2 ks. allocate_new_Nary_expr ty (length xs) s = Some (i, s1) \<and> ready ok N s1 \<and> link_children v i 0 xs s1 = Some s2 \<and>
    alloc_forest s1 (ETree i [] # F) \<and> alloc_forest s2 (ETree i ks # F) \<and> tree_closed (ea_g s2) (ETree i ks) \<and>
    (\<forall>val. tree_val (ea_g s2) val (ETree i ks) = (if ty = PRS_AND_EXPR_TYPE_ENUM then kleene_and else kleene_or) (map (fexpr_value val) es)) \<and>
    eq_on (set (forest_ixs F)) (ea_g s) (ea_g s2) \<and> alloc_frame s s2"
proof -
  from allocate_new_Nary_expr_spec [OF f, of "length xs" ty] n obtain i s1 where
    1: "allocate_new_Nary_expr ty (length xs) s = Some (i, s1)" "alloc_forest s1 (ETree i [] # F)"
    "expr_pool (ea_g s1) ! i = \<lparr>expr_parent = INVALID_EXPR_INDEX,
      expr_type = (if ty = PRS_AND_EXPR_TYPE_ENUM then EXPR_AND else EXPR_OR), expr_size = of_nat (length xs)\<rparr>"
    "eq_on (set (forest_ixs F)) (ea_g s) (ea_g s1)" "alloc_frame s s1" by auto
  have rd1: "ready ok N s1" using rd ready_frame [OF 1(5)] by simp
  from link_children_spec [OF v 1(2) rd1 es, of 0] obtain s2 ks where 2: "link_children v i 0 xs s1 = Some s2"
    "reshaped s1 i F s2 ks" "length ks = length xs" "\<And>val. kids_val (ea_g s2) val ks = map (fexpr_value val) es" by auto
  then have e: "expr_pool (ea_g s2) ! i = expr_pool (ea_g s1) ! i" and q: "alloc_forest s2 (ETree i ks # F)"
    "eq_on (set (forest_ixs F)) (ea_g s1) (ea_g s2)" "alloc_frame s1 s2" by (auto simp: reshaped_def)
  have "unat (of_nat (length xs) :: count_type) = length xs" using n(2) by (simp add: unsigned_of_nat take_bit_nat_eq_self)
  with 2(3) n(1) e 1(3) have "tree_closed (ea_g s2) (ETree i ks)" by (auto simp: tree_closed_def)
  moreover have "tree_val (ea_g s2) val (ETree i ks) = (if ty = PRS_AND_EXPR_TYPE_ENUM then kleene_and else kleene_or) (map (fexpr_value val) es)" for val
    using 2(4) [of val] e 1(3) by (simp add: kleene_new_Nary)
  ultimately show ?thesis using 1 rd1 2(1) q eq_on_trans [OF 1(4) q(2)] alloc_frame_trans [OF 1(5) q(3)] by blast
qed

lemma surgery_built:
  assumes "alloc_forest s1 (ETree i ks # F)" and "tree_closed (ea_g s1) (ETree i ks)"
    and "\<forall>val. tree_val (ea_g s1) val (ETree i ks) = fexpr_value val e"
    and "eq_on (set (forest_ixs F)) (ea_g s) (ea_g s1)" and "alloc_frame s s1"
  shows "\<exists>s' t. graph_surgery flags i s1 = Some s' \<and> built s F s' t e"
proof -
  from graph_surgery_spec [OF assms(1,2), of flags] obtain s' ks' where
    g: "graph_surgery flags i s1 = Some s'" "ret_ex_index s' = i" "alloc_forest s' (ETree i ks' # F)" "tree_closed (ea_g s') (ETree i ks')"
    "\<forall>val. tree_val (ea_g s') val (ETree i ks') = tree_val (ea_g s1) val (ETree i ks)"
    "eq_on (set (forest_ixs F)) (ea_g s1) (ea_g s')" "alloc_frame s1 s'" by blast
  have "built s F s' (ETree i ks') e" unfolding built_def
    using g assms(3) eq_on_trans [OF assms(4) g(6)] alloc_frame_trans [OF assms(5) g(7)] by simp
  with g(1) show ?thesis by blast
qed

lemma built_frame: "built s F s' t e \<Longrightarrow> alloc_frame s s'"
  by (simp add: built_def)

lemma visit_and_expr_spec:
  assumes v: "builds ok N v tr" and f: "alloc_forest s F" and rd: "ready ok N s" and ty: "fe_type e = PRS_AND_EXPR_TYPE_ENUM"
    and n: "fe_nodes e \<noteq> []" "length (fe_nodes e) \<le> 65535" and es: "those (map tr (fe_nodes e)) = Some es"
  shows "\<exists>s' t. visit_and_expr v flags e s = Some s' \<and> built s F s' t (FAnd es)"
proof -
  from Nary_children_spec [OF v f rd n es, of "fe_type e"] ty obtain i s1 s2 ks where
    1: "allocate_new_Nary_expr (fe_type e) (length (fe_nodes e)) s = Some (i, s1)" "ready ok N s1" "link_children v i 0 (fe_nodes e) s1 = Some s2"
    "alloc_forest s1 (ETree i [] # F)" and
    2: "alloc_forest s2 (ETree i ks # F)" "tree_closed (ea_g s2) (ETree i ks)" "\<forall>val. tree_val (ea_g s2) val (ETree i ks) = fexpr_value val (FAnd es)"
    "eq_on (set (forest_ixs F)) (ea_g s) (ea_g s2)" "alloc_frame s s2" by auto
  obtain x xs where xs: "fe_nodes e = x # xs" using n(1) by (cases "fe_nodes e") auto
  from es xs obtain e1 where "tr x = Some e1" by (auto split: option.splits)
  from buildsD [OF v this 1(4,2)] obtain s3 t where s3: "v x s1 = Some s3" "built s1 (ETree i [] # F) s3 t e1" by blast
  have "\<not> at_source s3" using 1(2) built_frame [OF s3(2)] by (simp add: ready_def alloc_frame_def)
  then have "visit_and_expr v flags e s = graph_surgery flags i s2"
    using 1(1,3) s3(1) xs by (auto simp: visit_and_expr_def nth_opt_def split: bind_splits)
  with surgery_built [OF 2] show ?thesis by simp
qed

lemma or_branch_builds: "builds ok N v tr \<Longrightarrow> builds ok N (or_branch v) tr"
  unfolding builds_def
proof (intro allI impI)
  fix i e s F
  assume v: "\<forall>i e s F. tr i = Some e \<longrightarrow> alloc_forest s F \<longrightarrow> ready ok N s \<longrightarrow> (\<exists>s' t. v i s = Some s' \<and> built s F s' t e)"
    and a: "tr i = Some e" "alloc_forest s F" "ready ok N s"
  then obtain s' t where s': "v i s = Some s'" "built s F s' t e" by blast
  have "at_source s' = at_source s" "\<not> at_source s" using a(3) built_frame [OF s'(2)] by (simp_all add: ready_def alloc_frame_def)
  then have "or_branch v i s = Some s'" using s'(1) by (simp add: or_branch_def and_supply_def)
  with s'(2) show "\<exists>s' t. or_branch v i s = Some s' \<and> built s F s' t e" by blast
qed

lemma visit_or_expr_spec:
  assumes v: "builds ok N v tr" and f: "alloc_forest s F" and rd: "ready ok N s" and ty: "fe_type e = PRS_OR_EXPR_TYPE_ENUM"
    and n: "fe_nodes e \<noteq> []" "length (fe_nodes e) \<le> 65535" and es: "those (map tr (fe_nodes e)) = Some es"
  shows "\<exists>s' t. visit_or_expr v flags e s = Some s' \<and> built s F s' t (FOr es)"
proof -
  from Nary_children_spec [OF or_branch_builds [OF v] f rd n es, of "fe_type e"] ty obtain i s1 s2 ks where
    1: "allocate_new_Nary_expr (fe_type e) (length (fe_nodes e)) s = Some (i, s1)" "link_children (or_branch v) i 0 (fe_nodes e) s1 = Some s2" and
    2: "alloc_forest s2 (ETree i ks # F)" "tree_closed (ea_g s2) (ETree i ks)" "\<forall>val. tree_val (ea_g s2) val (ETree i ks) = fexpr_value val (FOr es)"
    "eq_on (set (forest_ixs F)) (ea_g s) (ea_g s2)" "alloc_frame s s2" by auto
  have "\<not> at_source s2" using rd 2(5) by (simp add: ready_def alloc_frame_def)
  then have "s2\<lparr>at_source := False\<rparr> = s2" by simp
  with 1 have "visit_or_expr v flags e s = graph_surgery flags i s2" by (simp add: visit_or_expr_def)
  with surgery_built [OF 2] show ?thesis by simp
qed

lemma literal_built:
  assumes f: "alloc_forest s F" and n: "n < length (local_faninout_map (ea_g s))"
  shows "\<exists>s' t. (do { (ret, s1) \<leftarrow> allocate_new_literal_expr n s; Some (s1\<lparr>ret_ex_index := ret\<rparr>) }) = Some s' \<and> built s F s' t (FLit n)"
proof -
  from allocate_new_literal_expr_spec [OF f n] obtain i s1 where 1: "allocate_new_literal_expr n s = Some (i, s1)"
    "alloc_forest s1 (ETree i [Leaf n] # F)"
    "expr_pool (ea_g s1) ! i = \<lparr>expr_parent = INVALID_EXPR_INDEX, expr_type = EXPR_NODE, expr_size = 1\<rparr>"
    "eq_on (set (forest_ixs F)) (ea_g s) (ea_g s1)" "alloc_frame s s1" by auto
  have "built s F (s1\<lparr>ret_ex_index := i\<rparr>) (ETree i [Leaf n]) (FLit n)"
    using 1 by (simp add: built_def tree_closed_def kleene_single is_not_def)
  with 1(1) show ?thesis by auto
qed

lemma not_built:
  assumes b: "built s F s1 t e"
  shows "\<exists>s' t'. (do { (ret, s2) \<leftarrow> allocate_new_not_expr (ret_ex_index s1) s1; Some (s2\<lparr>ret_ex_index := ret\<rparr>) }) = Some s' \<and>
    built s F s' t' (FNot e)"
proof -
  from b have 1: "ret_ex_index s1 = root_ix t" "alloc_forest s1 (t # F)" "tree_closed (ea_g s1) t"
    "\<And>val. tree_val (ea_g s1) val t = fexpr_value val e" "eq_on (set (forest_ixs F)) (ea_g s) (ea_g s1)" "alloc_frame s s1"
    by (auto simp: built_def)
  from allocate_new_not_expr_spec [OF 1(2,3)] obtain s2 where 2: "allocate_new_not_expr (root_ix t) s1 = Some (root_ix t, s2)"
    "alloc_forest s2 (t # F)" "tree_closed (ea_g s2) t" "\<And>val. tree_val (ea_g s2) val t = negate_pull (tree_val (ea_g s1) val t)"
    "eq_on (set (forest_ixs F)) (ea_g s1) (ea_g s2)" "alloc_frame s1 s2" by auto
  have "built s F (s2\<lparr>ret_ex_index := root_ix t\<rparr>) t (FNot e)"
    using 1 2 eq_on_trans [OF 1(5) 2(5)] alloc_frame_trans [OF 1(6) 2(6)] by (simp add: built_def)
  with 1(1) 2(1) show ?thesis by auto
qed

text \<open>\<^verbatim>\<open>visit(footprint_expr_node)\<close> builds the tree of the expression, for every setting of the optimization flags.\<close>

lemma visit_expr_builds: "builds ok N (visit_expr k pf flags) (fe_tree ok N pf k)"
proof (induction k)
  case 0
  show ?case by (simp add: builds_def)
next
  case (Suc k)
  show ?case
    unfolding builds_def
  proof (intro allI impI)
    fix i x s F
    assume x: "fe_tree ok N pf (Suc k) i = Some x" and f: "alloc_forest s F" and rd: "ready ok N s"
    then obtain e where e: "pool_at (pf_expr_pool pf) i = Some e" by (auto split: bind_splits)
    consider (lit) n where "fe_type e = PRS_LITERAL_TYPE_ENUM" "fe_nodes e = [n]" "n \<noteq> 0" "n \<le> N" "x = FLit (n - 1)"
      | (neg) c y where "fe_type e = PRS_NOT_EXPR_TYPE_ENUM" "fe_nodes e = [c]" "fe_tree ok N pf k c = Some y" "x = FNot y"
      | (conj) es where "fe_type e = PRS_AND_EXPR_TYPE_ENUM" "fe_nodes e \<noteq> []" "length (fe_nodes e) \<le> 65535"
          "those (map (fe_tree ok N pf k) (fe_nodes e)) = Some es" "x = FAnd es"
      | (disj) es where "fe_type e = PRS_OR_EXPR_TYPE_ENUM" "fe_nodes e \<noteq> []" "length (fe_nodes e) \<le> 65535"
          "those (map (fe_tree ok N pf k) (fe_nodes e)) = Some es" "x = FOr es"
      | (int) c ind sup where "fe_type e = PRS_NODE_TYPE_ENUM" "fe_nodes e = [c]" "ok" "find_internal_node pf c = Some ind"
          "lookup_supply sup_int_nodes_first pf ind = Some sup" "fe_tree ok N pf k c = Some x"
      using x e by (auto split: if_splits list.splits bind_splits option.splits)
    then show "\<exists>s' t. visit_expr (Suc k) pf flags i s = Some s' \<and> built s F s' t x"
    proof cases
      case lit
      then have "lookup_local_bool_id n = n - 1" "n - 1 < length (local_faninout_map (ea_g s))" using rd by (auto simp: lookup_local_bool_id_def ready_def)
      with literal_built [OF f] e lit show ?thesis by (simp add: fe_only_def nth_opt_def)
    next
      case neg
      from buildsD [OF Suc neg(3) f rd] obtain s1 t where "visit_expr k pf flags c s = Some s1" "built s F s1 t y" by blast
      with not_built e neg show ?thesis by (simp add: fe_only_def nth_opt_def)
    next
      case conj
      from visit_and_expr_spec [OF Suc f rd conj(1-4)] e conj show ?thesis by simp
    next
      case disj
      from visit_or_expr_spec [OF Suc f rd disj(1-4)] e disj show ?thesis by simp
    next
      case int
      from int(3) rd obtain r where r: "temp_rule s = Some r" by (auto simp: ready_def)
      let ?s = "s\<lparr>power_supply := lookup_local_bool_id (if direction r then sup_Vdd sup else sup_GND sup)\<rparr>"
      from f rd have "alloc_forest ?s F" "ready ok N ?s" by (simp_all add: ready_def)
      from buildsD [OF Suc int(6) this] obtain s1 t where s1: "visit_expr k pf flags c ?s = Some s1" "built ?s F s1 t x" by blast
      have "\<not> at_source s1" using rd built_frame [OF s1(2)] by (simp add: ready_def alloc_frame_def)
      with s1(1) r e int have "visit_expr (Suc k) pf flags i s = Some (s1\<lparr>power_supply := power_supply s\<rparr>)"
        by (simp add: visit_internal_node_def fe_only_def nth_opt_def and_supply_def)
      moreover have "built s F (s1\<lparr>power_supply := power_supply s\<rparr>) t x" using s1(2) by (simp add: built_def alloc_frame_def)
      ultimately show ?thesis by blast
    qed
  qed
qed

end
