(* ===== verification/Alloc_Rules.thy ===== *)
theory Alloc_Rules
  imports Alloc_Ok
begin

text \<open>
  The graph of a process type as a whole: every rule and invariant of the footprint becomes a root expression with the
  meaning of its guard, and the finished graph passes the structural checks that simulation relies on.
\<close>

section \<open>Roots\<close>

text \<open>A root tree with its guard and what it drives: a node in a direction with a strength, or an invariant.\<close>

datatype target = Drive nat bool bool | Invar nat

type_synonym built_rule = "etree \<times> fexpr \<times> target"

fun target_ok :: "unique_process_subgraph \<Rightarrow> nat \<Rightarrow> rule \<Rightarrow> target \<Rightarrow> bool" where
  "target_ok g i r (Drive n d w) \<longleftrightarrow> expr_parent (expr_pool g ! i) = n \<and> n < length (local_faninout_map g) \<and>
     direction r = d \<and> rule_is_weak r = w \<and> \<not> is_invariant r"
| "target_ok g i r (Invar j) \<longleftrightarrow> is_invariant r \<and> invariant_map g i = Some j"

definition entry_ok :: "unique_process_subgraph \<Rightarrow> nat \<Rightarrow> built_rule \<Rightarrow> bool" where
  "entry_ok g k x \<longleftrightarrow> (case x of (t, e, tg) \<Rightarrow> tree_closed g t \<and> is_root (expr_pool g ! root_ix t) \<and>
     (\<forall>val. tree_val g val t = fexpr_value val e) \<and> rule_map g (root_ix t) = Some k \<and>
     target_ok g (root_ix t) (rule_pool g ! k) tg)"

definition pull_roots :: "built_rule list \<Rightarrow> nat \<Rightarrow> bool \<Rightarrow> bool \<Rightarrow> nat list" where
  "pull_roots R n d w = map (\<lambda>x. root_ix (fst x)) (filter (\<lambda>x. snd (snd x) = Drive n d w) R)"

definition rules_inv :: "unique_process_subgraph \<Rightarrow> built_rule list \<Rightarrow> bool" where
  "rules_inv g R \<longleftrightarrow> length (rule_pool g) = length R \<and> (\<forall>k < length R. entry_ok g k (R ! k)) \<and>
     dom (rule_map g) = (\<lambda>x. root_ix (fst x)) ` set R \<and>
     (\<forall>n < length (local_faninout_map g). \<forall>d w. get_pull_expr d w (local_faninout_map g ! n) = pull_roots R n d w)"

definition alloc_inv :: "expr_alloc \<Rightarrow> built_rule list \<Rightarrow> bool" where
  "alloc_inv s R \<longleftrightarrow> alloc_forest s (map fst R) \<and> rules_inv (ea_g s) R"

lemma pull_roots_append [simp]: "pull_roots (R @ Q) n d w = pull_roots R n d w @ pull_roots Q n d w"
  by (simp add: pull_roots_def)

lemma pulls_frame:
  assumes "map (fio_fanout_update (\<lambda>_. [])) l' = map (fio_fanout_update (\<lambda>_. [])) l"
  shows "length l' = length l" "n < length l \<Longrightarrow> get_pull_expr d w (l' ! n) = get_pull_expr d w (l ! n)"
proof -
  from assms show len: "length l' = length l" by (rule map_eq_imp_length_eq)
  show "get_pull_expr d w (l' ! n) = get_pull_expr d w (l ! n)" if "n < length l"
  proof -
    from assms that len have "(l' ! n)\<lparr>fio_fanout := []\<rparr> = (l ! n)\<lparr>fio_fanout := []\<rparr>" by (simp add: list_eq_iff_nth_eq)
    then show ?thesis by (metis get_pull_expr_fanout)
  qed
qed

lemma entry_frame:
  assumes "entry_ok g k (t, e, tg)" and "rep g t" and "eq_on (set (ixs t)) g g'"
    and "rule_map g' (root_ix t) = rule_map g (root_ix t)" and "rule_pool g' ! k = rule_pool g ! k"
    and "invariant_map g' (root_ix t) = invariant_map g (root_ix t)" and "length (local_faninout_map g') = length (local_faninout_map g)"
  shows "entry_ok g' k (t, e, tg)"
proof -
  from assms(3) have "expr_pool g' ! root_ix t = expr_pool g ! root_ix t" by (simp add: eq_on_def)
  with assms rep_frame(1) [OF assms(2,3)] show ?thesis by (cases tg) (auto simp: entry_ok_def tree_closed_def)
qed

lemma entries_frame:
  assumes R: "\<forall>k < length R. entry_ok g k (R ! k)" and f: "forest g fl F" "set (map fst R) \<subseteq> set F"
    and eq: "eq_on (set (forest_ixs (map fst R))) g g'"
    and "\<And>t. t \<in> set (map fst R) \<Longrightarrow> rule_map g' (root_ix t) = rule_map g (root_ix t)"
    and "\<And>k. k < length R \<Longrightarrow> rule_pool g' ! k = rule_pool g ! k"
    and "\<And>t. t \<in> set (map fst R) \<Longrightarrow> invariant_map g' (root_ix t) = invariant_map g (root_ix t)"
    and "length (local_faninout_map g') = length (local_faninout_map g)"
  shows "\<forall>k < length R. entry_ok g' k (R ! k)"
proof (intro allI impI)
  fix k assume k: "k < length R"
  obtain t e tg where x: "R ! k = (t, e, tg)" by (cases "R ! k") auto
  with nth_mem [OF k] have t: "t \<in> set (map fst R)" by (force simp: image_iff)
  then have "set (ixs t) \<subseteq> set (forest_ixs (map fst R))" by (auto simp: forest_ixs_def)
  with eq have 1: "eq_on (set (ixs t)) g g'" by (rule eq_on_mono)
  have 2: "rep g t" using forest_in(1) [OF f(1)] f(2) t by blast
  have 3: "entry_ok g k (t, e, tg)" using R k x by metis
  show "entry_ok g' k (R ! k)"
    unfolding x by (rule entry_frame [OF 3 2 1 assms(5) [OF t] assms(6) [OF k] assms(7) [OF t] assms(8)])
qed

text \<open>Building an expression does not disturb the roots that are already there.\<close>

lemma rules_inv_built:
  assumes a: "alloc_inv s R" and b: "built s (map fst R) s' t e"
  shows "rules_inv (ea_g s') R"
proof -
  from a have f: "alloc_forest s (map fst R)" and r: "rules_inv (ea_g s) R" by (auto simp: alloc_inv_def)
  from b have fr: "alloc_frame s s'" and eq: "eq_on (set (forest_ixs (map fst R))) (ea_g s) (ea_g s')" by (auto simp: built_def)
  from fr have "\<forall>k < length R. entry_ok (ea_g s') k (R ! k)"
    using entries_frame [OF _ f _ eq] r alloc_frame_nodes [OF fr] by (auto simp: rules_inv_def alloc_frame_def)
  with r fr pulls_frame [of "local_faninout_map (ea_g s')" "local_faninout_map (ea_g s)"] show ?thesis
    by (auto simp: rules_inv_def alloc_frame_def)
qed

section \<open>Linking a root\<close>

lemma set_root_kleene [simp]: "kleene_expr (expr_pull n e) ps = kleene_expr e ps" "kleene_expr (invariant_root e) ps = kleene_expr e ps"
  "expr_size (expr_pull n e) = expr_size e" "expr_size (invariant_root e) = expr_size e" "is_root (expr_pull n e)" "is_root (invariant_root e)"
  "expr_parent (expr_pull n e) = n"
  by (simp_all add: expr_pull_def invariant_root_def kleene_expr_def is_not_def is_disjunctive_def set_root_def is_root_def
      and1_bit and2_bit and4_bit bit_simps)

text \<open>One more root: the new entry comes last.\<close>

lemma rules_inv_snoc:
  assumes r: "rules_inv g R" and f: "forest g fl (t # map fst R)" and cl: "tree_closed g t" and v: "\<forall>val. tree_val g val t = fexpr_value val e"
    and g': "forest g' fl (t # map fst R)" "eq_on (set (forest_ixs (map fst R))) g g'"
      "expr_size (expr_pool g' ! root_ix t) = expr_size (expr_pool g ! root_ix t)" "is_root (expr_pool g' ! root_ix t)"
      "\<forall>val. tree_val g' val t = tree_val g val t"
      "rule_map g' = (rule_map g)(root_ix t \<mapsto> length (rule_pool g))" "rule_pool g' = rule_pool g @ [rl]"
      "target_ok g' (root_ix t) rl tg" "\<And>i. i \<noteq> root_ix t \<Longrightarrow> invariant_map g' i = invariant_map g i"
      "length (local_faninout_map g') = length (local_faninout_map g)"
      "\<And>n d w. n < length (local_faninout_map g) \<Longrightarrow> get_pull_expr d w (local_faninout_map g' ! n) =
         get_pull_expr d w (local_faninout_map g ! n) @ (if tg = Drive n d w then [root_ix t] else [])"
  shows "rules_inv g' (R @ [(t, e, tg)]) \<and> forest g' fl (map fst (R @ [(t, e, tg)]))"
proof
  have ne: "root_ix u \<noteq> root_ix t" if "u \<in> set (map fst R)" for u
  proof -
    from that have "root_ix u \<in> set (forest_ixs (map fst R))" by (force simp: forest_ixs_def)
    with forest_rest(4) [OF f] show ?thesis by auto
  qed
  from r have rl: "length (rule_pool g) = length R" "\<forall>k < length R. entry_ok g k (R ! k)" by (auto simp: rules_inv_def)
  have "\<forall>k < length R. entry_ok g' k (R ! k)"
  proof (rule entries_frame [OF rl(2) f _ g'(2)])
    show "rule_pool g' ! k = rule_pool g ! k" if "k < length R" for k using that rl(1) g'(7) by (simp add: nth_append)
  qed (use ne g' in auto)
  moreover have "entry_ok g' (length R) (t, e, tg)"
    using cl v g' rl(1) by (simp add: entry_ok_def tree_closed_def nth_append)
  ultimately show "rules_inv g' (R @ [(t, e, tg)])" using r rl g'
    by (auto simp: rules_inv_def nth_append less_Suc_eq pull_roots_def)
  have "mset (map fst (R @ [(t, e, tg)])) = mset (t # map fst R)" by simp
  with g'(1) forest_perm show "forest g' fl (map fst (R @ [(t, e, tg)]))" by blast
qed

text \<open>Between rules no expression is under construction.\<close>

definition idle :: "nat \<Rightarrow> expr_alloc \<Rightarrow> bool" where
  "idle N s \<longleftrightarrow> length (local_faninout_map (ea_g s)) = N \<and> \<not> at_source s \<and> \<not> suppress_keeper_rule s"

lemma alloc_inv_cong: "ea_g s' = ea_g s \<Longrightarrow> expr_free_list s' = expr_free_list s \<Longrightarrow> alloc_inv s' R = alloc_inv s R"
  by (simp add: alloc_inv_def)

lemma link_node_to_root_expr_spec:
  assumes a: "alloc_inv s R" and b: "built s (map fst R) s1 t e" and n: "n < length (local_faninout_map (ea_g s))"
    and q: "rule_is_weak q = w" "\<not> is_invariant q"
  shows "\<exists>s'. link_node_to_root_expr n (root_ix t) d q w s1 = Some s' \<and> alloc_inv s' (R @ [(t, e, Drive n d w)]) \<and>
    length (local_faninout_map (ea_g s')) = length (local_faninout_map (ea_g s1)) \<and> at_source s' = at_source s1 \<and>
    suppress_keeper_rule s' = suppress_keeper_rule s1 \<and> temp_rule s' = temp_rule s1 \<and> power_supply s' = power_supply s1"
proof -
  let ?g = "ea_g s1" and ?c = "root_ix t"
  from b have f: "alloc_forest s1 (t # map fst R)" and cl: "tree_closed ?g t" and v: "\<forall>val. tree_val ?g val t = fexpr_value val e"
    and fr: "alloc_frame s s1" by (auto simp: built_def)
  have n1: "n < length (local_faninout_map ?g)" using n alloc_frame_nodes [OF fr] by simp
  from forest_in(3) [OF f, of t ?c] have c: "?c < length (expr_pool ?g)" "?c < length (expr_graph_node_pool ?g)" by auto
  let ?fin = "get_pull_expr d w (local_faninout_map ?g ! n)"
  define x where "x = (expr_graph_node_pool ?g ! ?c)\<lparr>offset := of_nat (length ?fin)\<rparr>"
  define lf where "lf = (local_faninout_map ?g)[n := set_pull_expr d w (?fin @ [?c]) (local_faninout_map ?g ! n)]"
  define g' where "g' = ?g\<lparr>expr_pool := (expr_pool ?g)[?c := expr_pull n (expr_pool ?g ! ?c)], expr_graph_node_pool := (expr_graph_node_pool ?g)[?c := x],
    local_faninout_map := lf, rule_map := (rule_map ?g)(?c \<mapsto> length (rule_pool ?g)), rule_pool := rule_pool ?g @ [set_direction d q]\<rparr>"
  have ev: "link_node_to_root_expr n ?c d q w s1 = Some (s1\<lparr>ea_g := g'\<rparr>)"
    using n1 c by (simp add: link_node_to_root_expr_def mod_graph_node_def mod_faninout_def mod_expr_def nth_opt_in g'_def x_def lf_def Let_def)
  have "map fio_fanout lf = map fio_fanout (local_faninout_map ?g)"
    using n1 by (intro nth_equalityI) (simp_all add: lf_def nth_list_update)
  then have ch: "forest g' (expr_free_list s1) (t # map fst R)" "eq_on (set (forest_ixs (map fst R))) ?g g'"
    "expr_pool g' ! ?c = expr_pull n (expr_pool ?g ! ?c)" "\<And>val. tree_val g' val t = kleene_expr (expr_pull n (expr_pool ?g ! ?c)) (kids_val ?g val (kids t))"
    using forest_root_change [OF f, of g' "expr_pull n (expr_pool ?g ! ?c)" x] by (simp_all add: g'_def x_def)
  have tv: "\<forall>val. tree_val g' val t = tree_val ?g val t" unfolding ch(4) by (cases t) simp
  have "rules_inv g' (R @ [(t, e, Drive n d w)]) \<and> forest g' (expr_free_list s1) (map fst (R @ [(t, e, Drive n d w)]))"
  proof (rule rules_inv_snoc [OF rules_inv_built [OF a b] f cl v ch(1,2) _ _ tv, where rl = "set_direction d q"])
    show "get_pull_expr d' w' (local_faninout_map g' ! m) =
        get_pull_expr d' w' (local_faninout_map ?g ! m) @ (if Drive n d w = Drive m d' w' then [?c] else [])"
      if "m < length (local_faninout_map ?g)" for m d' w' using that n1 by (auto simp: g'_def lf_def nth_list_update)
  qed (use ch(3) n1 q in \<open>simp_all add: g'_def lf_def rule_flag_updates\<close>)
  with ev show ?thesis by (intro exI [of _ "s1\<lparr>ea_g := g'\<rparr>"]) (simp add: alloc_inv_def g'_def lf_def)
qed

lemma link_invariant_expr_spec:
  assumes a: "alloc_inv s R" and b: "built s (map fst R) s1 t e"
  shows "\<exists>s'. link_invariant_expr dflt (root_ix t) j s1 = Some s' \<and> alloc_inv s' (R @ [(t, e, Invar j)]) \<and>
    length (local_faninout_map (ea_g s')) = length (local_faninout_map (ea_g s1)) \<and> at_source s' = at_source s1 \<and>
    suppress_keeper_rule s' = suppress_keeper_rule s1"
proof -
  let ?g = "ea_g s1" and ?c = "root_ix t" and ?q = "set_invariant (Rule_new dflt)"
  from b have f: "alloc_forest s1 (t # map fst R)" and cl: "tree_closed ?g t" and v: "\<forall>val. tree_val ?g val t = fexpr_value val e"
    by (auto simp: built_def)
  from forest_in(3) [OF f, of t ?c] have c: "?c < length (expr_pool ?g)" by auto
  define g' where "g' = ?g\<lparr>expr_pool := (expr_pool ?g)[?c := invariant_root (expr_pool ?g ! ?c)],
    rule_map := (rule_map ?g)(?c \<mapsto> length (rule_pool ?g)), invariant_map := (invariant_map ?g)(?c \<mapsto> j), rule_pool := rule_pool ?g @ [?q]\<rparr>"
  have ev: "link_invariant_expr dflt ?c j s1 = Some (s1\<lparr>ea_g := g'\<rparr>)"
    using c by (simp add: link_invariant_expr_def mod_expr_def nth_opt_in g'_def)
  have ch: "forest g' (expr_free_list s1) (t # map fst R)" "eq_on (set (forest_ixs (map fst R))) ?g g'"
    "expr_pool g' ! ?c = invariant_root (expr_pool ?g ! ?c)" "\<And>val. tree_val g' val t = kleene_expr (invariant_root (expr_pool ?g ! ?c)) (kids_val ?g val (kids t))"
    using forest_root_change [OF f, of g' "invariant_root (expr_pool ?g ! ?c)" "expr_graph_node_pool ?g ! ?c"] by (simp_all add: g'_def)
  have tv: "\<forall>val. tree_val g' val t = tree_val ?g val t" unfolding ch(4) by (cases t) simp
  have "rules_inv g' (R @ [(t, e, Invar j)]) \<and> forest g' (expr_free_list s1) (map fst (R @ [(t, e, Invar j)]))"
    by (rule rules_inv_snoc [OF rules_inv_built [OF a b] f cl v ch(1,2) _ _ tv, where rl = ?q])
      (use ch(3) in \<open>simp_all add: g'_def rule_flag_updates\<close>)
  with ev show ?thesis by (intro exI [of _ "s1\<lparr>ea_g := g'\<rparr>"]) (simp add: alloc_inv_def g'_def)
qed

section \<open>Rule attributes\<close>

text \<open>Attributes change the temporary rule and the flag that suppresses it, and depend on nothing else.\<close>

definition rule_effect :: "expr_alloc_flags \<Rightarrow> time_type \<Rightarrow> footprint_rule \<Rightarrow> (rule \<times> bool) option" where
  "rule_effect flags dflt r = do {
     s \<leftarrow> apply_attributes flags (fr_attributes r) (expr_alloc_new\<lparr>temp_rule := Some (set_direction (fr_dir r) (Rule_new dflt))\<rparr>);
     q \<leftarrow> temp_rule s;
     Some (q, suppress_keeper_rule s) }"

definition with_rule :: "expr_alloc \<Rightarrow> expr_alloc \<Rightarrow> expr_alloc" where
  "with_rule s x = s\<lparr>temp_rule := temp_rule x, suppress_keeper_rule := suppress_keeper_rule x\<rparr>"

lemma map_option_bind: "map_option f (Option.bind x h) = Option.bind x (\<lambda>y. map_option f (h y))"
  by (cases x) simp_all

lemma map_option_if: "map_option f (if b then x else y) = (if b then map_option f x else map_option f y)"
  by simp

lemma with_rule_sel: "temp_rule (with_rule s x) = temp_rule x" "suppress_keeper_rule (with_rule s x) = suppress_keeper_rule x"
  by (simp_all add: with_rule_def)

lemma with_rule_upd:
  "with_rule s (x\<lparr>temp_rule := r\<rparr>) = (with_rule s x)\<lparr>temp_rule := r\<rparr>"
  "with_rule s (x\<lparr>suppress_keeper_rule := b\<rparr>) = (with_rule s x)\<lparr>suppress_keeper_rule := b\<rparr>"
  by (simp_all add: with_rule_def)

lemma apply_attribute_indep:
  "apply_attribute flags k a (with_rule s x) = map_option (with_rule s) (apply_attribute flags k a x)"
  unfolding apply_attribute_def Let_def
  by (simp only: map_option_bind map_option_if with_rule_sel with_rule_upd option.map(2))

lemma apply_attributes_indep:
  "apply_attributes flags as (with_rule s x) = map_option (with_rule s) (apply_attributes flags as x)"
proof (induction flags as x rule: apply_attributes.induct)
  case (2 flags k a as x)
  then show ?case by (cases "apply_attribute flags k a x") (simp_all add: apply_attribute_indep)
qed simp

lemma rule_flags_kept:
  "is_invariant (rule_set_weak r) = is_invariant r" "is_invariant (rule_clear_weak r) = is_invariant r"
  "is_invariant (set_unstable r) = is_invariant r" "is_invariant (clear_unstable r) = is_invariant r"
  "is_invariant (set_always_random r) = is_invariant r" "is_invariant (clear_always_random r) = is_invariant r"
  "is_invariant (set_delay d r) = is_invariant r" "is_invariant (r\<lparr>after_min := d\<rparr>) = is_invariant r" "is_invariant (r\<lparr>after_max := d\<rparr>) = is_invariant r"
  "direction (rule_set_weak r) = direction r" "direction (rule_clear_weak r) = direction r"
  "direction (set_always_random r) = direction r" "direction (clear_always_random r) = direction r"
  "direction (set_delay d r) = direction r" "direction (r\<lparr>after_min := d\<rparr>) = direction r" "direction (r\<lparr>after_max := d\<rparr>) = direction r"
  by (simp_all add: direction_def is_invariant_def set_unstable_def clear_unstable_def rule_set_weak_def rule_clear_weak_def
      set_always_random_def clear_always_random_def set_delay_def and_flag_bits bit_simps)

lemma apply_attribute_rule:
  assumes "apply_attribute flags k a s = Some s'" and "temp_rule s = Some r"
  shows "\<exists>q. temp_rule s' = Some q \<and> is_invariant q = is_invariant r \<and> direction q = direction r"
  using assms by (auto simp: apply_attribute_def Let_def rule_flags_kept rule_flag_updates split: if_splits bind_splits)

lemma apply_attributes_rule:
  "apply_attributes flags as s = Some s' \<Longrightarrow> temp_rule s = Some r \<Longrightarrow>
   \<exists>q. temp_rule s' = Some q \<and> is_invariant q = is_invariant r \<and> direction q = direction r"
proof (induction flags as s arbitrary: r rule: apply_attributes.induct)
  case (2 flags k a as s)
  then show ?case by (fastforce dest: apply_attribute_rule split: bind_splits)
qed simp

lemma rule_effect_apply:
  assumes "rule_effect flags dflt r = Some (q, sp)" and "\<not> suppress_keeper_rule s"
  shows "apply_attributes flags (fr_attributes r) (s\<lparr>temp_rule := Some (set_direction (fr_dir r) (Rule_new dflt))\<rparr>) =
      Some (s\<lparr>temp_rule := Some q, suppress_keeper_rule := sp\<rparr>)"
    "\<not> is_invariant q" "direction q = fr_dir r"
proof -
  let ?q0 = "set_direction (fr_dir r) (Rule_new dflt)"
  let ?x = "expr_alloc_new\<lparr>temp_rule := Some ?q0\<rparr>"
  from assms(1) obtain x where x: "apply_attributes flags (fr_attributes r) ?x = Some x" "temp_rule x = Some q" "suppress_keeper_rule x = sp"
    by (auto simp: rule_effect_def split: bind_splits)
  have eq: "s\<lparr>temp_rule := Some ?q0\<rparr> = with_rule s ?x" using assms(2) by (simp add: with_rule_def expr_alloc_new_def)
  show "apply_attributes flags (fr_attributes r) (s\<lparr>temp_rule := Some ?q0\<rparr>) = Some (s\<lparr>temp_rule := Some q, suppress_keeper_rule := sp\<rparr>)"
    unfolding eq apply_attributes_indep x(1) by (simp add: with_rule_def x)
  have "temp_rule ?x = Some ?q0" by simp
  from apply_attributes_rule [OF x(1) this] x(2) have "is_invariant q = is_invariant ?q0" "direction q = direction ?q0" by auto
  moreover have "\<not> is_invariant (Rule_new dflt)" by (simp add: is_invariant_def Rule_new_def)
  ultimately show "\<not> is_invariant q" "direction q = fr_dir r" by (simp_all add: rule_flag_updates)
qed

section \<open>Contract of the visits\<close>

definition adds_roots :: "nat \<Rightarrow> (expr_alloc \<Rightarrow> expr_alloc option) \<Rightarrow> (fexpr \<times> target) list \<Rightarrow> bool" where
  "adds_roots N f l \<longleftrightarrow> (\<forall>s R. alloc_inv s R \<longrightarrow> idle N s \<longrightarrow>
     (\<exists>s' Q. f s = Some s' \<and> alloc_inv s' (R @ Q) \<and> map snd Q = l \<and> idle N s'))"

lemma adds_rootsI:
  assumes "\<And>s R. alloc_inv s R \<Longrightarrow> idle N s \<Longrightarrow> \<exists>s' Q. f s = Some s' \<and> alloc_inv s' (R @ Q) \<and> map snd Q = l \<and> idle N s'"
  shows "adds_roots N f l"
  using assms by (simp add: adds_roots_def)

lemma adds_roots_bind:
  assumes "adds_roots N f l" and "adds_roots N h m"
  shows "adds_roots N (\<lambda>s. do { s1 \<leftarrow> f s; h s1 }) (l @ m)"
proof (rule adds_rootsI)
  fix s R assume "alloc_inv s R" "idle N s"
  with assms(1) obtain s1 Q where 1: "f s = Some s1" "alloc_inv s1 (R @ Q)" "map snd Q = l" "idle N s1" unfolding adds_roots_def by blast
  with assms(2) obtain s2 P where 2: "h s1 = Some s2" "alloc_inv s2 ((R @ Q) @ P)" "map snd P = m" "idle N s2" unfolding adds_roots_def by blast
  with 1 show "\<exists>s' Q. f s \<bind> h = Some s' \<and> alloc_inv s' (R @ Q) \<and> map snd Q = l @ m \<and> idle N s'"
    by (intro exI [of _ s2] exI [of _ "Q @ P"]) simp
qed

text \<open>A visit of one item that adds the roots it promises; then a loop over items adds them all, in order.\<close>

locale root_builder =
  fixes N :: nat and visit :: "'a \<Rightarrow> expr_alloc \<Rightarrow> expr_alloc option" and roots :: "'a \<Rightarrow> (fexpr \<times> target) list option"
  assumes visit_adds: "roots x = Some l \<Longrightarrow> adds_roots N (visit x) l"
begin

lemma loop_adds: "those (map roots xs) = Some ls \<Longrightarrow> adds_roots N (fold_loop visit xs) (concat ls)"
proof (induction xs arbitrary: ls)
  case Nil
  then show ?case by (simp add: adds_roots_def)
next
  case (Cons x xs)
  from Cons.prems obtain l ls' where l: "roots x = Some l" "those (map roots xs) = Some ls'" "ls = l # ls'" by (auto split: option.splits)
  from adds_roots_bind [OF visit_adds [OF l(1)] Cons.IH [OF l(2)]] show ?case by (simp add: l(3) cong: fold_loop.simps)
qed

end

subsection \<open>Rules\<close>

definition node_in :: "nat \<Rightarrow> nat \<Rightarrow> bool" where
  "node_in N n \<longleftrightarrow> n \<noteq> 0 \<and> n \<le> N"

definition rule_roots :: "nat \<Rightarrow> nat \<Rightarrow> prs_footprint \<Rightarrow> expr_alloc_flags \<Rightarrow> time_type \<Rightarrow> nat \<times> footprint_rule \<Rightarrow> (fexpr \<times> target) list option" where
  "rule_roots N k pf flags dflt x = (case x of (ri, r) \<Rightarrow> do {
     (q, sp) \<leftarrow> rule_effect flags dflt r;
     if sp then Some []
     else do {
       e \<leftarrow> fe_tree True N pf k (fr_expr_index r);
       _ \<leftarrow> lookup_supply sup_rules_first pf ri;
       INVARIANT (node_in N (fr_output_index r) \<and> \<not> (if fr_dir r then dynamic_power_supply flags else dynamic_ground_supply flags));
       Some [(e, Drive (fr_output_index r - 1) (fr_dir r) (rule_is_weak q))] } })"

lemma fe_tree_index: "fe_tree ok N pf k i = Some e \<Longrightarrow> i \<le> length (pf_expr_pool pf)"
  by (cases k) (auto simp: pool_at_def nth_opt_def split: bind_splits if_splits)

lemma visit_rule_adds:
  assumes x: "rule_roots N k pf flags dflt (ri, r) = Some l"
  shows "adds_roots N (visit_rule k pf flags dflt ri r) l"
proof (rule adds_rootsI)
  fix s R assume a: "alloc_inv s R" and id: "idle N s"
  from x obtain q sp where q: "rule_effect flags dflt r = Some (q, sp)" by (auto simp: rule_roots_def split: bind_splits)
  have ns: "\<not> suppress_keeper_rule s" using id by (simp add: idle_def)
  note ef = rule_effect_apply [OF q ns]
  show "\<exists>s' Q. visit_rule k pf flags dflt ri r s = Some s' \<and> alloc_inv s' (R @ Q) \<and> map snd Q = l \<and> idle N s'"
  proof (cases sp)
    case True
    with x q have "l = []" by (simp add: rule_roots_def)
    moreover have "visit_rule k pf flags dflt ri r s = Some (s\<lparr>suppress_keeper_rule := False, temp_rule := temp_rule s\<rparr>)"
      using ef(1) True by (simp add: visit_rule_def)
    ultimately show ?thesis using a id by (intro exI [of _ "s\<lparr>suppress_keeper_rule := False, temp_rule := temp_rule s\<rparr>"] exI [of _ "[]"])
        (simp add: idle_def alloc_inv_def)
  next
    case False
    with x q obtain e sy where e: "fe_tree True N pf k (fr_expr_index r) = Some e" "lookup_supply sup_rules_first pf ri = Some sy"
      "node_in N (fr_output_index r)" "\<not> (if fr_dir r then dynamic_power_supply flags else dynamic_ground_supply flags)"
      "l = [(e, Drive (fr_output_index r - 1) (fr_dir r) (rule_is_weak q))]"
      by (auto simp: rule_roots_def split: bind_splits if_split_asm)
    let ?s = "s\<lparr>temp_rule := Some q, suppress_keeper_rule := False,
      power_supply := lookup_local_bool_id (if fr_dir r then sup_Vdd sy else sup_GND sy),
      at_source := (if fr_dir r then dynamic_power_supply flags else dynamic_ground_supply flags)\<rparr>"
    have f: "alloc_forest ?s (map fst R)" "alloc_inv ?s R" "ready True N ?s" using a id e(4) by (simp_all add: alloc_inv_def ready_def idle_def)
    from buildsD [OF visit_expr_builds e(1) f(1,3), of flags] obtain s2 t where
      2: "visit_expr k pf flags (fr_expr_index r) ?s = Some s2" "built ?s (map fst R) s2 t e" by blast
    from 2(2) have s2: "ret_ex_index s2 = root_ix t" "\<not> at_source s2" "temp_rule s2 = Some q" "\<not> suppress_keeper_rule s2"
      "length (local_faninout_map (ea_g s2)) = N"
      using f(3) alloc_frame_nodes [OF built_frame [OF 2(2)]] id by (auto simp: built_def alloc_frame_def ready_def idle_def)
    let ?n = "fr_output_index r - 1"
    have n: "lookup_local_bool_id (fr_output_index r) = ?n" "?n < length (local_faninout_map (ea_g ?s))"
      using e(3) id by (auto simp: lookup_local_bool_id_def node_in_def idle_def)
    from link_node_to_root_expr_spec [OF f(2) 2(2) n(2) refl ef(2), of "fr_dir r"] s2 obtain s4 where
      4: "link_node_to_root_expr ?n (root_ix t) (fr_dir r) q (rule_is_weak q) s2 = Some s4"
      "alloc_inv s4 (R @ [(t, e, Drive ?n (fr_dir r) (rule_is_weak q))])" "length (local_faninout_map (ea_g s4)) = N"
      "\<not> suppress_keeper_rule s4" by auto
    let ?s' = "s4\<lparr>temp_rule := temp_rule s, power_supply := power_supply s, at_source := at_source s\<rparr>"
    have "visit_rule k pf flags dflt ri r s = Some ?s'"
      using ef(1) False e(2) fe_tree_index [OF e(1)] 2(1) s2 4(1) n(1) ns by (simp add: visit_rule_def and_supply_def)
    with 4 e(5) id show ?thesis
      by (intro exI [of _ ?s'] exI [of _ "[(t, e, Drive ?n (fr_dir r) (rule_is_weak q))]"]) (simp add: idle_def alloc_inv_def)
  qed
qed

interpretation rule_visits: root_builder N "\<lambda>(ri, r). visit_rule k pf flags dflt ri r" "rule_roots N k pf flags dflt" for N k pf flags dflt
  by unfold_locales (auto intro: visit_rule_adds)

lemma visit_rules_loop: "visit_rules k pf flags dflt ri rs = fold_loop (\<lambda>(ri, r). visit_rule k pf flags dflt ri r) (enumerate ri rs)"
proof (induction rs arbitrary: ri)
  case (Cons r rs)
  show ?case by (rule ext) (simp add: Cons.IH)
qed (simp add: fun_eq_iff)

subsection \<open>Pass gates\<close>

lemma kept_tree:
  assumes "forest g fl (u # F)" and "eq_on (set (forest_ixs (u # F))) g g'"
  shows "tree_closed g' u = tree_closed g u" "tree_val g' val u = tree_val g val u" "eq_on (set (forest_ixs F)) g g'"
proof -
  from assms(2) have e: "eq_on (set (ixs u)) g g'" "eq_on (set (forest_ixs F)) g g'" by (simp_all only: forest_ixs_simps set_append eq_on_Un)
  from assms(1) have "rep g u" by (simp add: forest_def)
  from rep_frame(1) [OF this e(1)] eq_on_props(1) [OF e(1)] e(2)
  show "tree_closed g' u = tree_closed g u" "tree_val g' val u = tree_val g val u" "eq_on (set (forest_ixs F)) g g'" by auto
qed

text \<open>The conjunction of two trees.\<close>

lemma and_pair_spec:
  assumes f: "alloc_forest s (a # b # F)" and cl: "tree_closed (ea_g s) a" "tree_closed (ea_g s) b"
    and v: "\<And>val. tree_val (ea_g s) val a = fexpr_value val x" "\<And>val. tree_val (ea_g s) val b = fexpr_value val y"
  shows "\<exists>i s1 s2 s3 t. allocate_new_Nary_expr PRS_AND_EXPR_TYPE_ENUM 2 s = Some (i, s1) \<and> link_child_expr i (root_ix a) 0 s1 = Some s2 \<and>
    link_child_expr i (root_ix b) 1 s2 = Some s3 \<and> root_ix t = i \<and> alloc_forest s3 (t # F) \<and> tree_closed (ea_g s3) t \<and>
    (\<forall>val. tree_val (ea_g s3) val t = fexpr_value val (FAnd [x, y])) \<and> eq_on (set (forest_ixs F)) (ea_g s) (ea_g s3) \<and> alloc_frame s s3"
proof -
  from allocate_new_Nary_expr_spec [OF f, of 2 PRS_AND_EXPR_TYPE_ENUM] obtain i s1 where
    1: "allocate_new_Nary_expr PRS_AND_EXPR_TYPE_ENUM 2 s = Some (i, s1)" "alloc_forest s1 (ETree i [] # a # b # F)"
    "expr_pool (ea_g s1) ! i = \<lparr>expr_parent = INVALID_EXPR_INDEX, expr_type = EXPR_AND, expr_size = 2\<rparr>"
    "eq_on (set (forest_ixs (a # b # F))) (ea_g s) (ea_g s1)" "alloc_frame s s1" by auto
  note ka = kept_tree [OF f 1(4)]
  have fb: "alloc_forest s (b # a # F)" using f forest_swap by blast
  have eb: "eq_on (set (forest_ixs (b # a # F))) (ea_g s) (ea_g s1)" using 1(4) by (rule eq_on_mono) auto
  note kb = kept_tree [OF fb eb]
  from 1(2) have "alloc_forest s1 (a # ETree i [] # b # F)" using forest_swap by blast
  from link_child_expr_spec [OF this, of 0] cl(1) ka(1) obtain s2 where
    2: "link_child_expr i (root_ix a) 0 s1 = Some s2" "alloc_forest s2 (ETree i [Sub a] # b # F)"
    "\<And>val. kids_val (ea_g s2) val [Sub a] = [tree_val (ea_g s1) val a]" "expr_pool (ea_g s2) ! i = expr_pool (ea_g s1) ! i"
    "eq_on (set (forest_ixs (b # F))) (ea_g s1) (ea_g s2)" "alloc_frame s1 s2" by auto
  have "alloc_forest s1 (b # ETree i [] # a # F)" using 1(2) forest_perm [of "b # ETree i [] # a # F" "ETree i [] # a # b # F"] by simp
  then have "rep (ea_g s1) b" by (simp add: forest_def)
  from 2(5) have e2: "eq_on (set (ixs b)) (ea_g s1) (ea_g s2)" "eq_on (set (forest_ixs F)) (ea_g s1) (ea_g s2)"
    by (simp_all only: forest_ixs_simps set_append eq_on_Un)
  note b2 = rep_frame(1) [OF \<open>rep (ea_g s1) b\<close> e2(1)] eq_on_props(1) [OF e2(1), of b]
  from 2(2) have "alloc_forest s2 (b # ETree i [Sub a] # F)" using forest_swap by blast
  from link_child_expr_spec [OF this, of 1] cl(2) kb(1) b2(2) obtain s3 where
    3: "link_child_expr i (root_ix b) 1 s2 = Some s3" "alloc_forest s3 (ETree i [Sub a, Sub b] # F)"
    "\<And>val. kids_val (ea_g s3) val [Sub a, Sub b] = kids_val (ea_g s2) val [Sub a] @ [tree_val (ea_g s2) val b]"
    "expr_pool (ea_g s3) ! i = expr_pool (ea_g s2) ! i" "eq_on (set (forest_ixs F)) (ea_g s2) (ea_g s3)" "alloc_frame s2 s3" by auto
  have "tree_val (ea_g s2) val b = fexpr_value val y" "tree_val (ea_g s1) val a = fexpr_value val x" for val
    using b2(1) kb(2) v ka(2) by auto
  with 3(3) 2(3) have kv: "kids_val (ea_g s3) val [Sub a, Sub b] = [fexpr_value val x, fexpr_value val y]" for val by simp
  have e3: "expr_pool (ea_g s3) ! i = \<lparr>expr_parent = INVALID_EXPR_INDEX, expr_type = EXPR_AND, expr_size = 2\<rparr>" using 1(3) 2(4) 3(4) by simp
  have "tree_closed (ea_g s3) (ETree i [Sub a, Sub b])" by (simp add: tree_closed_def e3)
  moreover have "tree_val (ea_g s3) val (ETree i [Sub a, Sub b]) = fexpr_value val (FAnd [x, y])" for val
    using kv [of val] by (simp add: e3 kleene_new_Nary)
  moreover have "eq_on (set (forest_ixs F)) (ea_g s) (ea_g s3)"
    using kept_tree(3) [OF fb eb] e2(2) 3(5) 1(4) by (auto intro: eq_on_trans eq_on_mono)
  moreover have "alloc_frame s s3" using 1(5) 2(6) 3(6) by (blast intro: alloc_frame_trans)
  ultimately show ?thesis using 1(1) 2(1) 3(1,2) by (intro exI [of _ i] exI [of _ s1] exI [of _ s2] exI [of _ s3] exI [of _ "ETree i [Sub a, Sub b]"]) simp
qed

text \<open>The two literals of a pass gate, one of them negated.\<close>

lemma pass_literals_spec:
  assumes f: "alloc_forest s F" and n: "ga < length (local_faninout_map (ea_g s))" "sr < length (local_faninout_map (ea_g s))"
  shows "\<exists>g s1 h s2 s3 a b. allocate_new_literal_expr ga s = Some (g, s1) \<and> allocate_new_literal_expr sr s1 = Some (h, s2) \<and>
    allocate_new_not_expr (if d then g else h) s2 = Some (if d then g else h, s3) \<and> root_ix a = g \<and> root_ix b = h \<and>
    alloc_forest s3 (a # b # F) \<and> tree_closed (ea_g s3) a \<and> tree_closed (ea_g s3) b \<and>
    (\<forall>val. tree_val (ea_g s3) val a = fexpr_value val (if d then FNot (FLit ga) else FLit ga)) \<and>
    (\<forall>val. tree_val (ea_g s3) val b = fexpr_value val (if d then FLit sr else FNot (FLit sr))) \<and>
    eq_on (set (forest_ixs F)) (ea_g s) (ea_g s3) \<and> alloc_frame s s3"
proof -
  from allocate_new_literal_expr_spec [OF f n(1)] obtain g s1 where 1: "allocate_new_literal_expr ga s = Some (g, s1)"
    "alloc_forest s1 (ETree g [Leaf ga] # F)"
    "expr_pool (ea_g s1) ! g = \<lparr>expr_parent = INVALID_EXPR_INDEX, expr_type = EXPR_NODE, expr_size = 1\<rparr>"
    "eq_on (set (forest_ixs F)) (ea_g s) (ea_g s1)" "alloc_frame s s1" by auto
  let ?a = "ETree g [Leaf ga]"
  have n2: "sr < length (local_faninout_map (ea_g s1))" using n(2) alloc_frame_nodes [OF 1(5)] by simp
  from allocate_new_literal_expr_spec [OF 1(2) n2] obtain h s2 where 2: "allocate_new_literal_expr sr s1 = Some (h, s2)"
    "alloc_forest s2 (ETree h [Leaf sr] # ?a # F)"
    "expr_pool (ea_g s2) ! h = \<lparr>expr_parent = INVALID_EXPR_INDEX, expr_type = EXPR_NODE, expr_size = 1\<rparr>"
    "eq_on (set (forest_ixs (?a # F))) (ea_g s1) (ea_g s2)" "alloc_frame s1 s2" by auto
  let ?b = "ETree h [Leaf sr]"
  have e2: "expr_pool (ea_g s2) ! g = expr_pool (ea_g s1) ! g" "eq_on (set (forest_ixs F)) (ea_g s1) (ea_g s2)"
    using 2(4) by (auto simp: eq_on_def)
  have lit: "is_not \<lparr>expr_parent = INVALID_EXPR_INDEX, expr_type = EXPR_NODE, expr_size = 1\<rparr> = False" by (simp add: is_not_def)
  have t2: "tree_closed (ea_g s2) ?a" "tree_closed (ea_g s2) ?b" "tree_val (ea_g s2) val ?a = val ga" "tree_val (ea_g s2) val ?b = val sr" for val
    using 1(3) 2(3) e2(1) by (simp_all add: tree_closed_def kleene_single lit)
  have f2: "alloc_forest s2 (?a # ?b # F)" using 2(2) forest_swap by blast
  have fr: "eq_on (set (forest_ixs F)) (ea_g s) (ea_g s2)" "alloc_frame s s2"
    using eq_on_trans [OF 1(4) e2(2)] alloc_frame_trans [OF 1(5) 2(5)] by auto
  show ?thesis
  proof (cases d)
    case True
    from allocate_new_not_expr_spec [OF f2 t2(1)] obtain s3 where 3: "allocate_new_not_expr g s2 = Some (g, s3)" "alloc_forest s3 (?a # ?b # F)"
      "tree_closed (ea_g s3) ?a" "\<And>val. tree_val (ea_g s3) val ?a = negate_pull (val ga)"
      "eq_on (set (forest_ixs (?b # F))) (ea_g s2) (ea_g s3)" "alloc_frame s2 s3" using t2(3) by auto
    note k = kept_tree [OF 2(2), of "ea_g s3"]
    have "eq_on (set (ixs ?b)) (ea_g s2) (ea_g s3)" "eq_on (set (forest_ixs F)) (ea_g s2) (ea_g s3)" using 3(5)
      by (simp_all only: forest_ixs_simps set_append eq_on_Un)
    moreover have "rep (ea_g s2) ?b" using 2(2) by (simp add: forest_def)
    ultimately have "tree_closed (ea_g s3) ?b" "\<And>val. tree_val (ea_g s3) val ?b = val sr" "eq_on (set (forest_ixs F)) (ea_g s) (ea_g s3)"
      using rep_frame(1) [of "ea_g s2" ?b "ea_g s3"] eq_on_props(1) [of "set (ixs ?b)" "ea_g s2" "ea_g s3" ?b] t2(2,4) eq_on_trans [OF fr(1)] by auto
    with True 1(1) 2(1) 3 alloc_frame_trans [OF fr(2) 3(6)] show ?thesis
      by (intro exI [of _ g] exI [of _ s1] exI [of _ h] exI [of _ s2] exI [of _ s3] exI [of _ ?a] exI [of _ ?b]) simp
  next
    case False
    from allocate_new_not_expr_spec [OF 2(2) t2(2)] obtain s3 where 3: "allocate_new_not_expr h s2 = Some (h, s3)" "alloc_forest s3 (?b # ?a # F)"
      "tree_closed (ea_g s3) ?b" "\<And>val. tree_val (ea_g s3) val ?b = negate_pull (val sr)"
      "eq_on (set (forest_ixs (?a # F))) (ea_g s2) (ea_g s3)" "alloc_frame s2 s3" using t2(4) by auto
    have "eq_on (set (ixs ?a)) (ea_g s2) (ea_g s3)" "eq_on (set (forest_ixs F)) (ea_g s2) (ea_g s3)" using 3(5)
      by (simp_all only: forest_ixs_simps set_append eq_on_Un)
    moreover have "rep (ea_g s2) ?a" using 2(2) by (simp add: forest_def)
    ultimately have "tree_closed (ea_g s3) ?a" "\<And>val. tree_val (ea_g s3) val ?a = val ga" "eq_on (set (forest_ixs F)) (ea_g s) (ea_g s3)"
      using rep_frame(1) [of "ea_g s2" ?a "ea_g s3"] eq_on_props(1) [of "set (ixs ?a)" "ea_g s2" "ea_g s3" ?a] t2(1,3) eq_on_trans [OF fr(1)] by auto
    moreover have "alloc_forest s3 (?a # ?b # F)" using 3(2) forest_swap by blast
    ultimately show ?thesis using False 1(1) 2(1) 3 alloc_frame_trans [OF fr(2) 3(6)]
      by (intro exI [of _ g] exI [of _ s1] exI [of _ h] exI [of _ s2] exI [of _ s3] exI [of _ ?a] exI [of _ ?b]) simp
  qed
qed

lemma set_delay_rule [simp]: "rule_is_weak (set_delay d r) = rule_is_weak r"
  by (simp add: rule_is_weak_def set_delay_def)

lemma alloc_inv_delay:
  assumes a: "alloc_inv s R" and i: "i < length (rule_pool (ea_g s))"
    and g': "ea_g s' = (ea_g s)\<lparr>rule_pool := (rule_pool (ea_g s))[i := set_delay d (rule_pool (ea_g s) ! i)]\<rparr>" "expr_free_list s' = expr_free_list s"
  shows "alloc_inv s' R"
proof -
  let ?g = "ea_g s" and ?g' = "ea_g s'"
  from a have f: "alloc_forest s (map fst R)" and r: "rules_inv ?g R" by (auto simp: alloc_inv_def)
  from f have f': "alloc_forest s' (map fst R)"
    using reps_frame [of "map fst R" ?g ?g'] by (auto simp: forest_def slots_ok_def fanouts_ok_def g' eq_on_def)
  have "entry_ok ?g' k (R ! k)" if k: "k < length R" for k
  proof -
    obtain t e tg where x: "R ! k = (t, e, tg)" by (cases "R ! k") auto
    with r k have en: "entry_ok ?g k (t, e, tg)" by (auto simp: rules_inv_def)
    from x nth_mem [OF k] have "t \<in> set (map fst R)" by (force simp: image_iff)
    from forest_in [OF f this] have rp: "rep ?g t" "eq_on (set (ixs t)) ?g ?g'" by (auto simp: eq_on_def g')
    have "rule_pool ?g' ! k = (if k = i then set_delay d (rule_pool ?g ! k) else rule_pool ?g ! k)"
      using i k r by (simp add: g' rules_inv_def nth_list_update)
    with en rep_frame(1) [OF rp] show ?thesis unfolding x
      by (cases tg) (auto simp: entry_ok_def g' tree_closed_def rule_flags_kept)
  qed
  with r f' show ?thesis by (simp add: alloc_inv_def rules_inv_def g')
qed

definition pass_roots :: "nat \<Rightarrow> bool \<times> nat \<times> nat \<times> nat \<Rightarrow> (fexpr \<times> target) list option" where
  "pass_roots N x = (case x of (d, ga, sr, dr) \<Rightarrow>
     if node_in N ga \<and> node_in N sr \<and> node_in N dr
     then Some [(FAnd [if d then FNot (FLit (ga - 1)) else FLit (ga - 1), if d then FLit (sr - 1) else FNot (FLit (sr - 1))], Drive (dr - 1) d False)]
     else None)"

lemma pass_rule_adds:
  assumes x: "pass_roots N (d, ga, sr, dr) = Some l"
  shows "adds_roots N (pass_rule d dflt ga sr dr) l"
proof (rule adds_rootsI)
  fix s R assume a: "alloc_inv s R" and id: "idle N s"
  let ?ga = "ga - 1" and ?sr = "sr - 1" and ?dr = "dr - 1"
  let ?e = "FAnd [if d then FNot (FLit ?ga) else FLit ?ga, if d then FLit ?sr else FNot (FLit ?sr)]"
  from x have nd: "node_in N ga" "node_in N sr" "node_in N dr" and l: "l = [(?e, Drive ?dr d False)]" by (auto simp: pass_roots_def split: if_splits)
  have N: "length (local_faninout_map (ea_g s)) = N" using id by (simp add: idle_def)
  have lk: "lookup_local_bool_id ga = ?ga" "lookup_local_bool_id sr = ?sr" "lookup_local_bool_id dr = ?dr" "?ga < N" "?sr < N" "?dr < N"
    using nd by (auto simp: lookup_local_bool_id_def node_in_def)
  from a have f: "alloc_forest s (map fst R)" by (simp add: alloc_inv_def)
  from pass_literals_spec [OF f, of ?ga ?sr d] lk N obtain g s1 h s2 s3 ta tb where
    1: "allocate_new_literal_expr ?ga s = Some (g, s1)" "allocate_new_literal_expr ?sr s1 = Some (h, s2)"
      "allocate_new_not_expr (if d then g else h) s2 = Some (if d then g else h, s3)" "root_ix ta = g" "root_ix tb = h"
      "alloc_forest s3 (ta # tb # map fst R)" "tree_closed (ea_g s3) ta" "tree_closed (ea_g s3) tb"
    and va: "\<And>val. tree_val (ea_g s3) val ta = fexpr_value val (if d then FNot (FLit ?ga) else FLit ?ga)"
    and vb: "\<And>val. tree_val (ea_g s3) val tb = fexpr_value val (if d then FLit ?sr else FNot (FLit ?sr))"
    and fr: "eq_on (set (forest_ixs (map fst R))) (ea_g s) (ea_g s3)" "alloc_frame s s3" by auto
  from and_pair_spec [OF 1(6-8) va vb] obtain i s4 s5 s6 t where
    2: "allocate_new_Nary_expr PRS_AND_EXPR_TYPE_ENUM 2 s3 = Some (i, s4)" "link_child_expr i g 0 s4 = Some s5" "link_child_expr i h 1 s5 = Some s6"
      "root_ix t = i" "alloc_forest s6 (t # map fst R)" "tree_closed (ea_g s6) t" "\<forall>val. tree_val (ea_g s6) val t = fexpr_value val ?e"
      "eq_on (set (forest_ixs (map fst R))) (ea_g s3) (ea_g s6)" "alloc_frame s3 s6" unfolding 1(4,5) by blast
  let ?t6 = "s6\<lparr>ret_ex_index := i\<rparr>"
  have fr6: "alloc_frame s s6" using fr(2) 2(9) by (rule alloc_frame_trans)
  have b: "built s (map fst R) ?t6 t ?e" using 2 eq_on_trans [OF fr(1) 2(8)] fr6 by (simp add: built_def)
  have q: "rule_is_weak (Rule_new dflt) = False" "\<not> is_invariant (Rule_new dflt)" by (simp_all add: rule_is_weak_def is_invariant_def Rule_new_def)
  from link_node_to_root_expr_spec [OF a b _ q, of ?dr d] lk(6) N obtain s7 where
    7: "link_node_to_root_expr ?dr i d (Rule_new dflt) False ?t6 = Some s7" "alloc_inv s7 (R @ [(t, ?e, Drive ?dr d False)])"
      "length (local_faninout_map (ea_g s7)) = length (local_faninout_map (ea_g s6))" "at_source s7 = at_source s6"
      "suppress_keeper_rule s7 = suppress_keeper_rule s6" unfolding 2(4) by auto
  have ret: "link_node_to_root_expr ?dr i d (Rule_new dflt) False s6 = map_option (\<lambda>x. x\<lparr>ret_ex_index := ret_ex_index s6\<rparr>)
      (link_node_to_root_expr ?dr i d (Rule_new dflt) False ?t6)"
    by (simp add: link_node_to_root_expr_def Let_def map_option_bind)
  let ?s7 = "s7\<lparr>ret_ex_index := ret_ex_index s6\<rparr>"
  from 7(2) have en: "entry_ok (ea_g s7) (length R) (t, ?e, Drive ?dr d False)" "length R < length (rule_pool (ea_g s7))"
    by (auto simp: alloc_inv_def rules_inv_def nth_append dest: spec [of _ "length R"])
  then have rm: "rule_map (ea_g s7) i = Some (length R)" by (simp add: entry_ok_def 2(4))
  let ?s' = "?s7\<lparr>ea_g := (ea_g s7)\<lparr>rule_pool := (rule_pool (ea_g s7))[length R := set_delay 0 (rule_pool (ea_g s7) ! length R)]\<rparr>\<rparr>"
  have ev: "pass_rule d dflt ga sr dr s = Some ?s'"
    using lk(1-3) 1(1-3) 2(1-3) 7(1) ret rm en(2) by (simp add: pass_rule_def nth_opt_in)
  have "alloc_inv ?s7 (R @ [(t, ?e, Drive ?dr d False)])" using 7(2) by (simp add: alloc_inv_def)
  from alloc_inv_delay [OF this, of "length R" ?s' 0] en(2) have "alloc_inv ?s' (R @ [(t, ?e, Drive ?dr d False)])" by simp
  moreover have "idle N ?s'" using id 7(3-5) fr6 alloc_frame_nodes [OF fr6] by (simp add: idle_def alloc_frame_def)
  ultimately show "\<exists>s' Q. pass_rule d dflt ga sr dr s = Some s' \<and> alloc_inv s' (R @ Q) \<and> map snd Q = l \<and> idle N s'"
    using ev l by (intro exI [of _ ?s'] exI [of _ "[(t, ?e, Drive ?dr d False)]"]) simp
qed

interpretation pass_visits: root_builder N "\<lambda>(d, g, sr, dr). pass_rule d dflt g sr dr" "pass_roots N" for N dflt
  by unfold_locales (auto intro: pass_rule_adds)

lemma visit_passgates_loop: "visit_passgates dflt ms = fold_loop (\<lambda>(d, g, sr, dr). pass_rule d dflt g sr dr) ms"
proof (induction ms)
  case (Cons m ms)
  show ?case by (rule ext) (cases m, simp add: Cons.IH PassN_def PassP_def)
qed (simp add: fun_eq_iff)

subsection \<open>Invariants and atomic assignments\<close>

definition invariant_roots :: "nat \<Rightarrow> nat \<Rightarrow> prs_footprint \<Rightarrow> nat \<times> nat \<Rightarrow> (fexpr \<times> target) list option" where
  "invariant_roots N k pf x = map_option (\<lambda>e. [(e, Invar (fst x))]) (fe_tree False N pf k (snd x))"

definition visit_invariant :: "nat \<Rightarrow> prs_footprint \<Rightarrow> expr_alloc_flags \<Rightarrow> time_type \<Rightarrow> nat \<times> nat \<Rightarrow> expr_alloc \<Rightarrow> expr_alloc option" where
  "visit_invariant k pf flags dflt x s = do {
     s1 \<leftarrow> visit_expr k pf flags (snd x) s;
     link_invariant_expr dflt (ret_ex_index s1) (fst x) s1 }"

lemma visit_invariant_adds:
  assumes x: "invariant_roots N k pf x = Some l"
  shows "adds_roots N (visit_invariant k pf flags dflt x) l"
proof (rule adds_rootsI)
  fix s R assume a: "alloc_inv s R" and id: "idle N s"
  from x obtain e where e: "fe_tree False N pf k (snd x) = Some e" "l = [(e, Invar (fst x))]" by (auto simp: invariant_roots_def)
  have "alloc_forest s (map fst R)" "ready False N s" using a id by (simp_all add: alloc_inv_def ready_def idle_def)
  from buildsD [OF visit_expr_builds e(1) this, of flags] obtain s1 t where
    1: "visit_expr k pf flags (snd x) s = Some s1" "built s (map fst R) s1 t e" by blast
  from link_invariant_expr_spec [OF a 1(2), of dflt "fst x"] obtain s2 where
    2: "link_invariant_expr dflt (root_ix t) (fst x) s1 = Some s2" "alloc_inv s2 (R @ [(t, e, Invar (fst x))])"
    "length (local_faninout_map (ea_g s2)) = length (local_faninout_map (ea_g s1))" "at_source s2 = at_source s1"
    "suppress_keeper_rule s2 = suppress_keeper_rule s1" by blast
  have "ret_ex_index s1 = root_ix t" "idle N s2"
    using 1(2) 2(3-5) id alloc_frame_nodes [OF built_frame [OF 1(2)]] by (auto simp: built_def idle_def alloc_frame_def)
  with 1(1) 2(1,2) e(2) show "\<exists>s' Q. visit_invariant k pf flags dflt x s = Some s' \<and> alloc_inv s' (R @ Q) \<and> map snd Q = l \<and> idle N s'"
    by (intro exI [of _ s2] exI [of _ "[(t, e, Invar (fst x))]"]) (simp add: visit_invariant_def)
qed

interpretation invariant_visits: root_builder N "visit_invariant k pf flags dflt" "invariant_roots N k pf" for N k pf flags dflt
  by unfold_locales (rule visit_invariant_adds)

lemma visit_invariants_loop: "visit_invariants k pf flags dflt j is = fold_loop (visit_invariant k pf flags dflt) (enumerate j is)"
proof (induction "is" arbitrary: j)
  case (Cons i "is")
  show ?case by (rule ext) (simp add: Cons.IH visit_invariant_def)
qed (simp add: fun_eq_iff)

abbreviation rte_footprint :: "footprint_expr_node list \<Rightarrow> prs_footprint" where
  "rte_footprint pool \<equiv> \<lparr>pf_expr_pool = pool, internal_node_pool = [], supply_map = []\<rparr>"

lemma visit_rte_expr_builds: "builds False N (visit_rte_expr k pool) (fe_tree False N (rte_footprint pool) k)"
proof (induction k)
  case 0
  show ?case by (simp add: builds_def)
next
  case (Suc k)
  let ?pf = "rte_footprint pool"
  show ?case
    unfolding builds_def
  proof (intro allI impI)
    fix i x s F
    assume x: "fe_tree False N ?pf (Suc k) i = Some x" and f: "alloc_forest s F" and rd: "ready False N s"
    then obtain e where e: "pool_at pool i = Some e" by (auto split: bind_splits)
    consider (lit) n where "fe_type e = PRS_LITERAL_TYPE_ENUM" "fe_nodes e = [n]" "n \<noteq> 0" "n \<le> N" "x = FLit (n - 1)"
      | (neg) c y where "fe_type e = PRS_NOT_EXPR_TYPE_ENUM" "fe_nodes e = [c]" "fe_tree False N ?pf k c = Some y" "x = FNot y"
      | (nary) es where "fe_type e = PRS_AND_EXPR_TYPE_ENUM \<or> fe_type e = PRS_OR_EXPR_TYPE_ENUM" "fe_nodes e \<noteq> []" "length (fe_nodes e) \<le> 65535"
          "those (map (fe_tree False N ?pf k) (fe_nodes e)) = Some es" "x = (if fe_type e = PRS_AND_EXPR_TYPE_ENUM then FAnd es else FOr es)"
      using x e by (auto split: if_splits list.splits bind_splits option.splits)
    then show "\<exists>s' t. visit_rte_expr (Suc k) pool i s = Some s' \<and> built s F s' t x"
    proof cases
      case lit
      then have "lookup_local_bool_id n = n - 1" "n - 1 < length (local_faninout_map (ea_g s))" using rd by (auto simp: lookup_local_bool_id_def ready_def)
      with literal_built [OF f] e lit show ?thesis by (simp add: fe_only_def nth_opt_def)
    next
      case neg
      from buildsD [OF Suc neg(3) f rd] obtain s1 t where "visit_rte_expr k pool c s = Some s1" "built s F s1 t y" by blast
      with not_built e neg show ?thesis by (simp add: fe_only_def nth_opt_def)
    next
      case nary
      from Nary_children_spec [OF Suc f rd nary(2-4), of "fe_type e"] obtain i' s1 s2 ks where
        1: "allocate_new_Nary_expr (fe_type e) (length (fe_nodes e)) s = Some (i', s1)" "link_children (visit_rte_expr k pool) i' 0 (fe_nodes e) s1 = Some s2" and
        2: "alloc_forest s2 (ETree i' ks # F)" "tree_closed (ea_g s2) (ETree i' ks)"
        "\<forall>val. tree_val (ea_g s2) val (ETree i' ks) = (if fe_type e = PRS_AND_EXPR_TYPE_ENUM then kleene_and else kleene_or) (map (fexpr_value val) es)"
        "eq_on (set (forest_ixs F)) (ea_g s) (ea_g s2)" "alloc_frame s s2" by blast
      have "built s F (s2\<lparr>ret_ex_index := i'\<rparr>) (ETree i' ks) x" using 2 nary(5) by (simp add: built_def)
      moreover have "visit_rte_expr (Suc k) pool i s = Some (s2\<lparr>ret_ex_index := i'\<rparr>)" using 1 e nary(1) by auto
      ultimately show ?thesis by blast
    qed
  qed
qed

definition assignment_roots :: "nat \<Rightarrow> nat \<Rightarrow> footprint_expr_node list \<Rightarrow> nat \<times> nat \<Rightarrow> (fexpr \<times> target) list option" where
  "assignment_roots N k pool r = do {
     e \<leftarrow> fe_tree False N (rte_footprint pool) k (fst r);
     INVARIANT (node_in N (snd r));
     Some [(e, Drive (snd r - 1) True False)] }"

lemma visit_assignment_adds:
  assumes x: "assignment_roots N k pool r = Some l"
  shows "adds_roots N (visit_assignment k pool dflt r) l"
proof (rule adds_rootsI)
  fix s R assume a: "alloc_inv s R" and id: "idle N s"
  let ?n = "snd r - 1" and ?q = "set_direction True (Rule_new dflt)"
  from x obtain e where e: "fe_tree False N (rte_footprint pool) k (fst r) = Some e" "node_in N (snd r)" "l = [(e, Drive ?n True False)]"
    by (auto simp: assignment_roots_def split: bind_splits if_split_asm)
  have "alloc_forest s (map fst R)" "ready False N s" using a id by (simp_all add: alloc_inv_def ready_def idle_def)
  from buildsD [OF visit_rte_expr_builds e(1) this] obtain s1 t where
    1: "visit_rte_expr k pool (fst r) s = Some s1" "built s (map fst R) s1 t e" by blast
  have q: "rule_is_weak ?q = False" "\<not> is_invariant ?q" by (simp_all add: rule_flag_updates) (simp_all add: rule_is_weak_def is_invariant_def Rule_new_def)
  have n: "lookup_local_bool_id (snd r) = ?n" "?n < length (local_faninout_map (ea_g s))"
    using e(2) id by (auto simp: lookup_local_bool_id_def node_in_def idle_def)
  from link_node_to_root_expr_spec [OF a 1(2) n(2) q, of True] obtain s2 where
    2: "link_node_to_root_expr ?n (root_ix t) True ?q False s1 = Some s2" "alloc_inv s2 (R @ [(t, e, Drive ?n True False)])"
    "length (local_faninout_map (ea_g s2)) = length (local_faninout_map (ea_g s1))" "at_source s2 = at_source s1"
    "suppress_keeper_rule s2 = suppress_keeper_rule s1" by blast
  have "ret_ex_index s1 = root_ix t" "idle N s2"
    using 1(2) 2(3-5) id alloc_frame_nodes [OF built_frame [OF 1(2)]] by (auto simp: built_def idle_def alloc_frame_def)
  moreover have "fst r \<le> length pool" using fe_tree_index [OF e(1)] by simp
  ultimately show "\<exists>s' Q. visit_assignment k pool dflt r s = Some s' \<and> alloc_inv s' (R @ Q) \<and> map snd Q = l \<and> idle N s'"
    using 1(1) 2(1,2) e(3) n(1) id by (intro exI [of _ s2] exI [of _ "[(t, e, Drive ?n True False)]"]) (simp add: visit_assignment_def idle_def)
qed

interpretation assignment_visits: root_builder N "visit_assignment k pool dflt" "assignment_roots N k pool" for N k pool dflt
  by unfold_locales (rule visit_assignment_adds)

lemma visit_assignments_loop: "visit_assignments k pool dflt rs = fold_loop (visit_assignment k pool dflt) rs"
proof (induction rs)
  case (Cons r rs)
  show ?case by (rule ext) (simp add: Cons.IH)
qed (simp add: fun_eq_iff)

section \<open>A process type\<close>

text \<open>The roots that the footprint of a type asks for, in the order of creation.\<close>

definition type_roots :: "nat \<Rightarrow> expr_alloc_flags \<Rightarrow> time_type \<Rightarrow> process_type \<Rightarrow> (fexpr \<times> target) list option" where
  "type_roots k flags dflt t = do {
     let N = length (pt_atomic t);
     a \<leftarrow> those (map (rule_roots N k (pt_prs t) flags dflt) (enumerate 0 (pt_rules t)));
     b \<leftarrow> those (map (pass_roots N) (pt_passgates t));
     c \<leftarrow> those (map (invariant_roots N k (pt_prs t)) (enumerate 0 (pt_invariants t)));
     d \<leftarrow> those (map (assignment_roots N k (pt_rte_pool t)) (pt_assignments t));
     Some (concat a @ concat b @ concat c @ concat d) }"

lemma visit_rules_and_directives_adds:
  assumes "type_roots k flags dflt t = Some l"
  shows "adds_roots (length (pt_atomic t)) (visit_rules_and_directives k flags dflt t) l"
proof -
  let ?N = "length (pt_atomic t)"
  from assms obtain a b c d where r: "those (map (rule_roots ?N k (pt_prs t) flags dflt) (enumerate 0 (pt_rules t))) = Some a"
    "those (map (pass_roots ?N) (pt_passgates t)) = Some b" "those (map (invariant_roots ?N k (pt_prs t)) (enumerate 0 (pt_invariants t))) = Some c"
    "those (map (assignment_roots ?N k (pt_rte_pool t)) (pt_assignments t)) = Some d" and l: "l = concat a @ concat b @ concat c @ concat d"
    by (auto simp: type_roots_def Let_def split: bind_splits)
  note adds = rule_visits.loop_adds [OF r(1)] pass_visits.loop_adds [OF r(2), of dflt] invariant_visits.loop_adds [OF r(3), of flags dflt]
    assignment_visits.loop_adds [OF r(4), of dflt]
  from adds_roots_bind [OF adds(1) adds_roots_bind [OF adds(2) adds_roots_bind [OF adds(3,4)]]] show ?thesis
    unfolding visit_rules_and_directives_def [abs_def] visit_rules_loop visit_passgates_loop visit_invariants_loop visit_assignments_loop l .
qed

end
