(* ===== verification/Alloc_Graph.thy ===== *)
theory Alloc_Graph
  imports Alloc_Rules
begin

text \<open>
  The finished graph: it passes \<^verbatim>\<open>check_structure\<close>, it is a forest in the sense that expression evaluation relies on,
  and the value that evaluation gives to each root is the value of the guard in the footprint.
\<close>

section \<open>Nodes of a tree\<close>

definition down_ok :: "unique_process_subgraph \<Rightarrow> nat \<Rightarrow> bool" where
  "down_ok g i \<longleftrightarrow> i < length (expr_pool g) \<and> i < length (expr_graph_node_pool g) \<and> children (expr_graph_node_pool g ! i) \<noteq> [] \<and>
     length (children (expr_graph_node_pool g ! i)) = unat (expr_size (expr_pool g ! i)) \<and>
     (\<forall>k < length (children (expr_graph_node_pool g ! i)). \<forall>j. children (expr_graph_node_pool g ! i) ! k = (False, j) \<longrightarrow>
        j < length (expr_pool g) \<and> j < length (expr_graph_node_pool g) \<and> \<not> is_root (expr_pool g ! j) \<and>
        expr_parent (expr_pool g ! j) = i \<and> unat (offset (expr_graph_node_pool g ! j)) = k)"

definition up_ok :: "unique_process_subgraph \<Rightarrow> nat set \<Rightarrow> nat \<Rightarrow> bool" where
  "up_ok g S j \<longleftrightarrow> \<not> is_root (expr_pool g ! j) \<and> expr_parent (expr_pool g ! j) \<in> S \<and>
     unat (offset (expr_graph_node_pool g ! j)) < length (children (expr_graph_node_pool g ! expr_parent (expr_pool g ! j))) \<and>
     children (expr_graph_node_pool g ! expr_parent (expr_pool g ! j)) ! unat (offset (expr_graph_node_pool g ! j)) = (False, j)"

lemma up_ok_mono: "up_ok g S j \<Longrightarrow> S \<subseteq> T \<Longrightarrow> up_ok g T j"
  by (auto simp: up_ok_def)

lemma small_offset: "k < unat (n :: count_type) \<Longrightarrow> unat (of_nat k :: count_type) = k"
  using unsigned_less [of n, where 'a = nat] by (simp add: unsigned_of_nat take_bit_nat_eq_self)

lemma rep_kids_nth: "rep_kids g i k ks \<Longrightarrow> m < length ks \<Longrightarrow> ks ! m = Sub t \<Longrightarrow> rep g t \<and> tree_closed g t \<and> linked g i (k + m) t"
proof (induction ks arbitrary: k m)
  case (Cons x ks)
  show ?case
  proof (cases m)
    case 0
    with Cons.prems show ?thesis by simp
  next
    case (Suc m')
    with Cons.prems(1) have "rep_kids g i (Suc k) ks" by (cases x) auto
    from Cons.IH [OF this] Suc Cons.prems show ?thesis by simp
  qed
qed simp

lemma root_down_ok:
  assumes r: "rep g t" and cl: "tree_closed g t"
  shows "down_ok g (root_ix t)"
proof -
  let ?i = "root_ix t" and ?ks = "kids t"
  note rt = rep_root [OF r]
  have n: "unat (expr_size (expr_pool g ! ?i)) = length ?ks" "?ks \<noteq> []" using cl by (auto simp: tree_closed_def)
  have "j < length (expr_pool g) \<and> j < length (expr_graph_node_pool g) \<and> \<not> is_root (expr_pool g ! j) \<and>
        expr_parent (expr_pool g ! j) = ?i \<and> unat (offset (expr_graph_node_pool g ! j)) = k"
    if k: "k < length ?ks" "kid_entry (?ks ! k) = (False, j)" for k j
  proof -
    obtain u where u: "?ks ! k = Sub u" "root_ix u = j" using k(2) by (cases "?ks ! k") auto
    from rep_kids_nth [of g ?i 0 ?ks k u] rt k(1) u have "rep g u" "linked g ?i k u" by auto
    with rep_root [of g u] u(2) small_offset [of k "expr_size (expr_pool g ! ?i)"] k(1) n(1) show ?thesis by (auto simp: linked_def)
  qed
  with rt n show ?thesis by (auto simp: down_ok_def)
qed

lemma ex_nat_Suc: "(\<exists>m < Suc n. \<exists>t. (Leaf x # ks) ! m = Sub t \<and> P t) \<longleftrightarrow> (\<exists>m < n. \<exists>t. ks ! m = Sub t \<and> P t)"
  by (auto simp: less_Suc_eq_0_disj)

lemma tree_nodes_ok:
  "rep g t \<Longrightarrow> tree_closed g t \<Longrightarrow> \<forall>j \<in> set (ixs t). down_ok g j \<and> (j = root_ix t \<or> up_ok g (set (ixs t)) j)"
  "rep_kids g i k ks \<Longrightarrow> \<forall>j \<in> set (kids_ixs ks). down_ok g j \<and> (up_ok g (set (kids_ixs ks)) j \<or> (\<exists>m < length ks. \<exists>t. ks ! m = Sub t \<and> root_ix t = j))"
proof (induction g t and g i k ks rule: rep_rep_kids.induct)
  case (1 g i ks)
  note d = root_down_ok [OF 1(2,3)]
  from 1(2) have rk: "rep_kids g i 0 ks" "children (expr_graph_node_pool g ! i) = map kid_entry ks" by auto
  have sub: "up_ok g (set (ixs (ETree i ks))) j" if "m < length ks" "ks ! m = Sub t" "root_ix t = j" for m t j
  proof -
    from that rk(2) have c: "m < length (children (expr_graph_node_pool g ! i))" "children (expr_graph_node_pool g ! i) ! m = (False, j)" by auto
    with d have "\<not> is_root (expr_pool g ! j)" "expr_parent (expr_pool g ! j) = i" "unat (offset (expr_graph_node_pool g ! j)) = m"
      by (auto simp: down_ok_def)
    with c show ?thesis by (simp add: up_ok_def)
  qed
  have IH: "\<forall>j \<in> set (kids_ixs ks). down_ok g j \<and> (up_ok g (set (kids_ixs ks)) j \<or> (\<exists>m < length ks. \<exists>t. ks ! m = Sub t \<and> root_ix t = j))"
    by (rule 1(1) [OF rk(1)])
  show ?case
  proof
    fix j assume "j \<in> set (ixs (ETree i ks))"
    then consider "j = i" | "j \<in> set (kids_ixs ks)" by auto
    then show "down_ok g j \<and> (j = root_ix (ETree i ks) \<or> up_ok g (set (ixs (ETree i ks))) j)"
    proof cases
      case 1
      with d show ?thesis by simp
    next
      case 2
      with IH have "down_ok g j" "up_ok g (set (kids_ixs ks)) j \<or> (\<exists>m < length ks. \<exists>t. ks ! m = Sub t \<and> root_ix t = j)" by auto
      moreover have "set (kids_ixs ks) \<subseteq> set (ixs (ETree i ks))" by auto
      ultimately show ?thesis using sub up_ok_mono by metis
    qed
  qed
next
  case (3 g i k n ks)
  then have "\<forall>j \<in> set (kids_ixs ks). down_ok g j \<and> (up_ok g (set (kids_ixs ks)) j \<or> (\<exists>m < length ks. \<exists>t. ks ! m = Sub t \<and> root_ix t = j))" by simp
  then show ?case by (simp add: ex_nat_Suc)
next
  case (4 g i k t ks)
  then have t: "\<forall>j \<in> set (ixs t). down_ok g j \<and> (j = root_ix t \<or> up_ok g (set (ixs t)) j)"
    and ks: "\<forall>j \<in> set (kids_ixs ks). down_ok g j \<and> (up_ok g (set (kids_ixs ks)) j \<or> (\<exists>m < length ks. \<exists>t. ks ! m = Sub t \<and> root_ix t = j))" by auto
  show ?case
  proof
    fix j assume "j \<in> set (kids_ixs (Sub t # ks))"
    then consider "j \<in> set (ixs t)" | "j \<in> set (kids_ixs ks)" by auto
    then show "down_ok g j \<and> (up_ok g (set (kids_ixs (Sub t # ks))) j \<or> (\<exists>m < length (Sub t # ks). \<exists>u. (Sub t # ks) ! m = Sub u \<and> root_ix u = j))"
    proof cases
      case 1
      with t have "down_ok g j" "j = root_ix t \<or> up_ok g (set (ixs t)) j" by auto
      moreover have "set (ixs t) \<subseteq> set (kids_ixs (Sub t # ks))" by simp
      moreover have "(Sub t # ks) ! 0 = Sub t" "0 < length (Sub t # ks)" by simp_all
      ultimately show ?thesis using up_ok_mono by metis
    next
      case 2
      with ks have "down_ok g j" "up_ok g (set (kids_ixs ks)) j \<or> (\<exists>m < length ks. \<exists>t. ks ! m = Sub t \<and> root_ix t = j)" by auto
      moreover have "set (kids_ixs ks) \<subseteq> set (kids_ixs (Sub t # ks))" by simp
      moreover have "(Sub t # ks) ! Suc m = ks ! m" "Suc m < length (Sub t # ks) \<longleftrightarrow> m < length ks" for m by simp_all
      ultimately show ?thesis using up_ok_mono by metis
    qed
  qed
qed simp

section \<open>Depth\<close>

lemma expr_depth_mono: "expr_depth k pool i \<noteq> None \<Longrightarrow> k \<le> m \<Longrightarrow> expr_depth m pool i \<noteq> None"
proof (induction k arbitrary: i m)
  case (Suc k)
  then obtain m' where "m = Suc m'" "k \<le> m'" by (cases m) auto
  with Suc show ?case by (auto split: bind_splits if_splits)
qed simp

lemma tree_depth:
  "rep g t \<Longrightarrow> expr_depth m (expr_pool g) (root_ix t) \<noteq> None \<Longrightarrow> \<forall>j \<in> set (ixs t). expr_depth (m + (length (ixs t) - 1)) (expr_pool g) j \<noteq> None"
  "rep_kids g i k ks \<Longrightarrow> expr_depth m (expr_pool g) i \<noteq> None \<Longrightarrow> \<forall>j \<in> set (kids_ixs ks). expr_depth (m + length (kids_ixs ks)) (expr_pool g) j \<noteq> None"
proof (induction g t and g i k ks arbitrary: m and m rule: rep_rep_kids.induct)
  case (1 g i ks)
  then have "\<forall>j \<in> set (kids_ixs ks). expr_depth (m + length (kids_ixs ks)) (expr_pool g) j \<noteq> None" by simp
  moreover have "expr_depth (m + length (kids_ixs ks)) (expr_pool g) i \<noteq> None" using 1(3) expr_depth_mono by fastforce
  ultimately show ?case by simp
next
  case (4 g i k t ks)
  from 4(3) have t: "rep g t" "linked g i k t" "rep_kids g i (Suc k) ks" by auto
  from rep_root [OF t(1)] t(2) 4(4) have "expr_depth (Suc m) (expr_pool g) (root_ix t) \<noteq> None" by (simp add: linked_def nth_opt_in)
  with 4(1) t(1) have 1: "\<forall>j \<in> set (ixs t). expr_depth (Suc m + (length (ixs t) - 1)) (expr_pool g) j \<noteq> None" by blast
  have l: "Suc m + (length (ixs t) - 1) \<le> m + length (kids_ixs (Sub t # ks))" by (cases t) simp
  have "\<forall>j \<in> set (kids_ixs ks). expr_depth (m + length (kids_ixs ks)) (expr_pool g) j \<noteq> None" using 4(2) t(3) 4(4) by blast
  moreover have "m + length (kids_ixs ks) \<le> m + length (kids_ixs (Sub t # ks))" by simp
  ultimately show ?case using 1 l expr_depth_mono by (fastforce simp del: expr_depth.simps)
qed auto

section \<open>Graphs without free slots\<close>

lemma truncate_sel [simp]: "expr_pool (process_graph.truncate g) = expr_pool g" "expr_graph_node_pool (process_graph.truncate g) = expr_graph_node_pool g"
  "rule_pool (process_graph.truncate g) = rule_pool g" "rule_map (process_graph.truncate g) = rule_map g" "min_delays (process_graph.truncate g) = min_delays g"
  by (simp_all add: process_graph.truncate_def)

lemma root_entry:
  assumes "rules_inv g R" and "(t, e, tg) \<in> set R"
  shows "\<exists>k < length R. R ! k = (t, e, tg) \<and> entry_ok g k (t, e, tg)"
  using assms unfolding rules_inv_def in_set_conv_nth by metis

lemma forest_node:
  assumes f: "forest g fl (map fst R)" and r: "rules_inv g R" and i: "i < length (expr_pool g)" "i \<notin> set fl"
  obtains t e tg where "(t, e, tg) \<in> set R" "i \<in> set (ixs t)" "rep g t" "tree_closed g t" "is_root (expr_pool g ! root_ix t)"
    "length (ixs t) \<le> length (expr_pool g)"
proof -
  from f i have "i \<in> set (forest_ixs (map fst R))" by (auto simp: forest_def slots_ok_def)
  then obtain t where t: "t \<in> set (map fst R)" "i \<in> set (ixs t)" by (auto simp: forest_ixs_def)
  then obtain e tg where x: "(t, e, tg) \<in> set R" by auto
  from root_entry [OF r x] have "tree_closed g t" "is_root (expr_pool g ! root_ix t)" by (auto simp: entry_ok_def)
  moreover have "rep g t" by (rule forest_in(1) [OF f t(1)])
  moreover have "set (ixs t) \<subseteq> {..<length (expr_pool g)}" using forest_in(3) [OF f t(1)] by auto
  then have "length (ixs t) \<le> length (expr_pool g)" using forest_in(2) [OF f t(1)] card_mono [of "{..<length (expr_pool g)}" "set (ixs t)"]
    by (simp add: distinct_card)
  ultimately show thesis using that x t(2) by blast
qed

lemma alloc_graph_ok:
  assumes f: "forest g [] (map fst R)" and r: "rules_inv g R"
  shows "graph_ok (process_graph.truncate g)"
proof -
  have len: "length (expr_graph_node_pool g) = length (expr_pool g)" using f by (simp add: forest_def slots_ok_def)
  have "expr_depth (length (expr_pool g)) (expr_pool g) i \<noteq> None \<and> down_ok g i \<and>
      (\<not> is_root (expr_pool g ! i) \<longrightarrow> up_ok g {..<length (expr_pool g)} i)" if i: "i < length (expr_pool g)" for i
  proof -
    from forest_node [OF f r i] obtain t e tg where t: "(t, e, tg) \<in> set R" "i \<in> set (ixs t)" "rep g t" "tree_closed g t"
      "is_root (expr_pool g ! root_ix t)" "length (ixs t) \<le> length (expr_pool g)" by auto
    from rep_root [OF t(3)] t(5) have "expr_depth 1 (expr_pool g) (root_ix t) \<noteq> None" by (simp add: nth_opt_in)
    from tree_depth(1) [OF t(3) this] t(2) have "expr_depth (1 + (length (ixs t) - 1)) (expr_pool g) i \<noteq> None" by blast
    moreover have "1 + (length (ixs t) - 1) \<le> length (expr_pool g)" using t(6) by (cases t) simp
    ultimately have d: "expr_depth (length (expr_pool g)) (expr_pool g) i \<noteq> None" by (rule expr_depth_mono)
    from tree_nodes_ok(1) [OF t(3,4)] t(2) have n: "down_ok g i" "i = root_ix t \<or> up_ok g (set (ixs t)) i" by auto
    moreover have "set (ixs t) \<subseteq> {..<length (expr_pool g)}" using rep_bounds(1) [OF t(3)] by auto
    ultimately show ?thesis using d t(5) up_ok_mono by metis
  qed
  then show ?thesis unfolding graph_ok_def using len by (simp add: down_ok_def up_ok_def) metis
qed

text \<open>Evaluation of the graph, with node values for the leaves.\<close>

definition node_leaves :: "unique_process_subgraph \<Rightarrow> (nat \<Rightarrow> pull_enum) \<Rightarrow> leaf_values" where
  "node_leaves g val i k = val (snd (children (expr_graph_node_pool g ! i) ! k))"

lemma tree_value_rep:
  "rep g t \<Longrightarrow> length (ixs t) \<le> n \<Longrightarrow> tree_value n (process_graph.truncate g) (node_leaves g val) (root_ix t) = Some (tree_val g val t)"
  "rep_kids g i k ks \<Longrightarrow> length (kids_ixs ks) \<le> n \<Longrightarrow> children (expr_graph_node_pool g ! i) = cs @ map kid_entry ks \<Longrightarrow> k = length cs \<Longrightarrow>
   those (map (\<lambda>m. if fst (children (expr_graph_node_pool g ! i) ! m) then Some (node_leaves g val i m)
     else tree_value n (process_graph.truncate g) (node_leaves g val) (snd (children (expr_graph_node_pool g ! i) ! m))) [k..<k + length ks]) =
   Some (kids_val g val ks)"
proof (induction g t and g i k ks arbitrary: n and n cs rule: rep_rep_kids.induct)
  case (1 g i ks)
  from 1(3) obtain n' where n: "n = Suc n'" "length (kids_ixs ks) \<le> n'" by (cases n) auto
  from 1(2) have r: "rep_kids g i 0 ks" "children (expr_graph_node_pool g ! i) = [] @ map kid_entry ks" "i < length (expr_pool g)"
    "i < length (expr_graph_node_pool g)" by auto
  from 1(1) [OF r(1) n(2) r(2)] r show ?case by (simp add: n(1) nth_opt_in)
next
  case (3 g i k x ks)
  from 3(2) have r: "rep_kids g i (Suc k) ks" by simp
  have u: "[k..<k + length (Leaf x # ks)] = k # [Suc k..<Suc k + length ks]" by (subst upt_conv_Cons) simp_all
  have c: "children (expr_graph_node_pool g ! i) = (cs @ [(True, x)]) @ map kid_entry ks" using 3(4) by simp
  have "children (expr_graph_node_pool g ! i) ! k = (True, x)" using c 3(5) by simp
  with 3(1) [OF r _ c] 3(3,5) show ?case unfolding u by (simp add: node_leaves_def)
next
  case (4 g i k t ks)
  from 4(3) have r: "rep g t" "rep_kids g i (Suc k) ks" by auto
  have u: "[k..<k + length (Sub t # ks)] = k # [Suc k..<Suc k + length ks]" by (subst upt_conv_Cons) simp_all
  have c: "children (expr_graph_node_pool g ! i) = (cs @ [(False, root_ix t)]) @ map kid_entry ks" using 4(5) by simp
  have "children (expr_graph_node_pool g ! i) ! k = (False, root_ix t)" using c 4(6) by simp
  with 4(1) [OF r(1), of n] 4(2) [OF r(2) _ c, of n] 4(4,6) show ?case unfolding u by simp
qed simp

lemma root_value:
  assumes f: "forest g fl (map fst R)" and r: "rules_inv g R" and x: "(t, e, tg) \<in> set R"
  shows "tree_value (length (expr_pool g)) (process_graph.truncate g) (node_leaves g val) (root_ix t) = Some (fexpr_value val e)"
proof -
  have t: "t \<in> set (map fst R)" using x by force
  have "set (ixs t) \<subseteq> {..<length (expr_pool g)}" using forest_in(3) [OF f t] by auto
  then have "length (ixs t) \<le> length (expr_pool g)" using forest_in(2) [OF f t] card_mono [of "{..<length (expr_pool g)}" "set (ixs t)"]
    by (simp add: distinct_card)
  from tree_value_rep(1) [OF forest_in(1) [OF f t] this] root_entry [OF r x] show ?thesis by (auto simp: entry_ok_def)
qed

section \<open>The structural check\<close>

lemma leaf_entry: "(True, n) \<in> kid_entry ` set ks \<longleftrightarrow> Leaf n \<in> set ks"
proof -
  have "kid_entry y = (True, n) \<longleftrightarrow> y = Leaf n" for y by (cases y) auto
  then show ?thesis by (metis (no_types, lifting) image_iff)
qed

lemma count_list_distinct: "distinct xs \<Longrightarrow> x \<in> set xs \<Longrightarrow> count_list xs x = 1"
  by (induction xs) auto

lemma occs_children:
  "rep g t \<Longrightarrow> (n, x) \<in> set (occs t) \<Longrightarrow> x < length (expr_graph_node_pool g) \<and> (True, n) \<in> set (children (expr_graph_node_pool g ! x))"
  "rep_kids g i k ks \<Longrightarrow> (n, x) \<in> set (kids_occs i ks) \<Longrightarrow> Leaf n \<in> set ks \<and> x = i \<or>
     x < length (expr_graph_node_pool g) \<and> (True, n) \<in> set (children (expr_graph_node_pool g ! x))"
  by (induction g t and g i k ks rule: rep_rep_kids.induct) (auto simp: leaf_entry)

lemma children_occs:
  "rep g t \<Longrightarrow> x \<in> set (ixs t) \<Longrightarrow> (True, n) \<in> set (children (expr_graph_node_pool g ! x)) \<Longrightarrow> (n, x) \<in> set (occs t)"
  "rep_kids g i k ks \<Longrightarrow> (x \<in> set (kids_ixs ks) \<and> (True, n) \<in> set (children (expr_graph_node_pool g ! x)) \<longrightarrow> (n, x) \<in> set (kids_occs i ks)) \<and>
     (Leaf n \<in> set ks \<longrightarrow> (n, i) \<in> set (kids_occs i ks))"
proof (induction g t and g i k ks rule: rep_rep_kids.induct)
  case (1 g i ks)
  then show ?case by (auto simp: leaf_entry)
qed auto

lemma root_unique:
  assumes "rules_inv g R" and "k < length R" and "m < length R" and "root_ix (fst (R ! k)) = root_ix (fst (R ! m))"
  shows "k = m"
proof -
  have "rule_map g (root_ix (fst (R ! j))) = Some j" if "j < length R" for j
  proof -
    have "entry_ok g j (R ! j)" using assms(1) that by (simp add: rules_inv_def)
    then show ?thesis by (cases "R ! j") (simp add: entry_ok_def)
  qed
  note e = this
  have "Some k = Some m" unfolding e [OF assms(2), symmetric] e [OF assms(3), symmetric] assms(4) ..
  then show ?thesis by simp
qed

lemma count_pull_roots:
  assumes r: "rules_inv g R" and k: "k < length R" "R ! k = (t, e, Drive n d w)"
  shows "count_list (pull_roots R n d w) (root_ix t) = 1"
proof -
  have "distinct (map (\<lambda>x. root_ix (fst x)) R)" unfolding distinct_conv_nth using root_unique [OF r] by fastforce
  then have "distinct (pull_roots R n d w)" unfolding pull_roots_def by (rule distinct_map_filter)
  moreover have "(t, e, Drive n d w) \<in> set R" using k nth_mem by metis
  then have "root_ix t \<in> set (pull_roots R n d w)" by (force simp: pull_roots_def)
  ultimately show ?thesis by (simp add: count_list_distinct)
qed

lemma fanout_occs:
  assumes "fanouts_ok g F" and "n < length (local_faninout_map g)"
  shows "x \<in> set (fio_fanout (local_faninout_map g ! n)) \<longleftrightarrow> (n, x) \<in> set (forest_occs F)"
proof -
  have "x \<in># mset (fio_fanout (local_faninout_map g ! n)) \<longleftrightarrow> x \<in># image_mset snd (filter_mset (\<lambda>x. fst x = n) (mset (forest_occs F)))"
    using assms by (simp add: fanouts_ok_def)
  then show ?thesis by (auto simp: image_iff)
qed

lemma alloc_check_node:
  assumes f: "forest g fl (map fst R)" and r: "rules_inv g R" and n: "n < length (local_faninout_map g)"
  shows "check_node g n"
proof -
  have pull: "check_pull_list g n d (get_pull_expr d w (local_faninout_map g ! n))" for d w
    unfolding check_pull_list_def
  proof (intro ballI impI)
    fix ei assume "ei \<in> set (get_pull_expr d w (local_faninout_map g ! n))"
    with r n have "ei \<in> set (pull_roots R n d w)" by (simp add: rules_inv_def)
    then obtain t e where x: "(t, e, Drive n d w) \<in> set R" "ei = root_ix t" by (auto simp: pull_roots_def)
    from root_entry [OF r x(1)] obtain k where k: "k < length R" "entry_ok g k (t, e, Drive n d w)" by auto
    have "t \<in> set (map fst R)" using x(1) by force
    from forest_in(3) [OF f this, of ei] x(2) have "ei < length (expr_pool g)" by simp
    moreover have "k < length (rule_pool g)" using r k(1) by (simp add: rules_inv_def)
    ultimately show "case nth_opt (expr_pool g) ei of None \<Rightarrow> False | Some e \<Rightarrow> is_root e \<and> expr_parent e = n \<and>
          (case subgraph_rule g ei of Some (Some r) \<Rightarrow> direction r = d | _ \<Rightarrow> False)"
      using k(2) x(2) by (simp add: nth_opt_in entry_ok_def subgraph_rule_def)
  qed
  have "case nth_opt (expr_graph_node_pool g) ei of None \<Rightarrow> False | Some gn \<Rightarrow> contains_node_fanin n gn"
    if "ei \<in> set (fio_fanout (local_faninout_map g ! n))" for ei
  proof -
    from f have "fanouts_ok g (map fst R)" by (simp add: forest_def)
    with fanout_occs [OF this n] that obtain t where t: "t \<in> set (map fst R)" "(n, ei) \<in> set (occs t)" by (auto simp: forest_occs_def)
    from occs_children(1) [OF forest_in(1) [OF f t(1)] t(2)] show ?thesis by (simp add: nth_opt_in contains_node_fanin_iff)
  qed
  with pull n show ?thesis by (simp add: check_node_def nth_opt_in)
qed

lemma alloc_check_expr:
  assumes f: "forest g fl (map fst R)" and r: "rules_inv g R" and i: "i < length (expr_pool g)"
  shows "check_expr g i"
proof (cases "i \<in> set fl")
  case True
  with f i show ?thesis by (auto simp: forest_def slots_ok_def check_expr_def nth_opt_in)
next
  case False
  from forest_node [OF f r i False] obtain t e tg where t: "(t, e, tg) \<in> set R" "i \<in> set (ixs t)" "rep g t" "tree_closed g t"
    "is_root (expr_pool g ! root_ix t)" by blast
  from tree_nodes_ok(1) [OF t(3,4)] t(2) have d: "down_ok g i" and u: "i = root_ix t \<or> up_ok g (set (ixs t)) i" by auto
  have b: "\<forall>j \<in> set (ixs t). j < length (expr_pool g) \<and> j < length (expr_graph_node_pool g)" by (rule rep_bounds(1) [OF t(3)])
  let ?e = "expr_pool g ! i" and ?n = "expr_graph_node_pool g ! i"
  have par: "check_expr_parent g i ?e ?n"
  proof (cases "i = root_ix t")
    case True
    from root_entry [OF r t(1)] obtain k where k: "k < length R" "R ! k = (t, e, tg)" "entry_ok g k (t, e, tg)" by blast
    have kl: "k < length (rule_pool g)" using r k(1) by (simp add: rules_inv_def)
    show ?thesis
    proof (cases tg)
      case (Drive n d' w)
      with k(3) have n: "expr_parent ?e = n" "n < length (local_faninout_map g)" by (simp_all add: entry_ok_def True)
      have "count_list (get_pull_expr d' w (local_faninout_map g ! n)) i = 1"
        using count_pull_roots [OF r k(1), of t e n d' w] k(2) r n(2) Drive True by (simp add: rules_inv_def)
      then have "count_list (get_pull_expr d' False (local_faninout_map g ! n)) i = 1 \<or> count_list (get_pull_expr d' True (local_faninout_map g ! n)) i = 1"
        by (cases w) auto
      with k(3) kl n Drive True show ?thesis by (simp add: check_expr_parent_def entry_ok_def subgraph_rule_def nth_opt_in)
    next
      case (Invar j)
      with k(3) kl True show ?thesis by (simp add: check_expr_parent_def entry_ok_def subgraph_rule_def nth_opt_in)
    qed
  next
    case False
    with u have up: "up_ok g (set (ixs t)) i" by simp
    then have "expr_parent ?e < length (expr_pool g)" "expr_parent ?e < length (expr_graph_node_pool g)" using b by (auto simp: up_ok_def)
    with up show ?thesis by (simp add: check_expr_parent_def up_ok_def nth_opt_in)
  qed
  have leaf: "ni < length (local_faninout_map g) \<and> contains_fanout i (local_faninout_map g ! ni)"
    if "j < length (children ?n)" "children ?n ! j = (True, ni)" for j ni
  proof -
    from that have "(True, ni) \<in> set (children ?n)" using nth_mem by metis
    from children_occs(1) [OF t(3,2) this] t(1) have "(ni, i) \<in> set (forest_occs (map fst R))" by (force simp: forest_occs_def)
    moreover from f have fa: "fanouts_ok g (map fst R)" by (simp add: forest_def)
    ultimately show ?thesis using fanout_occs [OF fa, of ni i] by (auto simp: contains_fanout_def fanouts_ok_def)
  qed
  have "case children ?n ! j of
        (True, ni) \<Rightarrow> (case nth_opt (local_faninout_map g) ni of None \<Rightarrow> False | Some f \<Rightarrow> contains_fanout i f)
      | (False, ci) \<Rightarrow> (case (nth_opt (expr_pool g) ci, nth_opt (expr_graph_node_pool g) ci) of
          (Some c, Some cg) \<Rightarrow> expr_parent c = i \<and> unat (offset cg) = j | _ \<Rightarrow> False)" if j: "j < length (children ?n)" for j
  proof (cases "children ?n ! j")
    case (Pair l c)
    with leaf [OF j] d j show ?thesis by (cases l) (auto simp: nth_opt_in down_ok_def)
  qed
  with d par show ?thesis by (simp add: check_expr_def nth_opt_in down_ok_def)
qed

lemma alloc_check_structure:
  assumes "forest g fl (map fst R)" and "rules_inv g R"
  shows "check_structure g"
  using alloc_check_node [OF assms] alloc_check_expr [OF assms] assms(1) by (simp add: check_structure_def forest_def slots_ok_def)

end
