(* ===== verification/Alloc_Compact.thy ===== *)
theory Alloc_Compact
  imports Alloc_Graph
begin

text \<open>
  Compaction of the expression pools (\<^verbatim>\<open>compact_expr_pools\<close>): moving an expression to a free slot renames it in every
  link, so the graph represents the same trees under new names.
\<close>

section \<open>Renaming\<close>

fun ren :: "(nat \<Rightarrow> nat) \<Rightarrow> etree \<Rightarrow> etree" and ren_kids :: "(nat \<Rightarrow> nat) \<Rightarrow> ekid list \<Rightarrow> ekid list" where
  "ren f (ETree i ks) = ETree (f i) (ren_kids f ks)"
| "ren_kids f [] = []"
| "ren_kids f (Leaf n # ks) = Leaf n # ren_kids f ks"
| "ren_kids f (Sub t # ks) = Sub (ren f t) # ren_kids f ks"

definition ren_entry :: "(nat \<Rightarrow> nat) \<Rightarrow> bool \<times> nat \<Rightarrow> bool \<times> nat" where
  "ren_entry f c = (if fst c then c else (False, f (snd c)))"

lemma root_ix_ren [simp]: "root_ix (ren f t) = f (root_ix t)"
  by (cases t) simp

lemma kids_ren [simp]: "kids (ren f t) = ren_kids f (kids t)"
  by (cases t) simp

lemma length_ren_kids [simp]: "length (ren_kids f ks) = length ks"
proof (induction ks)
  case (Cons x ks)
  then show ?case by (cases x) simp_all
qed simp

lemma kid_entry_ren [simp]: "map kid_entry (ren_kids f ks) = map (ren_entry f) (map kid_entry ks)"
proof (induction ks)
  case (Cons x ks)
  then show ?case by (cases x) (simp_all add: ren_entry_def)
qed simp

lemma ixs_ren [simp]: "ixs (ren f t) = map f (ixs t)" "kids_ixs (ren_kids f ks) = map f (kids_ixs ks)"
  by (induction t and ks rule: ixs_kids_ixs.induct) auto

lemma occs_ren [simp]:
  "occs (ren f t) = map (\<lambda>x. (fst x, f (snd x))) (occs t)" "kids_occs (f i) (ren_kids f ks) = map (\<lambda>x. (fst x, f (snd x))) (kids_occs i ks)"
  by (induction t and i ks rule: occs_kids_occs.induct) auto

lemma forest_ren [simp]:
  "forest_ixs (map (ren f) F) = map f (forest_ixs F)" "forest_occs (map (ren f) F) = map (\<lambda>x. (fst x, f (snd x))) (forest_occs F)"
  by (simp_all add: forest_ixs_def forest_occs_def map_concat o_def)

text \<open>A graph that has the expressions of another under new names.\<close>

definition renamed :: "(nat \<Rightarrow> nat) \<Rightarrow> nat set \<Rightarrow> unique_process_subgraph \<Rightarrow> unique_process_subgraph \<Rightarrow> bool" where
  "renamed f S g g' \<longleftrightarrow> (\<forall>j \<in> S. f j < length (expr_pool g') \<and> f j < length (expr_graph_node_pool g') \<and>
     expr_pool g' ! f j = (if is_root (expr_pool g ! j) then expr_pool g ! j
       else (expr_pool g ! j)\<lparr>expr_parent := f (expr_parent (expr_pool g ! j))\<rparr>) \<and>
     expr_graph_node_pool g' ! f j = (expr_graph_node_pool g ! j)\<lparr>children := map (ren_entry f) (children (expr_graph_node_pool g ! j))\<rparr>)"

lemma renamed_mono: "renamed f S g g' \<Longrightarrow> T \<subseteq> S \<Longrightarrow> renamed f T g g'"
  by (auto simp: renamed_def)

lemma kleene_set_parent_field [simp]: "kleene_expr (e\<lparr>expr_parent := p\<rparr>) ps = kleene_expr e ps" "is_root (e\<lparr>expr_parent := p\<rparr>) = is_root e"
  by (simp_all add: kleene_expr_def is_disjunctive_def is_not_def is_root_def)

lemma renamed_root:
  assumes "renamed f S g g'" and "root_ix t \<in> S"
  shows "tree_closed g' (ren f t) = tree_closed g t" "linked g i k t \<Longrightarrow> linked g' (f i) k (ren f t)"
    "kleene_expr (expr_pool g' ! f (root_ix t)) ps = kleene_expr (expr_pool g ! root_ix t) ps"
    "is_root (expr_pool g' ! f (root_ix t)) = is_root (expr_pool g ! root_ix t)"
proof -
  have "ren_kids f (kids t) = [] \<longleftrightarrow> kids t = []" using length_ren_kids [of f "kids t"] by (metis length_0_conv)
  with assms show "tree_closed g' (ren f t) = tree_closed g t" by (auto simp: renamed_def tree_closed_def)
  show "linked g i k t \<Longrightarrow> linked g' (f i) k (ren f t)" using assms by (auto simp: renamed_def linked_def)
  show "kleene_expr (expr_pool g' ! f (root_ix t)) ps = kleene_expr (expr_pool g ! root_ix t) ps"
    "is_root (expr_pool g' ! f (root_ix t)) = is_root (expr_pool g ! root_ix t)" using assms by (auto simp: renamed_def)
qed

lemma rep_ren:
  "rep g t \<Longrightarrow> renamed f (set (ixs t)) g g' \<Longrightarrow> rep g' (ren f t) \<and> tree_val g' val (ren f t) = tree_val g val t"
  "rep_kids g i k ks \<Longrightarrow> renamed f (set (kids_ixs ks)) g g' \<Longrightarrow>
   rep_kids g' (f i) k (ren_kids f ks) \<and> kids_val g' val (ren_kids f ks) = kids_val g val ks"
proof (induction g t and g i k ks rule: rep_rep_kids.induct)
  case (1 g i ks)
  have "renamed f (set (kids_ixs ks)) g g'" using 1(3) by (auto elim: renamed_mono)
  with 1(1,2) have k: "rep_kids g' (f i) 0 (ren_kids f ks)" "kids_val g' val (ren_kids f ks) = kids_val g val ks" by auto
  have r: "renamed f {i} g g'" using 1(3) by (auto elim: renamed_mono)
  from renamed_root(3) [OF 1(3), of "ETree i ks" "kids_val g val ks"] have "kleene_expr (expr_pool g' ! f i) (kids_val g val ks) = kleene_expr (expr_pool g ! i) (kids_val g val ks)" by simp
  with k r 1(2) show ?case by (simp add: renamed_def)
next
  case (4 g i k t ks)
  then have r: "renamed f (set (ixs t)) g g'" "renamed f (set (kids_ixs ks)) g g'" by (auto elim: renamed_mono)
  with 4 renamed_root(1,2) [OF r(1), of t] show ?case by auto
qed auto

section \<open>Relinking\<close>

lemma fold_loop_append: "fold_loop f (xs @ ys) s = Option.bind (fold_loop f xs s) (fold_loop f ys)"
proof (induction xs arbitrary: s)
  case (Cons x xs)
  show ?case by (cases "f x s") (simp_all add: Cons)
qed simp

abbreviation subst_ix :: "nat \<Rightarrow> nat \<Rightarrow> nat \<Rightarrow> nat" where
  "subst_ix i n \<equiv> (\<lambda>x. if x = i then n else x)"

definition relinked :: "nat \<Rightarrow> nat \<Rightarrow> (bool \<times> nat) set \<Rightarrow> unique_process_subgraph \<Rightarrow> unique_process_subgraph \<Rightarrow> bool" where
  "relinked i n C g g' \<longleftrightarrow> length (expr_pool g') = length (expr_pool g) \<and> expr_graph_node_pool g' = expr_graph_node_pool g \<and>
     rule_pool g' = rule_pool g \<and> rule_map g' = rule_map g \<and> min_delays g' = min_delays g \<and> invariant_map g' = invariant_map g \<and>
     length (local_faninout_map g') = length (local_faninout_map g) \<and>
     (\<forall>j < length (expr_pool g). expr_pool g' ! j = (if (False, j) \<in> C then (expr_pool g ! j)\<lparr>expr_parent := n\<rparr> else expr_pool g ! j)) \<and>
     (\<forall>m < length (local_faninout_map g). local_faninout_map g' ! m = (if (True, m) \<in> C
        then (local_faninout_map g ! m)\<lparr>fio_fanout := map (subst_ix i n) (fio_fanout (local_faninout_map g ! m))\<rparr> else local_faninout_map g ! m))"

lemma relink_loop:
  assumes cs: "children (expr_graph_node_pool g ! n) = cs" "n < length (expr_graph_node_pool g)" "n \<noteq> i"
    and b: "\<And>c. (False, c) \<in> set cs \<Longrightarrow> c < length (expr_pool g)" "\<And>c. (True, c) \<in> set cs \<Longrightarrow> c < length (local_faninout_map g)"
  shows "k \<le> length cs \<Longrightarrow> \<exists>g'. fold_loop (relink_child i n) [0..<k] g = Some g' \<and> relinked i n (set (take k cs)) g g'"
proof (induction k)
  case 0
  show ?case by (simp add: relinked_def)
next
  case (Suc k)
  then obtain g1 where 1: "fold_loop (relink_child i n) [0..<k] g = Some g1" "relinked i n (set (take k cs)) g g1" by auto
  from Suc.prems have k: "k < length cs" and tk: "set (take (Suc k) cs) = insert (cs ! k) (set (take k cs))"
    by (auto simp: take_Suc_conv_app_nth)
  obtain l c where c: "cs ! k = (l, c)" by (cases "cs ! k")
  with nth_mem [OF k] have m: "(l, c) \<in> set cs" by simp
  have gn: "nth_opt (expr_graph_node_pool g1) n = Some (expr_graph_node_pool g ! n)" "nth_opt (children (expr_graph_node_pool g ! n)) k = Some (l, c)"
    using 1(2) cs k c by (auto simp: relinked_def nth_opt_in)
  have idem: "map (subst_ix i n) (map (subst_ix i n) xs) = map (subst_ix i n) xs" for xs using cs(3) by simp
  have "\<exists>g'. relink_child i n k g1 = Some g' \<and> relinked i n (set (take (Suc k) cs)) g g'"
  proof (cases l)
    case True
    with m b(2) 1(2) have c1: "c < length (local_faninout_map g1)" by (simp add: relinked_def)
    define g' where "g' = g1\<lparr>local_faninout_map := (local_faninout_map g1)[c := (local_faninout_map g1 ! c)\<lparr>fio_fanout :=
      map (subst_ix i n) (fio_fanout (local_faninout_map g1 ! c))\<rparr>]\<rparr>"
    have "relink_child i n k g1 = Some g'" using True c1 by (simp add: relink_child_def gn mod_faninout_def nth_opt_in g'_def)
    moreover have "local_faninout_map g' ! m = (if m = c \<or> (True, m) \<in> set (take k cs)
        then (local_faninout_map g ! m)\<lparr>fio_fanout := map (subst_ix i n) (fio_fanout (local_faninout_map g ! m))\<rparr> else local_faninout_map g ! m)"
      if "m < length (local_faninout_map g)" for m
      using 1(2) that c1 by (cases "m = c"; cases "(True, m) \<in> set (take k cs)") (simp_all add: g'_def relinked_def idem del: map_map)
    then have "relinked i n (set (take (Suc k) cs)) g g'"
      unfolding tk c using 1(2) True unfolding relinked_def by (simp add: g'_def)
    ultimately show ?thesis by blast
  next
    case False
    with m b(1) 1(2) have c1: "c < length (expr_pool g1)" by (simp add: relinked_def)
    define g' where "g' = g1\<lparr>expr_pool := (expr_pool g1)[c := (expr_pool g1 ! c)\<lparr>expr_parent := n\<rparr>]\<rparr>"
    have "relink_child i n k g1 = Some g'" using False c1 by (simp add: relink_child_def gn mod_expr_def nth_opt_in g'_def)
    moreover have "expr_pool g' ! j = (if j = c \<or> (False, j) \<in> set (take k cs) then (expr_pool g ! j)\<lparr>expr_parent := n\<rparr> else expr_pool g ! j)"
      if "j < length (expr_pool g)" for j
      using 1(2) that c1 by (cases "j = c"; cases "(False, j) \<in> set (take k cs)") (simp_all add: g'_def relinked_def)
    then have "relinked i n (set (take (Suc k) cs)) g g'"
      unfolding tk c using 1(2) False unfolding relinked_def by (simp add: g'_def)
    ultimately show ?thesis by blast
  qed
  then obtain g' where "relink_child i n k g1 = Some g'" "relinked i n (set (take (Suc k) cs)) g g'" by blast
  with 1(1) show ?case by (auto simp: fold_loop_append)
qed

section \<open>Moving one expression\<close>

text \<open>While expressions move, slots that were left are neither used nor free.\<close>

definition loose :: "unique_process_subgraph \<Rightarrow> nat list \<Rightarrow> built_rule list \<Rightarrow> bool" where
  "loose g fl R \<longleftrightarrow> length (expr_graph_node_pool g) = length (expr_pool g) \<and> distinct (forest_ixs (map fst R) @ fl) \<and>
     set (forest_ixs (map fst R) @ fl) \<subseteq> {..<length (expr_pool g)} \<and>
     (\<forall>i \<in> set fl. expr_wiped (expr_pool g ! i) \<and> graph_wiped (expr_graph_node_pool g ! i)) \<and>
     fanouts_ok g (map fst R) \<and> (\<forall>x \<in> set R. rep g (fst x)) \<and> rules_inv g R \<and> (\<forall>x \<in> set R. \<forall>j. snd (snd x) \<noteq> Invar j)"

abbreviation used :: "built_rule list \<Rightarrow> nat set" where
  "used R \<equiv> set (forest_ixs (map fst R))"

lemma rep_child_in:
  "rep g t \<Longrightarrow> j \<in> set (ixs t) \<Longrightarrow> (False, c) \<in> set (children (expr_graph_node_pool g ! j)) \<Longrightarrow> c \<in> set (ixs t)"
  "rep_kids g i k ks \<Longrightarrow> (j \<in> set (kids_ixs ks) \<longrightarrow> (False, c) \<in> set (children (expr_graph_node_pool g ! j)) \<longrightarrow> c \<in> set (kids_ixs ks)) \<and>
     ((False, c) \<in> kid_entry ` set ks \<longrightarrow> c \<in> set (kids_ixs ks))"
  by (induction g t and g i k ks rule: rep_rep_kids.induct) auto

lemma depth_parent_ne:
  assumes "expr_depth m pool i \<noteq> None" and "i < length pool" and "\<not> is_root (pool ! i)"
  shows "expr_parent (pool ! i) \<noteq> i"
proof
  assume self: "expr_parent (pool ! i) = i"
  from assms(1) obtain d where d: "expr_depth m pool i = Some d" by blast
  from expr_depth_step [OF this assms(2,3)] self obtain k where "expr_depth k pool i = Some (d - 1)" "0 < d" by auto
  with expr_depth_unique [OF d, of k "d - 1"] show False by simp
qed

lemma used_tree:
  assumes l: "loose g fl R" and j: "j \<in> used R"
  obtains t e tg k where "k < length R" "R ! k = (t, e, tg)" "entry_ok g k (t, e, tg)" "j \<in> set (ixs t)" "rep g t" "set (ixs t) \<subseteq> used R"
proof -
  from j obtain x where x: "x \<in> set R" "j \<in> set (ixs (fst x))" by (auto simp: forest_ixs_def)
  obtain t e tg where xt: "x = (t, e, tg)" by (cases x)
  from l have r: "rules_inv g R" by (simp add: loose_def)
  from root_entry [OF r] x(1) xt obtain k where k: "k < length R" "R ! k = (t, e, tg)" "entry_ok g k (t, e, tg)" by blast
  have "rep g t" using l x(1) xt by (auto simp: loose_def)
  moreover have "set (ixs t) \<subseteq> used R" using x(1) xt by (force simp: forest_ixs_def)
  ultimately show thesis using that k x(2) xt by simp
qed

lemma used_node:
  assumes l: "loose g fl R" and j: "j \<in> used R"
  shows "down_ok g j" "\<not> is_root (expr_pool g ! j) \<Longrightarrow> up_ok g (used R) j" "\<not> is_root (expr_pool g ! j) \<Longrightarrow> expr_parent (expr_pool g ! j) \<noteq> j"
    "(False, c) \<in> set (children (expr_graph_node_pool g ! j)) \<Longrightarrow> c \<in> used R" "j < length (expr_pool g)" "j < length (expr_graph_node_pool g)"
    "is_root (expr_pool g ! j) \<longleftrightarrow> rule_map g j \<noteq> None"
proof -
  from used_tree [OF l j] obtain t e tg k where t: "k < length R" "R ! k = (t, e, tg)" "entry_ok g k (t, e, tg)" "j \<in> set (ixs t)" "rep g t" "set (ixs t) \<subseteq> used R" .
  from t(3) have cl: "tree_closed g t" "is_root (expr_pool g ! root_ix t)" by (auto simp: entry_ok_def)
  from tree_nodes_ok(1) [OF t(5) cl(1)] t(4) have n: "down_ok g j" "j = root_ix t \<or> up_ok g (set (ixs t)) j" by auto
  show "down_ok g j" by (rule n(1))
  then show b: "j < length (expr_pool g)" "j < length (expr_graph_node_pool g)" by (auto simp: down_ok_def)
  show "\<not> is_root (expr_pool g ! j) \<Longrightarrow> up_ok g (used R) j" using n(2) cl(2) t(6) up_ok_mono by metis
  from rep_root [OF t(5)] cl(2) have "expr_depth 1 (expr_pool g) (root_ix t) \<noteq> None" by (simp add: nth_opt_in)
  from tree_depth(1) [OF t(5) this] t(4) have "expr_depth (1 + (length (ixs t) - 1)) (expr_pool g) j \<noteq> None" by blast
  from depth_parent_ne [OF this b(1)] show "\<not> is_root (expr_pool g ! j) \<Longrightarrow> expr_parent (expr_pool g ! j) \<noteq> j" .
  show "(False, c) \<in> set (children (expr_graph_node_pool g ! j)) \<Longrightarrow> c \<in> used R" using rep_child_in(1) [OF t(5,4)] t(6) by blast
  show "is_root (expr_pool g ! j) \<longleftrightarrow> rule_map g j \<noteq> None"
  proof
    assume "is_root (expr_pool g ! j)"
    with n(2) have "j = root_ix t" by (auto simp: up_ok_def)
    with t(3) show "rule_map g j \<noteq> None" by (simp add: entry_ok_def)
  next
    assume "rule_map g j \<noteq> None"
    then have "j \<in> dom (rule_map g)" by blast
    moreover from l have r: "rules_inv g R" by (simp add: loose_def)
    then have "dom (rule_map g) = (\<lambda>x. root_ix (fst x)) ` set R" by (simp add: rules_inv_def)
    ultimately obtain u e' tg' where x: "(u, e', tg') \<in> set R" "j = root_ix u" by force
    from root_entry [OF r x(1)] obtain m where "entry_ok g m (u, e', tg')" by blast
    then have "is_root (expr_pool g ! root_ix u)" by (simp add: entry_ok_def)
    then show "is_root (expr_pool g ! j)" by (simp only: x(2))
  qed
qed

lemma used_leaf:
  assumes l: "loose g fl R" and j: "j \<in> used R"
  shows "(True, m) \<in> set (children (expr_graph_node_pool g ! j)) \<longleftrightarrow> m < length (local_faninout_map g) \<and> j \<in> set (fio_fanout (local_faninout_map g ! m))"
proof -
  from l have fa: "fanouts_ok g (map fst R)" by (simp add: loose_def)
  have "(True, m) \<in> set (children (expr_graph_node_pool g ! j)) \<longleftrightarrow> (m, j) \<in> set (forest_occs (map fst R))"
  proof
    assume m: "(True, m) \<in> set (children (expr_graph_node_pool g ! j))"
    from used_tree [OF l j] obtain t e tg k where
      t: "k < length R" "R ! k = (t, e, tg)" "entry_ok g k (t, e, tg)" "j \<in> set (ixs t)" "rep g t" "set (ixs t) \<subseteq> used R" .
    from children_occs(1) [OF t(5,4) m] nth_mem [OF t(1)] t(2) show "(m, j) \<in> set (forest_occs (map fst R))" by (force simp: forest_occs_def)
  next
    assume "(m, j) \<in> set (forest_occs (map fst R))"
    then obtain x where x: "x \<in> set R" "(m, j) \<in> set (occs (fst x))" by (auto simp: forest_occs_def)
    with l have "rep g (fst x)" by (auto simp: loose_def)
    from occs_children(1) [OF this x(2)] show "(True, m) \<in> set (children (expr_graph_node_pool g ! j))" by simp
  qed
  with fanout_occs [OF fa, of m j] fa show ?thesis by (auto simp: fanouts_ok_def)
qed

text \<open>The effect of relinking the parent, for a root and for an inner expression.\<close>

definition parent_relinked :: "unique_process_subgraph \<Rightarrow> unique_process_subgraph \<Rightarrow> bool" where
  "parent_relinked g g' \<longleftrightarrow> expr_pool g' = expr_pool g \<and> length (expr_graph_node_pool g') = length (expr_graph_node_pool g) \<and>
     rule_pool g' = rule_pool g \<and> rule_map g' = rule_map g \<and> length (local_faninout_map g') = length (local_faninout_map g) \<and>
     (\<forall>m < length (local_faninout_map g). fio_fanout (local_faninout_map g' ! m) = fio_fanout (local_faninout_map g ! m))"

lemma relink_parent_root:
  assumes e: "is_root e" "expr_parent e < length (local_faninout_map g)"
    and r: "rule_map g n = Some ri" "ri < length (rule_pool g)" "direction (rule_pool g ! ri) = d" "rule_is_weak (rule_pool g ! ri) = w"
  shows "\<exists>g'. relink_parent i n e gn g = Some g' \<and> parent_relinked g g' \<and> expr_graph_node_pool g' = expr_graph_node_pool g \<and>
    (\<forall>m < length (local_faninout_map g). \<forall>d' w'. get_pull_expr d' w' (local_faninout_map g' ! m) =
       (if m = expr_parent e \<and> d' = d \<and> w' = w then map (subst_ix i n) (get_pull_expr d w (local_faninout_map g ! m)) else get_pull_expr d' w' (local_faninout_map g ! m)))"
proof -
  let ?f = "local_faninout_map g ! expr_parent e"
  let ?g' = "g\<lparr>local_faninout_map := (local_faninout_map g)[expr_parent e := set_pull_expr d w (map (subst_ix i n) (get_pull_expr d w ?f)) ?f]\<rparr>"
  have "relink_parent i n e gn g = Some ?g'"
    using assms by (simp add: relink_parent_def subgraph_rule_def nth_opt_in mod_faninout_def)
  moreover have "parent_relinked g ?g'" using e by (simp add: parent_relinked_def nth_list_update)
  ultimately show ?thesis using e by (intro exI [of _ ?g']) (simp add: nth_list_update)
qed

lemma relink_parent_inner:
  assumes e: "\<not> is_root e" "expr_parent e < length (expr_graph_node_pool g)" "unat (offset gn) < length (children (expr_graph_node_pool g ! expr_parent e))"
  shows "\<exists>g'. relink_parent i n e gn g = Some g' \<and> parent_relinked g g' \<and> local_faninout_map g' = local_faninout_map g \<and>
    (\<forall>j < length (expr_graph_node_pool g). expr_graph_node_pool g' ! j = (if j = expr_parent e
       then (expr_graph_node_pool g ! j)\<lparr>children := (children (expr_graph_node_pool g ! j))[unat (offset gn) := (False, n)]\<rparr> else expr_graph_node_pool g ! j))"
proof -
  let ?p = "expr_graph_node_pool g ! expr_parent e"
  let ?g' = "g\<lparr>expr_graph_node_pool := (expr_graph_node_pool g)[expr_parent e := ?p\<lparr>children := (children ?p)[unat (offset gn) := (False, n)]\<rparr>]\<rparr>"
  have "relink_parent i n e gn g = Some ?g'" using assms by (simp add: relink_parent_def nth_opt_in mod_graph_node_def)
  with e show ?thesis by (intro exI [of _ ?g']) (simp add: parent_relinked_def nth_list_update)
qed

text \<open>The graph after a move, expression by expression and node by node.\<close>

definition moved :: "nat \<Rightarrow> nat \<Rightarrow> built_rule list \<Rightarrow> unique_process_subgraph \<Rightarrow> unique_process_subgraph \<Rightarrow> bool" where
  "moved i n R g g' \<longleftrightarrow> length (expr_pool g') = length (expr_pool g) \<and> length (expr_graph_node_pool g') = length (expr_graph_node_pool g) \<and>
     rule_pool g' = rule_pool g \<and> length (local_faninout_map g') = length (local_faninout_map g) \<and>
     renamed (subst_ix i n) (used R) g g' \<and>
     (\<forall>j < length (expr_pool g). j \<notin> insert n (used R) \<longrightarrow> expr_pool g' ! j = expr_pool g ! j \<and> expr_graph_node_pool g' ! j = expr_graph_node_pool g ! j) \<and>
     (\<forall>j \<in> used R. rule_map g' (subst_ix i n j) = rule_map g j) \<and> dom (rule_map g') = subst_ix i n ` dom (rule_map g) \<and>
     (\<forall>m < length (local_faninout_map g). fio_fanout (local_faninout_map g' ! m) = map (subst_ix i n) (fio_fanout (local_faninout_map g ! m)) \<and>
       (\<forall>d w. get_pull_expr d w (local_faninout_map g' ! m) = map (subst_ix i n) (get_pull_expr d w (local_faninout_map g ! m))))"

lemma map_subst_notin [simp]: "i \<notin> set xs \<Longrightarrow> map (subst_ix i n) xs = xs"
  by (rule map_idI) auto

lemma dom_roots_used: "loose g fl R \<Longrightarrow> dom (rule_map g) \<subseteq> used R"
proof
  fix j assume l: "loose g fl R" and "j \<in> dom (rule_map g)"
  then obtain x where x: "x \<in> set R" "j = root_ix (fst x)" unfolding loose_def rules_inv_def by blast
  then show "j \<in> used R" by (force simp: forest_ixs_def)
qed

lemma move_rule_map:
  assumes l: "loose g (n # fl) R" and i: "i \<in> used R"
    and m: "rm = (case rule_map g i of Some ri \<Rightarrow> (rule_map g)(n \<mapsto> ri, i := None) | None \<Rightarrow> rule_map g)"
  shows "\<forall>j \<in> used R. rm (subst_ix i n j) = rule_map g j" "dom rm = subst_ix i n ` dom (rule_map g)"
proof -
  have n: "n \<notin> used R" using l by (auto simp: loose_def)
  with i have ni: "n \<noteq> i" by auto
  have nd: "rule_map g n = None" using dom_roots_used [OF l] n by blast
  show "\<forall>j \<in> used R. rm (subst_ix i n j) = rule_map g j" using n ni nd by (auto simp: m split: option.splits)
  show "dom rm = subst_ix i n ` dom (rule_map g)"
  proof (cases "rule_map g i")
    case None
    then have "i \<notin> dom (rule_map g)" by blast
    then have "subst_ix i n ` dom (rule_map g) = (\<lambda>x. x) ` dom (rule_map g)" by (intro image_cong) auto
    with None show ?thesis by (simp add: m)
  next
    case (Some ri)
    then have "rm = (rule_map g)(n \<mapsto> ri, i := None)" by (simp add: m)
    with Some nd ni show ?thesis by (auto simp: image_iff split: if_splits)
  qed
qed

text \<open>Expression by expression: the slot \<open>n\<close> has the moved expression, its children and its parent point there.\<close>

lemma renamed_move:
  assumes l: "loose g (n # fl) R" and i: "i \<in> used R"
    and len: "length (expr_pool g') = length (expr_pool g)" "length (expr_graph_node_pool g') = length (expr_graph_node_pool g)"
    and p: "\<And>j. j < length (expr_pool g) \<Longrightarrow> expr_pool g' ! j =
        (if (False, j) \<in> set (children (expr_graph_node_pool g ! i)) then (expr_pool g ! j)\<lparr>expr_parent := n\<rparr> else if j = n then expr_pool g ! i else expr_pool g ! j)"
    and q: "\<And>j. j < length (expr_pool g) \<Longrightarrow> expr_graph_node_pool g' ! j =
        (if \<not> is_root (expr_pool g ! i) \<and> j = expr_parent (expr_pool g ! i)
         then (expr_graph_node_pool g ! j)\<lparr>children := (children (expr_graph_node_pool g ! j))[unat (offset (expr_graph_node_pool g ! i)) := (False, n)]\<rparr>
         else if j = n then expr_graph_node_pool g ! i else expr_graph_node_pool g ! j)"
  shows "renamed (subst_ix i n) (used R) g g'"
  unfolding renamed_def
proof
  fix j assume j: "j \<in> used R"
  let ?f = "subst_ix i n" and ?e = "expr_pool g ! i" and ?n = "expr_graph_node_pool g ! i"
  have n: "n \<notin> used R" "n < length (expr_pool g)" "n < length (expr_graph_node_pool g)" using l by (auto simp: loose_def)
  with i j have ne: "n \<noteq> i" "n \<noteq> j" by auto
  note ni = used_node [OF l i] and nj = used_node [OF l j]
  have down: "\<not> is_root (expr_pool g ! c) \<and> expr_parent (expr_pool g ! c) = k \<and> (\<forall>m < length (children (expr_graph_node_pool g ! k)).
      children (expr_graph_node_pool g ! k) ! m = (False, c) \<longrightarrow> unat (offset (expr_graph_node_pool g ! c)) = m)"
    if "k \<in> used R" "(False, c) \<in> set (children (expr_graph_node_pool g ! k))" for k c
    using used_node(1) [OF l that(1)] that(2) unfolding down_ok_def in_set_conv_nth by blast
  have cn: "(False, n) \<notin> set (children ?n)" using ni(4) n(1) by blast
  have ci: "(False, i) \<notin> set (children ?n)" using down [OF i, of i] ni(3) by blast
  have noi: "map (ren_entry ?f) (children (expr_graph_node_pool g ! k)) = children (expr_graph_node_pool g ! k)"
    if "(False, i) \<notin> set (children (expr_graph_node_pool g ! k))" for k
    using that by (intro map_idI) (auto simp: ren_entry_def)
  show "?f j < length (expr_pool g') \<and> ?f j < length (expr_graph_node_pool g') \<and>
     expr_pool g' ! ?f j = (if is_root (expr_pool g ! j) then expr_pool g ! j else (expr_pool g ! j)\<lparr>expr_parent := ?f (expr_parent (expr_pool g ! j))\<rparr>) \<and>
     expr_graph_node_pool g' ! ?f j = (expr_graph_node_pool g ! j)\<lparr>children := map (ren_entry ?f) (children (expr_graph_node_pool g ! j))\<rparr>"
  proof (cases "j = i")
    case True
    have pn: "\<not> is_root ?e \<Longrightarrow> expr_parent ?e \<noteq> n" using ni(2) n(1) by (auto simp: up_ok_def)
    have "expr_pool g' ! n = ?e" using p [OF n(2)] cn by simp
    moreover have "expr_graph_node_pool g' ! n = ?n" using q [OF n(2)] pn by auto
    ultimately show ?thesis using True n len ni(3) noi [OF ci] by simp
  next
    case False
    have ch: "(False, j) \<in> set (children ?n) \<longleftrightarrow> \<not> is_root (expr_pool g ! j) \<and> expr_parent (expr_pool g ! j) = i"
    proof
      assume "(False, j) \<in> set (children ?n)"
      with down [OF i] show "\<not> is_root (expr_pool g ! j) \<and> expr_parent (expr_pool g ! j) = i" by blast
    next
      assume a: "\<not> is_root (expr_pool g ! j) \<and> expr_parent (expr_pool g ! j) = i"
      with nj(2) show "(False, j) \<in> set (children ?n)" unfolding up_ok_def in_set_conv_nth by auto
    qed
    have "expr_pool g' ! j = (if is_root (expr_pool g ! j) then expr_pool g ! j else (expr_pool g ! j)\<lparr>expr_parent := ?f (expr_parent (expr_pool g ! j))\<rparr>)"
      using p [OF nj(5)] ch ne by auto
    moreover have "expr_graph_node_pool g' ! j = (expr_graph_node_pool g ! j)\<lparr>children := map (ren_entry ?f) (children (expr_graph_node_pool g ! j))\<rparr>"
    proof (cases "\<not> is_root ?e \<and> j = expr_parent ?e")
      case True
      let ?cs = "children (expr_graph_node_pool g ! j)" and ?o = "unat (offset ?n)"
      from True ni(2) have o: "?o < length ?cs" "?cs ! ?o = (False, i)" by (auto simp: up_ok_def)
      then have mem: "(False, i) \<in> set ?cs" using nth_mem by metis
      have "?cs[?o := (False, n)] = map (ren_entry ?f) ?cs"
      proof (rule nth_equalityI)
        fix m assume m: "m < length (?cs[?o := (False, n)])"
        show "?cs[?o := (False, n)] ! m = map (ren_entry ?f) ?cs ! m"
        proof (cases "m = ?o")
          case True
          with o show ?thesis by (simp add: ren_entry_def)
        next
          case False
          with down [OF j mem] m have "?cs ! m \<noteq> (False, i)" by auto
          with False m show ?thesis by (cases "?cs ! m") (auto simp: ren_entry_def)
        qed
      qed simp
      with q [OF nj(5)] True show ?thesis by simp
    next
      case False
      have "(False, i) \<notin> set (children (expr_graph_node_pool g ! j))" using down [OF j] False by blast
      with q [OF nj(5)] False ne noi show ?thesis by auto
    qed
    ultimately show ?thesis using False nj(5,6) len by simp
  qed
qed

lemma pull_other:
  assumes l: "loose g fl R" and m: "m < length (local_faninout_map g)" and i: "i \<in> set (get_pull_expr d w (local_faninout_map g ! m))"
  shows "is_root (expr_pool g ! i)" "expr_parent (expr_pool g ! i) = m"
    "rule_map g i = Some ri \<Longrightarrow> direction (rule_pool g ! ri) = d \<and> rule_is_weak (rule_pool g ! ri) = w"
proof -
  from l have r: "rules_inv g R" by (simp add: loose_def)
  then have "get_pull_expr d w (local_faninout_map g ! m) = pull_roots R m d w" using m by (simp add: rules_inv_def)
  with i obtain t e where x: "(t, e, Drive m d w) \<in> set R" "i = root_ix t" by (auto simp: pull_roots_def)
  from root_entry [OF r x(1)] obtain k where "entry_ok g k (t, e, Drive m d w)" by blast
  with x(2) show "is_root (expr_pool g ! i)" "expr_parent (expr_pool g ! i) = m"
    "rule_map g i = Some ri \<Longrightarrow> direction (rule_pool g ! ri) = d \<and> rule_is_weak (rule_pool g ! ri) = w" by (auto simp: entry_ok_def)
qed

lemma move_expr_moved:
  assumes l: "loose g (n # fl) R" and i: "i \<in> used R"
  shows "\<exists>g'. move_expr i n g = Some g' \<and> moved i n R g g'"
proof -
  let ?e = "expr_pool g ! i" and ?n = "expr_graph_node_pool g ! i"
  have n: "n \<notin> used R" "n < length (expr_pool g)" "n < length (expr_graph_node_pool g)" "expr_wiped (expr_pool g ! n)" "graph_wiped (expr_graph_node_pool g ! n)"
    using l by (auto simp: loose_def)
  with i have ni: "n \<noteq> i" by auto
  note un = used_node [OF l i]
  define rm where "rm = (case rule_map g i of Some ri \<Rightarrow> (rule_map g)(n \<mapsto> ri, i := None) | None \<Rightarrow> rule_map g)"
  note rmf = move_rule_map [OF l i rm_def]
  define g1 where "g1 = (case rule_map g i of Some ri \<Rightarrow> g\<lparr>rule_map := (rule_map g)(n \<mapsto> ri, i := None)\<rparr> | None \<Rightarrow> g)"
  have g1: "g1 = g\<lparr>rule_map := rm\<rparr>" by (simp add: g1_def rm_def split: option.splits)
  define g2 where "g2 = g\<lparr>rule_map := rm, expr_pool := (expr_pool g)[n := ?e], expr_graph_node_pool := (expr_graph_node_pool g)[n := ?n]\<rparr>"
  have "\<exists>g3. relink_parent i n ?e ?n g2 = Some g3 \<and> parent_relinked g2 g3 \<and>
      (\<forall>j < length (expr_pool g). expr_graph_node_pool g3 ! j = (if \<not> is_root ?e \<and> j = expr_parent ?e
         then (expr_graph_node_pool g ! j)\<lparr>children := (children (expr_graph_node_pool g ! j))[unat (offset ?n) := (False, n)]\<rparr>
         else if j = n then ?n else expr_graph_node_pool g ! j)) \<and>
      (\<forall>m < length (local_faninout_map g). \<forall>d w. get_pull_expr d w (local_faninout_map g3 ! m) = map (subst_ix i n) (get_pull_expr d w (local_faninout_map g ! m)))"
  proof (cases "is_root ?e")
    case True
    with un(7) obtain ri where ri: "rule_map g i = Some ri" by blast
    with l obtain x where x: "x \<in> set R" "i = root_ix (fst x)" unfolding loose_def rules_inv_def by blast
    obtain t e tg where xt: "x = (t, e, tg)" by (cases x)
    from l x(1) xt obtain m d w where tg: "tg = Drive m d w" unfolding loose_def by (cases tg) force+
    from l have r: "rules_inv g R" by (simp add: loose_def)
    from root_entry [OF r] x(1) xt obtain k where k: "k < length R" "entry_ok g k (t, e, tg)" by blast
    with ri x(2) xt tg have en: "k = ri" "expr_parent ?e = m" "m < length (local_faninout_map g)" "direction (rule_pool g ! ri) = d" "rule_is_weak (rule_pool g ! ri) = w"
      by (auto simp: entry_ok_def)
    have rn: "rule_map g2 n = Some ri" using bspec [OF rmf(1) i] ri by (simp add: g2_def)
    have "ri < length (rule_pool g2)" using r k(1) en(1) by (simp add: rules_inv_def g2_def)
    from relink_parent_root [OF True _ rn this, of d w i ?n] en obtain g3 where
      3: "relink_parent i n ?e ?n g2 = Some g3" "parent_relinked g2 g3" "expr_graph_node_pool g3 = expr_graph_node_pool g2"
      "\<And>m' d' w'. m' < length (local_faninout_map g) \<Longrightarrow> get_pull_expr d' w' (local_faninout_map g3 ! m') =
         (if m' = m \<and> d' = d \<and> w' = w then map (subst_ix i n) (get_pull_expr d w (local_faninout_map g ! m')) else get_pull_expr d' w' (local_faninout_map g ! m'))"
      by (auto simp: g2_def)
    have "get_pull_expr d' w' (local_faninout_map g3 ! m') = map (subst_ix i n) (get_pull_expr d' w' (local_faninout_map g ! m'))"
      if "m' < length (local_faninout_map g)" for m' d' w'
      using 3(4) [OF that, of d' w'] pull_other(2,3) [OF l that, of i d' w'] ri en by (cases "i \<in> set (get_pull_expr d' w' (local_faninout_map g ! m'))") auto
    with 3 True n(3) show ?thesis by (intro exI [of _ g3]) (simp add: g2_def nth_list_update)
  next
    case False
    note up = un(2) [OF False]
    let ?p = "expr_parent ?e"
    have p: "?p \<in> used R" "?p < length (expr_graph_node_pool g)" "?p \<noteq> n" "unat (offset ?n) < length (children (expr_graph_node_pool g ! ?p))"
      using up used_node(6) [OF l, of ?p] n(1) by (auto simp: up_ok_def)
    from relink_parent_inner [OF False, of g2 ?n i n] p obtain g3 where
      3: "relink_parent i n ?e ?n g2 = Some g3" "parent_relinked g2 g3" "local_faninout_map g3 = local_faninout_map g"
      "\<And>j. j < length (expr_graph_node_pool g) \<Longrightarrow> expr_graph_node_pool g3 ! j = (if j = ?p
         then (expr_graph_node_pool g2 ! j)\<lparr>children := (children (expr_graph_node_pool g2 ! j))[unat (offset ?n) := (False, n)]\<rparr> else expr_graph_node_pool g2 ! j)"
      by (auto simp: g2_def)
    have "length (expr_graph_node_pool g) = length (expr_pool g)" using l by (simp add: loose_def)
    moreover have "i \<notin> set (get_pull_expr d w (local_faninout_map g ! m))" if "m < length (local_faninout_map g)" for m d w
      using pull_other(1) [OF l that, of i d w] False by blast
    ultimately show ?thesis using 3 False p(3) n(3) by (intro exI [of _ g3]) (simp add: g2_def nth_list_update)
  qed
  then obtain g3 where 3: "relink_parent i n ?e ?n g2 = Some g3" "parent_relinked g2 g3"
    and q: "\<And>j. j < length (expr_pool g) \<Longrightarrow> expr_graph_node_pool g3 ! j = (if \<not> is_root ?e \<and> j = expr_parent ?e
         then (expr_graph_node_pool g ! j)\<lparr>children := (children (expr_graph_node_pool g ! j))[unat (offset ?n) := (False, n)]\<rparr>
         else if j = n then ?n else expr_graph_node_pool g ! j)"
    and pl: "\<And>m d w. m < length (local_faninout_map g) \<Longrightarrow> get_pull_expr d w (local_faninout_map g3 ! m) = map (subst_ix i n) (get_pull_expr d w (local_faninout_map g ! m))"
    by blast
  have lens: "length (expr_pool g3) = length (expr_pool g)" "length (expr_graph_node_pool g3) = length (expr_graph_node_pool g)"
    "length (local_faninout_map g3) = length (local_faninout_map g)" using 3(2) by (simp_all add: parent_relinked_def g2_def)
  have pn: "\<not> (\<not> is_root ?e \<and> n = expr_parent ?e)" using un(2) n(1) by (auto simp: up_ok_def)
  have c3: "children (expr_graph_node_pool g3 ! n) = children ?n" using q [OF n(2)] pn by auto
  have sz: "unat (expr_size ?e) = length (children ?n)" using un(1) by (simp add: down_ok_def)
  from relink_loop [OF c3, of i "length (children ?n)"] n(3) ni lens un(4) used_node(5) [OF l] used_leaf [OF l i]
  obtain g4 where 4: "fold_loop (relink_child i n) [0..<length (children ?n)] g3 = Some g4" "relinked i n (set (children ?n)) g3 g4" by auto
  have ev: "move_expr i n g = Some g4"
    unfolding move_expr_def g1_def [symmetric] Let_def g1
    using n un(5,6) 3(1) sz 4(1) by (simp add: nth_opt_in g2_def)
  have "renamed (subst_ix i n) (used R) g g4"
  proof (rule renamed_move [OF l i])
    show "expr_pool g4 ! j = (if (False, j) \<in> set (children ?n) then (expr_pool g ! j)\<lparr>expr_parent := n\<rparr> else if j = n then ?e else expr_pool g ! j)"
      if "j < length (expr_pool g)" for j
    proof (cases "j = n")
      case True
      with un(4) [of n] n(1) have "(False, j) \<notin> set (children ?n)" by blast
      with 4(2) 3(2) that lens True show ?thesis by (simp add: relinked_def parent_relinked_def g2_def)
    next
      case False
      with 4(2) 3(2) that lens show ?thesis by (simp add: relinked_def parent_relinked_def g2_def)
    qed
    show "expr_graph_node_pool g4 ! j = (if \<not> is_root ?e \<and> j = expr_parent ?e
         then (expr_graph_node_pool g ! j)\<lparr>children := (children (expr_graph_node_pool g ! j))[unat (offset ?n) := (False, n)]\<rparr>
         else if j = n then ?n else expr_graph_node_pool g ! j)" if "j < length (expr_pool g)" for j
      using 4(2) q [OF that] by (simp add: relinked_def)
  qed (use 4(2) lens in \<open>simp_all add: relinked_def\<close>)
  moreover have "expr_pool g4 ! j = expr_pool g ! j \<and> expr_graph_node_pool g4 ! j = expr_graph_node_pool g ! j"
    if "j < length (expr_pool g)" "j \<notin> insert n (used R)" for j
  proof -
    have "(False, j) \<notin> set (children ?n)" "\<not> (\<not> is_root ?e \<and> j = expr_parent ?e)" using that(2) un(2,4) by (auto simp: up_ok_def)
    with 4(2) 3(2) that lens q [OF that(1)] show ?thesis by (auto simp: relinked_def parent_relinked_def g2_def nth_list_update)
  qed
  moreover have "fio_fanout (local_faninout_map g4 ! m) = map (subst_ix i n) (fio_fanout (local_faninout_map g ! m)) \<and>
      (\<forall>d w. get_pull_expr d w (local_faninout_map g4 ! m) = map (subst_ix i n) (get_pull_expr d w (local_faninout_map g ! m)))"
    if m: "m < length (local_faninout_map g)" for m
  proof -
    have "fio_fanout (local_faninout_map g3 ! m) = fio_fanout (local_faninout_map g ! m)" using 3(2) m by (simp add: parent_relinked_def g2_def)
    moreover have "(True, m) \<notin> set (children ?n) \<Longrightarrow> i \<notin> set (fio_fanout (local_faninout_map g ! m))" using used_leaf [OF l i, of m] m by blast
    ultimately show ?thesis using 4(2) m lens pl [OF m] by (auto simp: relinked_def)
  qed
  ultimately have "moved i n R g g4" using 4(2) 3(2) lens rmf by (simp add: moved_def relinked_def parent_relinked_def g2_def)
  with ev show ?thesis by blast
qed

section \<open>A move keeps the trees\<close>

abbreviation ren_rules :: "(nat \<Rightarrow> nat) \<Rightarrow> built_rule list \<Rightarrow> built_rule list" where
  "ren_rules f R \<equiv> map (\<lambda>x. (ren f (fst x), snd x)) R"

lemma ren_rules_fst [simp]: "map fst (ren_rules f R) = map (ren f) (map fst R)"
  by simp

lemma pull_roots_ren: "pull_roots (ren_rules f R) n d w = map f (pull_roots R n d w)"
  by (induction R) (simp_all add: pull_roots_def)

lemma occs_rename:
  "image_mset f (image_mset snd (filter_mset (\<lambda>x. fst x = q) (mset xs))) = image_mset snd (filter_mset (\<lambda>x. fst x = q) (mset (map (\<lambda>x. (fst x, f (snd x))) xs)))"
  by (induction xs) simp_all

lemma distinct_subst: "distinct xs \<Longrightarrow> n \<notin> set xs \<Longrightarrow> distinct (map (subst_ix i n) xs)"
  by (auto simp: distinct_map inj_on_def)

lemma moved_entry:
  assumes l: "loose g (n # fl) R" and m: "moved i n R g g'" and k: "k < length R"
  shows "entry_ok g' k (ren_rules (subst_ix i n) R ! k)"
proof -
  let ?f = "subst_ix i n"
  obtain t e tg where x: "R ! k = (t, e, tg)" by (cases "R ! k")
  with nth_mem [OF k] have mem: "(t, e, tg) \<in> set R" by simp
  from l have r: "rules_inv g R" "rep g t" "\<forall>j. tg \<noteq> Invar j" using mem by (auto simp: loose_def)
  then have ok: "entry_ok g k (t, e, tg)" using k x by (auto simp: rules_inv_def)
  obtain nd d w where tg: "tg = Drive nd d w" using r(3) by (cases tg) auto
  have sub: "set (ixs t) \<subseteq> used R" using mem by (force simp: forest_ixs_def)
  have rt: "root_ix t \<in> used R" using sub by auto
  from m have rn: "renamed ?f (used R) g g'" "rule_map g' (?f (root_ix t)) = rule_map g (root_ix t)" "rule_pool g' = rule_pool g"
    "length (local_faninout_map g') = length (local_faninout_map g)" using rt by (simp_all add: moved_def)
  note rr = renamed_root [OF rn(1) rt]
  have ex: "expr_parent (expr_pool g' ! ?f (root_ix t)) = expr_parent (expr_pool g ! root_ix t)"
    using rn(1) rt ok by (simp add: renamed_def entry_ok_def)
  have "tree_val g' val (ren ?f t) = tree_val g val t" for val
    using rep_ren(1) [OF r(2) renamed_mono [OF rn(1) sub]] by blast
  with ok rr(1,4) rn ex tg k x show ?thesis by (simp add: entry_ok_def del: ren.simps)
qed

lemma moved_loose:
  assumes l: "loose g (n # fl) R" and i: "i \<in> used R" and m: "moved i n R g g'"
  shows "loose g' fl (ren_rules (subst_ix i n) R)"
proof -
  let ?f = "subst_ix i n" and ?R = "ren_rules (subst_ix i n) R"
  have n: "n \<notin> used R" "n < length (expr_pool g)" "n \<notin> set fl" using l by (auto simp: loose_def)
  have eq: "length (expr_pool g') = length (expr_pool g)" "length (expr_graph_node_pool g') = length (expr_graph_node_pool g)"
    "length (local_faninout_map g') = length (local_faninout_map g)" "rule_pool g' = rule_pool g" using m by (simp_all add: moved_def)
  have U: "forest_ixs (map fst ?R) = map ?f (forest_ixs (map fst R))" "set (forest_ixs (map fst ?R)) \<subseteq> insert n (used R)"
    unfolding ren_rules_fst forest_ren by auto
  have slots: "distinct (forest_ixs (map fst ?R) @ fl)" "set (forest_ixs (map fst ?R) @ fl) \<subseteq> {..<length (expr_pool g')}"
  proof -
    have "distinct (map ?f (forest_ixs (map fst R)))" using l n(1) by (intro distinct_subst) (auto simp: loose_def)
    moreover have "insert n (used R) \<inter> set fl = {}" "distinct fl" using l n by (auto simp: loose_def)
    ultimately show "distinct (forest_ixs (map fst ?R) @ fl)" using U(2) unfolding distinct_append U(1) by blast
    have "insert n (used R) \<union> set fl \<subseteq> {..<length (expr_pool g)}" using l by (auto simp: loose_def)
    with U eq show "set (forest_ixs (map fst ?R) @ fl) \<subseteq> {..<length (expr_pool g')}" by auto
  qed
  have wiped: "expr_wiped (expr_pool g' ! j) \<and> graph_wiped (expr_graph_node_pool g' ! j)" if "j \<in> set fl" for j
  proof -
    have "j < length (expr_pool g)" "j \<notin> insert n (used R)" "expr_wiped (expr_pool g ! j) \<and> graph_wiped (expr_graph_node_pool g ! j)"
      using l that by (auto simp: loose_def)
    with m show ?thesis by (simp add: moved_def)
  qed
  have fan: "fanouts_ok g' (map fst ?R)"
    unfolding fanouts_ok_def
  proof (intro conjI ballI allI impI)
    have fo: "forest_occs (map fst ?R) = map (\<lambda>x. (fst x, ?f (snd x))) (forest_occs (map fst R))" unfolding ren_rules_fst forest_ren ..
    from l have fa: "fanouts_ok g (map fst R)" by (simp add: loose_def)
    show "fst x < length (local_faninout_map g')" if "x \<in> set (forest_occs (map fst ?R))" for x
      using that fa eq(3) unfolding fo fanouts_ok_def by auto
    show "mset (fio_fanout (local_faninout_map g' ! q)) = image_mset snd (filter_mset (\<lambda>x. fst x = q) (mset (forest_occs (map fst ?R))))"
      if q: "q < length (local_faninout_map g')" for q
    proof -
      have "mset (fio_fanout (local_faninout_map g' ! q)) = image_mset ?f (mset (fio_fanout (local_faninout_map g ! q)))"
        using m q eq(3) by (simp add: moved_def)
      also have "\<dots> = image_mset ?f (image_mset snd (filter_mset (\<lambda>x. fst x = q) (mset (forest_occs (map fst R)))))"
        using fa q eq(3) by (simp add: fanouts_ok_def)
      also have "\<dots> = image_mset snd (filter_mset (\<lambda>x. fst x = q) (mset (forest_occs (map fst ?R))))"
        unfolding fo by (rule occs_rename)
      finally show ?thesis .
    qed
  qed
  have reps: "rep g' (fst x)" if "x \<in> set ?R" for x
  proof -
    from that obtain y where y: "y \<in> set R" "fst x = ren ?f (fst y)" by auto
    then have "set (ixs (fst y)) \<subseteq> used R" by (force simp: forest_ixs_def)
    moreover have "renamed ?f (used R) g g'" using m by (simp add: moved_def)
    moreover have "rep g (fst y)" using l y(1) by (auto simp: loose_def)
    ultimately show ?thesis using rep_ren(1) renamed_mono y(2) by metis
  qed
  have "rules_inv g' ?R"
    unfolding rules_inv_def
  proof (intro conjI allI impI)
    from l have r: "rules_inv g R" by (simp add: loose_def)
    show "length (rule_pool g') = length ?R" using r eq by (simp add: rules_inv_def)
    show "entry_ok g' k (?R ! k)" if "k < length ?R" for k using moved_entry [OF l m] that by simp
    have "dom (rule_map g') = ?f ` dom (rule_map g)" using m by (simp add: moved_def)
    also have "dom (rule_map g) = (\<lambda>x. root_ix (fst x)) ` set R" using r by (simp add: rules_inv_def)
    also have "?f ` (\<lambda>x. root_ix (fst x)) ` set R = (\<lambda>x. root_ix (fst x)) ` set ?R" by (simp only: set_map image_image root_ix_ren fst_conv)
    finally show "dom (rule_map g') = (\<lambda>x. root_ix (fst x)) ` set ?R" .
    show "get_pull_expr d w (local_faninout_map g' ! q) = pull_roots ?R q d w" if "q < length (local_faninout_map g')" for q d w
      unfolding pull_roots_ren using m r that eq by (simp add: moved_def rules_inv_def)
  qed
  moreover have "\<forall>x \<in> set ?R. \<forall>j. snd (snd x) \<noteq> Invar j" using l by (auto simp: loose_def)
  moreover have "length (expr_graph_node_pool g') = length (expr_pool g')" using l eq by (simp add: loose_def)
  ultimately show ?thesis using slots wiped fan reps unfolding loose_def by blast
qed

section \<open>The loop over the slots past the end\<close>

lemma set_insert_sorted: "sorted_wrt (<) ys \<Longrightarrow> sorted_wrt (<) (set_insert x ys)"
  by (induction ys) auto

lemma fold_set_insert: "sorted_wrt (<) ys \<Longrightarrow> sorted_wrt (<) (fold set_insert xs ys) \<and> set (fold set_insert xs ys) = set xs \<union> set ys"
  by (induction xs arbitrary: ys) (auto simp: set_insert_sorted)

lemma used_ren: "used (ren_rules f R) = f ` used R"
  unfolding ren_rules_fst forest_ren by simp

lemma move_all_loose:
  "loose g fl R \<Longrightarrow> distinct is \<Longrightarrow> set is \<subseteq> used R \<Longrightarrow> length is = length fl \<Longrightarrow>
   \<exists>g' R'. move_all is fl g = Some ([], g') \<and> loose g' [] R' \<and> map snd R' = map snd R \<and> used R' = used R - set is \<union> set fl \<and>
     length (expr_pool g') = length (expr_pool g) \<and> length (local_faninout_map g') = length (local_faninout_map g)"
proof (induction "is" arbitrary: fl g R)
  case Nil
  then show ?case by auto
next
  case (Cons i "is")
  then obtain n fl' where fl: "fl = n # fl'" by (cases fl) auto
  let ?R = "ren_rules (subst_ix i n) R"
  from Cons.prems have l: "loose g (n # fl') R" and i: "i \<in> used R" "i \<notin> set is" "distinct is" by (auto simp: fl)
  from l have n: "n \<notin> used R" "n \<notin> set fl'" by (auto simp: loose_def)
  from move_expr_moved [OF l i(1)] obtain g1 where 1: "move_expr i n g = Some g1" "moved i n R g g1" by blast
  have u: "used ?R = used R - {i} \<union> {n}" unfolding used_ren using i(1) by (auto split: if_splits)
  have "set is \<subseteq> used ?R" unfolding u using Cons.prems(3) i(2) by auto
  from Cons.IH [OF moved_loose [OF l i(1) 1(2)] i(3) this] Cons.prems(4) fl obtain g2 R2 where
    2: "move_all is fl' g1 = Some ([], g2)" "loose g2 [] R2" "map snd R2 = map snd ?R" "used R2 = used ?R - set is \<union> set fl'"
      "length (expr_pool g2) = length (expr_pool g1)" "length (local_faninout_map g2) = length (local_faninout_map g1)" by auto
  have "n \<notin> set is" using Cons.prems(3) n(1) by auto
  then have "used R2 = used R - set (i # is) \<union> set fl" unfolding 2(4) u fl by auto
  moreover have "map snd R2 = map snd R" using 2(3) by (simp add: o_def)
  ultimately show ?case using 1 2 by (intro exI [of _ g2] exI [of _ R2]) (simp add: fl moved_def)
qed

lemma loose_take:
  assumes l: "loose g [] R" and u: "used R = {..<m}" and m: "m \<le> length (expr_pool g)"
  defines "g' \<equiv> g\<lparr>expr_pool := take m (expr_pool g), expr_graph_node_pool := take m (expr_graph_node_pool g)\<rparr>"
  shows "forest g' [] (map fst R)" "rules_inv g' R"
proof -
  have len: "length (expr_graph_node_pool g) = length (expr_pool g)" using l by (simp add: loose_def)
  have eq: "eq_on (used R) g g'" unfolding u using m len by (simp add: eq_on_def g'_def)
  have fan: "fanouts_ok g' (map fst R)" using l by (simp add: loose_def fanouts_ok_def g'_def)
  have "\<forall>t \<in> set (map fst R). rep g t" using l by (auto simp: loose_def)
  from reps_frame [OF this eq] have reps: "\<forall>t \<in> set (map fst R). rep g' t" .
  have "slots_ok g' [] (map fst R)" using l u m len by (simp add: slots_ok_def loose_def g'_def)
  with fan reps show "forest g' [] (map fst R)" by (simp add: forest_def)
  from l have r: "rules_inv g R" by (simp add: loose_def)
  have "entry_ok g' k (R ! k)" if k: "k < length R" for k
  proof -
    obtain t e tg where x: "R ! k = (t, e, tg)" by (cases "R ! k")
    with nth_mem [OF k] have mem: "(t, e, tg) \<in> set R" by simp
    then have sub: "set (ixs t) \<subseteq> used R" by (force simp: forest_ixs_def)
    have 1: "entry_ok g k (t, e, tg)" using r k x by (auto simp: rules_inv_def)
    have 2: "rep g t" using l mem by (auto simp: loose_def)
    from entry_frame [OF 1 2 eq_on_mono [OF eq sub]] x show ?thesis by (simp add: g'_def)
  qed
  with r show "rules_inv g' R" by (simp add: rules_inv_def g'_def)
qed

lemma free_slots_match:
  assumes d: "distinct fl" "U \<inter> set fl = {}" and U: "U \<union> set fl = {..<eps}" "m + length fl = eps"
  defines "free \<equiv> fold set_insert (filter (\<lambda>i. i < m) fl) []" and "is \<equiv> filter (\<lambda>i. i \<notin> set (filter (\<lambda>i. \<not> i < m) fl)) [m..<eps]"
  shows "distinct free" "set free = set fl \<inter> {..<m}" "distinct is" "set is = U \<inter> {m..<eps}" "length is = length free"
proof -
  show f: "set free = set fl \<inter> {..<m}" "distinct free" using fold_set_insert [of "[]" "filter (\<lambda>i. i < m) fl"] by (auto simp: free_def strict_sorted_iff)
  show i: "set is = U \<inter> {m..<eps}" "distinct is" using U(1) d(2) by (auto simp: is_def)
  have split: "card (A \<union> B) = card A + card B" if "A \<subseteq> {..<eps}" "B \<subseteq> {..<eps}" "A \<inter> B = {}" for A B
    using that by (intro card_Un_disjoint) (auto intro: finite_subset)
  have "set fl = (set fl \<inter> {..<m}) \<union> (set fl \<inter> {m..<eps})" using U(1) by fastforce
  with split [of "set fl \<inter> {..<m}" "set fl \<inter> {m..<eps}"] U(1) have "card (set fl) = card (set fl \<inter> {..<m}) + card (set fl \<inter> {m..<eps})" by fastforce
  moreover have "{m..<eps} = (U \<inter> {m..<eps}) \<union> (set fl \<inter> {m..<eps})" using U(1) by fastforce
  with split [of "U \<inter> {m..<eps}" "set fl \<inter> {m..<eps}"] d(2) U(1) have "card {m..<eps} = card (U \<inter> {m..<eps}) + card (set fl \<inter> {m..<eps})" by fastforce
  ultimately have "card (set is) = card (set free)" unfolding f i using U(2) distinct_card [OF d(1)] by simp
  then show "length is = length free" using distinct_card [OF i(2)] distinct_card [OF f(2)] by (simp only:)
qed

lemma compact_expr_pools_spec:
  assumes a: "alloc_inv s R" and ni: "\<forall>x \<in> set R. \<forall>j. snd (snd x) \<noteq> Invar j"
  shows "\<exists>s' R'. compact_expr_pools s = Some s' \<and> expr_free_list s' = [] \<and> alloc_inv s' R' \<and> map snd R' = map snd R \<and>
    length (expr_pool (ea_g s')) = length (forest_ixs (map fst R)) \<and>
    length (local_faninout_map (ea_g s')) = length (local_faninout_map (ea_g s)) \<and> at_source s' = at_source s \<and> suppress_keeper_rule s' = suppress_keeper_rule s"
proof -
  let ?g = "ea_g s"
  define fl eps where "fl = expr_free_list s" and "eps = length (expr_pool ?g)"
  define m where "m = eps - length fl"
  define free where "free = fold set_insert (filter (\<lambda>i. i < m) fl) []"
  define js where "js = filter (\<lambda>i. i \<notin> set (filter (\<lambda>i. \<not> i < m) fl)) [m..<eps]"
  from a have f: "forest ?g fl (map fst R)" and r: "rules_inv ?g R" by (simp_all add: alloc_inv_def fl_def)
  from f have sl: "length (expr_graph_node_pool ?g) = length (expr_pool ?g)" "distinct (forest_ixs (map fst R) @ fl)" "used R \<union> set fl = {..<eps}"
    "\<forall>i \<in> set fl. expr_wiped (expr_pool ?g ! i) \<and> graph_wiped (expr_graph_node_pool ?g ! i)" by (auto simp: forest_def slots_ok_def eps_def)
  from sl(2) have d: "distinct (forest_ixs (map fst R))" "distinct fl" "used R \<inter> set fl = {}" by auto
  have "card (used R \<union> set fl) = length (forest_ixs (map fst R)) + length fl"
    using d by (simp add: card_Un_disjoint distinct_card)
  with sl(3) have mu: "m = length (forest_ixs (map fst R))" "m + length fl = eps" by (auto simp: m_def)
  note fr = free_slots_match [OF d(2,3) sl(3) mu(2), folded free_def js_def]
  have reps: "\<forall>x \<in> set R. rep ?g (fst x)" "fanouts_ok ?g (map fst R)" using f by (simp_all add: forest_def)
  have "distinct (forest_ixs (map fst R) @ free)" "set (forest_ixs (map fst R) @ free) \<subseteq> {..<length (expr_pool ?g)}" "set free \<subseteq> set fl"
    unfolding distinct_append set_append fr eps_def [symmetric] using d sl(3) fr(1) by auto
  then have l0: "loose ?g free R" using reps r sl(1,4) ni unfolding loose_def by blast
  have "set js \<subseteq> used R" unfolding fr by simp
  from move_all_loose [OF l0 fr(3) this fr(5)] obtain g' R' where 1: "move_all js free ?g = Some ([], g')" "loose g' [] R'" "map snd R' = map snd R"
    "used R' = used R - set js \<union> set free" "length (expr_pool g') = eps" "length (local_faninout_map g') = length (local_faninout_map ?g)"
    unfolding eps_def by blast
  have "used R' = {..<m}" unfolding 1(4) fr using sl(3) d(3) mu(2) by auto
  note t = loose_take [OF 1(2) this, unfolded 1(5)]
  define s' where "s' = s\<lparr>expr_free_list := [], ea_g := g'\<lparr>expr_pool := take m (expr_pool g'), expr_graph_node_pool := take m (expr_graph_node_pool g')\<rparr>\<rparr>"
  have "compact_expr_pools s = Some s'"
    unfolding compact_expr_pools_def Let_def fl_def [symmetric] eps_def [symmetric] m_def [symmetric] free_def [symmetric] js_def [symmetric]
    by (simp add: 1(1) s'_def)
  with t 1(3,5,6) mu show ?thesis by (intro exI [of _ s'] exI [of _ R']) (simp add: s'_def alloc_inv_def)
qed

section \<open>A process type\<close>

lemma those_member: "those xs = Some ys \<Longrightarrow> y \<in> set ys \<Longrightarrow> Some y \<in> set xs"
proof (induction xs arbitrary: ys)
  case (Cons x xs)
  then show ?case by (auto split: option.splits)
qed simp

lemma drive_roots:
  "rule_roots N k pf flags dflt x = Some l \<Longrightarrow> z \<in> set l \<Longrightarrow> snd z \<noteq> Invar j"
  "pass_roots N y = Some l \<Longrightarrow> z \<in> set l \<Longrightarrow> snd z \<noteq> Invar j"
  "assignment_roots N k pool r = Some l \<Longrightarrow> z \<in> set l \<Longrightarrow> snd z \<noteq> Invar j"
  by (auto simp: rule_roots_def pass_roots_def assignment_roots_def split: bind_splits if_splits prod.splits)

lemma type_roots_drive:
  assumes t: "type_roots k flags dflt t = Some l" "pt_invariants t = []" and z: "z \<in> set l"
  shows "snd z \<noteq> Invar j"
proof -
  let ?N = "length (pt_atomic t)"
  from t obtain a b d where r: "those (map (rule_roots ?N k (pt_prs t) flags dflt) (enumerate 0 (pt_rules t))) = Some a"
    "those (map (pass_roots ?N) (pt_passgates t)) = Some b"
    "those (map (assignment_roots ?N k (pt_rte_pool t)) (pt_assignments t)) = Some d" and l: "l = concat a @ concat b @ concat d"
    by (auto simp: type_roots_def Let_def split: bind_splits)
  from z l obtain ys where ys: "z \<in> set ys" "ys \<in> set a \<or> ys \<in> set b \<or> ys \<in> set d" by auto
  then consider x where "rule_roots ?N k (pt_prs t) flags dflt x = Some ys" | x where "pass_roots ?N x = Some ys"
    | x where "assignment_roots ?N k (pt_rte_pool t) x = Some ys"
    using those_member [OF r(1)] those_member [OF r(2)] those_member [OF r(3)] unfolding set_map by (metis imageE)
  then show ?thesis using drive_roots ys(1) by cases blast+
qed

lemma fresh_graph_inv:
  assumes "expr_free_list s = []" and "ea_g s = subgraph_new\<lparr>local_faninout_map := map (\<lambda>a. faninout_new\<lparr>fio_is_atomic := a\<rparr>) as\<rparr>"
  shows "alloc_inv s []"
proof -
  have "get_pull_expr d w (faninout_new\<lparr>fio_is_atomic := a\<rparr>) = []" for d w a by (cases d; cases w) (simp_all add: faninout_new_def get_pull_expr_def)
  then show ?thesis using assms
    by (simp add: alloc_inv_def forest_def slots_ok_def fanouts_ok_def rules_inv_def pull_roots_def subgraph_new_def lessThan_def) (simp add: faninout_new_def)
qed

lemma create_unique_process_graph_spec:
  assumes t: "type_roots k flags dflt t = Some l" and opt: "any_optimize flags" and inv: "pt_invariants t = []"
    and s: "expr_free_list s = []" "\<not> at_source s" "\<not> suppress_keeper_rule s"
  shows "\<exists>s' R. create_unique_process_graph k flags dflt t s = Some s' \<and> expr_free_list s' = [] \<and> alloc_inv s' R \<and> map snd R = l \<and> idle (length (pt_atomic t)) s'"
proof -
  let ?g = "subgraph_new\<lparr>local_faninout_map := map (\<lambda>a. faninout_new\<lparr>fio_is_atomic := a\<rparr>) (pt_atomic t)\<rparr>"
  let ?s = "s\<lparr>ea_g := ?g\<rparr>"
  have "alloc_inv ?s []" using s by (intro fresh_graph_inv [of _ "pt_atomic t"]) simp_all
  moreover have "idle (length (pt_atomic t)) ?s" using s by (simp add: idle_def)
  ultimately obtain s1 R where 1: "visit_rules_and_directives k flags dflt t ?s = Some s1" "alloc_inv s1 R" "map snd R = l" "idle (length (pt_atomic t)) s1"
    using visit_rules_and_directives_adds [OF t] unfolding adds_roots_def by (metis append_Nil)
  show ?thesis
  proof (cases "expr_free_list s1 = []")
    case True
    with 1 show ?thesis by (simp add: create_unique_process_graph_def Let_def) blast
  next
    case False
    have "\<forall>x \<in> set R. \<forall>j. snd (snd x) \<noteq> Invar j" using type_roots_drive [OF t inv] unfolding 1(3) [symmetric] set_map by blast
    from compact_expr_pools_spec [OF 1(2) this] obtain s' R' where 2: "compact_expr_pools s1 = Some s'" "expr_free_list s' = []" "alloc_inv s' R'"
      "map snd R' = map snd R" "length (local_faninout_map (ea_g s')) = length (local_faninout_map (ea_g s1))" "at_source s' = at_source s1"
      "suppress_keeper_rule s' = suppress_keeper_rule s1" by blast
    with 1 opt False show ?thesis by (intro exI [of _ s'] exI [of _ R']) (simp add: create_unique_process_graph_def Let_def idle_def)
  qed
qed

text \<open>What the roots of the finished graph mean: rule \<open>k\<close> is the guard \<open>e\<close> for the target \<open>tg\<close>.\<close>

definition guard_root :: "unique_process_subgraph \<Rightarrow> nat \<Rightarrow> fexpr \<times> target \<Rightarrow> nat \<Rightarrow> bool" where
  "guard_root g k x i \<longleftrightarrow> is_root (expr_pool g ! i) \<and> rule_map g i = Some k \<and> target_ok g i (rule_pool g ! k) (snd x) \<and>
     (case snd x of Drive n d w \<Rightarrow> i \<in> set (get_pull_expr d w (local_faninout_map g ! n)) | Invar j \<Rightarrow> True) \<and>
     (\<forall>val. tree_value (length (expr_pool g)) (process_graph.truncate g) (node_leaves g val) i = Some (fexpr_value val (fst x)))"

lemma guard_roots:
  assumes f: "forest g fl (map fst R)" and r: "rules_inv g R" and k: "k < length R"
  shows "guard_root g k (snd (R ! k)) (root_ix (fst (R ! k)))"
proof -
  obtain t e tg where x: "R ! k = (t, e, tg)" by (cases "R ! k")
  with nth_mem [OF k] have mem: "(t, e, tg) \<in> set R" by simp
  have ok: "entry_ok g k (t, e, tg)" using r k x by (auto simp: rules_inv_def)
  have "case tg of Drive n d w \<Rightarrow> root_ix t \<in> set (get_pull_expr d w (local_faninout_map g ! n)) | Invar j \<Rightarrow> True"
  proof (cases tg)
    case (Drive n d w)
    then have "n < length (local_faninout_map g)" using ok by (simp add: entry_ok_def)
    then have "get_pull_expr d w (local_faninout_map g ! n) = pull_roots R n d w" using r by (simp add: rules_inv_def)
    with mem Drive show ?thesis by (force simp: pull_roots_def)
  qed simp
  with ok root_value [OF f r mem] x show ?thesis by (simp add: guard_root_def entry_ok_def)
qed

end
