(* ===== verification/Example_Gate.thy ===== *)
theory Example_Gate
  imports Alloc_Compact
begin

text \<open>
  The process type of the gate \<^verbatim>\<open>a & ~b -> c+\<close>, \<^verbatim>\<open>~a -> c-\<close>, as a footprint has it, and its graph with and without
  an invariant.
\<close>

definition gate_flags :: expr_alloc_flags where
  "gate_flags = alloc_optimize 1 expr_alloc_flags_new"

definition gate_prs :: prs_footprint where
  "gate_prs = \<lparr>pf_expr_pool = [\<lparr>fe_type = PRS_LITERAL_TYPE_ENUM, fe_nodes = [1]\<rparr>, \<lparr>fe_type = PRS_LITERAL_TYPE_ENUM, fe_nodes = [2]\<rparr>,
      \<lparr>fe_type = PRS_NOT_EXPR_TYPE_ENUM, fe_nodes = [2]\<rparr>, \<lparr>fe_type = PRS_AND_EXPR_TYPE_ENUM, fe_nodes = [1, 3]\<rparr>,
      \<lparr>fe_type = PRS_NOT_EXPR_TYPE_ENUM, fe_nodes = [1]\<rparr>],
     internal_node_pool = [],
     supply_map = [\<lparr>sup_rules_first = 0, sup_int_nodes_first = 0, sup_Vdd = 1, sup_GND = 2\<rparr>]\<rparr>"

definition gate_type :: process_type where
  "gate_type = \<lparr>pt_prs = gate_prs,
     pt_rules = [\<lparr>fr_expr_index = 4, fr_output_index = 3, fr_dir = True, fr_attributes = []\<rparr>,
                 \<lparr>fr_expr_index = 5, fr_output_index = 3, fr_dir = False, fr_attributes = []\<rparr>],
     pt_passgates = [], pt_invariants = [], pt_rte_pool = [], pt_assignments = [], pt_atomic = [False, False, False]\<rparr>"

lemma gate_roots:
  "type_roots 3 gate_flags 10 gate_type = Some [(FAnd [FLit 0, FNot (FLit 1)], Drive 2 True False), (FNot (FLit 0), Drive 2 False False)]"
  by code_simp

lemma gate_start:
  "any_optimize gate_flags" "pt_invariants gate_type = []" "expr_free_list expr_alloc_new = []" "\<not> at_source expr_alloc_new"
  "\<not> suppress_keeper_rule expr_alloc_new"
  by code_simp+

text \<open>Compaction renames expressions and their entries of \<^verbatim>\<open>rule_map\<close>, but \<^verbatim>\<open>invariant_map\<close> keeps the old indices.\<close>

lemma mod_keeps_invariants:
  "mod_expr i f g = Some g' \<Longrightarrow> invariant_map g' = invariant_map g"
  "mod_graph_node i h g = Some g' \<Longrightarrow> invariant_map g' = invariant_map g"
  "mod_faninout i q g = Some g' \<Longrightarrow> invariant_map g' = invariant_map g"
  by (auto simp: mod_expr_def mod_graph_node_def mod_faninout_def split: bind_splits)

lemma relink_keeps_invariants:
  "relink_parent i n e gn g = Some g' \<Longrightarrow> invariant_map g' = invariant_map g"
  "relink_child i n j g = Some g' \<Longrightarrow> invariant_map g' = invariant_map g"
  by (auto simp: relink_parent_def relink_child_def dest: mod_keeps_invariants split: bind_splits if_splits prod.splits)

lemma relinks_keep_invariants: "fold_loop (relink_child i n) js g = Some g' \<Longrightarrow> invariant_map g' = invariant_map g"
  by (induction js arbitrary: g) (auto dest: relink_keeps_invariants split: bind_splits)

lemma move_keeps_invariants: "move_expr i n g = Some g' \<Longrightarrow> invariant_map g' = invariant_map g"
  by (auto simp: move_expr_def Let_def dest!: relink_keeps_invariants relinks_keep_invariants split: bind_splits if_splits option.splits)

lemma moves_keep_invariants: "move_all is free g = Some (free', g') \<Longrightarrow> invariant_map g' = invariant_map g"
  by (induction "is" free g rule: move_all.induct) (auto dest: move_keeps_invariants split: bind_splits list.splits)

lemma compaction_keeps_invariant_map: "compact_expr_pools s = Some s' \<Longrightarrow> invariant_map (ea_g s') = invariant_map (ea_g s)"
  by (auto simp: compact_expr_pools_def Let_def dest!: moves_keep_invariants split: bind_splits if_splits)

end
