(* ===== verification/Timing_Ok.thy ===== *)
theory Timing_Ok
  imports Timing_Check
begin

text \<open>
  The two implementations of timing checks agree. The pool of posted checks is an index allocator; on top of it the
  posted checks are a set, to which an edge of a reference node adds and from which time removes.
\<close>

section \<open>The pool with a stack of free indices\<close>

definition stack_ok :: "'a array_pool \<Rightarrow> bool" where
  "stack_ok p \<longleftrightarrow> index_pool p \<noteq> [] \<and> distinct (free_indices p) \<and> (\<forall>i \<in> set (free_indices p). 0 < i \<and> i < pool_size p)"

lemma stack_allocate_cases:
  assumes "stack_ok p"
  shows "free_indices p = [] \<Longrightarrow> stack_allocate p e = Some (pool_size p, p\<lparr>index_pool := index_pool p @ [e]\<rparr>)"
    "free_indices p = fl @ [i] \<Longrightarrow> stack_allocate p e = Some (i, p\<lparr>index_pool := (index_pool p)[i := e], free_indices := fl\<rparr>)"
  using assms by (simp_all add: stack_allocate_def stack_ok_def pool_size_def upd_opt_def)

lemma stack_allocate_fresh:
  assumes "stack_ok p" and "stack_allocate p v = Some (i, p')"
  shows "i \<notin> pool_live p \<and> pool_live p' = insert i (pool_live p) \<and> pool_get p' i = Some v \<and> stack_ok p' \<and>
    (\<forall>j \<in> pool_live p. pool_get p' j = pool_get p j)"
proof (cases "free_indices p" rule: rev_cases)
  case Nil
  with assms show ?thesis
    by (auto simp: stack_allocate_cases pool_live_def pool_size_def pool_get_def stack_ok_def nth_opt_def nth_append)
next
  case (snoc fl k)
  with assms show ?thesis
    by (auto simp: stack_allocate_cases pool_live_def pool_size_def pool_get_def stack_ok_def nth_opt_def)
qed

lemma stack_deallocate_live:
  assumes "stack_ok p" and "i \<in> pool_live p"
  shows "\<exists>p'. stack_deallocate p i = Some p' \<and> pool_live p' = pool_live p - {i} \<and> stack_ok p' \<and> pool_get p' = pool_get p"
  using assms by (auto simp: stack_deallocate_def pool_live_def stack_ok_def pool_size_def pool_get_def fun_eq_iff)

interpretation tcp: index_allocator stack_ok pool_live pool_get pool_set stack_allocate stack_deallocate
proof (unfold_locales, goal_cases)
  case (1 p)
  then show ?case by (simp add: pool_live_def)
next
  case (2 p)
  then show ?case by (simp add: pool_live_def)
next
  case (3 p i)
  then show ?case by (auto simp: pool_live_def pool_get_def pool_size_def nth_opt_def)
next
  case (4 p v)
  then show ?case by (cases "free_indices p" rule: rev_cases) (simp_all add: stack_allocate_cases)
next
  case (5 p v i p')
  from stack_allocate_fresh [OF this] show ?case by simp
next
  case (6 p v i p' j)
  from stack_allocate_fresh [OF 6(1,2)] 6(3) show ?case by simp
next
  case (7 p i)
  then show ?case by (rule stack_deallocate_live)
next
  case (8 p i v)
  then show ?case by (auto simp: pool_set_def pool_live_def stack_ok_def pool_size_def pool_get_def nth_opt_def upd_opt_def)
qed

section \<open>Posted checks\<close>

abbreviation queue_id :: "time_type \<times> nat \<times> node_index_type \<Rightarrow> nat" where
  "queue_id x \<equiv> fst (snd x)"

definition fwd_inv :: "fwd_checker \<Rightarrow> bool" where
  "fwd_inv fc \<longleftrightarrow> stack_ok (timing_check_pool fc) \<and> sorted (map fst (timing_check_queue fc)) \<and>
     distinct (map queue_id (timing_check_queue fc)) \<and> set (map queue_id (timing_check_queue fc)) = pool_live (timing_check_pool fc) \<and>
     (\<forall>x \<in> set (timing_check_queue fc). \<exists>tex. pool_get (timing_check_pool fc) (queue_id x) = Some tex \<and> tex_node_id tex = snd (snd x)) \<and>
     (\<forall>n. set (entries (active_timing_check_map fc) n) = {ti. \<exists>ft. (ft, ti, n) \<in> set (timing_check_queue fc)})"

definition posted :: "fwd_checker \<Rightarrow> (timing_exception \<times> time_type) set" where
  "posted fc = {(tex, ft). \<exists>ti n. (ft, ti, n) \<in> set (timing_check_queue fc) \<and> pool_get (timing_check_pool fc) ti = Some tex}"

lemma set_queue_insert [simp]: "set (queue_insert x q) = insert x (set q)"
  by (induction q) auto

lemma mset_queue_insert [simp]: "mset (queue_insert x q) = add_mset x (mset q)"
  by (induction q) auto

lemma queue_insert_distinct: "distinct (map f (queue_insert x q)) \<longleftrightarrow> distinct (f x # map f q)"
  using mset_eq_imp_distinct_iff [of "map f (queue_insert x q)" "f x # map f q"] by simp

lemma queue_insert_sorted: "sorted (map fst q) \<Longrightarrow> sorted (map fst (queue_insert x q))"
proof (induction q)
  case (Cons y q)
  then show ?case by (force simp: image_iff)
qed simp

lemma register_timing_check_spec:
  assumes i: "fwd_inv fc"
  shows "\<exists>fc'. register_timing_check tex ft fc = Some fc' \<and> fwd_inv fc' \<and> posted fc' = insert (tex, ft) (posted fc) \<and>
    timing_checker.truncate fc' = timing_checker.truncate fc"
proof -
  let ?p = "timing_check_pool fc" and ?q = "timing_check_queue fc" and ?n = "tex_node_id tex"
  from i have p: "stack_ok ?p" by (simp add: fwd_inv_def)
  from tcp.allocate_total [OF p] obtain ti p' where a: "stack_allocate ?p tex = Some (ti, p')" by blast
  from tcp.allocate_fresh [OF p a] have f: "ti \<notin> pool_live ?p" "pool_live p' = insert ti (pool_live ?p)" "pool_get p' ti = Some tex" "stack_ok p'" by auto
  have fr: "j \<in> pool_live ?p \<Longrightarrow> pool_get p' j = pool_get ?p j" for j by (rule tcp.allocate_frame [OF p a])
  have ids: "queue_id x \<in> pool_live ?p" if "x \<in> set ?q" for x using i that by (force simp: fwd_inv_def)
  define fc' where "fc' = fc\<lparr>timing_check_pool := p',
     active_timing_check_map := (active_timing_check_map fc)(?n \<mapsto> set_insert ti (entries (active_timing_check_map fc) ?n)),
     timing_check_queue := queue_insert (ft, ti, ?n) ?q\<rparr>"
  have "register_timing_check tex ft fc = Some fc'" by (simp add: register_timing_check_def Let_def a fc'_def)
  moreover have "fwd_inv fc'"
    unfolding fwd_inv_def
  proof (intro conjI ballI allI)
    show "stack_ok (timing_check_pool fc')" by (simp add: fc'_def f)
    show "sorted (map fst (timing_check_queue fc'))" using i by (simp add: fc'_def fwd_inv_def queue_insert_sorted)
    have "queue_id ` set ?q = pool_live ?p" "distinct (map queue_id ?q)" using i by (simp_all add: fwd_inv_def)
    then show "distinct (map queue_id (timing_check_queue fc'))" "set (map queue_id (timing_check_queue fc')) = pool_live (timing_check_pool fc')"
      using f(1,2) by (simp_all add: fc'_def queue_insert_distinct)
    show "\<exists>tex. pool_get (timing_check_pool fc') (queue_id x) = Some tex \<and> tex_node_id tex = snd (snd x)" if "x \<in> set (timing_check_queue fc')" for x
    proof (cases "x = (ft, ti, ?n)")
      case True
      with f(3) show ?thesis by (simp add: fc'_def)
    next
      case False
      with that have x: "x \<in> set ?q" by (simp add: fc'_def)
      with i have "\<exists>tex. pool_get ?p (queue_id x) = Some tex \<and> tex_node_id tex = snd (snd x)" by (simp add: fwd_inv_def)
      with fr [OF ids [OF x]] show ?thesis by (simp add: fc'_def)
    qed
    show "set (entries (active_timing_check_map fc') n) = {ti. \<exists>ft. (ft, ti, n) \<in> set (timing_check_queue fc')}" for n
      using i by (auto simp: fc'_def fwd_inv_def)
  qed
  moreover have "posted fc' = insert (tex, ft) (posted fc)"
  proof -
    have "pool_get p' k = pool_get ?p k" if "(t, k, n) \<in> set ?q" for t k n using fr ids [OF that] by simp
    moreover have "(t, ti, n) \<notin> set ?q" for t n using ids [of "(t, ti, n)"] f(1) by auto
    ultimately show ?thesis using f(3) by (auto simp: posted_def fc'_def)
  qed
  moreover have "timing_checker.truncate fc' = timing_checker.truncate fc" by (simp add: fc'_def timing_checker.truncate_def)
  ultimately show ?thesis by blast
qed

lemma expire_entry_spec:
  assumes i: "fwd_inv fc" and q: "timing_check_queue fc = (ft, ti, n) # q"
  shows "\<exists>fc'. expire_entry (ft, ti, n) fc = Some fc' \<and> fwd_inv fc' \<and> timing_check_queue fc' = q \<and>
    (\<forall>t k m. (t, k, m) \<in> set q \<longrightarrow> pool_get (timing_check_pool fc') k = pool_get (timing_check_pool fc) k) \<and>
    timing_checker.truncate fc' = timing_checker.truncate fc"
proof -
  let ?p = "timing_check_pool fc"
  from i q have p: "stack_ok ?p" "ti \<in> pool_live ?p" by (auto simp: fwd_inv_def)
  from tcp.deallocate_live [OF p] obtain p' where d: "stack_deallocate ?p ti = Some p'" "pool_live p' = pool_live ?p - {ti}" "stack_ok p'" "pool_get p' = pool_get ?p" by blast
  define fc' where "fc' = fc\<lparr>active_timing_check_map := (active_timing_check_map fc)(n \<mapsto> filter (\<lambda>i. i \<noteq> ti) (entries (active_timing_check_map fc) n)),
             timing_check_pool := p', timing_check_queue := q\<rparr>"
  have "ti \<notin> queue_id ` set q" using i q by (simp add: fwd_inv_def)
  then have nt: "(t, ti, m) \<notin> set q" for t m by force
  have "expire_entry (ft, ti, n) fc = Some fc'" by (simp add: expire_entry_def d fc'_def q)
  moreover have "fwd_inv fc'"
    unfolding fwd_inv_def
  proof (intro conjI ballI allI)
    show "stack_ok (timing_check_pool fc')" by (simp add: fc'_def d)
    have "insert ti (queue_id ` set q) = pool_live ?p" "ti \<notin> queue_id ` set q" using i q by (simp_all add: fwd_inv_def)
    then have "queue_id ` set q = pool_live p'" unfolding d(2) by (metis Diff_insert_absorb)
    then show "set (map queue_id (timing_check_queue fc')) = pool_live (timing_check_pool fc')" by (simp add: fc'_def)
    show "sorted (map fst (timing_check_queue fc'))" "distinct (map queue_id (timing_check_queue fc'))" using i q by (simp_all add: fc'_def fwd_inv_def)
    show "\<exists>tex. pool_get (timing_check_pool fc') (queue_id x) = Some tex \<and> tex_node_id tex = snd (snd x)" if "x \<in> set (timing_check_queue fc')" for x
      using that i q d(4) by (auto simp: fc'_def fwd_inv_def)
    have "set (entries (active_timing_check_map fc) m) = {k. \<exists>t. (t, k, m) \<in> insert (ft, ti, n) (set q)}" for m
      using i q by (simp add: fwd_inv_def)
    then show "set (entries (active_timing_check_map fc') m) = {ti. \<exists>ft. (ft, ti, m) \<in> set (timing_check_queue fc')}" for m
      using nt by (auto simp: fc'_def)
  qed
  moreover have "timing_checker.truncate fc' = timing_checker.truncate fc" by (simp add: fc'_def timing_checker.truncate_def)
  ultimately show ?thesis using d(4) by (intro exI [of _ fc']) (simp add: fc'_def)
qed

lemma expire_loop:
  "fwd_inv fc \<Longrightarrow> timing_check_queue fc = xs @ q \<Longrightarrow>
   \<exists>fc'. fold_loop expire_entry xs fc = Some fc' \<and> fwd_inv fc' \<and> timing_check_queue fc' = q \<and>
     (\<forall>t k m. (t, k, m) \<in> set q \<longrightarrow> pool_get (timing_check_pool fc') k = pool_get (timing_check_pool fc) k) \<and>
     timing_checker.truncate fc' = timing_checker.truncate fc"
proof (induction xs arbitrary: fc)
  case (Cons x xs)
  obtain ft ti n where x: "x = (ft, ti, n)" by (cases x)
  with Cons.prems have "timing_check_queue fc = (ft, ti, n) # (xs @ q)" by simp
  from expire_entry_spec [OF Cons.prems(1) this] obtain fc1 where
    1: "expire_entry x fc = Some fc1" "fwd_inv fc1" "timing_check_queue fc1 = xs @ q"
      "\<forall>t k m. (t, k, m) \<in> set (xs @ q) \<longrightarrow> pool_get (timing_check_pool fc1) k = pool_get (timing_check_pool fc) k"
      "timing_checker.truncate fc1 = timing_checker.truncate fc" unfolding x by blast
  from Cons.IH [OF 1(2,3)] obtain fc2 where
    2: "fold_loop expire_entry xs fc1 = Some fc2" "fwd_inv fc2" "timing_check_queue fc2 = q"
      "\<forall>t k m. (t, k, m) \<in> set q \<longrightarrow> pool_get (timing_check_pool fc2) k = pool_get (timing_check_pool fc1) k"
      "timing_checker.truncate fc2 = timing_checker.truncate fc1" by blast
  with 1 show ?case by (intro exI [of _ fc2]) auto
qed auto

lemma sorted_dropWhile:
  assumes "sorted (map fst q)"
  shows "set (dropWhile (\<lambda>x. fst x \<le> now) q) = {x \<in> set q. now < fst x}"
  using assms by (induction q) (auto simp: not_le split: if_splits)

lemma expire_timing_checks_spec:
  assumes i: "fwd_inv fc"
  shows "\<exists>fc'. expire_timing_checks now fc = Some fc' \<and> fwd_inv fc' \<and> posted fc' = {x \<in> posted fc. now < snd x} \<and>
    timing_checker.truncate fc' = timing_checker.truncate fc"
proof -
  let ?P = "\<lambda>x. fst x \<le> now"
  let ?q = "dropWhile ?P (timing_check_queue fc)"
  from expire_loop [OF i, of "takeWhile ?P (timing_check_queue fc)" ?q] obtain fc' where
    1: "expire_timing_checks now fc = Some fc'" "fwd_inv fc'" "timing_check_queue fc' = ?q"
      "\<forall>t k m. (t, k, m) \<in> set ?q \<longrightarrow> pool_get (timing_check_pool fc') k = pool_get (timing_check_pool fc) k"
      "timing_checker.truncate fc' = timing_checker.truncate fc" by (auto simp: expire_timing_checks_def)
  have "set ?q = {x \<in> set (timing_check_queue fc). now < fst x}" using i by (intro sorted_dropWhile) (simp add: fwd_inv_def)
  with 1(3,4) have "posted fc' = {x \<in> posted fc. now < snd x}" unfolding posted_def by fastforce
  with 1 show ?thesis by blast
qed

lemma destroy_timing_checks_spec:
  assumes i: "fwd_inv fc"
  shows "\<exists>fc'. destroy_timing_checks fc = Some fc' \<and> fwd_inv fc' \<and> timing_check_queue fc' = [] \<and> pool_live (timing_check_pool fc') = {}"
proof -
  from expire_loop [OF i, of "timing_check_queue fc" "[]"] obtain fc' where
    "destroy_timing_checks fc = Some fc'" "fwd_inv fc'" "timing_check_queue fc' = []" by (auto simp: destroy_timing_checks_def)
  then show ?thesis by (intro exI [of _ fc']) (simp add: fwd_inv_def)
qed

text \<open>A computation that returns the elements of a set, in some order.\<close>

definition yields :: "'a list option \<Rightarrow> 'a set \<Rightarrow> bool" where
  "yields m S \<longleftrightarrow> (\<exists>xs. m = Some xs \<and> set xs = S)"

lemma yields_collect:
  assumes "\<And>x. x \<in> set xs \<Longrightarrow> yields (f x) (S x)"
  shows "yields (collect f xs) (\<Union>x \<in> set xs. S x)"
  using assms
proof (induction xs)
  case (Cons x xs)
  then have "yields (collect f xs) (\<Union>x \<in> set xs. S x)" "yields (f x) (S x)" by simp_all
  then obtain zss ys where "those (map f xs) = Some zss" "set (concat zss) = (\<Union>x \<in> set xs. S x)" "f x = Some ys" "set ys = S x"
    by (auto simp: yields_def collect_def)
  then show ?case by (simp add: yields_def collect_def)
qed (simp add: yields_def collect_def)

lemma yields_bind: "m = Some a \<Longrightarrow> yields (k a) S \<Longrightarrow> yields (Option.bind m k) S"
  by simp

lemma active_violations_spec:
  assumes i: "fwd_inv fc"
  shows "yields (active_violations fc n nv)
    {tex\<lparr>tvalue := nv\<rparr> | tex ft. (tex, ft) \<in> posted fc \<and> tex_node_id tex = n \<and> (is_setup tex \<longrightarrow> rise_fall nv (tex_dir tex))}"
proof -
  define S where "S ti = {tex\<lparr>tvalue := nv\<rparr> | tex. pool_get (timing_check_pool fc) ti = Some tex \<and> (is_setup tex \<longrightarrow> rise_fall nv (tex_dir tex))}" for ti
  have e: "set (entries (active_timing_check_map fc) n) = {ti. \<exists>ft. (ft, ti, n) \<in> set (timing_check_queue fc)}" using i by (simp add: fwd_inv_def)
  have q: "\<exists>tex. pool_get (timing_check_pool fc) ti = Some tex \<and> tex_node_id tex = m" if "(ft, ti, m) \<in> set (timing_check_queue fc)" for ft ti m
    using i that by (force simp: fwd_inv_def)
  have "yields (active_violations fc n nv) (\<Union>ti \<in> set (entries (active_timing_check_map fc) n). S ti)"
    unfolding active_violations_def
  proof (rule yields_collect)
    fix ti assume "ti \<in> set (entries (active_timing_check_map fc) n)"
    with e q obtain tex where "pool_get (timing_check_pool fc) ti = Some tex" by blast
    then show "yields (do { tex \<leftarrow> pool_get (timing_check_pool fc) ti; let x = tex\<lparr>tvalue := nv\<rparr>;
       Some (if is_setup x then (if (if tex_dir x then nv \<noteq> LOGIC_LOW else nv \<noteq> LOGIC_HIGH) then [x] else []) else [x]) }) (S ti)"
      by (auto simp: yields_def S_def rise_fall_def Let_def)
  qed
  moreover have "(\<Union>ti \<in> set (entries (active_timing_check_map fc) n). S ti) =
      {tex\<lparr>tvalue := nv\<rparr> | tex ft. (tex, ft) \<in> posted fc \<and> tex_node_id tex = n \<and> (is_setup tex \<longrightarrow> rise_fall nv (tex_dir tex))}"
    unfolding e S_def posted_def using q by (fastforce dest: q)
  ultimately show ?thesis by simp
qed

section \<open>What the tables mean\<close>

text \<open>A constraint on global nodes: process, reference, trigger, direction of the clock edge, time.\<close>

type_synonym constraint = "process_index_type \<times> node_index_type \<times> node_index_type \<times> bool \<times> time_type"

definition setup_tex :: "error_policy_enum \<Rightarrow> value_enum \<Rightarrow> constraint \<Rightarrow> timing_exception" where
  "setup_tex E nv c = (case c of (pid, r, t, d, tm) \<Rightarrow> \<lparr>tex_node_id = t, tex_policy = E, tvalue = nv, reference = r, tex_dir = d, is_setup = True,
     tex_pid = pid, min_delay = tm\<rparr>)"

definition hold_tex :: "error_policy_enum \<Rightarrow> value_enum \<Rightarrow> constraint \<Rightarrow> timing_exception" where
  "hold_tex E nv c = (case c of (pid, r, t, d, tm) \<Rightarrow> \<lparr>tex_node_id = t, tex_policy = E, tvalue = nv, reference = r, tex_dir = d, is_setup = False,
     tex_pid = pid, min_delay = tm\<rparr>)"

lemma tex_sel [simp]:
  "tex_node_id (setup_tex E nv (pid, r, t, d, tm)) = t" "is_setup (setup_tex E nv c)" "tex_dir (setup_tex E nv (pid, r, t, d, tm)) = d"
  "(setup_tex E nv c)\<lparr>tvalue := v\<rparr> = setup_tex E v c"
  "tex_node_id (hold_tex E nv (pid, r, t, d, tm)) = t" "\<not> is_setup (hold_tex E nv c)" "(hold_tex E nv c)\<lparr>tvalue := v\<rparr> = hold_tex E v c"
  by (cases c; simp add: setup_tex_def hold_tex_def)+

text \<open>The process table does not change while the simulation runs, only nodes and time do.\<close>

definition same_processes :: "prsim_state \<Rightarrow> prsim_state \<Rightarrow> bool" where
  "same_processes s s' \<longleftrightarrow> process_state_array s' = process_state_array s \<and> length (node_pool s') = length (node_pool s)"

lemma same_processes_lookups:
  assumes "same_processes s s'"
  shows "translate_to_global_node env s' = translate_to_global_node env s" "process_constraints tabs s' = process_constraints tabs s"
    "fwd_process_constraints ftabs s' = fwd_process_constraints ftabs s"
  using assms by (simp_all add: fun_eq_iff same_processes_def translate_to_global_node_def process_constraints_def fwd_process_constraints_def)

definition lb_setup :: "sim_env \<Rightarrow> timing_constraints list \<Rightarrow> timing_checker \<Rightarrow> prsim_state \<Rightarrow> constraint set" where
  "lb_setup env tabs tc s = {(pid, r, t, d, tm). \<exists>ls l pg si. (pid, ls) \<in> set (entries (setup_check_map tc) t) \<and> l \<in> set ls \<and>
     process_constraints tabs s pid = Some pg \<and> si \<in> set (entries (setup_constraints pg) (l, d)) \<and>
     translate_to_global_node env s pid (se_ref_node si) = Some r \<and> tm = se_time si}"

definition lb_setup_ok :: "sim_env \<Rightarrow> timing_constraints list \<Rightarrow> timing_checker \<Rightarrow> prsim_state \<Rightarrow> bool" where
  "lb_setup_ok env tabs tc s \<longleftrightarrow> (\<forall>t pid ls. (pid, ls) \<in> set (entries (setup_check_map tc) t) \<longrightarrow>
     (\<exists>pg. process_constraints tabs s pid = Some pg \<and> (\<forall>l \<in> set ls. \<forall>d. \<forall>si \<in> set (entries (setup_constraints pg) (l, d)).
        \<exists>r. translate_to_global_node env s pid (se_ref_node si) = Some r \<and> r < length (node_pool s))))"

definition lb_hold :: "sim_env \<Rightarrow> timing_constraints list \<Rightarrow> timing_checker \<Rightarrow> prsim_state \<Rightarrow> constraint set" where
  "lb_hold env tabs tc s = {(pid, r, t, d, tm). \<exists>ls l pg si. (pid, ls) \<in> set (entries (hold_check_map tc) t) \<and> l \<in> set ls \<and>
     process_constraints tabs s pid = Some pg \<and> si \<in> set (entries (hold_constraints pg) l) \<and>
     translate_to_global_node env s pid (he_ref_node si) = Some r \<and> d = he_dir si \<and> tm = he_time si}"

definition lb_hold_ok :: "sim_env \<Rightarrow> timing_constraints list \<Rightarrow> timing_checker \<Rightarrow> prsim_state \<Rightarrow> bool" where
  "lb_hold_ok env tabs tc s \<longleftrightarrow> (\<forall>t pid ls. (pid, ls) \<in> set (entries (hold_check_map tc) t) \<longrightarrow>
     (\<exists>pg. process_constraints tabs s pid = Some pg \<and> (\<forall>l \<in> set ls. \<forall>si \<in> set (entries (hold_constraints pg) l).
        \<exists>r. translate_to_global_node env s pid (he_ref_node si) = Some r \<and> r < length (node_pool s))))"

definition fwd_setup :: "sim_env \<Rightarrow> fwd_constraints list \<Rightarrow> timing_checker \<Rightarrow> prsim_state \<Rightarrow> constraint set" where
  "fwd_setup env tabs fc s = {(pid, r, t, d, tm). \<exists>ls l pg si. (pid, ls) \<in> set (entries (setup_check_map fc) r) \<and> l \<in> set ls \<and>
     fwd_process_constraints tabs s pid = Some pg \<and> si \<in> set (entries (fwd_setup_constraints pg) l) \<and>
     translate_to_global_node env s pid (fh_trig_node si) = Some t \<and> d = fs_dir si \<and> tm = fh_time si}"

definition fwd_setup_ok :: "sim_env \<Rightarrow> fwd_constraints list \<Rightarrow> timing_checker \<Rightarrow> prsim_state \<Rightarrow> bool" where
  "fwd_setup_ok env tabs fc s \<longleftrightarrow> (\<forall>r pid ls. (pid, ls) \<in> set (entries (setup_check_map fc) r) \<longrightarrow>
     (\<exists>pg. fwd_process_constraints tabs s pid = Some pg \<and> (\<forall>l \<in> set ls. \<forall>si \<in> set (entries (fwd_setup_constraints pg) l).
        translate_to_global_node env s pid (fh_trig_node si) \<noteq> None)))"

definition fwd_hold :: "sim_env \<Rightarrow> fwd_constraints list \<Rightarrow> timing_checker \<Rightarrow> prsim_state \<Rightarrow> constraint set" where
  "fwd_hold env tabs fc s = {(pid, r, t, d, tm). \<exists>ls l pg si. (pid, ls) \<in> set (entries (hold_check_map fc) r) \<and> l \<in> set ls \<and>
     fwd_process_constraints tabs s pid = Some pg \<and> si \<in> set (entries (fwd_hold_constraints pg) (l, d)) \<and>
     translate_to_global_node env s pid (fh_trig_node si) = Some t \<and> tm = fh_time si}"

definition fwd_hold_ok :: "sim_env \<Rightarrow> fwd_constraints list \<Rightarrow> timing_checker \<Rightarrow> prsim_state \<Rightarrow> bool" where
  "fwd_hold_ok env tabs fc s \<longleftrightarrow> (\<forall>r pid ls. (pid, ls) \<in> set (entries (hold_check_map fc) r) \<longrightarrow>
     (\<exists>pg. fwd_process_constraints tabs s pid = Some pg \<and> (\<forall>l \<in> set ls. \<forall>d. \<forall>si \<in> set (entries (fwd_hold_constraints pg) (l, d)).
        translate_to_global_node env s pid (fh_trig_node si) \<noteq> None)))"

section \<open>Looking back\<close>

lemma dirs: "set (filter (rise_fall nv) [False, True]) = {d. rise_fall nv d}"
  by (auto simp: rise_fall_def split: if_splits)

definition overdue :: "prsim_state \<Rightarrow> time_type \<Rightarrow> time_type \<Rightarrow> bool" where
  "overdue s rt tm \<longleftrightarrow> 0 \<le> rt \<and> current_time s - rt < tm"

lemma setup_violations_spec:
  assumes ok: "lb_setup_ok env tabs tc s" and E: "setup_violation_policy tc = E" "E > ERROR_IGNORE"
  shows "yields (setup_violations env tabs tc s ni nv)
    {setup_tex E nv (pid, r, ni, d, tm) | pid r d tm. (pid, r, ni, d, tm) \<in> lb_setup env tabs tc s \<and> rise_fall nv d \<and>
      overdue s (get_last_transition_time (node_pool s ! r)) tm}"
proof -
  define V where "V pid d si = {setup_tex E nv (pid, r, ni, d, se_time si) | r. translate_to_global_node env s pid (se_ref_node si) = Some r \<and>
      overdue s (get_last_transition_time (node_pool s ! r)) (se_time si)}" for pid d and si :: setup_constraint_entry
  have v: "yields (setup_violation env tc s ni nv pid d si) (V pid d si)"
    if "translate_to_global_node env s pid (se_ref_node si) = Some r" "r < length (node_pool s)" for pid d si r
    using that E by (auto simp: yields_def setup_violation_def V_def get_node_def nth_opt_in setup_tex_def overdue_def Let_def)
  define P where "P x = (\<Union>l \<in> set (snd x). \<Union>d \<in> set (filter (rise_fall nv) [False, True]).
      \<Union>si \<in> set (entries (setup_constraints (the (process_constraints tabs s (fst x)))) (l, d)). V (fst x) d si)" for x :: "nat \<times> nat list"
  have "yields (setup_violations env tabs tc s ni nv) (\<Union>x \<in> set (entries (setup_check_map tc) ni). P x)"
    unfolding setup_violations_def
  proof (rule yields_collect)
    fix x assume x: "x \<in> set (entries (setup_check_map tc) ni)"
    obtain pid ls where xx: "x = (pid, ls)" by (cases x)
    from ok x xx obtain pg where pg: "process_constraints tabs s pid = Some pg"
      "\<And>l d si. l \<in> set ls \<Longrightarrow> si \<in> set (entries (setup_constraints pg) (l, d)) \<Longrightarrow>
         \<exists>r. translate_to_global_node env s pid (se_ref_node si) = Some r \<and> r < length (node_pool s)"
      unfolding lb_setup_ok_def by blast
    show "yields (case x of (pid, ls) \<Rightarrow> do {
       pg \<leftarrow> process_constraints tabs s pid;
       collect (\<lambda>lni. collect (\<lambda>dir.
           collect (setup_violation env tc s ni nv pid dir) (entries (setup_constraints pg) (lni, dir)))
         (filter (rise_fall nv) [False, True])) ls }) (P x)"
      unfolding xx prod.case P_def fst_conv snd_conv pg(1) option.sel bind.bind_lunit
      by (intro yields_collect) (use pg(2) v in blast)
  qed
  moreover have "(\<Union>x \<in> set (entries (setup_check_map tc) ni). P x) =
      {setup_tex E nv (pid, r, ni, d, tm) | pid r d tm. (pid, r, ni, d, tm) \<in> lb_setup env tabs tc s \<and> rise_fall nv d \<and>
        overdue s (get_last_transition_time (node_pool s ! r)) tm}" (is "?L = ?R")
  proof (intro equalityI subsetI)
    fix y assume "y \<in> ?L"
    then obtain pid ls l d si r where y: "(pid, ls) \<in> set (entries (setup_check_map tc) ni)" "l \<in> set ls" "rise_fall nv d"
      "si \<in> set (entries (setup_constraints (the (process_constraints tabs s pid))) (l, d))"
      "translate_to_global_node env s pid (se_ref_node si) = Some r" "overdue s (get_last_transition_time (node_pool s ! r)) (se_time si)"
      "y = setup_tex E nv (pid, r, ni, d, se_time si)" unfolding P_def V_def dirs by fastforce
    from ok y(1) obtain pg where pg: "process_constraints tabs s pid = Some pg" unfolding lb_setup_ok_def by blast
    have "(pid, r, ni, d, se_time si) \<in> lb_setup env tabs tc s" unfolding lb_setup_def using y(1,2,4,5) pg by fastforce
    with y(3,6,7) show "y \<in> ?R" by blast
  next
    fix y assume "y \<in> ?R"
    then obtain pid r d tm where y: "(pid, r, ni, d, tm) \<in> lb_setup env tabs tc s" "rise_fall nv d"
      "overdue s (get_last_transition_time (node_pool s ! r)) tm" "y = setup_tex E nv (pid, r, ni, d, tm)" by blast
    from y(1) obtain ls l pg si where "(pid, ls) \<in> set (entries (setup_check_map tc) ni)" "l \<in> set ls"
      "process_constraints tabs s pid = Some pg" "si \<in> set (entries (setup_constraints pg) (l, d))"
      "translate_to_global_node env s pid (se_ref_node si) = Some r" "tm = se_time si" unfolding lb_setup_def mem_Collect_eq prod.case by blast
    with y(2-4) show "y \<in> ?L" unfolding P_def V_def dirs by (intro UN_I [of "(pid, ls)"] UN_I [of l] UN_I [of d] UN_I [of si]) simp_all
  qed
  ultimately show ?thesis by simp
qed

lemma hold_violations_spec:
  assumes ok: "lb_hold_ok env tabs tc s" and E: "hold_violation_policy tc = E" "E > ERROR_IGNORE"
  shows "yields (hold_violations env tabs tc s ni nv)
    {hold_tex E nv (pid, r, ni, d, tm) | pid r d tm. (pid, r, ni, d, tm) \<in> lb_hold env tabs tc s \<and>
      overdue s (last_edge_time (node_pool s ! r) (if d then LOGIC_HIGH else LOGIC_LOW)) tm}"
proof -
  define V where "V pid si = {hold_tex E nv (pid, r, ni, he_dir si, he_time si) | r. translate_to_global_node env s pid (he_ref_node si) = Some r \<and>
      overdue s (last_edge_time (node_pool s ! r) (if he_dir si then LOGIC_HIGH else LOGIC_LOW)) (he_time si)}" for pid and si :: hold_constraint_entry
  have v: "yields (hold_violation env tc s ni nv pid si) (V pid si)"
    if "translate_to_global_node env s pid (he_ref_node si) = Some r" "r < length (node_pool s)" for pid si r
    using that E by (auto simp: yields_def hold_violation_def V_def get_node_def nth_opt_in hold_tex_def overdue_def Let_def)
  define P where "P x = (\<Union>l \<in> set (snd x). \<Union>si \<in> set (entries (hold_constraints (the (process_constraints tabs s (fst x)))) l). V (fst x) si)"
    for x :: "nat \<times> nat list"
  have "yields (hold_violations env tabs tc s ni nv) (\<Union>x \<in> set (entries (hold_check_map tc) ni). P x)"
    unfolding hold_violations_def
  proof (rule yields_collect)
    fix x assume x: "x \<in> set (entries (hold_check_map tc) ni)"
    obtain pid ls where xx: "x = (pid, ls)" by (cases x)
    from ok x xx obtain pg where pg: "process_constraints tabs s pid = Some pg"
      "\<And>l si. l \<in> set ls \<Longrightarrow> si \<in> set (entries (hold_constraints pg) l) \<Longrightarrow>
         \<exists>r. translate_to_global_node env s pid (he_ref_node si) = Some r \<and> r < length (node_pool s)"
      unfolding lb_hold_ok_def by blast
    show "yields (case x of (pid, ls) \<Rightarrow> do {
       pg \<leftarrow> process_constraints tabs s pid;
       collect (\<lambda>lni. collect (hold_violation env tc s ni nv pid) (entries (hold_constraints pg) lni)) ls }) (P x)"
      unfolding xx prod.case P_def fst_conv snd_conv pg(1) option.sel bind.bind_lunit
      by (intro yields_collect) (use pg(2) v in blast)
  qed
  moreover have "(\<Union>x \<in> set (entries (hold_check_map tc) ni). P x) =
      {hold_tex E nv (pid, r, ni, d, tm) | pid r d tm. (pid, r, ni, d, tm) \<in> lb_hold env tabs tc s \<and>
        overdue s (last_edge_time (node_pool s ! r) (if d then LOGIC_HIGH else LOGIC_LOW)) tm}" (is "?L = ?R")
  proof (intro equalityI subsetI)
    fix y assume "y \<in> ?L"
    then obtain pid ls l si r where y: "(pid, ls) \<in> set (entries (hold_check_map tc) ni)" "l \<in> set ls"
      "si \<in> set (entries (hold_constraints (the (process_constraints tabs s pid))) l)"
      "translate_to_global_node env s pid (he_ref_node si) = Some r"
      "overdue s (last_edge_time (node_pool s ! r) (if he_dir si then LOGIC_HIGH else LOGIC_LOW)) (he_time si)"
      "y = hold_tex E nv (pid, r, ni, he_dir si, he_time si)" unfolding P_def V_def by fastforce
    from ok y(1) obtain pg where pg: "process_constraints tabs s pid = Some pg" unfolding lb_hold_ok_def by blast
    have "(pid, r, ni, he_dir si, he_time si) \<in> lb_hold env tabs tc s" unfolding lb_hold_def using y(1-4) pg by fastforce
    with y(5,6) show "y \<in> ?R" by blast
  next
    fix y assume "y \<in> ?R"
    then obtain pid r d tm where y: "(pid, r, ni, d, tm) \<in> lb_hold env tabs tc s"
      "overdue s (last_edge_time (node_pool s ! r) (if d then LOGIC_HIGH else LOGIC_LOW)) tm" "y = hold_tex E nv (pid, r, ni, d, tm)" by blast
    from y(1) obtain ls l pg si where "(pid, ls) \<in> set (entries (hold_check_map tc) ni)" "l \<in> set ls"
      "process_constraints tabs s pid = Some pg" "si \<in> set (entries (hold_constraints pg) l)"
      "translate_to_global_node env s pid (he_ref_node si) = Some r" "d = he_dir si" "tm = he_time si"
      unfolding lb_hold_def mem_Collect_eq prod.case by blast
    with y(2,3) show "y \<in> ?L" unfolding P_def V_def by (intro UN_I [of "(pid, ls)"] UN_I [of l] UN_I [of si]) simp_all
  qed
  ultimately show ?thesis by simp
qed

section \<open>Posting\<close>

definition posts :: "timing_checker \<Rightarrow> (fwd_checker \<Rightarrow> fwd_checker option) \<Rightarrow> (timing_exception \<times> time_type) set \<Rightarrow> bool" where
  "posts tc f S \<longleftrightarrow> (\<forall>fc. fwd_inv fc \<longrightarrow> timing_checker.truncate fc = tc \<longrightarrow>
     (\<exists>fc'. f fc = Some fc' \<and> fwd_inv fc' \<and> posted fc' = posted fc \<union> S \<and> timing_checker.truncate fc' = tc))"

lemma posts_loop:
  assumes "\<And>x. x \<in> set xs \<Longrightarrow> posts tc (f x) (S x)"
  shows "posts tc (fold_loop f xs) (\<Union>x \<in> set xs. S x)"
  using assms
proof (induction xs)
  case (Cons x xs)
  then have IH: "posts tc (fold_loop f xs) (\<Union>x \<in> set xs. S x)" and x: "posts tc (f x) (S x)" by simp_all
  show ?case
    unfolding posts_def
  proof (intro allI impI)
    fix fc assume "fwd_inv fc" "timing_checker.truncate fc = tc"
    with x obtain fc1 where 1: "f x fc = Some fc1" "fwd_inv fc1" "posted fc1 = posted fc \<union> S x" "timing_checker.truncate fc1 = tc"
      unfolding posts_def by blast
    with IH obtain fc2 where 2: "fold_loop f xs fc1 = Some fc2" "fwd_inv fc2" "posted fc2 = posted fc1 \<union> (\<Union>x \<in> set xs. S x)" "timing_checker.truncate fc2 = tc"
      unfolding posts_def by blast
    with 1 show "\<exists>fc'. fold_loop f (x # xs) fc = Some fc' \<and> fwd_inv fc' \<and> posted fc' = posted fc \<union> (\<Union>x \<in> set (x # xs). S x) \<and> timing_checker.truncate fc' = tc"
      by (intro exI [of _ fc2]) (simp add: Un_assoc)
  qed
qed (simp add: posts_def)

lemma posts_cong:
  assumes "posts tc h S" and "\<And>fc. timing_checker.truncate fc = tc \<Longrightarrow> f fc = h fc"
  shows "posts tc f S"
  using assms unfolding posts_def by simp

lemma posts_register: "posts tc (register_timing_check tex ft) {(tex, ft)}"
  unfolding posts_def using register_timing_check_spec by (metis insert_is_Un sup_commute)

lemma truncate_policies:
  assumes "timing_checker.truncate fc = tc"
  shows "setup_violation_policy fc = setup_violation_policy tc" "hold_violation_policy fc = hold_violation_policy tc"
    "setup_check_map fc = setup_check_map tc" "hold_check_map fc = hold_check_map tc"
  using assms by (auto simp: timing_checker.truncate_def)

lemma post_setup_check_spec:
  assumes ok: "fwd_setup_ok env tabs tc s" and E: "setup_violation_policy tc = E"
  shows "posts tc (post_setup_check env tabs s ni nv)
    {(setup_tex E LOGIC_OTHER (pid, ni, t, d, tm), current_time s + tm) | pid t d tm. (pid, ni, t, d, tm) \<in> fwd_setup env tabs tc s}"
proof -
  define V where "V pid si = {(setup_tex E LOGIC_OTHER (pid, ni, t, fs_dir si, fh_time si), current_time s + fh_time si) | t.
      translate_to_global_node env s pid (fh_trig_node si) = Some t}" for pid and si :: fwd_setup_entry
  have v: "posts tc (post_setup_entry env s ni pid si) (V pid si)"
    if "translate_to_global_node env s pid (fh_trig_node si) \<noteq> None" for pid si
  proof -
    from that obtain t where t: "translate_to_global_node env s pid (fh_trig_node si) = Some t" by blast
    have "post_setup_entry env s ni pid si fc = register_timing_check (setup_tex E LOGIC_OTHER (pid, ni, t, fs_dir si, fh_time si)) (current_time s + fh_time si) fc"
      if "timing_checker.truncate fc = tc" for fc
      using truncate_policies(1) [OF that] E by (simp add: post_setup_entry_def t setup_tex_def)
    moreover have "V pid si = {(setup_tex E LOGIC_OTHER (pid, ni, t, fs_dir si, fh_time si), current_time s + fh_time si)}" by (simp add: V_def t)
    ultimately show ?thesis using posts_register unfolding posts_def by simp
  qed
  define P where "P x = (\<Union>l \<in> set (snd x). \<Union>si \<in> set (entries (fwd_setup_constraints (the (fwd_process_constraints tabs s (fst x)))) l). V (fst x) si)"
    for x :: "nat \<times> nat list"
  let ?f = "\<lambda>(pid, ls) fc. do {
       pg \<leftarrow> fwd_process_constraints tabs s pid;
       fold_loop (\<lambda>lni. fold_loop (post_setup_entry env s ni pid) (entries (fwd_setup_constraints pg) lni)) ls fc }"
  have "posts tc (fold_loop ?f (entries (setup_check_map tc) ni)) (\<Union>x \<in> set (entries (setup_check_map tc) ni). P x)"
  proof (rule posts_loop)
    fix x assume x: "x \<in> set (entries (setup_check_map tc) ni)"
    obtain pid ls where xx: "x = (pid, ls)" by (cases x)
    from ok x xx obtain pg where pg: "fwd_process_constraints tabs s pid = Some pg"
      "\<And>l si. l \<in> set ls \<Longrightarrow> si \<in> set (entries (fwd_setup_constraints pg) l) \<Longrightarrow> translate_to_global_node env s pid (fh_trig_node si) \<noteq> None"
      unfolding fwd_setup_ok_def by blast
    show "posts tc (?f x) (P x)"
      unfolding xx prod.case P_def fst_conv snd_conv pg(1) option.sel bind.bind_lunit
      by (intro posts_loop) (use pg(2) v in blast)
  qed
  moreover have "(\<Union>x \<in> set (entries (setup_check_map tc) ni). P x) =
      {(setup_tex E LOGIC_OTHER (pid, ni, t, d, tm), current_time s + tm) | pid t d tm. (pid, ni, t, d, tm) \<in> fwd_setup env tabs tc s}" (is "?L = ?R")
  proof (intro equalityI subsetI)
    fix y assume "y \<in> ?L"
    then obtain pid ls l si t where y: "(pid, ls) \<in> set (entries (setup_check_map tc) ni)" "l \<in> set ls"
      "si \<in> set (entries (fwd_setup_constraints (the (fwd_process_constraints tabs s pid))) l)"
      "translate_to_global_node env s pid (fh_trig_node si) = Some t"
      "y = (setup_tex E LOGIC_OTHER (pid, ni, t, fs_dir si, fh_time si), current_time s + fh_time si)" unfolding P_def V_def by fastforce
    from ok y(1) obtain pg where pg: "fwd_process_constraints tabs s pid = Some pg" unfolding fwd_setup_ok_def by blast
    have "(pid, ni, t, fs_dir si, fh_time si) \<in> fwd_setup env tabs tc s" unfolding fwd_setup_def using y(1-4) pg by fastforce
    with y(5) show "y \<in> ?R" by blast
  next
    fix y assume "y \<in> ?R"
    then obtain pid t d tm where y: "(pid, ni, t, d, tm) \<in> fwd_setup env tabs tc s" "y = (setup_tex E LOGIC_OTHER (pid, ni, t, d, tm), current_time s + tm)" by blast
    from y(1) obtain ls l pg si where "(pid, ls) \<in> set (entries (setup_check_map tc) ni)" "l \<in> set ls"
      "fwd_process_constraints tabs s pid = Some pg" "si \<in> set (entries (fwd_setup_constraints pg) l)"
      "translate_to_global_node env s pid (fh_trig_node si) = Some t" "d = fs_dir si" "tm = fh_time si"
      unfolding fwd_setup_def mem_Collect_eq prod.case by blast
    with y(2) show "y \<in> ?L" unfolding P_def V_def by (intro UN_I [of "(pid, ls)"] UN_I [of l] UN_I [of si]) simp_all
  qed
  ultimately have "posts tc (fold_loop ?f (entries (setup_check_map tc) ni)) ?R" by (simp only:)
  then show ?thesis
  proof (rule posts_cong)
    fix fc :: fwd_checker assume "timing_checker.truncate fc = tc"
    then have "setup_check_map fc = setup_check_map tc" by (rule truncate_policies(3))
    then show "post_setup_check env tabs s ni nv fc = fold_loop ?f (entries (setup_check_map tc) ni) fc" by (simp only: post_setup_check_def)
  qed
qed

lemma post_hold_check_spec:
  assumes ok: "fwd_hold_ok env tabs tc s" and E: "hold_violation_policy tc = E"
  shows "posts tc (post_hold_check env tabs s ni nv)
    {(hold_tex E LOGIC_OTHER (pid, ni, t, d, tm), current_time s + tm) | pid t d tm. (pid, ni, t, d, tm) \<in> fwd_hold env tabs tc s \<and> rise_fall nv d}"
proof -
  define V where "V pid d si = {(hold_tex E LOGIC_OTHER (pid, ni, t, d, fh_time si), current_time s + fh_time si) | t.
      translate_to_global_node env s pid (fh_trig_node si) = Some t}" for pid d and si :: fwd_hold_entry
  have v: "posts tc (post_hold_entry env s ni pid d si) (V pid d si)"
    if "translate_to_global_node env s pid (fh_trig_node si) \<noteq> None" for pid d si
  proof -
    from that obtain t where t: "translate_to_global_node env s pid (fh_trig_node si) = Some t" by blast
    have "post_hold_entry env s ni pid d si fc = register_timing_check (hold_tex E LOGIC_OTHER (pid, ni, t, d, fh_time si)) (current_time s + fh_time si) fc"
      if "timing_checker.truncate fc = tc" for fc
      using truncate_policies(2) [OF that] E by (simp add: post_hold_entry_def t hold_tex_def)
    moreover have "V pid d si = {(hold_tex E LOGIC_OTHER (pid, ni, t, d, fh_time si), current_time s + fh_time si)}" by (simp add: V_def t)
    ultimately show ?thesis using posts_register unfolding posts_def by simp
  qed
  define P where "P x = (\<Union>l \<in> set (snd x). \<Union>d \<in> set (filter (rise_fall nv) [False, True]).
      \<Union>si \<in> set (entries (fwd_hold_constraints (the (fwd_process_constraints tabs s (fst x)))) (l, d)). V (fst x) d si)" for x :: "nat \<times> nat list"
  let ?f = "\<lambda>(pid, ls) fc. do {
       pg \<leftarrow> fwd_process_constraints tabs s pid;
       fold_loop (\<lambda>lni. fold_loop (\<lambda>dir. fold_loop (post_hold_entry env s ni pid dir) (entries (fwd_hold_constraints pg) (lni, dir)))
         (filter (rise_fall nv) [False, True])) ls fc }"
  have "posts tc (fold_loop ?f (entries (hold_check_map tc) ni)) (\<Union>x \<in> set (entries (hold_check_map tc) ni). P x)"
  proof (rule posts_loop)
    fix x assume x: "x \<in> set (entries (hold_check_map tc) ni)"
    obtain pid ls where xx: "x = (pid, ls)" by (cases x)
    from ok x xx obtain pg where pg: "fwd_process_constraints tabs s pid = Some pg"
      "\<And>l d si. l \<in> set ls \<Longrightarrow> si \<in> set (entries (fwd_hold_constraints pg) (l, d)) \<Longrightarrow> translate_to_global_node env s pid (fh_trig_node si) \<noteq> None"
      unfolding fwd_hold_ok_def by blast
    show "posts tc (?f x) (P x)"
      unfolding xx prod.case P_def fst_conv snd_conv pg(1) option.sel bind.bind_lunit
      by (intro posts_loop) (use pg(2) v in blast)
  qed
  moreover have "(\<Union>x \<in> set (entries (hold_check_map tc) ni). P x) =
      {(hold_tex E LOGIC_OTHER (pid, ni, t, d, tm), current_time s + tm) | pid t d tm. (pid, ni, t, d, tm) \<in> fwd_hold env tabs tc s \<and> rise_fall nv d}" (is "?L = ?R")
  proof (intro equalityI subsetI)
    fix y assume "y \<in> ?L"
    then obtain pid ls l d si t where y: "(pid, ls) \<in> set (entries (hold_check_map tc) ni)" "l \<in> set ls" "rise_fall nv d"
      "si \<in> set (entries (fwd_hold_constraints (the (fwd_process_constraints tabs s pid))) (l, d))"
      "translate_to_global_node env s pid (fh_trig_node si) = Some t"
      "y = (hold_tex E LOGIC_OTHER (pid, ni, t, d, fh_time si), current_time s + fh_time si)" unfolding P_def V_def dirs by fastforce
    from ok y(1) obtain pg where pg: "fwd_process_constraints tabs s pid = Some pg" unfolding fwd_hold_ok_def by blast
    have "(pid, ni, t, d, fh_time si) \<in> fwd_hold env tabs tc s" unfolding fwd_hold_def using y(1-5) pg by fastforce
    with y(3,6) show "y \<in> ?R" by blast
  next
    fix y assume "y \<in> ?R"
    then obtain pid t d tm where y: "(pid, ni, t, d, tm) \<in> fwd_hold env tabs tc s" "rise_fall nv d"
      "y = (hold_tex E LOGIC_OTHER (pid, ni, t, d, tm), current_time s + tm)" by blast
    from y(1) obtain ls l pg si where "(pid, ls) \<in> set (entries (hold_check_map tc) ni)" "l \<in> set ls"
      "fwd_process_constraints tabs s pid = Some pg" "si \<in> set (entries (fwd_hold_constraints pg) (l, d))"
      "translate_to_global_node env s pid (fh_trig_node si) = Some t" "tm = fh_time si"
      unfolding fwd_hold_def mem_Collect_eq prod.case by blast
    with y(2,3) show "y \<in> ?L" unfolding P_def V_def dirs by (intro UN_I [of "(pid, ls)"] UN_I [of l] UN_I [of d] UN_I [of si]) simp_all
  qed
  ultimately have "posts tc (fold_loop ?f (entries (hold_check_map tc) ni)) ?R" by (simp only:)
  then show ?thesis
  proof (rule posts_cong)
    fix fc :: fwd_checker assume "timing_checker.truncate fc = tc"
    then have "hold_check_map fc = hold_check_map tc" by (rule truncate_policies(4))
    then show "post_hold_check env tabs s ni nv fc = fold_loop ?f (entries (hold_check_map tc) ni) fc" by (simp only: post_hold_check_def)
  qed
qed

section \<open>Runs\<close>

text \<open>A node takes a value at a time, as \<^verbatim>\<open>execute_immediately\<close> does it with either implementation.\<close>

type_synonym transition = "node_index_type \<times> value_enum \<times> time_type"

definition lb_step :: "sim_env \<Rightarrow> timing_constraints list \<Rightarrow> timing_checker \<Rightarrow> event_cause \<Rightarrow> transition \<Rightarrow> prsim_state
    \<Rightarrow> (timing_exception list \<times> prsim_state) option" where
  "lb_step env tabs tc c e s = (case e of (ni, v, t) \<Rightarrow> do {
     let s1 = s\<lparr>current_time := t\<rparr>;
     xs \<leftarrow> setup_violations env tabs tc s1 ni v;
     ys \<leftarrow> hold_violations env tabs tc s1 ni v;
     n \<leftarrow> get_node s1 ni;
     Some (xs @ ys, put_node s1 ni (set_value_and_cause v c t n)) })"

fun lb_run :: "sim_env \<Rightarrow> timing_constraints list \<Rightarrow> timing_checker \<Rightarrow> event_cause \<Rightarrow> transition list \<Rightarrow> prsim_state
    \<Rightarrow> timing_exception list list option" where
  "lb_run env tabs tc c [] s = Some []"
| "lb_run env tabs tc c (e # es) s = do {
     (xs, s1) \<leftarrow> lb_step env tabs tc c e s;
     xss \<leftarrow> lb_run env tabs tc c es s1;
     Some (xs # xss) }"

definition fwd_step :: "sim_env \<Rightarrow> fwd_constraints list \<Rightarrow> prsim_state \<Rightarrow> transition \<Rightarrow> fwd_checker
    \<Rightarrow> (timing_exception list \<times> fwd_checker) option" where
  "fwd_step env tabs s e fc = (case e of (ni, v, t) \<Rightarrow> do {
     let s1 = s\<lparr>current_time := t\<rparr>;
     fc1 \<leftarrow> expire_timing_checks t fc;
     fc2 \<leftarrow> post_setup_check env tabs s1 ni v fc1;
     fc3 \<leftarrow> post_hold_check env tabs s1 ni v fc2;
     xs \<leftarrow> active_violations fc3 ni v;
     Some (xs, fc3) })"

fun fwd_run :: "sim_env \<Rightarrow> fwd_constraints list \<Rightarrow> prsim_state \<Rightarrow> transition list \<Rightarrow> fwd_checker \<Rightarrow> timing_exception list list option" where
  "fwd_run env tabs s [] fc = Some []"
| "fwd_run env tabs s (e # es) fc = do {
     (xs, fc1) \<leftarrow> fwd_step env tabs s e fc;
     xss \<leftarrow> fwd_run env tabs s es fc1;
     Some (xs # xss) }"

text \<open>What both should report: a constraint is violated if its reference node had an edge less than its time ago.\<close>

abbreviation edge_time :: "transition \<Rightarrow> time_type" where
  "edge_time x \<equiv> snd (snd x)"

definition violated :: "error_policy_enum \<Rightarrow> error_policy_enum \<Rightarrow> constraint set \<Rightarrow> constraint set \<Rightarrow> transition list \<Rightarrow> transition
    \<Rightarrow> timing_exception set" where
  "violated Es Eh Cs Ch H e = (case e of (ni, nv, now) \<Rightarrow>
     {setup_tex Es nv (pid, r, ni, d, tm) | pid r d tm. (pid, r, ni, d, tm) \<in> Cs \<and> rise_fall nv d \<and> (\<exists>x \<in> set H. fst x = r \<and> now < edge_time x + tm)} \<union>
     {hold_tex Eh nv (pid, r, ni, d, tm) | pid r d tm. (pid, r, ni, d, tm) \<in> Ch \<and> (\<exists>x \<in> set H. fst x = r \<and> rise_fall (fst (snd x)) d \<and> now < edge_time x + tm)})"

definition last_time :: "(transition \<Rightarrow> bool) \<Rightarrow> transition list \<Rightarrow> time_type" where
  "last_time P H = (if filter P H = [] then -1 else edge_time (last (filter P H)))"

lemma last_time_snoc: "last_time P (H @ [x]) = (if P x then edge_time x else last_time P H)"
  by (simp add: last_time_def)

lemma recent_edge:
  assumes H: "sorted (map edge_time H)" "\<forall>x \<in> set H. 0 \<le> edge_time x"
  shows "0 \<le> last_time P H \<and> now - last_time P H < tm \<longleftrightarrow> (\<exists>x \<in> set H. P x \<and> now < edge_time x + tm)"
proof (cases "filter P H = []")
  case True
  then show ?thesis by (auto simp: last_time_def filter_empty_conv)
next
  case False
  let ?l = "last (filter P H)"
  have l: "?l \<in> set H" "P ?l" using last_in_set [OF False] by auto
  from False obtain ys y where ys: "filter P H = ys @ [y]" by (cases "filter P H" rule: rev_cases) auto
  have "sorted (map edge_time (ys @ [y]))" unfolding ys [symmetric] using H(1) by (rule sorted_filter)
  moreover have "x \<in> set (ys @ [y])" if "x \<in> set H" "P x" for x unfolding ys [symmetric] using that by simp
  ultimately have m: "edge_time x \<le> edge_time ?l" if "x \<in> set H" "P x" for x using that by (fastforce simp: ys sorted_append)
  show ?thesis
  proof
    assume "0 \<le> last_time P H \<and> now - last_time P H < tm"
    with False have "now < edge_time ?l + tm" by (simp add: last_time_def)
    with l show "\<exists>x \<in> set H. P x \<and> now < edge_time x + tm" by blast
  next
    assume "\<exists>x \<in> set H. P x \<and> now < edge_time x + tm"
    then obtain x where x: "x \<in> set H" "P x" "now < edge_time x + tm" by blast
    from m [OF x(1,2)] x(3) H(2) l(1) False show "0 \<le> last_time P H \<and> now - last_time P H < tm" by (simp add: last_time_def)
  qed
qed

subsection \<open>Looking back along a run\<close>

definition lb_hist :: "transition list \<Rightarrow> prsim_state \<Rightarrow> bool" where
  "lb_hist H s \<longleftrightarrow> (\<forall>r < length (node_pool s). (\<forall>v. last_edge_time (node_pool s ! r) v = last_time (\<lambda>x. fst x = r \<and> fst (snd x) = v) H) \<and>
     get_last_transition_time (node_pool s ! r) = last_time (\<lambda>x. fst x = r) H)"

definition definite_refs :: "constraint set \<Rightarrow> transition list \<Rightarrow> bool" where
  "definite_refs C H \<longleftrightarrow> (\<forall>x \<in> set H. \<forall>pid t d tm. (pid, fst x, t, d, tm) \<in> C \<longrightarrow> fst (snd x) \<noteq> LOGIC_OTHER)"

lemma lb_sets_static:
  assumes "same_processes s s'"
  shows "lb_setup env tabs tc s' = lb_setup env tabs tc s" "lb_hold env tabs tc s' = lb_hold env tabs tc s"
    "lb_setup_ok env tabs tc s' = lb_setup_ok env tabs tc s" "lb_hold_ok env tabs tc s' = lb_hold_ok env tabs tc s"
  unfolding lb_setup_def lb_hold_def lb_setup_ok_def lb_hold_ok_def same_processes_lookups [OF assms]
  using assms by (simp_all add: same_processes_def)

lemma lb_refs_bound:
  assumes "lb_setup_ok env tabs tc s" and "(pid, r, t, d, tm) \<in> lb_setup env tabs tc s"
  shows "r < length (node_pool s)"
  using assms unfolding lb_setup_ok_def lb_setup_def mem_Collect_eq prod.case by (metis option.inject)

lemma lb_hold_refs_bound:
  assumes "lb_hold_ok env tabs tc s" and "(pid, r, t, d, tm) \<in> lb_hold env tabs tc s"
  shows "r < length (node_pool s)"
  using assms unfolding lb_hold_ok_def lb_hold_def mem_Collect_eq prod.case by (metis option.inject)

lemma lb_step_spec:
  assumes ok: "lb_setup_ok env tabs tc s" "lb_hold_ok env tabs tc s"
    and E: "setup_violation_policy tc > ERROR_IGNORE" "hold_violation_policy tc > ERROR_IGNORE"
    and H: "lb_hist H s" "sorted (map edge_time H)" "\<forall>x \<in> set H. 0 \<le> edge_time x" "definite_refs (lb_hold env tabs tc s) H"
    and ni: "ni < length (node_pool s)"
  shows "\<exists>xs s'. lb_step env tabs tc c (ni, v, t) s = Some (xs, s') \<and> same_processes s s' \<and> lb_hist (H @ [(ni, v, t)]) s' \<and>
    set xs = violated (setup_violation_policy tc) (hold_violation_policy tc) (lb_setup env tabs tc s) (lb_hold env tabs tc s) H (ni, v, t)"
proof -
  let ?s = "s\<lparr>current_time := t\<rparr>"
  have sp: "same_processes s ?s" by (simp add: same_processes_def)
  note st = lb_sets_static [OF sp]
  have s1: "setup_tex E nv (pid, r, ni, d, tm) \<in> {setup_tex E nv (pid, r, ni, d, tm) | pid r d tm. Q pid r d tm} \<longleftrightarrow> Q pid r d tm" for E nv pid r d tm Q
    by (auto simp: setup_tex_def)
  from setup_violations_spec [of env tabs tc ?s _ ni v, unfolded st, OF ok(1) refl E(1)] obtain xs where
    xs: "setup_violations env tabs tc ?s ni v = Some xs"
      "set xs = {setup_tex (setup_violation_policy tc) v (pid, r, ni, d, tm) | pid r d tm. (pid, r, ni, d, tm) \<in> lb_setup env tabs tc s \<and> rise_fall v d \<and>
        overdue ?s (get_last_transition_time (node_pool ?s ! r)) tm}" unfolding yields_def by blast
  from hold_violations_spec [of env tabs tc ?s _ ni v, unfolded st, OF ok(2) refl E(2)] obtain ys where
    ys: "hold_violations env tabs tc ?s ni v = Some ys"
      "set ys = {hold_tex (hold_violation_policy tc) v (pid, r, ni, d, tm) | pid r d tm. (pid, r, ni, d, tm) \<in> lb_hold env tabs tc s \<and>
        overdue ?s (last_edge_time (node_pool ?s ! r) (if d then LOGIC_HIGH else LOGIC_LOW)) tm}" unfolding yields_def by blast
  have o1: "overdue ?s (get_last_transition_time (node_pool ?s ! r)) tm \<longleftrightarrow> (\<exists>x \<in> set H. fst x = r \<and> t < edge_time x + tm)"
    if "(pid, r, ni, d, tm) \<in> lb_setup env tabs tc s" for pid r d tm
  proof -
    have "get_last_transition_time (node_pool s ! r) = last_time (\<lambda>x. fst x = r) H" using H(1) lb_refs_bound [OF ok(1) that] by (simp add: lb_hist_def)
    then show ?thesis using recent_edge [OF H(2,3), of "\<lambda>x. fst x = r" t tm] by (simp add: overdue_def)
  qed
  have o2: "overdue ?s (last_edge_time (node_pool ?s ! r) (if d then LOGIC_HIGH else LOGIC_LOW)) tm \<longleftrightarrow>
      (\<exists>x \<in> set H. fst x = r \<and> rise_fall (fst (snd x)) d \<and> t < edge_time x + tm)"
    if c: "(pid, r, ni, d, tm) \<in> lb_hold env tabs tc s" for pid r d tm
  proof -
    let ?w = "if d then LOGIC_HIGH else LOGIC_LOW"
    have "last_edge_time (node_pool s ! r) ?w = last_time (\<lambda>x. fst x = r \<and> fst (snd x) = ?w) H"
      using H(1) lb_hold_refs_bound [OF ok(2) c] by (simp add: lb_hist_def)
    moreover have "fst (snd x) = ?w \<longleftrightarrow> rise_fall (fst (snd x)) d" if "x \<in> set H" "fst x = r" for x
    proof -
      have "fst (snd x) \<noteq> LOGIC_OTHER" using H(4) that c unfolding definite_refs_def by blast
      then show ?thesis by (cases "fst (snd x)") (auto simp: rise_fall_def)
    qed
    ultimately show ?thesis using recent_edge [OF H(2,3), of "\<lambda>x. fst x = r \<and> fst (snd x) = ?w" t tm] by (auto simp: overdue_def)
  qed
  define s' where "s' = put_node ?s ni (set_value_and_cause v c t (node_pool s ! ni))"
  have "lb_step env tabs tc c (ni, v, t) s = Some (xs @ ys, s')" using xs(1) ys(1) ni by (simp add: lb_step_def get_node_def nth_opt_in s'_def)
  moreover have "same_processes s s'" by (simp add: same_processes_def s'_def put_node_def)
  moreover have "lb_hist (H @ [(ni, v, t)]) s'"
    using H(1) ni by (auto simp: lb_hist_def s'_def put_node_def last_time_snoc set_value_and_cause_def get_last_transition_time_def nth_list_update)
  moreover have "set (xs @ ys) = violated (setup_violation_policy tc) (hold_violation_policy tc) (lb_setup env tabs tc s) (lb_hold env tabs tc s) H (ni, v, t)"
    unfolding set_append xs(2) ys(2) violated_def prod.case using o1 o2 by (intro arg_cong2 [where f = "(\<union>)"] Collect_cong) blast+
  ultimately show ?thesis by blast
qed

subsection \<open>Posting forward along a run\<close>

definition event_posts :: "error_policy_enum \<Rightarrow> error_policy_enum \<Rightarrow> constraint set \<Rightarrow> constraint set \<Rightarrow> transition \<Rightarrow> (timing_exception \<times> time_type) set" where
  "event_posts Es Eh Cs Ch x = (case x of (r, v, t0) \<Rightarrow>
     {(setup_tex Es LOGIC_OTHER (pid, r, t, d, tm), t0 + tm) | pid t d tm. (pid, r, t, d, tm) \<in> Cs} \<union>
     {(hold_tex Eh LOGIC_OTHER (pid, r, t, d, tm), t0 + tm) | pid t d tm. (pid, r, t, d, tm) \<in> Ch \<and> rise_fall v d})"

definition posts_of :: "error_policy_enum \<Rightarrow> error_policy_enum \<Rightarrow> constraint set \<Rightarrow> constraint set \<Rightarrow> transition list \<Rightarrow> (timing_exception \<times> time_type) set" where
  "posts_of Es Eh Cs Ch H = (\<Union>x \<in> set H. event_posts Es Eh Cs Ch x)"

text \<open>Checks whose window has closed may still be posted until the next event.\<close>

definition fwd_hist :: "(timing_exception \<times> time_type) set \<Rightarrow> time_type \<Rightarrow> fwd_checker \<Rightarrow> bool" where
  "fwd_hist A now fc \<longleftrightarrow> fwd_inv fc \<and> posted fc \<subseteq> A \<and> {x \<in> A. now < snd x} \<subseteq> posted fc"

lemma posts_of_snoc: "posts_of Es Eh Cs Ch (H @ [x]) = posts_of Es Eh Cs Ch H \<union> event_posts Es Eh Cs Ch x"
  by (simp add: posts_of_def Un_commute)

lemma fwd_sets_static:
  assumes "same_processes s s'"
  shows "fwd_setup env tabs tc s' = fwd_setup env tabs tc s" "fwd_hold env tabs tc s' = fwd_hold env tabs tc s"
    "fwd_setup_ok env tabs tc s' = fwd_setup_ok env tabs tc s" "fwd_hold_ok env tabs tc s' = fwd_hold_ok env tabs tc s"
  unfolding fwd_setup_def fwd_hold_def fwd_setup_ok_def fwd_hold_ok_def same_processes_lookups [OF assms] by simp_all

lemma tex_inject [simp]:
  "setup_tex E v c = setup_tex E' v' c' \<longleftrightarrow> E = E' \<and> v = v' \<and> c = c'" "hold_tex E v c = hold_tex E' v' c' \<longleftrightarrow> E = E' \<and> v = v' \<and> c = c'"
  "setup_tex E v c \<noteq> hold_tex E' v' c'" "hold_tex E' v' c' \<noteq> setup_tex E v c"
  by (auto simp: setup_tex_def hold_tex_def split: prod.splits)

definition irreflexive :: "constraint set \<Rightarrow> bool" where
  "irreflexive C \<longleftrightarrow> (\<forall>pid r t d tm. (pid, r, t, d, tm) \<in> C \<longrightarrow> r \<noteq> t)"

lemma active_are_violated:
  assumes ir: "irreflexive Cs" "irreflexive Ch"
    and A: "A = {x \<in> posts_of Es Eh Cs Ch H. t < snd x} \<union> event_posts Es Eh Cs Ch (ni, v, t)"
  shows "{tex\<lparr>tvalue := v\<rparr> | tex ft. (tex, ft) \<in> A \<and> tex_node_id tex = ni \<and> (is_setup tex \<longrightarrow> rise_fall v (tex_dir tex))} =
    violated Es Eh Cs Ch H (ni, v, t)" (is "?L = ?R")
proof (intro equalityI subsetI)
  fix y assume "y \<in> ?L"
  then obtain tex ft where y: "y = tex\<lparr>tvalue := v\<rparr>" "(tex, ft) \<in> A" "tex_node_id tex = ni" "is_setup tex \<longrightarrow> rise_fall v (tex_dir tex)" by blast
  have "(tex, ft) \<notin> event_posts Es Eh Cs Ch (ni, v, t)"
  proof
    assume "(tex, ft) \<in> event_posts Es Eh Cs Ch (ni, v, t)"
    then obtain pid tr d tm where c: "(pid, ni, tr, d, tm) \<in> Cs \<and> tex = setup_tex Es LOGIC_OTHER (pid, ni, tr, d, tm) \<or>
        (pid, ni, tr, d, tm) \<in> Ch \<and> tex = hold_tex Eh LOGIC_OTHER (pid, ni, tr, d, tm)" unfolding event_posts_def by auto
    then have "tex_node_id tex = tr" by auto
    with y(3) c ir show False unfolding irreflexive_def by blast
  qed
  with y(2) have "(tex, ft) \<in> posts_of Es Eh Cs Ch H" "t < ft" unfolding A by auto
  then consider pid r tr d tm w t0 where "tex = setup_tex Es LOGIC_OTHER (pid, r, tr, d, tm)" "(r, w, t0) \<in> set H" "(pid, r, tr, d, tm) \<in> Cs" "t < t0 + tm"
    | pid r tr d tm w t0 where "tex = hold_tex Eh LOGIC_OTHER (pid, r, tr, d, tm)" "(r, w, t0) \<in> set H" "rise_fall w d" "(pid, r, tr, d, tm) \<in> Ch" "t < t0 + tm"
    unfolding posts_of_def event_posts_def by auto
  then show "y \<in> ?R"
  proof cases
    case 1
    with y have "y = setup_tex Es v (pid, r, ni, d, tm)" "rise_fall v d" "(pid, r, ni, d, tm) \<in> Cs" by auto
    with 1(2,4) show ?thesis unfolding violated_def by force
  next
    case 2
    with y have "y = hold_tex Eh v (pid, r, ni, d, tm)" "(pid, r, ni, d, tm) \<in> Ch" by auto
    with 2(2,3,5) show ?thesis unfolding violated_def by force
  qed
next
  fix y assume "y \<in> ?R"
  then consider pid r d tm w t0 where "y = setup_tex Es v (pid, r, ni, d, tm)" "(pid, r, ni, d, tm) \<in> Cs" "rise_fall v d" "(r, w, t0) \<in> set H" "t < t0 + tm"
    | pid r d tm w t0 where "y = hold_tex Eh v (pid, r, ni, d, tm)" "(pid, r, ni, d, tm) \<in> Ch" "(r, w, t0) \<in> set H" "rise_fall w d" "t < t0 + tm"
    unfolding violated_def by fastforce
  then show "y \<in> ?L"
  proof cases
    case 1
    then have "(setup_tex Es LOGIC_OTHER (pid, r, ni, d, tm), t0 + tm) \<in> A" unfolding A posts_of_def event_posts_def by fastforce
    with 1 show ?thesis by (intro CollectI exI [of _ "setup_tex Es LOGIC_OTHER (pid, r, ni, d, tm)"] exI [of _ "t0 + tm"]) simp
  next
    case 2
    then have "(hold_tex Eh LOGIC_OTHER (pid, r, ni, d, tm), t0 + tm) \<in> A" unfolding A posts_of_def event_posts_def by fastforce
    with 2 show ?thesis by (intro CollectI exI [of _ "hold_tex Eh LOGIC_OTHER (pid, r, ni, d, tm)"] exI [of _ "t0 + tm"]) simp
  qed
qed

lemma fwd_step_spec:
  assumes ok: "fwd_setup_ok env tabs tc s" "fwd_hold_ok env tabs tc s" and tc: "timing_checker.truncate fc = tc"
    and ir: "irreflexive (fwd_setup env tabs tc s)" "irreflexive (fwd_hold env tabs tc s)"
    and H: "fwd_hist (posts_of (setup_violation_policy tc) (hold_violation_policy tc) (fwd_setup env tabs tc s) (fwd_hold env tabs tc s) H) now fc" "now \<le> t"
  shows "\<exists>xs fc'. fwd_step env tabs s (ni, v, t) fc = Some (xs, fc') \<and> timing_checker.truncate fc' = tc \<and>
    fwd_hist (posts_of (setup_violation_policy tc) (hold_violation_policy tc) (fwd_setup env tabs tc s) (fwd_hold env tabs tc s) (H @ [(ni, v, t)])) t fc' \<and>
    set xs = violated (setup_violation_policy tc) (hold_violation_policy tc) (fwd_setup env tabs tc s) (fwd_hold env tabs tc s) H (ni, v, t)"
proof -
  let ?s = "s\<lparr>current_time := t\<rparr>"
  let ?Es = "setup_violation_policy tc" and ?Eh = "hold_violation_policy tc" and ?Cs = "fwd_setup env tabs tc s" and ?Ch = "fwd_hold env tabs tc s"
  let ?A = "posts_of ?Es ?Eh ?Cs ?Ch"
  define B where "B = {(setup_tex ?Es LOGIC_OTHER (pid, ni, tr, d, tm), t + tm) | pid tr d tm. (pid, ni, tr, d, tm) \<in> ?Cs}"
  define D where "D = {(hold_tex ?Eh LOGIC_OTHER (pid, ni, tr, d, tm), t + tm) | pid tr d tm. (pid, ni, tr, d, tm) \<in> ?Ch \<and> rise_fall v d}"
  have BD: "event_posts ?Es ?Eh ?Cs ?Ch (ni, v, t) = B \<union> D" by (simp add: event_posts_def B_def D_def)
  have sp: "same_processes s ?s" by (simp add: same_processes_def)
  note st = fwd_sets_static [OF sp]
  from H(1) have inv: "fwd_inv fc" and sub: "posted fc \<subseteq> ?A H" "{x \<in> ?A H. now < snd x} \<subseteq> posted fc" by (auto simp: fwd_hist_def)
  from expire_timing_checks_spec [OF inv, of t] tc obtain fc1 where
    1: "expire_timing_checks t fc = Some fc1" "fwd_inv fc1" "posted fc1 = {x \<in> posted fc. t < snd x}" "timing_checker.truncate fc1 = tc" by auto
  have p1: "posted fc1 = {x \<in> ?A H. t < snd x}" unfolding 1(3) using sub H(2) by fastforce
  from post_setup_check_spec [of env tabs tc ?s _ ni v, unfolded st, OF ok(1) refl] 1(2,4) obtain fc2 where
    2: "post_setup_check env tabs ?s ni v fc1 = Some fc2" "fwd_inv fc2" "posted fc2 = posted fc1 \<union> B" "timing_checker.truncate fc2 = tc"
    unfolding posts_def B_def by auto
  from post_hold_check_spec [of env tabs tc ?s _ ni v, unfolded st, OF ok(2) refl] 2(2,4) obtain fc3 where
    3: "post_hold_check env tabs ?s ni v fc2 = Some fc3" "fwd_inv fc3" "posted fc3 = posted fc2 \<union> D" "timing_checker.truncate fc3 = tc"
    unfolding posts_def D_def by auto
  have p3: "posted fc3 = {x \<in> ?A H. t < snd x} \<union> event_posts ?Es ?Eh ?Cs ?Ch (ni, v, t)" by (simp only: 3(3) 2(3) p1 BD Un_assoc)
  from active_violations_spec [OF 3(2), of ni v] active_are_violated [OF ir p3] obtain xs where
    xs: "active_violations fc3 ni v = Some xs" "set xs = violated ?Es ?Eh ?Cs ?Ch H (ni, v, t)" unfolding yields_def by auto
  have "fwd_hist (?A (H @ [(ni, v, t)])) t fc3" using 3(2) p3 by (auto simp: fwd_hist_def posts_of_snoc)
  with 1 2 3 xs show ?thesis by (intro exI [of _ xs] exI [of _ fc3]) (simp add: fwd_step_def)
qed

subsection \<open>Both report the same\<close>

text \<open>The tables of the two implementations, built for the same constraints.\<close>

definition same_constraints :: "sim_env \<Rightarrow> timing_constraints list \<Rightarrow> timing_checker \<Rightarrow> fwd_constraints list \<Rightarrow> timing_checker \<Rightarrow> prsim_state \<Rightarrow> bool" where
  "same_constraints env tabs tc ftabs ftc s \<longleftrightarrow>
     lb_setup_ok env tabs tc s \<and> lb_hold_ok env tabs tc s \<and> fwd_setup_ok env ftabs ftc s \<and> fwd_hold_ok env ftabs ftc s \<and>
     lb_setup env tabs tc s = fwd_setup env ftabs ftc s \<and> lb_hold env tabs tc s = fwd_hold env ftabs ftc s \<and>
     irreflexive (lb_setup env tabs tc s) \<and> irreflexive (lb_hold env tabs tc s) \<and>
     setup_violation_policy tc = setup_violation_policy ftc \<and> hold_violation_policy tc = hold_violation_policy ftc \<and>
     setup_violation_policy tc > ERROR_IGNORE \<and> hold_violation_policy tc > ERROR_IGNORE"

lemma runs_agree:
  assumes "same_constraints env tabs tc ftabs ftc s0" and "same_processes s0 s" and "lb_hist H s" and "timing_checker.truncate fc = ftc"
    and "fwd_hist (posts_of (setup_violation_policy ftc) (hold_violation_policy ftc) (fwd_setup env ftabs ftc s0) (fwd_hold env ftabs ftc s0) H) now fc"
    and "sorted (map edge_time (H @ es))" and "\<forall>x \<in> set (H @ es). 0 \<le> edge_time x" and "\<forall>x \<in> set H. edge_time x \<le> now" and "\<forall>x \<in> set es. now \<le> edge_time x"
    and "definite_refs (lb_hold env tabs tc s0) (H @ es)" and "\<forall>x \<in> set es. fst x < length (node_pool s0)"
  shows "\<exists>L F. lb_run env tabs tc c es s = Some L \<and> fwd_run env ftabs s0 es fc = Some F \<and> list_all2 (\<lambda>xs ys. set xs = set ys) L F"
  using assms
proof (induction es arbitrary: H s fc now)
  case (Cons e es)
  obtain ni v t where e: "e = (ni, v, t)" by (cases e)
  note sc = Cons.prems(1) [unfolded same_constraints_def]
  note st = lb_sets_static [OF Cons.prems(2)]
  have len: "length (node_pool s) = length (node_pool s0)" using Cons.prems(2) by (simp add: same_processes_def)
  have "\<exists>xs s'. lb_step env tabs tc c (ni, v, t) s = Some (xs, s') \<and> same_processes s s' \<and> lb_hist (H @ [(ni, v, t)]) s' \<and>
    set xs = violated (setup_violation_policy tc) (hold_violation_policy tc) (lb_setup env tabs tc s) (lb_hold env tabs tc s) H (ni, v, t)"
  proof (rule lb_step_spec)
    show "sorted (map edge_time H)" using Cons.prems(6) by (simp add: sorted_append)
    show "definite_refs (lb_hold env tabs tc s) H" using Cons.prems(10) unfolding st definite_refs_def by auto
  qed (use sc Cons.prems st len e in auto)
  then obtain xs s' where 1: "lb_step env tabs tc c e s = Some (xs, s')" "same_processes s s'" "lb_hist (H @ [e]) s'"
    "set xs = violated (setup_violation_policy tc) (hold_violation_policy tc) (lb_setup env tabs tc s0) (lb_hold env tabs tc s0) H e" unfolding st e by blast
  from fwd_step_spec [of env ftabs ftc s0 fc H now t ni v] sc Cons.prems(4,5,9) e obtain ys fc' where
    2: "fwd_step env ftabs s0 e fc = Some (ys, fc')" "timing_checker.truncate fc' = ftc"
    "fwd_hist (posts_of (setup_violation_policy ftc) (hold_violation_policy ftc) (fwd_setup env ftabs ftc s0) (fwd_hold env ftabs ftc s0) (H @ [e])) t fc'"
    "set ys = violated (setup_violation_policy ftc) (hold_violation_policy ftc) (fwd_setup env ftabs ftc s0) (fwd_hold env ftabs ftc s0) H e" by auto
  have sp: "same_processes s0 s'" using Cons.prems(2) 1(2) by (simp add: same_processes_def)
  have "\<forall>x \<in> set (H @ [e]). edge_time x \<le> t" "\<forall>x \<in> set es. t \<le> edge_time x" using Cons.prems(6,8,9) e by (fastforce simp: sorted_append)+
  from Cons.IH [OF Cons.prems(1) sp 1(3) 2(2,3) _ _ this] Cons.prems(6,7,10,11) obtain L F where
    3: "lb_run env tabs tc c es s' = Some L" "fwd_run env ftabs s0 es fc' = Some F" "list_all2 (\<lambda>xs ys. set xs = set ys) L F" by auto
  have "set xs = set ys" using 1(4) 2(4) sc by simp
  with 1(1) 2(1) 3 show ?case by (intro exI [of _ "xs # L"] exI [of _ "ys # F"]) simp
qed simp

lemma fwd_new_hist: "fwd_inv fc \<Longrightarrow> posted fc = {} \<Longrightarrow> fwd_hist (posts_of Es Eh Cs Ch []) now fc"
  by (simp add: fwd_hist_def posts_of_def)

lemma fwd_checker_new_ok: "fwd_inv (fwd_checker_new dflt)" "posted (fwd_checker_new dflt) = {}"
  by (simp_all add: fwd_checker_new_def fwd_inv_def posted_def timing_checker.defs array_pool_new_def stack_ok_def pool_live_def pool_size_def)
    (auto simp: timing_checker_new_def)

section \<open>The parameter of the step\<close>

text \<open>
  In the model of a step the timing checks are a parameter that answers with error policies. Instantiated with the
  policies of the violations, it has the effect of \<^verbatim>\<open>do_setup_check\<close> and \<^verbatim>\<open>do_hold_check\<close>.
\<close>

lemma handle_policy_oracle: "handle_policy E x (s\<lparr>oracle_pos := k\<rparr>) = (handle_policy E x s)\<lparr>oracle_pos := k\<rparr>"
  by (simp add: handle_policy_def stop_def record_exception_def)

lemma fold_handle_timing:
  "\<forall>x \<in> set xs. tex_node_id x = ni \<Longrightarrow>
   fold (\<lambda>E t. handle_policy E (generic_exception ni E) t) (map tex_policy xs) (s\<lparr>oracle_pos := k\<rparr>) = (fold handle_timing_exception xs s)\<lparr>oracle_pos := k\<rparr>"
  by (induction xs arbitrary: s) (simp_all add: handle_policy_oracle handle_timing_exception_def)

lemma collect_all:
  assumes "collect f xs = Some ys" and "\<And>x zs z. x \<in> set xs \<Longrightarrow> f x = Some zs \<Longrightarrow> z \<in> set zs \<Longrightarrow> P z" and "y \<in> set ys"
  shows "P y"
  using assms
proof (induction xs arbitrary: ys)
  case (Cons x xs)
  then obtain zs yss where z: "f x = Some zs" "those (map f xs) = Some yss" "ys = zs @ concat yss" by (auto simp: collect_def split: option.splits)
  then have "collect f xs = Some (concat yss)" by (simp add: collect_def)
  from Cons.IH [OF this] Cons.prems(2) [of _ _] Cons.prems(3) z show ?case by (metis UnE list.set_intros(1,2) set_append)
qed (simp add: collect_def)

lemma violation_node:
  "setup_violations env tabs tc s ni nv = Some xs \<Longrightarrow> x \<in> set xs \<Longrightarrow> tex_node_id x = ni"
  "hold_violations env tabs tc s ni nv = Some xs \<Longrightarrow> x \<in> set xs \<Longrightarrow> tex_node_id x = ni"
proof -
  have s: "setup_violation env tc s ni nv pid d si = Some zs \<Longrightarrow> z \<in> set zs \<Longrightarrow> tex_node_id z = ni" for pid d si zs z
    by (auto simp: setup_violation_def Let_def split: bind_splits if_splits)
  have h: "hold_violation env tc s ni nv pid si = Some zs \<Longrightarrow> z \<in> set zs \<Longrightarrow> tex_node_id z = ni" for pid si zs z
    by (auto simp: hold_violation_def Let_def split: bind_splits if_splits)
  show "setup_violations env tabs tc s ni nv = Some xs \<Longrightarrow> x \<in> set xs \<Longrightarrow> tex_node_id x = ni"
    unfolding setup_violations_def
    by (erule collect_all) (auto split: prod.splits bind_splits elim!: collect_all dest: s)
  show "hold_violations env tabs tc s ni nv = Some xs \<Longrightarrow> x \<in> set xs \<Longrightarrow> tex_node_id x = ni"
    unfolding hold_violations_def
    by (erule collect_all) (auto split: prod.splits bind_splits elim!: collect_all dest: h)
qed

lemma execute_timing_checks_concrete:
  assumes "setup_violations env tabs tc s ni v = Some xs" and "hold_violations env tabs tc s ni v = Some ys"
    and "has_setup_check n" and "has_hold_check n"
    and "timing_check env (oracle_pos s) True ni v = map tex_policy xs" and "timing_check env (oracle_pos s) False ni v = map tex_policy ys"
  shows "\<exists>s1 s2. do_setup_check env tabs tc ni v s = Some s1 \<and> map_option (\<lambda>ys. fold handle_timing_exception ys s1) (hold_violations env tabs tc s ni v) = Some s2 \<and>
    execute_timing_checks env ni n v s = s2\<lparr>oracle_pos := oracle_pos s + 1\<rparr>"
proof -
  have "\<forall>x \<in> set (xs @ ys). tex_node_id x = ni" using violation_node assms(1,2) by auto
  from fold_handle_timing [OF this, where s = s and k = "oracle_pos s + 1"] assms show ?thesis
    by (simp add: execute_timing_checks_def do_setup_check_def Let_def)
qed

section \<open>Directives\<close>

text \<open>
  An instance whose type is known already gets no check of its own: its directives only add their constraints to the
  table of the type once more.
\<close>

lemma later_instances_not_registered:
  "visit_instance_directives False ic ds b = Some b' \<Longrightarrow> tb_checker b' = tb_checker b \<and> tb_nodes b' = tb_nodes b"
proof -
  have "directive_main False ic d b = Some b' \<Longrightarrow> tb_checker b' = tb_checker b \<and> tb_nodes b' = tb_nodes b" for d b b'
    by (cases d) (auto simp: setup_main_def hold_main_def Let_def split: bind_splits)
  then have "fold_loop (directive_main False ic) ds b = Some b' \<Longrightarrow> tb_checker b' = tb_checker b \<and> tb_nodes b' = tb_nodes b" for b b'
    by (induction ds arbitrary: b) (auto split: bind_splits, (metis+)?)
  then show "visit_instance_directives False ic ds b = Some b' \<Longrightarrow> tb_checker b' = tb_checker b \<and> tb_nodes b' = tb_nodes b"
    by (simp add: visit_instance_directives_def)
qed

end
