(* ===== verification/Example_Inverter.thy ===== *)
theory Example_Inverter
  imports Init_Ok Excl_Ok
begin

text \<open>
  A concrete circuit for the witnesses: an inverter with input node 3 and output node 4, one process whose
  two production rules are \<^verbatim>\<open>~a -> b+\<close> (expression 1) and \<^verbatim>\<open>a -> b-\<close> (expression 2). Nodes 1 and 2 are
  the supplies.
\<close>

unbundle bit_operations_syntax

section \<open>Circuit\<close>

definition inv_rule :: "bool \<Rightarrow> rule" where
  "inv_rule dir = \<lparr>after = 10, after_min = 0, after_max = 0, rule_flags = (if dir then RULE_DIR else 0)\<rparr>"

definition inv_graph :: process_graph where
  "inv_graph = \<lparr>
     expr_pool = [\<lparr>expr_parent = 1, expr_type = 6, expr_size = 1\<rparr>, \<lparr>expr_parent = 1, expr_type = 4, expr_size = 1\<rparr>],
     expr_graph_node_pool = [\<lparr>offset = 0, children = [(True, 0)]\<rparr>, \<lparr>offset = 0, children = [(True, 0)]\<rparr>],
     rule_pool = [inv_rule True, inv_rule False],
     rule_map = (\<lambda>i. if i < 2 then Some i else None),
     min_delays = (\<lambda>_. None)\<rparr>"

definition inv_fanin :: fanin_state where
  "inv_fanin = \<lparr>fs_size = 1, fs_countdown = 0, fs_unknowns = 1\<rparr>"

definition inv_nodes :: "node_state list" where
  "inv_nodes = [NodeState_new, NodeState_new, NodeState_new, NodeState_new\<lparr>fanout := [1, 2]\<rparr>,
     NodeState_new\<lparr>fanin := [0], pull_up_normal := inv_fanin, pull_dn_normal := inv_fanin\<rparr>]"

text \<open>Everything X, no event, the default flags and policies.\<close>

definition inv_x :: prsim_state where
  "inv_x = \<lparr>
     node_pool = inv_nodes, unique_process_pool = [inv_graph], global_expr_process_id_map = [(1, 0)],
     process_state_array = [\<lparr>ps_type = 0, global_expr_offset = 1,
       expr_states = [\<lparr>countdown = 0, unknowns = 1\<rparr>, \<lparr>countdown = 0, unknowns = 1\<rparr>]\<rparr>],
     event_pool = array_pool_new Event_default, event_queue = [],
     mk_exhi = [], mk_exlo = [], mk_exhi_counter_map = Map.empty, mk_exlo_counter_map = Map.empty,
     mk_excl_blocking_set = [], updated_nodes = [], updated_nodes_queue = [],
     check_exhi_ring_pool = [False], check_exlo_ring_pool = [False], check_exhi = Map.empty, check_exlo = Map.empty,
     timing_fanin = Map.empty, current_time = 0,
     timing_params = \<lparr>uniform_delay = 10, default_after_min = 0, default_after_max = 0, timing_probability = 1 / 2,
       timing_mode = TIMING_UNIFORM\<rparr>,
     sim_flags = FLAGS_DEFAULT, interrupted = False, policies = error_policies_default,
     atomic_updated_nodes = Map.empty, recent_exceptions = [], keeper_check_candidates = [],
     invariant_update_map = [], oracle_pos = 0\<rparr>"

definition inv_env :: sim_env where
  "inv_env = \<lparr>uniform_rand = (\<lambda>_. 1 / 2), exponential_rand = (\<lambda>_. 1),
     footprint_frame_map = (\<lambda>_. [3, 4]), shuffle_fanout = (\<lambda>_ xs. xs),
     channel_process_node = (\<lambda>_ _ _ _. []), timing_check = (\<lambda>_ _ _ _. []),
     trace_event_index = (\<lambda>_. 0), feedback_feedthrough = (\<lambda>_ _. [])\<rparr>"

text \<open>The user sets the input low at time 5.\<close>

definition inv_a0 :: prsim_state where
  "inv_a0 = inv_x\<lparr>
     node_pool := inv_nodes[3 := (inv_nodes ! 3)\<lparr>event_index := 1\<rparr>],
     event_pool := \<lparr>index_pool = [Event_default, Event_new 3 EMPTY_CAUSE 0 None LOGIC_LOW False], free_indices = []\<rparr>,
     event_queue := [\<lparr>ep_time = 5, ep_index = 1\<rparr>]\<rparr>"

section \<open>The invariants hold\<close>

lemma random_ok_inv: "random_ok inv_env"
  by (simp add: random_ok_def inv_env_def)

lemma less5: "(i :: nat) < 5 \<longleftrightarrow> i = 0 \<or> i = 1 \<or> i = 2 \<or> i = 3 \<or> i = 4"
  by auto

lemma less2: "(i :: nat) < 2 \<longleftrightarrow> i = 0 \<or> i = 1"
  by auto

lemmas inv_defs = inv_x_def inv_a0_def inv_nodes_def inv_env_def inv_graph_def inv_rule_def inv_fanin_def NodeState_new_def

text \<open>The scheduler invariant in executable form.\<close>

lemma pool_live_code [code]: "pool_live p = set (filter (\<lambda>i. i \<notin> set (free_indices p)) [1..<pool_size p])"
  by (auto simp: pool_live_def)

lemma case_option_ex: "(case x of None \<Rightarrow> False | Some e \<Rightarrow> P e) \<longleftrightarrow> (\<exists>e. x = Some e \<and> P e)"
  by (cases x) simp_all

lemma links_ok_code [code]:
  "links_ok p ns \<longleftrightarrow> pool_ok p \<and>
     (\<forall>i \<in> pool_live p. case pool_get p i of None \<Rightarrow> False
        | Some e \<Rightarrow> ev_node e < length ns \<and> (\<not> killed e \<longrightarrow> event_index (ns ! ev_node e) = i)) \<and>
     (\<forall>ni \<in> set [0..<length ns]. event_index (ns ! ni) \<noteq> 0 \<longrightarrow>
        event_index (ns ! ni) \<in> pool_live p \<and> \<not> is_atomic (ns ! ni) \<and>
        (case pool_get p (event_index (ns ! ni)) of None \<Rightarrow> False | Some e \<Rightarrow> ev_node e = ni \<and> \<not> killed e))"
  unfolding links_ok_def case_option_ex Ball_def set_upt atLeastLessThan_iff by simp

lemma sched_inv_x: "sched_inv {} inv_x"
  by code_simp

lemma sched_inv_a0: "sched_inv {} inv_a0"
  by code_simp


text \<open>The structure of a process graph in executable form.\<close>

lemma graph_ok_code [code]:
  "graph_ok g \<longleftrightarrow> length (expr_graph_node_pool g) = length (expr_pool g) \<and>
     (\<forall>i < length (expr_pool g). 
        expr_depth (length (expr_pool g)) (expr_pool g) i \<noteq> None \<and>
        length (children (expr_graph_node_pool g ! i)) = unat (expr_size (expr_pool g ! i)) \<and>
        (\<not> is_root (expr_pool g ! i) \<longrightarrow>
           expr_parent (expr_pool g ! i) < length (expr_pool g) \<and>
           unat (offset (expr_graph_node_pool g ! i))
             < length (children (expr_graph_node_pool g ! expr_parent (expr_pool g ! i))) \<and>
           children (expr_graph_node_pool g ! expr_parent (expr_pool g ! i))
             ! unat (offset (expr_graph_node_pool g ! i)) = (False, i)) \<and>
        (\<forall>k < length (children (expr_graph_node_pool g ! i)).
           case children (expr_graph_node_pool g ! i) ! k of (leaf, j) \<Rightarrow> \<not> leaf \<longrightarrow>
             j < length (expr_pool g) \<and> \<not> is_root (expr_pool g ! j) \<and>
             expr_parent (expr_pool g ! j) = i \<and> unat (offset (expr_graph_node_pool g ! j)) = k))"
  unfolding graph_ok_def by (simp add: split_beta prod_eq_iff)

lemma eval_struct_inv: "eval_struct inv_env inv_x"
  by code_simp

lemma sizes_ok_inv: "sizes_ok inv_env inv_x"
  by code_simp

lemma connected_inv: "fanout_ok inv_env inv_x" "leaves_ok inv_env inv_x" "index_ok inv_x" "locks_ok inv_x" "rules_ok inv_x"
  by code_simp+

lemma frames_ok_inv: "frames_ok inv_env inv_x"
  by (simp add: frames_ok_def inv_env_def)

lemma plain_inv: "list_all plain_node (node_pool inv_x)" "\<not> weak_rules_enabled inv_x"
    "keeper_check_fail_policy (policies inv_x) \<le> ERROR_IGNORE"
    "updated_nodes inv_x = []" "updated_nodes_queue inv_x = []" "mk_excl_blocking_set inv_x = []"
  by code_simp+

lemma annotation_ok_inv: "annotation_ok inv_env inv_x"
proof -
  have "list_all (\<lambda>n. \<not> is_min_delay_target n) (node_pool inv_x)" by code_simp
  then show ?thesis by (simp add: annotation_ok_def list_all_length)
qed

lemma shuffle_ok_inv: "shuffle_ok inv_env"
  by (simp add: shuffle_ok_def inv_env_def)

lemma config_ok_inv: "config_ok inv_env inv_x"
  by (simp add: config_ok_def plain_inv frames_ok_inv connected_inv annotation_ok_inv)

lemma start_ok_inv: "start_ok inv_env inv_x"
  by (simp add: start_ok_def random_ok_inv shuffle_ok_inv config_ok_inv eval_struct_inv sizes_ok_inv sched_inv_x plain_inv)

lemma undriven_inv: "undriven_input inv_env inv_x 3"
  by code_simp

section \<open>A run\<close>

text \<open>Clear the state, set the input low, and let the event of the input and then that of the output happen.\<close>

definition inv_run :: "nat \<Rightarrow> prsim_state option" where
  "inv_run m = do {
     s1 \<leftarrow> clear_state False True inv_x;
     (st, s2) \<leftarrow> set_node_time 3 LOGIC_LOW 5 False s1;
     run_steps m 1 inv_env s2 }"

lemma run_steps_reachable:
  assumes "reachable env k s0 s" and "run_steps m (Suc k) env s = Some s'"
  shows "reachable env k s0 s'"
  using assms
proof (induction m arbitrary: s)
  case (Suc m)
  then obtain ret s1 where "step (Suc k) env s = Some (ret, s1)" "run_steps m (Suc k) env s1 = Some s'"
    by (auto split: bind_splits)
  with Suc show ?case using reach_step by blast
qed simp

lemma inv_run_reachable:
  assumes "inv_run m = Some s"
  shows "reachable inv_env 0 inv_x s"
proof -
  from assms obtain s1 st s2 where 1: "clear_state False True inv_x = Some s1"
    "set_node_time 3 LOGIC_LOW 5 False s1 = Some (st, s2)" "run_steps m (Suc 0) inv_env s2 = Some s"
    by (auto simp: inv_run_def split: bind_splits)
  note u = cleared_undriven [OF eval_struct_inv undriven_inv 1(1) sched_inv_x]
  have "current_time inv_x \<le> 5" by (simp add: inv_x_def)
  then have "reachable inv_env 0 inv_x s2" using reach_set [OF reach_clear [OF 1(1)] u(1) _ 1(2)] u(2) by simp
  from run_steps_reachable [OF this 1(3)] show ?thesis .
qed

lemma inv_run_total: "\<exists>s. inv_run m = Some s"
proof -
  from clear_state_run_inv [OF config_ok_inv eval_struct_inv sizes_ok_inv sched_inv_x plain_inv(4-6)]
  obtain s1 where 1: "clear_state False True inv_x = Some s1" "run_inv {} inv_env s1" by blast
  note u = cleared_undriven [OF eval_struct_inv undriven_inv 1(1) sched_inv_x]
  have "current_time s1 \<le> 5" using u(2) by (simp add: inv_x_def)
  from set_node_run_inv [OF 1(2) u(1) this] obtain st s2 where
    2: "set_node_time 3 LOGIC_LOW 5 False s1 = Some (st, s2)" "run_inv {} inv_env s2" by blast
  from run_steps_total [OF random_ok_inv shuffle_ok_inv 2(2), where m = m and k = 0] 1(1) 2(1) show ?thesis
    by (auto simp: inv_run_def)
qed

text \<open>The state after \<open>m\<close> steps.\<close>

definition inv_at :: "nat \<Rightarrow> prsim_state" where
  "inv_at m = the (inv_run m)"

lemma inv_at: "inv_run m = Some (inv_at m)"
  using inv_run_total [of m] by (auto simp: inv_at_def)

lemma inv_at_reachable: "reachable inv_env 0 inv_x (inv_at m)"
  by (rule inv_run_reachable [OF inv_at])

lemma inv_at_run_inv: "run_inv {} inv_env (inv_at m)"
  by (rule reachable_run_inv [OF inv_at_reachable start_ok_inv])

lemma inv_at_eval: "map_option f (inv_run m) = Some x \<Longrightarrow> f (inv_at m) = x"
  by (simp add: inv_at)

lemma inv_run_1:
  "map_option (\<lambda>s. (map node_value (node_pool s), event_queue s, current_time s)) (inv_run 1) =
    Some ([LOGIC_OTHER, LOGIC_OTHER, LOGIC_OTHER, LOGIC_LOW, LOGIC_OTHER], [\<lparr>ep_time = 15, ep_index = 1\<rparr>], 5)"
  by code_simp

lemma inv_run_2:
  "map_option (\<lambda>s. (map node_value (node_pool s), event_queue s, current_time s)) (inv_run 2) =
    Some ([LOGIC_OTHER, LOGIC_OTHER, LOGIC_OTHER, LOGIC_LOW, LOGIC_HIGH], [], 15)"
  by code_simp


lemmas inv_at_1 = inv_at_eval [OF inv_run_1]
lemmas inv_at_2 = inv_at_eval [OF inv_run_2]

lemma inv_at_2_quiet: "no_live_event (inv_at 2)"
  using inv_at_2 by (simp add: no_live_event_def)

lemma inv_at_2_output:
  "4 < length (node_pool (inv_at 2))" "\<not> is_frozen (node_pool (inv_at 2) ! 4)" "node_value (node_pool (inv_at 2) ! 4) = LOGIC_HIGH"
proof -
  have "map_option (\<lambda>s. (length (node_pool s), is_frozen (node_pool s ! 4), node_value (node_pool s ! 4))) (inv_run 2) = Some (5, False, LOGIC_HIGH)"
    by code_simp
  from inv_at_eval [OF this] show "4 < length (node_pool (inv_at 2))" "\<not> is_frozen (node_pool (inv_at 2) ! 4)"
    "node_value (node_pool (inv_at 2) ! 4) = LOGIC_HIGH" by simp_all
qed

lemma undriven_supplies: "undriven_input inv_env inv_x 1" "undriven_input inv_env inv_x 2"
  by code_simp+

lemma inv_cycle: "cycle 3 1 inv_env (inv_at 0) \<noteq> None"
proof -
  have "map_option (\<lambda>s. cycle 3 1 inv_env s = None) (inv_run 0) = Some False" by code_simp
  from inv_at_eval [OF this] show ?thesis by simp
qed

lemma inv_initialize: "initialize_state 3 1 inv_env 1 2 False True inv_x \<noteq> None"
  by code_simp

lemma annotation_ok_a0: "annotation_ok inv_env inv_a0"
  by code_simp

lemma coherent_inv: "eval_inv inv_env (leaf_vals inv_env inv_x) inv_x"
  by code_simp

lemma inv_leaf: "length (expr_pool (process_graph_of inv_x 0)) = 2"
    "length (children (expr_graph_node_pool (process_graph_of inv_x 0) ! 0)) = 1"
    "fst (children (expr_graph_node_pool (process_graph_of inv_x 0) ! 0) ! 0)"
    "leaf_vals inv_env inv_x 0 0 0 = PULL_WEAK"
  by code_simp+

lemma inv_at_1_output:
  "4 < length (node_pool (inv_at 1))" "fanin_pull (get_pull_struct True False (node_pool (inv_at 1) ! 4)) = PULL_ON"
proof -
  have "map_option (\<lambda>s. (length (node_pool s), fanin_pull (get_pull_struct True False (node_pool s ! 4)))) (inv_run 1) = Some (5, PULL_ON)"
    by code_simp
  from inv_at_eval [OF this] show "4 < length (node_pool (inv_at 1))"
    "fanin_pull (get_pull_struct True False (node_pool (inv_at 1) ! 4)) = PULL_ON" by simp_all
qed

text \<open>The input has gone low and the output is up for update.\<close>

definition inv_cause :: event_cause where
  "inv_cause = EventCause_new 3 LOGIC_LOW 0"

definition inv_flush :: prsim_state where
  "inv_flush = inv_x\<lparr>
     node_pool := inv_nodes[3 := (inv_nodes ! 3)\<lparr>node_value := LOGIC_LOW\<rparr>,
       4 := (inv_nodes ! 4)\<lparr>pull_up_normal := inv_fanin\<lparr>fs_countdown := 1, fs_unknowns := 0\<rparr>,
              pull_dn_normal := inv_fanin\<lparr>fs_unknowns := 0\<rparr>\<rparr>],
     updated_nodes := [(4, node_update_info_new)], updated_nodes_queue := [4]\<rparr>"

lemma inv_flush_ready: "flush_ready inv_flush inv_cause 4"
proof -
  have 1: "map_of (updated_nodes inv_flush) 4 = Some node_update_info_new"
    "updated_ok inv_flush 4 node_update_info_new" "pend inv_flush 4 = None"
    "flush_target inv_flush inv_cause 4 node_update_info_new \<noteq> None" by code_simp+
  then have "pending_ok inv_flush 4" by (simp add: pending_ok_def)
  with 1 show ?thesis unfolding flush_ready_def by blast
qed

lemma inv_flush_queue: "updated_nodes_queue inv_flush = [4]"
  by (simp add: inv_flush_def)

lemma inv_flush_ok:
  "sched_inv {} inv_flush" "update_queue_ok inv_flush" "mk_excl_blocking_set inv_flush = []"
  "\<forall>ni \<in> set (updated_nodes_queue inv_flush). flush_ready inv_flush inv_cause ni"
  "flush_value inv_flush inv_cause 4 = Some LOGIC_HIGH" "length (node_pool inv_flush) = 5" "4 \<in> set (updated_nodes_queue inv_flush)"
proof -
  show "\<forall>ni \<in> set (updated_nodes_queue inv_flush). flush_ready inv_flush inv_cause ni"
    using inv_flush_ready by (simp add: inv_flush_queue)
qed code_simp+

text \<open>The two nodes of the inverter as a checked ring.\<close>

lemma rings_ok_inv: "rings_ok inv_x"
proof -
  have "list_all (\<lambda>n. \<not> has_check_exclhi n \<and> \<not> has_check_excllo n) (node_pool inv_x)" by code_simp
  moreover have "check_exhi inv_x = Map.empty" "check_exlo inv_x = Map.empty"
    "check_exhi_ring_pool inv_x = [False]" "check_exlo_ring_pool inv_x = [False]" by (simp_all add: inv_x_def)
  ultimately show ?thesis by (simp add: rings_ok_def ring_table_ok_def list_all_length)
qed

lemma inv_ring:
  "\<exists>s. append_check_exclhi_ring [3, 4] inv_x = Some s \<and> rings_ok s \<and> excl_inv (\<lambda>_. LOGIC_OTHER) s \<and> 3 < length (node_pool s)"
proof -
  have 1: "distinct [3 :: nat, 4]" "\<forall>ni \<in> set [3, 4]. ni < length (node_pool inv_x)" by code_simp+
  have e: "excl_inv (\<lambda>_. LOGIC_OTHER) inv_x" by (rule excl_inv_clear) (simp_all add: inv_x_def)
  from append_check_exclhi_ring_spec [OF rings_ok_inv 1, of "\<lambda>_. LOGIC_OTHER"] e obtain s where
    s: "append_check_exclhi_ring [3, 4] inv_x = Some s" "rings_ok s" "excl_inv (\<lambda>_. LOGIC_OTHER) s" by auto
  have "map_option (\<lambda>s. length (node_pool s)) (append_check_exclhi_ring [3, 4] inv_x) = Some 5" by code_simp
  with s show ?thesis by simp
qed

end
