(* ===== verification/Example_Timing.thy ===== *)
theory Example_Timing
  imports Timing_Ok Example_Inverter
begin

text \<open>
  A flip-flop's view of timing: data on node 3 (local 0), clock on node 4 (local 1), with data stable for 5 before a
  rising clock edge and for 3 after it. The tables of both implementations are those their directives build.
\<close>

definition ff_context :: instance_context where
  "ff_context = \<lparr>ic_type = 0, ic_pid = 0, ic_bmap = [3, 4]\<rparr>"

definition ff_directives :: "timing_directive list" where
  "ff_directives = [Setup True 1 2 5, Hold True 2 1 3]"

definition ff_table :: timing_constraints where
  "ff_table = \<lparr>setup_constraints = [(1, True) \<mapsto> [\<lparr>se_ref_node = 0, se_time = 5\<rparr>]],
     hold_constraints = [0 \<mapsto> [\<lparr>he_ref_node = 1, he_time = 3, he_dir = True\<rparr>]]\<rparr>"

definition ff_checker :: timing_checker where
  "ff_checker = timing_checker_new\<lparr>setup_check_map := [4 \<mapsto> [(0, [1])]], hold_check_map := [3 \<mapsto> [(0, [0])]]\<rparr>"

definition ff_fwd_table :: fwd_constraints where
  "ff_fwd_table = \<lparr>fwd_setup_constraints = [0 \<mapsto> [\<lparr>fh_trig_node = 1, fh_time = 5, fs_dir = True\<rparr>]],
     fwd_hold_constraints = [(1, True) \<mapsto> [\<lparr>fh_trig_node = 0, fh_time = 3\<rparr>]]\<rparr>"

definition ff_fwd_checker :: fwd_checker where
  "ff_fwd_checker = (fwd_checker_new (setup_tex ERROR_FATAL LOGIC_OTHER (0, 0, 0, False, 0)))
     \<lparr>setup_check_map := [3 \<mapsto> [(0, [0])]], hold_check_map := [4 \<mapsto> [(0, [1])]]\<rparr>"

lemma ff_built:
  "map_option (\<lambda>b. (tb_tables b, tb_checker b)) (visit_instance_directives True ff_context ff_directives
     \<lparr>tb_tables = [\<lparr>setup_constraints = Map.empty, hold_constraints = Map.empty\<rparr>], tb_checker = timing_checker_new, tb_nodes = inv_nodes\<rparr>) =
   Some ([ff_table], ff_checker)"
  by (simp add: visit_instance_directives_def ff_directives_def ff_context_def setup_main_def hold_main_def add_global_setup_constraint_def
      add_global_hold_constraint_def lookup_global_bool_id_def lookup_local_bool_id_def nth_opt_def inv_nodes_def push_entry_def
      register_setup_check_def register_hold_check_def register_check_def timing_checker_new_def ff_table_def ff_checker_def)

lemma ff_translate: "translate_to_global_node inv_env inv_x 0 l = (if l = 0 then Some 3 else if l = 1 then Some 4 else None)"
  by (auto simp: translate_to_global_node_def inv_env_def inv_x_def nth_opt_def less_Suc_eq)

lemma ff_process: "process_constraints [t] inv_x 0 = Some t" "fwd_process_constraints [u] inv_x 0 = Some u"
  by (simp_all add: process_constraints_def fwd_process_constraints_def inv_x_def nth_opt_def)

lemma ff_fwd_truncate: "timing_checker.truncate ff_fwd_checker = timing_checker_new\<lparr>setup_check_map := [3 \<mapsto> [(0, [0])]], hold_check_map := [4 \<mapsto> [(0, [1])]]\<rparr>"
  by (simp add: ff_fwd_checker_def fwd_checker_new_def timing_checker.defs timing_checker_new_def)

lemma ff_sets:
  "lb_setup inv_env [ff_table] ff_checker inv_x = {(0, 3, 4, True, 5)}" "lb_hold inv_env [ff_table] ff_checker inv_x = {(0, 4, 3, True, 3)}"
  "fwd_setup inv_env [ff_fwd_table] (timing_checker.truncate ff_fwd_checker) inv_x = {(0, 3, 4, True, 5)}"
  "fwd_hold inv_env [ff_fwd_table] (timing_checker.truncate ff_fwd_checker) inv_x = {(0, 4, 3, True, 3)}"
  unfolding lb_setup_def lb_hold_def fwd_setup_def fwd_hold_def ff_fwd_truncate
  by (auto simp: ff_checker_def timing_checker_new_def ff_process ff_translate ff_table_def ff_fwd_table_def split: if_splits)

lemma ff_same: "same_constraints inv_env [ff_table] ff_checker [ff_fwd_table] (timing_checker.truncate ff_fwd_checker) inv_x"
proof -
  have "lb_setup_ok inv_env [ff_table] ff_checker inv_x" "lb_hold_ok inv_env [ff_table] ff_checker inv_x"
    by (auto simp: lb_setup_ok_def lb_hold_ok_def ff_checker_def timing_checker_new_def ff_process ff_translate ff_table_def inv_x_def [THEN arg_cong, of node_pool] inv_nodes_def split: if_splits)
  moreover have "fwd_setup_ok inv_env [ff_fwd_table] (timing_checker.truncate ff_fwd_checker) inv_x" "fwd_hold_ok inv_env [ff_fwd_table] (timing_checker.truncate ff_fwd_checker) inv_x"
    unfolding ff_fwd_truncate by (auto simp: fwd_setup_ok_def fwd_hold_ok_def timing_checker_new_def ff_process ff_translate ff_fwd_table_def split: if_splits)
  moreover have "ERROR_NONE < ERROR_WARN" "ERROR_NONE < ERROR_BREAK" by code_simp+
  ultimately show ?thesis
    by (simp add: same_constraints_def ff_sets irreflexive_def) (simp add: ff_fwd_truncate ff_checker_def timing_checker_new_def)
qed

lemma ff_fwd_inv: "fwd_inv ff_fwd_checker" "posted ff_fwd_checker = {}"
  using fwd_checker_new_ok [of "setup_tex ERROR_FATAL LOGIC_OTHER (0, 0, 0, False, 0)"]
  by (simp_all add: fwd_inv_def posted_def ff_fwd_checker_def)

end
