(* ===== verification/Prs_Channel.thy ===== *)
theory Prs_Channel
  imports Prs_Sched "HOL-Library.Signed_Division"
begin

unbundle bit_operations_syntax

text \<open>
  Channel environments (src/sim/prsim/Channel-prsim.hh and Channel-prsim.cc, class \<^verbatim>\<open>channel\<close>): groups of nodes
  with a handshake protocol that the simulator drives (sources, sinks) and observes (logging, expected values).

  A channel reads the simulator state only through \<^verbatim>\<open>s.get_node(i).current_value()\<close>, so its operations take a
  \<^emph>\<open>node view\<close>. The source's \<^verbatim>\<open>vector<env_event_type>&\<close> argument, the exceptions that it records and the position in
  the stream of random numbers are threaded through a record together with the channel itself. Messages on the
  terminal are not modelled; the lines written to a log file are.
\<close>

section \<open>Data (Channel-prsim.hh)\<close>

type_synonym node_view = "node_index_type \<Rightarrow> value_enum option"
type_synonym value_type = "64 word"

datatype channel_timing_enum = CHANNEL_TIMING_GLOBAL | CHANNEL_TIMING_AFTER | CHANNEL_TIMING_RANDOM | CHANNEL_TIMING_BINARY

datatype channel_types = CHANNEL_TYPE_1ofN | CHANNEL_TYPE_LEDR | CHANNEL_TYPE_BD_4P | CHANNEL_TYPE_BD_2P
  | CHANNEL_TYPE_CLK_SRC1 | CHANNEL_TYPE_CLK_SRC2 | CHANNEL_TYPE_CLK_1EDGE | CHANNEL_TYPE_CLK_2EDGE
  | CHANNEL_TYPE_SINGLE_TRACK | CHANNEL_TYPE_NULL

abbreviation CHANNEL_ACK_RESET_VALUE :: "16 word" where "CHANNEL_ACK_RESET_VALUE \<equiv> 0x0001"
abbreviation CHANNEL_ACK_ACTIVE_SENSE :: "16 word" where "CHANNEL_ACK_ACTIVE_SENSE \<equiv> 0x0002"
abbreviation CHANNEL_VALID_ACTIVE_SENSE :: "16 word" where "CHANNEL_VALID_ACTIVE_SENSE \<equiv> 0x0004"
abbreviation CHANNEL_DATA_ACTIVE_SENSE :: "16 word" where "CHANNEL_DATA_ACTIVE_SENSE \<equiv> 0x0008"
abbreviation CHANNEL_SOURCING :: "16 word" where "CHANNEL_SOURCING \<equiv> 0x0010"
abbreviation CHANNEL_VALUE_LOOP :: "16 word" where "CHANNEL_VALUE_LOOP \<equiv> 0x0020"
abbreviation CHANNEL_SINKING :: "16 word" where "CHANNEL_SINKING \<equiv> 0x0040"
abbreviation CHANNEL_EXPECTING :: "16 word" where "CHANNEL_EXPECTING \<equiv> 0x0080"
abbreviation CHANNEL_STOPPED :: "16 word" where "CHANNEL_STOPPED \<equiv> 0x0100"
abbreviation CHANNEL_IGNORED :: "16 word" where "CHANNEL_IGNORED \<equiv> 0x0200"
abbreviation CHANNEL_RANDOM :: "16 word" where "CHANNEL_RANDOM \<equiv> 0x0400"
abbreviation CHANNEL_WATCHED :: "16 word" where "CHANNEL_WATCHED \<equiv> 0x0800"
abbreviation CHANNEL_STOP_ON_EMPTY :: "16 word" where "CHANNEL_STOP_ON_EMPTY \<equiv> 0x1000"
abbreviation CHANNEL_SIGNED :: "16 word" where "CHANNEL_SIGNED \<equiv> 0x2000"
abbreviation CHANNEL_DEFAULT_FLAGS :: "16 word" where "CHANNEL_DEFAULT_FLAGS \<equiv> 0"

text \<open>
  The two-dimensional array \<^verbatim>\<open>data\<close> is the list of its bundles, each a list of rails, in the order of the packed
  array; \<open>ch_radix\<close> is its second size. The log is the name of the open file with the values written so far
  (None for the letter X). A pair in \<open>ch_values\<close> has the don't-care mark second.
\<close>

record channel =
  ch_name :: string
  ack_signal :: node_index_type
  valid_signal :: node_index_type
  ch_timing_mode :: channel_timing_enum
  ch_after_min :: time_type
  ch_after_max :: time_type
  ch_probability :: time_type
  ch_type :: channel_types
  ch_flags :: "16 word"
  counter_state :: "8 word"
  x_counter :: "8 word"
  ch_data :: "node_index_type list list"
  ch_radix :: nat
  inject_expect_file :: string
  dumplog :: "(string \<times> value_type option list) option"
  ch_values :: "(value_type \<times> bool) list"
  value_index :: nat
  iteration :: nat
  node_to_rail :: "node_index_type \<rightharpoonup> nat \<times> nat"

text \<open>A value mismatch that is recorded or reported, with the policy that the caller applies to it.\<close>

record channel_exception =
  ce_chan :: string
  ce_index :: nat
  ce_iteration :: nat
  ce_expect :: value_type
  ce_got :: value_type
  ce_got_x :: bool

text \<open>
  What the C library supplies beyond the random delays: \<^verbatim>\<open>rand48<value_type>\<close>. The field \<^verbatim>\<open>delay\<close> of an event with
  global timing is not initialized in the source; what it holds is an arbitrary number of the environment.
\<close>

record chan_env = sim_env +
  rand48_value :: "nat \<Rightarrow> value_type"
  uninitialized_delay :: "nat \<Rightarrow> time_type"

record chan_run =
  cr_chan :: channel
  cr_events :: "env_event list"
  cr_exceptions :: "channel_exception list"
  cr_pos :: nat

definition channel_new :: "time_type \<Rightarrow> channel" where
  "channel_new default_unspecified_delay =
     \<lparr>ch_name = '''', ack_signal = INVALID_NODE_INDEX, valid_signal = INVALID_NODE_INDEX,
      ch_timing_mode = CHANNEL_TIMING_GLOBAL, ch_after_min = default_unspecified_delay,
      ch_after_max = default_unspecified_delay, ch_probability = 1 / 2, ch_type = CHANNEL_TYPE_1ofN,
      ch_flags = CHANNEL_DEFAULT_FLAGS, counter_state = 0, x_counter = 0, ch_data = [], ch_radix = 0,
      inject_expect_file = '''', dumplog = None, ch_values = [], value_index = 0, iteration = 0,
      node_to_rail = Map.empty\<rparr>"

section \<open>Accessors\<close>

definition bundles :: "channel \<Rightarrow> nat" where "bundles c = length (ch_data c)"
definition all_rails :: "channel \<Rightarrow> node_index_type list" where "all_rails c = concat (ch_data c)"
definition have_value :: "channel \<Rightarrow> bool" where "have_value c \<longleftrightarrow> value_index c < length (ch_values c)"
definition current_value :: "channel \<Rightarrow> (value_type \<times> bool) option" where
  "current_value c = nth_opt (ch_values c) (value_index c)"

definition flag_set :: "16 word \<Rightarrow> channel \<Rightarrow> bool" where
  "flag_set m c \<longleftrightarrow> ch_flags c AND m \<noteq> 0"
definition set_flag :: "16 word \<Rightarrow> bool \<Rightarrow> channel \<Rightarrow> channel" where
  "set_flag m b c = c\<lparr>ch_flags := (if b then ch_flags c OR m else ch_flags c AND NOT m)\<rparr>"

definition set_ack_active :: "bool \<Rightarrow> channel \<Rightarrow> channel" where "set_ack_active = set_flag CHANNEL_ACK_ACTIVE_SENSE"
definition get_ack_active :: "channel \<Rightarrow> bool" where "get_ack_active = flag_set CHANNEL_ACK_ACTIVE_SENSE"
definition set_ack_init :: "bool \<Rightarrow> channel \<Rightarrow> channel" where "set_ack_init = set_flag CHANNEL_ACK_RESET_VALUE"
definition get_ack_init :: "channel \<Rightarrow> bool" where "get_ack_init = flag_set CHANNEL_ACK_RESET_VALUE"
definition set_valid_sense :: "bool \<Rightarrow> channel \<Rightarrow> channel" where "set_valid_sense = set_flag CHANNEL_VALID_ACTIVE_SENSE"
definition get_valid_sense :: "channel \<Rightarrow> bool" where "get_valid_sense = flag_set CHANNEL_VALID_ACTIVE_SENSE"
definition get_data_sense :: "channel \<Rightarrow> bool" where "get_data_sense = flag_set CHANNEL_DATA_ACTIVE_SENSE"
definition set_data_sense :: "bool \<Rightarrow> channel \<Rightarrow> channel" where "set_data_sense = set_flag CHANNEL_DATA_ACTIVE_SENSE"

text \<open>
  \<^verbatim>\<open>data_init\<close> is the acknowledge sense under another name, \<^verbatim>\<open>repeat_init\<close>, \<^verbatim>\<open>req_init\<close>, \<^verbatim>\<open>clock_sense\<close> and
  \<^verbatim>\<open>clk_init\<close> are the validity sense, \<^verbatim>\<open>repeat_rail\<close> and \<^verbatim>\<open>clock_signal\<close> are the validity signal.
\<close>

abbreviation get_data_init :: "channel \<Rightarrow> bool" where "get_data_init \<equiv> get_ack_active"
abbreviation get_repeat_init :: "channel \<Rightarrow> bool" where "get_repeat_init \<equiv> get_valid_sense"
abbreviation get_req_init :: "channel \<Rightarrow> bool" where "get_req_init \<equiv> get_valid_sense"
abbreviation repeat_rail :: "channel \<Rightarrow> node_index_type" where "repeat_rail \<equiv> valid_signal"
abbreviation clock_signal :: "channel \<Rightarrow> node_index_type" where "clock_signal \<equiv> valid_signal"

definition is_sourcing :: "channel \<Rightarrow> bool" where "is_sourcing = flag_set CHANNEL_SOURCING"
definition is_sinking :: "channel \<Rightarrow> bool" where "is_sinking = flag_set CHANNEL_SINKING"
definition is_expecting :: "channel \<Rightarrow> bool" where "is_expecting = flag_set CHANNEL_EXPECTING"
definition is_random :: "channel \<Rightarrow> bool" where "is_random c \<longleftrightarrow> flag_set CHANNEL_RANDOM c \<and> is_sourcing c"
definition is_looping :: "channel \<Rightarrow> bool" where
  "is_looping c \<longleftrightarrow> (is_sourcing c \<or> is_expecting c) \<and> flag_set CHANNEL_VALUE_LOOP c"
definition ch_stopped :: "channel \<Rightarrow> bool" where "ch_stopped = flag_set CHANNEL_STOPPED"
definition ch_stop :: "channel \<Rightarrow> channel" where "ch_stop = set_flag CHANNEL_STOPPED True"
definition watched :: "channel \<Rightarrow> bool" where "watched = flag_set CHANNEL_WATCHED"
definition watch :: "channel \<Rightarrow> channel" where "watch = set_flag CHANNEL_WATCHED True"
definition unwatch :: "channel \<Rightarrow> channel" where "unwatch = set_flag CHANNEL_WATCHED False"
definition ignored :: "channel \<Rightarrow> bool" where "ignored = flag_set CHANNEL_IGNORED"
definition ignore :: "channel \<Rightarrow> channel" where "ignore = set_flag CHANNEL_IGNORED True"
definition heed :: "channel \<Rightarrow> channel" where "heed = set_flag CHANNEL_IGNORED False"
definition set_stop_on_empty :: "bool \<Rightarrow> channel \<Rightarrow> channel" where "set_stop_on_empty = set_flag CHANNEL_STOP_ON_EMPTY"
definition stopping_on_empty :: "channel \<Rightarrow> bool" where "stopping_on_empty = flag_set CHANNEL_STOP_ON_EMPTY"
definition is_signed :: "channel \<Rightarrow> bool" where "is_signed = flag_set CHANNEL_SIGNED"
definition set_unsigned :: "channel \<Rightarrow> channel" where "set_unsigned = set_flag CHANNEL_SIGNED False"

definition four_phase :: "channel \<Rightarrow> bool" where
  "four_phase c \<longleftrightarrow> (case ch_type c of CHANNEL_TYPE_1ofN \<Rightarrow> True | CHANNEL_TYPE_BD_4P \<Rightarrow> True | _ \<Rightarrow> False)"
definition two_phase :: "channel \<Rightarrow> bool" where "two_phase c \<longleftrightarrow> \<not> four_phase c"
definition is_clocked :: "channel \<Rightarrow> bool" where
  "is_clocked c \<longleftrightarrow> ch_type c = CHANNEL_TYPE_CLK_SRC1 \<or> ch_type c = CHANNEL_TYPE_CLK_SRC2 \<or>
     ch_type c = CHANNEL_TYPE_CLK_1EDGE \<or> ch_type c = CHANNEL_TYPE_CLK_2EDGE"
definition is_clock_source :: "channel \<Rightarrow> bool" where
  "is_clock_source c \<longleftrightarrow> ch_type c = CHANNEL_TYPE_CLK_SRC1 \<or> ch_type c = CHANNEL_TYPE_CLK_SRC2"
definition data_is_bundled :: "channel \<Rightarrow> bool" where
  "data_is_bundled c \<longleftrightarrow> ch_type c = CHANNEL_TYPE_BD_4P \<or> ch_type c = CHANNEL_TYPE_BD_2P"
definition can_be_signed :: "channel \<Rightarrow> bool" where
  "can_be_signed c \<longleftrightarrow> data_is_bundled c \<and> ch_radix c \<noteq> 0 \<or> ch_radix c = 2 \<and> bundles c > 1"
definition set_signed :: "channel \<Rightarrow> channel" where
  "set_signed c = (if can_be_signed c then set_flag CHANNEL_SIGNED True c else c)"
definition can_source :: "channel \<Rightarrow> bool" where
  "can_source c \<longleftrightarrow> ack_signal c \<noteq> INVALID_NODE_INDEX \<or> ch_type c = CHANNEL_TYPE_LEDR \<or>
     ch_type c = CHANNEL_TYPE_CLK_SRC1 \<or> ch_type c = CHANNEL_TYPE_CLK_SRC2 \<or>
     ch_type c = CHANNEL_TYPE_CLK_1EDGE \<or> ch_type c = CHANNEL_TYPE_CLK_2EDGE"

definition ledr_empty_parity :: "channel \<Rightarrow> bool option" where
  "ledr_empty_parity c = do {
     INVARIANT (ch_type c = CHANNEL_TYPE_LEDR);
     Some ((get_data_init c \<noteq> get_repeat_init c) \<noteq> get_ack_init c) }"
definition ledr_full_parity :: "channel \<Rightarrow> bool option" where
  "ledr_full_parity c = map_option Not (ledr_empty_parity c)"
definition bd2p_empty_parity :: "channel \<Rightarrow> bool option" where
  "bd2p_empty_parity c = do { INVARIANT (ch_type c = CHANNEL_TYPE_BD_2P); Some (get_req_init c \<noteq> get_ack_init c) }"
definition ledr_data_rail :: "channel \<Rightarrow> node_index_type option" where
  "ledr_data_rail c = nth_opt (all_rails c) 0"

definition get_all_nodes :: "channel \<Rightarrow> node_index_type list" where
  "get_all_nodes c = (if ack_signal c \<noteq> INVALID_NODE_INDEX then [ack_signal c] else []) @
     (if valid_signal c \<noteq> INVALID_NODE_INDEX then [valid_signal c] else []) @ all_rails c"

definition alias_data_rails :: "node_index_type \<Rightarrow> channel \<Rightarrow> bool" where
  "alias_data_rails ni c \<longleftrightarrow> ni \<in> set (all_rails c)"

definition set_ack_signal :: "node_index_type \<Rightarrow> channel \<Rightarrow> bool \<times> channel" where
  "set_ack_signal ai c = (alias_data_rails ai c, c\<lparr>ack_signal := ai\<rparr>)"
definition set_valid_signal :: "node_index_type \<Rightarrow> channel \<Rightarrow> bool \<times> channel" where
  "set_valid_signal vi c = (alias_data_rails vi c, c\<lparr>valid_signal := vi\<rparr>)"

section \<open>Events (env\_event\_type)\<close>

definition ENV_EVENT :: "chan_env \<Rightarrow> channel \<Rightarrow> node_index_type \<Rightarrow> value_enum \<Rightarrow> nat \<Rightarrow> env_event \<times> nat" where
  "ENV_EVENT env c ni v k = (case ch_timing_mode c of
     CHANNEL_TIMING_GLOBAL \<Rightarrow>
       (\<lparr>ee_node = ni, ee_value = v, ee_delay = uninitialized_delay env k, ee_use_global = True\<rparr>, k + 1)
   | CHANNEL_TIMING_AFTER \<Rightarrow>
       (\<lparr>ee_node = ni, ee_value = v, ee_delay = ch_after_min c, ee_use_global = False\<rparr>, k)
   | CHANNEL_TIMING_RANDOM \<Rightarrow>
       (let min_val = ch_after_min c; max_val = ch_after_max c;
            have_min = \<not> is_zero min_val; have_max = \<not> is_zero max_val;
            u = uniform_rand env k;
            d = (if have_max then
                   (if have_min then min_val + (max_val - min_val) * u else max_val * u)
                 else 2048 * exponential_rand env k + (if have_min then min_val else 0))
        in (\<lparr>ee_node = ni, ee_value = v, ee_delay = d, ee_use_global = False\<rparr>, k + 1))
   | CHANNEL_TIMING_BINARY \<Rightarrow>
       (\<lparr>ee_node = ni, ee_value = v,
         ee_delay = (if uniform_rand env k < ch_probability c then ch_after_min c else ch_after_max c),
         ee_use_global = False\<rparr>, k + 1))"

definition push_event :: "chan_env \<Rightarrow> node_index_type \<Rightarrow> value_enum \<Rightarrow> chan_run \<Rightarrow> chan_run" where
  "push_event env ni v r = (case ENV_EVENT env (cr_chan r) ni v (cr_pos r) of
     (e, k) \<Rightarrow> r\<lparr>cr_events := cr_events r @ [e], cr_pos := k\<rparr>)"

text \<open>\<^verbatim>\<open>transform(data.begin(), data.end(), back_inserter(events), __node_setter(v))\<close>\<close>

definition push_all_rails :: "chan_env \<Rightarrow> node_index_type list \<Rightarrow> value_enum \<Rightarrow> chan_run \<Rightarrow> chan_run" where
  "push_all_rails env ns v r = fold (\<lambda>ni. push_event env ni v) ns r"

definition toggle_node :: "chan_env \<Rightarrow> node_view \<Rightarrow> node_index_type \<Rightarrow> chan_run \<Rightarrow> chan_run option" where
  "toggle_node env vw ni r = do { rv \<leftarrow> vw ni; Some (push_event env ni (invert_value rv) r) }"

definition mod_chan :: "(channel \<Rightarrow> channel) \<Rightarrow> chan_run \<Rightarrow> chan_run" where
  "mod_chan f r = r\<lparr>cr_chan := f (cr_chan r)\<rparr>"

abbreviation rail_level :: "bool \<Rightarrow> value_enum" where
  "rail_level b \<equiv> (if b then LOGIC_HIGH else LOGIC_LOW)"

section \<open>Data rails\<close>

definition reset_all_data_rails :: "chan_env \<Rightarrow> chan_run \<Rightarrow> chan_run" where
  "reset_all_data_rails env r = (let c = cr_chan r in case ch_type c of
     CHANNEL_TYPE_SINGLE_TRACK \<Rightarrow> push_all_rails env (all_rails c) (rail_level (get_data_sense c)) r
   | CHANNEL_TYPE_1ofN \<Rightarrow> push_all_rails env (all_rails c) (rail_level (get_data_sense c)) r
   | _ \<Rightarrow> r)"

definition reset_bundled_data_rails :: "chan_env \<Rightarrow> chan_run \<Rightarrow> chan_run" where
  "reset_bundled_data_rails env r = (let c = cr_chan r in
     if ch_radix c \<noteq> 0 then (case ch_type c of
       CHANNEL_TYPE_CLK_1EDGE \<Rightarrow> push_all_rails env (all_rails c) (rail_level (get_data_sense c)) r
     | CHANNEL_TYPE_CLK_2EDGE \<Rightarrow> push_all_rails env (all_rails c) (rail_level (get_data_sense c)) r
     | CHANNEL_TYPE_BD_2P \<Rightarrow> push_all_rails env (all_rails c) (rail_level (get_data_sense c)) r
     | CHANNEL_TYPE_BD_4P \<Rightarrow> push_all_rails env (all_rails c) (rail_level (get_data_sense c)) r
     | _ \<Rightarrow> r)
     else r)"

definition X_all_data_rails :: "chan_env \<Rightarrow> chan_run \<Rightarrow> chan_run option" where
  "X_all_data_rails env r = (let c = cr_chan r in case ch_type c of
     CHANNEL_TYPE_LEDR \<Rightarrow> do {
       dn \<leftarrow> ledr_data_rail c;
       Some (push_event env (repeat_rail c) LOGIC_OTHER (push_event env dn LOGIC_OTHER r)) }
   | CHANNEL_TYPE_CLK_SRC1 \<Rightarrow> Some r
   | CHANNEL_TYPE_CLK_SRC2 \<Rightarrow> Some r
   | CHANNEL_TYPE_NULL \<Rightarrow> None
   | _ \<Rightarrow> Some (push_all_rails env (all_rails c) LOGIC_OTHER r))"

definition initialize_all_data_rails :: "chan_env \<Rightarrow> chan_run \<Rightarrow> chan_run option" where
  "initialize_all_data_rails env r = (let c = cr_chan r in case ch_type c of
     CHANNEL_TYPE_SINGLE_TRACK \<Rightarrow> Some (reset_bundled_data_rails env r)
   | CHANNEL_TYPE_CLK_1EDGE \<Rightarrow> Some (reset_bundled_data_rails env r)
   | CHANNEL_TYPE_CLK_2EDGE \<Rightarrow> Some (reset_bundled_data_rails env r)
   | CHANNEL_TYPE_BD_2P \<Rightarrow> Some (reset_bundled_data_rails env r)
   | CHANNEL_TYPE_BD_4P \<Rightarrow> Some (reset_bundled_data_rails env r)
   | CHANNEL_TYPE_1ofN \<Rightarrow> Some (reset_all_data_rails env r)
   | CHANNEL_TYPE_LEDR \<Rightarrow> do {
       dn \<leftarrow> ledr_data_rail c;
       Some (push_event env (repeat_rail c) (rail_level (get_repeat_init c))
              (push_event env dn (rail_level (get_data_init c)) r)) }
   | CHANNEL_TYPE_CLK_SRC1 \<Rightarrow> Some r
   | CHANNEL_TYPE_CLK_SRC2 \<Rightarrow> Some r
   | CHANNEL_TYPE_NULL \<Rightarrow> None)"

definition advance_value :: "chan_env \<Rightarrow> chan_run \<Rightarrow> chan_run option" where
  "advance_value env r = (let c = cr_chan r in
     if is_random c then do {
       INVARIANT (value_index c = 0);
       INVARIANT (length (ch_values c) = 1);
       Some (r\<lparr>cr_chan := c\<lparr>ch_values := [(rand48_value env (cr_pos r), snd (hd (ch_values c)))]\<rparr>, cr_pos := cr_pos r + 1\<rparr>) }
     else do {
       let i = value_index c + 1;
       let c1 = (if i \<ge> length (ch_values c) then
                   (if is_looping c then c\<lparr>value_index := 0, iteration := iteration c + 1\<rparr>
                    else c\<lparr>ch_values := [], value_index := 0, inject_expect_file := ''''\<rparr>)
                 else c\<lparr>value_index := i\<rparr>);
       if have_value c1 \<and> snd (ch_values c1 ! value_index c1)
       then Some (r\<lparr>cr_chan := c1\<lparr>ch_values := (ch_values c1)[value_index c1 := (rand48_value env (cr_pos r), True)]\<rparr>,
                    cr_pos := cr_pos r + 1\<rparr>)
       else Some (r\<lparr>cr_chan := c1\<rparr>) })"

text \<open>The loop over the bundles for radix 2: the two rails of a bundle get a bit and its complement.\<close>

fun set_binary_rails :: "chan_env \<Rightarrow> bool \<Rightarrow> node_index_type list list \<Rightarrow> value_type \<Rightarrow> chan_run \<Rightarrow> chan_run option" where
  "set_binary_rails env sense [] v r = Some r"
| "set_binary_rails env sense (row # rows) v r = do {
     ni0 \<leftarrow> nth_opt row 0;
     ni1 \<leftarrow> nth_opt row 1;
     let b = rail_level ((v AND 1 \<noteq> 0) \<noteq> sense);
     set_binary_rails env sense rows (drop_bit 1 v) (push_event env ni1 b (push_event env ni0 (invert_value b) r)) }"

text \<open>For other radices: \<^verbatim>\<open>div\<close> divides signed numbers and rounds towards zero, \<^verbatim>\<open>size_t(qr.rem)\<close> is huge when negative.\<close>

fun set_row :: "chan_env \<Rightarrow> bool \<Rightarrow> value_type \<Rightarrow> nat \<Rightarrow> node_index_type list \<Rightarrow> chan_run \<Rightarrow> chan_run" where
  "set_row env sense rm k [] r = r"
| "set_row env sense rm k (ni # row) r =
     set_row env sense rm (Suc k) row (push_event env ni (rail_level ((of_nat k = rm) \<noteq> sense)) r)"

fun set_radix_rails :: "chan_env \<Rightarrow> bool \<Rightarrow> value_type \<Rightarrow> node_index_type list list \<Rightarrow> value_type \<Rightarrow> chan_run \<Rightarrow> chan_run option" where
  "set_radix_rails env sense rdx [] q r = Some r"
| "set_radix_rails env sense rdx (row # rows) q r = do {
     INVARIANT (rdx \<noteq> 0);
     set_radix_rails env sense rdx rows (word_of_int (sint q sdiv sint rdx))
       (set_row env sense (word_of_int (sint q smod sint rdx)) 0 row r) }"

fun set_bus_rails :: "chan_env \<Rightarrow> bool \<Rightarrow> node_index_type list \<Rightarrow> value_type \<Rightarrow> chan_run \<Rightarrow> chan_run" where
  "set_bus_rails env sense [] v r = r"
| "set_bus_rails env sense (ni # row) v r =
     set_bus_rails env sense row (drop_bit 1 v) (push_event env ni (rail_level ((v AND 1 \<noteq> 0) \<noteq> sense)) r)"

definition set_bundled_rails :: "chan_env \<Rightarrow> value_type \<Rightarrow> chan_run \<Rightarrow> chan_run option" where
  "set_bundled_rails env v r = (let c = cr_chan r in
     if ch_radix c = 0 then Some r
     else do { row \<leftarrow> nth_opt (ch_data c) 0; Some (set_bus_rails env (get_data_sense c) row v r) })"

definition set_ledr_rails :: "chan_env \<Rightarrow> node_view \<Rightarrow> value_type \<Rightarrow> chan_run \<Rightarrow> chan_run option" where
  "set_ledr_rails env vw w r = (let c = cr_chan r in do {
     dn \<leftarrow> ledr_data_rail c;
     let v = ((w AND 1 \<noteq> 0) \<noteq> get_data_sense c);
     cur \<leftarrow> vw dn;
     case cur of
       LOGIC_LOW \<Rightarrow> if v then Some (push_event env dn LOGIC_HIGH r) else toggle_node env vw (repeat_rail c) r
     | LOGIC_HIGH \<Rightarrow> if v then toggle_node env vw (repeat_rail c) r else Some (push_event env dn LOGIC_LOW r)
     | LOGIC_OTHER \<Rightarrow> Some r })"

definition set_all_data_rails :: "chan_env \<Rightarrow> node_view \<Rightarrow> chan_run \<Rightarrow> chan_run option" where
  "set_all_data_rails env vw r = (let c = cr_chan r in
     case current_value c of
       Some (v, _) \<Rightarrow> (case ch_type c of
         CHANNEL_TYPE_SINGLE_TRACK \<Rightarrow>
           if ch_radix c = 2 then set_binary_rails env (get_data_sense c) (ch_data c) v r
           else set_radix_rails env (get_data_sense c) (of_nat (ch_radix c)) (ch_data c) v r
       | CHANNEL_TYPE_1ofN \<Rightarrow>
           if ch_radix c = 2 then set_binary_rails env (get_data_sense c) (ch_data c) v r
           else set_radix_rails env (get_data_sense c) (of_nat (ch_radix c)) (ch_data c) v r
       | CHANNEL_TYPE_CLK_1EDGE \<Rightarrow> set_bundled_rails env v r
       | CHANNEL_TYPE_CLK_2EDGE \<Rightarrow> set_bundled_rails env v r
       | CHANNEL_TYPE_BD_2P \<Rightarrow> set_bundled_rails env v r
       | CHANNEL_TYPE_BD_4P \<Rightarrow> set_bundled_rails env v r
       | CHANNEL_TYPE_LEDR \<Rightarrow> set_ledr_rails env vw v r
       | _ \<Rightarrow> None)
     | None \<Rightarrow> do {
         INVARIANT (\<not> is_random c);
         Some (mod_chan (\<lambda>c. (set_flag CHANNEL_SOURCING False c)\<lparr>ch_values := []\<rparr>) (reset_all_data_rails env r)) })"

section \<open>Reading the rails\<close>

definition rail_active :: "bool \<Rightarrow> value_enum \<Rightarrow> bool" where
  "rail_active sense v \<longleftrightarrow> v = (if sense then LOGIC_LOW else LOGIC_HIGH)"

definition data_is_valid :: "channel \<Rightarrow> bool" where
  "data_is_valid c \<longleftrightarrow> x_counter c = 0 \<and> (case ch_type c of
     CHANNEL_TYPE_1ofN \<Rightarrow> unat (counter_state c) = bundles c
   | CHANNEL_TYPE_CLK_1EDGE \<Rightarrow> True | CHANNEL_TYPE_CLK_2EDGE \<Rightarrow> True
   | CHANNEL_TYPE_BD_2P \<Rightarrow> True | CHANNEL_TYPE_BD_4P \<Rightarrow> True | CHANNEL_TYPE_LEDR \<Rightarrow> True
   | _ \<Rightarrow> False)"

text \<open>The scan of one bundle: the position of its only active rail; X and a second active rail abort.\<close>

fun scan_bundle :: "bool \<Rightarrow> node_view \<Rightarrow> node_index_type list \<Rightarrow> nat \<Rightarrow> nat option \<Rightarrow> nat option option" where
  "scan_bundle sense vw [] k hi = Some hi"
| "scan_bundle sense vw (ni # row) k hi = do {
     v \<leftarrow> vw ni;
     INVARIANT (v \<noteq> LOGIC_OTHER);
     if rail_active sense v then do { INVARIANT (hi = None); scan_bundle sense vw row (Suc k) (Some k) }
     else scan_bundle sense vw row (Suc k) hi }"

fun read_bundles :: "bool \<Rightarrow> node_view \<Rightarrow> nat \<Rightarrow> node_index_type list list \<Rightarrow> value_type \<Rightarrow> value_type option" where
  "read_bundles sense vw rdx [] ret = Some ret"
| "read_bundles sense vw rdx (row # rows) ret = do {
     hi \<leftarrow> scan_bundle sense vw row 0 None;
     h \<leftarrow> hi;
     read_bundles sense vw rdx rows (ret * of_nat rdx + of_nat h) }"

fun read_bus :: "bool \<Rightarrow> node_view \<Rightarrow> node_index_type list \<Rightarrow> value_type \<Rightarrow> value_type option" where
  "read_bus sense vw [] ret = Some ret"
| "read_bus sense vw (ni # row) ret = do {
     v \<leftarrow> vw ni;
     INVARIANT (v \<noteq> LOGIC_OTHER);
     read_bus sense vw row (push_bit 1 ret OR (if rail_active sense v then 1 else 0)) }"

text \<open>\<^verbatim>\<open>1 << k\<close> is an \<^verbatim>\<open>int\<close>, undefined from 32 on, and sign-extended when combined with the 64-bit value.\<close>

definition int_bit :: "nat \<Rightarrow> value_type option" where
  "int_bit k = (if k < 32 then Some (signed (push_bit k (1 :: 32 word))) else None)"

definition sign_extend :: "nat \<Rightarrow> value_type \<Rightarrow> value_type option" where
  "sign_extend width ret = do {
     INVARIANT (0 < width);
     b \<leftarrow> int_bit (width - 1);
     Some (if ret AND b \<noteq> 0 then ret OR push_bit width (- 1) else ret) }"

definition data_rails_value :: "node_view \<Rightarrow> channel \<Rightarrow> value_type option" where
  "data_rails_value vw c =
     (if ch_radix c = 0 then Some 0
      else if is_clock_source c then Some 0
      else do {
        ret \<leftarrow> (case ch_type c of
            CHANNEL_TYPE_SINGLE_TRACK \<Rightarrow> read_bundles (get_data_sense c) vw (ch_radix c) (rev (ch_data c)) 0
          | CHANNEL_TYPE_1ofN \<Rightarrow> read_bundles (get_data_sense c) vw (ch_radix c) (rev (ch_data c)) 0
          | CHANNEL_TYPE_CLK_1EDGE \<Rightarrow> do { row \<leftarrow> nth_opt (ch_data c) 0; read_bus (get_data_sense c) vw (rev row) 0 }
          | CHANNEL_TYPE_CLK_2EDGE \<Rightarrow> do { row \<leftarrow> nth_opt (ch_data c) 0; read_bus (get_data_sense c) vw (rev row) 0 }
          | CHANNEL_TYPE_BD_2P \<Rightarrow> do { row \<leftarrow> nth_opt (ch_data c) 0; read_bus (get_data_sense c) vw (rev row) 0 }
          | CHANNEL_TYPE_BD_4P \<Rightarrow> do { row \<leftarrow> nth_opt (ch_data c) 0; read_bus (get_data_sense c) vw (rev row) 0 }
          | CHANNEL_TYPE_LEDR \<Rightarrow> do {
              dn \<leftarrow> ledr_data_rail c;
              v \<leftarrow> vw dn;
              Some (if (v = LOGIC_LOW) \<noteq> get_data_sense c then 0 else 1) }
          | _ \<Rightarrow> None);
        if is_signed c then do {
          INVARIANT (ch_radix c = 2 \<or> data_is_bundled c);
          sign_extend (if data_is_bundled c then ch_radix c else bundles c) ret }
        else Some ret })"

section \<open>Counters of active and unknown rails\<close>

definition count_rail :: "bool \<Rightarrow> value_enum \<Rightarrow> channel \<Rightarrow> channel" where
  "count_rail sense v c = (case v of
     LOGIC_HIGH \<Rightarrow> if \<not> sense then c\<lparr>counter_state := counter_state c + 1\<rparr> else c
   | LOGIC_LOW \<Rightarrow> if sense then c\<lparr>counter_state := counter_state c + 1\<rparr> else c
   | LOGIC_OTHER \<Rightarrow> c\<lparr>x_counter := x_counter c + 1\<rparr>)"

fun count_rails :: "bool \<Rightarrow> node_view \<Rightarrow> node_index_type list \<Rightarrow> channel \<Rightarrow> channel option" where
  "count_rails sense vw [] c = Some c"
| "count_rails sense vw (ni # ns) c = do { v \<leftarrow> vw ni; count_rails sense vw ns (count_rail sense v c) }"

text \<open>Too many active rails of a 1ofN channel end the program (\<^verbatim>\<open>THROW_EXIT\<close>).\<close>

definition initialize_data_counter :: "node_view \<Rightarrow> channel \<Rightarrow> channel option" where
  "initialize_data_counter vw c = (let c0 = c\<lparr>counter_state := 0, x_counter := 0\<rparr> in case ch_type c of
     CHANNEL_TYPE_SINGLE_TRACK \<Rightarrow> do {
       c1 \<leftarrow> count_rails (get_data_sense c) vw (all_rails c) c0;
       INVARIANT (unat (counter_state c1) \<le> bundles c); Some c1 }
   | CHANNEL_TYPE_1ofN \<Rightarrow> do {
       c1 \<leftarrow> count_rails (get_data_sense c) vw (all_rails c) c0;
       INVARIANT (unat (counter_state c1) \<le> bundles c); Some c1 }
   | CHANNEL_TYPE_CLK_1EDGE \<Rightarrow> count_rails (get_data_sense c) vw (all_rails c) c0
   | CHANNEL_TYPE_CLK_2EDGE \<Rightarrow> count_rails (get_data_sense c) vw (all_rails c) c0
   | CHANNEL_TYPE_BD_2P \<Rightarrow> count_rails (get_data_sense c) vw (all_rails c) c0
   | CHANNEL_TYPE_BD_4P \<Rightarrow> count_rails (get_data_sense c) vw (all_rails c) c0
   | CHANNEL_TYPE_LEDR \<Rightarrow> do {
       dn \<leftarrow> ledr_data_rail c;
       d \<leftarrow> vw dn;
       rr \<leftarrow> vw (repeat_rail c);
       Some (c0\<lparr>x_counter := of_bool (d = LOGIC_OTHER) + of_bool (rr = LOGIC_OTHER)\<rparr>) }
   | _ \<Rightarrow> Some c0)"

definition uncount_rail :: "value_enum \<Rightarrow> channel \<Rightarrow> channel option" where
  "uncount_rail prev c = (case prev of
     LOGIC_LOW \<Rightarrow> if get_data_sense c
       then do { INVARIANT (counter_state c \<noteq> 0); Some (c\<lparr>counter_state := counter_state c - 1\<rparr>) } else Some c
   | LOGIC_HIGH \<Rightarrow> if \<not> get_data_sense c
       then do { INVARIANT (counter_state c \<noteq> 0); Some (c\<lparr>counter_state := counter_state c - 1\<rparr>) } else Some c
   | LOGIC_OTHER \<Rightarrow> do { INVARIANT (x_counter c \<noteq> 0); Some (c\<lparr>x_counter := x_counter c - 1\<rparr>) })"

definition update_bd_data_counter :: "value_enum \<Rightarrow> value_enum \<Rightarrow> channel \<Rightarrow> channel option" where
  "update_bd_data_counter prev nxt c = do { c1 \<leftarrow> uncount_rail prev c; Some (count_rail (get_data_sense c1) nxt c1) }"

text \<open>\<^verbatim>\<open>channel::initialize\<close>: every node is X.\<close>

definition channel_initialize :: "channel \<Rightarrow> channel option" where
  "channel_initialize c = do {
     x \<leftarrow> (case ch_type c of
         CHANNEL_TYPE_SINGLE_TRACK \<Rightarrow> Some (of_nat (bundles c * ch_radix c))
       | CHANNEL_TYPE_1ofN \<Rightarrow> Some (of_nat (bundles c * ch_radix c))
       | CHANNEL_TYPE_CLK_SRC1 \<Rightarrow> Some (x_counter c)
       | CHANNEL_TYPE_CLK_SRC2 \<Rightarrow> Some (x_counter c)
       | CHANNEL_TYPE_CLK_1EDGE \<Rightarrow> Some (of_nat (ch_radix c))
       | CHANNEL_TYPE_CLK_2EDGE \<Rightarrow> Some (of_nat (ch_radix c))
       | CHANNEL_TYPE_BD_2P \<Rightarrow> Some (of_nat (ch_radix c))
       | CHANNEL_TYPE_BD_4P \<Rightarrow> Some (of_nat (ch_radix c))
       | CHANNEL_TYPE_LEDR \<Rightarrow> Some 2
       | CHANNEL_TYPE_NULL \<Rightarrow> None);
     Some (c\<lparr>counter_state := 0, x_counter := x, value_index := 0, dumplog := None\<rparr>) }"

definition channel_clobber :: "channel \<Rightarrow> channel option" where
  "channel_clobber c = do {
     c1 \<leftarrow> channel_initialize c;
     Some (c1\<lparr>ch_name := '''', ch_values := [], inject_expect_file := '''', ch_flags := CHANNEL_DEFAULT_FLAGS,
             ch_data := [], ch_radix := 0, node_to_rail := Map.empty,
             ack_signal := INVALID_NODE_INDEX, valid_signal := INVALID_NODE_INDEX\<rparr>) }"

section \<open>Status\<close>

record status_summary =
  st_current_value :: value_type
  value_transitioning :: bool
  st_full :: bool
  x_ack :: bool
  ack_active :: bool
  x_valid :: bool
  valid_active :: bool
  valid_following :: bool
  waiting_sender :: bool
  waiting_receiver :: bool

definition status_new :: status_summary where
  "status_new = \<lparr>st_current_value = 0, value_transitioning = False, st_full = False, x_ack = False, ack_active = False,
     x_valid = False, valid_active = False, valid_following = False, waiting_sender = False, waiting_receiver = False\<rparr>"

definition set_empty :: "bool \<Rightarrow> status_summary \<Rightarrow> status_summary" where
  "set_empty e st = (if e then st\<lparr>st_full := False, waiting_sender := True, valid_active := False, ack_active := True\<rparr>
     else st\<lparr>st_full := True, waiting_receiver := True, valid_active := True, ack_active := False\<rparr>)"

fun parity_of :: "value_enum list \<Rightarrow> bool \<Rightarrow> value_enum" where
  "parity_of [] p = rail_level p"
| "parity_of (LOGIC_HIGH # vs) p = parity_of vs (\<not> p)"
| "parity_of (LOGIC_LOW # vs) p = parity_of vs p"
| "parity_of (LOGIC_OTHER # vs) p = LOGIC_OTHER"

definition current_ledr_parity :: "node_view \<Rightarrow> channel \<Rightarrow> value_enum option" where
  "current_ledr_parity vw c = do {
     as \<leftarrow> (if ack_signal c \<noteq> INVALID_NODE_INDEX then do { a \<leftarrow> vw (ack_signal c); Some [a] } else Some []);
     dn \<leftarrow> ledr_data_rail c;
     d \<leftarrow> vw dn;
     rr \<leftarrow> vw (repeat_rail c);
     Some (parity_of (as @ [d, rr]) False) }"

definition current_bd2p_parity :: "node_view \<Rightarrow> channel \<Rightarrow> value_enum option" where
  "current_bd2p_parity vw c = do {
     a \<leftarrow> vw (ack_signal c);
     v \<leftarrow> vw (valid_signal c);
     Some (parity_of [a, v] False) }"

definition waiting :: "bool \<Rightarrow> status_summary \<Rightarrow> status_summary" where
  "waiting receiver st = (if receiver then st\<lparr>waiting_receiver := True\<rparr> else st\<lparr>waiting_sender := True\<rparr>)"

text \<open>The first half of \<^verbatim>\<open>summarize_status\<close>: what the acknowledge and validity signals tell.\<close>

definition summarize_ack :: "node_view \<Rightarrow> channel \<Rightarrow> status_summary \<Rightarrow> status_summary option" where
  "summarize_ack vw c st =
     (if ack_signal c \<noteq> INVALID_NODE_INDEX then do {
        a \<leftarrow> vw (ack_signal c);
        Some (st\<lparr>x_ack := a = LOGIC_OTHER, ack_active := get_ack_active c \<noteq> (a = LOGIC_LOW)\<rparr>) }
      else Some st)"

definition summarize_valid :: "node_view \<Rightarrow> channel \<Rightarrow> status_summary \<Rightarrow> status_summary option" where
  "summarize_valid vw c st =
     (if valid_signal c \<noteq> INVALID_NODE_INDEX then do {
        v \<leftarrow> vw (valid_signal c);
        Some (st\<lparr>x_valid := v = LOGIC_OTHER, valid_active := get_valid_sense c \<noteq> (v = LOGIC_LOW)\<rparr>) }
      else Some st)"

definition summarize_bundled :: "node_view \<Rightarrow> channel \<Rightarrow> status_summary \<Rightarrow> status_summary option" where
  "summarize_bundled vw c st = (case ch_type c of
     CHANNEL_TYPE_BD_4P \<Rightarrow> do {
       INVARIANT (ack_signal c \<noteq> INVALID_NODE_INDEX);
       INVARIANT (valid_signal c \<noteq> INVALID_NODE_INDEX);
       Some (if \<not> x_valid st \<and> \<not> x_ack st then waiting (valid_active st \<noteq> ack_active st) st else st) }
   | CHANNEL_TYPE_BD_2P \<Rightarrow> do {
       INVARIANT (ack_signal c \<noteq> INVALID_NODE_INDEX);
       INVARIANT (valid_signal c \<noteq> INVALID_NODE_INDEX);
       p \<leftarrow> current_bd2p_parity vw c;
       if \<not> x_valid st \<and> \<not> x_ack st then do {
         ep \<leftarrow> bd2p_empty_parity c;
         Some (set_empty (ep \<noteq> (p = LOGIC_LOW)) st) }
       else Some st }
   | _ \<Rightarrow> Some st)"

text \<open>The second half, for channels without unknown rails.\<close>

definition summarize_1ofN :: "node_view \<Rightarrow> channel \<Rightarrow> status_summary \<Rightarrow> status_summary option" where
  "summarize_1ofN vw c st =
     (let have_ack = (ack_signal c \<noteq> INVALID_NODE_INDEX \<and> \<not> x_ack st);
          ev = (\<lambda>s. if x_valid s then s else waiting (valid_active s \<noteq> ack_active s) s);
          have_valid = (valid_signal c \<noteq> INVALID_NODE_INDEX) in
      if counter_state c = 0 then
        Some (if have_ack then (if have_valid then ev st else waiting (ack_active st) st) else st)
      else if unat (counter_state c) = bundles c then do {
        v \<leftarrow> data_rails_value vw c;
        let st1 = st\<lparr>st_current_value := v\<rparr>;
        Some (if have_ack then (if have_valid then ev st1 else waiting (\<not> ack_active st1) st1) else st1) }
      else (let st1 = st\<lparr>value_transitioning := True\<rparr> in Some (if have_ack then waiting False st1 else st1)))"

definition summarize_data :: "node_view \<Rightarrow> channel \<Rightarrow> status_summary \<Rightarrow> status_summary option" where
  "summarize_data vw c st = (case ch_type c of
     CHANNEL_TYPE_1ofN \<Rightarrow> summarize_1ofN vw c st
   | CHANNEL_TYPE_CLK_1EDGE \<Rightarrow> map_option (\<lambda>v. st\<lparr>st_current_value := v\<rparr>) (data_rails_value vw c)
   | CHANNEL_TYPE_CLK_2EDGE \<Rightarrow> map_option (\<lambda>v. st\<lparr>st_current_value := v\<rparr>) (data_rails_value vw c)
   | CHANNEL_TYPE_BD_4P \<Rightarrow> map_option (\<lambda>v. st\<lparr>st_current_value := v\<rparr>) (data_rails_value vw c)
   | CHANNEL_TYPE_BD_2P \<Rightarrow> map_option (\<lambda>v. st\<lparr>st_current_value := v\<rparr>) (data_rails_value vw c)
   | CHANNEL_TYPE_LEDR \<Rightarrow> do {
       p \<leftarrow> current_ledr_parity vw c;
       INVARIANT (p \<noteq> LOGIC_OTHER);
       if ack_signal c \<noteq> INVALID_NODE_INDEX then do {
         ep \<leftarrow> ledr_empty_parity c;
         let empty = (ep \<noteq> (p = LOGIC_LOW));
         let st1 = set_empty empty st;
         if \<not> empty then map_option (\<lambda>v. st1\<lparr>st_current_value := v\<rparr>) (data_rails_value vw c) else Some st1 }
       else map_option (\<lambda>v. st\<lparr>st_current_value := v\<rparr>) (data_rails_value vw c) }
   | _ \<Rightarrow> Some st)"

definition summarize_status :: "node_view \<Rightarrow> channel \<Rightarrow> status_summary option" where
  "summarize_status vw c = do {
     st \<leftarrow> (if ch_type c \<noteq> CHANNEL_TYPE_LEDR then do {
         s1 \<leftarrow> summarize_ack vw c status_new;
         s2 \<leftarrow> summarize_valid vw c s1;
         summarize_bundled vw c s2 }
       else Some status_new);
     if x_counter c = 0 then summarize_data vw c st else Some st }"

section \<open>Reacting to data\<close>

text \<open>
  The reference \<^verbatim>\<open>expect\<close> of the source outlives \<^verbatim>\<open>advance_value\<close>, which may clear the vector that holds it; the model
  uses the value that was current.
\<close>

definition channel_mismatch :: "channel \<Rightarrow> value_type \<Rightarrow> value_type \<Rightarrow> bool \<Rightarrow> chan_run \<Rightarrow> chan_run" where
  "channel_mismatch c expect got gx r = r\<lparr>cr_exceptions := cr_exceptions r @
     [\<lparr>ce_chan = ch_name c, ce_index = value_index c, ce_iteration = iteration c, ce_expect = expect, ce_got = got, ce_got_x = gx\<rparr>]\<rparr>"

definition assert_channel_value :: "value_type \<Rightarrow> value_type \<Rightarrow> channel \<Rightarrow> bool" where
  "assert_channel_value expect got c \<longleftrightarrow> (ch_radix c \<noteq> 0 \<longrightarrow> expect = got)"

definition log_data :: "node_view \<Rightarrow> channel \<Rightarrow> channel option" where
  "log_data vw c = (case dumplog c of
     Some (f, vs) \<Rightarrow>
       if ignored c then Some c
       else if data_is_valid c \<or> data_is_bundled c
       then map_option (\<lambda>v. c\<lparr>dumplog := Some (f, vs @ [Some v])\<rparr>) (data_rails_value vw c)
       else Some (c\<lparr>dumplog := Some (f, vs @ [None])\<rparr>)
   | None \<Rightarrow> Some c)"

definition check_expected :: "chan_env \<Rightarrow> node_view \<Rightarrow> chan_run \<Rightarrow> chan_run option" where
  "check_expected env vw r = (let c = cr_chan r; v = data_is_valid c in
     case current_value c of
       Some (expect, dont_care) \<Rightarrow> do {
         r1 \<leftarrow> (if \<not> dont_care then
                 (if v then do {
                    got \<leftarrow> data_rails_value vw c;
                    r1 \<leftarrow> advance_value env r;
                    Some (if assert_channel_value expect got c then r1 else channel_mismatch c expect got False r1) }
                  else do {
                    r1 \<leftarrow> (if data_is_bundled c \<or> is_clocked c then advance_value env r else Some r);
                    Some (channel_mismatch c expect 0xDEADBEEF True r1) })
               else if v \<or> data_is_bundled c \<or> is_clocked c then advance_value env r else Some r);
         let c1 = cr_chan r1;
         Some (if two_phase c1 \<and> \<not> have_value c1 \<and> is_sinking c1 \<and> stopping_on_empty c1 then mod_chan ch_stop r1 else r1) }
     | None \<Rightarrow> do {
         let r1 = mod_chan (\<lambda>c. (set_flag CHANNEL_EXPECTING False c)\<lparr>ch_values := []\<rparr>) r;
         Some (if four_phase c \<and> is_sinking c \<and> stopping_on_empty c then mod_chan ch_stop r1 else r1) })"

definition process_data :: "chan_env \<Rightarrow> node_view \<Rightarrow> chan_run \<Rightarrow> chan_run option" where
  "process_data env vw r = (let c = cr_chan r in do {
     _ \<leftarrow> (if watched c \<and> data_is_valid c then map_option (\<lambda>_. ()) (data_rails_value vw c) else Some ());
     c1 \<leftarrow> log_data vw c;
     let r1 = r\<lparr>cr_chan := c1\<rparr>;
     if is_expecting c1 \<and> \<not> ignored c1 then check_expected env vw r1 else Some r1 })"

section \<open>process\_node\<close>

abbreviation has_ack :: "channel \<Rightarrow> bool" where "has_ack c \<equiv> ack_signal c \<noteq> INVALID_NODE_INDEX"
abbreviation has_valid :: "channel \<Rightarrow> bool" where "has_valid c \<equiv> valid_signal c \<noteq> INVALID_NODE_INDEX"

definition source_next :: "chan_env \<Rightarrow> node_view \<Rightarrow> chan_run \<Rightarrow> chan_run option" where
  "source_next env vw r = do { r1 \<leftarrow> set_all_data_rails env vw r; advance_value env r1 }"

text \<open>The level of the acknowledge (validity) signal when it is active or not.\<close>

definition ack_level :: "bool \<Rightarrow> channel \<Rightarrow> value_enum" where
  "ack_level active c = rail_level (get_ack_active c = active)"
definition valid_level :: "bool \<Rightarrow> channel \<Rightarrow> value_enum" where
  "valid_level active c = rail_level (get_valid_sense c = active)"

definition push_ack :: "chan_env \<Rightarrow> bool \<Rightarrow> chan_run \<Rightarrow> chan_run" where
  "push_ack env active r = push_event env (ack_signal (cr_chan r)) (ack_level active (cr_chan r)) r"
definition push_valid :: "chan_env \<Rightarrow> bool \<Rightarrow> chan_run \<Rightarrow> chan_run" where
  "push_valid env active r = push_event env (valid_signal (cr_chan r)) (valid_level active (cr_chan r)) r"

text \<open>The delay of the request is that of the slowest event asked for so far.\<close>

definition set_bd_data_req :: "chan_env \<Rightarrow> node_view \<Rightarrow> status_summary \<Rightarrow> chan_run \<Rightarrow> chan_run option" where
  "set_bd_data_req env vw stat r = do {
     r1 \<leftarrow> source_next env vw r;
     let c = cr_chan r1;
     reqv \<leftarrow> (case ch_type c of
         CHANNEL_TYPE_BD_2P \<Rightarrow>
           if \<not> x_ack stat then do {
             a \<leftarrow> vw (ack_signal c);
             ep \<leftarrow> bd2p_empty_parity c;
             Some (if \<not> ep then invert_value a else a) }
           else Some LOGIC_OTHER
       | CHANNEL_TYPE_BD_4P \<Rightarrow> Some (valid_level True c)
       | _ \<Rightarrow> None);
     Some (case cr_events r1 of
         [] \<Rightarrow> push_event env (valid_signal c) reqv r1
       | e # es \<Rightarrow> r1\<lparr>cr_events := cr_events r1 @
           [\<lparr>ee_node = valid_signal c, ee_value = reqv, ee_delay = fold max (map ee_delay es) (ee_delay e), ee_use_global = False\<rparr>]\<rparr>) }"

definition process_1ofN_ack :: "chan_env \<Rightarrow> node_view \<Rightarrow> chan_run \<Rightarrow> chan_run option" where
  "process_1ofN_ack env vw r = (let c = cr_chan r in do {
     stat \<leftarrow> summarize_status vw c;
     if is_sourcing c \<and> \<not> ch_stopped c then
       (if x_ack stat then X_all_data_rails env r
        else if ack_active stat then Some (reset_all_data_rails env r)
        else source_next env vw r)
     else Some r })"

definition sink_follow_valid :: "chan_env \<Rightarrow> status_summary \<Rightarrow> chan_run \<Rightarrow> chan_run" where
  "sink_follow_valid env stat r =
     (if x_valid stat then push_event env (ack_signal (cr_chan r)) LOGIC_OTHER r
      else push_ack env (valid_active stat) r)"

definition process_1ofN_valid :: "chan_env \<Rightarrow> node_view \<Rightarrow> chan_run \<Rightarrow> chan_run option" where
  "process_1ofN_valid env vw r = do {
     stat \<leftarrow> summarize_status vw (cr_chan r);
     r1 \<leftarrow> (if \<not> x_valid stat \<and> valid_active stat then process_data env vw r else Some r);
     let c = cr_chan r1;
     if is_sinking c \<and> \<not> ch_stopped c then do {
       INVARIANT (has_ack c);
       Some (sink_follow_valid env stat r1) }
     else Some r1 }"

definition process_1ofN_data :: "chan_env \<Rightarrow> node_view \<Rightarrow> value_enum \<Rightarrow> value_enum \<Rightarrow> chan_run \<Rightarrow> chan_run option" where
  "process_1ofN_data env vw prev nxt r0 = do {
     c \<leftarrow> update_bd_data_counter prev nxt (cr_chan r0);
     let r = r0\<lparr>cr_chan := c\<rparr>;
     if x_counter c \<noteq> 0 then do {
       let r1 = (if is_sourcing c \<and> has_valid c then push_event env (valid_signal c) LOGIC_OTHER r else r);
       if \<not> ch_stopped c \<and> is_sinking c \<and> nxt = LOGIC_OTHER \<and> x_counter c = 1 then do {
         INVARIANT (has_ack c);
         Some (if \<not> has_valid c then push_event env (ack_signal c) LOGIC_OTHER r1 else r1) }
       else Some r1 }
     else if counter_state c = 0 then do {
       let r1 = (if is_sourcing c \<and> has_valid c then push_valid env False r else r);
       if \<not> ch_stopped c \<and> is_sinking c \<and> \<not> has_valid c then do {
         INVARIANT (has_ack c);
         Some (push_ack env False r1) }
       else Some r1 }
     else if unat (counter_state c) = bundles c then do {
       let r1 = (if is_sourcing c \<and> has_valid c then push_valid env True r else r);
       r2 \<leftarrow> (if \<not> has_valid c then process_data env vw r1 else Some r1);
       let c2 = cr_chan r2;
       if \<not> ch_stopped c2 \<and> is_sinking c2 \<and> \<not> has_valid c2 then do {
         INVARIANT (has_ack c2);
         Some (push_ack env True r2) }
       else Some r2 }
     else Some r }"

definition process_1ofN :: "chan_env \<Rightarrow> node_view \<Rightarrow> node_index_type \<Rightarrow> value_enum \<Rightarrow> value_enum \<Rightarrow> chan_run \<Rightarrow> chan_run option" where
  "process_1ofN env vw ni prev nxt r = (let c = cr_chan r in
     if has_ack c \<and> ni = ack_signal c then process_1ofN_ack env vw r
     else if has_valid c \<and> ni = valid_signal c then process_1ofN_valid env vw r
     else process_1ofN_data env vw prev nxt r)"

text \<open>The counter of unknown rails wraps without a check here.\<close>

definition process_ledr_data :: "chan_env \<Rightarrow> node_view \<Rightarrow> value_enum \<Rightarrow> value_enum \<Rightarrow> chan_run \<Rightarrow> chan_run option" where
  "process_ledr_data env vw prev nxt r0 = do {
     let r = mod_chan (\<lambda>c. c\<lparr>x_counter := x_counter c - of_bool (prev = LOGIC_OTHER) + of_bool (nxt = LOGIC_OTHER)\<rparr>) r0;
     let c = cr_chan r;
     r1 \<leftarrow> (if \<not> has_ack c \<and> is_sourcing c \<and> \<not> ch_stopped c then
              (if x_counter c = 0 then source_next env vw r else X_all_data_rails env r)
            else Some r);
     let c1 = cr_chan r1;
     r2 \<leftarrow> (if has_ack c1 \<and> is_sinking c1 \<and> \<not> ch_stopped c1 then
              (if x_counter c1 \<noteq> 0 then Some (push_event env (ack_signal c1) LOGIC_OTHER r1)
               else toggle_node env vw (ack_signal c1) r1)
            else Some r1);
     process_data env vw r2 }"

definition process_ledr :: "chan_env \<Rightarrow> node_view \<Rightarrow> node_index_type \<Rightarrow> value_enum \<Rightarrow> value_enum \<Rightarrow> chan_run \<Rightarrow> chan_run option" where
  "process_ledr env vw ni prev nxt r = (let c = cr_chan r in do {
     ep \<leftarrow> ledr_empty_parity c;
     if has_ack c \<and> ni = ack_signal c then
       (if is_sourcing c \<and> \<not> ch_stopped c then do {
          p \<leftarrow> current_ledr_parity vw c;
          case p of
            LOGIC_LOW \<Rightarrow> if \<not> ep then source_next env vw r else Some r
          | LOGIC_HIGH \<Rightarrow> if ep then source_next env vw r else Some r
          | LOGIC_OTHER \<Rightarrow> X_all_data_rails env r }
        else Some r)
     else do {
       dn \<leftarrow> ledr_data_rail c;
       INVARIANT (ni = repeat_rail c \<or> ni = dn);
       process_ledr_data env vw prev nxt r } })"

text \<open>A clock source answers each edge with the next one; the same in \<^verbatim>\<open>process_node\<close> and \<^verbatim>\<open>resume\<close>.\<close>

definition clock_tick :: "chan_env \<Rightarrow> node_view \<Rightarrow> status_summary \<Rightarrow> chan_run \<Rightarrow> chan_run option" where
  "clock_tick env vw stat r = (let c = cr_chan r in do {
     r1 \<leftarrow> (if \<not> x_valid stat \<and> (ch_type c = CHANNEL_TYPE_CLK_SRC2 \<or> valid_active stat) then advance_value env r else Some r);
     toggle_node env vw (clock_signal c) r1 })"

definition process_clk_src :: "chan_env \<Rightarrow> node_view \<Rightarrow> node_index_type \<Rightarrow> chan_run \<Rightarrow> chan_run option" where
  "process_clk_src env vw ni r = (let c = cr_chan r in do {
     stat \<leftarrow> summarize_status vw c;
     INVARIANT (ni = clock_signal c);
     if is_sourcing c \<and> \<not> ch_stopped c \<and> have_value c then clock_tick env vw stat r else Some r })"

definition count_update :: "value_enum \<Rightarrow> value_enum \<Rightarrow> chan_run \<Rightarrow> chan_run option" where
  "count_update prev nxt r = map_option (\<lambda>c. r\<lparr>cr_chan := c\<rparr>) (update_bd_data_counter prev nxt (cr_chan r))"

definition process_clk_2edge :: "chan_env \<Rightarrow> node_view \<Rightarrow> node_index_type \<Rightarrow> value_enum \<Rightarrow> value_enum \<Rightarrow> chan_run \<Rightarrow> chan_run option" where
  "process_clk_2edge env vw ni prev nxt r =
     (if ni = clock_signal (cr_chan r) then do {
        stat \<leftarrow> summarize_status vw (cr_chan r);
        r1 \<leftarrow> (if \<not> x_valid stat then process_data env vw r else Some r);
        let c = cr_chan r1;
        if is_sourcing c \<and> \<not> ch_stopped c then
          (if x_valid stat then X_all_data_rails env r1
           else if have_value c then source_next env vw r1 else Some r1)
        else Some r1 }
      else count_update prev nxt r)"

definition process_clk_1edge :: "chan_env \<Rightarrow> node_view \<Rightarrow> node_index_type \<Rightarrow> value_enum \<Rightarrow> value_enum \<Rightarrow> chan_run \<Rightarrow> chan_run option" where
  "process_clk_1edge env vw ni prev nxt r =
     (if ni = clock_signal (cr_chan r) then do {
        stat \<leftarrow> summarize_status vw (cr_chan r);
        r1 \<leftarrow> (if \<not> x_valid stat \<and> valid_active stat then process_data env vw r else Some r);
        let c = cr_chan r1;
        if is_sourcing c \<and> \<not> ch_stopped c then
          (if x_valid stat then X_all_data_rails env r1
           else if valid_active stat then Some r1
           else if have_value c then source_next env vw r1 else Some r1)
        else Some r1 }
      else count_update prev nxt r)"

definition process_bd_2p :: "chan_env \<Rightarrow> node_view \<Rightarrow> node_index_type \<Rightarrow> value_enum \<Rightarrow> value_enum \<Rightarrow> chan_run \<Rightarrow> chan_run option" where
  "process_bd_2p env vw ni prev nxt r = (let c0 = cr_chan r in
     if ni = ack_signal c0 then do {
       stat \<leftarrow> summarize_status vw c0;
       if is_sourcing c0 \<and> \<not> ch_stopped c0 then
         (if x_ack stat then do {
            r1 \<leftarrow> X_all_data_rails env r;
            Some (push_event env (valid_signal c0) LOGIC_OTHER r1) }
          else if \<not> st_full stat \<and> have_value c0 then set_bd_data_req env vw stat r
          else Some r)
       else Some r }
     else if ni = valid_signal c0 then do {
       stat \<leftarrow> summarize_status vw c0;
       r1 \<leftarrow> (if \<not> x_valid stat \<and> st_full stat then process_data env vw r else Some r);
       let c = cr_chan r1;
       if is_sinking c \<and> \<not> ch_stopped c \<and> has_ack c then
         (if x_valid stat then Some (push_event env (ack_signal c) LOGIC_OTHER r1)
          else toggle_node env vw (ack_signal c) r1)
       else Some r1 }
     else count_update prev nxt r)"

definition process_bd_4p :: "chan_env \<Rightarrow> node_view \<Rightarrow> node_index_type \<Rightarrow> value_enum \<Rightarrow> value_enum \<Rightarrow> chan_run \<Rightarrow> chan_run option" where
  "process_bd_4p env vw ni prev nxt r = (let c0 = cr_chan r in
     if ni = ack_signal c0 then do {
       stat \<leftarrow> summarize_status vw c0;
       if is_sourcing c0 \<and> \<not> ch_stopped c0 then
         (if x_ack stat then do {
            r1 \<leftarrow> X_all_data_rails env r;
            Some (push_event env (valid_signal c0) LOGIC_OTHER r1) }
          else if ack_active stat then Some (push_valid env False (reset_all_data_rails env r))
          else if have_value c0 then set_bd_data_req env vw stat r
          else Some r)
       else Some r }
     else if ni = valid_signal c0 then do {
       stat \<leftarrow> summarize_status vw c0;
       r1 \<leftarrow> (if \<not> x_valid stat \<and> valid_active stat then process_data env vw r else Some r);
       let c = cr_chan r1;
       Some (if is_sinking c \<and> \<not> ch_stopped c \<and> has_ack c then sink_follow_valid env stat r1 else r1) }
     else count_update prev nxt r)"

definition ch_process_node :: "chan_env \<Rightarrow> node_view \<Rightarrow> node_index_type \<Rightarrow> value_enum \<Rightarrow> value_enum \<Rightarrow> chan_run \<Rightarrow> chan_run option" where
  "ch_process_node env vw ni prev nxt r = (case ch_type (cr_chan r) of
     CHANNEL_TYPE_1ofN \<Rightarrow> process_1ofN env vw ni prev nxt r
   | CHANNEL_TYPE_LEDR \<Rightarrow> process_ledr env vw ni prev nxt r
   | CHANNEL_TYPE_CLK_SRC1 \<Rightarrow> process_clk_src env vw ni r
   | CHANNEL_TYPE_CLK_SRC2 \<Rightarrow> process_clk_src env vw ni r
   | CHANNEL_TYPE_CLK_2EDGE \<Rightarrow> process_clk_2edge env vw ni prev nxt r
   | CHANNEL_TYPE_BD_2P \<Rightarrow> process_bd_2p env vw ni prev nxt r
   | CHANNEL_TYPE_CLK_1EDGE \<Rightarrow> process_clk_1edge env vw ni prev nxt r
   | CHANNEL_TYPE_BD_4P \<Rightarrow> process_bd_4p env vw ni prev nxt r
   | _ \<Rightarrow> None)"

section \<open>Resuming and resetting\<close>

definition resume_4p_sink :: "chan_env \<Rightarrow> status_summary \<Rightarrow> chan_run \<Rightarrow> chan_run option" where
  "resume_4p_sink env stat r = (let c = cr_chan r in
     if is_sinking c then do {
       INVARIANT (has_ack c);
       Some (if has_valid c then sink_follow_valid env stat r
             else if x_counter c \<noteq> 0 then push_event env (ack_signal c) LOGIC_OTHER r
             else if counter_state c = 0 then push_ack env False r
             else if unat (counter_state c) = bundles c then push_ack env True r
             else r) }
     else Some r)"

definition resume_1ofN_source :: "chan_env \<Rightarrow> node_view \<Rightarrow> status_summary \<Rightarrow> chan_run \<Rightarrow> chan_run option" where
  "resume_1ofN_source env vw stat r = (let c = cr_chan r in do {
     INVARIANT (has_ack c);
     if x_ack stat then X_all_data_rails env r
     else if ack_active stat then Some (reset_all_data_rails env r)
     else do {
       r1 \<leftarrow> (if unat (counter_state c) \<noteq> bundles c \<or> x_counter c \<noteq> 0 then source_next env vw r else Some r);
       Some (if has_valid c then
               (if x_counter c \<noteq> 0 then push_event env (valid_signal c) LOGIC_OTHER r1
                else if counter_state c = 0 then push_valid env False r1
                else if unat (counter_state c) = bundles c then push_valid env True r1
                else r1)
             else r1) } })"

definition resume_1ofN :: "chan_env \<Rightarrow> node_view \<Rightarrow> status_summary \<Rightarrow> chan_run \<Rightarrow> chan_run option" where
  "resume_1ofN env vw stat r = do {
     r1 \<leftarrow> (if is_sourcing (cr_chan r) then resume_1ofN_source env vw stat r else Some r);
     resume_4p_sink env stat r1 }"

definition resume_bd_4p :: "chan_env \<Rightarrow> node_view \<Rightarrow> status_summary \<Rightarrow> chan_run \<Rightarrow> chan_run option" where
  "resume_bd_4p env vw stat r = (let c = cr_chan r in do {
     r1 \<leftarrow> (if is_sourcing c then do {
         INVARIANT (has_ack c);
         INVARIANT (has_valid c);
         if x_ack stat then X_all_data_rails env r
         else if ack_active stat then Some (push_valid env False (reset_all_data_rails env r))
         else if have_value c then set_bd_data_req env vw stat r
         else Some r }
       else Some r);
     resume_4p_sink env stat r1 })"

definition resume_bd_2p :: "chan_env \<Rightarrow> node_view \<Rightarrow> status_summary \<Rightarrow> chan_run \<Rightarrow> chan_run option" where
  "resume_bd_2p env vw stat r = (let c = cr_chan r in do {
     r1 \<leftarrow> (if is_sourcing c then
         (if x_ack stat then do {
            r1 \<leftarrow> X_all_data_rails env r;
            Some (push_event env (valid_signal c) LOGIC_OTHER r1) }
          else if \<not> st_full stat \<and> have_value c then set_bd_data_req env vw stat r
          else Some r)
       else Some r);
     let c1 = cr_chan r1;
     if is_sinking c1 then
       (if x_valid stat then Some (push_event env (ack_signal c1) LOGIC_OTHER r1)
        else if st_full stat then toggle_node env vw (ack_signal c1) r1
        else Some r1)
     else Some r1 })"

definition resume_clocked :: "chan_env \<Rightarrow> node_view \<Rightarrow> status_summary \<Rightarrow> chan_run \<Rightarrow> chan_run option" where
  "resume_clocked env vw stat r = (let c = cr_chan r in
     if is_sourcing c \<and> \<not> x_valid stat \<and> (ch_type c = CHANNEL_TYPE_CLK_2EDGE \<or> \<not> valid_active stat)
     then source_next env vw r else Some r)"

definition resume_ledr_source :: "chan_env \<Rightarrow> node_view \<Rightarrow> chan_run \<Rightarrow> chan_run option" where
  "resume_ledr_source env vw r = (let c = cr_chan r in
     if has_ack c then do {
       ep \<leftarrow> ledr_empty_parity c;
       p \<leftarrow> current_ledr_parity vw c;
       case p of
         LOGIC_LOW \<Rightarrow> if ep then Some r else source_next env vw r
       | LOGIC_HIGH \<Rightarrow> if \<not> ep then Some r else source_next env vw r
       | LOGIC_OTHER \<Rightarrow> X_all_data_rails env r }
     else source_next env vw r)"

definition resume_ledr :: "chan_env \<Rightarrow> node_view \<Rightarrow> chan_run \<Rightarrow> chan_run option" where
  "resume_ledr env vw r = do {
     r1 \<leftarrow> (if is_sourcing (cr_chan r) then resume_ledr_source env vw r else Some r);
     let c = cr_chan r1;
     if is_sinking c \<and> has_ack c then do {
       fp \<leftarrow> ledr_full_parity c;
       p \<leftarrow> current_ledr_parity vw c;
       case p of
         LOGIC_LOW \<Rightarrow> if \<not> fp then toggle_node env vw (ack_signal c) r1 else Some r1
       | LOGIC_HIGH \<Rightarrow> if fp then toggle_node env vw (ack_signal c) r1 else Some r1
       | LOGIC_OTHER \<Rightarrow> Some (push_event env (ack_signal c) LOGIC_OTHER r1) }
     else Some r1 }"

definition ch_resume :: "chan_env \<Rightarrow> node_view \<Rightarrow> chan_run \<Rightarrow> chan_run option" where
  "ch_resume env vw r0 = do {
     let r = mod_chan (set_flag CHANNEL_STOPPED False) r0;
     let c = cr_chan r;
     stat \<leftarrow> summarize_status vw c;
     case ch_type c of
       CHANNEL_TYPE_1ofN \<Rightarrow> resume_1ofN env vw stat r
     | CHANNEL_TYPE_BD_4P \<Rightarrow> resume_bd_4p env vw stat r
     | CHANNEL_TYPE_BD_2P \<Rightarrow> resume_bd_2p env vw stat r
     | CHANNEL_TYPE_CLK_SRC1 \<Rightarrow> if is_sourcing c \<and> have_value c then clock_tick env vw stat r else Some r
     | CHANNEL_TYPE_CLK_SRC2 \<Rightarrow> if is_sourcing c \<and> have_value c then clock_tick env vw stat r else Some r
     | CHANNEL_TYPE_CLK_1EDGE \<Rightarrow> resume_clocked env vw stat r
     | CHANNEL_TYPE_CLK_2EDGE \<Rightarrow> resume_clocked env vw stat r
     | CHANNEL_TYPE_LEDR \<Rightarrow> resume_ledr env vw r
     | _ \<Rightarrow> None }"

definition reset_source :: "chan_env \<Rightarrow> chan_run \<Rightarrow> chan_run option" where
  "reset_source env r = (let c = cr_chan r in do {
     r1 \<leftarrow> initialize_all_data_rails env r;
     Some (case ch_type c of
         CHANNEL_TYPE_CLK_SRC1 \<Rightarrow> push_event env (clock_signal c) (valid_level False c) r1
       | CHANNEL_TYPE_CLK_SRC2 \<Rightarrow> push_event env (clock_signal c) (valid_level True c) r1
       | CHANNEL_TYPE_BD_4P \<Rightarrow> push_event env (valid_signal c) (valid_level False c) r1
       | CHANNEL_TYPE_BD_2P \<Rightarrow> push_event env (valid_signal c) (valid_level True c) r1
       | _ \<Rightarrow> r1) })"

definition ch_reset :: "chan_env \<Rightarrow> chan_run \<Rightarrow> chan_run option" where
  "ch_reset env r = do {
     r1 \<leftarrow> (if is_sourcing (cr_chan r) then reset_source env r else Some r);
     let c = cr_chan r1;
     r2 \<leftarrow> (if is_sinking c \<and> \<not> is_clocked c then do {
         INVARIANT (ch_type c \<noteq> CHANNEL_TYPE_SINGLE_TRACK \<and> ch_type c \<noteq> CHANNEL_TYPE_NULL);
         INVARIANT (has_ack c);
         Some (push_event env (ack_signal c) (rail_level (get_ack_init c)) r1) }
       else Some r1);
     Some (mod_chan ch_stop r2) }"

section \<open>Configuration\<close>

text \<open>
  The Boolean result is the source's error code; the flags may have changed even when it is True. Warnings about
  fanin and fanout of the nodes are not modelled.
\<close>

definition configure_source :: "bool \<Rightarrow> channel \<Rightarrow> bool \<times> channel" where
  "configure_source loop c =
     (let c1 = set_flag CHANNEL_VALUE_LOOP loop (set_flag CHANNEL_SOURCING True
                 (set_flag (CHANNEL_EXPECTING OR CHANNEL_VALUE_LOOP OR CHANNEL_RANDOM) False c))
      in (\<not> has_ack c1 \<and> \<not> can_source c1, c1))"

definition configure_expect :: "bool \<Rightarrow> channel \<Rightarrow> channel" where
  "configure_expect loop c =
     set_flag CHANNEL_VALUE_LOOP loop (set_flag CHANNEL_EXPECTING True
       (set_flag (CHANNEL_SOURCING OR CHANNEL_VALUE_LOOP) False c))"

definition set_rsource :: "channel \<Rightarrow> bool \<times> channel" where
  "set_rsource c = (case configure_source False c of
     (True, c1) \<Rightarrow> (True, c1)
   | (False, c1) \<Rightarrow> (False, (set_flag CHANNEL_RANDOM True c1)\<lparr>value_index := 0,
       ch_values := (case ch_values c1 of [] \<Rightarrow> [(0, False)] | v # _ \<Rightarrow> [v]), inject_expect_file := ''''\<rparr>))"

definition set_clock_source :: "int \<Rightarrow> channel \<Rightarrow> bool \<times> channel" where
  "set_clock_source n c = (case configure_source (n < 0) c of
     (True, c1) \<Rightarrow> (True, c1)
   | (False, c1) \<Rightarrow> (False, c1\<lparr>value_index := 0, ch_values := replicate (if n < 0 then 1 else nat n) (0, False)\<rparr>))"

definition set_sink :: "channel \<Rightarrow> bool \<times> channel" where
  "set_sink c = (if has_ack c then (False, set_flag CHANNEL_SINKING True c) else (\<not> is_clocked c, c))"

text \<open>The number lexer \<^verbatim>\<open>string_to_num\<close> (an \<^verbatim>\<open>istringstream\<close>) is an argument; None is its failure.\<close>

definition lex_channel_value :: "(string \<Rightarrow> value_type option) \<Rightarrow> string \<Rightarrow> (value_type \<times> bool) option" where
  "lex_channel_value num tok = (if tok = ''X'' \<or> tok = ''x'' then Some (0, True) else map_option (\<lambda>v. (v, False)) (num tok))"

fun read_values_from_list :: "(string \<Rightarrow> value_type option) \<Rightarrow> string list \<Rightarrow> channel \<Rightarrow> bool \<times> channel" where
  "read_values_from_list num [] c = (False, c)"
| "read_values_from_list num (tok # toks) c = (case lex_channel_value num tok of
     None \<Rightarrow> (True, c)
   | Some p \<Rightarrow> read_values_from_list num toks (c\<lparr>ch_values := ch_values c @ [p]\<rparr>))"

definition is_delim :: "char \<Rightarrow> bool" where
  "is_delim ch \<longleftrightarrow> ch = CHR '' '' \<or> ch = CHR 0x09 \<or> ch = CHR 0x0A"

definition is_space :: "char \<Rightarrow> bool" where
  "is_space ch \<longleftrightarrow> is_delim ch \<or> ch = CHR 0x0B \<or> ch = CHR 0x0C \<or> ch = CHR 0x0D"

text \<open>\<^verbatim>\<open>toks.front()\<close> of a line: there is none when the line has only white space (undefined in C++).\<close>

definition first_token :: "string \<Rightarrow> string option" where
  "first_token l = (case takeWhile (\<lambda>x. \<not> is_delim x) (dropWhile is_space l) of [] \<Rightarrow> None | t \<Rightarrow> Some t)"

fun file_tokens :: "string list \<Rightarrow> string list option" where
  "file_tokens [] = Some []"
| "file_tokens (l # ls) =
     (if l \<noteq> [] \<and> hd l \<noteq> CHR ''#'' then do { t \<leftarrow> first_token l; ts \<leftarrow> file_tokens ls; Some (t # ts) }
      else file_tokens ls)"

text \<open>A file is the list of its lines, None when it cannot be opened.\<close>

definition read_values_from_file :: "(string \<Rightarrow> value_type option) \<Rightarrow> string list option \<Rightarrow> channel \<Rightarrow> (bool \<times> channel) option" where
  "read_values_from_file num f c = (case f of
     None \<Rightarrow> Some (True, c\<lparr>ch_values := []\<rparr>)
   | Some ls \<Rightarrow> do { ts \<leftarrow> file_tokens ls; Some (read_values_from_list num ts (c\<lparr>ch_values := []\<rparr>)) })"

definition set_source_file :: "(string \<Rightarrow> value_type option) \<Rightarrow> string \<Rightarrow> string list option \<Rightarrow> bool \<Rightarrow> channel \<Rightarrow> (bool \<times> channel) option" where
  "set_source_file num fn f loop c = (case configure_source loop c of
     (True, c1) \<Rightarrow> Some (True, c1)
   | (False, c1) \<Rightarrow> do {
       (err, c2) \<leftarrow> read_values_from_file num f (c1\<lparr>value_index := 0\<rparr>);
       Some (if err then (True, c2) else (False, c2\<lparr>inject_expect_file := fn\<rparr>)) })"

definition set_source_args :: "(string \<Rightarrow> value_type option) \<Rightarrow> string list \<Rightarrow> bool \<Rightarrow> channel \<Rightarrow> bool \<times> channel" where
  "set_source_args num vs loop c = (case configure_source loop c of
     (True, c1) \<Rightarrow> (True, c1)
   | (False, c1) \<Rightarrow> read_values_from_list num vs (c1\<lparr>value_index := 0\<rparr>))"

definition set_expect_file :: "(string \<Rightarrow> value_type option) \<Rightarrow> string \<Rightarrow> string list option \<Rightarrow> bool \<Rightarrow> channel \<Rightarrow> (bool \<times> channel) option" where
  "set_expect_file num fn f loop c = do {
     (err, c2) \<leftarrow> read_values_from_file num f ((configure_expect loop c)\<lparr>value_index := 0, ch_values := []\<rparr>);
     Some (if err then (True, c2) else (False, if ch_values c2 \<noteq> [] then c2\<lparr>inject_expect_file := fn\<rparr> else c2)) }"

definition set_expect_args :: "(string \<Rightarrow> value_type option) \<Rightarrow> string list \<Rightarrow> bool \<Rightarrow> channel \<Rightarrow> bool \<times> channel" where
  "set_expect_args num vs loop c = read_values_from_list num vs ((configure_expect loop c)\<lparr>value_index := 0, ch_values := []\<rparr>)"

definition set_log :: "string \<Rightarrow> bool \<Rightarrow> channel \<Rightarrow> bool \<times> channel" where
  "set_log fn opened c = (if opened then (False, c\<lparr>dumplog := Some (fn, [])\<rparr>) else (True, c\<lparr>dumplog := None\<rparr>))"

definition close_stream :: "channel \<Rightarrow> channel" where
  "close_stream c = c\<lparr>dumplog := None\<rparr>"

section \<open>Ranges\<close>

text \<open>
  \<^verbatim>\<open>pow\<close> computes in double precision; the model covers the powers up to \<open>2^53\<close>, which are exact. Shifts of an \<^verbatim>\<open>int\<close>
  by 32 or more are undefined.
\<close>

definition max_value :: "channel \<Rightarrow> value_type option" where
  "max_value c =
     (let radix_max = (if ch_radix c ^ bundles c \<le> 2 ^ 53 then Some (of_nat (ch_radix c ^ bundles c) - 1) else None);
          shift_max = (\<lambda>k. if k < 32 then Some (signed (push_bit k (1 :: 32 word) - 1)) else None);
          one_of_n = (if is_signed c then do { INVARIANT (ch_radix c = 2 \<and> 0 < bundles c); shift_max (bundles c - 1) } else radix_max);
          bus = (if is_signed c then do { INVARIANT (0 < ch_radix c); shift_max (ch_radix c - 1) } else shift_max (ch_radix c)) in
      case ch_type c of
        CHANNEL_TYPE_SINGLE_TRACK \<Rightarrow> one_of_n
      | CHANNEL_TYPE_1ofN \<Rightarrow> one_of_n
      | CHANNEL_TYPE_CLK_1EDGE \<Rightarrow> bus
      | CHANNEL_TYPE_CLK_2EDGE \<Rightarrow> bus
      | CHANNEL_TYPE_BD_2P \<Rightarrow> bus
      | CHANNEL_TYPE_BD_4P \<Rightarrow> bus
      | _ \<Rightarrow> Some 1)"

definition min_value :: "channel \<Rightarrow> int option" where
  "min_value c =
     (let shift_min = (\<lambda>k. if k < 32 then Some (sint (push_bit k (- 1 :: 32 word))) else None);
          one_of_n = (if is_signed c then do { INVARIANT (ch_radix c = 2 \<and> 0 < bundles c); shift_min (bundles c - 1) } else Some 0);
          bus = (if is_signed c then do { INVARIANT (0 < ch_radix c); shift_min (ch_radix c - 1) } else Some 0) in
      case ch_type c of
        CHANNEL_TYPE_SINGLE_TRACK \<Rightarrow> one_of_n
      | CHANNEL_TYPE_1ofN \<Rightarrow> one_of_n
      | CHANNEL_TYPE_CLK_1EDGE \<Rightarrow> bus
      | CHANNEL_TYPE_CLK_2EDGE \<Rightarrow> bus
      | CHANNEL_TYPE_BD_2P \<Rightarrow> bus
      | CHANNEL_TYPE_BD_4P \<Rightarrow> bus
      | _ \<Rightarrow> Some 1)"

section \<open>Timing policy\<close>

text \<open>\<^verbatim>\<open>tokenize_char\<close> keeps empty pieces; \<^verbatim>\<open>State::parse_min_max_delay\<close> wants exactly one colon.\<close>

fun tokenize_char :: "char \<Rightarrow> string \<Rightarrow> string list" where
  "tokenize_char d [] = [[]]"
| "tokenize_char d (x # xs) = (if x = d then [] # tokenize_char d xs
     else case tokenize_char d xs of t # ts \<Rightarrow> (x # t) # ts | [] \<Rightarrow> [[x]])"

definition parse_min_max_delay :: "(string \<Rightarrow> time_type option) \<Rightarrow> string \<Rightarrow> (time_type \<times> time_type) option" where
  "parse_min_max_delay num d = (case tokenize_char (CHR '':'') d of
     [a, b] \<Rightarrow> do {
       new_min \<leftarrow> (if a \<noteq> [] then do { x \<leftarrow> num a; INVARIANT (0 \<le> x); Some x } else Some 0);
       new_max \<leftarrow> (if b \<noteq> [] then do { x \<leftarrow> num b; INVARIANT (0 \<le> x); Some x } else Some 0);
       INVARIANT (is_zero new_max \<or> new_min < new_max);
       Some (new_min, new_max) }
   | _ \<Rightarrow> None)"

definition ch_set_timing :: "(string \<Rightarrow> time_type option) \<Rightarrow> string \<Rightarrow> string list \<Rightarrow> channel \<Rightarrow> bool \<times> channel" where
  "ch_set_timing num m a c =
     (if m = ''random'' then
        (let c1 = c\<lparr>ch_timing_mode := CHANNEL_TIMING_RANDOM\<rparr> in case a of
           [] \<Rightarrow> (False, c1)
         | x # _ \<Rightarrow> (case parse_min_max_delay num x of
             None \<Rightarrow> (True, c1)
           | Some (mn, mx) \<Rightarrow> (False, c1\<lparr>ch_after_min := mn, ch_after_max := mx\<rparr>)))
      else if m = ''global'' then (False, c\<lparr>ch_timing_mode := CHANNEL_TIMING_GLOBAL\<rparr>)
      else if m = ''after'' then
        (let c1 = c\<lparr>ch_timing_mode := CHANNEL_TIMING_AFTER\<rparr> in case a of
           [] \<Rightarrow> (False, c1)
         | x # _ \<Rightarrow> (case num x of None \<Rightarrow> (True, c1) | Some t \<Rightarrow> (False, c1\<lparr>ch_after_min := t, ch_after_max := t\<rparr>)))
      else if m = ''binary'' then
        (let c1 = c\<lparr>ch_timing_mode := CHANNEL_TIMING_BINARY\<rparr> in case a of
           [x, p] \<Rightarrow> (case parse_min_max_delay num x of
             None \<Rightarrow> (True, c1)
           | Some (mn, mx) \<Rightarrow> (let c2 = c1\<lparr>ch_after_min := mn, ch_after_max := mx\<rparr> in
               case num p of None \<Rightarrow> (True, c2) | Some q \<Rightarrow> (False, c2\<lparr>ch_probability := q\<rparr>)))
         | _ \<Rightarrow> (False, c1))
      else (True, c))"

section \<open>Drivers and readers\<close>

definition may_drive_node :: "node_index_type \<Rightarrow> channel \<Rightarrow> bool" where
  "may_drive_node ni c \<longleftrightarrow>
     is_sourcing c \<and> (has_valid c \<and> ni = valid_signal c \<and> \<not> is_clock_source c \<or> node_to_rail c ni \<noteq> None) \<or>
     is_sinking c \<and> has_ack c \<and> ack_signal c = ni"

definition source_reads_node :: "node_index_type \<Rightarrow> channel \<Rightarrow> bool option" where
  "source_reads_node ni c =
     (if has_ack c \<and> ni = ack_signal c then Some True
      else if ch_type c = CHANNEL_TYPE_1ofN then (if has_valid c \<and> node_to_rail c ni \<noteq> None then Some True else None)
      else if is_clocked c then Some (ni = clock_signal c)
      else None)"

definition reads_node :: "node_index_type \<Rightarrow> channel \<Rightarrow> bool" where
  "reads_node ni c = (case (if is_sourcing c then source_reads_node ni c else None) of
     Some b \<Rightarrow> b
   | None \<Rightarrow> is_sinking c \<and> (if has_valid c then ni = valid_signal c else node_to_rail c ni \<noteq> None))"

definition get_fanins :: "node_index_type \<Rightarrow> channel \<Rightarrow> node_index_type set" where
  "get_fanins ni c =
     (if is_sourcing c then
        (if has_valid c \<and> ni = valid_signal c then set (all_rails c) else {}) \<union>
        (if has_ack c \<and> node_to_rail c ni \<noteq> None then {ack_signal c} else {})
      else {}) \<union>
     (if is_sinking c \<and> has_ack c \<and> ack_signal c = ni then (if has_valid c then {valid_signal c} else set (all_rails c)) else {})"

section \<open>Assertions of the user\<close>

definition assert_value :: "status_summary \<Rightarrow> value_type \<Rightarrow> channel \<Rightarrow> bool option" where
  "assert_value stat expect c =
     (let ok = Some (assert_channel_value expect (st_current_value stat) c) in case ch_type c of
        CHANNEL_TYPE_1ofN \<Rightarrow> if unat (counter_state c) = bundles c then ok else Some False
      | CHANNEL_TYPE_CLK_1EDGE \<Rightarrow> ok
      | CHANNEL_TYPE_CLK_2EDGE \<Rightarrow> ok
      | CHANNEL_TYPE_BD_4P \<Rightarrow> ok
      | CHANNEL_TYPE_BD_2P \<Rightarrow> do { INVARIANT (has_ack c); if st_full stat then ok else Some False }
      | CHANNEL_TYPE_LEDR \<Rightarrow> if has_ack c then (if st_full stat then ok else Some False) else ok
      | _ \<Rightarrow> Some True)"

definition assert_validity :: "status_summary \<Rightarrow> bool \<Rightarrow> channel \<Rightarrow> bool option" where
  "assert_validity stat expect_valid c =
     (let by_signal = (\<not> x_valid stat \<and> expect_valid = valid_active stat) in case ch_type c of
        CHANNEL_TYPE_1ofN \<Rightarrow>
          if has_valid c then Some by_signal
          else Some (if unat (counter_state c) = bundles c then expect_valid
                     else if counter_state c = 0 then \<not> expect_valid else False)
      | CHANNEL_TYPE_BD_4P \<Rightarrow> do { INVARIANT (has_valid c); Some by_signal }
      | CHANNEL_TYPE_BD_2P \<Rightarrow> do { INVARIANT (has_ack c); Some (st_full stat = expect_valid) }
      | CHANNEL_TYPE_LEDR \<Rightarrow> Some (has_ack c \<and> st_full stat = expect_valid)
      | CHANNEL_TYPE_CLK_SRC1 \<Rightarrow> Some False
      | CHANNEL_TYPE_CLK_SRC2 \<Rightarrow> Some False
      | CHANNEL_TYPE_CLK_1EDGE \<Rightarrow> Some False
      | CHANNEL_TYPE_CLK_2EDGE \<Rightarrow> Some False
      | _ \<Rightarrow> Some True)"

text \<open>The answer is the policy to apply: \<open>E\<close> (the policy for failed expectations), fatal for an unknown keyword, or none.\<close>

definition assert_status :: "(string \<Rightarrow> value_type option) \<Rightarrow> error_policy_enum \<Rightarrow> node_view \<Rightarrow> string \<Rightarrow> channel \<Rightarrow> error_policy_enum option" where
  "assert_status num E vw v c = do {
     stat \<leftarrow> summarize_status vw c;
     let answer = (\<lambda>ok. if ok then ERROR_NONE else E);
     if x_counter c \<noteq> 0 \<or> ch_type c = CHANNEL_TYPE_SINGLE_TRACK then Some E
     else case num v of
       Some expect \<Rightarrow> map_option answer (assert_value stat expect c)
     | None \<Rightarrow>
         if v = ''valid'' \<or> v = ''neutral'' then map_option answer (assert_validity stat (v = ''valid'') c)
         else if v = ''full'' \<or> v = ''empty'' then map_option answer (assert_validity stat (v = ''full'') c)
         else if v = ''ack'' \<or> v = ''neg-ack'' then
           Some (answer (four_phase c \<and> has_ack c \<and> (v = ''ack'') = ack_active stat))
         else if v = ''waiting-sender'' then Some (answer (waiting_sender stat))
         else if v = ''waiting-receiver'' then Some (answer (waiting_receiver stat))
         else Some ERROR_FATAL }"

end
