(* ===== verification/Channel_Manager.thy ===== *)
theory Channel_Manager
  imports Prs_Channel Prs_Excl Prs_Flush
begin

text \<open>
  The pool of channels (class \<^verbatim>\<open>channel_manager\<close> of src/sim/prsim/Channel-prsim.cc): registration of channels and their
  nodes, the callback for a node that changed, operations on all channels, and checkpoints.

  The names of nodes are looked up in the module that is simulated (\<^verbatim>\<open>parse_node_to_index\<close>); the table of these
  names is an argument of the operations, with 0 for a name that does not exist. The Boolean result of an operation
  is the error code of the source; what was changed before the error stays changed. None is an abort.
\<close>

record channel_manager =
  channel_pool :: "channel list"
  channel_index_set :: "string \<rightharpoonup> nat"
  node_channels_map :: "node_index_type \<rightharpoonup> nat list"

definition channel_manager_new :: channel_manager where
  "channel_manager_new = \<lparr>channel_pool = [], channel_index_set = Map.empty, node_channels_map = Map.empty\<rparr>"

definition node_view_of :: "prsim_state \<Rightarrow> node_view" where
  "node_view_of s i = map_option node_value (get_node s i)"

type_synonym reg_state = "channel_manager \<times> prsim_state"
type_synonym reg_op = "reg_state \<Rightarrow> (bool \<times> reg_state) option"

definition and_then :: "reg_op \<Rightarrow> reg_op \<Rightarrow> reg_op" where
  "and_then f g x = (case f x of Some (False, y) \<Rightarrow> g y | z \<Rightarrow> z)"

definition reg_channel :: "nat \<Rightarrow> (channel \<Rightarrow> channel) \<Rightarrow> reg_op" where
  "reg_channel key f = (\<lambda>(m, s). do {
     c \<leftarrow> nth_opt (channel_pool m) key;
     Some (False, m\<lparr>channel_pool := (channel_pool m)[key := f c]\<rparr>, s) })"

text \<open>\<^verbatim>\<open>state.__get_node(ni).set_in_channel(); node_channels_map[ni].insert(key)\<close>\<close>

definition reg_node :: "nat \<Rightarrow> node_index_type \<Rightarrow> reg_op" where
  "reg_node key ni = (\<lambda>(m, s). do {
     s1 \<leftarrow> mod_node s ni set_in_channel;
     let l = (case node_channels_map m ni of Some l \<Rightarrow> l | None \<Rightarrow> []);
     Some (False, m\<lparr>node_channels_map := (node_channels_map m)(ni \<mapsto> set_insert key l)\<rparr>, s1) })"

section \<open>Registration\<close>

fun show_nat :: "nat \<Rightarrow> string" where
  "show_nat n = (if n < 10 then [char_of (48 + n)] else show_nat (n div 10) @ [char_of (48 + n mod 10)])"
declare show_nat.simps [simp del]

definition rail_path :: "string \<Rightarrow> string \<Rightarrow> nat \<Rightarrow> string \<Rightarrow> nat \<Rightarrow> nat \<Rightarrow> nat \<Rightarrow> string" where
  "rail_path base bundle_name nb rail_name nr j k = base @
     (if bundle_name \<noteq> [] then ''.'' @ bundle_name @ (if nb \<noteq> 0 then ''['' @ show_nat j @ '']'' else []) else []) @
     ''.'' @ rail_name @ (if nr \<noteq> 0 then ''['' @ show_nat k @ '']'' else [])"

text \<open>One rail: an unknown name, or a node that is a rail already, is an error.\<close>

definition assign_rail :: "nat \<Rightarrow> nat \<times> nat \<times> node_index_type \<Rightarrow> node_index_type set \<Rightarrow> reg_op" where
  "assign_rail key x seen = (case x of (j, k, ni) \<Rightarrow>
     if ni \<noteq> 0 then
       and_then (reg_channel key (\<lambda>c. c\<lparr>ch_data := (ch_data c)[j := (ch_data c ! j)[k := ni]],
                                       node_to_rail := (node_to_rail c)(ni \<mapsto> (j, k))\<rparr>))
         (and_then (reg_node key ni) (\<lambda>y. Some (ni \<in> seen, y)))
     else (\<lambda>y. Some (True, y)))"

fun assign_rails :: "nat \<Rightarrow> (nat \<times> nat \<times> node_index_type) list \<Rightarrow> node_index_type set \<Rightarrow> reg_op" where
  "assign_rails key [] seen y = Some (False, y)"
| "assign_rails key (x # xs) seen y =
     and_then (assign_rail key x seen) (assign_rails key xs (insert (snd (snd x)) seen)) y"

definition count_channel :: "nat \<Rightarrow> reg_op" where
  "count_channel key = (\<lambda>(m, s). do {
     c \<leftarrow> nth_opt (channel_pool m) key;
     c1 \<leftarrow> initialize_data_counter (node_view_of s) c;
     Some (False, m\<lparr>channel_pool := (channel_pool m)[key := c1]\<rparr>, s) })"

definition allocate_data_rails :: "(string \<Rightarrow> node_index_type) \<Rightarrow> nat \<Rightarrow> string \<Rightarrow> nat \<Rightarrow> string \<Rightarrow> nat \<Rightarrow> reg_op" where
  "allocate_data_rails names key bundle_name nb rail_name nr = (\<lambda>(m, s). do {
     c \<leftarrow> nth_opt (channel_pool m) key;
     let num_bundles = (if nb \<noteq> 0 then nb else 1);
     let num_rails = (if nr \<noteq> 0 then nr else 1);
     if rail_name \<noteq> [] then
       and_then (reg_channel key (\<lambda>c. c\<lparr>ch_data := replicate num_bundles (replicate num_rails 0), ch_radix := num_rails\<rparr>))
         (and_then (assign_rails key
             (concat (map (\<lambda>j. map (\<lambda>k. (j, k, names (rail_path (ch_name c) bundle_name nb rail_name nr j k))) [0..<num_rails]) [0..<num_bundles])) {})
           (count_channel key)) (m, s)
     else reg_channel key (\<lambda>c. c\<lparr>ch_data := [], ch_radix := 0\<rparr>) (m, s) })"

definition set_channel_2p_ack :: "(string \<Rightarrow> node_index_type) \<Rightarrow> nat \<Rightarrow> string \<Rightarrow> bool \<Rightarrow> reg_op" where
  "set_channel_2p_ack names key a ack_init =
     (if names a \<noteq> 0 then
        and_then (reg_channel key (\<lambda>c. c\<lparr>ack_signal := names a\<rparr>))
          (and_then (reg_node key (names a)) (reg_channel key (set_ack_init ack_init)))
      else (\<lambda>y. Some (True, y)))"

definition set_channel_2p_req :: "(string \<Rightarrow> node_index_type) \<Rightarrow> nat \<Rightarrow> string \<Rightarrow> bool \<Rightarrow> reg_op" where
  "set_channel_2p_req names key r req_init =
     (if names r \<noteq> 0 then
        and_then (reg_channel key (\<lambda>c. c\<lparr>valid_signal := names r\<rparr>))
          (and_then (reg_node key (names r)) (reg_channel key (set_valid_sense req_init)))
      else (\<lambda>y. Some (True, y)))"

text \<open>The error of an alias leaves the signal assigned.\<close>

definition set_ack_of :: "(string \<Rightarrow> node_index_type) \<Rightarrow> string \<Rightarrow> nat \<Rightarrow> bool \<Rightarrow> bool \<Rightarrow> reg_op" where
  "set_ack_of names base key ack_sense ack_init =
     and_then (reg_channel key (\<lambda>c. set_ack_init ack_init (set_ack_active ack_sense c))) (\<lambda>(m, s).
       let ai = names (base @ (if ack_sense then ''.a'' else ''.e'')) in
       if ai = 0 then Some (True, m, s)
       else do {
         c \<leftarrow> nth_opt (channel_pool m) key;
         and_then (reg_channel key (\<lambda>c. snd (set_ack_signal ai c)))
           (if fst (set_ack_signal ai c) then (\<lambda>y. Some (True, y)) else reg_node key ai) (m, s) })"

definition set_valid_of :: "(string \<Rightarrow> node_index_type) \<Rightarrow> string \<Rightarrow> nat \<Rightarrow> string option \<Rightarrow> bool \<Rightarrow> reg_op" where
  "set_valid_of names base key vname validity_sense =
     and_then (reg_channel key (set_valid_sense validity_sense)) (\<lambda>(m, s).
       let vi = names (case vname of Some v \<Rightarrow> base @ ''.'' @ v | None \<Rightarrow> base @ (if validity_sense then ''.v'' else ''.n'')) in
       if vi = 0 then Some (True, m, s)
       else do {
         c \<leftarrow> nth_opt (channel_pool m) key;
         and_then (reg_channel key (\<lambda>c. snd (set_valid_signal vi c)))
           (if fst (set_valid_signal vi c) \<or> ack_signal c = vi then (\<lambda>y. Some (True, y)) else reg_node key vi) (m, s) })"

definition set_channel_ack_valid :: "(string \<Rightarrow> node_index_type) \<Rightarrow> string \<Rightarrow> bool \<Rightarrow> bool \<Rightarrow> bool \<Rightarrow> string option \<Rightarrow> bool \<Rightarrow> bool \<Rightarrow> reg_op" where
  "set_channel_ack_valid names base have_ack ack_sense ack_init vname have_validity validity_sense = (\<lambda>(m, s).
     case channel_index_set m base of
       None \<Rightarrow> Some (True, m, s)
     | Some key \<Rightarrow>
         and_then (if have_ack then set_ack_of names base key ack_sense ack_init else (\<lambda>y. Some (False, y)))
           (if have_validity then set_valid_of names base key vname validity_sense else (\<lambda>y. Some (False, y))) (m, s))"

text \<open>A fresh channel under a new name; an existing name is an error.\<close>

definition register_channel :: "time_type \<Rightarrow> string \<Rightarrow> (channel \<Rightarrow> channel) \<Rightarrow> (nat \<Rightarrow> reg_op) \<Rightarrow> reg_op" where
  "register_channel dflt base f g = (\<lambda>(m, s).
     let key = length (channel_pool m) in
     if channel_index_set m base \<noteq> None then Some (True, m, s)
     else g key (m\<lparr>channel_index_set := (channel_index_set m)(base \<mapsto> key),
                   channel_pool := channel_pool m @ [f ((channel_new dflt)\<lparr>ch_name := base\<rparr>)]\<rparr>, s))"

definition new_channel :: "time_type \<Rightarrow> (string \<Rightarrow> node_index_type) \<Rightarrow> string \<Rightarrow> bool \<Rightarrow> string \<Rightarrow> nat \<Rightarrow> string \<Rightarrow> nat \<Rightarrow> bool
    \<Rightarrow> bool \<Rightarrow> bool \<Rightarrow> bool \<Rightarrow> bool \<Rightarrow> bool \<Rightarrow> reg_op" where
  "new_channel dflt names base is_process bundle_name nb rail_name nr active_low have_ack ack_sense ack_init have_validity validity_sense =
     (if \<not> is_process then (\<lambda>y. Some (True, y))
      else register_channel dflt base (set_data_sense active_low) (\<lambda>key.
        and_then (allocate_data_rails names key bundle_name nb rail_name nr)
          (set_channel_ack_valid names base have_ack ack_sense ack_init None have_validity validity_sense)))"

definition new_channel_ledr :: "time_type \<Rightarrow> (string \<Rightarrow> node_index_type) \<Rightarrow> string \<Rightarrow> string \<Rightarrow> bool \<Rightarrow> nat \<Rightarrow> string \<Rightarrow> bool \<Rightarrow> bool
    \<Rightarrow> string \<Rightarrow> bool \<Rightarrow> reg_op" where
  "new_channel_ledr dflt names base ack_name ack_init nb data_name data_init active_low repeat_name repeat_init =
     register_channel dflt base (\<lambda>c. set_data_sense active_low (c\<lparr>ch_type := CHANNEL_TYPE_LEDR\<rparr>)) (\<lambda>key.
       and_then (if ack_name \<noteq> [] then set_channel_2p_ack names key (base @ ''.'' @ ack_name) ack_init else (\<lambda>y. Some (False, y)))
         (and_then (set_channel_2p_req names key (base @ ''.'' @ repeat_name) repeat_init)
           (if nb \<noteq> 0 then (\<lambda>y. Some (True, y))
            else let ni = names (base @ ''.'' @ data_name) in
              and_then (reg_channel key (\<lambda>c. c\<lparr>ch_data := [[0]], ch_radix := 1\<rparr>))
                (if ni = 0 then (\<lambda>y. Some (True, y))
                 else and_then (reg_channel key (\<lambda>c. c\<lparr>ch_data := [[ni]], node_to_rail := (node_to_rail c)(ni \<mapsto> (0, 0))\<rparr>))
                   (and_then (reg_node key ni)
                     (and_then (reg_channel key (set_ack_active data_init)) (count_channel key)))))))"

definition new_channel_bd4p :: "time_type \<Rightarrow> (string \<Rightarrow> node_index_type) \<Rightarrow> string \<Rightarrow> bool \<Rightarrow> bool \<Rightarrow> bool \<Rightarrow> string \<Rightarrow> nat \<Rightarrow> bool \<Rightarrow> reg_op" where
  "new_channel_bd4p dflt names base ack_sense ack_init req_sense data_name nr active_low =
     register_channel dflt base (\<lambda>c. set_data_sense active_low (c\<lparr>ch_type := CHANNEL_TYPE_BD_4P, ch_timing_mode := CHANNEL_TIMING_AFTER\<rparr>)) (\<lambda>key.
       and_then (allocate_data_rails names key [] 0 data_name nr)
         (set_channel_ack_valid names base True ack_sense ack_init None True req_sense))"

definition new_channel_bd2p :: "time_type \<Rightarrow> (string \<Rightarrow> node_index_type) \<Rightarrow> string \<Rightarrow> string \<Rightarrow> bool \<Rightarrow> string \<Rightarrow> bool \<Rightarrow> string \<Rightarrow> nat \<Rightarrow> bool \<Rightarrow> reg_op" where
  "new_channel_bd2p dflt names base ack_name ack_init req_name req_init data_name nr active_low =
     register_channel dflt base (\<lambda>c. c\<lparr>ch_type := CHANNEL_TYPE_BD_2P, ch_timing_mode := CHANNEL_TIMING_AFTER\<rparr>) (\<lambda>key.
       and_then (set_channel_2p_ack names key (base @ ''.'' @ ack_name) ack_init)
         (and_then (set_channel_2p_req names key (base @ ''.'' @ req_name) req_init)
           (and_then (reg_channel key (set_data_sense active_low)) (allocate_data_rails names key [] 0 data_name nr))))"

definition new_channel_clocked :: "channel_types \<Rightarrow> time_type \<Rightarrow> (string \<Rightarrow> node_index_type) \<Rightarrow> string \<Rightarrow> string \<Rightarrow> bool \<Rightarrow> string \<Rightarrow> nat \<Rightarrow> bool \<Rightarrow> reg_op" where
  "new_channel_clocked t dflt names base clkname clk_sense data_name nr active_low =
     register_channel dflt base (\<lambda>c. set_data_sense active_low (c\<lparr>ch_type := t, ch_timing_mode := CHANNEL_TIMING_AFTER\<rparr>)) (\<lambda>key.
       and_then (allocate_data_rails names key [] 0 data_name nr)
         (set_channel_ack_valid names base False False False (Some clkname) True clk_sense))"

definition new_channel_clocked_1edge :: "time_type \<Rightarrow> (string \<Rightarrow> node_index_type) \<Rightarrow> string \<Rightarrow> string \<Rightarrow> bool \<Rightarrow> string \<Rightarrow> nat \<Rightarrow> bool \<Rightarrow> reg_op" where
  "new_channel_clocked_1edge = new_channel_clocked CHANNEL_TYPE_CLK_1EDGE"

definition new_channel_clocked_2edge :: "time_type \<Rightarrow> (string \<Rightarrow> node_index_type) \<Rightarrow> string \<Rightarrow> string \<Rightarrow> bool \<Rightarrow> string \<Rightarrow> nat \<Rightarrow> bool \<Rightarrow> reg_op" where
  "new_channel_clocked_2edge = new_channel_clocked CHANNEL_TYPE_CLK_2EDGE"

text \<open>A clock source may be registered again: the existing channel is reconfigured. The error of its configuration is not looked at.\<close>

definition configure_clock :: "node_index_type \<Rightarrow> bool \<Rightarrow> bool \<Rightarrow> bool \<Rightarrow> channel \<Rightarrow> channel" where
  "configure_clock vi clk_2edge clk_sense clk_init c =
     (set_valid_sense (if clk_2edge then clk_init else clk_sense)
       (c\<lparr>ch_type := (if clk_2edge then CHANNEL_TYPE_CLK_SRC2 else CHANNEL_TYPE_CLK_SRC1)\<rparr>))\<lparr>valid_signal := vi\<rparr>"

definition new_clock_source :: "time_type \<Rightarrow> (string \<Rightarrow> node_index_type) \<Rightarrow> string \<Rightarrow> bool \<Rightarrow> bool \<Rightarrow> bool \<Rightarrow> int \<Rightarrow> reg_op" where
  "new_clock_source dflt names base clk_2edge clk_sense clk_init cycles = (\<lambda>(m, s).
     let vi = names base in
     if vi = 0 then Some (True, m, s)
     else
       let go = (\<lambda>key. and_then (reg_channel key (configure_clock vi clk_2edge clk_sense clk_init))
                   (and_then (reg_node key vi) (reg_channel key (\<lambda>c. snd (set_clock_source cycles c))))) in
       case channel_index_set m base of
         Some key \<Rightarrow> go key (m, s)
       | None \<Rightarrow> register_channel dflt base (\<lambda>c. c\<lparr>ch_timing_mode := CHANNEL_TIMING_AFTER\<rparr>) go (m, s))"

text \<open>Each of these commands expands an array reference and handles the channels in turn until one fails.\<close>

fun for_all_refs :: "('a \<Rightarrow> reg_op) \<Rightarrow> 'a list \<Rightarrow> reg_op" where
  "for_all_refs f [] y = Some (False, y)"
| "for_all_refs f (x # xs) y = and_then (f x) (for_all_refs f xs) y"

section \<open>Operations on the pool\<close>

definition channel_lookup :: "string \<Rightarrow> channel_manager \<Rightarrow> channel option" where
  "channel_lookup nm m = do { k \<leftarrow> channel_index_set m nm; nth_opt (channel_pool m) k }"

definition apply_all :: "(channel \<Rightarrow> channel) \<Rightarrow> channel_manager \<Rightarrow> channel_manager" where
  "apply_all f m = m\<lparr>channel_pool := map f (channel_pool m)\<rparr>"

text \<open>The pool with the events, exceptions and random numbers of the channels that were handled so far.\<close>

record pool_run =
  pr_pool :: "channel list"
  pr_events :: "env_event list"
  pr_exceptions :: "channel_exception list"
  pr_pos :: nat

definition run_channel :: "(chan_run \<Rightarrow> chan_run option) \<Rightarrow> nat \<Rightarrow> pool_run \<Rightarrow> pool_run option" where
  "run_channel f k p = do {
     c \<leftarrow> nth_opt (pr_pool p) k;
     r \<leftarrow> f \<lparr>cr_chan = c, cr_events = pr_events p, cr_exceptions = pr_exceptions p, cr_pos = pr_pos p\<rparr>;
     Some \<lparr>pr_pool = (pr_pool p)[k := cr_chan r], pr_events = cr_events r, pr_exceptions = cr_exceptions r, pr_pos = cr_pos r\<rparr> }"

fun run_channels :: "(chan_run \<Rightarrow> chan_run option) \<Rightarrow> nat list \<Rightarrow> pool_run \<Rightarrow> pool_run option" where
  "run_channels f [] p = Some p"
| "run_channels f (k # ks) p = do { p1 \<leftarrow> run_channel f k p; run_channels f ks p1 }"

definition pool_start :: "channel_manager \<Rightarrow> nat \<Rightarrow> pool_run" where
  "pool_start m pos = \<lparr>pr_pool = channel_pool m, pr_events = [], pr_exceptions = [], pr_pos = pos\<rparr>"

definition manager_process_node :: "chan_env \<Rightarrow> node_view \<Rightarrow> node_index_type \<Rightarrow> value_enum \<Rightarrow> value_enum \<Rightarrow> channel_manager \<Rightarrow> pool_run \<Rightarrow> pool_run option" where
  "manager_process_node env vw ni prev nxt m p = (case node_channels_map m ni of
     Some ks \<Rightarrow> run_channels (ch_process_node env vw ni prev nxt) ks p
   | None \<Rightarrow> Some p)"

definition resume_channel :: "chan_env \<Rightarrow> node_view \<Rightarrow> string \<Rightarrow> channel_manager \<Rightarrow> pool_run \<Rightarrow> (bool \<times> pool_run) option" where
  "resume_channel env vw nm m p = (case channel_index_set m nm of
     None \<Rightarrow> Some (True, p)
   | Some k \<Rightarrow> map_option (Pair False) (run_channel (ch_resume env vw) k p))"

definition resume_all_channels :: "chan_env \<Rightarrow> node_view \<Rightarrow> pool_run \<Rightarrow> pool_run option" where
  "resume_all_channels env vw p = run_channels (ch_resume env vw) [0..<length (pr_pool p)] p"

definition reset_channel :: "chan_env \<Rightarrow> string \<Rightarrow> channel_manager \<Rightarrow> pool_run \<Rightarrow> (bool \<times> pool_run) option" where
  "reset_channel env nm m p = (case channel_index_set m nm of
     None \<Rightarrow> Some (True, p)
   | Some k \<Rightarrow> map_option (Pair False) (run_channel (ch_reset env) k p))"

definition reset_all_channels :: "chan_env \<Rightarrow> pool_run \<Rightarrow> pool_run option" where
  "reset_all_channels env p = run_channels (ch_reset env) [0..<length (pr_pool p)] p"

definition manager_initialize :: "channel_manager \<Rightarrow> channel_manager option" where
  "manager_initialize m = map_option (\<lambda>cs. m\<lparr>channel_pool := cs\<rparr>) (those (map channel_initialize (channel_pool m)))"

definition clobber_all :: "channel_manager \<Rightarrow> channel_manager" where
  "clobber_all m = m\<lparr>node_channels_map := Map.empty, channel_index_set := Map.empty, channel_pool := []\<rparr>"

definition channels_of :: "channel_manager \<Rightarrow> node_index_type \<Rightarrow> channel list option" where
  "channels_of m ni = (case node_channels_map m ni of Some ks \<Rightarrow> those (map (nth_opt (channel_pool m)) ks) | None \<Rightarrow> Some [])"

definition manager_node_has_fanin :: "node_index_type \<Rightarrow> channel_manager \<Rightarrow> bool option" where
  "manager_node_has_fanin ni m = map_option (list_ex (may_drive_node ni)) (channels_of m ni)"

definition manager_node_has_fanout :: "node_index_type \<Rightarrow> channel_manager \<Rightarrow> bool option" where
  "manager_node_has_fanout ni m = map_option (list_ex (reads_node ni)) (channels_of m ni)"

text \<open>
  A failed expectation is recorded in the simulator's list of exceptions unless its policy is at most a warning
  (\<^verbatim>\<open>process_data\<close>).
\<close>

definition recorded_exceptions :: "error_policy_enum \<Rightarrow> channel_exception list \<Rightarrow> channel_exception list" where
  "recorded_exceptions e xs = (if e > ERROR_WARN then xs else [])"

text \<open>
  The part of \<^verbatim>\<open>State::execute_immediately\<close> that serves a node of a channel: the channels of the node are told, then
  the events that they ask for enter the queue.
\<close>

definition process_channels :: "chan_env \<Rightarrow> event_cause \<Rightarrow> node_index_type \<Rightarrow> value_enum \<Rightarrow> channel_manager \<Rightarrow> prsim_state
    \<Rightarrow> (error_policy_enum \<times> channel_exception list \<times> channel_manager \<times> prsim_state) option" where
  "process_channels env new_cause ni prev m s = do {
     p \<leftarrow> manager_process_node env (node_view_of s) ni prev (cause_val new_cause) m (pool_start m (oracle_pos s));
     (E, t) \<leftarrow> flush_channel_events (sim_env.truncate env) new_cause (pr_events p) ERROR_NONE (s\<lparr>oracle_pos := pr_pos p\<rparr>);
     Some (E, recorded_exceptions (channel_expect_fail_policy (policies s)) (pr_exceptions p), m\<lparr>channel_pool := pr_pool p\<rparr>, t) }"

text \<open>
  \<^verbatim>\<open>State::reset_channel\<close>, \<^verbatim>\<open>resume_channel\<close> and the operations on all channels: their events have no node as their
  cause. The severity of what flushing finds is not looked at.
\<close>

definition flush_pool :: "chan_env \<Rightarrow> channel_manager \<Rightarrow> prsim_state \<Rightarrow> pool_run \<Rightarrow> (channel_manager \<times> prsim_state) option" where
  "flush_pool env m s p = do {
     (E, t) \<leftarrow> flush_channel_events (sim_env.truncate env)
       \<lparr>cause_node = INVALID_NODE_INDEX, cause_val = LOGIC_OTHER, critical_trace_event = INVALID_TRACE_INDEX\<rparr>
       (pr_events p) ERROR_NONE (s\<lparr>oracle_pos := pr_pos p\<rparr>);
     Some (m\<lparr>channel_pool := pr_pool p\<rparr>, t) }"

definition state_reset_channel :: "chan_env \<Rightarrow> nat \<Rightarrow> channel_manager \<Rightarrow> prsim_state \<Rightarrow> (channel_manager \<times> prsim_state) option" where
  "state_reset_channel env k m s = run_channel (ch_reset env) k (pool_start m (oracle_pos s)) \<bind> flush_pool env m s"

definition state_reset_all_channels :: "chan_env \<Rightarrow> channel_manager \<Rightarrow> prsim_state \<Rightarrow> (channel_manager \<times> prsim_state) option" where
  "state_reset_all_channels env m s = reset_all_channels env (pool_start m (oracle_pos s)) \<bind> flush_pool env m s"

definition state_resume_channel :: "chan_env \<Rightarrow> nat \<Rightarrow> channel_manager \<Rightarrow> prsim_state \<Rightarrow> (channel_manager \<times> prsim_state) option" where
  "state_resume_channel env k m s = run_channel (ch_resume env (node_view_of s)) k (pool_start m (oracle_pos s)) \<bind> flush_pool env m s"

definition state_resume_all_channels :: "chan_env \<Rightarrow> channel_manager \<Rightarrow> prsim_state \<Rightarrow> (channel_manager \<times> prsim_state) option" where
  "state_resume_all_channels env m s = resume_all_channels env (node_view_of s) (pool_start m (oracle_pos s)) \<bind> flush_pool env m s"

section \<open>Checkpoints\<close>

text \<open>The stream is the list of the values written to it. The order of the elements of a set or map plays no role.\<close>

datatype ck_item = CkNat nat | CkTime time_type | CkMode channel_timing_enum | CkType channel_types
  | CkFlags "16 word" | CkByte "8 word" | CkBool bool | CkString string | CkValue "value_type \<times> bool"

definition channel_save_checkpoint :: "channel \<Rightarrow> ck_item list" where
  "channel_save_checkpoint c =
     [CkNat (ack_signal c), CkNat (valid_signal c), CkMode (ch_timing_mode c), CkTime (ch_after_min c),
      CkTime (ch_after_max c), CkTime (ch_probability c), CkType (ch_type c), CkFlags (ch_flags c),
      CkByte (counter_state c), CkByte (x_counter c), CkNat (bundles c), CkNat (ch_radix c)] @
     map CkNat (all_rails c) @ [CkNat (value_index c), CkNat (iteration c)] @
     (case dumplog c of Some (f, _) \<Rightarrow> [CkBool True, CkString f] | None \<Rightarrow> [CkBool False]) @
     [CkNat (length (ch_values c))] @ map CkValue (ch_values c)"

fun get_nats :: "nat \<Rightarrow> ck_item list \<Rightarrow> (nat list \<times> ck_item list) option" where
  "get_nats 0 xs = Some ([], xs)"
| "get_nats (Suc n) (CkNat x # xs) = do { (l, ys) \<leftarrow> get_nats n xs; Some (x # l, ys) }"
| "get_nats (Suc n) xs = None"

fun get_rows :: "nat \<Rightarrow> nat \<Rightarrow> ck_item list \<Rightarrow> (nat list list \<times> ck_item list) option" where
  "get_rows 0 w xs = Some ([], xs)"
| "get_rows (Suc n) w xs = do { (l, ys) \<leftarrow> get_nats w xs; (ls, zs) \<leftarrow> get_rows n w ys; Some (l # ls, zs) }"

fun get_values :: "nat \<Rightarrow> ck_item list \<Rightarrow> ((value_type \<times> bool) list \<times> ck_item list) option" where
  "get_values 0 xs = Some ([], xs)"
| "get_values (Suc n) (CkValue v # xs) = do { (l, ys) \<leftarrow> get_values n xs; Some (v # l, ys) }"
| "get_values (Suc n) xs = None"

text \<open>\<^verbatim>\<open>read_value\<close> of one item of a given kind.\<close>

definition read_with :: "(ck_item \<Rightarrow> 'a option) \<Rightarrow> ck_item list \<Rightarrow> ('a \<times> ck_item list) option" where
  "read_with f xs = (case xs of [] \<Rightarrow> None | x # ys \<Rightarrow> map_option (\<lambda>v. (v, ys)) (f x))"

definition read_nat :: "ck_item list \<Rightarrow> (nat \<times> ck_item list) option" where
  "read_nat = read_with (\<lambda>x. case x of CkNat v \<Rightarrow> Some v | _ \<Rightarrow> None)"
definition read_time :: "ck_item list \<Rightarrow> (time_type \<times> ck_item list) option" where
  "read_time = read_with (\<lambda>x. case x of CkTime v \<Rightarrow> Some v | _ \<Rightarrow> None)"
definition read_mode :: "ck_item list \<Rightarrow> (channel_timing_enum \<times> ck_item list) option" where
  "read_mode = read_with (\<lambda>x. case x of CkMode v \<Rightarrow> Some v | _ \<Rightarrow> None)"
definition read_type :: "ck_item list \<Rightarrow> (channel_types \<times> ck_item list) option" where
  "read_type = read_with (\<lambda>x. case x of CkType v \<Rightarrow> Some v | _ \<Rightarrow> None)"
definition read_flags :: "ck_item list \<Rightarrow> (16 word \<times> ck_item list) option" where
  "read_flags = read_with (\<lambda>x. case x of CkFlags v \<Rightarrow> Some v | _ \<Rightarrow> None)"
definition read_byte :: "ck_item list \<Rightarrow> (8 word \<times> ck_item list) option" where
  "read_byte = read_with (\<lambda>x. case x of CkByte v \<Rightarrow> Some v | _ \<Rightarrow> None)"
definition read_bool :: "ck_item list \<Rightarrow> (bool \<times> ck_item list) option" where
  "read_bool = read_with (\<lambda>x. case x of CkBool v \<Rightarrow> Some v | _ \<Rightarrow> None)"
definition read_string :: "ck_item list \<Rightarrow> (string \<times> ck_item list) option" where
  "read_string = read_with (\<lambda>x. case x of CkString v \<Rightarrow> Some v | _ \<Rightarrow> None)"

text \<open>The log file is opened again for appending; the model keeps the lines written since it was opened.\<close>

definition load_log :: "ck_item list \<Rightarrow> channel \<Rightarrow> (channel \<times> ck_item list) option" where
  "load_log xs c = do {
     (b, ys) \<leftarrow> read_bool xs;
     if b then do { (f, zs) \<leftarrow> read_string ys; Some (c\<lparr>dumplog := Some (f, [])\<rparr>, zs) } else Some (c, ys) }"

definition channel_load_checkpoint :: "ck_item list \<Rightarrow> channel \<Rightarrow> (channel \<times> ck_item list) option" where
  "channel_load_checkpoint x0 c = do {
     (a, x1) \<leftarrow> read_nat x0;
     (v, x2) \<leftarrow> read_nat x1;
     (tm, x3) \<leftarrow> read_mode x2;
     (mn, x4) \<leftarrow> read_time x3;
     (mx, x5) \<leftarrow> read_time x4;
     (pr, x6) \<leftarrow> read_time x5;
     (t, x7) \<leftarrow> read_type x6;
     (fl, x8) \<leftarrow> read_flags x7;
     (cs, x9) \<leftarrow> read_byte x8;
     (xc, y0) \<leftarrow> read_byte x9;
     (b, y1) \<leftarrow> read_nat y0;
     (w, y2) \<leftarrow> read_nat y1;
     (rows, y3) \<leftarrow> get_rows b w y2;
     (vi, y4) \<leftarrow> read_nat y3;
     (it, y5) \<leftarrow> read_nat y4;
     (c1, y6) \<leftarrow> load_log y5 (c\<lparr>ack_signal := a, valid_signal := v, ch_timing_mode := tm, ch_after_min := mn,
        ch_after_max := mx, ch_probability := pr, ch_type := t, ch_flags := fl, counter_state := cs, x_counter := xc,
        ch_data := rows, ch_radix := w, value_index := vi, iteration := it\<rparr>);
     (n, y7) \<leftarrow> read_nat y6;
     (vs, y8) \<leftarrow> get_values n y7;
     Some (c1\<lparr>ch_values := vs\<rparr>, y8) }"

definition manager_save_checkpoint :: "channel_manager \<Rightarrow> ck_item list" where
  "manager_save_checkpoint m = CkNat (length (channel_pool m)) #
     concat (map (\<lambda>c. CkString (ch_name c) # channel_save_checkpoint c) (channel_pool m))"

text \<open>The map from nodes to channels is rebuilt; \<^verbatim>\<open>__node_to_rail\<close> is not.\<close>

definition index_nodes :: "nat \<Rightarrow> node_index_type list \<Rightarrow> (node_index_type \<rightharpoonup> nat list) \<Rightarrow> node_index_type \<rightharpoonup> nat list" where
  "index_nodes key ns mp = fold (\<lambda>ni mp. mp(ni \<mapsto> set_insert key (case mp ni of Some l \<Rightarrow> l | None \<Rightarrow> []))) ns mp"

fun load_channels :: "time_type \<Rightarrow> nat \<Rightarrow> ck_item list \<Rightarrow> channel_manager \<Rightarrow> (channel_manager \<times> ck_item list) option" where
  "load_channels dflt 0 xs m = Some (m, xs)"
| "load_channels dflt (Suc n) xs m = do {
     (nm, ys) \<leftarrow> read_string xs;
     let key = length (channel_pool m);
     (c, zs) \<leftarrow> channel_load_checkpoint ys (channel_new dflt);
     load_channels dflt n zs (m\<lparr>channel_pool := channel_pool m @ [c\<lparr>ch_name := nm\<rparr>],
        channel_index_set := (channel_index_set m)(nm \<mapsto> key),
        node_channels_map := index_nodes key (get_all_nodes c) (node_channels_map m)\<rparr>) }"

definition manager_load_checkpoint :: "time_type \<Rightarrow> ck_item list \<Rightarrow> (channel_manager \<times> ck_item list) option" where
  "manager_load_checkpoint dflt xs = do { (n, ys) \<leftarrow> read_nat xs; load_channels dflt n ys channel_manager_new }"

end
