(* ===== verification/Channel_Rails.thy ===== *)
theory Channel_Rails
  imports Channel_Manager
begin

unbundle bit_operations_syntax

text \<open>
  What the data rails of a channel carry: the events that a source asks for encode the digits of its value (1ofN) or its
  bits (bundled data, clocked channels), and reading the rails gives the value back, sign-extended when the channel is
  signed.
\<close>

section \<open>Asking for events\<close>

definition asked :: "chan_run \<Rightarrow> (node_index_type \<times> value_enum) list" where
  "asked r = map (\<lambda>e. (ee_node e, ee_value e)) (cr_events r)"

text \<open>\<open>asks r evs r'\<close>: only events are added, and they are \<open>evs\<close>.\<close>

definition asks :: "chan_run \<Rightarrow> (node_index_type \<times> value_enum) list \<Rightarrow> chan_run \<Rightarrow> bool" where
  "asks r evs r' \<longleftrightarrow> cr_chan r' = cr_chan r \<and> cr_exceptions r' = cr_exceptions r \<and> asked r' = asked r @ evs"

lemma asks_refl [simp]: "asks r [] r"
  by (simp add: asks_def)

lemma asks_trans: "asks r a r1 \<Longrightarrow> asks r1 b r2 \<Longrightarrow> asks r (a @ b) r2"
  by (simp add: asks_def)

lemma asks_push: "asks r [(ni, v)] (push_event env ni v r)"
  by (cases "ch_timing_mode (cr_chan r)") (simp_all add: asks_def asked_def push_event_def ENV_EVENT_def Let_def)

lemmas asks_chan = asks_def [THEN iffD1, THEN conjunct1]

lemma push_event_chan [simp]: "cr_chan (push_event env ni v r) = cr_chan r"
  using asks_push by (rule asks_chan)

lemma asks_push_all: "asks r (map (\<lambda>ni. (ni, v)) ns) (push_all_rails env ns v r)"
proof (induction ns arbitrary: r)
  case (Cons ni ns)
  from asks_trans [OF asks_push Cons] show ?case by (simp add: push_all_rails_def)
qed (simp add: push_all_rails_def)

lemma push_all_rails_chan [simp]: "cr_chan (push_all_rails env ns v r) = cr_chan r"
  using asks_push_all by (rule asks_chan)

section \<open>Digits\<close>

fun digits :: "nat \<Rightarrow> nat \<Rightarrow> nat \<Rightarrow> nat list" where
  "digits r 0 q = []"
| "digits r (Suc n) q = q mod r # digits r n (q div r)"

lemma length_digits [simp]: "length (digits r n q) = n"
  by (induction n arbitrary: q) simp_all

lemma digits_less: "0 < r \<Longrightarrow> d \<in> set (digits r n q) \<Longrightarrow> d < r"
  by (induction n arbitrary: q) auto

lemma horner_digits: "horner_sum id r (digits r n q) = q mod r ^ n"
proof (induction n arbitrary: q)
  case (Suc n)
  have "q mod r ^ Suc n = q mod r + r * (q div r mod r ^ n)" by (simp add: mod_mult2_eq)
  with Suc show ?case by simp
qed simp

section \<open>Rows that hold a digit\<close>

definition level_of :: "bool \<Rightarrow> bool \<Rightarrow> value_enum" where
  "level_of sense active = rail_level (active \<noteq> sense)"

lemma level_of_simps [simp]:
  "level_of sense a \<noteq> LOGIC_OTHER" "rail_active sense (level_of sense a) \<longleftrightarrow> a"
  "level_of sense a = level_of sense b \<longleftrightarrow> a = b"
  by (cases sense; cases a; simp add: level_of_def rail_active_def)+

lemma not_rail_active_OTHER [simp]: "\<not> rail_active sense LOGIC_OTHER"
  by (simp add: rail_active_def)

lemma level_cases: "v \<noteq> LOGIC_OTHER \<Longrightarrow> v = level_of sense (rail_active sense v)"
  by (cases v; cases sense; simp add: level_of_def rail_active_def)

text \<open>The levels of a row that carries the digit \<open>d\<close>; a row without an active rail carries no digit.\<close>

definition row_levels :: "bool \<Rightarrow> nat \<Rightarrow> nat \<Rightarrow> value_enum list" where
  "row_levels sense w d = map (\<lambda>k. level_of sense (k = d)) [0..<w]"

definition row_holds :: "bool \<Rightarrow> node_view \<Rightarrow> node_index_type list \<Rightarrow> nat \<Rightarrow> bool" where
  "row_holds sense vw row d \<longleftrightarrow> map vw row = map Some (row_levels sense (length row) d)"

lemma row_holds_nth: "row_holds sense vw row d \<longleftrightarrow> (\<forall>k < length row. vw (row ! k) = Some (level_of sense (k = d)))"
  unfolding row_holds_def row_levels_def by (subst list_eq_iff_nth_eq) simp

lemma scan_bundle_inactive:
  assumes "\<forall>ni \<in> set row. vw ni = Some (level_of sense False)"
  shows "scan_bundle sense vw row k hi = Some hi"
  using assms by (induction row arbitrary: k) auto

lemma scan_bundle_append:
  "scan_bundle sense vw (xs @ ys) k hi = scan_bundle sense vw xs k hi \<bind> scan_bundle sense vw ys (k + length xs)"
proof (induction xs arbitrary: k hi)
  case (Cons x xs)
  show ?case by (cases "vw x") (auto simp: Cons)
qed simp

lemma scan_bundle_holds:
  assumes "row_holds sense vw row d" "d < length row"
  shows "scan_bundle sense vw row 0 None = Some (Some d)"
proof -
  from assms(2) have row: "row = take d row @ row ! d # drop (Suc d) row" by (simp add: id_take_nth_drop)
  have a: "\<forall>ni \<in> set (take d row). vw ni = Some (level_of sense False)"
    using assms by (auto simp: row_holds_nth in_set_conv_nth)
  have b: "\<forall>ni \<in> set (drop (Suc d) row). vw ni = Some (level_of sense False)"
    using assms by (auto simp: row_holds_nth in_set_conv_nth)
  have c: "vw (row ! d) = Some (level_of sense True)" using assms by (auto simp: row_holds_nth)
  have "scan_bundle sense vw (take d row @ row ! d # drop (Suc d) row) 0 None = Some (Some d)"
    using a b c assms(2) by (simp add: scan_bundle_append scan_bundle_inactive)
  with row show ?thesis by simp
qed

definition rows_hold :: "bool \<Rightarrow> node_view \<Rightarrow> node_index_type list list \<Rightarrow> nat list \<Rightarrow> bool" where
  "rows_hold sense vw rows ds \<longleftrightarrow> list_all2 (\<lambda>row d. row_holds sense vw row d \<and> d < length row) rows ds"

lemma read_bundles_holds:
  assumes "rows_hold sense vw rows ds"
  shows "read_bundles sense vw rdx rows ret = Some (fold (\<lambda>d a. a * of_nat rdx + of_nat d) ds ret)"
  using assms unfolding rows_hold_def
proof (induction rows ds arbitrary: ret rule: list_all2_induct)
  case (Cons row rows d ds)
  then have "scan_bundle sense vw row 0 None = Some (Some d)" by (simp add: scan_bundle_holds)
  with Cons show ?case by simp
qed simp

lemma fold_horner:
  "fold (\<lambda>d a. a * of_nat rdx + of_nat d) (rev ds) (0 :: value_type) = of_nat (horner_sum id rdx ds)"
  by (induction ds) (simp_all add: algebra_simps)

lemma read_bundles_digits:
  assumes "rows_hold sense vw rows (digits rdx (length rows) q)"
  shows "read_bundles sense vw rdx (rev rows) 0 = Some (of_nat (q mod rdx ^ length rows))"
proof -
  have "rows_hold sense vw (rev rows) (rev (digits rdx (length rows) q))"
    using assms by (simp add: rows_hold_def)
  from read_bundles_holds [OF this] show ?thesis by (simp add: fold_horner horner_digits)
qed

section \<open>Setting the rows\<close>

definition row_events :: "bool \<Rightarrow> node_index_type list \<Rightarrow> nat \<Rightarrow> (node_index_type \<times> value_enum) list" where
  "row_events sense row d = zip row (row_levels sense (length row) d)"

definition rows_events :: "bool \<Rightarrow> node_index_type list list \<Rightarrow> nat list \<Rightarrow> (node_index_type \<times> value_enum) list" where
  "rows_events sense rows ds = concat (map2 (row_events sense) rows ds)"

lemma rows_events_simps [simp]:
  "rows_events sense [] ds = []"
  "rows_events sense (row # rows) (d # ds) = row_events sense row d @ rows_events sense rows ds"
  by (simp_all add: rows_events_def)

lemma row_events_pair: "row_events sense [a, b] d = [(a, level_of sense (d = 0)), (b, level_of sense (d = 1))]"
  by (auto simp: row_events_def row_levels_def upt_rec)

lemma set_row_asks:
  "asks r (zip row (map (\<lambda>j. level_of sense (of_nat j = rm)) [k..<k + length row])) (set_row env sense rm k row r)"
proof (induction row arbitrary: k r)
  case (Cons ni row)
  let ?v = "rail_level ((of_nat k = rm) \<noteq> sense)"
  have "asks r ([(ni, ?v)] @ zip row (map (\<lambda>j. level_of sense (of_nat j = rm)) [Suc k..<Suc k + length row]))
     (set_row env sense rm (Suc k) row (push_event env ni ?v r))"
    by (rule asks_trans [OF asks_push Cons])
  moreover have "[k..<k + length (ni # row)] = k # [Suc k..<Suc k + length row]" by (simp add: upt_conv_Cons del: upt_Suc)
  ultimately show ?case by (simp add: level_of_def del: upt_Suc)
qed simp

lemma of_nat_word_less_iff: "j < 2 ^ 63 \<Longrightarrow> d < 2 ^ 63 \<Longrightarrow> (of_nat j :: value_type) = of_nat d \<longleftrightarrow> j = d"
  by (simp add: word_of_nat_eq_iff take_bit_nat_eq_self)

lemma sint_small: assumes "unat (q :: value_type) < 2 ^ 63" shows "sint q = int (unat q)"
proof -
  from assms have "int (unat q) < int (2 ^ 63)" by (simp only: of_nat_less_iff)
  then have "uint q < 2 ^ 63" by simp
  then have "signed_take_bit 63 (uint q) = uint q" by (intro signed_take_bit_int_eq_self) (auto intro: order_trans [OF _ uint_ge_0])
  then show ?thesis by (simp add: sint_uint)
qed

lemma unat_of_nat_small: "n < 2 ^ 63 \<Longrightarrow> unat (of_nat n :: value_type) = n"
  by (simp add: unat_of_nat)

lemma sdiv_nonneg: "int a sdiv int b = int (a div b)" "int a smod int b = int (a mod b)"
  by (simp_all add: signed_divide_int_def signed_modulo_int_def zdiv_int zmod_int minus_div_mult_eq_mod sgn_if)

lemma word_of_int_of_nat: "word_of_int (int n) = (of_nat n :: value_type)"
  by simp

lemma set_radix_rails_asks:
  assumes "0 < rdx" "rdx < 2 ^ 63" "unat q < 2 ^ 63" "\<forall>row \<in> set rows. length row = rdx"
  shows "\<exists>r'. set_radix_rails env sense (of_nat rdx) rows q r = Some r' \<and> asks r (rows_events sense rows (digits rdx (length rows) (unat q))) r'"
  using assms(3,4)
proof (induction rows arbitrary: q r)
  case (Cons row rows)
  let ?R = "of_nat rdx :: value_type" and ?d = "unat q mod rdx"
  have R: "unat ?R = rdx" using assms(2) by (simp add: unat_of_nat_small)
  then have sR: "sint ?R = int rdx" using assms(2) by (simp add: sint_small)
  have nz: "?R \<noteq> 0" using R assms(1) by auto
  have dv: "word_of_int (sint q sdiv sint ?R) = (of_nat (unat q div rdx) :: value_type)"
    by (simp only: sint_small [OF Cons.prems(1)] sR sdiv_nonneg word_of_int_of_nat)
  have md: "word_of_int (sint q smod sint ?R) = (of_nat ?d :: value_type)"
    by (simp only: sint_small [OF Cons.prems(1)] sR sdiv_nonneg word_of_int_of_nat)
  have small: "unat q div rdx < 2 ^ 63" using Cons.prems(1) by (meson div_le_dividend le_less_trans)
  then have u: "unat (of_nat (unat q div rdx) :: value_type) = unat q div rdx" by (simp add: unat_of_nat_small)
  let ?r1 = "set_row env sense (of_nat ?d) 0 row r"
  have "map (\<lambda>j. level_of sense ((of_nat j :: value_type) = of_nat ?d)) [0..<0 + length row] = row_levels sense (length row) ?d"
    unfolding row_levels_def
  proof (rule map_cong)
    fix j assume "j \<in> set [0..<length row]"
    with Cons.prems(2) assms(1,2) have "j < 2 ^ 63" "?d < 2 ^ 63" by (auto intro: less_trans [OF mod_less_divisor])
    then show "level_of sense ((of_nat j :: value_type) = of_nat ?d) = level_of sense (j = ?d)" by (simp only: of_nat_word_less_iff)
  qed simp
  then have 1: "asks r (row_events sense row ?d) ?r1" using set_row_asks [of r row sense "of_nat ?d" 0 env] by (simp add: row_events_def)
  from Cons.IH [of "of_nat (unat q div rdx)" ?r1] small u Cons.prems(2) obtain r' where
    2: "set_radix_rails env sense ?R rows (of_nat (unat q div rdx)) ?r1 = Some r'"
      "asks ?r1 (rows_events sense rows (digits rdx (length rows) (unat q div rdx))) r'" by auto
  from asks_trans [OF 1 2(2)] 2(1) nz dv md show ?case by simp
qed simp

lemma even_unat_iff: "even (unat v) \<longleftrightarrow> even (v :: value_type)"
proof -
  have "bit (unat v) 0 = bit v 0" by (simp add: bit_unsigned_iff)
  then show ?thesis by (simp add: bit_0)
qed

lemma level_of_invert: "invert_value (level_of sense a) = level_of sense (\<not> a)"
  by (cases a; cases sense; simp add: level_of_def)

lemma odd_level: "rail_level (((v :: value_type) AND 1 \<noteq> 0) \<noteq> sense) = level_of sense (odd v)"
  by (simp add: level_of_def and_one_eq odd_iff_mod_2_eq_one)

lemma set_binary_rails_asks:
  assumes "\<forall>row \<in> set rows. length row = 2"
  shows "\<exists>r'. set_binary_rails env sense rows v r = Some r' \<and> asks r (rows_events sense rows (digits 2 (length rows) (unat v))) r'"
  using assms
proof (induction rows arbitrary: v r)
  case (Cons row rows)
  from Cons.prems obtain a b where row: "row = [a, b]" by (auto simp: length_Suc_conv numeral_2_eq_2)
  let ?b = "level_of sense (odd v)" and ?nb = "level_of sense (even v)"
  let ?r1 = "push_event env b ?b (push_event env a ?nb r)"
  have 1: "asks r [(a, ?nb), (b, ?b)] ?r1" using asks_trans [OF asks_push asks_push] by simp
  from Cons.IH [of "drop_bit 1 v" ?r1] Cons.prems obtain r' where
    2: "set_binary_rails env sense rows (drop_bit 1 v) ?r1 = Some r'"
      "asks ?r1 (rows_events sense rows (digits 2 (length rows) (unat (drop_bit 1 v)))) r'" by auto
  have "unat (drop_bit 1 v) = unat v div 2" unfolding unat_drop_bit_eq by (simp add: drop_bit_eq_div)
  moreover have "(unat v mod 2 = 0) = even v" "(unat v mod 2 = 1) = odd v"
    by (simp_all only: flip: even_unat_iff) (simp_all add: even_iff_mod_2_eq_zero odd_iff_mod_2_eq_one)
  moreover have "set_binary_rails env sense (row # rows) v r = set_binary_rails env sense rows (drop_bit 1 v) ?r1"
    unfolding set_binary_rails.simps row odd_level Let_def level_of_invert by (simp add: nth_opt_def)
  ultimately show ?case using asks_trans [OF 1 2(2)] 2(1) by (simp add: row row_events_pair)
qed simp

section \<open>Buses\<close>

lemma set_bus_rails_asks:
  "asks r (zip row (map (\<lambda>k. level_of sense (bit v k)) [0..<length row])) (set_bus_rails env sense row v r)"
proof (induction row arbitrary: v r)
  case (Cons ni row)
  let ?v = "rail_level ((v AND 1 \<noteq> 0) \<noteq> sense)"
  have "asks r ([(ni, ?v)] @ zip row (map (\<lambda>k. level_of sense (bit (drop_bit 1 v) k)) [0..<length row]))
     (set_bus_rails env sense row (drop_bit 1 v) (push_event env ni ?v r))"
    by (rule asks_trans [OF asks_push Cons])
  moreover have "map (\<lambda>k. level_of sense (bit v k)) [0..<length (ni # row)] =
      level_of sense (odd v) # map (\<lambda>k. level_of sense (bit (drop_bit 1 v) k)) [0..<length row]"
    by (simp add: map_upt_Suc bit_0 bit_drop_bit_eq del: upt_Suc)
  ultimately show ?case by (simp only: odd_level set_bus_rails.simps) simp
qed simp

lemma read_bus_append: "read_bus sense vw (xs @ ys) ret = read_bus sense vw xs ret \<bind> read_bus sense vw ys"
proof (induction xs arbitrary: ret)
  case (Cons x xs)
  show ?case by (cases "vw x") (auto simp: Cons)
qed simp

lemma take_bit_Suc_word: "push_bit 1 (take_bit n (drop_bit 1 v)) OR (if bit v 0 then 1 else 0) = take_bit (Suc n) (v :: value_type)"
proof -
  have "push_bit 1 (take_bit n (drop_bit 1 v)) = take_bit n (v div 2) * 2" by (simp add: push_bit_eq_mult drop_bit_eq_div)
  moreover have "(take_bit n (v div 2) * 2 :: value_type) OR 1 = take_bit n (v div 2) * 2 + 1" by (simp add: or_one_eq)
  moreover have "take_bit (Suc n) v = take_bit n (v div 2) * 2 + of_bool (odd v)" by (simp add: take_bit_Suc mod_2_eq_odd)
  ultimately show ?thesis by (cases "odd v") (simp_all only: bit_0 of_bool_def if_True if_False not_False_eq_True or.right_neutral add_0_right)
qed

lemma read_bus_bits:
  assumes "\<forall>k < length row. vw (row ! k) = Some (level_of sense (bit v k))"
  shows "read_bus sense vw (rev row) 0 = Some (take_bit (length row) v)"
  using assms
proof (induction row arbitrary: v)
  case (Cons ni row)
  from Cons.prems have 1: "vw ni = Some (level_of sense (bit v 0))" "\<forall>k < length row. vw (row ! k) = Some (level_of sense (bit (drop_bit 1 v) k))"
    by (auto simp: All_less_Suc2 bit_drop_bit_eq)
  have "read_bus sense vw (rev (ni # row)) 0 = read_bus sense vw [ni] (take_bit (length row) (drop_bit 1 v))"
    by (simp only: rev.simps read_bus_append Cons.IH [OF 1(2)] Option.bind.simps)
  also have "\<dots> = Some (push_bit 1 (take_bit (length row) (drop_bit 1 v)) OR (if bit v 0 then 1 else 0))"
    unfolding read_bus.simps 1(1) Option.bind.simps level_of_simps INVARIANT_bind if_True by simp
  finally show ?case by (simp only: take_bit_Suc_word length_Cons)
qed simp

section \<open>Sign extension\<close>

lemma bit_int_bit:
  assumes "int_bit k = Some b" shows "k < 32" "bit b j \<longleftrightarrow> j < 64 \<and> (j = k \<or> k = 31 \<and> 31 \<le> j)"
proof -
  from assms show "k < 32" by (simp add: int_bit_def split: if_splits)
  from assms have "b = signed (push_bit k (1 :: 32 word))" by (simp add: int_bit_def split: if_splits)
  then have "bit b j \<longleftrightarrow> j < 64 \<and> k \<le> min j 31 \<and> bit (1 :: 32 word) (min j 31 - k)"
    by (simp only: bit_signed_iff bit_push_bit_iff) (use \<open>k < 32\<close> in \<open>auto simp: min_def\<close>)
  also have "\<dots> \<longleftrightarrow> j < 64 \<and> (j = k \<or> k = 31 \<and> 31 \<le> j)" using \<open>k < 32\<close> by (auto simp: bit_1_iff min_def)
  finally show "bit b j \<longleftrightarrow> j < 64 \<and> (j = k \<or> k = 31 \<and> 31 \<le> j)" .
qed

lemma sign_extend_spec:
  assumes "0 < w" "w \<le> 32"
  shows "sign_extend w (take_bit w v) = Some (signed_take_bit (w - 1) v)"
proof -
  from assms have "int_bit (w - 1) \<noteq> None" by (simp add: int_bit_def)
  then obtain b where b: "int_bit (w - 1) = Some b" by blast
  have "take_bit w v AND b \<noteq> 0 \<longleftrightarrow> bit v (w - 1)"
  proof -
    have "bit (take_bit w v AND b) j \<longleftrightarrow> j = w - 1 \<and> bit v (w - 1)" if "j < 64" for j
      using assms that by (cases "j = 31") (auto simp: bit_and_iff bit_take_bit_iff bit_int_bit [OF b])
    note 1 = this
    show ?thesis
    proof
      assume "take_bit w v AND b \<noteq> 0"
      moreover have "take_bit w v AND b = 0" if "\<not> (\<exists>j < 64. bit (take_bit w v AND b) j)"
        using that by (intro bit_word_eqI) auto
      ultimately have "\<exists>j < 64. bit (take_bit w v AND b) j" by blast
      with 1 show "bit v (w - 1)" by blast
    next
      assume "bit v (w - 1)"
      with 1 [of "w - 1"] assms have "bit (take_bit w v AND b) (w - 1)" by simp
      then show "take_bit w v AND b \<noteq> 0" by (auto simp del: bit_and_iff)
    qed
  qed
  moreover have "signed_take_bit (w - 1) v = (if bit v (w - 1) then take_bit w v OR push_bit w (- 1) else take_bit w v)"
  proof (rule bit_word_eqI)
    fix n :: nat
    assume "n < LENGTH(64)"
    then show "bit (signed_take_bit (w - 1) v) n = bit (if bit v (w - 1) then take_bit w v OR push_bit w (- 1) else take_bit w v) n"
      using assms by (cases "n < w"; cases "n = w - 1") (auto simp: bit_signed_take_bit_iff bit_or_iff bit_take_bit_iff bit_not_iff bit_mask_iff min_def not_le)
  qed
  ultimately show ?thesis using assms b by (simp add: sign_extend_def)
qed
lemma signed_take_bit_id:
  assumes "n < 64" "- (2 ^ n) \<le> sint v" "sint v < 2 ^ n" shows "signed_take_bit n v = (v :: value_type)"
proof -
  have "signed_take_bit n (word_of_int (sint v)) = (word_of_int (signed_take_bit n (sint v)) :: value_type)"
    by (rule bit_word_eqI) (auto simp: bit_signed_take_bit_iff bit_word_of_int_iff min_def assms(1) bit_sint_iff)
  also have "signed_take_bit n (sint v) = sint v" using assms by (simp add: signed_take_bit_int_eq_self)
  finally show ?thesis by simp
qed

section \<open>Sending a value\<close>

text \<open>The nodes after the events that a channel asked for have happened.\<close>

definition drive :: "(node_index_type \<times> value_enum) list \<Rightarrow> node_view \<Rightarrow> node_view" where
  "drive evs vw = fold (\<lambda>(ni, v) w. w(ni \<mapsto> v)) evs vw"

lemma drive_other: "ni \<notin> set (map fst evs) \<Longrightarrow> drive evs vw ni = vw ni"
  by (induction evs arbitrary: vw) (auto simp: drive_def)

lemma drive_in:
  assumes "distinct (map fst evs)" "(ni, v) \<in> set evs"
  shows "drive evs vw ni = Some v"
  using assms
proof (induction evs arbitrary: vw)
  case (Cons e evs)
  have step: "drive (e # evs) vw = drive evs (vw(fst e \<mapsto> snd e))" by (simp add: drive_def split_def)
  show ?case
  proof (cases "e = (ni, v)")
    case True
    with Cons.prems(1) have "ni \<notin> set (map fst evs)" by simp
    from drive_other [OF this] True show ?thesis unfolding step by simp
  qed (use Cons step in auto)
qed simp

definition is_one_of_n :: "channel \<Rightarrow> bool" where
  "is_one_of_n c \<longleftrightarrow> ch_type c = CHANNEL_TYPE_1ofN \<or> ch_type c = CHANNEL_TYPE_SINGLE_TRACK"

definition is_bus :: "channel \<Rightarrow> bool" where
  "is_bus c \<longleftrightarrow> data_is_bundled c \<or> ch_type c = CHANNEL_TYPE_CLK_1EDGE \<or> ch_type c = CHANNEL_TYPE_CLK_2EDGE"

text \<open>What \<^verbatim>\<open>allocate_data_rails\<close> establishes: a rectangular array of different nodes; a bus has one bundle.\<close>

definition rails_ok :: "channel \<Rightarrow> bool" where
  "rails_ok c \<longleftrightarrow> 0 < ch_radix c \<and> 0 < bundles c \<and> (\<forall>row \<in> set (ch_data c). length row = ch_radix c) \<and> distinct (all_rails c) \<and>
     (is_bus c \<longrightarrow> bundles c = 1)"

definition width :: "channel \<Rightarrow> nat" where
  "width c = (if data_is_bundled c then ch_radix c else bundles c)"

definition capacity :: "channel \<Rightarrow> nat" where
  "capacity c = (if is_one_of_n c then ch_radix c ^ bundles c else 2 ^ ch_radix c)"

text \<open>The digits of the value that each bundle holds (\<open>carries\<close>), or its bits on a bus.\<close>

definition carries :: "channel \<Rightarrow> node_view \<Rightarrow> value_type \<Rightarrow> bool" where
  "carries c vw v \<longleftrightarrow>
     (if is_one_of_n c then rows_hold (get_data_sense c) vw (ch_data c) (digits (ch_radix c) (bundles c) (unat v))
      else \<forall>k < ch_radix c. vw (hd (ch_data c) ! k) = Some (level_of (get_data_sense c) (bit v k)))"

definition decoded :: "channel \<Rightarrow> value_type \<Rightarrow> value_type option" where
  "decoded c v = (let ret = of_nat (unat v mod capacity c) in
     if is_signed c then do { INVARIANT (ch_radix c = 2 \<or> data_is_bundled c); sign_extend (width c) ret } else Some ret)"

lemma of_nat_unat_mod: "of_nat (unat v mod 2 ^ n) = take_bit n (v :: value_type)"
proof -
  have "unat (take_bit n v) = take_bit n (unat v)" by (rule unsigned_take_bit_eq)
  also have "\<dots> = unat v mod 2 ^ n" by (simp only: take_bit_eq_mod)
  finally have "unat (take_bit n v) = unat v mod 2 ^ n" .
  moreover have "of_nat (unat (take_bit n v)) = take_bit n v" by (simp only: of_nat_unat ucast_id)
  ultimately show ?thesis by (simp only:)
qed

lemma data_rails_value_carries:
  assumes "rails_ok c" "is_one_of_n c \<or> is_bus c" "carries c vw v"
  shows "data_rails_value vw c = decoded c v"
proof -
  have r: "ch_radix c \<noteq> 0" using assms(1) by (simp add: rails_ok_def)
  show ?thesis
  proof (cases "is_one_of_n c")
    case True
    then have "read_bundles (get_data_sense c) vw (ch_radix c) (rev (ch_data c)) 0 = Some (of_nat (unat v mod capacity c))"
      using assms(3) read_bundles_digits by (simp add: carries_def capacity_def bundles_def)
    with True r show ?thesis
      by (auto simp: data_rails_value_def decoded_def is_one_of_n_def is_clock_source_def width_def Let_def)
  next
    case False
    with assms(1,2) have b: "is_bus c" "bundles c = 1" by (simp_all add: rails_ok_def)
    then obtain row where row: "ch_data c = [row]" "length row = ch_radix c"
      using assms(1) by (auto simp: bundles_def rails_ok_def length_Suc_conv)
    with False assms(3) have "read_bus (get_data_sense c) vw (rev row) 0 = Some (take_bit (ch_radix c) v)"
      using read_bus_bits [of row vw "get_data_sense c" v] by (simp add: carries_def)
    with b row r False show ?thesis
      by (auto simp: data_rails_value_def decoded_def is_bus_def data_is_bundled_def is_clock_source_def width_def Let_def
          nth_opt_def capacity_def of_nat_unat_mod)
  qed
qed

text \<open>The events that carry a value, in the order in which they are asked for.\<close>

definition value_events :: "channel \<Rightarrow> value_type \<Rightarrow> (node_index_type \<times> value_enum) list" where
  "value_events c v =
     (if is_one_of_n c then rows_events (get_data_sense c) (ch_data c) (digits (ch_radix c) (bundles c) (unat v))
      else zip (hd (ch_data c)) (map (\<lambda>k. level_of (get_data_sense c) (bit v k)) [0..<ch_radix c]))"

text \<open>Division is signed, so a radix other than 2 restricts the values to 63 bits; a radix is far smaller.\<close>

definition sendable :: "channel \<Rightarrow> value_type \<Rightarrow> bool" where
  "sendable c v \<longleftrightarrow> (is_one_of_n c \<and> ch_radix c \<noteq> 2 \<longrightarrow> ch_radix c < 2 ^ 63 \<and> unat v < 2 ^ 63)"

lemma set_all_data_rails_asks:
  assumes "rails_ok (cr_chan r)" "is_one_of_n (cr_chan r) \<or> is_bus (cr_chan r)"
    and "current_value (cr_chan r) = Some (v, d)" "sendable (cr_chan r) v"
  shows "\<exists>r'. set_all_data_rails env vw r = Some r' \<and> asks r (value_events (cr_chan r) v) r'"
proof -
  define c where "c = cr_chan r"
  note a = assms [folded c_def]
  show ?thesis
  proof (cases "is_one_of_n c")
    case True
    have e: "set_all_data_rails env vw r = (if ch_radix c = 2 then set_binary_rails env (get_data_sense c) (ch_data c) v r
        else set_radix_rails env (get_data_sense c) (of_nat (ch_radix c)) (ch_data c) v r)"
      using True a(3) by (auto simp: set_all_data_rails_def is_one_of_n_def Let_def c_def)
    show ?thesis
    proof (cases "ch_radix c = 2")
      case True
      with set_binary_rails_asks [of "ch_data c" env "get_data_sense c" v r] e a(1) \<open>is_one_of_n c\<close> show ?thesis
        by (simp add: rails_ok_def value_events_def bundles_def flip: c_def)
    next
      case False
      with set_radix_rails_asks [of "ch_radix c" v "ch_data c" env "get_data_sense c" r] e a(1,4) \<open>is_one_of_n c\<close> show ?thesis
        by (simp add: rails_ok_def value_events_def bundles_def sendable_def flip: c_def)
    qed
  next
    case False
    with a(2) have b: "is_bus c" by simp
    then obtain row where row: "ch_data c = [row]" "length row = ch_radix c"
      using a(1) by (auto simp: bundles_def rails_ok_def length_Suc_conv)
    have "set_all_data_rails env vw r = Some (set_bus_rails env (get_data_sense c) row v r)"
      using a(1,3) b row by (auto simp: set_all_data_rails_def set_bundled_rails_def is_bus_def data_is_bundled_def Let_def
          nth_opt_def rails_ok_def c_def)
    with set_bus_rails_asks [of r row "get_data_sense c" v env] row False show ?thesis
      by (simp add: value_events_def flip: c_def)
  qed
qed

lemma fst_rows_events: "length ds = length rows \<Longrightarrow> map fst (rows_events sense rows ds) = concat rows"
proof (induction rows ds rule: list_induct2')
  case (4 row rows d ds)
  then show ?case by (simp add: row_events_def row_levels_def)
qed simp_all

lemma fst_value_events:
  assumes "rails_ok c" "is_one_of_n c \<or> is_bus c"
  shows "map fst (value_events c v) = all_rails c"
proof (cases "is_one_of_n c")
  case True
  then show ?thesis by (simp add: value_events_def fst_rows_events bundles_def all_rails_def)
next
  case False
  with assms obtain row where "ch_data c = [row]" "length row = ch_radix c"
    by (auto simp: bundles_def rails_ok_def length_Suc_conv)
  with False show ?thesis by (simp add: value_events_def all_rails_def)
qed

lemma rows_events_in:
  assumes "length ds = length rows" "i < length rows" "k < length (rows ! i)"
  shows "(rows ! i ! k, level_of sense (k = ds ! i)) \<in> set (rows_events sense rows ds)"
  using assms
proof (induction ds rows arbitrary: i rule: list_induct2)
  case (Cons d ds row rows)
  show ?case
  proof (cases i)
    case 0
    with Cons.prems show ?thesis by (auto simp: row_events_def row_levels_def in_set_zip)
  next
    case (Suc j)
    with Cons.prems Cons.IH [of j] show ?thesis by simp
  qed
qed simp

lemma value_events_carry:
  assumes "rails_ok c" "is_one_of_n c \<or> is_bus c"
  shows "carries c (drive (value_events c v) vw) v"
proof -
  have dist: "distinct (map fst (value_events c v))" using assms(1) by (simp add: fst_value_events [OF assms] rails_ok_def)
  show ?thesis
  proof (cases "is_one_of_n c")
    case True
    let ?ds = "digits (ch_radix c) (bundles c) (unat v)"
    have l: "length ?ds = length (ch_data c)" by (simp add: bundles_def)
    have "row_holds (get_data_sense c) (drive (value_events c v) vw) (ch_data c ! i) (?ds ! i) \<and> ?ds ! i < length (ch_data c ! i)"
      if i: "i < length (ch_data c)" for i
    proof
      show "row_holds (get_data_sense c) (drive (value_events c v) vw) (ch_data c ! i) (?ds ! i)"
        unfolding row_holds_nth using rows_events_in [OF l i] dist True
        by (intro allI impI drive_in) (simp_all add: value_events_def)
      have "?ds ! i \<in> set ?ds" using i l by (metis nth_mem)
      then show "?ds ! i < length (ch_data c ! i)" using assms(1) i digits_less by (auto simp: rails_ok_def)
    qed
    with True l show ?thesis by (simp add: carries_def rows_hold_def list_all2_conv_all_nth)
  next
    case False
    with assms obtain row where row: "ch_data c = [row]" "length row = ch_radix c"
      by (auto simp: bundles_def rails_ok_def length_Suc_conv)
    have "drive (value_events c v) vw (row ! k) = Some (level_of (get_data_sense c) (bit v k))" if "k < ch_radix c" for k
      using that row False by (intro drive_in [OF dist]) (auto simp: value_events_def in_set_zip)
    with False row show ?thesis by (simp add: carries_def)
  qed
qed

text \<open>Values between \<^verbatim>\<open>min_value()\<close> and \<^verbatim>\<open>max_value()\<close>.\<close>

definition representable :: "channel \<Rightarrow> value_type \<Rightarrow> bool" where
  "representable c v \<longleftrightarrow> (case (min_value c, max_value c) of
     (Some lo, Some hi) \<Rightarrow> if is_signed c then lo \<le> sint v \<and> sint v \<le> sint hi else unat v \<le> unat hi
   | _ \<Rightarrow> False)"

lemma shift_min_value: "k < 32 \<Longrightarrow> sint (push_bit k (- 1 :: 32 word)) = - (2 ^ k)"
proof -
  have "\<forall>k \<in> set [0..<32]. sint (push_bit k (- 1 :: 32 word)) = - (2 ^ k)" by code_simp
  then show "k < 32 \<Longrightarrow> sint (push_bit k (- 1 :: 32 word)) = - (2 ^ k)" by (simp only: set_upt) simp
qed

lemma signed_mask: "k < 32 \<Longrightarrow> signed (mask k :: 32 word) = (mask k :: value_type)"
  by (rule bit_word_eqI) (auto simp: bit_signed_iff bit_mask_iff min_def)

lemma shift_max_value:
  assumes "k < 32"
  shows "unat (signed (push_bit k (1 :: 32 word) - 1) :: value_type) = 2 ^ k - 1"
    and "sint (signed (push_bit k (1 :: 32 word) - 1) :: value_type) = 2 ^ k - 1"
proof -
  have m: "(signed (push_bit k (1 :: 32 word) - 1) :: value_type) = mask k"
    by (simp only: push_bit_of_1 flip: mask_eq_exp_minus_1) (rule signed_mask [OF assms])
  have "unat (mask k :: value_type) = mask k" using assms by (intro bit_eqI) (auto simp: bit_unsigned_iff bit_mask_iff)
  then show 1: "unat (signed (push_bit k (1 :: 32 word) - 1) :: value_type) = 2 ^ k - 1"
    by (simp only: m mask_eq_exp_minus_1)
  have "(2 :: nat) ^ k \<le> 2 ^ 31" using assms by (intro power_increasing) simp_all
  with 1 show "sint (signed (push_bit k (1 :: 32 word) - 1) :: value_type) = 2 ^ k - 1"
    by (subst sint_small) (simp_all add: of_nat_diff)
qed

lemma signed_bus_bundled: "rails_ok c \<Longrightarrow> is_bus c \<Longrightarrow> can_be_signed c \<Longrightarrow> data_is_bundled c"
  by (auto simp: rails_ok_def can_be_signed_def)

lemma one_of_n_not_bundled: "is_one_of_n c \<Longrightarrow> \<not> data_is_bundled c" "is_one_of_n c \<Longrightarrow> \<not> is_bus c"
  by (auto simp: is_one_of_n_def data_is_bundled_def is_bus_def)

text \<open>The ranges: an unsigned value is below the capacity, a signed one has its sign bit within the width.\<close>

lemma representable_unsigned:
  assumes "rails_ok c" "is_one_of_n c \<or> is_bus c" "representable c v" "\<not> is_signed c"
  shows "unat v < capacity c" "sendable c v"
proof -
  have pos: "0 < ch_radix c ^ bundles c" using assms(1) by (simp add: rails_ok_def)
  show "unat v < capacity c"
  proof (cases "is_one_of_n c")
    case True
    then have "ch_radix c ^ bundles c \<le> 2 ^ 53" "unat v \<le> unat (of_nat (ch_radix c ^ bundles c) - 1 :: value_type)"
      using assms(3,4) by (auto simp: representable_def max_value_def is_one_of_n_def Let_def split: option.splits if_splits)
    moreover have "of_nat (ch_radix c ^ bundles c) - 1 = (of_nat (ch_radix c ^ bundles c - 1) :: value_type)"
      by (subst of_nat_diff) (use pos in linarith, simp only: of_nat_1)
    ultimately have "unat v \<le> ch_radix c ^ bundles c - 1" by (simp add: unat_of_nat_small)
    with pos have "unat v < ch_radix c ^ bundles c" by linarith
    with True show ?thesis by (simp add: capacity_def)
  next
    case False
    with assms(2) have "is_bus c" by simp
    then have "ch_radix c < 32" "unat v \<le> unat (signed (push_bit (ch_radix c) (1 :: 32 word) - 1) :: value_type)"
      using assms(3,4) by (auto simp: representable_def max_value_def is_bus_def data_is_bundled_def Let_def split: option.splits if_splits)
    then have "unat v \<le> 2 ^ ch_radix c - 1" by (simp only: shift_max_value)
    moreover have "(0 :: nat) < 2 ^ ch_radix c" by simp
    ultimately have "unat v < 2 ^ ch_radix c" by linarith
    with False show ?thesis by (simp add: capacity_def)
  qed
  show "sendable c v"
    unfolding sendable_def
  proof (intro impI)
    assume s: "is_one_of_n c \<and> ch_radix c \<noteq> 2"
    then have "ch_radix c ^ bundles c \<le> 2 ^ 53"
      using assms(3,4) by (auto simp: representable_def max_value_def is_one_of_n_def Let_def split: option.splits if_splits)
    moreover have "ch_radix c \<le> ch_radix c ^ bundles c" using assms(1) by (intro self_le_power) (auto simp: rails_ok_def)
    ultimately show "ch_radix c < 2 ^ 63 \<and> unat v < 2 ^ 63" using \<open>unat v < capacity c\<close> s by (simp add: capacity_def)
  qed
qed

lemma representable_signed:
  assumes "rails_ok c" "is_one_of_n c \<or> is_bus c" "representable c v" "is_signed c" "can_be_signed c"
  shows "0 < width c" "width c \<le> 32" "- (2 ^ (width c - 1)) \<le> sint v" "sint v < 2 ^ (width c - 1)"
    and "capacity c = 2 ^ width c" "sendable c v" "ch_radix c = 2 \<or> data_is_bundled c"
proof -
  show w: "0 < width c" using assms(1) by (simp add: width_def rails_ok_def)
  have t: "is_one_of_n c \<and> ch_radix c = 2 \<and> \<not> data_is_bundled c \<or> \<not> is_one_of_n c \<and> data_is_bundled c"
    using assms(1,2,5) signed_bus_bundled one_of_n_not_bundled by (auto simp: can_be_signed_def)
  then show "capacity c = 2 ^ width c" "sendable c v" "ch_radix c = 2 \<or> data_is_bundled c"
    by (auto simp: capacity_def width_def sendable_def)
  have k: "width c - 1 < 32 \<and> sint (push_bit (width c - 1) (- 1 :: 32 word)) \<le> sint v \<and>
      sint v \<le> sint (signed (push_bit (width c - 1) (1 :: 32 word) - 1) :: value_type)"
    using assms(3,4) t
    by (auto simp: representable_def max_value_def min_value_def is_one_of_n_def data_is_bundled_def width_def Let_def
        split: option.splits if_splits)
  then have "width c - 1 < 32" by blast
  with w show "width c \<le> 32" by linarith
  from k have "- (2 ^ (width c - 1)) \<le> sint v \<and> sint v \<le> 2 ^ (width c - 1) - 1"
    by (elim conjE) (simp only: shift_min_value shift_max_value)
  then show "- (2 ^ (width c - 1)) \<le> sint v" "sint v < 2 ^ (width c - 1)" by auto
qed

lemma decoded_representable:
  assumes "rails_ok c" "is_one_of_n c \<or> is_bus c" "representable c v" "is_signed c \<longrightarrow> can_be_signed c"
  shows "decoded c v = Some v"
proof (cases "is_signed c")
  case True
  note s = representable_signed [OF assms(1-3) True]
  have "sign_extend (width c) (take_bit (width c) v) = Some v"
    using s assms(4) True signed_take_bit_id [of "width c - 1" v] by (simp add: sign_extend_spec)
  moreover have "of_nat (unat v mod capacity c) = take_bit (width c) v" using s assms(4) True by (simp only: of_nat_unat_mod)
  ultimately show ?thesis using s assms(4) True by (simp add: decoded_def)
next
  case False
  from representable_unsigned [OF assms(1-3) False] False show ?thesis by (simp add: decoded_def)
qed

lemma representable_sendable:
  assumes "rails_ok c" "is_one_of_n c \<or> is_bus c" "representable c v" "is_signed c \<longrightarrow> can_be_signed c"
  shows "sendable c v"
  using representable_signed [OF assms(1-3)] representable_unsigned [OF assms(1-3)] assms(4) by blast

lemma send_and_read:
  assumes "rails_ok (cr_chan r)" "is_one_of_n (cr_chan r) \<or> is_bus (cr_chan r)" "representable (cr_chan r) v"
    and "is_signed (cr_chan r) \<longrightarrow> can_be_signed (cr_chan r)" "current_value (cr_chan r) = Some (v, d)"
  shows "\<exists>r' evs. set_all_data_rails env vw r = Some r' \<and> cr_chan r' = cr_chan r \<and> asked r' = asked r @ evs \<and>
     map fst evs = all_rails (cr_chan r) \<and> (\<forall>vw'. data_rails_value (drive evs vw') (cr_chan r) = Some v)"
proof -
  from set_all_data_rails_asks [OF assms(1,2,5) representable_sendable [OF assms(1-4)]] obtain r' where
    "set_all_data_rails env vw r = Some r'" "asks r (value_events (cr_chan r) v) r'" by blast
  moreover have "data_rails_value (drive (value_events (cr_chan r) v) vw') (cr_chan r) = Some v" for vw'
    using data_rails_value_carries [OF assms(1,2) value_events_carry [OF assms(1,2)]] decoded_representable [OF assms(1-4)] by simp
  ultimately show ?thesis using fst_value_events [OF assms(1,2)] by (auto simp: asks_def)
qed

end
