(* ===== verification/Channel_Count.thy ===== *)
theory Channel_Count
  imports Channel_Rails
begin

unbundle bit_operations_syntax

text \<open>
  The counters of active and unknown rails: every handler of a channel leaves the structure of the channel as it is, and
  after any sequence of node changes the counters are the numbers of active and unknown rails.
\<close>

section \<open>What handlers do not change\<close>

definition chan_core :: "channel \<Rightarrow> channel_types \<times> node_index_type \<times> node_index_type \<times> node_index_type list list \<times> nat
    \<times> 8 word \<times> 8 word \<times> (node_index_type \<rightharpoonup> nat \<times> nat) \<times> 16 word" where
  "chan_core c = (ch_type c, ack_signal c, valid_signal c, ch_data c, ch_radix c, counter_state c, x_counter c,
     node_to_rail c, ch_flags c AND 0x200F)"

lemma chan_core_updates [simp]:
  "chan_core (c\<lparr>ch_values := a\<rparr>) = chan_core c" "chan_core (c\<lparr>value_index := i\<rparr>) = chan_core c"
  "chan_core (c\<lparr>iteration := i\<rparr>) = chan_core c" "chan_core (c\<lparr>inject_expect_file := f\<rparr>) = chan_core c"
  "chan_core (c\<lparr>dumplog := d\<rparr>) = chan_core c"
  by (simp_all add: chan_core_def)

lemma chan_core_set_flag:
  assumes "m AND 0x200F = 0"
  shows "chan_core (set_flag m b c) = chan_core c"
proof -
  have "\<not> (bit m n \<and> bit (0x200F :: 16 word) n)" for n
    using arg_cong [OF assms, of "\<lambda>w. bit w n"] by (simp only: bit_and_iff) simp
  then show ?thesis by (auto simp: chan_core_def set_flag_def intro!: bit_word_eqI simp: bit_simps)
qed

lemma chan_core_modes [simp]:
  "chan_core (set_flag CHANNEL_SOURCING b c) = chan_core c" "chan_core (set_flag CHANNEL_EXPECTING b c) = chan_core c"
  "chan_core (set_flag CHANNEL_STOPPED b c) = chan_core c" "chan_core (ch_stop c) = chan_core c"
  by (simp_all add: chan_core_set_flag ch_stop_def)

lemma chan_core_eqD:
  assumes "chan_core c = chan_core c'"
  shows "ch_type c = ch_type c'" "ack_signal c = ack_signal c'" "valid_signal c = valid_signal c'" "ch_data c = ch_data c'"
    "ch_radix c = ch_radix c'" "counter_state c = counter_state c'" "x_counter c = x_counter c'" "node_to_rail c = node_to_rail c'"
    "m AND 0x200F = m \<Longrightarrow> flag_set m c = flag_set m c'"
proof -
  from assms have f: "ch_flags c AND 0x200F = ch_flags c' AND 0x200F" by (simp add: chan_core_def)
  have "flag_set m c = flag_set m c'" if m: "m AND 0x200F = m"
  proof -
    have "ch_flags x AND m = (ch_flags x AND 0x200F) AND m" for x :: channel
      by (metis m and.assoc and.commute)
    with f show ?thesis by (simp add: flag_set_def)
  qed
  then show "m AND 0x200F = m \<Longrightarrow> flag_set m c = flag_set m c'" .
qed (use assms in \<open>simp_all add: chan_core_def\<close>)

lemma chan_core_accessors:
  assumes "chan_core c = chan_core c'"
  shows "get_data_sense c = get_data_sense c'" "get_ack_active c = get_ack_active c'" "get_valid_sense c = get_valid_sense c'"
    "get_ack_init c = get_ack_init c'" "is_signed c = is_signed c'" "all_rails c = all_rails c'" "bundles c = bundles c'"
  using chan_core_eqD [OF assms]
  by (simp_all add: get_data_sense_def get_ack_active_def get_valid_sense_def get_ack_init_def is_signed_def all_rails_def bundles_def)

abbreviation run_core :: "chan_run \<Rightarrow> channel_types \<times> node_index_type \<times> node_index_type \<times> node_index_type list list \<times> nat
    \<times> 8 word \<times> 8 word \<times> (node_index_type \<rightharpoonup> nat \<times> nat) \<times> 16 word" where
  "run_core r \<equiv> chan_core (cr_chan r)"

named_theorems core_keeps \<open>handlers keep the structure of the channel\<close>

lemma toggle_node_core [core_keeps]: "toggle_node env vw ni r = Some r' \<Longrightarrow> cr_chan r' = cr_chan r"
  by (auto simp: toggle_node_def bind_eq_Some_conv)

lemma reset_all_chan [simp]: "cr_chan (reset_all_data_rails env r) = cr_chan r"
  by (simp add: reset_all_data_rails_def Let_def split: channel_types.split)

lemma X_all_core [core_keeps]: "X_all_data_rails env r = Some r' \<Longrightarrow> cr_chan r' = cr_chan r"
  by (auto simp: X_all_data_rails_def Let_def bind_eq_Some_conv split: channel_types.splits)

lemma advance_value_core [core_keeps]: "advance_value env r = Some r' \<Longrightarrow> run_core r' = run_core r"
  by (auto simp: advance_value_def Let_def split: if_splits)

lemma set_binary_chan: "set_binary_rails env sense rows v r = Some r' \<Longrightarrow> cr_chan r' = cr_chan r"
  by (induction rows arbitrary: v r) (auto simp: bind_eq_Some_conv Let_def)

lemma set_row_chan [simp]: "cr_chan (set_row env sense rm k row r) = cr_chan r"
  by (rule asks_chan [OF set_row_asks])

lemma set_radix_chan: "set_radix_rails env sense rdx rows q r = Some r' \<Longrightarrow> cr_chan r' = cr_chan r"
  by (induction rows arbitrary: q r) (auto split: if_splits)

lemma set_bus_chan [simp]: "cr_chan (set_bus_rails env sense row v r) = cr_chan r"
  by (rule asks_chan [OF set_bus_rails_asks])

lemma set_bundled_chan: "set_bundled_rails env v r = Some r' \<Longrightarrow> cr_chan r' = cr_chan r"
  by (auto simp: set_bundled_rails_def Let_def bind_eq_Some_conv split: if_splits)

lemma set_ledr_chan: "set_ledr_rails env vw v r = Some r' \<Longrightarrow> cr_chan r' = cr_chan r"
  apply (clarsimp simp: set_ledr_rails_def Let_def bind_eq_Some_conv)
  subgoal for dn cur by (cases cur) (auto dest: toggle_node_core split: if_split_asm)
  done

lemma set_all_data_rails_core [core_keeps]: "set_all_data_rails env vw r = Some r' \<Longrightarrow> run_core r' = run_core r"
  by (auto simp: set_all_data_rails_def mod_chan_def Let_def
      dest!: set_binary_chan set_radix_chan set_bundled_chan set_ledr_chan split: option.split_asm channel_types.split_asm if_split_asm)

lemma source_next_core [core_keeps]: "source_next env vw r = Some r' \<Longrightarrow> run_core r' = run_core r"
  by (auto simp: source_next_def bind_eq_Some_conv dest!: core_keeps)

lemma push_ack_valid_chan [simp]: "cr_chan (push_ack env b r) = cr_chan r" "cr_chan (push_valid env b r) = cr_chan r"
  by (simp_all add: push_ack_def push_valid_def)

lemma set_bd_data_req_core [core_keeps]: "set_bd_data_req env vw st r = Some r' \<Longrightarrow> run_core r' = run_core r"
  apply (clarsimp simp: set_bd_data_req_def Let_def bind_eq_Some_conv)
  subgoal for y v by (cases "cr_events y") (auto dest!: source_next_core)
  done

lemma log_data_core [core_keeps]: "log_data vw c = Some c' \<Longrightarrow> chan_core c' = chan_core c"
  by (auto simp: log_data_def split: option.splits if_splits)

lemma check_expected_core [core_keeps]: "check_expected env vw r = Some r' \<Longrightarrow> run_core r' = run_core r"
  by (auto simp: check_expected_def Let_def bind_eq_Some_conv mod_chan_def channel_mismatch_def
      dest!: advance_value_core split: option.splits if_splits)

lemma process_data_core [core_keeps]: "process_data env vw r = Some r' \<Longrightarrow> run_core r' = run_core r"
  by (auto simp: process_data_def Let_def bind_eq_Some_conv dest!: check_expected_core log_data_core split: if_splits)

lemma clock_tick_core [core_keeps]: "clock_tick env vw st r = Some r' \<Longrightarrow> run_core r' = run_core r"
  by (auto simp: clock_tick_def Let_def bind_eq_Some_conv dest!: advance_value_core toggle_node_core split: if_splits)

lemma sink_follow_valid_chan [simp]: "cr_chan (sink_follow_valid env st r) = cr_chan r"
  by (simp add: sink_follow_valid_def)

section \<open>The counters of a channel whose node changes\<close>

definition counted :: "channel \<Rightarrow> bool" where
  "counted c \<longleftrightarrow> ch_type c = CHANNEL_TYPE_1ofN \<or> is_bus c"

text \<open>The signals are no rails, and a clocked channel has no acknowledge.\<close>

definition signals_ok :: "channel \<Rightarrow> bool" where
  "signals_ok c \<longleftrightarrow> ack_signal c \<notin> set (all_rails c) \<and> valid_signal c \<notin> set (all_rails c) \<and> (is_clocked c \<longrightarrow> \<not> has_ack c)"

lemma count_update_core: "count_update prev nxt r = Some r' \<Longrightarrow> update_bd_data_counter prev nxt (cr_chan r) = Some (cr_chan r')"
  by (auto simp: count_update_def)

lemma process_1ofN_data_core:
  assumes "process_1ofN_data env vw prev nxt r = Some r'"
  shows "\<exists>c. update_bd_data_counter prev nxt (cr_chan r) = Some c \<and> run_core r' = chan_core c"
  using assms
  by (auto simp: process_1ofN_data_def Let_def bind_eq_Some_conv dest!: process_data_core split: if_split_asm)

lemma process_signal_core:
  "process_1ofN_ack env vw r = Some r' \<Longrightarrow> run_core r' = run_core r"
  "process_1ofN_valid env vw r = Some r' \<Longrightarrow> run_core r' = run_core r"
  by (auto simp: process_1ofN_ack_def process_1ofN_valid_def Let_def bind_eq_Some_conv
      dest!: source_next_core X_all_core process_data_core split: if_split_asm)

lemma rail_core:
  assumes "ch_process_node env vw ni prev nxt r = Some r'" and "counted (cr_chan r)" and "signals_ok (cr_chan r)"
    and "ni \<in> set (all_rails (cr_chan r))"
  shows "\<exists>c. update_bd_data_counter prev nxt (cr_chan r) = Some c \<and> run_core r' = chan_core c"
proof -
  have n: "ni \<noteq> ack_signal (cr_chan r)" "ni \<noteq> valid_signal (cr_chan r)" using assms(3,4) by (auto simp: signals_ok_def)
  from assms(2) consider "ch_type (cr_chan r) = CHANNEL_TYPE_1ofN" | "ch_type (cr_chan r) = CHANNEL_TYPE_BD_4P"
    | "ch_type (cr_chan r) = CHANNEL_TYPE_BD_2P" | "ch_type (cr_chan r) = CHANNEL_TYPE_CLK_1EDGE" | "ch_type (cr_chan r) = CHANNEL_TYPE_CLK_2EDGE"
    by (auto simp: counted_def is_bus_def data_is_bundled_def)
  then show ?thesis
    by cases (use assms(1) n in \<open>auto simp: ch_process_node_def process_1ofN_def process_bd_4p_def process_bd_2p_def
        process_clk_1edge_def process_clk_2edge_def dest!: process_1ofN_data_core count_update_core\<close>)
qed

lemma signal_core:
  assumes "ch_process_node env vw ni prev nxt r = Some r'" and "counted (cr_chan r)" and "signals_ok (cr_chan r)"
    and "ni = ack_signal (cr_chan r) \<or> ni = valid_signal (cr_chan r)" and "ni \<noteq> INVALID_NODE_INDEX"
  shows "run_core r' = run_core r"
proof -
  from assms(2) consider "ch_type (cr_chan r) = CHANNEL_TYPE_1ofN" | "ch_type (cr_chan r) = CHANNEL_TYPE_BD_4P"
    | "ch_type (cr_chan r) = CHANNEL_TYPE_BD_2P" | "ch_type (cr_chan r) = CHANNEL_TYPE_CLK_1EDGE" | "ch_type (cr_chan r) = CHANNEL_TYPE_CLK_2EDGE"
    by (auto simp: counted_def is_bus_def data_is_bundled_def)
  then show ?thesis
  proof cases
    case 1
    with assms(1,4,5) show ?thesis by (auto simp: ch_process_node_def process_1ofN_def Let_def dest: process_signal_core split: if_split_asm)
  next
    case 2
    with assms(1,4) show ?thesis
      by (auto simp: ch_process_node_def process_bd_4p_def Let_def bind_eq_Some_conv
          dest!: X_all_core process_data_core set_bd_data_req_core split: if_split_asm)
  next
    case 3
    with assms(1,4) show ?thesis
      by (auto simp: ch_process_node_def process_bd_2p_def Let_def bind_eq_Some_conv
          dest!: X_all_core process_data_core set_bd_data_req_core toggle_node_core split: if_split_asm)
  next
    case 4
    with assms(3-5) have "ni = valid_signal (cr_chan r)" by (auto simp: signals_ok_def is_clocked_def)
    with 4 assms(1) have "process_clk_1edge env vw (valid_signal (cr_chan r)) prev nxt r = Some r'" by (simp add: ch_process_node_def)
    then show ?thesis
      by (auto simp: process_clk_1edge_def Let_def bind_eq_Some_conv
          dest!: X_all_core process_data_core source_next_core split: if_split_asm)
  next
    case 5
    with assms(3-5) have "ni = valid_signal (cr_chan r)" by (auto simp: signals_ok_def is_clocked_def)
    with 5 assms(1) have "process_clk_2edge env vw (valid_signal (cr_chan r)) prev nxt r = Some r'" by (simp add: ch_process_node_def)
    then obtain stat :: status_summary and r1 where 1: "(if \<not> x_valid stat then process_data env vw r else Some r) = Some r1"
      and 2: "(if is_sourcing (cr_chan r1) \<and> \<not> ch_stopped (cr_chan r1) then
          (if x_valid stat then X_all_data_rails env r1 else if have_value (cr_chan r1) then source_next env vw r1 else Some r1)
        else Some r1) = Some r'"
      unfolding process_clk_2edge_def by (auto simp: Let_def bind_eq_Some_conv)
    from 1 have "run_core r1 = run_core r" by (auto dest!: process_data_core split: if_split_asm)
    moreover from 2 have "run_core r' = run_core r1" by (auto dest!: X_all_core source_next_core split: if_split_asm)
    ultimately show ?thesis by simp
  qed
qed

section \<open>Counting\<close>

definition rail_count :: "(value_enum \<Rightarrow> bool) \<Rightarrow> node_view \<Rightarrow> node_index_type list \<Rightarrow> nat" where
  "rail_count P vw ns = length (filter (\<lambda>ni. \<exists>v. vw ni = Some v \<and> P v) ns)"

lemma rail_count_update:
  assumes "distinct ns" "ni \<in> set ns" "vw ni = Some prev"
  shows "rail_count P (vw(ni \<mapsto> nxt)) ns + of_bool (P prev) = rail_count P vw ns + of_bool (P nxt)"
proof -
  from assms(2) obtain xs ys where ns: "ns = xs @ ni # ys" by (auto dest: split_list)
  with assms(1) have "ni \<notin> set xs" "ni \<notin> set ys" by auto
  then have "filter (\<lambda>n. \<exists>v. (vw(ni \<mapsto> nxt)) n = Some v \<and> P v) xs = filter (\<lambda>n. \<exists>v. vw n = Some v \<and> P v) xs"
    "filter (\<lambda>n. \<exists>v. (vw(ni \<mapsto> nxt)) n = Some v \<and> P v) ys = filter (\<lambda>n. \<exists>v. vw n = Some v \<and> P v) ys"
    by (auto intro!: filter_cong)
  with ns assms(3) show ?thesis by (simp add: rail_count_def)
qed

lemma rail_count_le: "rail_count P vw ns \<le> length ns"
  by (simp add: rail_count_def)

lemma rail_count_pos: "ni \<in> set ns \<Longrightarrow> vw ni = Some v \<Longrightarrow> P v \<Longrightarrow> 0 < rail_count P vw ns"
  by (auto simp: rail_count_def filter_empty_conv)

abbreviation (input) unknown :: "value_enum \<Rightarrow> bool" where "unknown v \<equiv> v = LOGIC_OTHER"

definition counters_ok :: "node_view \<Rightarrow> channel \<Rightarrow> bool" where
  "counters_ok vw c \<longleftrightarrow>
     counter_state c = of_nat (rail_count (rail_active (get_data_sense c)) vw (all_rails c)) \<and>
     x_counter c = of_nat (rail_count unknown vw (all_rails c))"

lemma count_rail_eq:
  "count_rail sense v c = c\<lparr>counter_state := counter_state c + of_bool (rail_active sense v), x_counter := x_counter c + of_bool (unknown v)\<rparr>"
  by (cases v; cases sense; simp add: count_rail_def rail_active_def)

lemma uncount_rail_eq:
  "uncount_rail v c = (if rail_active (get_data_sense c) v \<and> counter_state c = 0 \<or> unknown v \<and> x_counter c = 0 then None
     else Some (c\<lparr>counter_state := counter_state c - of_bool (rail_active (get_data_sense c) v), x_counter := x_counter c - of_bool (unknown v)\<rparr>))"
  by (cases v; cases "get_data_sense c"; simp add: uncount_rail_def rail_active_def)

text \<open>The counters are 8 bits wide, so at most 255 rails keep them exact.\<close>

lemma small_rail_count: "length ns \<le> 255 \<Longrightarrow> unat (of_nat (rail_count P vw ns) :: 8 word) = rail_count P vw ns"
  using rail_count_le [of P vw ns] by (simp add: unat_of_nat)

lemma counters_ok_nat:
  assumes "counters_ok vw c" "length (all_rails c) \<le> 255"
  shows "unat (counter_state c) = rail_count (rail_active (get_data_sense c)) vw (all_rails c)"
    "unat (x_counter c) = rail_count unknown vw (all_rails c)"
  using assms by (simp_all add: counters_ok_def small_rail_count)

lemma update_counter_spec:
  assumes "counters_ok vw c" "length (all_rails c) \<le> 255" "distinct (all_rails c)" "ni \<in> set (all_rails c)" "vw ni = Some prev"
  shows "\<exists>c'. update_bd_data_counter prev nxt c = Some c' \<and> counters_ok (vw(ni \<mapsto> nxt)) c' \<and>
     c' = c\<lparr>counter_state := counter_state c', x_counter := x_counter c'\<rparr>"
proof -
  let ?a = "rail_active (get_data_sense c)"
  have nz: "counter_state c \<noteq> 0" if "?a prev"
    using counters_ok_nat(1) [OF assms(1,2)] rail_count_pos [of ni _ vw prev ?a] assms(4,5) that by fastforce
  have xz: "x_counter c \<noteq> 0" if "unknown prev"
    using counters_ok_nat(2) [OF assms(1,2)] rail_count_pos [of ni _ vw prev "\<lambda>v. v = LOGIC_OTHER"] assms(4,5) that by fastforce
  let ?c = "c\<lparr>counter_state := counter_state c - of_bool (?a prev) + of_bool (?a nxt), x_counter := x_counter c - of_bool (unknown prev) + of_bool (unknown nxt)\<rparr>"
  have u: "update_bd_data_counter prev nxt c = Some ?c"
    using nz xz by (auto simp: update_bd_data_counter_def uncount_rail_eq count_rail_eq get_data_sense_def flag_set_def)
  have step: "(of_nat (rail_count P vw (all_rails c)) - of_bool (P prev) + of_bool (P nxt) :: 8 word) = of_nat (rail_count P (vw(ni \<mapsto> nxt)) (all_rails c))" for P
    using arg_cong [OF rail_count_update [of "all_rails c" ni vw prev P nxt, OF assms(3-5)], of "of_nat :: nat \<Rightarrow> 8 word"] by (simp add: algebra_simps)
  have "counters_ok (vw(ni \<mapsto> nxt)) ?c"
    using assms(1) step [of ?a] step [of "\<lambda>v. v = LOGIC_OTHER"] by (simp add: counters_ok_def get_data_sense_def flag_set_def all_rails_def)
  with u show ?thesis by auto
qed

lemma counters_ok_core:
  assumes "chan_core c = chan_core c'"
  shows "counters_ok vw c = counters_ok vw c'"
  by (simp only: counters_ok_def chan_core_eqD(6,7) [OF assms] chan_core_accessors [OF assms])

lemma rail_count_other: "ni \<notin> set ns \<Longrightarrow> rail_count P (vw(ni \<mapsto> nxt)) ns = rail_count P vw ns"
  by (induction ns) (auto simp: rail_count_def)

lemma counters_ok_other: "ni \<notin> set (all_rails c) \<Longrightarrow> counters_ok (vw(ni \<mapsto> nxt)) c = counters_ok vw c"
  by (simp add: counters_ok_def rail_count_other)

lemma count_rails_eq:
  "count_rails sense vw ns c = Some c' \<Longrightarrow>
     c' = c\<lparr>counter_state := counter_state c + of_nat (rail_count (rail_active sense) vw ns),
            x_counter := x_counter c + of_nat (rail_count unknown vw ns)\<rparr>"
proof (induction ns arbitrary: c)
  case (Cons ni ns)
  then obtain v where v: "vw ni = Some v" "count_rails sense vw ns (count_rail sense v c) = Some c'" by (auto simp: bind_eq_Some_conv)
  from Cons.IH [OF v(2)] v(1) show ?case by (simp add: count_rail_eq rail_count_def)
qed (simp add: rail_count_def)

lemma initialize_data_counter_ok:
  assumes "initialize_data_counter vw c = Some c'" "counted c"
  shows "counters_ok vw c' \<and> c' = c\<lparr>counter_state := counter_state c', x_counter := x_counter c'\<rparr>"
proof -
  have "count_rails (get_data_sense c) vw (all_rails c) (c\<lparr>counter_state := 0, x_counter := 0\<rparr>) = Some c'"
    using assms by (auto simp: initialize_data_counter_def counted_def is_bus_def data_is_bundled_def Let_def bind_eq_Some_conv split: if_split_asm)
  from count_rails_eq [OF this] have "c' = c\<lparr>counter_state := of_nat (rail_count (rail_active (get_data_sense c)) vw (all_rails c)),
      x_counter := of_nat (rail_count unknown vw (all_rails c))\<rparr>" by simp
  then show ?thesis by (simp add: counters_ok_def get_data_sense_def flag_set_def all_rails_def)
qed

text \<open>A node changes its value, then the channel is told (\<^verbatim>\<open>State::execute_immediately\<close>).\<close>

fun run_nodes :: "chan_env \<Rightarrow> (node_index_type \<times> value_enum) list \<Rightarrow> node_view \<times> chan_run \<Rightarrow> (node_view \<times> chan_run) option" where
  "run_nodes env [] x = Some x"
| "run_nodes env ((ni, nxt) # es) (vw, r) = do {
     prev \<leftarrow> vw ni;
     r1 \<leftarrow> ch_process_node env (vw(ni \<mapsto> nxt)) ni prev nxt r;
     run_nodes env es (vw(ni \<mapsto> nxt), r1) }"

text \<open>The part of the structure that does not change at all; it leaves out the counters.\<close>

definition chan_shape :: "channel \<Rightarrow> channel_types \<times> node_index_type \<times> node_index_type \<times> node_index_type list list \<times> nat
    \<times> (node_index_type \<rightharpoonup> nat \<times> nat) \<times> 16 word" where
  "chan_shape c = (ch_type c, ack_signal c, valid_signal c, ch_data c, ch_radix c, node_to_rail c, ch_flags c AND 0x200F)"

lemma chan_shape_core: "chan_core c = chan_core c' \<Longrightarrow> chan_shape c = chan_shape c'"
  by (simp add: chan_core_def chan_shape_def)

lemma chan_shape_eqD:
  assumes "chan_shape c = chan_shape c'"
  shows "counted c = counted c'" "signals_ok c = signals_ok c'" "all_rails c = all_rails c'" "get_all_nodes c = get_all_nodes c'"
    "bundles c = bundles c'" "get_data_sense c = get_data_sense c'"
proof -
  have "chan_core (c\<lparr>counter_state := 0, x_counter := 0\<rparr>) = chan_core (c'\<lparr>counter_state := 0, x_counter := 0\<rparr>)"
    using assms by (simp add: chan_core_def chan_shape_def)
  from chan_core_accessors(1) [OF this] show "get_data_sense c = get_data_sense c'" by (simp add: get_data_sense_def flag_set_def)
qed (use assms in \<open>simp_all add: chan_shape_def counted_def is_bus_def data_is_bundled_def signals_ok_def is_clocked_def
    all_rails_def get_all_nodes_def bundles_def\<close>)

definition tracked :: "node_view \<Rightarrow> channel \<Rightarrow> bool" where
  "tracked vw c \<longleftrightarrow> counted c \<and> signals_ok c \<and> distinct (all_rails c) \<and> length (all_rails c) \<le> 255 \<and> counters_ok vw c"

lemma process_node_tracked:
  assumes "ch_process_node env (vw(ni \<mapsto> nxt)) ni prev nxt r = Some r'" and "tracked vw (cr_chan r)"
    and "vw ni = Some prev" and "ni \<in> set (get_all_nodes (cr_chan r))"
  shows "tracked (vw(ni \<mapsto> nxt)) (cr_chan r') \<and> chan_shape (cr_chan r') = chan_shape (cr_chan r)"
proof (cases "ni \<in> set (all_rails (cr_chan r))")
  case True
  note t = assms(2) [unfolded tracked_def]
  from rail_core [OF assms(1)] t True obtain c where
    c: "update_bd_data_counter prev nxt (cr_chan r) = Some c" "run_core r' = chan_core c" by blast
  with update_counter_spec [of vw "cr_chan r" ni prev nxt] t True assms(3) have
    1: "counters_ok (vw(ni \<mapsto> nxt)) c" "c = (cr_chan r)\<lparr>counter_state := counter_state c, x_counter := x_counter c\<rparr>" by auto
  have "chan_shape c = chan_shape (cr_chan r)" by (subst 1(2)) (simp add: chan_shape_def)
  with c(2) have s: "chan_shape (cr_chan r') = chan_shape (cr_chan r)" using chan_shape_core by metis
  with t 1(1) c(2) show ?thesis by (simp add: tracked_def chan_shape_eqD [OF s] counters_ok_core [OF c(2)])
next
  case False
  note t = assms(2) [unfolded tracked_def]
  from False assms(4) have "ni = ack_signal (cr_chan r) \<or> ni = valid_signal (cr_chan r)" "ni \<noteq> INVALID_NODE_INDEX"
    by (auto simp: get_all_nodes_def split: if_splits)
  with signal_core [OF assms(1)] t have c: "run_core r' = run_core r" by blast
  have s: "chan_shape (cr_chan r') = chan_shape (cr_chan r)" using c by (rule chan_shape_core)
  with t False show ?thesis by (simp add: tracked_def chan_shape_eqD [OF s] counters_ok_core [OF c] counters_ok_other)
qed

lemma run_nodes_tracked:
  assumes "run_nodes env es (vw, r) = Some (vw', r')" and "tracked vw (cr_chan r)"
    and "\<forall>e \<in> set es. fst e \<in> set (get_all_nodes (cr_chan r))"
  shows "tracked vw' (cr_chan r') \<and> chan_shape (cr_chan r') = chan_shape (cr_chan r)"
  using assms
proof (induction es arbitrary: vw r)
  case (Cons e es)
  obtain ni nxt where e: "e = (ni, nxt)" by fastforce
  with Cons.prems(1) obtain prev r1 where
    1: "vw ni = Some prev" "ch_process_node env (vw(ni \<mapsto> nxt)) ni prev nxt r = Some r1" "run_nodes env es (vw(ni \<mapsto> nxt), r1) = Some (vw', r')"
    by (auto simp: bind_eq_Some_conv)
  from process_node_tracked [OF 1(2) Cons.prems(2) 1(1)] Cons.prems(3) e have
    2: "tracked (vw(ni \<mapsto> nxt)) (cr_chan r1)" "chan_shape (cr_chan r1) = chan_shape (cr_chan r)" by auto
  with Cons.IH [OF 1(3) 2(1)] Cons.prems(3) show ?case by (simp add: chan_shape_eqD [OF 2(2)])
qed simp

end
