(* ===== verification/Channel_Loop.thy ===== *)
theory Channel_Loop
  imports Channel_Count
begin

unbundle bit_operations_syntax

text \<open>
  A 1ofN channel that is source and sink at once, with its data rails and its acknowledge connected to nothing else:
  the four-phase handshake as a transition system, where the pending events may happen in any order. Every run
  delivers the values of the source to the log of the sink, in their order, and no run gets stuck.
\<close>

section \<open>The transition system\<close>

text \<open>
  A configuration has the values of the nodes, the channel, the position in the stream of random numbers, and the
  pending events. One of them happens, the channel is told, and the events that it asks for become pending, except for
  those that would not change their node (as in \<^verbatim>\<open>State::flush_channel_events\<close>).
\<close>

type_synonym pending = "(node_index_type \<times> value_enum) list"
type_synonym loop_state = "node_view \<times> channel \<times> nat \<times> pending"

definition chan_start :: "channel \<Rightarrow> nat \<Rightarrow> chan_run" where
  "chan_start c k = \<lparr>cr_chan = c, cr_events = [], cr_exceptions = [], cr_pos = k\<rparr>"

definition new_events :: "node_view \<Rightarrow> chan_run \<Rightarrow> pending" where
  "new_events vw r = filter (\<lambda>(ni, v). vw ni \<noteq> Some v) (asked r)"

inductive loop_step :: "chan_env \<Rightarrow> loop_state \<Rightarrow> loop_state \<Rightarrow> bool" for env where
  loop_stepI: "vw ni = Some prev \<Longrightarrow>
    ch_process_node env (vw(ni \<mapsto> nxt)) ni prev nxt (chan_start c k) = Some r \<Longrightarrow>
    loop_step env (vw, c, k, xs @ (ni, nxt) # ys)
      (vw(ni \<mapsto> nxt), cr_chan r, cr_pos r, xs @ ys @ new_events (vw(ni \<mapsto> nxt)) r)"

inductive_cases loop_stepE: "loop_step env (vw, c, k, P) y"

lemma chan_start_sel [simp]: "cr_chan (chan_start c k) = c" "cr_events (chan_start c k) = []" "cr_pos (chan_start c k) = k"
    "asked (chan_start c k) = []"
  by (simp_all add: chan_start_def asked_def)

section \<open>Active rails of a value\<close>

definition actives :: "channel \<Rightarrow> value_type \<Rightarrow> node_index_type list" where
  "actives c v = map2 (\<lambda>row d. row ! d) (ch_data c) (digits (ch_radix c) (bundles c) (unat v))"

lemma concat_nth_inj:
  assumes "distinct (concat rows)" "i < length rows" "j < length rows" "k < length (rows ! i)" "l < length (rows ! j)"
    "rows ! i ! k = rows ! j ! l"
  shows "i = j \<and> k = l"
  using assms
proof (induction rows arbitrary: i j)
  case (Cons row rows)
  have in_rest: "rows ! n ! p \<in> set (concat rows)" if "n < length rows" "p < length (rows ! n)" for n p
  proof -
    have "rows ! n \<in> set rows" "rows ! n ! p \<in> set (rows ! n)" using that by simp_all
    then show ?thesis unfolding set_concat by blast
  qed
  have disj: "set row \<inter> set (concat rows) = {}" using Cons.prems(1) by simp
  show ?case
  proof (cases i; cases j)
    assume "i = 0" "j = 0"
    with Cons.prems show ?thesis by (simp add: nth_eq_iff_index_eq)
  next
    fix j' assume ij: "i = 0" "j = Suc j'"
    with Cons.prems have "row ! k = rows ! j' ! l" "k < length row" "j' < length rows" "l < length (rows ! j')" by simp_all
    with in_rest [of j' l] disj nth_mem [of k row] show ?thesis by (metis disjoint_iff)
  next
    fix i' assume ij: "i = Suc i'" "j = 0"
    with Cons.prems have "row ! l = rows ! i' ! k" "l < length row" "i' < length rows" "k < length (rows ! i')" by simp_all
    with in_rest [of i' k] disj nth_mem [of l row] show ?thesis by (metis disjoint_iff)
  next
    fix i' j' assume "i = Suc i'" "j = Suc j'"
    with Cons show ?thesis by simp
  qed
qed simp

lemma actives_nth:
  assumes "rails_ok c" "i < bundles c"
  shows "actives c v ! i = ch_data c ! i ! (digits (ch_radix c) (bundles c) (unat v) ! i)"
    and "digits (ch_radix c) (bundles c) (unat v) ! i < ch_radix c" "length (ch_data c ! i) = ch_radix c"
proof -
  have m: "digits (ch_radix c) (bundles c) (unat v) ! i \<in> set (digits (ch_radix c) (bundles c) (unat v))" using assms(2) by simp
  show "digits (ch_radix c) (bundles c) (unat v) ! i < ch_radix c"
    using assms(1) by (intro digits_less [OF _ m]) (simp add: rails_ok_def)
  show "length (ch_data c ! i) = ch_radix c" using assms by (simp add: rails_ok_def bundles_def)
qed (use assms(2) in \<open>simp add: actives_def bundles_def\<close>)

lemma length_actives [simp]: "length (actives c v) = bundles c"
  by (simp add: actives_def bundles_def)

lemma nth_active:
  assumes "rails_ok c" "i < bundles c" "k < ch_radix c"
  shows "ch_data c ! i ! k \<in> set (actives c v) \<longleftrightarrow> k = digits (ch_radix c) (bundles c) (unat v) ! i"
proof
  assume "ch_data c ! i ! k \<in> set (actives c v)"
  then obtain j where j: "j < bundles c" "actives c v ! j = ch_data c ! i ! k" by (auto simp: in_set_conv_nth)
  with concat_nth_inj [of "ch_data c" i j k "digits (ch_radix c) (bundles c) (unat v) ! j"] assms
    actives_nth [OF assms(1) j(1)] actives_nth(3) [OF assms(1,2)]
  show "k = digits (ch_radix c) (bundles c) (unat v) ! i" by (simp add: rails_ok_def all_rails_def bundles_def)
next
  assume "k = digits (ch_radix c) (bundles c) (unat v) ! i"
  with actives_nth(1) [OF assms(1,2), of v] assms(2) show "ch_data c ! i ! k \<in> set (actives c v)"
    by (metis length_actives nth_mem)
qed

lemma actives_rails: "rails_ok c \<Longrightarrow> set (actives c v) \<subseteq> set (all_rails c)"
proof
  fix ni
  assume a: "rails_ok c" "ni \<in> set (actives c v)"
  then obtain i where i: "i < bundles c" "ni = actives c v ! i" by (auto simp: in_set_conv_nth)
  with actives_nth(1,2) [OF a(1) i(1), of v] actives_nth(3) [OF a(1) i(1)] have "ni \<in> set (ch_data c ! i)" "ch_data c ! i \<in> set (ch_data c)" by (simp_all add: bundles_def)
  then show "ni \<in> set (all_rails c)" by (auto simp: all_rails_def)
qed

lemma distinct_actives:
  assumes "rails_ok c"
  shows "distinct (actives c v)"
  unfolding distinct_conv_nth
proof (intro allI impI)
  fix i j
  assume ij: "i < length (actives c v)" "j < length (actives c v)" "i \<noteq> j"
  let ?d = "\<lambda>i. digits (ch_radix c) (bundles c) (unat v) ! i"
  from ij have b: "i < bundles c" "j < bundles c" by simp_all
  note n = actives_nth(1,2) [OF assms b(1), of v] actives_nth(1,2) [OF assms b(2), of v]
    actives_nth(3) [OF assms b(1)] actives_nth(3) [OF assms b(2)]
  have "\<not> ch_data c ! i ! ?d i = ch_data c ! j ! ?d j"
    using concat_nth_inj [of "ch_data c" i j "?d i" "?d j"] n b ij(3) assms by (auto simp: rails_ok_def all_rails_def bundles_def)
  with n show "actives c v ! i \<noteq> actives c v ! j" by simp
qed

section \<open>Levels of the rails\<close>

definition rails_at :: "node_view \<Rightarrow> channel \<Rightarrow> node_index_type set \<Rightarrow> bool" where
  "rails_at vw c T \<longleftrightarrow> (\<forall>ni \<in> set (all_rails c). vw ni = Some (level_of (get_data_sense c) (ni \<in> T)))"

lemma rails_at_carries:
  assumes "rails_ok c" "is_one_of_n c" "rails_at vw c (set (actives c v))"
  shows "carries c vw v"
proof -
  have "row_holds (get_data_sense c) vw (ch_data c ! i) (digits (ch_radix c) (bundles c) (unat v) ! i)" if i: "i < bundles c" for i
    unfolding row_holds_nth
  proof (intro allI impI)
    fix k
    assume k: "k < length (ch_data c ! i)"
    have "ch_data c ! i ! k \<in> set (all_rails c)" using i k by (auto simp: all_rails_def bundles_def intro!: bexI [of _ "ch_data c ! i"])
    with assms(3) nth_active [OF assms(1) i, of k v] k actives_nth(3) [OF assms(1) i]
    show "vw (ch_data c ! i ! k) = Some (level_of (get_data_sense c) (k = digits (ch_radix c) (bundles c) (unat v) ! i))"
      by (simp add: rails_at_def)
  qed
  with assms(2) actives_nth(2,3) [OF assms(1)] show ?thesis
    by (simp add: carries_def rows_hold_def list_all2_conv_all_nth bundles_def)
qed

lemma value_events_actives:
  assumes "rails_ok c" "is_one_of_n c"
  shows "value_events c v = map (\<lambda>ni. (ni, level_of (get_data_sense c) (ni \<in> set (actives c v)))) (all_rails c)"
proof -
  let ?ve = "value_events c v" and ?f = "\<lambda>ni. level_of (get_data_sense c) (ni \<in> set (actives c v))"
  have fst: "map fst ?ve = all_rails c" using assms by (simp add: fst_value_events)
  have "snd e = ?f (fst e)" if e: "e \<in> set ?ve" for e
  proof -
    have "fst e \<in> set (all_rails c)" using e by (simp flip: fst)
    then obtain i k where ik: "i < bundles c" "k < length (ch_data c ! i)" "fst e = ch_data c ! i ! k"
      by (auto simp: all_rails_def bundles_def in_set_conv_nth)
    have "(fst e, ?f (fst e)) \<in> set ?ve"
      using rows_events_in [of "digits (ch_radix c) (bundles c) (unat v)" "ch_data c" i k "get_data_sense c"] ik assms(2)
        nth_active [OF assms(1) ik(1), of k v] actives_nth(3) [OF assms(1) ik(1)]
      by (simp add: value_events_def bundles_def)
    moreover have "distinct (map fst ?ve)" using assms(1) by (simp add: fst rails_ok_def)
    ultimately show ?thesis using e by (metis eq_key_imp_eq_value prod.collapse)
  qed
  then have "?ve = map (\<lambda>ni. (ni, ?f ni)) (map fst ?ve)" by (simp add: map_idI prod_eq_iff)
  then show ?thesis by (simp only: fst)
qed

lemma rails_at_count:
  assumes "tracked vw c" "rails_at vw c T" "T \<subseteq> set (all_rails c)"
  shows "unat (counter_state c) = card T" "x_counter c = 0"
proof -
  from assms(1) have t: "counters_ok vw c" "length (all_rails c) \<le> 255" "distinct (all_rails c)" by (simp_all add: tracked_def)
  have "filter (\<lambda>ni. \<exists>v. vw ni = Some v \<and> rail_active (get_data_sense c) v) (all_rails c) = filter (\<lambda>ni. ni \<in> T) (all_rails c)"
    using assms(2) by (intro filter_cong) (auto simp: rails_at_def)
  moreover have "set (filter (\<lambda>ni. ni \<in> T) (all_rails c)) = T" using assms(3) by auto
  ultimately show "unat (counter_state c) = card T"
    using counters_ok_nat(1) [OF t(1,2)] distinct_card [of "filter (\<lambda>ni. ni \<in> T) (all_rails c)"] t(3) by (simp add: rail_count_def)
  have "filter (\<lambda>ni. vw ni = Some LOGIC_OTHER) (all_rails c) = []"
    using assms(2) by (auto simp: rails_at_def filter_empty_conv)
  with t(1) show "x_counter c = 0" by (simp add: counters_ok_def rail_count_def)
qed

lemma tracked_core: "chan_core c = chan_core c' \<Longrightarrow> tracked vw c = tracked vw c'"
  using counters_ok_core [of c c' vw] chan_shape_eqD [OF chan_shape_core, of c c'] by (simp add: tracked_def)

section \<open>The channel in a handshake\<close>

definition loop_ok :: "channel \<Rightarrow> bool" where
  "loop_ok c \<longleftrightarrow> ch_type c = CHANNEL_TYPE_1ofN \<and> rails_ok c \<and> has_ack c \<and> \<not> has_valid c \<and> \<not> is_signed c"

definition modes_ok :: "channel \<Rightarrow> bool" where
  "modes_ok c \<longleftrightarrow> is_sinking c \<and> \<not> ch_stopped c \<and> \<not> is_expecting c \<and> \<not> ignored c \<and> \<not> flag_set CHANNEL_RANDOM c \<and>
     \<not> flag_set CHANNEL_VALUE_LOOP c"

text \<open>
  The rails \<open>T\<close> are active, the acknowledge is active or not, the values in the log, and those that the source still has
  to send, of which none is a don't-care and each is below the capacity of the channel.
\<close>

definition handshake :: "node_view \<Rightarrow> channel \<Rightarrow> node_index_type set \<Rightarrow> bool \<Rightarrow> value_type list \<Rightarrow> value_type list \<Rightarrow> bool" where
  "handshake vw c T a logged rest \<longleftrightarrow> loop_ok c \<and> modes_ok c \<and> tracked vw c \<and> T \<subseteq> set (all_rails c) \<and> rails_at vw c T \<and>
     vw (ack_signal c) = Some (ack_level a c) \<and> (\<exists>f. dumplog c = Some (f, map Some logged)) \<and>
     drop (value_index c) (ch_values c) = map (\<lambda>v. (v, False)) rest \<and> (\<forall>v \<in> set rest. unat v < capacity c \<and> sendable c v)"

lemma flag_set_other:
  assumes "m AND m' = 0"
  shows "flag_set m (set_flag m' b c) = flag_set m c"
proof -
  have "\<not> (bit m n \<and> bit m' n)" for n using arg_cong [OF assms, of "\<lambda>w. bit w n"] by (simp only: bit_and_iff) simp
  then have "ch_flags (set_flag m' b c) AND m = ch_flags c AND m"
    by (intro bit_word_eqI) (auto simp: set_flag_def bit_and_iff bit_or_iff bit_not_iff)
  then show ?thesis by (simp add: flag_set_def)
qed

lemma dumplog_set_flag: "dumplog (set_flag m b c) = dumplog c"
  by (simp add: set_flag_def)

lemma modes_ok_unsource: "modes_ok (set_flag CHANNEL_SOURCING False c) = modes_ok c"
  by (simp add: modes_ok_def is_sinking_def ch_stopped_def is_expecting_def ignored_def flag_set_other)

lemma modes_ok_values: "modes_ok (c\<lparr>ch_values := a, value_index := i, inject_expect_file := f\<rparr>) = modes_ok c"
    "modes_ok (c\<lparr>value_index := i\<rparr>) = modes_ok c" "modes_ok (c\<lparr>ch_values := a\<rparr>) = modes_ok c" "modes_ok (c\<lparr>dumplog := d\<rparr>) = modes_ok c"
    "modes_ok (c\<lparr>counter_state := n, x_counter := x\<rparr>) = modes_ok c"
  by (simp_all add: modes_ok_def is_sinking_def ch_stopped_def is_expecting_def ignored_def flag_set_def)

lemma shape_flag:
  assumes "chan_shape c = chan_shape c'" "0x200F AND m = m"
  shows "flag_set m c = flag_set m c'"
proof -
  from assms(1) have "(ch_flags c AND 0x200F) AND m = (ch_flags c' AND 0x200F) AND m" by (simp add: chan_shape_def)
  then have "ch_flags c AND m = ch_flags c' AND m" by (simp only: and.assoc assms(2))
  then show ?thesis by (simp add: flag_set_def)
qed

lemma shape_facts:
  assumes "chan_shape c = chan_shape c'"
  shows "loop_ok c = loop_ok c'" "rails_at vw c T = rails_at vw c' T" "ack_signal c = ack_signal c'" "ack_level a c = ack_level a c'"
    "capacity c = capacity c'" "sendable c v = sendable c' v" "actives c v = actives c' v" "all_rails c = all_rails c'"
    "get_data_sense c = get_data_sense c'" "bundles c = bundles c'"
proof -
  note f = shape_flag [OF assms]
  have "is_signed c = is_signed c'" "get_ack_active c = get_ack_active c'" by (simp_all add: is_signed_def get_ack_active_def f)
  with assms show "loop_ok c = loop_ok c'" "rails_at vw c T = rails_at vw c' T" "ack_signal c = ack_signal c'" "ack_level a c = ack_level a c'"
    "capacity c = capacity c'" "sendable c v = sendable c' v" "actives c v = actives c' v" "all_rails c = all_rails c'"
    "get_data_sense c = get_data_sense c'" "bundles c = bundles c'"
    by (simp_all add: chan_shape_eqD(3,5,6) [OF assms] loop_ok_def rails_at_def ack_level_def capacity_def sendable_def actives_def
        rails_ok_def is_one_of_n_def is_bus_def data_is_bundled_def, simp_all add: chan_shape_def)
qed

text \<open>An update that keeps the shape and the counters, and whose modes are right, keeps the handshake.\<close>

lemma handshake_update:
  assumes "handshake vw c T a logged rest" "chan_core c' = chan_core c" "modes_ok c'"
    "\<exists>f. dumplog c' = Some (f, map Some logged')" "drop (value_index c') (ch_values c') = map (\<lambda>v. (v, False)) rest'" "set rest' \<subseteq> set rest"
  shows "handshake vw c' T a logged' rest'"
  using assms shape_facts [OF chan_shape_core [OF assms(2)]] tracked_core [OF assms(2), of vw] by (auto simp: handshake_def)

section \<open>Advancing to the next value\<close>

lemma advance_value_plain:
  assumes "\<not> flag_set CHANNEL_RANDOM (cr_chan r)" "\<not> flag_set CHANNEL_VALUE_LOOP (cr_chan r)"
    "drop (value_index (cr_chan r)) (ch_values (cr_chan r)) = map (\<lambda>v. (v, False)) rest"
  shows "\<exists>vs i f. advance_value env r = Some (r\<lparr>cr_chan := (cr_chan r)\<lparr>ch_values := vs, value_index := i, inject_expect_file := f\<rparr>\<rparr>) \<and>
    drop i vs = map (\<lambda>v. (v, False)) (tl rest)"
proof -
  let ?c = "cr_chan r" and ?i = "value_index (cr_chan r) + 1"
  have d: "drop ?i (ch_values ?c) = map (\<lambda>v. (v, False)) (tl rest)"
  proof -
    have "drop ?i (ch_values ?c) = tl (drop (value_index ?c) (ch_values ?c))" by (simp add: drop_Suc tl_drop)
    then show ?thesis by (simp only: assms(3) map_tl)
  qed
  have nr: "\<not> is_random ?c" "\<not> is_looping ?c" using assms(1,2) by (auto simp: is_random_def is_looping_def)
  show ?thesis
  proof (cases "?i \<ge> length (ch_values ?c)")
    case True
    then have "advance_value env r = Some (r\<lparr>cr_chan := ?c\<lparr>ch_values := [], value_index := 0, inject_expect_file := ''''\<rparr>\<rparr>)"
      using nr by (simp add: advance_value_def Let_def have_value_def)
    moreover have "tl rest = []" using True d by (metis drop_all map_is_Nil_conv)
    ultimately show ?thesis by (metis drop_Nil map_is_Nil_conv)
  next
    case False
    then have "ch_values ?c ! ?i = hd (drop ?i (ch_values ?c))" by (simp add: hd_drop_conv_nth)
    with False d have "\<not> snd (ch_values ?c ! ?i)"
      by (cases "tl rest") (auto simp: drop_eq_Nil)
    then have "advance_value env r = Some (r\<lparr>cr_chan := ?c\<lparr>value_index := ?i\<rparr>\<rparr>)"
      using nr False by (simp add: advance_value_def Let_def have_value_def)
    moreover have "?c\<lparr>value_index := ?i\<rparr> = ?c\<lparr>ch_values := ch_values ?c, value_index := ?i, inject_expect_file := inject_expect_file ?c\<rparr>" by simp
    ultimately show ?thesis using d by metis
  qed
qed

section \<open>What the handlers ask for\<close>

lemma reset_all_asks:
  assumes "ch_type (cr_chan r) = CHANNEL_TYPE_1ofN"
  shows "asks r (map (\<lambda>ni. (ni, level_of (get_data_sense (cr_chan r)) False)) (all_rails (cr_chan r))) (reset_all_data_rails env r)"
  using asks_push_all [of r "rail_level (get_data_sense (cr_chan r))"] assms by (simp add: reset_all_data_rails_def Let_def level_of_def)

lemma source_next_value:
  assumes "handshake vw (cr_chan r) T a logged (w # rest)"
  shows "\<exists>r'. source_next env vw' r = Some r' \<and> asked r' = asked r @ value_events (cr_chan r) w \<and>
     handshake vw (cr_chan r') T a logged rest \<and> chan_core (cr_chan r') = chan_core (cr_chan r) \<and> is_sourcing (cr_chan r') = is_sourcing (cr_chan r)"
proof -
  let ?c = "cr_chan r"
  note h = assms [unfolded handshake_def]
  from h have "(ch_values ?c) ! value_index ?c = (w, False)" "value_index ?c < length (ch_values ?c)"
    by (metis hd_drop_conv_nth list.sel(1) list.simps(9) drop_all leI list.distinct(1), metis drop_all leI list.simps(9) list.distinct(1))
  then have cv: "current_value ?c = Some (w, False)" by (simp add: current_value_def nth_opt_def)
  from set_all_data_rails_asks [of r w False env vw'] h cv obtain r1 where
    1: "set_all_data_rails env vw' r = Some r1" "asks r (value_events ?c w) r1" by (auto simp: loop_ok_def is_one_of_n_def)
  then have c1: "cr_chan r1 = ?c" by (simp add: asks_def)
  from advance_value_plain [of r1 "w # rest" env] h c1 obtain vs i f where
    2: "advance_value env r1 = Some (r1\<lparr>cr_chan := ?c\<lparr>ch_values := vs, value_index := i, inject_expect_file := f\<rparr>\<rparr>)"
      "drop i vs = map (\<lambda>v. (v, False)) rest" by (auto simp: modes_ok_def)
  let ?r' = "r1\<lparr>cr_chan := ?c\<lparr>ch_values := vs, value_index := i, inject_expect_file := f\<rparr>\<rparr>"
  have "handshake vw (cr_chan ?r') T a logged rest"
    using h 2(2) by (intro handshake_update [OF assms]) (auto simp: modes_ok_values)
  moreover have "asked ?r' = asked r @ value_events ?c w" using 1(2) by (simp add: asks_def asked_def)
  moreover have "is_sourcing (cr_chan ?r') = is_sourcing ?c" by (simp add: is_sourcing_def flag_set_def)
  ultimately show ?thesis using 1(1) 2(1) by (auto simp: source_next_def)
qed

lemma source_next_end:
  assumes "handshake vw (cr_chan r) T a logged []"
  shows "\<exists>r'. source_next env vw' r = Some r' \<and>
     asked r' = asked r @ map (\<lambda>ni. (ni, level_of (get_data_sense (cr_chan r)) False)) (all_rails (cr_chan r)) \<and>
     handshake vw (cr_chan r') T a logged [] \<and> chan_core (cr_chan r') = chan_core (cr_chan r)"
proof -
  let ?c = "cr_chan r"
  note h = assms [unfolded handshake_def]
  from h have "length (ch_values ?c) \<le> value_index ?c" by simp
  then have "current_value ?c = None" by (simp add: current_value_def nth_opt_def)
  let ?r1 = "mod_chan (\<lambda>c. (set_flag CHANNEL_SOURCING False c)\<lparr>ch_values := []\<rparr>) (reset_all_data_rails env r)"
  have 1: "set_all_data_rails env vw' r = Some ?r1"
    using h \<open>current_value ?c = None\<close> by (simp add: set_all_data_rails_def Let_def is_random_def modes_ok_def)
  have c1: "cr_chan ?r1 = (set_flag CHANNEL_SOURCING False ?c)\<lparr>ch_values := []\<rparr>" by (simp add: mod_chan_def)
  have "modes_ok (cr_chan ?r1)" using h by (simp add: c1 modes_ok_values modes_ok_unsource)
  with advance_value_plain [of ?r1 "[]" env] obtain vs i f where
    2: "advance_value env ?r1 = Some (?r1\<lparr>cr_chan := (cr_chan ?r1)\<lparr>ch_values := vs, value_index := i, inject_expect_file := f\<rparr>\<rparr>)" "drop i vs = []"
    by (auto simp: modes_ok_def c1)
  let ?r' = "?r1\<lparr>cr_chan := (cr_chan ?r1)\<lparr>ch_values := vs, value_index := i, inject_expect_file := f\<rparr>\<rparr>"
  have k: "chan_core (cr_chan ?r') = chan_core ?c" by (simp add: c1)
  have "dumplog (cr_chan ?r') = dumplog ?c" by (simp add: c1 dumplog_set_flag)
  moreover have "modes_ok (cr_chan ?r')" using \<open>modes_ok (cr_chan ?r1)\<close> by (simp add: modes_ok_values)
  ultimately have "handshake vw (cr_chan ?r') T a logged []"
    using h 2(2) by (intro handshake_update [OF assms k]) simp_all
  note k this
  moreover have "asked ?r' = asked r @ map (\<lambda>ni. (ni, level_of (get_data_sense ?c) False)) (all_rails ?c)"
    using reset_all_asks [of r env] h by (simp add: asks_def asked_def mod_chan_def loop_ok_def)
  ultimately show ?thesis using 1 2(1) by (auto simp: source_next_def)
qed

section \<open>Steps of the handshake\<close>

lemma summarize_status_handshake:
  assumes "tracked vw c" "loop_ok c" "rails_at vw c T" "T = {} \<or> T = set (actives c w)" "vw (ack_signal c) = Some (ack_level a c)"
  shows "\<exists>stat. summarize_status vw c = Some stat \<and> \<not> x_ack stat \<and> ack_active stat = a"
proof -
  have l: "ch_type c = CHANNEL_TYPE_1ofN" "rails_ok c" "has_ack c" "\<not> has_valid c" "is_one_of_n c"
    using assms(2) by (auto simp: loop_ok_def is_one_of_n_def)
  have "T \<subseteq> set (all_rails c)" using assms(4) actives_rails [OF l(2)] by blast
  note n = rails_at_count [OF assms(1,3) this]
  have aa: "ack_level a c \<noteq> LOGIC_OTHER" "(get_ack_active c \<noteq> (ack_level a c = LOGIC_LOW)) = a" by (auto simp: ack_level_def)
  show ?thesis
  proof (cases "T = {}")
    case True
    with n have "counter_state c = 0" by (simp add: unat_eq_0)
    with l n(2) assms(5) aa show ?thesis
      by (simp add: summarize_status_def summarize_ack_def summarize_valid_def summarize_bundled_def summarize_data_def
          summarize_1ofN_def Let_def waiting_def)
  next
    case False
    with assms(4) have T: "T = set (actives c w)" by simp
    then have k: "unat (counter_state c) = bundles c" using n(1) distinct_card [OF distinct_actives [OF l(2), of w]] by simp
    then have k0: "counter_state c \<noteq> 0" using l(2) by (auto simp: rails_ok_def)
    have "data_rails_value vw c = decoded c w"
      using assms(3) l T by (intro data_rails_value_carries rails_at_carries) simp_all
    then obtain v where "data_rails_value vw c = Some v" using assms(2) by (simp add: decoded_def loop_ok_def Let_def)
    with l n(2) k k0 assms(5) aa show ?thesis
      by (simp add: summarize_status_def summarize_ack_def summarize_valid_def summarize_bundled_def summarize_data_def
          summarize_1ofN_def Let_def waiting_def)
  qed
qed

text \<open>The acknowledge: the source resets the rails, or sends the next value.\<close>

lemma process_ack:
  assumes "handshake vw (cr_chan r) T a logged rest" "T = {} \<or> T = set (actives (cr_chan r) w)" "is_sourcing (cr_chan r)"
  shows "ch_process_node env vw (ack_signal (cr_chan r)) prev nxt r =
    (if a then Some (reset_all_data_rails env r) else source_next env vw r)"
proof -
  note h = assms(1) [unfolded handshake_def]
  from summarize_status_handshake [of vw "cr_chan r" T w a] h assms(2) obtain stat where
    "summarize_status vw (cr_chan r) = Some stat" "\<not> x_ack stat" "ack_active stat = a" by blast
  with h assms(3) show ?thesis
    by (simp add: ch_process_node_def process_1ofN_def process_1ofN_ack_def loop_ok_def modes_ok_def Let_def)
qed

lemma handshake_ack_change:
  assumes "handshake vw c T a logged rest"
  shows "handshake (vw(ack_signal c \<mapsto> ack_level b c)) c T b logged rest"
proof -
  note h = assms [unfolded handshake_def]
  from h have "ack_signal c \<notin> set (all_rails c)" by (simp add: tracked_def signals_ok_def)
  with h show ?thesis by (auto simp: handshake_def tracked_def counters_ok_other rails_at_def)
qed

text \<open>A data rail changes; the sink logs the value when every bundle has an active rail, and answers.\<close>

lemma process_rail:
  assumes "handshake vw (cr_chan r) T a logged rest" "ni \<in> set (all_rails (cr_chan r))" "b = (ni \<notin> T)"
    and "T' = (if b then insert ni T else T - {ni})"
  defines "vw' \<equiv> vw(ni \<mapsto> level_of (get_data_sense (cr_chan r)) b)"
  shows "\<exists>r1. count_update (level_of (get_data_sense (cr_chan r)) (\<not> b)) (level_of (get_data_sense (cr_chan r)) b) r = Some r1 \<and>
    handshake vw' (cr_chan r1) T' a logged rest \<and> asked r1 = asked r \<and> is_sourcing (cr_chan r1) = is_sourcing (cr_chan r) \<and>
    chan_shape (cr_chan r1) = chan_shape (cr_chan r)"
proof -
  let ?c = "cr_chan r" and ?L = "level_of (get_data_sense (cr_chan r))"
  note h = assms(1) [unfolded handshake_def]
  have t: "counters_ok vw ?c" "length (all_rails ?c) \<le> 255" "distinct (all_rails ?c)" using h by (simp_all add: tracked_def)
  have "vw ni = Some (?L (\<not> b))" using h assms(2,3) by (simp add: rails_at_def)
  from update_counter_spec [OF t assms(2) this, of "?L b"] obtain c1 where
    1: "update_bd_data_counter (?L (\<not> b)) (?L b) ?c = Some c1" "counters_ok vw' c1"
      "c1 = ?c\<lparr>counter_state := counter_state c1, x_counter := x_counter c1\<rparr>" by (auto simp: vw'_def)
  have s: "chan_shape c1 = chan_shape ?c" by (subst 1(3)) (simp add: chan_shape_def)
  have m: "modes_ok c1" "dumplog c1 = dumplog ?c" "ch_values c1 = ch_values ?c" "value_index c1 = value_index ?c"
    "is_sourcing c1 = is_sourcing ?c"
    using h by (subst 1(3), simp add: modes_ok_values is_sourcing_def flag_set_def)+
  have "ack_signal ?c \<noteq> ni" using h assms(2) by (auto simp: tracked_def signals_ok_def)
  then have "vw' (ack_signal ?c) = Some (ack_level a ?c)" using h by (simp add: vw'_def)
  moreover have "rails_at vw' ?c T'" using h assms(3,4) by (auto simp: rails_at_def vw'_def)
  moreover have "tracked vw' c1" using h 1(2) by (simp add: tracked_def chan_shape_eqD [OF s])
  moreover have "T' \<subseteq> set (all_rails ?c)" using h assms(2,4) by auto
  ultimately have "handshake vw' c1 T' a logged rest" using h m shape_facts [OF s] by (simp add: handshake_def)
  moreover have "count_update (?L (\<not> b)) (?L b) r = Some (r\<lparr>cr_chan := c1\<rparr>)" using 1(1) by (simp add: count_update_def)
  ultimately show ?thesis using s m(5) by (intro exI [of _ "r\<lparr>cr_chan := c1\<rparr>"]) (simp add: asked_def)
qed

lemma process_1ofN_rail:
  assumes "count_update prev nxt r = Some r1" "handshake vw (cr_chan r1) T a logged rest" "chan_shape (cr_chan r1) = chan_shape (cr_chan r)"
    and "ni \<in> set (all_rails (cr_chan r))"
  shows "ch_process_node env vw ni prev nxt r =
    (if T = {} then Some (push_ack env False r1)
     else if card T = bundles (cr_chan r1) then do {
       r2 \<leftarrow> process_data env vw r1;
       if \<not> ch_stopped (cr_chan r2) \<and> is_sinking (cr_chan r2) \<and> \<not> has_valid (cr_chan r2)
       then do { INVARIANT (has_ack (cr_chan r2)); Some (push_ack env True r2) } else Some r2 }
     else Some r1)"
proof -
  note h = assms(2) [unfolded handshake_def]
  from h have l: "ch_type (cr_chan r1) = CHANNEL_TYPE_1ofN" "has_ack (cr_chan r1)" "\<not> has_valid (cr_chan r1)"
    "ack_signal (cr_chan r1) \<notin> set (all_rails (cr_chan r1))" by (simp_all add: loop_ok_def tracked_def signals_ok_def)
  with assms(3) have l': "ch_type (cr_chan r) = CHANNEL_TYPE_1ofN" "\<not> has_valid (cr_chan r)" "ack_signal (cr_chan r) \<notin> set (all_rails (cr_chan r))"
    using shape_facts(3,8) [OF assms(3)] by (simp_all add: chan_shape_def)
  from assms(1) obtain c where c: "update_bd_data_counter prev nxt (cr_chan r) = Some c" "r1 = r\<lparr>cr_chan := c\<rparr>" "cr_chan r1 = c"
    by (auto simp: count_update_def)
  from h have "unat (counter_state c) = card T" "x_counter c = 0" using rails_at_count [of vw c T] c(3) by simp_all
  moreover from this h have "T = {} \<longleftrightarrow> counter_state c = 0"
    by (metis List.finite_set card_0_eq finite_subset unat_eq_0 unat_0)
  moreover have "ni \<noteq> ack_signal (cr_chan r)" using l'(3) assms(4) by auto
  ultimately show ?thesis
    using l l' h c by (simp add: ch_process_node_def process_1ofN_def process_1ofN_data_def Let_def modes_ok_def)
qed

lemma process_data_logs:
  assumes "handshake vw (cr_chan r) (set (actives (cr_chan r) w)) a logged rest" "unat w < capacity (cr_chan r)"
  shows "\<exists>r'. process_data env vw r = Some r' \<and> asked r' = asked r \<and> chan_core (cr_chan r') = chan_core (cr_chan r) \<and>
    handshake vw (cr_chan r') (set (actives (cr_chan r) w)) a (logged @ [w]) rest \<and> is_sourcing (cr_chan r') = is_sourcing (cr_chan r)"
proof -
  let ?c = "cr_chan r"
  note h = assms(1) [unfolded handshake_def]
  have l: "ch_type ?c = CHANNEL_TYPE_1ofN" "rails_ok ?c" "is_one_of_n ?c" "\<not> is_signed ?c" using h by (auto simp: loop_ok_def is_one_of_n_def)
  have "decoded ?c w = Some w" using assms(2) l(4) by (simp add: decoded_def)
  then have v: "data_rails_value vw ?c = Some w" using data_rails_value_carries [OF l(2) disjI1 [OF l(3)] rails_at_carries [OF l(2,3), of vw w]] h by simp
  have "data_is_valid ?c"
    using rails_at_count [of vw ?c "set (actives ?c w)"] h distinct_card [OF distinct_actives [OF l(2), of w]] l(1)
    by (simp add: data_is_valid_def)
  with v h obtain f where 1: "log_data vw ?c = Some (?c\<lparr>dumplog := Some (f, map Some (logged @ [w]))\<rparr>)"
    by (auto simp: log_data_def modes_ok_def)
  let ?c' = "?c\<lparr>dumplog := Some (f, map Some (logged @ [w]))\<rparr>"
  have "modes_ok ?c'" using h by (simp add: modes_ok_values)
  then have "process_data env vw r = Some (r\<lparr>cr_chan := ?c'\<rparr>)" using v 1 by (simp add: process_data_def Let_def modes_ok_def)
  moreover have "handshake vw ?c' (set (actives ?c w)) a (logged @ [w]) rest"
    using h \<open>modes_ok ?c'\<close> by (intro handshake_update [OF assms(1)]) simp_all
  ultimately show ?thesis by (intro exI [of _ "r\<lparr>cr_chan := ?c'\<rparr>"]) (simp add: asked_def is_sourcing_def flag_set_def)
qed

lemma push_ack_asked: "asked (push_ack env b r) = asked r @ [(ack_signal (cr_chan r), ack_level b (cr_chan r))]"
  using asks_push [of r "ack_signal (cr_chan r)" "ack_level b (cr_chan r)" env] by (simp add: push_ack_def asks_def)

section \<open>Phases\<close>

text \<open>
  The number of steps that are left in each phase: the source fills the rails of the value \<open>w\<close>, the sink acknowledges,
  the source drains the rails, the sink withdraws the acknowledge. A value takes \<open>2 * bundles + 2\<close> steps.
\<close>

abbreviation per_value :: "channel \<Rightarrow> nat" where "per_value c \<equiv> 2 * bundles c + 2"

inductive loop_phase :: "value_type list \<Rightarrow> nat \<Rightarrow> loop_state \<Rightarrow> bool" for vs where
  filling: "handshake vw c T False logged rest \<Longrightarrow> is_sourcing c \<Longrightarrow> vs = logged @ w # rest \<Longrightarrow> unat w < capacity c \<Longrightarrow>
    T \<subset> set (actives c w) \<Longrightarrow> distinct P \<Longrightarrow>
    set P = (\<lambda>ni. (ni, level_of (get_data_sense c) True)) ` (set (actives c w) - T) \<Longrightarrow>
    m = (bundles c - card T) + bundles c + 2 + per_value c * length rest \<Longrightarrow> loop_phase vs m (vw, c, k, P)"
| full: "handshake vw c (set (actives c w)) False logged rest \<Longrightarrow> is_sourcing c \<Longrightarrow> vs = logged @ rest \<Longrightarrow>
    P = [(ack_signal c, ack_level True c)] \<Longrightarrow>
    m = bundles c + 2 + per_value c * length rest \<Longrightarrow> loop_phase vs m (vw, c, k, P)"
| draining: "handshake vw c T True logged rest \<Longrightarrow> is_sourcing c \<Longrightarrow> vs = logged @ rest \<Longrightarrow>
    T \<noteq> {} \<Longrightarrow> card T \<le> bundles c \<Longrightarrow> distinct P \<Longrightarrow> set P = (\<lambda>ni. (ni, level_of (get_data_sense c) False)) ` T \<Longrightarrow>
    m = card T + 1 + per_value c * length rest \<Longrightarrow> loop_phase vs m (vw, c, k, P)"
| neutral: "handshake vw c {} True logged rest \<Longrightarrow> is_sourcing c \<Longrightarrow> vs = logged @ rest \<Longrightarrow>
    P = [(ack_signal c, ack_level False c)] \<Longrightarrow>
    m = 1 + per_value c * length rest \<Longrightarrow> loop_phase vs m (vw, c, k, P)"
| finished: "handshake vw c {} False vs [] \<Longrightarrow> loop_phase vs 0 (vw, c, k, [])"

text \<open>Every pending event can happen, and leads to the next phase.\<close>

definition can_happen :: "chan_env \<Rightarrow> (loop_state \<Rightarrow> bool) \<Rightarrow> loop_state \<Rightarrow> pending \<Rightarrow> node_index_type \<Rightarrow> value_enum \<Rightarrow> bool" where
  "can_happen env Q x rest ni nxt \<longleftrightarrow> (case x of (vw, c, k, P) \<Rightarrow> \<exists>prev r. vw ni = Some prev \<and>
     ch_process_node env (vw(ni \<mapsto> nxt)) ni prev nxt (chan_start c k) = Some r \<and>
     Q (vw(ni \<mapsto> nxt), cr_chan r, cr_pos r, rest @ new_events (vw(ni \<mapsto> nxt)) r))"

definition steps_to :: "chan_env \<Rightarrow> (loop_state \<Rightarrow> bool) \<Rightarrow> loop_state \<Rightarrow> bool" where
  "steps_to env Q x \<longleftrightarrow> (case x of (vw, c, k, P) \<Rightarrow> \<forall>xs ni nxt ys. P = xs @ (ni, nxt) # ys \<longrightarrow> can_happen env Q x (xs @ ys) ni nxt)"

lemma steps_to_single:
  "can_happen env Q (vw, c, k, [(ni, nxt)]) [] ni nxt \<Longrightarrow> steps_to env Q (vw, c, k, [(ni, nxt)])"
  by (auto simp: steps_to_def Cons_eq_append_conv)

text \<open>The events that change the rails when those of \<open>T\<close> are active.\<close>

lemma new_events_filter:
  assumes "asked r = evs" shows "new_events vw r = filter (\<lambda>(ni, v). vw ni \<noteq> Some v) evs"
  using assms by (simp add: new_events_def)

lemma new_events_reset:
  assumes "rails_at vw c T" "T \<subseteq> set (all_rails c)" "distinct (all_rails c)"
    "asked r = map (\<lambda>ni. (ni, level_of (get_data_sense c) False)) (all_rails c)"
  shows "distinct (new_events vw r)" "set (new_events vw r) = (\<lambda>ni. (ni, level_of (get_data_sense c) False)) ` T"
    "T = {} \<Longrightarrow> new_events vw r = []"
proof -
  have e: "new_events vw r = map (\<lambda>ni. (ni, level_of (get_data_sense c) False)) (filter (\<lambda>ni. ni \<in> T) (all_rails c))"
    unfolding new_events_def assms(4) filter_map comp_def
    by (intro arg_cong [where f = "map _"] filter_cong refl) (use assms(1) in \<open>simp add: rails_at_def\<close>)
  show "distinct (new_events vw r)" using assms(3) by (simp add: e distinct_map inj_on_def)
  show "set (new_events vw r) = (\<lambda>ni. (ni, level_of (get_data_sense c) False)) ` T" using assms(2) by (auto simp: e)
  show "T = {} \<Longrightarrow> new_events vw r = []" by (simp add: e)
qed

lemma new_events_value:
  assumes "rails_at vw c {}" "rails_ok c" "is_one_of_n c" "asked r = value_events c w"
  shows "distinct (new_events vw r)" "set (new_events vw r) = (\<lambda>ni. (ni, level_of (get_data_sense c) True)) ` set (actives c w)"
proof -
  have e: "new_events vw r = map (\<lambda>ni. (ni, level_of (get_data_sense c) (ni \<in> set (actives c w)))) (filter (\<lambda>ni. ni \<in> set (actives c w)) (all_rails c))"
    unfolding new_events_def assms(4) value_events_actives [OF assms(2,3)] filter_map comp_def
    by (intro arg_cong [where f = "map _"] filter_cong refl) (use assms(1) in \<open>simp add: rails_at_def\<close>)
  show "distinct (new_events vw r)" using assms(2) by (simp add: e distinct_map inj_on_def rails_ok_def)
  show "set (new_events vw r) = (\<lambda>ni. (ni, level_of (get_data_sense c) True)) ` set (actives c w)"
    using actives_rails [OF assms(2), of w] by (force simp: e)
qed

lemma handshake_facts:
  assumes "handshake vw c T a logged rest"
  shows "rails_ok c" "is_one_of_n c" "ch_type c = CHANNEL_TYPE_1ofN" "has_ack c" "\<not> has_valid c" "is_sinking c" "\<not> ch_stopped c"
    "distinct (all_rails c)" "0 < bundles c" "rails_at vw c T" "T \<subseteq> set (all_rails c)" "vw (ack_signal c) = Some (ack_level a c)"
    "ack_signal c \<notin> set (all_rails c)"
  using assms by (auto simp: handshake_def loop_ok_def modes_ok_def is_one_of_n_def rails_ok_def tracked_def signals_ok_def)

section \<open>From phase to phase\<close>

lemma step_full:
  assumes "handshake vw c (set (actives c w)) False logged rest" "is_sourcing c" "vs = logged @ rest"
  shows "steps_to env (loop_phase vs (bundles c + 1 + per_value c * length rest)) (vw, c, k, [(ack_signal c, ack_level True c)])"
proof (rule steps_to_single)
  let ?r = "chan_start c k" and ?A = "set (actives c w)"
  let ?vw = "vw(ack_signal c \<mapsto> ack_level True c)" and ?r' = "reset_all_data_rails env ?r"
  note f = handshake_facts [OF assms(1)]
  have h: "handshake ?vw c ?A True logged rest" using assms(1) by (rule handshake_ack_change)
  then have "ch_process_node env ?vw (ack_signal c) (ack_level False c) (ack_level True c) ?r = Some ?r'"
    using process_ack [of ?vw ?r ?A True logged rest w] assms(2) by simp
  moreover have "asked ?r' = map (\<lambda>ni. (ni, level_of (get_data_sense c) False)) (all_rails c)"
    using reset_all_asks [of ?r env] f(3) by (simp add: asks_def)
  note e = new_events_reset [OF handshake_facts(10) [OF h] f(11) f(8) this]
  have card: "card ?A = bundles c" using distinct_card [OF distinct_actives [OF f(1), of w]] by simp
  then have "?A \<noteq> {}" using f(9) by auto
  with h assms(2,3) e(1,2) card have "loop_phase vs (bundles c + 1 + per_value c * length rest) (?vw, c, cr_pos ?r', new_events ?vw ?r')"
    by (intro draining [where T = "?A"]) simp_all
  ultimately show "can_happen env (loop_phase vs (bundles c + 1 + per_value c * length rest)) (vw, c, k, [(ack_signal c, ack_level True c)]) []
      (ack_signal c) (ack_level True c)"
    using f(12) by (simp add: can_happen_def)
qed

lemma step_neutral:
  assumes "handshake vw c {} True logged rest" "is_sourcing c" "vs = logged @ rest"
  shows "steps_to env (loop_phase vs (per_value c * length rest)) (vw, c, k, [(ack_signal c, ack_level False c)])"
proof (rule steps_to_single)
  let ?r = "chan_start c k" and ?vw = "vw(ack_signal c \<mapsto> ack_level False c)"
  note f = handshake_facts [OF assms(1)]
  have h: "handshake ?vw (cr_chan ?r) {} False logged rest" using handshake_ack_change [OF assms(1)] by simp
  have p: "ch_process_node env ?vw (ack_signal c) (ack_level True c) (ack_level False c) ?r = source_next env ?vw ?r"
    using process_ack [OF h, where w = 0] assms(2) by simp
  have "\<exists>r'. source_next env ?vw ?r = Some r' \<and>
      loop_phase vs (per_value c * length rest) (?vw, cr_chan r', cr_pos r', new_events ?vw r')"
  proof (cases rest)
    case Nil
    from source_next_end [of ?vw ?r "{}" False logged env ?vw] h Nil obtain r' where r': "source_next env ?vw ?r = Some r'"
      "asked r' = map (\<lambda>ni. (ni, level_of (get_data_sense c) False)) (all_rails c)" "handshake ?vw (cr_chan r') {} False logged []" by auto
    have "new_events ?vw r' = []" using new_events_reset(3) [OF _ _ f(8) r'(2), of ?vw "{}"] handshake_facts(10) [OF h] by simp
    with r' Nil assms(3) show ?thesis using finished [of ?vw "cr_chan r'" vs] by simp
  next
    case (Cons w rest')
    from source_next_value [of ?vw ?r "{}" False logged w rest' env ?vw] h Cons obtain r' where r': "source_next env ?vw ?r = Some r'"
      "asked r' = value_events c w" "handshake ?vw (cr_chan r') {} False logged rest'" "chan_core (cr_chan r') = chan_core c"
      "is_sourcing (cr_chan r') = is_sourcing c" by auto
    note s = shape_facts [OF chan_shape_core [OF r'(4)]]
    have "rails_at ?vw c {}" using handshake_facts(10) [OF h] by simp
    note e = new_events_value [OF this f(1,2) r'(2)]
    have "actives c w \<noteq> []" using f(9) by (metis length_actives list.size(3) less_irrefl)
    moreover have "unat w < capacity c" using assms(1) Cons by (simp add: handshake_def)
    ultimately have "loop_phase vs (bundles c + bundles c + 2 + per_value c * length rest') (?vw, cr_chan r', cr_pos r', new_events ?vw r')"
      using r'(3,5) assms(2,3) Cons e by (intro filling [where w = w and T = "{}"]) (auto simp: s)
    with r'(1) Cons show ?thesis by (auto simp: algebra_simps)
  qed
  with p f(12) show "can_happen env (loop_phase vs (per_value c * length rest)) (vw, c, k, [(ack_signal c, ack_level False c)]) []
      (ack_signal c) (ack_level False c)"
    by (simp add: can_happen_def)
qed

lemma remove_pending:
  assumes "distinct (xs @ e # ys)" shows "distinct (xs @ ys)" "set (xs @ ys) = set (xs @ e # ys) - {e}"
  using assms by auto

lemma new_events_none: "asked r = [] \<Longrightarrow> new_events vw r = []"
  by (simp add: new_events_def)

lemma ack_levels_differ: "ack_level (\<not> a) c \<noteq> ack_level a c"
  by (cases a) (simp_all add: ack_level_def)

lemma step_draining:
  assumes "handshake vw c T True logged rest" "is_sourcing c" "vs = logged @ rest" "card T \<le> bundles c" "distinct P"
    "set P = (\<lambda>ni. (ni, level_of (get_data_sense c) False)) ` T"
  shows "steps_to env (loop_phase vs (card T + per_value c * length rest)) (vw, c, k, P)"
  unfolding steps_to_def prod.case
proof (intro allI impI)
  fix xs ni nxt ys
  assume P: "P = xs @ (ni, nxt) # ys"
  let ?r = "chan_start c k" and ?L = "level_of (get_data_sense c)"
  let ?vw = "vw(ni \<mapsto> ?L False)" and ?T = "T - {ni}"
  note f = handshake_facts [OF assms(1)]
  have "(ni, nxt) \<in> set P" using P by simp
  then have ni: "ni \<in> T" "nxt = ?L False" using assms(6) by auto
  then have nir: "ni \<in> set (all_rails c)" "vw ni = Some (?L True)" using f(10,11) by (auto simp: rails_at_def)
  have fin: "finite T" using f(11) finite_subset by auto
  have card: "card T = Suc (card ?T)" using ni(1) fin by (metis card.remove)
  from process_rail [of vw ?r T True logged rest ni False ?T] assms(1) nir(1) ni obtain r1 where
    r1: "count_update (?L True) (?L False) ?r = Some r1" "handshake ?vw (cr_chan r1) ?T True logged rest" "asked r1 = []"
      "is_sourcing (cr_chan r1) = is_sourcing c" "chan_shape (cr_chan r1) = chan_shape c" by auto
  note s = shape_facts [OF r1(5)]
  have rest: "distinct (xs @ ys)" "set (xs @ ys) = (\<lambda>ni. (ni, ?L False)) ` ?T"
    using remove_pending [of xs "(ni, nxt)" ys] assms(5,6) P ni by auto
  define r2 where "r2 = (if ?T = {} then push_ack env False r1 else r1)"
  have p: "ch_process_node env ?vw ni (?L True) (?L False) ?r = Some r2"
    using process_1ofN_rail [OF r1(1,2), of ni env] r1(5) nir(1) card assms(4) by (simp add: s r2_def)
  have "loop_phase vs (card T + per_value c * length rest) (?vw, cr_chan r2, cr_pos r2, xs @ ys @ new_events ?vw r2)"
  proof (cases "?T = {}")
    case True
    have "new_events ?vw (push_ack env False r1) = [(ack_signal c, ack_level False c)]"
      using handshake_facts(12) [OF r1(2)] ack_levels_differ [of False c] by (simp add: new_events_def push_ack_asked r1(3) s)
    moreover have "xs = []" "ys = []" using rest(2) True by auto
    moreover have "card T = 1" using card True by simp
    ultimately show ?thesis using r1(2,4) assms(2,3) True
      by (auto simp: s r2_def intro!: neutral)
  next
    case False
    have "new_events ?vw r2 = []" "cr_chan r2 = cr_chan r1" using False new_events_none [OF r1(3)] by (simp_all add: r2_def)
    then show ?thesis using r1 assms(2-4) rest card False by (intro draining [where T = ?T]) (simp_all add: s)
  qed
  with p nir(2) show "can_happen env (loop_phase vs (card T + per_value c * length rest)) (vw, c, k, P) (xs @ ys) ni nxt"
    unfolding ni(2) by (simp add: can_happen_def)
qed

lemma step_filling:
  assumes "handshake vw c T False logged rest" "is_sourcing c" "vs = logged @ w # rest" "unat w < capacity c"
    "T \<subset> set (actives c w)" "distinct P" "set P = (\<lambda>ni. (ni, level_of (get_data_sense c) True)) ` (set (actives c w) - T)"
  shows "steps_to env (loop_phase vs (bundles c - card T + bundles c + 1 + per_value c * length rest)) (vw, c, k, P)"
  unfolding steps_to_def prod.case
proof (intro allI impI)
  fix xs ni nxt ys
  assume P: "P = xs @ (ni, nxt) # ys"
  let ?r = "chan_start c k" and ?L = "level_of (get_data_sense c)" and ?A = "set (actives c w)"
  let ?vw = "vw(ni \<mapsto> ?L True)" and ?T = "insert ni T" and ?m = "bundles c - card T + bundles c + 1 + per_value c * length rest"
  note f = handshake_facts [OF assms(1)]
  have "(ni, nxt) \<in> set P" using P by simp
  then have ni: "ni \<in> ?A" "ni \<notin> T" "nxt = ?L True" using assms(7) by auto
  then have nir: "ni \<in> set (all_rails c)" "vw ni = Some (?L False)" using f(10) actives_rails [OF f(1), of w] by (auto simp: rails_at_def)
  have fin: "finite T" using f(11) finite_subset by auto
  have "card ?T \<le> card ?A" by (rule card_mono) (use ni(1) assms(5) in auto)
  then have card: "card ?T = Suc (card T)" "card ?A = bundles c" "card ?T \<le> card ?A"
    using ni(2) fin distinct_card [OF distinct_actives [OF f(1), of w]] by simp_all
  from process_rail [of vw ?r T False logged rest ni True ?T] assms(1) nir(1) ni obtain r1 where
    r1: "count_update (?L False) (?L True) ?r = Some r1" "handshake ?vw (cr_chan r1) ?T False logged rest" "asked r1 = []"
      "is_sourcing (cr_chan r1) = is_sourcing c" "chan_shape (cr_chan r1) = chan_shape c" by auto
  note s = shape_facts [OF r1(5)]
  have rest: "distinct (xs @ ys)" "set (xs @ ys) = (\<lambda>ni. (ni, ?L True)) ` (?A - ?T)"
    using remove_pending [of xs "(ni, nxt)" ys] assms(6,7) P ni by auto
  note p = process_1ofN_rail [OF r1(1,2), of ni env]
  have "\<exists>r2. ch_process_node env ?vw ni (?L False) (?L True) ?r = Some r2 \<and>
    loop_phase vs ?m (?vw, cr_chan r2, cr_pos r2, xs @ ys @ new_events ?vw r2)"
  proof (cases "?T = ?A")
    case True
    from process_data_logs [of ?vw r1 w False logged rest env] r1(2) True assms(4) obtain r2 where
      r2: "process_data env ?vw r1 = Some r2" "asked r2 = []" "chan_core (cr_chan r2) = chan_core (cr_chan r1)"
        "handshake ?vw (cr_chan r2) ?A False (logged @ [w]) rest" "is_sourcing (cr_chan r2) = is_sourcing c"
      by (auto simp: s r1(3,4))
    have s2: "chan_shape (cr_chan r2) = chan_shape c" using chan_shape_core [OF r2(3)] r1(5) by simp
    note s2 = shape_facts [OF s2]
    note f2 = handshake_facts [OF r2(4)]
    have "card ?T = bundles c" using True card(2) by simp
    then have "ch_process_node env ?vw ni (?L False) (?L True) ?r = Some (push_ack env True r2)"
      using p r1(5) nir(1) r2(1) f2 by (simp add: s)
    moreover have "new_events ?vw (push_ack env True r2) = [(ack_signal c, ack_level True c)]"
      using f2(12) ack_levels_differ [of True c] by (simp add: new_events_def push_ack_asked r2(2) s2)
    moreover have "xs = []" "ys = []" using rest(2) True by auto
    moreover have "bundles c - card T = 1" using card(1,2) True by simp
    ultimately show ?thesis using r2(4,5) assms(2,3)
      by (auto simp: s2 intro!: full [where w = w])
  next
    case False
    then have sub: "?T \<subset> ?A" using ni(1) assms(5) by auto
    then have "card ?T < bundles c" using card(2) by (metis List.finite_set psubset_card_mono)
    then have "ch_process_node env ?vw ni (?L False) (?L True) ?r = Some r1"
      using p r1(5) nir(1) by (simp add: s)
    moreover have "loop_phase vs (bundles c - card ?T + bundles c + 2 + per_value c * length rest)
        (?vw, cr_chan r1, cr_pos r1, xs @ ys @ new_events ?vw r1)"
      using r1 assms(2-4) rest card sub \<open>card ?T < bundles c\<close> new_events_none [OF r1(3)]
      by (intro filling [where T = ?T and w = w]) (simp_all add: s)
    moreover have "bundles c - card ?T + bundles c + 2 + per_value c * length rest = ?m"
      using card(1) \<open>card ?T < bundles c\<close> by linarith
    ultimately show ?thesis by metis
  qed
  with nir(2) show "can_happen env (loop_phase vs ?m) (vw, c, k, P) (xs @ ys) ni nxt"
    unfolding ni(3) by (auto simp: can_happen_def)
qed

section \<open>Every run\<close>

lemma phase_steps:
  assumes "loop_phase vs m x"
  shows "steps_to env (loop_phase vs (m - 1)) x" and "m = 0 \<longleftrightarrow> snd (snd (snd x)) = []"
proof -
  show "steps_to env (loop_phase vs (m - 1)) x"
    using assms
  proof cases
    case (filling vw c T logged rest w P k)
    with step_filling [of vw c T logged rest vs w P env k] show ?thesis by simp
  next
    case (full vw c w logged rest P k)
    with step_full [of vw c w logged rest vs env k] show ?thesis by simp
  next
    case (draining vw c T logged rest P k)
    with step_draining [of vw c T logged rest vs P env k] show ?thesis by simp
  next
    case (neutral vw c logged rest P k)
    with step_neutral [of vw c logged rest vs env k] show ?thesis by simp
  qed (simp add: steps_to_def)
  show "m = 0 \<longleftrightarrow> snd (snd (snd x)) = []"
    using assms by cases auto
qed

lemma loop_step_phase:
  assumes "loop_phase vs m x" "loop_step env x y"
  shows "loop_phase vs (m - 1) y" "0 < m"
proof -
  obtain vw c k P where x: "x = (vw, c, k, P)" by (cases x)
  from assms(2) [unfolded x] obtain ni prev nxt r xs ys where
    1: "P = xs @ (ni, nxt) # ys" "vw ni = Some prev" "ch_process_node env (vw(ni \<mapsto> nxt)) ni prev nxt (chan_start c k) = Some r"
      "y = (vw(ni \<mapsto> nxt), cr_chan r, cr_pos r, xs @ ys @ new_events (vw(ni \<mapsto> nxt)) r)" by (rule loop_stepE) blast
  from phase_steps(1) [OF assms(1), of env] 1(1) have "can_happen env (loop_phase vs (m - 1)) x (xs @ ys) ni nxt" by (simp add: steps_to_def x)
  with 1 show "loop_phase vs (m - 1) y" by (simp add: can_happen_def x)
  show "0 < m" using phase_steps(2) [OF assms(1)] 1(1) x by (cases m) auto
qed

lemma loop_phase_enabled:
  assumes "loop_phase vs m (vw, c, k, P)" "(ni, nxt) \<in> set P"
  shows "\<exists>prev r. vw ni = Some prev \<and> ch_process_node env (vw(ni \<mapsto> nxt)) ni prev nxt (chan_start c k) = Some r"
proof -
  from assms(2) obtain xs ys where P: "P = xs @ (ni, nxt) # ys" by (auto dest: split_list)
  from phase_steps(1) [OF assms(1), of env] P have "can_happen env (loop_phase vs (m - 1)) (vw, c, k, P) (xs @ ys) ni nxt" by (simp add: steps_to_def)
  then show ?thesis by (auto simp: can_happen_def)
qed

text \<open>
  The contract that bounds the runs of a system: in a phase with \<open>m\<close> steps left, a step leads to one with fewer by one.
\<close>

locale step_bound =
  fixes stp :: "'s \<Rightarrow> 's \<Rightarrow> bool" and phase :: "nat \<Rightarrow> 's \<Rightarrow> bool"
  assumes counts: "phase m x \<Longrightarrow> stp x y \<Longrightarrow> 0 < m \<and> phase (m - 1) y"
begin

lemma run: "phase m x \<Longrightarrow> (stp ^^ n) x y \<Longrightarrow> n \<le> m \<and> phase (m - n) y"
proof (induction n arbitrary: y)
  case (Suc n)
  from Suc.prems(2) obtain z where z: "(stp ^^ n) x z" "stp z y" by auto
  from Suc.IH [OF Suc.prems(1) z(1)] counts [of "m - n" z y] z(2) show ?case by auto
qed simp

end

interpretation handshake_loop: step_bound "loop_step env" "loop_phase vs" for env vs
  by unfold_locales (blast dest: loop_step_phase)

section \<open>Starting the channel\<close>

text \<open>
  A source that is also the sink of its channel, with a log, values to send, neutral rails and an inactive acknowledge;
  it may be stopped (as \<^verbatim>\<open>channel::reset\<close> leaves it).
\<close>

definition loop_ready :: "node_view \<Rightarrow> channel \<Rightarrow> value_type list \<Rightarrow> bool" where
  "loop_ready vw c vs \<longleftrightarrow> loop_ok c \<and> tracked vw c \<and> is_sourcing c \<and> is_sinking c \<and> \<not> is_expecting c \<and> \<not> ignored c \<and>
     \<not> flag_set CHANNEL_RANDOM c \<and> \<not> flag_set CHANNEL_VALUE_LOOP c \<and> rails_at vw c {} \<and>
     vw (ack_signal c) = Some (ack_level False c) \<and> (\<exists>f. dumplog c = Some (f, [])) \<and>
     ch_values c = map (\<lambda>v. (v, False)) vs \<and> value_index c = 0 \<and> (\<forall>v \<in> set vs. representable c v)"

lemma loop_ready_handshake:
  assumes "loop_ready vw c vs"
  defines "c' \<equiv> set_flag CHANNEL_STOPPED False c"
  shows "handshake vw c' {} False [] vs" "is_sourcing c'" "chan_core c' = chan_core c"
proof -
  note a = assms(1) [unfolded loop_ready_def]
  show core: "chan_core c' = chan_core c" by (simp add: c'_def)
  show "is_sourcing c'" using a by (simp add: c'_def is_sourcing_def flag_set_other)
  note s = shape_facts [OF chan_shape_core [OF core]]
  have u: "unat v < capacity c' \<and> sendable c' v" if "v \<in> set vs" for v
    using a that representable_unsigned [of c v] by (auto simp: s loop_ok_def is_one_of_n_def)
  have "modes_ok c'" using a
    by (simp add: c'_def modes_ok_def is_sinking_def is_expecting_def ignored_def flag_set_other)
      (simp add: ch_stopped_def flag_set_def set_flag_def and.assoc)
  moreover have "dumplog c' = dumplog c" "ch_values c' = ch_values c" "value_index c' = value_index c" by (simp_all add: c'_def set_flag_def)
  ultimately show "handshake vw c' {} False [] vs"
    using a u tracked_core [OF core, of vw] by (simp add: handshake_def s)
qed

lemma resume_source_next:
  assumes "handshake vw (cr_chan r) {} False logged rest" "is_sourcing (cr_chan r)"
    "source_next env vw r = Some r1" "chan_core (cr_chan r1) = chan_core (cr_chan r)" "is_sinking (cr_chan r1)"
  shows "summarize_status vw (cr_chan r) \<bind> (\<lambda>stat. resume_1ofN env vw stat r) = Some (push_ack env False r1)"
proof -
  note f = handshake_facts [OF assms(1)]
  from summarize_status_handshake [of vw "cr_chan r" "{}" 0 False] assms(1) obtain stat where
    st: "summarize_status vw (cr_chan r) = Some stat" "\<not> x_ack stat" "\<not> ack_active stat" by (auto simp: handshake_def)
  from rails_at_count [of vw "cr_chan r" "{}"] assms(1) have n: "unat (counter_state (cr_chan r)) = 0" "x_counter (cr_chan r) = 0"
    by (simp_all add: handshake_def)
  then have n1: "counter_state (cr_chan r1) = 0" "x_counter (cr_chan r1) = 0"
    using assms(4) by (simp_all add: chan_core_def unat_eq_0)
  have "ack_signal (cr_chan r1) = ack_signal (cr_chan r)" "valid_signal (cr_chan r1) = valid_signal (cr_chan r)"
    using assms(4) by (simp_all add: chan_core_def)
  with st n n1 f(4,5,9) assms(2,3,5) show ?thesis
    by (simp add: resume_1ofN_def resume_1ofN_source_def resume_4p_sink_def Let_def)
qed

lemma resume_phase:
  assumes "loop_ready vw c vs"
  shows "\<exists>r. ch_resume env vw (chan_start c k) = Some r \<and>
    loop_phase vs (per_value c * length vs) (vw, cr_chan r, cr_pos r, new_events vw r)"
proof -
  let ?c = "set_flag CHANNEL_STOPPED False c"
  let ?r = "mod_chan (set_flag CHANNEL_STOPPED False) (chan_start c k)"
  note l = loop_ready_handshake [OF assms]
  have c: "cr_chan ?r = ?c" "asked ?r = []" by (simp_all add: mod_chan_def asked_def chan_start_def)
  have h: "handshake vw (cr_chan ?r) {} False [] vs" "is_sourcing (cr_chan ?r)" using l by (simp_all add: c)
  note f = handshake_facts [OF l(1)] and s = shape_facts [OF chan_shape_core [OF l(3)]]
  have "ch_resume env vw (chan_start c k) = summarize_status vw (cr_chan ?r) \<bind> (\<lambda>stat. resume_1ofN env vw stat ?r)"
    using f(3) by (simp add: ch_resume_def Let_def c)
  also have "\<exists>r. \<dots> = Some r \<and> loop_phase vs (per_value c * length vs) (vw, cr_chan r, cr_pos r, new_events vw r)"
  proof (cases vs)
    case Nil
    from source_next_end [of vw ?r "{}" False "[]" env vw] h Nil obtain r1 where r1: "source_next env vw ?r = Some r1"
      "asked r1 = map (\<lambda>ni. (ni, level_of (get_data_sense ?c) False)) (all_rails ?c)" "handshake vw (cr_chan r1) {} False [] []"
      "chan_core (cr_chan r1) = chan_core (cr_chan ?r)" by (auto simp: c)
    note f1 = handshake_facts [OF r1(3)]
    have "new_events vw r1 = []" using new_events_reset(3) [OF f(10) _ f(8) r1(2)] by simp
    then have "new_events vw (push_ack env False r1) = []" using f1(12) by (simp add: new_events_def push_ack_asked)
    with resume_source_next [OF h r1(1,4) f1(6)] finished [of vw "cr_chan r1" "[]"] r1(3) Nil show ?thesis by simp
  next
    case (Cons w rest)
    from source_next_value [of vw ?r "{}" False "[]" w rest env vw] h Cons obtain r1 where r1: "source_next env vw ?r = Some r1"
      "asked r1 = value_events ?c w" "handshake vw (cr_chan r1) {} False [] rest" "chan_core (cr_chan r1) = chan_core (cr_chan ?r)"
      "is_sourcing (cr_chan r1)" by (auto simp: c)
    note f1 = handshake_facts [OF r1(3)] and s1 = shape_facts [OF chan_shape_core [OF r1(4) [unfolded c]]]
    note e = new_events_value [OF f(10) f(1,2) r1(2)]
    have n: "new_events vw (push_ack env False r1) = new_events vw r1" using f1(12) by (simp add: new_events_def push_ack_asked)
    have "actives ?c w \<noteq> []" using f(9) by (metis length_actives list.size(3) less_irrefl)
    moreover have "unat w < capacity ?c" using l(1) Cons by (simp add: handshake_def)
    ultimately have "loop_phase vs (bundles ?c + bundles ?c + 2 + per_value ?c * length rest)
        (vw, cr_chan r1, cr_pos (push_ack env False r1), new_events vw r1)"
      using r1(3,5) Cons e by (intro filling [where w = w and T = "{}"]) (auto simp: s1)
    moreover have "bundles ?c + bundles ?c + 2 + per_value ?c * length rest = per_value c * length vs"
      by (simp add: Cons s)
    ultimately show ?thesis using resume_source_next [OF h r1(1,4) f1(6)] n by simp
  qed
  finally show ?thesis .
qed

text \<open>No pending event of a run has an effect that the model leaves undefined, and the run ends with every value in the log.\<close>

lemma loop_phase_end: "loop_phase vs 0 (vw, c, k, P) \<Longrightarrow> P = [] \<and> (\<exists>f. dumplog c = Some (f, map Some vs))"
  by (erule loop_phase.cases) (auto simp: handshake_def)

lemma loop_delivers:
  assumes "loop_ready vw c vs"
  shows "\<exists>r. ch_resume env vw (chan_start c k) = Some r \<and>
    (\<forall>n vw' c' k' P. (loop_step env ^^ n) (vw, cr_chan r, cr_pos r, new_events vw r) (vw', c', k', P) \<longrightarrow>
       n \<le> per_value c * length vs \<and>
       (if n < per_value c * length vs
        then P \<noteq> [] \<and> (\<forall>(ni, nxt) \<in> set P. \<exists>prev r. vw' ni = Some prev \<and>
          ch_process_node env (vw'(ni \<mapsto> nxt)) ni prev nxt (chan_start c' k') = Some r)
        else P = [] \<and> (\<exists>f. dumplog c' = Some (f, map Some vs))))"
proof -
  from resume_phase [OF assms] obtain r where r: "ch_resume env vw (chan_start c k) = Some r"
    "loop_phase vs (per_value c * length vs) (vw, cr_chan r, cr_pos r, new_events vw r)" by blast
  show ?thesis
  proof (intro exI conjI allI impI)
    fix n vw' c' k' P
    assume "(loop_step env ^^ n) (vw, cr_chan r, cr_pos r, new_events vw r) (vw', c', k', P)"
    from handshake_loop.run [OF r(2) this] have n: "n \<le> per_value c * length vs"
      and p: "loop_phase vs (per_value c * length vs - n) (vw', c', k', P)" by simp_all
    show "n \<le> per_value c * length vs" by (rule n)
    show "if n < per_value c * length vs
      then P \<noteq> [] \<and> (\<forall>(ni, nxt) \<in> set P. \<exists>prev r. vw' ni = Some prev \<and>
        ch_process_node env (vw'(ni \<mapsto> nxt)) ni prev nxt (chan_start c' k') = Some r)
      else P = [] \<and> (\<exists>f. dumplog c' = Some (f, map Some vs))"
    proof (cases "n < per_value c * length vs")
      case True
      with phase_steps(2) [OF p] have "P \<noteq> []" by auto
      with True loop_phase_enabled [OF p] show ?thesis by (simp add: split_def)
    next
      case False
      with n p loop_phase_end [of vs vw' c' k' P] show ?thesis by simp
    qed
  qed (rule r(1))
qed

end
