(* ===== verification/Channel_Saved.thy ===== *)
theory Channel_Saved
  imports Channel_Manager
begin

text \<open>
  Checkpoints of the channels: loading what was saved gives every channel back, except for what a checkpoint does not
  hold, and rebuilds the index of names and the map from nodes to channels.
\<close>

lemma get_nats_map: "get_nats (length l) (map CkNat l @ xs) = Some (l, xs)"
  by (induction l) simp_all

lemma get_values_map: "get_values (length l) (map CkValue l @ xs) = Some (l, xs)"
  by (induction l) simp_all

lemma get_rows_concat:
  "\<forall>row \<in> set rows. length row = w \<Longrightarrow> get_rows (length rows) w (map CkNat (concat rows) @ xs) = Some (rows, xs)"
proof (induction rows)
  case (Cons row rows)
  then have "get_nats w (map CkNat row @ (map CkNat (concat rows) @ xs)) = Some (row, map CkNat (concat rows) @ xs)"
    using get_nats_map [of row] by simp
  with Cons show ?case by simp
qed simp

text \<open>A checkpoint keeps neither the map from nodes to rails, nor the name of the value file, nor what the log holds.\<close>

definition restored :: "channel \<Rightarrow> channel" where
  "restored c = c\<lparr>dumplog := map_option (\<lambda>(f, _). (f, [])) (dumplog c), inject_expect_file := '''', node_to_rail := Map.empty\<rparr>"

definition rectangular :: "channel \<Rightarrow> bool" where
  "rectangular c \<longleftrightarrow> (\<forall>row \<in> set (ch_data c). length row = ch_radix c)"

lemma read_simps [simp]:
  "read_nat (CkNat n # xs) = Some (n, xs)" "read_time (CkTime t # xs) = Some (t, xs)" "read_mode (CkMode m # xs) = Some (m, xs)"
  "read_type (CkType y # xs) = Some (y, xs)" "read_flags (CkFlags f # xs) = Some (f, xs)" "read_byte (CkByte b # xs) = Some (b, xs)"
  "read_bool (CkBool q # xs) = Some (q, xs)" "read_string (CkString s # xs) = Some (s, xs)"
  by (simp_all add: read_with_def read_nat_def read_time_def read_mode_def read_type_def read_flags_def read_byte_def
      read_bool_def read_string_def)

lemma load_saved_log:
  assumes "dumplog c = None"
  shows "load_log ((case d of Some (f, _) \<Rightarrow> [CkBool True, CkString f] | None \<Rightarrow> [CkBool False]) @ xs) c =
    Some (c\<lparr>dumplog := map_option (\<lambda>(f, _). (f, [])) d\<rparr>, xs)"
  using assms by (cases d) (auto simp: load_log_def split: prod.split)

lemma load_saved_channel:
  assumes "rectangular c"
  shows "channel_load_checkpoint (channel_save_checkpoint c @ xs) (channel_new d) = Some ((restored c)\<lparr>ch_name := ''''\<rparr>, xs)"
proof -
  have rows: "get_rows (bundles c) (ch_radix c) (map CkNat (all_rails c) @ ys) = Some (ch_data c, ys)" for ys
    using get_rows_concat [of "ch_data c" "ch_radix c"] assms by (simp add: rectangular_def bundles_def all_rails_def)
  show ?thesis
    by (simp add: channel_load_checkpoint_def channel_save_checkpoint_def rows load_saved_log get_values_map channel_new_def)
      (simp add: restored_def)
qed

section \<open>The pool\<close>

lemma index_nodes_spec:
  "(\<exists>l. index_nodes key ns mp ni = Some l \<and> k \<in> set l) \<longleftrightarrow> (\<exists>l. mp ni = Some l \<and> k \<in> set l) \<or> ni \<in> set ns \<and> k = key"
proof (induction ns arbitrary: mp)
  case (Cons n ns)
  have "index_nodes key (n # ns) mp = index_nodes key ns (mp(n \<mapsto> set_insert key (case mp n of Some l \<Rightarrow> l | None \<Rightarrow> [])))"
    by (simp add: index_nodes_def)
  then show ?case by (cases "mp n") (auto simp: Cons)
qed (simp add: index_nodes_def)

text \<open>The manager after the channels \<open>cs\<close> were loaded into it.\<close>

definition extends :: "channel_manager \<Rightarrow> channel list \<Rightarrow> channel_manager \<Rightarrow> bool" where
  "extends m cs m' \<longleftrightarrow> channel_pool m' = channel_pool m @ map restored cs \<and>
     (\<forall>nm. channel_index_set m' nm = (case map_of (rev (zip (map ch_name cs) [length (channel_pool m)..<length (channel_pool m) + length cs])) nm of
        Some k \<Rightarrow> Some k | None \<Rightarrow> channel_index_set m nm)) \<and>
     (\<forall>ni k. (\<exists>l. node_channels_map m' ni = Some l \<and> k \<in> set l) \<longleftrightarrow>
        (\<exists>l. node_channels_map m ni = Some l \<and> k \<in> set l) \<or>
        (\<exists>j < length cs. k = length (channel_pool m) + j \<and> ni \<in> set (get_all_nodes (cs ! j))))"

lemma load_saved_channels:
  assumes "\<forall>c \<in> set cs. rectangular c"
  shows "\<exists>m'. load_channels d (length cs) (concat (map (\<lambda>c. CkString (ch_name c) # channel_save_checkpoint c) cs) @ xs) m = Some (m', xs) \<and>
    extends m cs m'"
  using assms
proof (induction cs arbitrary: m)
  case Nil
  then show ?case by (simp add: extends_def)
next
  case (Cons c cs)
  let ?n = "length (channel_pool m)"
  let ?m = "m\<lparr>channel_pool := channel_pool m @ [restored c], channel_index_set := (channel_index_set m)(ch_name c \<mapsto> ?n),
        node_channels_map := index_nodes ?n (get_all_nodes c) (node_channels_map m)\<rparr>"
  have r: "(restored c)\<lparr>ch_name := '''', ch_name := ch_name c\<rparr> = restored c" by (simp add: restored_def)
  have g: "get_all_nodes ((restored c)\<lparr>ch_name := ''''\<rparr>) = get_all_nodes c" by (simp add: restored_def get_all_nodes_def all_rails_def)
  from Cons.IH [of ?m] Cons.prems obtain m' where
    m': "load_channels d (length cs) (concat (map (\<lambda>c. CkString (ch_name c) # channel_save_checkpoint c) cs) @ xs) ?m = Some (m', xs)"
      "extends ?m cs m'" by auto
  have "load_channels d (length (c # cs)) (concat (map (\<lambda>c. CkString (ch_name c) # channel_save_checkpoint c) (c # cs)) @ xs) m = Some (m', xs)"
    using Cons.prems m'(1) by (simp add: load_saved_channel r g)
  moreover have "extends m (c # cs) m'"
  proof -
    have k: "[?n..<?n + length (c # cs)] = ?n # [Suc ?n..<Suc ?n + length cs]" by (simp add: upt_rec del: upt_Suc)
    have e: "(\<exists>j < Suc (length cs). P j) \<longleftrightarrow> P 0 \<or> (\<exists>j < length cs. P (Suc j))" for P by (simp only: Ex_less_Suc2)
    from m'(2) show ?thesis
      unfolding extends_def k
      by (simp add: index_nodes_spec e map_of_append del: upt_Suc split: option.split) auto
  qed
  ultimately show ?case by blast
qed

lemma load_saved_manager:
  assumes "\<forall>c \<in> set (channel_pool m). rectangular c" "distinct (map ch_name (channel_pool m))"
  shows "\<exists>m'. manager_load_checkpoint d (manager_save_checkpoint m @ xs) = Some (m', xs) \<and>
    channel_pool m' = map restored (channel_pool m) \<and>
    (\<forall>k < length (channel_pool m). channel_index_set m' (ch_name (channel_pool m ! k)) = Some k) \<and>
    (\<forall>ni k. (\<exists>l. node_channels_map m' ni = Some l \<and> k \<in> set l) \<longleftrightarrow>
       k < length (channel_pool m) \<and> ni \<in> set (get_all_nodes (channel_pool m ! k)))"
proof -
  let ?cs = "channel_pool m"
  from load_saved_channels [OF assms(1), of d xs channel_manager_new] obtain m' where
    m': "load_channels d (length ?cs) (concat (map (\<lambda>c. CkString (ch_name c) # channel_save_checkpoint c) ?cs) @ xs) channel_manager_new = Some (m', xs)"
      "extends channel_manager_new ?cs m'" by blast
  have l: "manager_load_checkpoint d (manager_save_checkpoint m @ xs) = Some (m', xs)"
    using m'(1) by (simp add: manager_load_checkpoint_def manager_save_checkpoint_def)
  have e: "channel_pool m' = map restored ?cs"
    "\<And>nm. channel_index_set m' nm = map_of (rev (zip (map ch_name ?cs) [0..<length ?cs])) nm"
    "\<And>ni k. (\<exists>l. node_channels_map m' ni = Some l \<and> k \<in> set l) \<longleftrightarrow> k < length ?cs \<and> ni \<in> set (get_all_nodes (?cs ! k))"
    using m'(2) by (auto simp: extends_def channel_manager_new_def split: option.split)
  have "channel_index_set m' (ch_name (?cs ! k)) = Some k" if "k < length ?cs" for k
  proof -
    have "distinct (map fst (rev (zip (map ch_name ?cs) [0..<length ?cs])))"
      using assms(2) by (simp flip: rev_map)
    moreover have "(ch_name (?cs ! k), k) \<in> set (rev (zip (map ch_name ?cs) [0..<length ?cs]))"
      using that by (auto simp: in_set_zip intro!: exI [of _ k])
    ultimately show ?thesis by (simp only: e(2) map_of_is_SomeI)
  qed
  with l e(1,3) show ?thesis by blast
qed

end
