(* ===== verification/Example_Channel.thy ===== *)
theory Example_Channel
  imports Channel_Loop Channel_Saved
begin

unbundle bit_operations_syntax

text \<open>
  A four-phase channel with two dual-rail bundles (nodes 1 to 4) and an acknowledge (node 5) that is source and sink at
  once, sends 2 and then 1, and keeps a log.
\<close>

definition dual_channel :: channel where
  "dual_channel = (channel_new 0)\<lparr>ch_name := ''c'', ack_signal := 5,
     ch_flags := CHANNEL_SOURCING OR CHANNEL_SINKING OR CHANNEL_ACK_ACTIVE_SENSE, ch_data := [[1, 2], [3, 4]], ch_radix := 2,
     dumplog := Some (''c.log'', []), ch_values := [(2, False), (1, False)],
     node_to_rail := [1 \<mapsto> (0, 0), 2 \<mapsto> (0, 1), 3 \<mapsto> (1, 0), 4 \<mapsto> (1, 1)]\<rparr>"

definition low_view :: node_view where
  "low_view = (\<lambda>ni. if 1 \<le> ni \<and> ni \<le> 5 then Some LOGIC_LOW else None)"

lemma dual_fields [simp]:
  "ch_type dual_channel = CHANNEL_TYPE_1ofN" "ch_radix dual_channel = 2" "ch_data dual_channel = [[1, 2], [3, 4]]"
  "ack_signal dual_channel = 5" "valid_signal dual_channel = 0" "ch_values dual_channel = [(2, False), (1, False)]"
  "value_index dual_channel = 0" "dumplog dual_channel = Some (''c.log'', [])" "counter_state dual_channel = 0" "x_counter dual_channel = 0"
  "all_rails dual_channel = [1, 2, 3, 4]" "bundles dual_channel = 2" "ch_timing_mode dual_channel = CHANNEL_TIMING_GLOBAL"
  by (simp_all add: dual_channel_def channel_new_def all_rails_def bundles_def)

lemma dual_flags: "ch_flags dual_channel = 0x52"
  by (simp add: dual_channel_def)

lemma dual_modes [simp]:
  "is_sourcing dual_channel" "is_sinking dual_channel" "\<not> is_expecting dual_channel" "\<not> ignored dual_channel"
  "\<not> flag_set CHANNEL_RANDOM dual_channel" "\<not> flag_set CHANNEL_VALUE_LOOP dual_channel" "\<not> is_signed dual_channel"
  "\<not> get_data_sense dual_channel" "get_ack_active dual_channel"
  by (simp_all add: is_sourcing_def is_sinking_def is_expecting_def ignored_def is_signed_def get_data_sense_def get_ack_active_def
      flag_set_def dual_flags)

lemma dual_rails_ok: "rails_ok dual_channel" "is_one_of_n dual_channel" "counted dual_channel" "signals_ok dual_channel"
  by (simp_all add: rails_ok_def is_one_of_n_def is_bus_def data_is_bundled_def counted_def signals_ok_def is_clocked_def)

lemma dual_max: "max_value dual_channel = Some 3" "min_value dual_channel = Some 0"
  by (simp_all add: max_value_def min_value_def Let_def)

lemma dual_representable: "representable dual_channel 2" "representable dual_channel 1"
  by (simp_all add: representable_def dual_max)

lemma low_view_low [simp]: "ni \<in> {1, 2, 3, 4, 5} \<Longrightarrow> low_view ni = Some LOGIC_LOW"
  by (auto simp: low_view_def)

lemma dual_ready: "loop_ready low_view dual_channel [2, 1]"
proof -
  have "rails_at low_view dual_channel {}" by (simp add: rails_at_def level_of_def)
  moreover have "tracked low_view dual_channel"
    by (simp add: tracked_def dual_rails_ok counters_ok_def rail_count_def rail_active_def)
  ultimately show ?thesis
    by (simp add: loop_ready_def loop_ok_def dual_rails_ok ack_level_def dual_representable)
qed

lemma dual_counted: "initialize_data_counter low_view dual_channel = Some dual_channel"
  by (simp add: initialize_data_counter_def Let_def count_rail_def)

text \<open>A rail rises, and another one becomes unknown: the sink sets the acknowledge to X.\<close>

lemma dual_run:
  "\<exists>r. run_nodes env [(2, LOGIC_HIGH), (3, LOGIC_OTHER)] (low_view, chan_start dual_channel k) =
     Some (low_view(2 \<mapsto> LOGIC_HIGH, 3 \<mapsto> LOGIC_OTHER), r)"
  by (simp add: ch_process_node_def process_1ofN_def process_1ofN_data_def update_bd_data_counter_def uncount_rail_def
      count_rail_def Let_def get_data_sense_def flag_set_def dual_flags all_rails_def bundles_def ch_stopped_def is_sinking_def)

text \<open>A manager with this channel.\<close>

definition dual_manager :: channel_manager where
  "dual_manager = \<lparr>channel_pool = [dual_channel], channel_index_set = [''c'' \<mapsto> 0],
     node_channels_map = (\<lambda>ni. if 1 \<le> ni \<and> ni \<le> 5 then Some [0] else None)\<rparr>"

lemma dual_manager_ok: "\<forall>c \<in> set (channel_pool dual_manager). rectangular c" "distinct (map ch_name (channel_pool dual_manager))"
  by (simp_all add: dual_manager_def rectangular_def)

end
