(* ===== verification/Spec2Isabelle.thy ===== *)
theory Spec2Isabelle
  imports Init_Ok Excl_Ok Spec_Directives Example_Gate Example_Timing Example_Channel
begin

text \<open>
  This development verifies \<^verbatim>\<open>prsim\<close>, the event-driven simulator of production rule sets of the HAC tool chain
  (\<^verbatim>\<open>src/src/sim/prsim\<close> and the parts of \<^verbatim>\<open>src/src/sim\<close> and \<^verbatim>\<open>src/src/util\<close> it is built on). A circuit is a set of
  Boolean nodes and of rules such as \<^verbatim>\<open>a & ~b -> c+\<close>; each rule pulls its output node up or down while its guard is
  true. Values are 0, 1 and X.

  \<^bold>\<open>How the program works.\<close> \<^verbatim>\<open>State\<close> keeps the nodes (\<^verbatim>\<open>node_pool\<close>), a pool of events with a priority queue, and per
  process a graph of guard expressions. Guards are not evaluated anew: every expression and every node has two
  counters, of the children that decide it and of the children that are X, and a change of one child adjusts the
  counters on the path to the root (\<^verbatim>\<open>State::evaluate\<close>). \<^verbatim>\<open>State::step\<close> takes the first event, writes the value to
  its node (\<^verbatim>\<open>execute_immediately\<close>), evaluates the fanout, and turns each node whose pulls changed into a new, changed
  or cancelled event (\<^verbatim>\<open>flush_updated_nodes\<close>). \<^verbatim>\<open>cycle\<close> repeats this, \<^verbatim>\<open>initialize\<close> starts it, and commands set nodes
  and move events in between.

  \<^bold>\<open>The model\<close>, one theory per part, each definition under the name of the function it translates:

  \<^item> \<^verbatim>\<open>Hackt_Prelude\<close>: fallible code returns an option, and \<^term>\<open>None\<close> is a failed internal check
    (\<^verbatim>\<open>INVARIANT\<close>, \<^verbatim>\<open>ISE_INVARIANT\<close>, \<^verbatim>\<open>THROW_EXIT\<close>); list access that reports a bad index; shared lemmas.
  \<^item> \<^verbatim>\<open>Logic_Values\<close> (enums.hh, tables of Node.cc), \<^verbatim>\<open>Prs_Expr\<close> (Expr.hh, Expr.cc), \<^verbatim>\<open>Prs_Event\<close> (Rule.hh, Cause.hh,
    Event-prsim.hh), \<^verbatim>\<open>Prs_Node\<close> (Node.hh, Node.cc, with \<^verbatim>\<open>pull_set\<close> and interference): data, with counters and flag
    words at their width.
  \<^item> \<^verbatim>\<open>Event_Queue\<close> (sim/event.hh, time.hh) and \<^verbatim>\<open>Event_Pool\<close> (util/memory/array\_pool.hh): the queue with its order
    among simultaneous events, and the index allocator with its emptiness check.
  \<^item> \<^verbatim>\<open>Prs_State\<close> (State-prsim.hh, process\_graph.hh, process\_state.hh): the record \<^typ>\<open>prsim_state\<close>, its flags and
    policies, and the record \<^typ>\<open>sim_env\<close> of what the simulator takes from outside: random numbers, the frame of
    global node numbers, the order in which a fanout list is visited, and the answers of channels, timing checks
    and tracing.
  \<^item> \<^verbatim>\<open>Prs_Sched\<close>, \<^verbatim>\<open>Prs_Eval\<close>, \<^verbatim>\<open>Prs_Excl\<close>, \<^verbatim>\<open>Prs_Flush\<close>, \<^verbatim>\<open>Prs_Step\<close> (State-prsim.cc, in this order): events,
    delays, minimum delays and user commands; evaluation; exclusive rings; consequences of an evaluation; step,
    cycle, initialization, invariants and keeper checks.
  \<^item> \<^verbatim>\<open>Process_Graph\<close> (process\_graph.hh, .cc) and \<^verbatim>\<open>Expr_Alloc\<close> (ExprAlloc.hh, .cc, ExprAllocFlags.hh,
    process\_state.cc): the graph of a process type, its self-check, and the visitor that builds it from a footprint:
    expressions, rules with attributes, pass gates, invariants, atomic assignments, literal folding, negation pulling,
    compaction, and the connection of process instances to global nodes.
  \<^item> \<^verbatim>\<open>Spec_Directives\<close> (ExprAlloc.cc, SPEC\_common.cc): the directives for exclusive rings and unaliased nodes.
  \<^item> \<^verbatim>\<open>Timing_Check\<close> (TimingChecker.hh, .cc, directives of ExprAlloc.cc): setup and hold checks, in both implementations
    of the sources.
  \<^item> \<^verbatim>\<open>Prs_Channel\<close> and \<^verbatim>\<open>Channel_Manager\<close> (Channel-prsim.hh, Channel-prsim.cc): the environment of a circuit. A channel is
    a group of nodes with a protocol (four-phase and two-phase handshakes, dual-rail to 1ofN, bundled data, LEDR, clocked)
    that the simulator drives as a source or sink and observes: the record \<^typ>\<open>channel\<close> with its flag word and counters, the
    encoding of values on rails and back, expected values and logs, reactions to a node (\<^const>\<open>ch_process_node\<close>), resume,
    reset, configuration, timing, and the assertions of the user. The manager registers channels and their nodes, tells
    the channels of a node that it changed (\<^const>\<open>process_channels\<close>, with the events that they ask for put in the queue), and
    saves and loads checkpoints.

  \<^bold>\<open>What is proved\<close>, in the theories named \<^verbatim>\<open>_Ok\<close> and \<^verbatim>\<open>Sched_*\<close>, with the results stated below:

  \<^item> \<^verbatim>\<open>Sched_Inv\<close>, \<^verbatim>\<open>Sched_Ops\<close>, \<^verbatim>\<open>Sched_Dequeue\<close>, \<^verbatim>\<open>Sched_User\<close>: the links between queue, pool and nodes
    (\<^const>\<open>sched_inv\<close>) and what each scheduling operation does. They rest on two interfaces, the locales
    \<^verbatim>\<open>event_scheduler\<close> and \<^verbatim>\<open>index_allocator\<close>, interpreted for the queue and the pool.
  \<^item> \<^verbatim>\<open>Eval_Ok\<close>: counters agree with children (\<^const>\<open>eval_inv\<close>; locale \<^verbatim>\<open>pull_counter\<close>, interpreted for expressions and
    for nodes), and evaluation is equivalent to recomputing the guard trees.
  \<^item> \<^verbatim>\<open>Flush_Ok\<close>: \<^verbatim>\<open>flush_updated_nodes\<close> refines a decision function on pulls, value and pending event.
  \<^item> \<^verbatim>\<open>Prop_Ok\<close>, \<^verbatim>\<open>Step_Ok\<close>, \<^verbatim>\<open>Run_Ok\<close>, \<^verbatim>\<open>Init_Ok\<close>: propagation along the fanout, the invariant \<^const>\<open>run_inv\<close> of a step,
    runs (locale \<^verbatim>\<open>step_machine\<close>, interpreted for \<^const>\<open>step\<close>), initialization and the reachable states.
  \<^item> \<^verbatim>\<open>Excl_Ok\<close>: checked exclusion.
  \<^item> \<^verbatim>\<open>Alloc_Tree\<close>, \<^verbatim>\<open>Alloc_Ok\<close>: expressions in the pools as trees (\<^const>\<open>forest\<close>), and that each operation of the
    allocator builds the tree it should or replaces one by a tree of the same value. \<^verbatim>\<open>Alloc_Rules\<close>: the roots of
    rules, macros, invariants and assignments (locale \<^verbatim>\<open>root_builder\<close>, interpreted for each kind). \<^verbatim>\<open>Alloc_Graph\<close>:
    such graphs pass \<^const>\<open>check_structure\<close>, satisfy what evaluation relies on (\<^const>\<open>graph_ok\<close>), and evaluate to the
    guards of the footprint. \<^verbatim>\<open>Alloc_Compact\<close>: compaction renames expressions and keeps all this.
  \<^item> \<^verbatim>\<open>Timing_Ok\<close>: posted checks as a set (over the locale \<^verbatim>\<open>index_allocator\<close> again, with another free list), and the
    equivalence of the two implementations of timing checks along a run.
  \<^item> \<^verbatim>\<open>Channel_Rails\<close>: what the rails of a channel carry (digits of a 1ofN value, bits of a bus), that reading gives back
    what was sent, sign extension included. \<^verbatim>\<open>Channel_Count\<close>: the handlers keep the structure of a channel, and its
    counters are exact. \<^verbatim>\<open>Channel_Loop\<close>: a source and sink on one channel as a transition system whose phases have a
    measure, so that the handshake delivers every value. \<^verbatim>\<open>Channel_Saved\<close>: checkpoints.
  \<^item> \<^verbatim>\<open>Example_Inverter\<close>, \<^verbatim>\<open>Example_Gate\<close>, \<^verbatim>\<open>Example_Timing\<close>, \<^verbatim>\<open>Example_Channel\<close>: concrete circuits, types and channels, run inside the logic, on which
    the theorems are instantiated.

  \<^bold>\<open>Bounds and fuel.\<close> \<^const>\<open>dequeue_event\<close> reschedules each queued event at most once, so the queue length plus one is
  enough fuel (proved). \<^const>\<open>execute_event\<close> recurses only for atomic nodes and vacuous events; in the configurations of
  the step theorems fuel 1 is enough, and they hold for every larger fuel. \<^const>\<open>cycle\<close> may run forever; its first
  argument bounds the number of steps, and the theorem about it says what remains if the bound is reached. The
  visitors of footprint expressions follow pool indices; their first argument bounds the depth, and the theorems
  ask for one that reaches the leaves (\<^const>\<open>fe_tree\<close> is defined for it).

  \<^bold>\<open>Restrictions of the step theorems\<close> (\<^const>\<open>config_ok\<close>): weak rules off and keepers unchecked (the defaults), no
  atomic nodes, no forced exclusive rings, no channels. These features are in the model, and their parts have
  theorems of their own, but the invariant of a step is not proved for them. Simulated time is rational instead of
  floating point. The theorems about built graphs assume that supplies are not dynamic and, where expressions are
  relocated, that the type has no invariants, for which relocation is wrong (it forgets \<^verbatim>\<open>invariant_map\<close>).

  The channel theorems take the random numbers, the number lexer (\<^verbatim>\<open>string_to_num\<close>) and the table of node names as
  parameters. Integer shifts by 32 or more, which C++ leaves undefined, are \<^term>\<open>None\<close>, and so are powers that double
  precision does not hold exactly. An event with global timing has an uninitialized delay, an arbitrary number here.

  \<^bold>\<open>Not modelled:\<close> name lookup and the object model of the compiler (parameters), text output, checkpoints of the
  simulator state other than channels, VCD and trace files, the command interpreter, and precharge invariants inferred
  from netlists. The answers of channels and timing checks are a parameter of a step (\<^typ>\<open>sim_env\<close>);
  \<^const>\<open>process_channels\<close> and \<^verbatim>\<open>Timing_Ok\<close> say what the parameters have to be.
\<close>

section \<open>The simulation loop\<close>

text \<open>
  C1. In a consistent state, \<^verbatim>\<open>State::step\<close> returns without an internal error and the state is consistent again.
  With no live event it returns no node and changes no value. Otherwise time does not go back, and one pending
  event is executed: its node takes the value of the event and no other node changes, unless an exclusion check
  rejects the event, which is recorded as an exception and changes no value.
\<close>

theorem step_correct:
  assumes "run_inv {} env s" and "random_ok env" and "shuffle_ok env"
  shows "\<exists>ret s'. step (Suc k) env s = Some (ret, s') \<and> run_inv {} env s' \<and>
    (if no_live_event s
     then ret = (INVALID_NODE_INDEX, INVALID_NODE_INDEX) \<and> no_live_event s' \<and>
       map node_value (node_pool s') = map node_value (node_pool s)
     else current_time s \<le> current_time s' \<and>
       (\<exists>e. ev_node e < length (node_pool s) \<and> pend s (ev_node e) = Some e \<and>
          (ret = (ev_node e, cause_node (ev_cause e)) \<and>
             map node_value (node_pool s') = (map node_value (node_pool s))[ev_node e := ev_val e] \<or>
           ret = (INVALID_NODE_INDEX, INVALID_NODE_INDEX) \<and> recent_exceptions s' \<noteq> [] \<and> checking_excl s \<and>
             map node_value (node_pool s') = map node_value (node_pool s))))"
  using step_spec [OF assms, of k] unfolding executed_def .

theorem step_correct_witness:
  "run_inv {} inv_env (inv_at 1) \<and>
   (\<exists>ret s'. step 1 inv_env (inv_at 1) = Some (ret, s') \<and> run_inv {} inv_env s')"
  using step_correct [OF inv_at_run_inv [of 1] random_ok_inv shuffle_ok_inv, where k = 0] inv_at_run_inv [of 1]
  by (metis One_nat_def)

text \<open>
  C2. What a circuit computes. In every state reached from a freshly built one by clearing, setting undriven
  inputs, moving events in time and stepping, once no live event is left, a node that is not frozen and not X
  has the value that its production rules ask for: if the disjunction of its pull-up guards, evaluated in
  three-valued logic from the current node values, is true or unknown, the node is high and no pull-down guard
  is, and dually.
\<close>

theorem quiescent_nodes_obey_rules:
  assumes "reachable env k s0 s" and "start_ok env s0" and "no_live_event s"
    and "ni < length (node_pool s)" and "\<not> is_frozen (node_pool s ! ni)" and "node_value (node_pool s ! ni) \<noteq> LOGIC_OTHER"
  shows "rules_allow (rules_pull env s ni True) (rules_pull env s ni False) (node_value (node_pool s ! ni))"
  by (rule quiescent_rules [OF reachable_run_inv [OF assms(1,2)] assms(3-6)])

theorem quiescent_nodes_obey_rules_witness:
  "reachable inv_env 0 inv_x (inv_at 2) \<and> node_value (node_pool (inv_at 2) ! 4) = LOGIC_HIGH \<and>
   rules_allow (rules_pull inv_env (inv_at 2) 4 True) (rules_pull inv_env (inv_at 2) 4 False) LOGIC_HIGH"
  using quiescent_nodes_obey_rules [OF inv_at_reachable start_ok_inv inv_at_2_quiet inv_at_2_output(1,2)]
    inv_at_reachable [of 2] inv_at_2_output by simp

text \<open>
  C3. The invariant of a run. In every reachable state the event bookkeeping is consistent (each queue entry is an
  allocated event, each live event and its node point at each other, the queue is sorted and not in the past), all
  counters of expressions and nodes agree with the node values, no update is left over, and every pending event
  changes the value of its node.
\<close>

theorem reachable_states_consistent:
  assumes "reachable env k s0 s" and "start_ok env s0"
  shows "sched_inv {} s \<and> eval_inv env (leaf_vals env s) s \<and> updated_nodes s = [] \<and> updated_nodes_queue s = [] \<and>
    (\<forall>ni e. ni < length (node_pool s) \<longrightarrow> pend s ni = Some e \<longrightarrow> ev_val e \<noteq> node_value (node_pool s ! ni))"
  using reachable_run_inv [OF assms] by (auto simp: run_inv_def coherent_def node_ok_def pending_ok_def)

theorem reachable_states_consistent_witness:
  "reachable inv_env 0 inv_x (inv_at 1) \<and> start_ok inv_env inv_x \<and> sched_inv {} (inv_at 1)"
  using reachable_states_consistent [OF inv_at_reachable start_ok_inv, of 1] inv_at_reachable [of 1] start_ok_inv by simp



text \<open>
  C5. \<^verbatim>\<open>State::__initialize_state\<close> up to the supplies: on any well-formed configuration it succeeds (in particular
  the emptiness check of the event pool does), every node becomes X and unfrozen, the queue is empty, and the
  invariant of the simulation holds.
\<close>

theorem clear_state_correct:
  assumes "config_ok env s" and "eval_struct env s" and "sizes_ok env s" and "sched_inv {} s"
    and "updated_nodes s = []" and "updated_nodes_queue s = []" and "mk_excl_blocking_set s = []"
  shows "\<exists>s'. clear_state startup reset_count s = Some s' \<and> run_inv {} env s' \<and> event_queue s' = [] \<and>
    (\<forall>n \<in> set (node_pool s'). node_value n = LOGIC_OTHER \<and> \<not> is_frozen n)"
  by (rule clear_state_run_inv [OF assms])

theorem clear_state_correct_witness:
  "config_ok inv_env inv_x \<and> (\<exists>s'. clear_state False True inv_x = Some s' \<and> run_inv {} inv_env s' \<and> event_queue s' = [])"
  using clear_state_correct [OF config_ok_inv eval_struct_inv sizes_ok_inv sched_inv_x plain_inv(4-6), of False True]
    config_ok_inv by blast



section \<open>Scheduling\<close>

text \<open>
  C7. \<^verbatim>\<open>State::dequeue_event\<close> always returns. It drops the killed events in front, postpones events that a
  minimum-delay annotation forbids, and returns either the invalid index, when no live event is left, or a live
  event that is earliest and not too early, with all bookkeeping intact.
\<close>

theorem dequeue_event_correct:
  assumes "sched_inv X s" and "annotation_ok env s"
  shows "\<exists>p s'. dequeue_event env s = Some (p, s') \<and>
    (if \<forall>x \<in> set (event_queue s). killed_index s (ep_index x)
     then ep_index p = INVALID_EVENT_INDEX \<and> event_queue s' = [] \<and> sched_inv X s'
     else sched_inv (insert (ep_index p) X) s' \<and> current_time s \<le> ep_time p \<and>
       (\<forall>x \<in> set (event_queue s'). ep_time p \<le> ep_time x) \<and>
       (\<exists>e. get_event s' (ep_index p) = Some e \<and> \<not> killed e \<and>
          (ev_val e \<noteq> LOGIC_OTHER \<longrightarrow> \<not> late env s' (ev_node e) (ev_val e) (ep_time p))))"
  using dequeue_event_total [OF assms] unfolding dequeued_def by (fastforce split: if_splits)

theorem dequeue_event_correct_witness:
  "sched_inv {} inv_a0 \<and> annotation_ok inv_env inv_a0 \<and>
   (\<exists>p s'. dequeue_event inv_env inv_a0 = Some (p, s') \<and> sched_inv (insert (ep_index p) {}) s' \<and> 0 \<le> ep_time p)"
proof -
  have "\<not> killed_index inv_a0 1" "event_queue inv_a0 = [\<lparr>ep_time = 5, ep_index = 1\<rparr>]" "current_time inv_a0 = 0"
    by code_simp+
  with dequeue_event_correct [OF sched_inv_a0 annotation_ok_a0] sched_inv_a0 annotation_ok_a0 show ?thesis by auto
qed

section \<open>Evaluation\<close>

text \<open>
  C8. \<^verbatim>\<open>State::evaluate\<close>: given counters that agree with the leaf values, changing one leaf of an expression from
  \<^verbatim>\<open>prev\<close> to \<^verbatim>\<open>next\<close> updates the counters along the path to the root such that they all agree with the new leaf
  values. A rule is returned exactly when a pull of its output node changed, together with the pulls before the
  change, and nothing but counters is modified.
\<close>

theorem evaluate_correct:
  assumes "eval_inv env vals s" and "lookup_global_expr_process s gui = Some (pid, ps)"
    and "local_expr_index ps gui < length (expr_pool (process_graph_of s pid))"
    and "k < length (children (expr_graph_node_pool (process_graph_of s pid) ! local_expr_index ps gui))"
    and "fst (children (expr_graph_node_pool (process_graph_of s pid) ! local_expr_index ps gui) ! k)"
    and "vals pid (local_expr_index ps gui) k = prev"
  shows "\<exists>ret s'. evaluate env gui prev nxt s = Some (ret, s') \<and>
    eval_inv env (set_leaf_of pid (local_expr_index ps gui) k nxt vals) s' \<and>
    (\<forall>oni < length (node_pool s). \<forall>dir w.
       (case ret of
          Some r \<Rightarrow> er_node_index r = oni \<and> direction (er_root_rule r) = dir \<and> rule_is_weak (er_root_rule r) = w
        | None \<Rightarrow> False)
       \<longleftrightarrow> fanin_pull (get_pull_struct dir w (node_pool s' ! oni)) \<noteq> fanin_pull (get_pull_struct dir w (node_pool s ! oni))) \<and>
    (\<forall>r. ret = Some r \<longrightarrow> er_prev_pull r = pull_set_of (node_pool s ! er_node_index r) (weak_rules_enabled s)) \<and>
    eval_frame s s'"
  using evaluate_spec [OF assms, of nxt] unfolding reported_def fired_by_def by blast

theorem evaluate_correct_witness:
  "\<exists>ret s'. evaluate inv_env 1 PULL_WEAK PULL_OFF inv_x = Some (ret, s') \<and>
     eval_inv inv_env (set_leaf_of 0 0 0 PULL_OFF (leaf_vals inv_env inv_x)) s'"
proof -
  have "lookup_global_expr_process inv_x 1 = Some (0, process_state_array inv_x ! 0)"
    and 1: "local_expr_index (process_state_array inv_x ! 0) 1 = 0" by code_simp+
  from evaluate_correct [OF coherent_inv this(1), where k = 0 and prev = PULL_WEAK and nxt = PULL_OFF, unfolded 1]
  show ?thesis using inv_leaf by auto
qed

text \<open>
  C9. Counting is evaluation. In a state whose counters are coherent, the pull that a node's 16-bit counters report
  for one direction is the disjunction of the guards of all strong rules that drive the node in that direction,
  where each guard is computed by recursion over its expression tree from the values of the nodes.
\<close>

theorem counters_equal_guards:
  assumes "eval_inv env (leaf_vals env s) s" and "ni < length (node_pool s)"
  shows "fanin_pull (get_pull_struct dir False (node_pool s ! ni)) =
    kleene_or (map (\<lambda>x. the (tree_value (length (expr_pool (process_graph_of s (fst x)))) (process_graph_of s (fst x))
        (leaf_vals env s (fst x)) (snd x))) (drivers env s ni dir False))"
  using rules_pull_fanin [of env s ni dir] assms by (simp add: coherent_def rules_pull_def guard_value_def [abs_def])

theorem counters_equal_guards_witness:
  "fanin_pull (get_pull_struct True False (node_pool (inv_at 1) ! 4)) = PULL_ON \<and>
   kleene_or (map (\<lambda>x. the (tree_value (length (expr_pool (process_graph_of (inv_at 1) (fst x)))) (process_graph_of (inv_at 1) (fst x))
        (leaf_vals inv_env (inv_at 1) (fst x)) (snd x))) (drivers inv_env (inv_at 1) 4 True False)) = PULL_ON"
  using counters_equal_guards [of inv_env "inv_at 1" 4 True] inv_at_run_inv [of 1] inv_at_1_output
  by (simp add: run_inv_def coherent_def)

text \<open>
  C10. The counters of one expression, kept in 16 bits with wrap-around: starting from counters that agree with the
  children, any sequence of changes of single children leaves counters whose \<^verbatim>\<open>pull_state\<close> is the three-valued
  conjunction or disjunction, possibly negated, of the children.
\<close>

theorem expr_counters_track_children:
  assumes "counts_ok e u ps" and "\<forall>(i, v) \<in> set chs. i < length ps"
  shows "pull_state (fst (fold (\<lambda>(i, v) (u, ps). (expr_count_update e (ps ! i) v u, ps[i := v])) chs (u, ps))) e =
    kleene_expr e (fold (\<lambda>(i, v) ps. ps[i := v]) chs ps)"
  by (rule exc.changes_value [OF assms])

theorem expr_counters_track_children_witness:
  "pull_state (fst (fold (\<lambda>(i, v) (u, ps). (expr_count_update \<lparr>expr_parent = 0, expr_type = 1, expr_size = 2\<rparr> (ps ! i) v u, ps[i := v]))
     [(0, PULL_ON), (1, PULL_OFF)] (\<lparr>countdown = 0, unknowns = 2\<rparr>, [PULL_WEAK, PULL_WEAK]))) \<lparr>expr_parent = 0, expr_type = 1, expr_size = 2\<rparr> = PULL_OFF"
  by (subst expr_counters_track_children) code_simp+

text \<open>
  C11. The same for the fanin counters of a node, which are disjunctive: after any sequence of changes of single
  rules, \<^verbatim>\<open>fanin_state_type::pull\<close> is the three-valued disjunction of the rules.
\<close>

theorem fanin_counters_track_rules:
  assumes "fanin_ok fs ps" and "\<forall>(i, v) \<in> set chs. i < length ps"
  shows "fanin_pull (fst (fold (\<lambda>(i, v) (fs, ps). (fanin_count_update (ps ! i) v fs, ps[i := v])) chs (fs, ps))) =
    kleene_or (fold (\<lambda>(i, v) ps. ps[i := v]) chs ps)"
  by (rule fnc.changes_value [OF assms])

theorem fanin_counters_track_rules_witness:
  "fanin_pull (fst (fold (\<lambda>(i, v) (fs, ps). (fanin_count_update (ps ! i) v fs, ps[i := v]))
     [(0, PULL_OFF), (1, PULL_ON)] (\<lparr>fs_size = 2, fs_countdown = 0, fs_unknowns = 2\<rparr>, [PULL_WEAK, PULL_WEAK]))) = PULL_ON"
  by (subst fanin_counters_track_rules) code_simp+

text \<open>
  C12. \<^verbatim>\<open>ExprState::toggle_demorgan\<close>, used when a negation is pushed down a tree: an expression whose type was
  toggled, over negated children, has the same value as before.
\<close>

theorem toggle_demorgan_keeps_value:
  "kleene_expr (toggle_demorgan e) (map negate_pull ps) = kleene_expr e ps"
  by (simp add: kleene_expr_def kleene_demorgan kleene_demorgan' Let_def)

section \<open>Scheduling the consequences of an event\<close>

text \<open>
  C13. \<^verbatim>\<open>State::flush_updated_nodes\<close> implements its abstract description. Every node that was entered for update has,
  afterwards, exactly the pending value that \<open>flush_value\<close> computes from its pulls, its value and the event that
  was pending before (nothing, the new target, X after interference or instability, or the old event); every
  other node keeps its event, only events and causes change, and the update list is empty.
\<close>

theorem flush_updated_nodes_refines:
  assumes "sched_inv X s" and "random_ok env" and "update_queue_ok s" and "mk_excl_blocking_set s = []"
    and "\<forall>ni \<in> set (updated_nodes_queue s). flush_ready s c ni"
  shows "\<exists>err s'. flush_updated_nodes env c et s = Some (err, s') \<and> updated_nodes s' = [] \<and> updated_nodes_queue s' = [] \<and>
    sched_inv X s' \<and> map node_core (node_pool s') = map node_core (node_pool s) \<and>
    (\<forall>nj < length (node_pool s).
       if nj \<in> set (updated_nodes_queue s) then map_option ev_val (pend s' nj) = flush_value s c nj
       else pend s' nj = pend s nj)"
  by (rule flush_updated_nodes_abstract [OF assms])

theorem flush_updated_nodes_refines_witness:
  "sched_inv {} inv_flush \<and> update_queue_ok inv_flush \<and> flush_value inv_flush inv_cause 4 = Some LOGIC_HIGH \<and>
   (\<exists>err s'. flush_updated_nodes inv_env inv_cause 5 inv_flush = Some (err, s') \<and> map_option ev_val (pend s' 4) = Some LOGIC_HIGH)"
proof -
  from flush_updated_nodes_refines [OF inv_flush_ok(1) random_ok_inv inv_flush_ok(2-4), of 5] obtain err s' where
    1: "flush_updated_nodes inv_env inv_cause 5 inv_flush = Some (err, s')" and
    2: "\<And>nj. nj < 5 \<Longrightarrow> nj \<in> set (updated_nodes_queue inv_flush) \<Longrightarrow> map_option ev_val (pend s' nj) = flush_value inv_flush inv_cause nj"
    using inv_flush_ok(6) by metis
  from 2 [of 4] inv_flush_ok have "map_option ev_val (pend s' 4) = Some LOGIC_HIGH" by simp
  with 1 inv_flush_ok show ?thesis by blast
qed

text \<open>
  C14. The check \<^verbatim>\<open>ISE_INVARIANT(p.state_holding())\<close> of \<^verbatim>\<open>flush_updated_nodes\<close> fails, without interference, for exactly
  four combinations of pulls, all with weak rules: one direction is off or unknown strongly, and the weak pulls
  contradict each other.
\<close>

theorem fired_value_aborts_iff:
  "\<not> possible_interference_any p \<and> fired_value p v = None \<longleftrightarrow>
   (ps_up p, ps_dn p, ps_wup p, ps_wdn p) \<in>
     {(PULL_OFF, PULL_WEAK, PULL_ON, PULL_ON), (PULL_OFF, PULL_WEAK, PULL_WEAK, PULL_ON),
      (PULL_WEAK, PULL_OFF, PULL_ON, PULL_ON), (PULL_WEAK, PULL_OFF, PULL_ON, PULL_WEAK)}"
  by (cases "ps_up p"; cases "ps_dn p"; cases "ps_wup p"; cases "ps_wdn p") (simp_all add: fired_value_def pull_set_defs)



text \<open>
  C16. Interference and winning exclude each other: a side that wins, strongly or weakly, has no interference, the
  two sides never win together, and interference is reported as definite exactly when two pulls of the same
  strength are definitely on.
\<close>

theorem winner_and_interference:
  "(pull_up_wins_any p \<or> pull_dn_wins_any p \<longrightarrow> \<not> have_interference (interference_info_of p)) \<and>
   \<not> (pull_up_wins_any p \<and> pull_dn_wins_any p) \<and>
   (have_interference (interference_info_of p) \<and> \<not> possible_interference (interference_info_of p)
     \<longleftrightarrow> definite_interference_strong p \<or> definite_interference_weak p)"
  using winner_no_interference winner_exclusive interference_definite_iff by blast

theorem winner_and_interference_witness:
  "pull_up_wins_any \<lparr>ps_up = PULL_ON, ps_dn = PULL_OFF, ps_wup = PULL_OFF, ps_wdn = PULL_ON\<rparr> \<and>
   \<not> have_interference (interference_info_of \<lparr>ps_up = PULL_ON, ps_dn = PULL_OFF, ps_wup = PULL_OFF, ps_wdn = PULL_ON\<rparr>)"
  using winner_and_interference [of "\<lparr>ps_up = PULL_ON, ps_dn = PULL_OFF, ps_wup = PULL_OFF, ps_wdn = PULL_ON\<rparr>"]
  by (simp add: pull_set_defs)

section \<open>Queue and pool\<close>

text \<open>
  C17. \<^verbatim>\<open>EventQueue\<close>: pushing events one after another and popping them all gives the events sorted by time, and
  events with equal times come out in the order in which they were pushed.
\<close>

theorem event_queue_is_stable_sort:
  assumes "length es \<le> n"
  shows "drain eq_pop n (push_all eq_push es eq_new) = sort_key ep_time es"
  using assms by (simp add: push_all_stable_sort drain_eq_pop)

theorem event_queue_is_stable_sort_witness:
  "drain eq_pop 3 (push_all eq_push [\<lparr>ep_time = 7, ep_index = 1\<rparr>, \<lparr>ep_time = 5, ep_index = 2\<rparr>, \<lparr>ep_time = 5, ep_index = 3\<rparr>] eq_new) =
   [\<lparr>ep_time = 5 :: rat, ep_index = 2\<rparr>, \<lparr>ep_time = 5, ep_index = 3\<rparr>, \<lparr>ep_time = 7, ep_index = 1\<rparr>]"
  by (subst event_queue_is_stable_sort) code_simp+

text \<open>
  C18. \<^verbatim>\<open>index_pool\<close>: allocating in a well-formed pool always succeeds with a fresh, nonzero index that holds the
  new value and leaves all other entries alone; giving the index back restores the set of live entries and their
  contents.
\<close>

theorem pool_allocate_deallocate:
  assumes "pool_ok p"
  shows "\<exists>i p' p''. pool_allocate p v = Some (i, p') \<and> i \<noteq> 0 \<and> i \<notin> pool_live p \<and> pool_get p' i = Some v \<and>
    (\<forall>j \<in> pool_live p. pool_get p' j = pool_get p j) \<and>
    pool_deallocate p' i = Some p'' \<and> pool_ok p'' \<and> pool_live p'' = pool_live p \<and>
    (\<forall>j \<in> pool_live p. pool_get p'' j = pool_get p j)"
proof -
  from evp.allocate_total [OF assms] obtain i p' where a: "pool_allocate p v = Some (i, p')" by blast
  from evp.allocate_deallocate [OF assms a] evp.allocate_nonzero [OF assms a] pool_allocate_fresh [OF assms a] a
  show ?thesis by blast
qed

theorem pool_allocate_deallocate_witness:
  "pool_ok (array_pool_new Event_default) \<and>
   (\<exists>i p'. pool_allocate (array_pool_new Event_default) Event_default = Some (i, p') \<and> i \<noteq> 0)"
proof -
  have "pool_ok (array_pool_new Event_default)" by code_simp
  with pool_allocate_deallocate [OF this, of Event_default] show ?thesis by blast
qed

text \<open>
  C19. \<^verbatim>\<open>check_valid_empty\<close>, which compares the count and the 64-bit sum of the free indices with their expected
  values, is exact on well-formed pools in spite of the wrap-around: it succeeds exactly when no entry is live.
\<close>

theorem check_valid_empty_exact:
  assumes "pool_ok p"
  shows "check_valid_empty p \<longleftrightarrow> pool_live p = {}"
  by (rule check_valid_empty_iff [OF assms])

theorem check_valid_empty_exact_witness:
  "check_valid_empty \<lparr>index_pool = [0, 1, 2 :: nat], free_indices = [1, 2]\<rparr> \<and>
   pool_live \<lparr>index_pool = [0, 1, 2 :: nat], free_indices = [1, 2]\<rparr> = {}"
proof -
  have "pool_ok \<lparr>index_pool = [0, 1, 2 :: nat], free_indices = [1, 2]\<rparr>"
    "check_valid_empty \<lparr>index_pool = [0, 1, 2 :: nat], free_indices = [1, 2]\<rparr>" by code_simp+
  with check_valid_empty_exact show ?thesis by blast
qed

section \<open>Commands on events\<close>

text \<open>
  C20. \<^verbatim>\<open>State::set_node_time\<close>: the answer is determined by the node as the code documents it (rejected for atomic
  nodes; a warning for a pending event or a frozen node without \<^verbatim>\<open>-force\<close>; accepted otherwise). When it enqueues,
  the new event is put behind all earlier or simultaneous ones; otherwise the state is unchanged. Nothing but the
  event bookkeeping changes, and that stays consistent.
\<close>

theorem set_node_time_correct:
  assumes "sched_inv X s" and "ni < length (node_pool s)" and "current_time s \<le> t"
  shows "\<exists>s'. set_node_time ni val t frc s = Some (set_node_status (node_pool s ! ni) val frc, s') \<and>
     sched_inv X s' \<and> ev_frame s s' \<and>
     (if set_node_enqueues (node_pool s ! ni) val frc
      then \<exists>i e. event_queue s' = eq_push \<lparr>ep_time = t, ep_index = i\<rparr> (event_queue s) \<and>
             get_event s' i = Some e \<and> ev_node e = ni \<and> ev_val e = val
      else s' = s)"
  by (rule set_node_time_spec [OF assms])

theorem set_node_time_correct_witness:
  "\<exists>s'. set_node_time 3 LOGIC_LOW 5 False inv_x = Some (ENQUEUE_ACCEPT, s') \<and> sched_inv {} s' \<and>
     (\<exists>i. event_queue s' = [\<lparr>ep_time = 5, ep_index = i\<rparr>])"
proof -
  have 1: "3 < length (node_pool inv_x)" "current_time inv_x \<le> 5" "event_queue inv_x = []"
    "set_node_status (node_pool inv_x ! 3) LOGIC_LOW False = ENQUEUE_ACCEPT"
    "set_node_enqueues (node_pool inv_x ! 3) LOGIC_LOW False" by code_simp+
  from set_node_time_correct [OF sched_inv_x 1(1,2), of LOGIC_LOW False] 1 show ?thesis by auto
qed

text \<open>
  C21. \<^verbatim>\<open>State::reschedule_event\<close>: it fails, without any change, when the node has no event or the time is in the
  past; otherwise the node's event, unchanged, is scheduled at the new time, under a new index.
\<close>

theorem reschedule_event_correct:
  assumes "sched_inv X s" and "ni < length (node_pool s)"
  shows "\<exists>s'. reschedule_event ni t s = Some (t < current_time s \<or> \<not> pending_event (node_pool s ! ni), s') \<and>
     sched_inv X s' \<and> ev_frame s s' \<and>
     (if t < current_time s \<or> \<not> pending_event (node_pool s ! ni) then s' = s
      else \<exists>e. get_event s (event_index (node_pool s ! ni)) = Some e \<and>
        get_event s' (event_index (node_pool s' ! ni)) = Some e \<and> \<not> killed e \<and> ev_node e = ni \<and>
        \<lparr>ep_time = t, ep_index = event_index (node_pool s' ! ni)\<rparr> \<in> set (event_queue s'))"
  using reschedule_event_spec [OF assms, of t] unfolding scheduled_def .

theorem reschedule_event_correct_witness:
  "\<exists>s'. reschedule_event 3 7 inv_a0 = Some (False, s') \<and> sched_inv {} s' \<and>
     \<lparr>ep_time = 7, ep_index = event_index (node_pool s' ! 3)\<rparr> \<in> set (event_queue s')"
proof -
  have 1: "3 < length (node_pool inv_a0)" "\<not> 7 < current_time inv_a0" "pending_event (node_pool inv_a0 ! 3)" by code_simp+
  from reschedule_event_correct [OF sched_inv_a0 1(1), of 7] 1 show ?thesis by auto
qed

text \<open>
  C22. \<^verbatim>\<open>State::reschedule_event_now\<close>: the event of the node moves to the very front of the queue, ahead of all
  other events of the current time.
\<close>

theorem reschedule_event_now_correct:
  assumes "sched_inv X s" and "ni < length (node_pool s)" and "event_index (node_pool s ! ni) \<noteq> INVALID_EVENT_INDEX"
  shows "\<exists>s' i e. reschedule_event_now ni s = Some (False, s') \<and> sched_inv X s' \<and> ev_frame s s' \<and>
     event_queue s' = \<lparr>ep_time = current_time s, ep_index = i\<rparr> # event_queue s \<and>
     get_event s (event_index (node_pool s ! ni)) = Some e \<and> get_event s' i = Some e"
  by (rule reschedule_event_now_spec [OF assms])

theorem reschedule_event_now_correct_witness:
  "\<exists>s' i. reschedule_event_now 3 inv_a0 = Some (False, s') \<and>
     event_queue s' = [\<lparr>ep_time = 0, ep_index = i\<rparr>, \<lparr>ep_time = 5, ep_index = 1\<rparr>]"
proof -
  have 1: "3 < length (node_pool inv_a0)" "event_index (node_pool inv_a0 ! 3) \<noteq> INVALID_EVENT_INDEX"
    "current_time inv_a0 = 0" "event_queue inv_a0 = [\<lparr>ep_time = 5, ep_index = 1\<rparr>]" by code_simp+
  from reschedule_event_now_correct [OF sched_inv_a0 1(1,2)] 1 show ?thesis by auto
qed

text \<open>
  C23. \<^verbatim>\<open>State::deschedule_event\<close>: afterwards the node has no pending event; the entry stays in the queue, marked as
  killed, and the consistency of the bookkeeping is kept.
\<close>

theorem deschedule_event_correct:
  assumes "sched_inv X s" and "ni < length (node_pool s)"
  shows "\<exists>s'. deschedule_event ni s = Some (\<not> pending_event (node_pool s ! ni), s') \<and> sched_inv X s' \<and>
     ev_frame s s' \<and> \<not> pending_event (node_pool s' ! ni) \<and> event_queue s' = event_queue s"
  by (rule deschedule_event_spec [OF assms])

theorem deschedule_event_correct_witness:
  "\<exists>s'. deschedule_event 3 inv_a0 = Some (False, s') \<and> sched_inv {} s' \<and> \<not> pending_event (node_pool s' ! 3)"
proof -
  have 1: "3 < length (node_pool inv_a0)" "pending_event (node_pool inv_a0 ! 3)" by code_simp+
  from deschedule_event_correct [OF sched_inv_a0 1(1)] 1 show ?thesis by auto
qed

text \<open>
  C24. \<^verbatim>\<open>State::unset_node\<close> on a node that is not atomic: it returns, unfreezes the node, keeps all values and the
  consistency of the bookkeeping; a pending event is redirected to the value that the current pulls ask for and is
  no longer a forced one, unless nothing pulls. A default delay for events without a rule must exist.
\<close>

theorem unset_node_correct:
  assumes "sched_inv X s" and "ni < length (node_pool s)" and "random_ok env"
    and "delay_ok (timing_params s) None" and "\<not> is_atomic (node_pool s ! ni)"
  shows "\<exists>s'. unset_node env ni s = Some s' \<and> sched_inv X s' \<and> length (node_pool s') = length (node_pool s) \<and>
    current_time s' = current_time s \<and>
    map (restore \<circ> clear_event) (node_pool s') = map (restore \<circ> clear_event) (node_pool s) \<and>
    \<not> is_frozen (node_pool s' ! ni) \<and>
    (pending_event (node_pool s ! ni) \<and> \<not> state_holding (pull_set_of (node_pool s ! ni) (weak_rules_enabled s)) \<longrightarrow>
       (\<exists>e. get_event s' (event_index (node_pool s ! ni)) = Some e \<and>
          ev_val e = unset_value (pull_set_of (node_pool s ! ni) (weak_rules_enabled s)) \<and> \<not> forced e))"
  using unset_node_spec [OF assms] by blast

theorem unset_node_correct_witness:
  "\<exists>s'. unset_node inv_env 4 inv_flush = Some s' \<and> sched_inv {} s'"
proof -
  have 1: "4 < length (node_pool inv_flush)" "delay_ok (timing_params inv_flush) None" "\<not> is_atomic (node_pool inv_flush ! 4)"
    by code_simp+
  from unset_node_correct [OF inv_flush_ok(1) 1(1) random_ok_inv 1(2,3)] show ?thesis by blast
qed

text \<open>
  C25. The consistency checker \<^verbatim>\<open>State::check_event_queue\<close>, which aborts on the first inconsistency it finds, passes on
  every state in which the invariant of the scheduler holds.
\<close>

theorem check_event_queue_passes:
  assumes "sched_inv X s"
  shows "check_event_queue s = Some ()"
  by (rule check_event_queue_ok [OF assms])

theorem check_event_queue_passes_witness: "check_event_queue inv_a0 = Some ()"
  by (rule check_event_queue_passes [OF sched_inv_a0])

text \<open>
  C26. \<^verbatim>\<open>next_event_time\<close> gives the time of the first entry that has not been killed, and \<^verbatim>\<open>safe_fast_forward\<close>
  advances the clock exactly when no live event would be skipped.
\<close>

theorem fast_forward_correct:
  assumes "sched_inv X s" and "current_time s \<le> t"
  shows "next_event_time max_time s = Some (case find (\<lambda>p. \<not> killed_index s (ep_index p)) (event_queue s) of
      Some p \<Rightarrow> ep_time p | None \<Rightarrow> max_time) \<and>
    safe_fast_forward max_time t s =
      (if t = current_time s \<or> event_queue s = [] \<or>
          (case find (\<lambda>p. \<not> killed_index s (ep_index p)) (event_queue s) of Some p \<Rightarrow> t \<le> ep_time p | None \<Rightarrow> t \<le> max_time)
       then Some (s\<lparr>current_time := t\<rparr>) else None)"
  unfolding safe_fast_forward_spec [OF assms] next_event_time_spec [OF assms(1)] next_live_time_def
  by (simp split: option.splits)

theorem fast_forward_correct_witness:
  "next_event_time 100 inv_a0 = Some 5 \<and> safe_fast_forward 100 6 inv_a0 = None"
proof -
  have 1: "current_time inv_a0 \<le> 6" "\<not> killed_index inv_a0 1" "event_queue inv_a0 = [\<lparr>ep_time = 5, ep_index = 1\<rparr>]" "current_time inv_a0 = 0"
    by code_simp+
  from fast_forward_correct [OF sched_inv_a0 1(1), of 100] 1 show ?thesis by simp
qed





section \<open>Exclusion\<close>

text \<open>
  C29. \<^verbatim>\<open>check_excl_rings\<close>: as long as no violation is reported, each lock says whether its ring has an active member
  and no ring has two. A report is right: it names the node and a ring that has another active member.
\<close>

theorem exclusion_check_correct:
  assumes "rings_ok s" and "excl_inv val s" and "ni < length (node_pool s)" and "val ni = prev" and "prev \<noteq> nxt"
  shows "\<exists>x s'. check_excl_rings ni (node_pool s ! ni) prev nxt s = Some (x, s') \<and>
    (case x of
       None \<Rightarrow> excl_inv (val(ni := nxt)) s'
     | Some (high, li, nk) \<Rightarrow> nk = ni \<and> nxt = (if high then LOGIC_HIGH else LOGIC_LOW) \<and>
         (\<exists>nj. nj \<noteq> ni \<and> val nj = nxt \<and>
            in_ring (if high then check_exhi s else check_exlo s) li ni \<and> in_ring (if high then check_exhi s else check_exlo s) li nj))"
  by (rule check_excl_rings_spec [OF assms])

theorem exclusion_check_correct_witness:
  "\<exists>s x s'. append_check_exclhi_ring [3, 4] inv_x = Some s \<and>
     check_excl_rings 3 (node_pool s ! 3) LOGIC_OTHER LOGIC_HIGH s = Some (x, s')"
proof -
  from inv_ring obtain s where s: "append_check_exclhi_ring [3, 4] inv_x = Some s" "rings_ok s"
    "excl_inv (\<lambda>_. LOGIC_OTHER) s" "3 < length (node_pool s)" by blast
  from exclusion_check_correct [OF s(2-4), of LOGIC_OTHER LOGIC_HIGH] s(1) show ?thesis by auto
qed

text \<open>
  C30. Taking the locks of a node that is free to become active and dropping them again, as two opposite transitions
  do, restores the lock table.
\<close>

theorem locks_roundtrip:
  assumes "lock_set_ok ls (length pool)" and "take_locks ls pool = Some (None, p)"
  shows "drop_locks ls p = Some pool"
  by (rule take_drop_locks [OF assms])

theorem locks_roundtrip_witness: "drop_locks [1, 2] [False, True, True] = Some [False, False, False]"
  by (rule locks_roundtrip) code_simp+

text \<open>
  C31. \<^verbatim>\<open>append_check_exclhi_ring\<close>: the new ring gets a lock of its own and consists of the given nodes, all other
  rings are unchanged, and exclusion still holds if none of the members is high.
\<close>

theorem append_check_ring_correct:
  assumes "rings_ok s" and "distinct ring" and "\<forall>ni \<in> set ring. ni < length (node_pool s)"
  shows "\<exists>s'. append_check_exclhi_ring ring s = Some s' \<and> rings_ok s' \<and>
    (\<forall>li ni. in_ring (check_exhi s') li ni \<longleftrightarrow>
       in_ring (check_exhi s) li ni \<or> li = length (check_exhi_ring_pool s) \<and> ni \<in> set ring) \<and>
    (excl_inv val s \<longrightarrow> (\<forall>ni \<in> set ring. val ni \<noteq> LOGIC_HIGH) \<longrightarrow> excl_inv val s')"
  by (rule append_check_exclhi_ring_spec [OF assms])

theorem append_check_ring_correct_witness:
  "\<exists>s'. append_check_exclhi_ring [3, 4] inv_x = Some s' \<and> rings_ok s' \<and> in_ring (check_exhi s') 1 4"
proof -
  have 1: "distinct [3 :: nat, 4]" "\<forall>ni \<in> set [3, 4]. ni < length (node_pool inv_x)" "length (check_exhi_ring_pool inv_x) = 1" by code_simp+
  from append_check_ring_correct [OF rings_ok_inv 1(1,2)] 1(3) show ?thesis by fastforce
qed

section \<open>The unaliased directive\<close>

text \<open>
  C32. The specification directive \<^verbatim>\<open>unaliased\<close>, documented to check that no nodes of different groups are aliased, does
  not: for groups that resolve to valid nodes it lets the instance pass exactly when every node of the later groups is
  also a node of the first one. Groups of distinct nodes end the program, and aliased groups are accepted.
\<close>

theorem unaliased_directive_inverted:
  assumes "\<forall>g' \<in> set (g # gs). resolves ic g'"
  shows "spec_directive_main False ic (UnAliased (g # gs)) s =
    (if \<forall>g' \<in> set gs. named ic g' \<subseteq> named ic g then Some s else None)"
  by (rule unaliased_directive_spec [OF assms])

theorem unaliased_directive_inverted_witness:
  "spec_directive_main False \<lparr>ic_type = 0, ic_pid = 0, ic_bmap = [3, 4]\<rparr> (UnAliased [[1], [2]]) inv_x = None \<and>
   spec_directive_main False \<lparr>ic_type = 0, ic_pid = 0, ic_bmap = [3, 3]\<rparr> (UnAliased [[1], [2]]) inv_x = Some inv_x"
proof
  let ?c = "\<lambda>m. \<lparr>ic_type = 0, ic_pid = 0, ic_bmap = m\<rparr>"
  have 1: "\<forall>g' \<in> set [[1], [2]]. resolves (?c [3, 4]) g'" "\<forall>g' \<in> set [[1], [2]]. resolves (?c [3, 3]) g'" by code_simp+
  have 2: "named (?c [3, 4]) [1] = {3}" "named (?c [3, 4]) [2] = {4}" "named (?c [3, 3]) [1] = {3}" "named (?c [3, 3]) [2] = {3}"
    by code_simp+
  from unaliased_directive_inverted [OF 1(1), of inv_x] 2 show "spec_directive_main False (?c [3, 4]) (UnAliased [[1], [2]]) inv_x = None" by simp
  from unaliased_directive_inverted [OF 1(2), of inv_x] 2 show "spec_directive_main False (?c [3, 3]) (UnAliased [[1], [2]]) inv_x = Some inv_x" by simp
qed

section \<open>Building the expression graph\<close>

text \<open>
  C33. Compiling the rules of a process type. For a footprint whose expressions are well-formed, with any
  optimization on, building the graph of the type succeeds, leaves no hole in the expression pool and creates one
  root per rule, in the order of the rules. The root of each rule is listed under the node, direction and strength
  that the rule drives, and evaluating its tree gives the three-valued value of the guard in the footprint,
  although literals were folded, negations were moved by De Morgan's law and expressions were relocated.
\<close>

theorem create_unique_process_graph_correct:
  assumes "type_roots k flags dflt t = Some l" and "any_optimize flags" and "pt_invariants t = []"
    and "expr_free_list s = []" and "\<not> at_source s" and "\<not> suppress_keeper_rule s"
  shows "\<exists>s'. create_unique_process_graph k flags dflt t s = Some s' \<and> expr_free_list s' = [] \<and>
    length (rule_pool (ea_g s')) = length l \<and> (\<forall>j < length l. \<exists>i. guard_root (ea_g s') j (l ! j) i)"
proof -
  from create_unique_process_graph_spec [OF assms] obtain s' R where
    1: "create_unique_process_graph k flags dflt t s = Some s'" "expr_free_list s' = []" "alloc_inv s' R" "map snd R = l" by blast
  then have f: "forest (ea_g s') [] (map fst R)" "rules_inv (ea_g s') R" by (simp_all add: alloc_inv_def)
  have "\<exists>i. guard_root (ea_g s') j (l ! j) i" if "j < length l" for j
  proof -
    from that 1(4) have "j < length R" "l ! j = snd (R ! j)" by auto
    with guard_roots [OF f, of j] show ?thesis by auto
  qed
  moreover have "length (rule_pool (ea_g s')) = length l" using f(2) 1(4) by (auto simp: rules_inv_def)
  ultimately show ?thesis using 1 by blast
qed

theorem create_unique_process_graph_correct_witness:
  "\<exists>s'. create_unique_process_graph 3 gate_flags 10 gate_type expr_alloc_new = Some s' \<and>
     (\<exists>i. guard_root (ea_g s') 0 (FAnd [FLit 0, FNot (FLit 1)], Drive 2 True False) i) \<and>
     (\<exists>i. guard_root (ea_g s') 1 (FNot (FLit 0), Drive 2 False False) i)"
  using create_unique_process_graph_correct [OF gate_roots gate_start] by (auto simp: All_less_Suc2)

text \<open>
  C34. Well-formedness of the created graph: it passes \<^verbatim>\<open>check_structure\<close> (each expression is a proper child of its
  parent or a root listed once under its node, fanout lists and leaves name each other), and it is the forest with
  valid indices, offsets and sizes that evaluation relies on.
\<close>

theorem created_graph_well_formed:
  assumes "type_roots k flags dflt t = Some l" and "any_optimize flags" and "pt_invariants t = []"
    and "expr_free_list s = []" and "\<not> at_source s" and "\<not> suppress_keeper_rule s"
  shows "\<exists>s'. create_unique_process_graph k flags dflt t s = Some s' \<and> check_structure (ea_g s') \<and>
    graph_ok (process_graph.truncate (ea_g s')) \<and> length (local_faninout_map (ea_g s')) = length (pt_atomic t)"
proof -
  from create_unique_process_graph_spec [OF assms] obtain s' R where
    1: "create_unique_process_graph k flags dflt t s = Some s'" "expr_free_list s' = []" "alloc_inv s' R" "idle (length (pt_atomic t)) s'" by blast
  then have f: "forest (ea_g s') [] (map fst R)" "rules_inv (ea_g s') R" by (simp_all add: alloc_inv_def)
  with 1 alloc_check_structure [OF f] alloc_graph_ok [OF f] show ?thesis by (auto simp: idle_def)
qed

theorem created_graph_well_formed_witness:
  "\<exists>s'. create_unique_process_graph 3 gate_flags 10 gate_type expr_alloc_new = Some s' \<and> check_structure (ea_g s') \<and>
     graph_ok (process_graph.truncate (ea_g s'))"
  using created_graph_well_formed [OF gate_roots gate_start] by blast

text \<open>
  C35. \<^verbatim>\<open>visit(footprint_expr_node)\<close> under every setting of the optimization flags: from a graph that is a forest it
  adds exactly one tree, whose value is that of the footprint expression, and leaves every other expression as it
  was. Graph surgery may free expressions of the new tree only.
\<close>

theorem visit_expr_correct:
  assumes "fe_tree ok N pf k i = Some e" and "forest (ea_g s) (expr_free_list s) F" and "ready ok N s"
  shows "\<exists>s' t. visit_expr k pf flags i s = Some s' \<and> ret_ex_index s' = root_ix t \<and>
    forest (ea_g s') (expr_free_list s') (t # F) \<and> tree_closed (ea_g s') t \<and>
    (\<forall>val. tree_val (ea_g s') val t = fexpr_value val e) \<and>
    (\<forall>u \<in> set F. \<forall>val. tree_val (ea_g s') val u = tree_val (ea_g s) val u)"
proof -
  from buildsD [OF visit_expr_builds assms, of flags] obtain s' t where 1: "visit_expr k pf flags i s = Some s'" "built s F s' t e" by blast
  have "tree_val (ea_g s') val u = tree_val (ea_g s) val u" if u: "u \<in> set F" for u val
  proof -
    have "set (ixs u) \<subseteq> set (forest_ixs F)" using u by (auto simp: forest_ixs_def)
    then have "eq_on (set (ixs u)) (ea_g s) (ea_g s')" using 1(2) by (auto simp: built_def intro: eq_on_mono)
    with rep_frame(1) [OF forest_in(1) [OF assms(2) u]] show ?thesis by blast
  qed
  with 1 show ?thesis by (auto simp: built_def)
qed

theorem visit_expr_correct_witness:
  "\<exists>s' t. visit_expr 3 gate_prs gate_flags 4 (expr_alloc_new\<lparr>ea_g := subgraph_new\<lparr>local_faninout_map := [faninout_new, faninout_new]\<rparr>\<rparr>) = Some s' \<and>
     tree_val (ea_g s') (\<lambda>n. if n = 0 then PULL_ON else PULL_OFF) t = PULL_ON"
proof -
  let ?s = "expr_alloc_new\<lparr>ea_g := subgraph_new\<lparr>local_faninout_map := [faninout_new, faninout_new]\<rparr>\<rparr>"
  have "ea_g ?s = subgraph_new\<lparr>local_faninout_map := map (\<lambda>a. faninout_new\<lparr>fio_is_atomic := a\<rparr>) [False, False]\<rparr>" by (simp add: faninout_new_def)
  then have f: "forest (ea_g ?s) (expr_free_list ?s) []" using fresh_graph_inv [of ?s "[False, False]"] by (simp add: alloc_inv_def expr_alloc_new_def)
  have t: "fe_tree False 2 gate_prs 3 4 = Some (FAnd [FLit 0, FNot (FLit 1)])" by code_simp
  have r: "ready False 2 ?s" by (simp add: ready_def expr_alloc_new_def)
  have "fexpr_value (\<lambda>n. if n = 0 then PULL_ON else PULL_OFF) (FAnd [FLit 0, FNot (FLit 1)]) = PULL_ON" by code_simp
  with visit_expr_correct [OF t f r, of gate_flags] show ?thesis by metis
qed

section \<open>Timing checks\<close>

text \<open>
  C36. Timing checks. The two implementations in the sources, looking back from a trigger to the last edges of its
  reference nodes and posting checks forward from each edge of a reference node, report the same violations at every
  transition of a run: with tables built for the same constraints, from a state in which no edge was seen, for every
  sequence of transitions in the order of time in which the clocks of hold constraints never become X.
\<close>

theorem timing_checks_agree:
  assumes "same_constraints env tabs tc ftabs (timing_checker.truncate fc) s" and "fwd_inv fc" and "posted fc = {}"
    and "\<forall>r < length (node_pool s). last_edge_time (node_pool s ! r) = (\<lambda>_. -1)"
    and "sorted (map edge_time es)" and "\<forall>x \<in> set es. 0 \<le> edge_time x" and "\<forall>x \<in> set es. fst x < length (node_pool s)"
    and "definite_refs (lb_hold env tabs tc s) es"
  shows "\<exists>L F. lb_run env tabs tc c es s = Some L \<and> fwd_run env ftabs s es fc = Some F \<and> list_all2 (\<lambda>xs ys. set xs = set ys) L F"
proof -
  have "lb_hist [] s" using assms(4) by (simp add: lb_hist_def last_time_def get_last_transition_time_def)
  moreover have "same_processes s s" by (simp add: same_processes_def)
  ultimately show ?thesis using runs_agree [where H = "[]" and now = 0, OF assms(1) _ _ refl fwd_new_hist [OF assms(2,3)]] assms(5-8) by simp
qed

theorem timing_checks_agree_witness:
  "\<exists>L F. lb_run inv_env [ff_table] ff_checker EMPTY_CAUSE [(3, LOGIC_HIGH, 10), (4, LOGIC_HIGH, 12), (3, LOGIC_LOW, 13)] inv_x = Some L \<and>
     fwd_run inv_env [ff_fwd_table] inv_x [(3, LOGIC_HIGH, 10), (4, LOGIC_HIGH, 12), (3, LOGIC_LOW, 13)] ff_fwd_checker = Some F \<and>
     list_all2 (\<lambda>xs ys. set xs = set ys) L F"
proof (rule timing_checks_agree [OF ff_same ff_fwd_inv])
  show "\<forall>r < length (node_pool inv_x). last_edge_time (node_pool inv_x ! r) = (\<lambda>_. -1)"
    by (auto simp: inv_x_def inv_nodes_def NodeState_new_def nth_Cons split: nat.splits)
  show "\<forall>x \<in> set [(3, LOGIC_HIGH, 10 :: rat), (4, LOGIC_HIGH, 12), (3, LOGIC_LOW, 13)]. fst x < length (node_pool inv_x)"
    by (simp add: inv_x_def inv_nodes_def)
qed (simp_all add: definite_refs_def)

section \<open>Channels\<close>

text \<open>
  C37. Round trip of a channel value. When a channel with data rails (1ofN or bundled, any radix, width and sense) has a
  current value between its minimum and its maximum, the source asks for one event on each of its rails, changes
  nothing else of the channel, and once these events have happened, in a circuit in any state, reading the rails gives
  the value back, with its sign when the channel is signed.
\<close>

theorem channel_value_roundtrip:
  assumes "rails_ok (cr_chan r)" and "is_one_of_n (cr_chan r) \<or> is_bus (cr_chan r)" and "representable (cr_chan r) v"
    and "is_signed (cr_chan r) \<longrightarrow> can_be_signed (cr_chan r)" and "current_value (cr_chan r) = Some (v, d)"
  shows "\<exists>r' evs. set_all_data_rails env vw r = Some r' \<and> cr_chan r' = cr_chan r \<and> asked r' = asked r @ evs \<and>
    map fst evs = all_rails (cr_chan r) \<and> (\<forall>vw'. data_rails_value (drive evs vw') (cr_chan r) = Some v)"
  by (rule send_and_read [OF assms])

theorem channel_value_roundtrip_witness:
  "\<forall>env k. \<exists>r' evs. set_all_data_rails env low_view (chan_start dual_channel k) = Some r' \<and> asked r' = evs \<and>
     map fst evs = [1, 2, 3, 4] \<and> data_rails_value (drive evs low_view) dual_channel = Some 2"
proof (intro allI)
  fix env k
  have "current_value dual_channel = Some (2, False)" by (simp add: current_value_def nth_opt_def)
  with channel_value_roundtrip [of "chan_start dual_channel k" 2 False env low_view] dual_rails_ok dual_representable(1)
  show "\<exists>r' evs. set_all_data_rails env low_view (chan_start dual_channel k) = Some r' \<and> asked r' = evs \<and>
     map fst evs = [1, 2, 3, 4] \<and> data_rails_value (drive evs low_view) dual_channel = Some 2" by auto
qed

text \<open>
  C38. The counters of a channel. After the counters of a channel were initialized from the nodes, any sequence of
  changes of its nodes, each reported to the channel, leaves them the exact numbers of active and of unknown rails,
  and the data array as it was. The counters are 8 bits wide and the channel has at most 255 rails.
\<close>

theorem channel_counters_exact:
  assumes "initialize_data_counter vw c0 = Some c" and "counted c0" and "signals_ok c0" and "distinct (all_rails c0)"
    and "length (all_rails c0) \<le> 255" and "run_nodes env es (vw, chan_start c k) = Some (vw', r)"
    and "\<forall>e \<in> set es. fst e \<in> set (get_all_nodes c0)"
  shows "unat (counter_state (cr_chan r)) = rail_count (rail_active (get_data_sense c0)) vw' (all_rails c0) \<and>
    unat (x_counter (cr_chan r)) = rail_count (\<lambda>v. v = LOGIC_OTHER) vw' (all_rails c0) \<and> ch_data (cr_chan r) = ch_data c0"
proof -
  from initialize_data_counter_ok [OF assms(1,2)] have 1: "counters_ok vw c" "c = c0\<lparr>counter_state := counter_state c, x_counter := x_counter c\<rparr>" by auto
  have s: "chan_shape c = chan_shape c0" by (subst 1(2)) (simp add: chan_shape_def)
  with 1(1) assms(2-5) have "tracked vw (cr_chan (chan_start c k))" by (simp add: tracked_def chan_shape_eqD [OF s])
  from run_nodes_tracked [OF assms(6) this] assms(7) have 2: "tracked vw' (cr_chan r)" "chan_shape (cr_chan r) = chan_shape c0"
    by (auto simp: chan_shape_eqD [OF s] s)
  then have "ch_data (cr_chan r) = ch_data c0" by (simp add: chan_shape_def)
  with 2 counters_ok_nat [of vw' "cr_chan r"] assms(5) show ?thesis by (simp add: tracked_def chan_shape_eqD [OF 2(2)])
qed

theorem channel_counters_exact_witness:
  "\<forall>env k. \<exists>r. run_nodes env [(2, LOGIC_HIGH), (3, LOGIC_OTHER)] (low_view, chan_start dual_channel k) =
       Some (low_view(2 \<mapsto> LOGIC_HIGH, 3 \<mapsto> LOGIC_OTHER), r) \<and>
     unat (counter_state (cr_chan r)) = 1 \<and> unat (x_counter (cr_chan r)) = 1"
proof (intro allI)
  fix env k
  obtain r where r: "run_nodes env [(2, LOGIC_HIGH), (3, LOGIC_OTHER)] (low_view, chan_start dual_channel k) =
      Some (low_view(2 \<mapsto> LOGIC_HIGH, 3 \<mapsto> LOGIC_OTHER), r)" using dual_run by blast
  from channel_counters_exact [OF dual_counted dual_rails_ok(3,4) _ _ r]
  have "unat (counter_state (cr_chan r)) = 1 \<and> unat (x_counter (cr_chan r)) = 1"
    by (simp add: get_all_nodes_def rail_count_def rail_active_def)
  with r show "\<exists>r. run_nodes env [(2, LOGIC_HIGH), (3, LOGIC_OTHER)] (low_view, chan_start dual_channel k) =
       Some (low_view(2 \<mapsto> LOGIC_HIGH, 3 \<mapsto> LOGIC_OTHER), r) \<and>
     unat (counter_state (cr_chan r)) = 1 \<and> unat (x_counter (cr_chan r)) = 1" by blast
qed

text \<open>
  C39. A four-phase handshake delivers. A 1ofN channel that is source and sink at once, with neutral rails, an
  inactive acknowledge and values to send, is resumed; then the events that it asks for happen one at a time, in any
  order. As long as fewer than \<open>2 * bundles + 2\<close> events per value have happened, some event is pending and every
  pending one can happen; after exactly that many, none is pending and the log holds the values that were to be sent, in
  their order.
\<close>

theorem handshake_delivers:
  assumes "loop_ready vw c vs"
  shows "\<exists>r. ch_resume env vw (chan_start c k) = Some r \<and>
    (\<forall>n vw' c' k' P. (loop_step env ^^ n) (vw, cr_chan r, cr_pos r, new_events vw r) (vw', c', k', P) \<longrightarrow>
       n \<le> (2 * bundles c + 2) * length vs \<and>
       (if n < (2 * bundles c + 2) * length vs
        then P \<noteq> [] \<and> (\<forall>(ni, nxt) \<in> set P. \<exists>prev r. vw' ni = Some prev \<and>
          ch_process_node env (vw'(ni \<mapsto> nxt)) ni prev nxt (chan_start c' k') = Some r)
        else P = [] \<and> (\<exists>f. dumplog c' = Some (f, map Some vs))))"
  by (rule loop_delivers [OF assms])

theorem handshake_delivers_witness:
  "\<forall>env k. \<exists>r. ch_resume env low_view (chan_start dual_channel k) = Some r \<and>
    (\<forall>vw' c' k' P. (loop_step env ^^ 12) (low_view, cr_chan r, cr_pos r, new_events low_view r) (vw', c', k', P) \<longrightarrow>
       P = [] \<and> (\<exists>f. dumplog c' = Some (f, [Some 2, Some 1])))"
proof (intro allI)
  fix env k
  from handshake_delivers [OF dual_ready, of env k] obtain r where
    1: "ch_resume env low_view (chan_start dual_channel k) = Some r" and
    2: "\<And>n vw' c' k' P. (loop_step env ^^ n) (low_view, cr_chan r, cr_pos r, new_events low_view r) (vw', c', k', P) \<Longrightarrow>
      n = 12 \<Longrightarrow> P = [] \<and> (\<exists>f. dumplog c' = Some (f, [Some 2, Some 1]))" by force
  from 1 2 [OF _ refl] show "\<exists>r. ch_resume env low_view (chan_start dual_channel k) = Some r \<and>
    (\<forall>vw' c' k' P. (loop_step env ^^ 12) (low_view, cr_chan r, cr_pos r, new_events low_view r) (vw', c', k', P) \<longrightarrow>
       P = [] \<and> (\<exists>f. dumplog c' = Some (f, [Some 2, Some 1])))" by blast
qed

text \<open>
  C40. Checkpoints of channels. Loading what was saved, whatever follows it in the file, gives the same channels, except
  that the map from nodes to rails and the name of the value file are lost and the log starts anew; the index of names
  and the map from nodes to the channels that contain them are rebuilt.
\<close>

theorem channel_checkpoint_roundtrip:
  assumes "\<forall>c \<in> set (channel_pool m). \<forall>row \<in> set (ch_data c). length row = ch_radix c" and "distinct (map ch_name (channel_pool m))"
  shows "\<exists>m'. manager_load_checkpoint d (manager_save_checkpoint m @ xs) = Some (m', xs) \<and>
    channel_pool m' = map (\<lambda>c. c\<lparr>dumplog := map_option (\<lambda>(f, _). (f, [])) (dumplog c), inject_expect_file := '''',
      node_to_rail := Map.empty\<rparr>) (channel_pool m) \<and>
    (\<forall>k < length (channel_pool m). channel_index_set m' (ch_name (channel_pool m ! k)) = Some k) \<and>
    (\<forall>ni k. (\<exists>l. node_channels_map m' ni = Some l \<and> k \<in> set l) \<longleftrightarrow>
       k < length (channel_pool m) \<and> ni \<in> set (get_all_nodes (channel_pool m ! k)))"
  using load_saved_manager [of m d xs] assms unfolding rectangular_def restored_def .

theorem channel_checkpoint_roundtrip_witness:
  "\<exists>m'. manager_load_checkpoint 0 (manager_save_checkpoint dual_manager @ [CkNat 7]) = Some (m', [CkNat 7]) \<and>
     channel_index_set m' ''c'' = Some 0 \<and> (\<exists>l. node_channels_map m' 5 = Some l \<and> 0 \<in> set l)"
proof -
  from channel_checkpoint_roundtrip [OF dual_manager_ok(1) [unfolded rectangular_def] dual_manager_ok(2), of 0 "[CkNat 7]"] obtain m' where
    m': "manager_load_checkpoint 0 (manager_save_checkpoint dual_manager @ [CkNat 7]) = Some (m', [CkNat 7])"
      "\<forall>k < length (channel_pool dual_manager). channel_index_set m' (ch_name (channel_pool dual_manager ! k)) = Some k"
      "\<forall>ni k. (\<exists>l. node_channels_map m' ni = Some l \<and> k \<in> set l) \<longleftrightarrow>
        k < length (channel_pool dual_manager) \<and> ni \<in> set (get_all_nodes (channel_pool dual_manager ! k))" by blast
  have "channel_pool dual_manager = [dual_channel]" "ch_name dual_channel = ''c''" by (simp_all add: dual_manager_def dual_channel_def)
  with m'(2,3) have "channel_index_set m' ''c'' = Some 0" "\<exists>l. node_channels_map m' 5 = Some l \<and> 0 \<in> set l"
    by (simp_all add: get_all_nodes_def)
  with m'(1) show ?thesis by blast
qed

end
